(* ===== verification/OSP_Prelude.thy ===== *)
theory OSP_Prelude
  imports Main "HOL-Library.Word" "HOL-Library.List_Lexorder" "HOL-Library.Multiset"
begin

text \<open>
  Shared vocabulary of the development: the machine types of the AssemblyScript contracts,
  the result type in which every revert is a value, the two sequencing combinators that all
  operations are written with, atomic execution of a list of transactions, and the generic
  lemmas on words, maps and byte lists that the component theories use.
\<close>

section \<open>Types\<close>

type_synonym byte = "8 word"
type_synonym bytes = "byte list" \<comment> \<open>\<open>Uint8Array\<close>; \<open>bytes option\<close> is \<open>Uint8Array | null\<close>\<close>
type_synonym u16 = "16 word"
type_synonym u32 = "32 word"
type_synonym u64 = "64 word"
type_synonym ustring = "u16 list" \<comment> \<open>an AssemblyScript string: its UTF-16 code units\<close>

text \<open>An ASCII literal of the source as a list of UTF-16 code units.\<close>

definition utf16 :: "string \<Rightarrow> ustring" where
  "utf16 s = map of_char s"

text \<open>
  The ways a transaction is undone: \<open>System.require\<close> with its message,
  \<open>System.requireAuthority\<close> for an account that did not sign, and a failed non-null
  assertion (the trap of \<open>x!\<close>).
\<close>

datatype revert = Revert string | Unauthorized bytes | Trap string

type_synonym 'a result = "revert + 'a"

section \<open>Sequencing\<close>

named_theorems inversion \<open>success of an operation, broken into the facts it implies\<close>

text \<open>\<open>System.require(c, msg); k\<close>\<close>

definition require :: "bool \<Rightarrow> string \<Rightarrow> 'a result \<Rightarrow> 'a result" where
  "require c msg k = (if c then k else Inl (Revert msg))"

text \<open>\<open>const x = m; k x\<close> where \<open>m\<close> may revert.\<close>

definition attempt :: "'a result \<Rightarrow> ('a \<Rightarrow> 'b result) \<Rightarrow> 'b result" where
  "attempt m k = (case m of Inl e \<Rightarrow> Inl e | Inr x \<Rightarrow> k x)"

text \<open>\<open>x!\<close>: the value, or the trap when it is null.\<close>

definition non_null :: "'a option \<Rightarrow> string \<Rightarrow> 'a result" where
  "non_null v what = (case v of None \<Rightarrow> Inl (Trap what) | Some x \<Rightarrow> Inr x)"

lemma require_Inr [simp, inversion]: "require c msg k = Inr r \<longleftrightarrow> c \<and> k = Inr r"
  by (simp add: require_def)

lemma require_True [simp]: "require True msg k = k"
  by (simp add: require_def)

lemma require_False [simp]: "require False msg k = Inl (Revert msg)"
  by (simp add: require_def)

lemma require_Inl [inversion]:
  "require c msg k = Inl e \<longleftrightarrow> (\<not> c \<and> e = Revert msg) \<or> (c \<and> k = Inl e)"
  by (auto simp: require_def)

lemma require_failed: "\<not> c \<Longrightarrow> require c msg k = Inl (Revert msg)"
  by simp

lemma attempt_Inr [simp, inversion]: "attempt m k = Inr r \<longleftrightarrow> (\<exists>x. m = Inr x \<and> k x = Inr r)"
  by (auto simp: attempt_def split: sum.splits)

lemma attempt_of_Inr [simp]: "attempt (Inr x) k = k x"
  by (simp add: attempt_def)

lemma attempt_of_Inl [simp]: "attempt (Inl e) k = Inl e"
  by (simp add: attempt_def)

lemma attempt_Inl [inversion]:
  "attempt m k = Inl e \<longleftrightarrow> m = Inl e \<or> (\<exists>x. m = Inr x \<and> k x = Inl e)"
  by (auto simp: attempt_def split: sum.splits)

lemma non_null_Inr [simp, inversion]: "non_null v what = Inr x \<longleftrightarrow> v = Some x"
  by (auto simp: non_null_def split: option.splits)

lemma non_null_Some [simp]: "non_null (Some x) what = Inr x"
  by (simp add: non_null_def)

lemma non_null_None [simp]: "non_null None what = Inl (Trap what)"
  by (simp add: non_null_def)

lemma map_sum_fst_Inr [simp]: "map_sum id fst m = Inr x \<longleftrightarrow> (\<exists>y. m = Inr (x, y))"
  by (cases m) force+

text \<open>The same inversion for the branches of a \<open>null\<close> test and of a conditional.\<close>

lemma case_option_Inr [inversion]:
  "(case v of None \<Rightarrow> a | Some x \<Rightarrow> f x) = Inr r \<longleftrightarrow>
     (v = None \<and> a = Inr r) \<or> (\<exists>x. v = Some x \<and> f x = Inr r)"
  by (cases v) auto

lemma if_Inr [inversion]: "(if c then a else b) = Inr r \<longleftrightarrow> (c \<and> a = Inr r) \<or> (\<not> c \<and> b = Inr r)"
  by simp

section \<open>Atomic transactions\<close>

text \<open>
  A transaction that reverts leaves the state as it was; the chain then goes on with the
  next one.
\<close>

fun run :: "('c \<Rightarrow> 's \<Rightarrow> 's result) \<Rightarrow> 's \<Rightarrow> 'c list \<Rightarrow> 's" where
  "run exec s [] = s"
| "run exec s (c # cs) = (case exec c s of Inl e \<Rightarrow> run exec s cs | Inr s' \<Rightarrow> run exec s' cs)"

lemma run_append: "run exec s (cs @ ds) = run exec (run exec s cs) ds"
  by (induction cs arbitrary: s) (auto split: sum.splits)

text \<open>
  The contract of a stored state: an invariant that every successful operation keeps. A
  component proves the law once (one interpretation per contract) and gets the run facts.
\<close>

locale kept_invariant =
  fixes exec :: "'c \<Rightarrow> 's \<Rightarrow> 's result"
    and inv :: "'s \<Rightarrow> bool"
  assumes keeps: "inv s \<Longrightarrow> exec c s = Inr s' \<Longrightarrow> inv s'"
begin

lemma run_keeps: "inv s \<Longrightarrow> inv (run exec s cs)"
  by (induction cs arbitrary: s) (auto split: sum.splits intro: keeps)

end

text \<open>
  A relation between the state before and the state after (a field that never changes, a
  counter that never goes back) that every successful operation respects. Invariants may be
  assumed for the state before.
\<close>

locale kept_relation = kept_invariant +
  fixes rel :: "'b \<Rightarrow> 'b \<Rightarrow> bool"
  assumes rel_refl: "rel s s"
    and rel_trans: "rel s t \<Longrightarrow> rel t u \<Longrightarrow> rel s u"
    and step_rel: "inv s \<Longrightarrow> exec c s = Inr s' \<Longrightarrow> rel s s'"
begin

lemma run_rel: "inv s \<Longrightarrow> rel s (run exec s cs)"
proof (induction cs arbitrary: s)
  case Nil
  show ?case by (simp add: rel_refl)
next
  case (Cons c cs)
  show ?case
  proof (cases "exec c s")
    case (Inl e)
    with Cons show ?thesis by simp
  next
    case (Inr s')
    with Cons.prems have "inv s'" and "rel s s'" by (auto intro: keeps step_rel)
    with Cons.IH Inr show ?thesis by (auto intro: rel_trans)
  qed
qed

end

text \<open>
  A contract that calls another one works on the pair of the callee's state and its own.
\<close>

text \<open>An operation that leaves the called contracts alone.\<close>

definition local_op :: "('s \<Rightarrow> ('s \<times> 'e) result) \<Rightarrow> 'w \<times> 's \<Rightarrow> (('w \<times> 's) \<times> 'e) result" where
  "local_op f s = attempt (f (snd s)) (\<lambda>(st', evs). Inr ((fst s, st'), evs))"

lemma local_op_Inr [simp, inversion]:
  "local_op f s = Inr (s', evs) \<longleftrightarrow> (\<exists>st'. f (snd s) = Inr (st', evs) \<and> s' = (fst s, st'))"
  by (auto simp: local_op_def)

section \<open>Words\<close>

lemma word_add_eq_unat:
  fixes a b :: "'n::len word"
  shows "unat a + unat b < 2 ^ LENGTH('n) \<Longrightarrow> unat (a + b) = unat a + unat b"
  by (simp add: unat_word_ariths)

lemma word_mult_eq_unat:
  fixes a b :: "'n::len word"
  shows "unat a * unat b < 2 ^ LENGTH('n) \<Longrightarrow> unat (a * b) = unat a * unat b"
  by (simp add: unat_word_ariths)

lemma word_diff_eq_unat:
  fixes a b :: "'n::len word"
  shows "b \<le> a \<Longrightarrow> unat (a - b) = unat a - unat b"
  by (simp add: unat_sub)

lemma unat_min: "unat (min a b) = min (unat a) (unat b)" for a b :: "'n::len word"
  by (simp add: min_def word_le_nat_alt)

lemma unat_less_64 [simp]: "unat (x :: u64) < 18446744073709551616"
  using unsigned_less [where ?'a = nat, of x] by simp

lemma unat_less_32 [simp]: "unat (x :: u32) < 4294967296"
  using unsigned_less [where ?'a = nat, of x] by simp

lemma unat_inc:
  fixes a :: "'n::len word"
  assumes "unat a < 2 ^ LENGTH('n) - 1"
  shows "unat (a + 1) = Suc (unat a)"
  using assms by (simp add: unat_word_ariths)

lemma word_below_max:
  fixes a :: "'n::len word"
  assumes "a < - 1"
  shows "unat a < 2 ^ LENGTH('n) - 1"
  using assms by (simp add: word_less_nat_alt unsigned_minus_1_eq_mask mask_eq_exp_minus_1)

lemma word_zero_less_max [simp]: "(0 :: 'n::len word) < - 1"
  by (simp add: word_gt_0)

lemma word_le_of_nat: "t \<le> of_nat n \<Longrightarrow> unat t \<le> n" for t :: "'n::len word"
  by (metis le_trans unat_of_nat mod_less_eq_dividend word_le_nat_alt)

lemma word_le_of_nat_iff: "n < 2 ^ LENGTH('n) \<Longrightarrow> t \<le> of_nat n \<longleftrightarrow> unat t \<le> n" for t :: "'n::len word"
  by (simp add: word_le_nat_alt unat_of_nat)

section \<open>Byte strings and maps\<close>

text \<open>Storage keys are concatenations; a fixed-width part makes them injective.\<close>

lemma concat_prefix_inj: "length a = length c \<Longrightarrow> a @ b = c @ d \<longleftrightarrow> a = c \<and> b = d"
  by simp

lemma concat_suffix_inj: "length b = length d \<Longrightarrow> a @ b = c @ d \<longleftrightarrow> a = c \<and> b = d"
  by simp

lemma map_upd_other [simp]: "k \<noteq> k' \<Longrightarrow> (m(k \<mapsto> v)) k' = m k'"
  by simp

lemma pred_map_upd:
  assumes "\<And>k v. m k = Some v \<Longrightarrow> P k v" and "P k v"
  shows "(m(k \<mapsto> v)) k' = Some v' \<Longrightarrow> P k' v'"
  using assms by (auto split: if_splits)

lemma finite_dom_upd [simp]: "finite (dom (m(k \<mapsto> v))) \<longleftrightarrow> finite (dom m)"
  by simp

end
