(* ===== verification/Chain.thy ===== *)
theory Chain
  imports OSP_Prelude
begin

text \<open>
  What a contract sees of the chain (\<open>System\<close> of \<open>@koinos/sdk-as\<close>) and the shared helpers of
  \<open>packages/contracts/common/assembly/util.ts\<close>.

  The SDK is not part of the repository, so it is a parameter: the record \<open>env\<close> holds the
  answers of the host to one transaction. A cross-contract call (\<open>System.call\<close> with an entry
  point) is one field per entry point the contracts call, over the decoded messages.
\<close>

unbundle bit_operations_syntax

section \<open>Messages exchanged between contracts\<close>

text \<open>The answer of \<open>identity.resolve_actor\<close>.\<close>

record resolve_actor_result =
  ok :: bool
  signer :: "bytes option"
  reason :: "string option"

text \<open>
  A stored post, read by the token contract through \<open>publications.get_post\<close>. Enum fields are
  the wire integers; the addresses and hashes are never null in a stored record.
\<close>

record post_record =
  post_author :: bytes
  post_sequence :: u64
  version_count :: u32
  latest_version :: bytes
  post_state :: int
  reply_to :: "bytes option"
  post_audience :: int
  created_at :: u64
  post_updated_at :: u64

text \<open>
  The outcome of \<open>System.call\<close>: a non-zero exit code, code zero without a result object, or
  code zero with a (decoded) result object.
\<close>

datatype 'a call_result = Call_Failed | Call_Empty | Call_Object 'a

section \<open>The host\<close>

text \<open>
  The type variable is the part of the chain a called contract may write (the token ledger for
  \<open>token.consume\<close>); every other call of the protocol is read-only.
\<close>

record 'w env =
  head_block_time :: u64
  contract_id :: bytes
  has_authority :: "bytes \<Rightarrow> bool"
  caller :: "bytes option"
  chain_id :: bytes
  hash_sha256 :: "bytes \<Rightarrow> bytes"
  string_to_bytes :: "ustring \<Rightarrow> bytes"
  call_resolve_actor :: "bytes \<Rightarrow> bytes \<Rightarrow> bytes option \<Rightarrow> u32 \<Rightarrow> resolve_actor_result call_result"
  call_is_blocked :: "bytes \<Rightarrow> bytes \<Rightarrow> bytes \<Rightarrow> bool call_result"
  call_get_post :: "bytes \<Rightarrow> bytes \<Rightarrow> post_record option call_result"
  call_consume :: "bytes \<Rightarrow> bytes \<Rightarrow> u64 \<Rightarrow> 'w \<Rightarrow> 'w option"

text \<open>\<open>System.requireAuthority(contract_call, account); k\<close>\<close>

definition require_authority :: "'w env \<Rightarrow> bytes \<Rightarrow> 'a result \<Rightarrow> 'a result" where
  "require_authority env account k = (if has_authority env account then k else Inl (Unauthorized account))"

lemma require_authority_Inr [simp, inversion]:
  "require_authority env account k = Inr r \<longleftrightarrow> has_authority env account \<and> k = Inr r"
  by (simp add: require_authority_def)

lemma require_authority_granted [simp]:
  "has_authority env account \<Longrightarrow> require_authority env account k = k"
  by (simp add: require_authority_def)

lemma require_authority_denied:
  "\<not> has_authority env account \<Longrightarrow> require_authority env account k = Inl (Unauthorized account)"
  by (simp add: require_authority_def)

text \<open>An event is its decoded payload and the list of impacted accounts.\<close>

type_synonym 'e emitted = "'e \<times> bytes list"

section \<open>Util\<close>

definition now :: "'w env \<Rightarrow> u64" where
  "now env = head_block_time env"

text \<open>\<open>out.set(part, offset)\<close> for each part in turn, into a zeroed array of the total length.\<close>

fun concat_total :: "bytes list \<Rightarrow> nat" where
  "concat_total [] = 0"
| "concat_total (p # ps) = length p + concat_total ps"

fun concat_loop :: "bytes list \<Rightarrow> bytes \<Rightarrow> nat \<Rightarrow> bytes" where
  "concat_loop [] out offset = out"
| "concat_loop (p # ps) out offset =
     concat_loop ps (take offset out @ p @ drop (offset + length p) out) (offset + length p)"

definition concat_parts :: "bytes list \<Rightarrow> bytes" where
  "concat_parts parts = concat_loop parts (replicate (concat_total parts) 0) 0"

definition u32be :: "u32 \<Rightarrow> bytes" where
  "u32be v = [ucast (drop_bit 24 v AND 0xff), ucast (drop_bit 16 v AND 0xff),
              ucast (drop_bit 8 v AND 0xff), ucast (v AND 0xff)]"

text \<open>The loop \<open>for (i = 7; i >= 0; i--)\<close>: it fills the array from the last byte.\<close>

fun u64be_loop :: "nat \<Rightarrow> u64 \<Rightarrow> bytes \<Rightarrow> bytes" where
  "u64be_loop 0 v out = out"
| "u64be_loop (Suc i) v out = u64be_loop i (drop_bit 8 v) (ucast (v AND 0xff) # out)"

definition u64be :: "u64 \<Rightarrow> bytes" where
  "u64be v = u64be_loop 8 v []"

text \<open>Lexicographic comparison, as the index loop of the source.\<close>

function compare_loop :: "bytes \<Rightarrow> bytes \<Rightarrow> nat \<Rightarrow> nat \<Rightarrow> int" where
  "compare_loop a b n i =
     (if i < n
      then (if a ! i < b ! i then -1
            else if a ! i > b ! i then 1
            else compare_loop a b n (i + 1))
      else if length a < length b then -1
      else if length a > length b then 1
      else 0)"
  by pat_completeness auto
termination
  by (relation "measure (\<lambda>(a, b, n, i). n - i)") auto

declare compare_loop.simps [simp del]

definition compare :: "bytes \<Rightarrow> bytes \<Rightarrow> int" where
  "compare a b = compare_loop a b (if length a < length b then length a else length b) 0"

definition is_empty :: "bytes option \<Rightarrow> bool" where
  "is_empty v = (case v of None \<Rightarrow> True | Some b \<Rightarrow> length b = 0)"

definition require_bytes :: "bytes option \<Rightarrow> nat \<Rightarrow> string \<Rightarrow> bytes result" where
  "require_bytes v limit what =
     require (\<not> is_empty v) (what @ '' is required'')
     (attempt (non_null v what) (\<lambda>b.
      require (length b \<le> limit) (what @ '' too large'') (Inr b)))"

definition require_address :: "bytes option \<Rightarrow> string \<Rightarrow> bytes result" where
  "require_address v what =
     require (\<not> is_empty v) (what @ '' is required'')
     (attempt (non_null v what) (\<lambda>b.
      require (length b = 25) (what @ '' must be a 25-byte address'') (Inr b)))"

definition require_string :: "ustring option \<Rightarrow> nat \<Rightarrow> string \<Rightarrow> ustring result" where
  "require_string v limit what =
     (case v of None \<Rightarrow> Inr []
      | Some s \<Rightarrow> require (length s \<le> limit) (what @ '' too long'') (Inr s))"

text \<open>
  Checks that several contracts repeat word for word: an optional field is empty (and becomes
  null) or has the given size. \<open>Identity.optionalHash\<close>, \<open>Publications.optionalHash\<close>,
  \<open>Communities.optionalPolicyHash\<close>, \<open>Registry.optionalAbiHash\<close> and
  \<open>Relationships.optionalKeyPackageRef\<close> are instances of the first, the optional strings of
  the second.
\<close>

definition optional_hash :: "bytes option \<Rightarrow> string \<Rightarrow> bytes option result" where
  "optional_hash v what =
     (if is_empty v then Inr None
      else attempt (non_null v what) (\<lambda>b.
           require (length b = 32) (what @ '' must be empty or 32 bytes'') (Inr (Some b))))"

definition optional_string :: "ustring option \<Rightarrow> nat \<Rightarrow> string \<Rightarrow> ustring option result" where
  "optional_string v limit what =
     attempt (require_string v limit what) (\<lambda>s. Inr (if length s = 0 then None else Some s))"

definition optional_bytes :: "bytes option \<Rightarrow> nat \<Rightarrow> string \<Rightarrow> bytes option result" where
  "optional_bytes v limit what =
     (if is_empty v then Inr None
      else attempt (non_null v what) (\<lambda>b.
           require (length b \<le> limit) (what @ '' too large'') (Inr (Some b))))"

section \<open>Byte arrays\<close>

lemma concat_total_length: "concat_total ps = length (concat ps)"
  by (induction ps) auto

lemma concat_loop_append:
  "length out = offset + length (concat ps) \<Longrightarrow>
   concat_loop ps out offset = take offset out @ concat ps"
  by (induction ps arbitrary: out offset) (auto simp: add.assoc)

lemma concat_parts_concat [simp]: "concat_parts ps = concat ps"
  by (simp add: concat_parts_def concat_total_length concat_loop_append)

lemma length_u32be [simp]: "length (u32be v) = 4"
  by (simp add: u32be_def)

lemma length_u64be_loop: "length (u64be_loop n v out) = n + length out"
  by (induction n arbitrary: v out) auto

lemma length_u64be [simp]: "length (u64be v) = 8"
  by (simp add: u64be_def length_u64be_loop)

text \<open>Reading the bytes back, most significant first.\<close>

definition be_value :: "bytes \<Rightarrow> nat" where
  "be_value bs = foldl (\<lambda>acc b. acc * 256 + unat b) 0 bs"

lemma be_value_Nil [simp]: "be_value [] = 0"
  by (simp add: be_value_def)

lemma foldl_be_value:
  "foldl (\<lambda>acc b. acc * 256 + unat (b :: byte)) a bs = a * 256 ^ length bs + be_value bs"
proof (induction bs arbitrary: a)
  case Nil
  show ?case by simp
next
  case (Cons b bs)
  have "foldl (\<lambda>acc b. acc * 256 + unat b) a (b # bs)
      = (a * 256 + unat b) * 256 ^ length bs + be_value bs"
    using Cons.IH [of "a * 256 + unat b"] by simp
  moreover have "be_value (b # bs) = unat b * 256 ^ length bs + be_value bs"
    using Cons.IH [of "unat b"] by (simp add: be_value_def)
  ultimately show ?case by (simp add: algebra_simps)
qed

lemma be_value_Cons: "be_value (b # bs) = unat b * 256 ^ length bs + be_value bs"
  using foldl_be_value [of "unat b" bs] by (simp add: be_value_def)

lemma unat_low_byte: "unat (ucast (v AND 0xff :: u64) :: byte) = unat v mod 256"
proof -
  have "v AND 0xff = take_bit 8 v"
    by (simp add: take_bit_eq_mask mask_eq_exp_minus_1)
  then show ?thesis
    by (simp only: unsigned_ucast_eq unsigned_take_bit_eq) (simp add: take_bit_eq_mod)
qed

lemma u64be_loop_value:
  "be_value (u64be_loop n v out) = (unat v mod 256 ^ n) * 256 ^ length out + be_value out"
proof (induction n arbitrary: v out)
  case 0
  show ?case by simp
next
  case (Suc n)
  have "unat (drop_bit 8 v) = unat v div 256"
    by (simp add: drop_bit_eq_div unat_div_distrib)
  moreover have "unat v mod 256 ^ Suc n = unat v mod 256 + 256 * (unat v div 256 mod 256 ^ n)"
    by (simp add: mod_mult2_eq)
  ultimately show ?case
    using Suc.IH [of "drop_bit 8 v" "ucast (v AND 0xff) # out"]
    by (simp add: be_value_Cons unat_low_byte algebra_simps)
qed

lemma u64be_roundtrip: "be_value (u64be v) = unat v"
  by (simp add: u64be_def u64be_loop_value)

lemma u64be_inj: "u64be v = u64be w \<Longrightarrow> v = w"
  by (metis u64be_roundtrip word_unat_eq_iff)

section \<open>Lexicographic comparison\<close>

text \<open>The index loop is the library's lexicographic order on byte lists.\<close>

lemma compare_loop_done:
  "\<not> i < n \<Longrightarrow> compare_loop a b n i =
     (if length a < length b then -1 else if length a > length b then 1 else 0)"
  by (subst compare_loop.simps) simp

lemma compare_loop_step:
  "i < n \<Longrightarrow> compare_loop a b n i =
     (if a ! i < b ! i then -1 else if a ! i > b ! i then 1 else compare_loop a b n (Suc i))"
  by (subst compare_loop.simps) simp

definition lex_sign :: "bytes \<Rightarrow> bytes \<Rightarrow> int" where
  "lex_sign a b = (if a < b then -1 else if b < a then 1 else 0)"

lemma lex_sign_Nil:
  "lex_sign [] [] = 0" "lex_sign [] (y # ys) = -1" "lex_sign (x # xs) [] = 1"
  by (simp_all add: lex_sign_def)

lemma lex_sign_Cons:
  "lex_sign (x # xs) (y # ys) = (if x < y then -1 else if y < x then 1 else lex_sign xs ys)"
  by (auto simp: lex_sign_def)

lemma compare_loop_lex:
  "n = min (length a) (length b) \<Longrightarrow> i \<le> n \<Longrightarrow>
   compare_loop a b n i = lex_sign (drop i a) (drop i b)"
proof (induction "n - i" arbitrary: i)
  case 0
  then have "\<not> i < n" by linarith
  with 0 show ?case
    by (cases "length a" "length b" rule: linorder_cases; cases "drop i a"; cases "drop i b")
      (auto simp: compare_loop_done lex_sign_Nil)
next
  case (Suc k)
  then have "i < n" by linarith
  with Suc.prems have "i < length a" and "i < length b" by auto
  then have "drop i a = a ! i # drop (Suc i) a" and "drop i b = b ! i # drop (Suc i) b"
    by (simp_all add: Cons_nth_drop_Suc)
  moreover have "compare_loop a b n (Suc i) = lex_sign (drop (Suc i) a) (drop (Suc i) b)"
    using Suc \<open>i < n\<close> by simp
  ultimately show ?case
    using \<open>i < n\<close> by (simp only: compare_loop_step lex_sign_Cons)
qed

lemma compare_lex: "compare a b = (if a < b then -1 else if b < a then 1 else 0)"
proof -
  have "(if length a < length b then length a else length b) = min (length a) (length b)"
    by simp
  then show ?thesis
    using compare_loop_lex [of "min (length a) (length b)" a b 0]
    by (simp only: compare_def) (simp add: lex_sign_def)
qed

lemma compare_neg [simp]: "compare a b < 0 \<longleftrightarrow> a < b"
  by (simp add: compare_lex)

lemma compare_pos [simp]: "compare a b > 0 \<longleftrightarrow> b < a"
  by (auto simp: compare_lex)

lemma compare_nonpos [simp]: "compare a b \<le> 0 \<longleftrightarrow> a \<le> b"
  by (auto simp: compare_lex)

section \<open>What the checks guarantee\<close>

lemma is_empty_iff [simp]: "is_empty v \<longleftrightarrow> v = None \<or> v = Some []"
  by (auto simp: is_empty_def split: option.splits)

lemma require_address_Inr [simp, inversion]:
  "require_address v what = Inr a \<longleftrightarrow> v = Some a \<and> length a = 25"
  by (auto simp: require_address_def)

lemma require_address_ok [simp]: "length a = 25 \<Longrightarrow> require_address (Some a) what = Inr a"
  by simp

lemma require_bytes_Inr [simp, inversion]:
  "require_bytes v limit what = Inr b \<longleftrightarrow> v = Some b \<and> b \<noteq> [] \<and> length b \<le> limit"
  by (auto simp: require_bytes_def)

lemma require_string_Inr [simp, inversion]:
  "require_string v limit what = Inr s \<longleftrightarrow> (case v of None \<Rightarrow> s = [] | Some t \<Rightarrow> s = t \<and> length t \<le> limit)"
  by (auto simp: require_string_def split: option.splits)

lemma optional_hash_Inr [simp, inversion]:
  "optional_hash v what = Inr r \<longleftrightarrow>
     (is_empty v \<and> r = None) \<or> (\<exists>b. v = Some b \<and> length b = 32 \<and> r = v)"
  by (auto simp: optional_hash_def non_null_def split: option.splits)

lemma optional_bytes_Inr [simp, inversion]:
  "optional_bytes v limit what = Inr r \<longleftrightarrow>
     (is_empty v \<and> r = None) \<or> (\<exists>b. v = Some b \<and> b \<noteq> [] \<and> length b \<le> limit \<and> r = v)"
  by (auto simp: optional_bytes_def non_null_def split: option.splits)

lemma optional_string_Inr:
  "optional_string v limit what = Inr r \<Longrightarrow> (case r of None \<Rightarrow> True | Some s \<Rightarrow> v = r \<and> s \<noteq> [] \<and> length s \<le> limit)"
  by (auto simp: optional_string_def require_string_def require_def split: option.splits if_splits)

section \<open>A concrete host\<close>

text \<open>
  A host for the witnesses: at the given time, with every signature present, no other
  contract answering, and a fixed stand-in for the hash.
\<close>

definition sample_addr :: "byte \<Rightarrow> bytes" where
  "sample_addr n = replicate 25 n"

definition sample_env :: "u64 \<Rightarrow> 'w env" where
  "sample_env t = \<lparr>head_block_time = t, contract_id = sample_addr 200, has_authority = (\<lambda>_. True),
     caller = None, chain_id = [18, 32], hash_sha256 = (\<lambda>b. take 32 (rev b @ replicate 32 0)),
     string_to_bytes = map ucast, call_resolve_actor = (\<lambda>_ _ _ _. Call_Failed),
     call_is_blocked = (\<lambda>_ _ _. Call_Failed), call_get_post = (\<lambda>_ _. Call_Failed),
     call_consume = (\<lambda>_ _ _ _. None)\<rparr>"

lemma length_sample_addr [simp]: "length (sample_addr n) = 25"
  by (simp add: sample_addr_def)

lemma sample_addr_nonempty [simp]: "sample_addr n \<noteq> []"
  by (simp add: sample_addr_def)

lemma sample_addr_eq [simp]: "sample_addr m = sample_addr n \<longleftrightarrow> m = n"
  by (simp add: sample_addr_def)

lemma sample_addr_less [simp]: "sample_addr m < sample_addr n \<longleftrightarrow> m < n"
proof -
  have "sample_addr k = k # replicate 24 k" for k by (simp add: sample_addr_def eval_nat_numeral)
  then show ?thesis by auto
qed

lemma sample_addr_le [simp]: "sample_addr m \<le> sample_addr n \<longleftrightarrow> m \<le> n"
  by (simp add: le_less)

lemma sample_env_simps [simp]:
  "now (sample_env t) = t" "has_authority (sample_env t) a" "contract_id (sample_env t) = sample_addr 200"
  "caller (sample_env t) = None"
  by (simp_all add: sample_env_def now_def)

end
