(* ===== verification/Actor.thy ===== *)
theory Actor
  imports Chain
begin

text \<open>
  \<open>packages/contracts/common/assembly/actor.ts\<close>: every protocol action is authorized by the
  signer that the identity contract resolves for (account, device, capability). The identity
  contract only resolves; the signature check runs here. The interface the checks rely on is
  the locale \<open>actor_resolver\<close>, interpreted on the identity contract in theory \<open>Identity\<close>.
\<close>

section \<open>Capability bits\<close>

definition CAP_PUBLISH :: u32 where "CAP_PUBLISH = 1"
definition CAP_REACT :: u32 where "CAP_REACT = 2"
definition CAP_COMMENT :: u32 where "CAP_COMMENT = 4"
definition CAP_RELATIONSHIPS :: u32 where "CAP_RELATIONSHIPS = 8"
definition CAP_COMMUNITY :: u32 where "CAP_COMMUNITY = 16"
definition CAP_PROFILE :: u32 where "CAP_PROFILE = 32"
definition CAP_MESSAGING :: u32 where "CAP_MESSAGING = 64"
definition CAP_SUPPORT :: u32 where "CAP_SUPPORT = 128"

lemmas capability_defs = CAP_PUBLISH_def CAP_REACT_def CAP_COMMENT_def CAP_RELATIONSHIPS_def
  CAP_COMMUNITY_def CAP_PROFILE_def CAP_MESSAGING_def CAP_SUPPORT_def

section \<open>Requiring the resolved signer\<close>

definition require_authorized ::
  "'w env \<Rightarrow> bytes \<Rightarrow> bytes \<Rightarrow> bytes option \<Rightarrow> u32 \<Rightarrow> bytes result" where
  "require_authorized env identity_contract account device capability =
     require (length identity_contract > 0) ''identity contract not configured''
     (let dev = (if device \<noteq> None \<and> length (the device) > 0 then device else None);
          call = call_resolve_actor env identity_contract account dev capability
      in require (call \<noteq> Call_Failed) ''identity resolution failed''
         (case call of
            Call_Object res \<Rightarrow>
              require (ok res) (case reason res of None \<Rightarrow> ''actor not authorized'' | Some r \<Rightarrow> r)
              (attempt (non_null (signer res) ''signer'') (\<lambda>s.
               require_authority env s (Inr s)))
          | _ \<Rightarrow> Inl (Trap ''call.res.object'')))"

definition actor_exists :: "'w env \<Rightarrow> bytes \<Rightarrow> bytes \<Rightarrow> bool result" where
  "actor_exists env identity_contract account =
     require (length identity_contract > 0) ''identity contract not configured''
     (case call_resolve_actor env identity_contract account None 0 of
        Call_Object res \<Rightarrow> Inr (ok res)
      | _ \<Rightarrow> Inr False)"

definition same_address :: "bytes option \<Rightarrow> bytes option \<Rightarrow> bool" where
  "same_address a b = (case (a, b) of (Some x, Some y) \<Rightarrow> x = y | _ \<Rightarrow> False)"

text \<open>A successful check always ends in a signature of the transaction.\<close>

lemma require_authorized_signed:
  "require_authorized env ic account device cap = Inr s \<Longrightarrow> has_authority env s"
  by (auto simp: require_authorized_def Let_def split: call_result.splits)

lemma require_authorized_result:
  "require_authorized env ic account device cap = Inr s \<Longrightarrow>
   \<exists>res dev. dev = (if is_empty device then None else device) \<and>
     call_resolve_actor env ic account dev cap = Call_Object res \<and> ok res \<and> signer res = Some s"
  by (auto simp: require_authorized_def Let_def split: call_result.splits if_splits)

lemma require_authorized_unresolved:
  assumes "call_resolve_actor env ic account (if is_empty device then None else device) cap =
             Call_Object res"
    and "\<not> ok res" and "ic \<noteq> []"
  shows "require_authorized env ic account device cap =
           Inl (Revert (case reason res of None \<Rightarrow> ''actor not authorized'' | Some r \<Rightarrow> r))"
  using assms by (cases device) (auto simp: require_authorized_def Let_def split: if_splits)

lemma actor_exists_Inr:
  "actor_exists env ic account = Inr True \<longleftrightarrow>
   ic \<noteq> [] \<and> (\<exists>res. call_resolve_actor env ic account None 0 = Call_Object res \<and> ok res)"
  by (auto simp: actor_exists_def split: call_result.splits)

section \<open>The interface of the identity contract\<close>

text \<open>
  What the dependent contracts rely on: resolution succeeds exactly for a registered account
  acting for itself or through a device that is good for the capability, and then names the
  owner or that device as the signer.
\<close>

locale actor_resolver =
  fixes resolve_fn :: "bytes \<Rightarrow> bytes option \<Rightarrow> u32 \<Rightarrow> resolve_actor_result"
    and registered :: "bytes \<Rightarrow> bool"
    and owner_of :: "bytes \<Rightarrow> bytes"
    and device_good :: "bytes \<Rightarrow> bytes \<Rightarrow> u32 \<Rightarrow> bool"
  assumes resolve_ok: "a \<noteq> [] \<Longrightarrow> ok (resolve_fn a d c) \<longleftrightarrow>
      registered a \<and> (is_empty d \<or> d = Some a \<or> device_good a (the d) c)"
    and resolve_signer: "a \<noteq> [] \<Longrightarrow> ok (resolve_fn a d c) \<Longrightarrow>
      signer (resolve_fn a d c) = Some (if is_empty d \<or> d = Some a then owner_of a else the d)"
begin

lemma authorized_iff:
  assumes "call_resolve_actor env ic = (\<lambda>a d c. Call_Object (resolve_fn a d c))"
    and "ic \<noteq> []" and "a \<noteq> []"
  shows "require_authorized env ic a d c = Inr s \<longleftrightarrow>
    registered a \<and> has_authority env s \<and>
    (if is_empty d \<or> d = Some a then s = owner_of a else d = Some s \<and> device_good a s c)"
  using assms resolve_ok [of a d c] resolve_signer [of a d c]
    resolve_ok [of a None c] resolve_signer [of a None c]
  by (cases d) (auto simp: require_authorized_def Let_def)

lemma owner_must_sign:
  assumes "call_resolve_actor env ic = (\<lambda>a d c. Call_Object (resolve_fn a d c))"
    and "ic \<noteq> []" and "a \<noteq> []"
  shows "require_authorized env ic a None c = Inr s \<longleftrightarrow>
    registered a \<and> s = owner_of a \<and> has_authority env s"
  using assms by (auto simp: authorized_iff)

lemma exists_registered:
  assumes "call_resolve_actor env ic = (\<lambda>a d c. Call_Object (resolve_fn a d c))"
    and "ic \<noteq> []" and "a \<noteq> []"
  shows "actor_exists env ic a = Inr (registered a)"
  using assms resolve_ok [of a None 0] by (auto simp: actor_exists_def)

end

section \<open>A concrete resolver\<close>

text \<open>A host for the witnesses: every account is registered and acts for itself.\<close>

definition open_env :: "u64 \<Rightarrow> 'w env" where
  "open_env t = (sample_env t)\<lparr>call_resolve_actor :=
     (\<lambda>_ a _ _. Call_Object \<lparr>ok = True, signer = Some a, reason = None\<rparr>)\<rparr>"

lemma open_env_simps [simp]:
  "now (open_env t) = t" "has_authority (open_env t) a" "contract_id (open_env t) = sample_addr 200"
  "caller (open_env t) = None"
  "ic \<noteq> [] \<Longrightarrow> require_authorized (open_env t) ic a d c = Inr a"
  "ic \<noteq> [] \<Longrightarrow> actor_exists (open_env t) ic a = Inr True"
  by (simp_all add: open_env_def now_def require_authorized_def actor_exists_def sample_env_def Let_def)

end
