(* ===== verification/Timelock.thy ===== *)
theory Timelock
  imports OSP_Prelude
begin

text \<open>
  Two shared contracts of the program's delayed operations. \<open>run_history\<close> is induction over a
  run that remembers the transactions already sent. The locale \<open>timelock\<close> states what the
  registry, the communities and the identity contract promise about a protected value (an
  active contract address, the registry admin, a community owner, a recovery policy, an
  identity owner): it changes only when an announced deadline has passed, and a deadline is
  only ever created as the announcement's time plus the delay then in force.
\<close>

lemma run_snoc: "run exec s (cs @ [c]) =
    (case exec c (run exec s cs) of Inl e \<Rightarrow> run exec s cs | Inr s' \<Rightarrow> s')"
  by (simp add: run_append split: sum.splits)

lemma run_history:
  assumes init: "H [] s"
    and step: "\<And>cs t c t'. H cs t \<Longrightarrow> exec c t = Inr t' \<Longrightarrow> H (cs @ [c]) t'"
    and skip: "\<And>cs t c. H cs t \<Longrightarrow> H (cs @ [c]) t"
  shows "H cs (run exec s cs)"
proof (induction cs rule: rev_induct)
  case Nil
  show ?case by (simp add: init)
next
  case (snoc c cs)
  show ?case
  proof (cases "exec c (run exec s cs)")
    case (Inl e)
    with snoc show ?thesis by (simp add: run_snoc skip)
  next
    case (Inr t')
    with snoc show ?thesis by (simp add: run_snoc step)
  qed
qed

text \<open>
  What holds after a run and did not before was established by one of its transactions, and has
  held since.
\<close>

lemma run_established:
  assumes "\<not> P s" and "P (run exec s cs)"
  obtains before c after s' where "cs = before @ c # after" and "\<not> P (run exec s before)"
    and "exec c (run exec s before) = Inr s'" and "P s'"
    and "\<And>ys zs. after = ys @ zs \<Longrightarrow> P (run exec s' ys)"
proof -
  have "\<exists>before c after s'. cs = before @ c # after \<and> \<not> P (run exec s before) \<and>
      exec c (run exec s before) = Inr s' \<and> P s' \<and> (\<forall>ys zs. after = ys @ zs \<longrightarrow> P (run exec s' ys))"
    using assms(2)
  proof (induction cs rule: rev_induct)
    case Nil
    with assms(1) show ?case by simp
  next
    case (snoc c cs)
    show ?case
    proof (cases "P (run exec s cs)")
      case False
      with snoc.prems obtain s' where "exec c (run exec s cs) = Inr s'" "P s'"
        by (auto simp: run_snoc split: sum.splits)
      with False show ?thesis by (intro exI [of _ cs] exI [of _ c] exI [of _ "[]"] exI [of _ s']) simp
    next
      case True
      then obtain before b after s' where cs: "cs = before @ b # after" and n: "\<not> P (run exec s before)"
        and b: "exec b (run exec s before) = Inr s'" "P s'"
        and held: "\<And>ys zs. after = ys @ zs \<Longrightarrow> P (run exec s' ys)"
        using snoc.IH by blast
      have "P (run exec s' ys)" if "after @ [c] = ys @ zs" for ys zs
      proof (cases zs rule: rev_cases)
        case Nil
        have "run exec s (cs @ [c]) = run exec s' (after @ [c])" by (simp add: cs run_append b)
        with Nil that snoc.prems show ?thesis by simp
      next
        case (snoc zs' z)
        with that have "after = ys @ zs'" by simp
        then show ?thesis by (rule held)
      qed
      with n b cs show ?thesis
        by (intro exI [of _ before] exI [of _ b] exI [of _ "after @ [c]"] exI [of _ s']) auto
    qed
  qed
  with that show thesis by blast
qed

locale timelock =
  fixes exec :: "'c \<Rightarrow> 's \<Rightarrow> 's result"
    and inv :: "'s \<Rightarrow> bool"
    and time :: "'c \<Rightarrow> u64"
    and protected_value :: "'s \<Rightarrow> 'v option"
    and deadline :: "'s \<Rightarrow> u64 option"
    and delay :: "'s \<Rightarrow> u64"
    and announces :: "'c \<Rightarrow> bool"
  assumes inv_step: "inv s \<Longrightarrow> exec c s = Inr s' \<Longrightarrow> inv s'"
    and change_after_deadline: "inv s \<Longrightarrow> exec c s = Inr s' \<Longrightarrow> protected_value s = Some v \<Longrightarrow>
        protected_value s' \<noteq> Some v \<Longrightarrow> \<exists>d. deadline s = Some d \<and> d \<le> time c"
    and deadline_announced: "inv s \<Longrightarrow> exec c s = Inr s' \<Longrightarrow> deadline s' = Some d \<Longrightarrow>
        deadline s = Some d \<or> (announces c \<and> d = time c + delay s)"
begin

sublocale kept_invariant exec inv
  by unfold_locales (rule inv_step)

text \<open>A deadline that stands at the end of a run was announced in it.\<close>

lemma deadline_in_run:
  assumes "inv s" and "deadline s = None" and "deadline (run exec s cs) = Some d"
  shows "\<exists>before c after. cs = before @ c # after \<and> announces c \<and>
           d = time c + delay (run exec s before)"
  using assms(3)
proof (induction cs rule: rev_induct)
  case Nil
  with assms(2) show ?case by simp
next
  case (snoc c cs)
  have inv: "inv (run exec s cs)" using assms(1) by (rule run_keeps)
  show ?case
  proof (cases "deadline (run exec s cs) = Some d")
    case True
    then obtain before c' after where "cs = before @ c' # after" "announces c'"
      "d = time c' + delay (run exec s before)" using snoc.IH by blast
    then have "cs @ [c] = before @ c' # (after @ [c]) \<and> announces c' \<and>
        d = time c' + delay (run exec s before)" by simp
    then show ?thesis by blast
  next
    case False
    with snoc.prems obtain s' where "exec c (run exec s cs) = Inr s'" "deadline s' = Some d"
      by (auto simp: run_snoc split: sum.splits)
    with inv False have "announces c \<and> d = time c + delay (run exec s cs)"
      by (blast dest: deadline_announced)
    then show ?thesis by (intro exI [of _ cs] exI [of _ c] exI [of _ "[]"]) simp
  qed
qed

text \<open>
  So a protected value never changes by surprise: the change comes at least the delay, as it
  stood at the announcement, after some announcing transaction of the run.
\<close>

lemma change_was_announced:
  assumes "inv s" and "deadline s = None"
    and "exec c (run exec s cs) = Inr s'"
    and "protected_value (run exec s cs) = Some v" and "protected_value s' \<noteq> Some v"
  shows "\<exists>before a after. cs = before @ a # after \<and> announces a \<and>
           time a + delay (run exec s before) \<le> time c"
proof -
  have "inv (run exec s cs)" using assms(1) by (rule run_keeps)
  with assms(3-5) obtain d where "deadline (run exec s cs) = Some d" and "d \<le> time c"
    using change_after_deadline by blast
  with deadline_in_run [OF assms(1,2)] show ?thesis by blast
qed

end

end
