(* ===== verification/Identity.thy ===== *)
theory Identity
  imports Actor Timelock
begin

text \<open>
  The identity contract, \<open>packages/contracts/identity/assembly/Identity.ts\<close>: the registry of
  identities and encryption keys, expiring device authorities with capability bits, and M-of-N
  guardian recovery under a delay. The first part is the contract as written, one definition
  per method; the second part is its invariant and the facts the other contracts use.
\<close>

section \<open>State objects\<close>

text \<open>
  The message classes of \<open>assembly/proto/identity.ts\<close>. A field is an option where the contract
  stores null in it; the fields that every constructor call fills with a checked value are not.
\<close>

record identity_record =
  id_account :: bytes
  id_owner :: bytes
  id_encryption_key :: bytes
  id_key_version :: u32
  id_profile_hash :: "bytes option"
  id_profile_uri :: "ustring option"
  id_protocol_version :: u32
  id_device_epoch :: u32
  id_registered_at :: u64
  id_updated_at :: u64

record device_record =
  dev_account :: bytes
  dev_device :: bytes
  dev_capabilities :: u32
  dev_expires_at :: u64
  dev_device_epoch :: u32
  dev_revoked :: bool
  dev_label :: "ustring option"
  dev_authorized_at :: u64

record recovery_policy =
  guardians :: "bytes list"
  threshold :: u32
  delay_ms :: u64

record pending_policy =
  pp_policy :: recovery_policy
  pp_effective_at :: u64

record pending_recovery =
  pr_new_owner :: bytes
  pr_approvals :: "bytes list"
  pr_effective_at :: u64
  pr_proposed_at :: u64

record recovery_state =
  rs_policy :: "recovery_policy option"
  rs_pending_policy :: "pending_policy option"
  rs_pending_recovery :: "pending_recovery option"

text \<open>The three storage maps; devices are keyed by account || device.\<close>

record identity_state =
  identities :: "bytes \<rightharpoonup> identity_record"
  devices :: "bytes \<rightharpoonup> device_record"
  recovery :: "bytes \<rightharpoonup> recovery_state"

definition identity_init :: identity_state where
  "identity_init = \<lparr>identities = Map.empty, devices = Map.empty, recovery = Map.empty\<rparr>"

section \<open>Arguments and events\<close>

record register_arguments =
  reg_account :: "bytes option"
  reg_encryption_key :: "bytes option"
  reg_key_version :: u32
  reg_profile_hash :: "bytes option"
  reg_profile_uri :: "ustring option"

record update_profile_arguments =
  up_account :: "bytes option"
  up_profile_hash :: "bytes option"
  up_profile_uri :: "ustring option"
  up_device :: "bytes option"

record rotate_encryption_key_arguments =
  rot_account :: "bytes option"
  rot_encryption_key :: "bytes option"
  rot_key_version :: u32

record authorize_device_arguments =
  ad_account :: "bytes option"
  ad_device :: "bytes option"
  ad_capabilities :: u32
  ad_expires_at :: u64
  ad_label :: "ustring option"

record revoke_device_arguments =
  rd_account :: "bytes option"
  rd_device :: "bytes option"

record set_recovery_policy_arguments =
  srp_account :: "bytes option"
  srp_policy :: "recovery_policy option"

record propose_recovery_arguments =
  pra_account :: "bytes option"
  pra_guardian :: "bytes option"
  pra_new_owner :: "bytes option"

text \<open>The payloads of the \<open>osp.identity.*\<close> events, fields in the order of the schema.\<close>

datatype identity_event =
    Registered bytes bytes u32 "bytes option" "ustring option" u32 u64
  | Profile_updated bytes "bytes option" "ustring option" u64
  | Key_rotated bytes u32 bytes u32 u64
  | Device_authorized bytes bytes u32 u64 "ustring option" u32 u64
  | Device_revoked bytes bytes u64
  | Recovery_policy_proposed bytes recovery_policy u64
  | Recovery_policy_set bytes recovery_policy u64
  | Recovery_policy_cancelled bytes u64
  | Recovery_proposed bytes bytes bytes u32 u32 u64 u64
  | Recovery_cancelled bytes u64
  | Recovered bytes bytes bytes u32 u64

type_synonym identity_outcome = "(identity_state \<times> identity_event emitted list) result"

section \<open>Constants\<close>

definition PROTOCOL_VERSION :: u32 where "PROTOCOL_VERSION = 1"
definition MAX_PROFILE_URI_CHARS :: nat where "MAX_PROFILE_URI_CHARS = 512"
definition MAX_LABEL_CHARS :: nat where "MAX_LABEL_CHARS = 64"
definition MAX_CAPABILITIES :: u32 where "MAX_CAPABILITIES = 255"
definition DAY_MS :: u64 where "DAY_MS = 86400000"
definition MAX_DEVICE_LIFETIME_MS :: u64 where "MAX_DEVICE_LIFETIME_MS = 366 * DAY_MS"
definition MAX_RECOVERY_DELAY_MS :: u64 where "MAX_RECOVERY_DELAY_MS = 365 * DAY_MS"
definition MAX_GUARDIANS :: nat where "MAX_GUARDIANS = 16"

lemmas identity_limits = PROTOCOL_VERSION_def MAX_PROFILE_URI_CHARS_def MAX_LABEL_CHARS_def
  MAX_CAPABILITIES_def MAX_DEVICE_LIFETIME_MS_def MAX_RECOVERY_DELAY_MS_def MAX_GUARDIANS_def
  DAY_MS_def

section \<open>Internal helpers\<close>

definition device_key :: "bytes \<Rightarrow> bytes \<Rightarrow> bytes" where
  "device_key account device = concat_parts [account, device]"

definition load_identity :: "bytes \<Rightarrow> identity_state \<Rightarrow> identity_record result" where
  "load_identity account st =
     require (identities st account \<noteq> None) ''identity not registered''
     (non_null (identities st account) ''rec'')"

definition require_owner :: "'w env \<Rightarrow> identity_record \<Rightarrow> bytes result" where
  "require_owner env rec = require_authority env (id_owner rec) (Inr (id_owner rec))"

definition identity_optional_hash :: "bytes option \<Rightarrow> string \<Rightarrow> bytes option result" where
  "identity_optional_hash v what = optional_hash v what"

definition identity_optional_string :: "ustring option \<Rightarrow> nat \<Rightarrow> string \<Rightarrow> ustring option result" where
  "identity_optional_string v limit what = optional_string v limit what"

definition require_encryption_key :: "bytes option \<Rightarrow> bytes result" where
  "require_encryption_key v =
     require (\<not> is_empty v) ''encryption_key is required''
     (attempt (non_null v ''encryption_key'') (\<lambda>k.
      require (length k = 32) ''encryption_key must be 32 bytes'' (Inr k)))"

definition contains :: "bytes list \<Rightarrow> bytes \<Rightarrow> bool" where
  "contains xs addr = list_ex (\<lambda>x. x = addr) xs"

text \<open>The loop over the guardians; \<open>seen\<close> are the ones before index \<open>i\<close>.\<close>

fun validate_guardians :: "bytes list \<Rightarrow> bytes list \<Rightarrow> bytes \<Rightarrow> unit result" where
  "validate_guardians seen [] account = Inr ()"
| "validate_guardians seen (x # xs) account =
     attempt (require_address (Some x) ''guardian'') (\<lambda>g.
     require (g \<noteq> account) ''guardian must differ from account''
     (require (list_all (\<lambda>h. h \<noteq> g) seen) ''guardians must be distinct''
     (validate_guardians (seen @ [g]) xs account)))"

definition validate_policy :: "recovery_policy \<Rightarrow> bytes \<Rightarrow> unit result" where
  "validate_policy policy account =
     require (length (guardians policy) \<ge> 1) ''at least one guardian is required''
     (require (length (guardians policy) \<le> MAX_GUARDIANS) ''too many guardians''
     (attempt (validate_guardians [] (guardians policy) account) (\<lambda>_.
      require (threshold policy \<ge> 1) ''threshold must be >= 1''
      (require (threshold policy \<le> of_nat (length (guardians policy))) ''threshold exceeds guardian count''
      (require (delay_ms policy \<le> MAX_RECOVERY_DELAY_MS) ''delay_ms too large'' (Inr ()))))))"

definition policy_impacted :: "bytes \<Rightarrow> recovery_policy \<Rightarrow> bytes list" where
  "policy_impacted account policy = [account] @ guardians policy"

definition load_recovery :: "bytes \<Rightarrow> identity_state \<Rightarrow> recovery_state" where
  "load_recovery account st =
     (case recovery st account of
        None \<Rightarrow> \<lparr>rs_policy = None, rs_pending_policy = None, rs_pending_recovery = None\<rparr>
      | Some state \<Rightarrow> state)"

definition emit_recovery_cancelled :: "bytes \<Rightarrow> u64 \<Rightarrow> identity_event emitted" where
  "emit_recovery_cancelled account t = (Recovery_cancelled account t, [account])"

definition emit_policy_cancelled :: "bytes \<Rightarrow> u64 \<Rightarrow> identity_event emitted" where
  "emit_policy_cancelled account t = (Recovery_policy_cancelled account t, [account])"

definition unresolved :: "string \<Rightarrow> resolve_actor_result" where
  "unresolved r = \<lparr>ok = False, signer = None, reason = Some r\<rparr>"

definition resolve :: "'w env \<Rightarrow> bytes option \<Rightarrow> bytes option \<Rightarrow> u32 \<Rightarrow> identity_state \<Rightarrow>
    resolve_actor_result" where
  "resolve env account device capability st =
     (if is_empty account then unresolved ''unregistered''
      else case identities st (the account) of
        None \<Rightarrow> unresolved ''unregistered''
      | Some rec \<Rightarrow>
          if is_empty device \<or> the device = the account
          then \<lparr>ok = True, signer = Some (id_owner rec), reason = None\<rparr>
          else (case devices st (device_key (the account) (the device)) of
              None \<Rightarrow> unresolved ''unknown device''
            | Some dev \<Rightarrow>
                if dev_revoked dev then unresolved ''device revoked''
                else if dev_device_epoch dev \<noteq> id_device_epoch rec then unresolved ''device epoch expired''
                else if dev_expires_at dev \<le> now env then unresolved ''device expired''
                else if capability \<noteq> 0 \<and> dev_capabilities dev AND capability = 0
                then unresolved ''capability not granted''
                else \<lparr>ok = True, signer = device, reason = None\<rparr>))"

section \<open>Identity and keys\<close>

definition register :: "'w env \<Rightarrow> register_arguments \<Rightarrow> identity_state \<Rightarrow> identity_outcome" where
  "register env args st =
     attempt (require_address (reg_account args) ''account'') (\<lambda>account.
     require_authority env account
     (require (identities st account = None) ''identity already registered''
     (attempt (require_encryption_key (reg_encryption_key args)) (\<lambda>key.
      require (reg_key_version args \<ge> 1) ''key_version must be >= 1''
     (attempt (identity_optional_hash (reg_profile_hash args) ''profile_hash'') (\<lambda>profile_hash.
      attempt (identity_optional_string (reg_profile_uri args) MAX_PROFILE_URI_CHARS ''profile_uri'') (\<lambda>profile_uri.
      let t = now env;
          rec = \<lparr>id_account = account, id_owner = account, id_encryption_key = key,
                 id_key_version = reg_key_version args, id_profile_hash = profile_hash,
                 id_profile_uri = profile_uri, id_protocol_version = PROTOCOL_VERSION,
                 id_device_epoch = 0, id_registered_at = t, id_updated_at = t\<rparr>
      in Inr (st\<lparr>identities := (identities st)(account \<mapsto> rec)\<rparr>,
              [(Registered account key (reg_key_version args) profile_hash profile_uri
                  PROTOCOL_VERSION t, [account])]))))))))"

definition update_profile :: "'w env \<Rightarrow> update_profile_arguments \<Rightarrow> identity_state \<Rightarrow> identity_outcome" where
  "update_profile env args st =
     attempt (require_address (up_account args) ''account'') (\<lambda>account.
     let resolved = resolve env (Some account) (up_device args) CAP_PROFILE st
     in require (ok resolved)
          (case reason resolved of None \<Rightarrow> ''actor not authorized'' | Some r \<Rightarrow> r)
        (attempt (non_null (signer resolved) ''signer'') (\<lambda>s.
         require_authority env s
        (attempt (load_identity account st) (\<lambda>rec.
         attempt (identity_optional_hash (up_profile_hash args) ''profile_hash'') (\<lambda>profile_hash.
         attempt (identity_optional_string (up_profile_uri args) MAX_PROFILE_URI_CHARS ''profile_uri'') (\<lambda>profile_uri.
         let t = now env;
             rec' = rec\<lparr>id_profile_hash := profile_hash, id_profile_uri := profile_uri,
                        id_updated_at := t\<rparr>
         in Inr (st\<lparr>identities := (identities st)(account \<mapsto> rec')\<rparr>,
                 [(Profile_updated account profile_hash profile_uri t, [account])]))))))))"

definition rotate_encryption_key ::
  "'w env \<Rightarrow> rotate_encryption_key_arguments \<Rightarrow> identity_state \<Rightarrow> identity_outcome" where
  "rotate_encryption_key env args st =
     attempt (require_address (rot_account args) ''account'') (\<lambda>account.
     attempt (load_identity account st) (\<lambda>rec.
     attempt (require_owner env rec) (\<lambda>_.
     attempt (require_encryption_key (rot_encryption_key args)) (\<lambda>key.
     require (rot_key_version args > id_key_version rec) ''key_version must increase''
     (let t = now env;
          previous = id_key_version rec;
          rec' = rec\<lparr>id_encryption_key := key, id_key_version := rot_key_version args,
                     id_updated_at := t\<rparr>
      in Inr (st\<lparr>identities := (identities st)(account \<mapsto> rec')\<rparr>,
              [(Key_rotated account previous key (rot_key_version args) t, [account])]))))))"

section \<open>Devices\<close>

definition authorize_device ::
  "'w env \<Rightarrow> authorize_device_arguments \<Rightarrow> identity_state \<Rightarrow> identity_outcome" where
  "authorize_device env args st =
     attempt (require_address (ad_account args) ''account'') (\<lambda>account.
     attempt (load_identity account st) (\<lambda>rec.
     attempt (require_owner env rec) (\<lambda>_.
     attempt (require_address (ad_device args) ''device'') (\<lambda>device.
     require (device \<noteq> account) ''device must differ from account''
     (require (ad_capabilities args \<noteq> 0) ''capabilities must not be empty''
     (require (ad_capabilities args \<le> MAX_CAPABILITIES) ''unknown capability bits''
     (let t = now env in
      require (ad_expires_at args > t) ''expires_at must be in the future''
     (require (ad_expires_at args \<le> t + MAX_DEVICE_LIFETIME_MS) ''expires_at too far in the future''
     (attempt (identity_optional_string (ad_label args) MAX_LABEL_CHARS ''label'') (\<lambda>label.
      let dev = \<lparr>dev_account = account, dev_device = device, dev_capabilities = ad_capabilities args,
                 dev_expires_at = ad_expires_at args, dev_device_epoch = id_device_epoch rec,
                 dev_revoked = False, dev_label = label, dev_authorized_at = t\<rparr>
      in Inr (st\<lparr>devices := (devices st)(device_key account device \<mapsto> dev)\<rparr>,
              [(Device_authorized account device (ad_capabilities args) (ad_expires_at args) label
                  (id_device_epoch rec) t, [account, device])])))))))))))"

definition revoke_device ::
  "'w env \<Rightarrow> revoke_device_arguments \<Rightarrow> identity_state \<Rightarrow> identity_outcome" where
  "revoke_device env args st =
     attempt (require_address (rd_account args) ''account'') (\<lambda>account.
     attempt (load_identity account st) (\<lambda>rec.
     attempt (require_owner env rec) (\<lambda>_.
     attempt (require_address (rd_device args) ''device'') (\<lambda>device.
     let key = device_key account device
     in require (devices st key \<noteq> None) ''unknown device''
        (attempt (non_null (devices st key) ''dev'') (\<lambda>dev.
         let t = now env;
             dev' = dev\<lparr>dev_revoked := True\<rparr>
         in Inr (st\<lparr>devices := (devices st)(key \<mapsto> dev')\<rparr>,
                 [(Device_revoked account device t, [account, device])])))))))"

section \<open>Recovery policy\<close>

definition set_recovery_policy ::
  "'w env \<Rightarrow> set_recovery_policy_arguments \<Rightarrow> identity_state \<Rightarrow> identity_outcome" where
  "set_recovery_policy env args st =
     attempt (require_address (srp_account args) ''account'') (\<lambda>account.
     attempt (load_identity account st) (\<lambda>rec.
     attempt (require_owner env rec) (\<lambda>_.
     require (srp_policy args \<noteq> None) ''policy is required''
     (attempt (non_null (srp_policy args) ''policy'') (\<lambda>policy.
      attempt (validate_policy policy account) (\<lambda>_.
      let t = now env;
          state = load_recovery account st;
          impacted = policy_impacted account policy
      in case rs_policy state of
           None \<Rightarrow>
             Inr (st\<lparr>recovery := (recovery st)(account \<mapsto>
                    state\<lparr>rs_policy := Some policy, rs_pending_policy := None\<rparr>)\<rparr>,
                  [(Recovery_policy_set account policy t, impacted)])
         | Some current \<Rightarrow>
             let effective_at = t + delay_ms current
             in Inr (st\<lparr>recovery := (recovery st)(account \<mapsto>
                       state\<lparr>rs_pending_policy := Some
                         \<lparr>pp_policy = policy, pp_effective_at = effective_at\<rparr>\<rparr>)\<rparr>,
                     [(Recovery_policy_proposed account policy effective_at, impacted)])))))))"

definition apply_recovery_policy ::
  "'w env \<Rightarrow> bytes option \<Rightarrow> identity_state \<Rightarrow> identity_outcome" where
  "apply_recovery_policy env args_account st =
     attempt (require_address args_account ''account'') (\<lambda>account.
     attempt (load_identity account st) (\<lambda>_.
     let state = load_recovery account st
     in require (rs_pending_policy state \<noteq> None) ''no pending recovery policy''
        (attempt (non_null (rs_pending_policy state) ''pending_policy'') (\<lambda>pending.
         let t = now env
         in require (t \<ge> pp_effective_at pending) ''recovery policy delay not elapsed''
            (let policy = pp_policy pending;
                 voided_recovery = (rs_pending_recovery state \<noteq> None);
                 state' = state\<lparr>rs_policy := Some policy, rs_pending_policy := None,
                                rs_pending_recovery := None\<rparr>
             in Inr (st\<lparr>recovery := (recovery st)(account \<mapsto> state')\<rparr>,
                     (if voided_recovery then [emit_recovery_cancelled account t] else []) @
                     [(Recovery_policy_set account policy t, policy_impacted account policy)]))))))"

definition cancel_recovery_policy ::
  "'w env \<Rightarrow> bytes option \<Rightarrow> identity_state \<Rightarrow> identity_outcome" where
  "cancel_recovery_policy env args_account st =
     attempt (require_address args_account ''account'') (\<lambda>account.
     attempt (load_identity account st) (\<lambda>rec.
     attempt (require_owner env rec) (\<lambda>_.
     let state = load_recovery account st
     in require (rs_pending_policy state \<noteq> None) ''no pending recovery policy''
        (Inr (st\<lparr>recovery := (recovery st)(account \<mapsto> state\<lparr>rs_pending_policy := None\<rparr>)\<rparr>,
              [emit_policy_cancelled account (now env)])))))"

section \<open>Guardian recovery\<close>

text \<open>
  The approval set after a guardian's call: a fresh one for a first proposal or another
  \<open>new_owner\<close>, otherwise the existing one with the guardian appended.
\<close>

definition add_approval ::
  "pending_recovery option \<Rightarrow> bytes \<Rightarrow> bytes \<Rightarrow> u64 \<Rightarrow> pending_recovery result" where
  "add_approval existing guardian new_owner t =
     (let fresh = \<lparr>pr_new_owner = new_owner, pr_approvals = [guardian], pr_effective_at = 0,
                   pr_proposed_at = t\<rparr>
      in case existing of
           None \<Rightarrow> Inr fresh
         | Some pending \<Rightarrow>
             if pr_new_owner pending \<noteq> new_owner then Inr fresh
             else require (\<not> contains (pr_approvals pending) guardian) ''already approved''
                  (Inr (pending\<lparr>pr_approvals := pr_approvals pending @ [guardian]\<rparr>)))"

text \<open>\<open>effective_at\<close> is zero until the threshold is reached, then fixed.\<close>

definition fix_effective_at :: "recovery_policy \<Rightarrow> u64 \<Rightarrow> pending_recovery \<Rightarrow> pending_recovery" where
  "fix_effective_at policy t pending =
     (if pr_effective_at pending = 0 \<and> of_nat (length (pr_approvals pending)) \<ge> threshold policy
      then pending\<lparr>pr_effective_at := t + delay_ms policy\<rparr>
      else pending)"

definition propose_recovery ::
  "'w env \<Rightarrow> propose_recovery_arguments \<Rightarrow> identity_state \<Rightarrow> identity_outcome" where
  "propose_recovery env args st =
     attempt (require_address (pra_account args) ''account'') (\<lambda>account.
     attempt (require_address (pra_guardian args) ''guardian'') (\<lambda>guardian.
     require_authority env guardian
     (attempt (load_identity account st) (\<lambda>rec.
      let state = load_recovery account st
      in require (rs_policy state \<noteq> None) ''no recovery policy''
        (attempt (non_null (rs_policy state) ''policy'') (\<lambda>policy.
         require (contains (guardians policy) guardian) ''not a guardian''
        (attempt (require_address (pra_new_owner args) ''new_owner'') (\<lambda>new_owner.
         require (new_owner \<noteq> id_owner rec) ''new_owner must differ from current owner''
        (let t = now env
         in attempt (add_approval (rs_pending_recovery state) guardian new_owner t) (\<lambda>approved.
            let pending = fix_effective_at policy t approved
            in Inr (st\<lparr>recovery := (recovery st)(account \<mapsto>
                      state\<lparr>rs_pending_recovery := Some pending\<rparr>)\<rparr>,
                    [(Recovery_proposed account guardian new_owner
                        (of_nat (length (pr_approvals pending))) (threshold policy)
                        (pr_effective_at pending) t, [account, guardian, new_owner])])))))))))))"

definition cancel_recovery ::
  "'w env \<Rightarrow> bytes option \<Rightarrow> identity_state \<Rightarrow> identity_outcome" where
  "cancel_recovery env args_account st =
     attempt (require_address args_account ''account'') (\<lambda>account.
     attempt (load_identity account st) (\<lambda>rec.
     attempt (require_owner env rec) (\<lambda>_.
     let state = load_recovery account st
     in require (rs_pending_recovery state \<noteq> None) ''no pending recovery''
        (Inr (st\<lparr>recovery := (recovery st)(account \<mapsto> state\<lparr>rs_pending_recovery := None\<rparr>)\<rparr>,
              [emit_recovery_cancelled account (now env)])))))"

definition execute_recovery ::
  "'w env \<Rightarrow> bytes option \<Rightarrow> identity_state \<Rightarrow> identity_outcome" where
  "execute_recovery env args_account st =
     attempt (require_address args_account ''account'') (\<lambda>account.
     attempt (load_identity account st) (\<lambda>rec.
     let state = load_recovery account st
     in require (rs_pending_recovery state \<noteq> None) ''no pending recovery''
        (attempt (non_null (rs_pending_recovery state) ''pending_recovery'') (\<lambda>pending.
         require (pr_effective_at pending \<noteq> 0) ''recovery threshold not reached''
         (let t = now env
          in require (t \<ge> pr_effective_at pending) ''recovery delay not elapsed''
             (let previous_owner = id_owner rec;
                  new_owner = pr_new_owner pending;
                  rec' = rec\<lparr>id_owner := new_owner, id_device_epoch := id_device_epoch rec + 1,
                             id_updated_at := t\<rparr>;
                  voided_policy = (rs_pending_policy state \<noteq> None);
                  state' = state\<lparr>rs_pending_recovery := None, rs_pending_policy := None\<rparr>
              in Inr (st\<lparr>identities := (identities st)(account \<mapsto> rec'),
                         recovery := (recovery st)(account \<mapsto> state')\<rparr>,
                      (if voided_policy then [emit_policy_cancelled account t] else []) @
                      [(Recovered account previous_owner new_owner (id_device_epoch rec') t,
                        [account, previous_owner, new_owner])])))))))"

section \<open>Read methods\<close>

definition get_identity :: "bytes option \<Rightarrow> identity_state \<Rightarrow> identity_record option" where
  "get_identity account st = (if is_empty account then None else identities st (the account))"

definition get_device :: "bytes option \<Rightarrow> bytes option \<Rightarrow> identity_state \<Rightarrow> device_record option" where
  "get_device account device st =
     (if is_empty account \<or> is_empty device then None
      else devices st (device_key (the account) (the device)))"

definition get_recovery :: "bytes option \<Rightarrow> identity_state \<Rightarrow> recovery_state option" where
  "get_recovery account st = (if is_empty account then None else recovery st (the account))"

definition resolve_actor :: "'w env \<Rightarrow> bytes option \<Rightarrow> bytes option \<Rightarrow> u32 \<Rightarrow> identity_state \<Rightarrow>
    resolve_actor_result" where
  "resolve_actor env account device capability st = resolve env account device capability st"

section \<open>The contract as a transition system\<close>

text \<open>One constructor per state-changing entry point.\<close>

datatype identity_call =
    Call_register register_arguments
  | Call_update_profile update_profile_arguments
  | Call_rotate_encryption_key rotate_encryption_key_arguments
  | Call_authorize_device authorize_device_arguments
  | Call_revoke_device revoke_device_arguments
  | Call_set_recovery_policy set_recovery_policy_arguments
  | Call_apply_recovery_policy "bytes option"
  | Call_cancel_recovery_policy "bytes option"
  | Call_propose_recovery propose_recovery_arguments
  | Call_cancel_recovery "bytes option"
  | Call_execute_recovery "bytes option"

fun identity_step :: "'w env \<Rightarrow> identity_call \<Rightarrow> identity_state \<Rightarrow> identity_outcome" where
  "identity_step env (Call_register args) st = register env args st"
| "identity_step env (Call_update_profile args) st = update_profile env args st"
| "identity_step env (Call_rotate_encryption_key args) st = rotate_encryption_key env args st"
| "identity_step env (Call_authorize_device args) st = authorize_device env args st"
| "identity_step env (Call_revoke_device args) st = revoke_device env args st"
| "identity_step env (Call_set_recovery_policy args) st = set_recovery_policy env args st"
| "identity_step env (Call_apply_recovery_policy a) st = apply_recovery_policy env a st"
| "identity_step env (Call_cancel_recovery_policy a) st = cancel_recovery_policy env a st"
| "identity_step env (Call_propose_recovery args) st = propose_recovery env args st"
| "identity_step env (Call_cancel_recovery a) st = cancel_recovery env a st"
| "identity_step env (Call_execute_recovery a) st = execute_recovery env a st"

text \<open>A transaction: the chain's answers together with the call.\<close>

definition identity_exec :: "'w env \<times> identity_call \<Rightarrow> identity_state \<Rightarrow> identity_state result" where
  "identity_exec tx st = map_sum id fst (identity_step (fst tx) (snd tx) st)"

section \<open>Well-formed states\<close>

text \<open>
  What every stored object satisfies: policies are M-of-N over distinct guardians, a pending
  recovery carries distinct approvals of current guardians, device keys decompose.
\<close>

definition policy_ok :: "bytes \<Rightarrow> recovery_policy \<Rightarrow> bool" where
  "policy_ok account pol \<longleftrightarrow>
     1 \<le> length (guardians pol) \<and> length (guardians pol) \<le> MAX_GUARDIANS \<and>
     distinct (guardians pol) \<and> (\<forall>g \<in> set (guardians pol). length g = 25 \<and> g \<noteq> account) \<and>
     1 \<le> threshold pol \<and> unat (threshold pol) \<le> length (guardians pol) \<and>
     delay_ms pol \<le> MAX_RECOVERY_DELAY_MS"

lemma list_all_notin: "list_all (\<lambda>h. h \<noteq> g) xs \<longleftrightarrow> g \<notin> set xs"
  by (auto simp: list_all_iff)

lemma contains_iff [simp]: "contains xs a \<longleftrightarrow> a \<in> set xs"
  by (auto simp: contains_def list_ex_iff)

lemma validate_guardians_Inr:
  "validate_guardians seen gs account = Inr u \<longleftrightarrow>
   distinct gs \<and> set gs \<inter> set seen = {} \<and> (\<forall>g \<in> set gs. length g = 25 \<and> g \<noteq> account)"
  by (induction seen gs account rule: validate_guardians.induct) (auto simp: list_all_notin)

lemma validate_policy_Inr [simp]: "validate_policy pol account = Inr u \<longleftrightarrow> policy_ok account pol"
  by (auto simp: validate_policy_def policy_ok_def validate_guardians_Inr MAX_GUARDIANS_def word_le_of_nat_iff)

definition pending_ok :: "recovery_policy option \<Rightarrow> pending_recovery option \<Rightarrow> bool" where
  "pending_ok policy pending \<longleftrightarrow> (\<forall>p. pending = Some p \<longrightarrow>
     (\<exists>pol. policy = Some pol \<and> distinct (pr_approvals p) \<and> pr_approvals p \<noteq> [] \<and>
       set (pr_approvals p) \<subseteq> set (guardians pol) \<and> length (pr_new_owner p) = 25 \<and>
       (pr_effective_at p \<noteq> 0 \<longrightarrow> unat (threshold pol) \<le> length (pr_approvals p))))"

definition identity_ok :: "bytes \<Rightarrow> identity_record \<Rightarrow> bool" where
  "identity_ok a r \<longleftrightarrow> length a = 25 \<and> id_account r = a \<and> length (id_owner r) = 25 \<and>
     length (id_encryption_key r) = 32 \<and> 1 \<le> id_key_version r \<and>
     (\<forall>h. id_profile_hash r = Some h \<longrightarrow> length h = 32)"

definition device_ok :: "identity_state \<Rightarrow> bytes \<Rightarrow> device_record \<Rightarrow> bool" where
  "device_ok st k d \<longleftrightarrow> k = dev_account d @ dev_device d \<and> length (dev_account d) = 25 \<and>
     length (dev_device d) = 25 \<and> dev_device d \<noteq> dev_account d \<and>
     identities st (dev_account d) \<noteq> None \<and> dev_capabilities d \<noteq> 0 \<and>
     dev_capabilities d \<le> MAX_CAPABILITIES"

definition recovery_ok :: "identity_state \<Rightarrow> bytes \<Rightarrow> recovery_state \<Rightarrow> bool" where
  "recovery_ok st a s \<longleftrightarrow> identities st a \<noteq> None \<and> rs_policy s \<noteq> None \<and>
     (\<forall>pol. rs_policy s = Some pol \<longrightarrow> policy_ok a pol) \<and>
     (\<forall>p. rs_pending_policy s = Some p \<longrightarrow> policy_ok a (pp_policy p)) \<and>
     pending_ok (rs_policy s) (rs_pending_recovery s)"

definition identity_inv :: "identity_state \<Rightarrow> bool" where
  "identity_inv st \<longleftrightarrow>
     (\<forall>a r. identities st a = Some r \<longrightarrow> identity_ok a r) \<and>
     (\<forall>k d. devices st k = Some d \<longrightarrow> device_ok st k d) \<and>
     (\<forall>a s. recovery st a = Some s \<longrightarrow> recovery_ok st a s)"

lemma identity_init_inv: "identity_inv identity_init"
  by (simp add: identity_inv_def identity_init_def)

lemmas identity_op_defs = register_def update_profile_def rotate_encryption_key_def
  authorize_device_def revoke_device_def set_recovery_policy_def apply_recovery_policy_def
  cancel_recovery_policy_def propose_recovery_def cancel_recovery_def execute_recovery_def

lemmas identity_helper_defs = load_identity_def require_owner_def identity_optional_hash_def
  identity_optional_string_def require_encryption_key_def Let_def device_key_def


lemma device_ok_put [simp]:
  "device_ok (st\<lparr>devices := f\<rparr>) k d = device_ok st k d"
  "device_ok (st\<lparr>recovery := g\<rparr>) k d = device_ok st k d"
  "recovery_ok (st\<lparr>devices := f\<rparr>) a s = recovery_ok st a s"
  "recovery_ok (st\<lparr>recovery := g\<rparr>) a s = recovery_ok st a s"
  by (simp_all add: device_ok_def recovery_ok_def)

lemma identity_inv_put_identity:
  "identity_inv st \<Longrightarrow> identity_ok a r \<Longrightarrow> identity_inv (st\<lparr>identities := (identities st)(a \<mapsto> r)\<rparr>)"
  by (auto simp: identity_inv_def device_ok_def recovery_ok_def)

lemma identity_inv_put_device:
  "identity_inv st \<Longrightarrow> device_ok st k d \<Longrightarrow> identity_inv (st\<lparr>devices := (devices st)(k \<mapsto> d)\<rparr>)"
  by (auto simp: identity_inv_def)

lemma identity_inv_put_recovery:
  "identity_inv st \<Longrightarrow> recovery_ok st a s \<Longrightarrow> identity_inv (st\<lparr>recovery := (recovery st)(a \<mapsto> s)\<rparr>)"
  by (auto simp: identity_inv_def)

lemma identity_invD:
  "identity_inv st \<Longrightarrow> identities st a = Some r \<Longrightarrow> identity_ok a r"
  "identity_inv st \<Longrightarrow> devices st k = Some d \<Longrightarrow> device_ok st k d"
  "identity_inv st \<Longrightarrow> recovery st a = Some s \<Longrightarrow> recovery_ok st a s"
  by (auto simp: identity_inv_def)


text \<open>Updates of one record keep it well formed.\<close>

lemma identity_ok_updates:
  "identity_ok a r \<Longrightarrow> (\<And>x. h = Some x \<Longrightarrow> length x = 32) \<Longrightarrow>
     identity_ok a (r\<lparr>id_profile_hash := h, id_profile_uri := u, id_updated_at := t\<rparr>)"
  "identity_ok a r \<Longrightarrow> length k = 32 \<Longrightarrow> id_key_version r < v \<Longrightarrow>
     identity_ok a (r\<lparr>id_encryption_key := k, id_key_version := v, id_updated_at := t\<rparr>)"
  "identity_ok a r \<Longrightarrow> length ow = 25 \<Longrightarrow>
     identity_ok a (r\<lparr>id_owner := ow, id_device_epoch := e, id_updated_at := t\<rparr>)"
  by (auto simp: identity_ok_def)

lemma recovery_ok_updates:
  "recovery_ok st a s \<Longrightarrow> policy_ok a pol \<Longrightarrow>
     recovery_ok st a (s\<lparr>rs_pending_policy := Some \<lparr>pp_policy = pol, pp_effective_at = t\<rparr>\<rparr>)"
  "recovery_ok st a s \<Longrightarrow> recovery_ok st a (s\<lparr>rs_pending_policy := None\<rparr>)"
  "recovery_ok st a s \<Longrightarrow> recovery_ok st a (s\<lparr>rs_pending_recovery := None\<rparr>)"
  "identities st a = Some r \<Longrightarrow> policy_ok a pol \<Longrightarrow>
     recovery_ok st a (s\<lparr>rs_policy := Some pol, rs_pending_policy := None, rs_pending_recovery := None\<rparr>)"
  "identities st a = Some r \<Longrightarrow> policy_ok a pol \<Longrightarrow> rs_pending_recovery s = None \<Longrightarrow>
     recovery_ok st a (s\<lparr>rs_policy := Some pol, rs_pending_policy := None\<rparr>)"
  "recovery_ok st a s \<Longrightarrow> pending_ok (rs_policy s) (Some p) \<Longrightarrow>
     recovery_ok st a (s\<lparr>rs_pending_recovery := Some p\<rparr>)"
  by (auto simp: recovery_ok_def pending_ok_def)

lemma load_recovery_ok:
  "identity_inv st \<Longrightarrow> rs_policy (load_recovery a st) = Some pol \<Longrightarrow> recovery_ok st a (load_recovery a st)"
  "identity_inv st \<Longrightarrow> rs_pending_policy (load_recovery a st) = Some pp \<Longrightarrow> recovery_ok st a (load_recovery a st)"
  "identity_inv st \<Longrightarrow> rs_pending_recovery (load_recovery a st) = Some pr \<Longrightarrow> recovery_ok st a (load_recovery a st)"
  by (auto simp: load_recovery_def dest: identity_invD split: option.splits)

lemma load_recovery_unset:
  "identity_inv st \<Longrightarrow> rs_policy (load_recovery a st) = None \<Longrightarrow> rs_pending_recovery (load_recovery a st) = None"
  by (auto simp: load_recovery_def recovery_ok_def dest: identity_invD split: option.splits)

lemma load_recovery_facts:
  "identity_inv st \<Longrightarrow> rs_pending_policy (load_recovery a st) = Some pp \<Longrightarrow> policy_ok a (pp_policy pp)"
  "identity_inv st \<Longrightarrow> pending_ok (rs_policy (load_recovery a st)) (rs_pending_recovery (load_recovery a st))"
  by (auto simp: load_recovery_def recovery_ok_def pending_ok_def dest: identity_invD split: option.splits)

lemma pending_ok_approval:
  assumes "add_approval old g ow t = Inr p" and "pending_ok (Some pol) old"
    and "g \<in> set (guardians pol)" and "length ow = 25"
  shows "pending_ok (Some pol) (Some p)"
  using assms by (auto simp: pending_ok_def add_approval_def Let_def split: option.splits if_splits)

lemma pending_ok_fix:
  "pending_ok (Some pol) (Some p) \<Longrightarrow> pending_ok (Some pol) (Some (fix_effective_at pol t p))"
  by (auto simp: pending_ok_def fix_effective_at_def dest: word_le_of_nat)

lemmas identity_keeps = identity_inv_put_identity identity_inv_put_device identity_inv_put_recovery

section \<open>Every operation keeps the invariant\<close>

lemma register_inv: "identity_inv st \<Longrightarrow> register env args st = Inr (st', evs) \<Longrightarrow> identity_inv st'"
  by (auto simp: register_def identity_helper_defs identity_ok_def intro!: identity_inv_put_identity)

lemma update_profile_inv: "identity_inv st \<Longrightarrow> update_profile env args st = Inr (st', evs) \<Longrightarrow> identity_inv st'"
  by (auto simp: update_profile_def identity_helper_defs intro!: identity_keeps intro: identity_ok_updates identity_invD)

lemma rotate_inv: "identity_inv st \<Longrightarrow> rotate_encryption_key env args st = Inr (st', evs) \<Longrightarrow> identity_inv st'"
  by (auto simp: rotate_encryption_key_def identity_helper_defs intro!: identity_keeps intro: identity_ok_updates identity_invD)

lemma authorize_inv: "identity_inv st \<Longrightarrow> authorize_device env args st = Inr (st', evs) \<Longrightarrow> identity_inv st'"
  by (auto simp: authorize_device_def identity_helper_defs device_ok_def intro!: identity_inv_put_device)

lemma device_ok_revoke: "device_ok st k d \<Longrightarrow> device_ok st k (d\<lparr>dev_revoked := b\<rparr>)"
  by (simp add: device_ok_def)

lemma revoke_inv: "identity_inv st \<Longrightarrow> revoke_device env args st = Inr (st', evs) \<Longrightarrow> identity_inv st'"
  by (auto simp: revoke_device_def identity_helper_defs intro!: identity_keeps device_ok_revoke intro: identity_invD)

lemma recovery_policy_inv: "identity_inv st \<Longrightarrow> set_recovery_policy env args st = Inr (st', evs) \<Longrightarrow> identity_inv st'"
  by (auto simp: set_recovery_policy_def identity_helper_defs
      intro!: identity_keeps recovery_ok_updates(1,5) load_recovery_ok(1) load_recovery_unset split: option.splits)

lemma apply_inv: "identity_inv st \<Longrightarrow> apply_recovery_policy env args st = Inr (st', evs) \<Longrightarrow> identity_inv st'"
  by (auto simp: apply_recovery_policy_def identity_helper_defs
      intro!: identity_keeps recovery_ok_updates(4) intro: load_recovery_facts)

lemma cancel_policy_inv: "identity_inv st \<Longrightarrow> cancel_recovery_policy env args st = Inr (st', evs) \<Longrightarrow> identity_inv st'"
  by (auto simp: cancel_recovery_policy_def identity_helper_defs intro!: identity_keeps recovery_ok_updates(2) load_recovery_ok(2))

lemma cancel_inv: "identity_inv st \<Longrightarrow> cancel_recovery env args st = Inr (st', evs) \<Longrightarrow> identity_inv st'"
  by (auto simp: cancel_recovery_def identity_helper_defs intro!: identity_keeps recovery_ok_updates(3) load_recovery_ok(3))

lemma identity_inv_put_both:
  "identity_inv st \<Longrightarrow> identity_ok a r \<Longrightarrow> identities st a \<noteq> None \<Longrightarrow> recovery_ok st a s \<Longrightarrow>
   identity_inv (st\<lparr>identities := (identities st)(a \<mapsto> r), recovery := (recovery st)(a \<mapsto> s)\<rparr>)"
  by (auto simp: identity_inv_def device_ok_def recovery_ok_def)


lemma recovery_ok_cleared: "recovery_ok st a s \<Longrightarrow> recovery_ok st a (s\<lparr>rs_pending_recovery := None, rs_pending_policy := None\<rparr>)"
  by (auto simp: recovery_ok_def pending_ok_def)

lemma execute_inv:
  assumes "identity_inv st" and "execute_recovery env args st = Inr (st', evs)"
  shows "identity_inv st'"
proof -
  have "\<And>a p. rs_pending_recovery (load_recovery a st) = Some p \<Longrightarrow> length (pr_new_owner p) = 25"
    using load_recovery_facts(2) [OF assms(1)] by (auto simp: pending_ok_def)
  with assms show ?thesis
    by (auto simp: execute_recovery_def identity_helper_defs intro!: identity_inv_put_both identity_ok_updates(3)
       intro: identity_invD recovery_ok_cleared load_recovery_ok(3))
qed

lemma propose_inv:
  assumes "identity_inv st" and "propose_recovery env args st = Inr (st', evs)"
  shows "identity_inv st'"
proof -
  have "\<And>a pol. rs_policy (load_recovery a st) = Some pol \<Longrightarrow> pending_ok (Some pol) (rs_pending_recovery (load_recovery a st))"
    using load_recovery_facts(2) [OF assms(1)] by metis
  with assms show ?thesis
  by (auto simp: propose_recovery_def identity_helper_defs intro!: identity_inv_put_recovery recovery_ok_updates(6)
    load_recovery_ok(1) pending_ok_fix elim!: pending_ok_approval)
qed

lemma identity_exec_inv:
  assumes "identity_inv st" and "identity_exec tx st = Inr st'"
  shows "identity_inv st'"
proof -
  obtain evs where "identity_step (fst tx) (snd tx) st = Inr (st', evs)"
    using assms(2) by (auto simp: identity_exec_def)
  with assms(1) show ?thesis
    by (cases "snd tx") (auto intro: register_inv update_profile_inv rotate_inv authorize_inv revoke_inv
      recovery_policy_inv apply_inv cancel_policy_inv propose_inv cancel_inv execute_inv)
qed

interpretation identity_contract: kept_invariant identity_exec identity_inv
  by unfold_locales (rule identity_exec_inv)

section \<open>What each operation may change\<close>

lemma load_recovery_put [simp]:
  "load_recovery a (st\<lparr>recovery := (recovery st)(b \<mapsto> s)\<rparr>) = (if a = b then s else load_recovery a st)"
  "load_recovery a (st\<lparr>identities := f, recovery := (recovery st)(b \<mapsto> s)\<rparr>) = (if a = b then s else load_recovery a st)"
  "load_recovery a (st\<lparr>identities := f\<rparr>) = load_recovery a st"
  "load_recovery a (st\<lparr>devices := g\<rparr>) = load_recovery a st"
  by (auto simp: load_recovery_def)

lemma owner_changes:
  assumes "identity_exec tx st = Inr st'" and "identities st a = Some r"
  shows "\<exists>r'. identities st' a = Some r' \<and> (id_owner r' = id_owner r \<or>
     (\<exists>p. snd tx = Call_execute_recovery (Some a) \<and> rs_pending_recovery (load_recovery a st) = Some p \<and>
        pr_effective_at p \<noteq> 0 \<and> pr_effective_at p \<le> now (fst tx) \<and> id_owner r' = pr_new_owner p))"
  using assms
  by (cases "snd tx") (auto simp: identity_exec_def identity_op_defs identity_helper_defs split: option.splits)

lemma pending_recovery_changes:
  assumes "identity_exec tx st = Inr st'" and "rs_pending_recovery (load_recovery a st') = Some p'"
  shows "rs_pending_recovery (load_recovery a st) = Some p' \<or>
     (\<exists>args g ow pol p. snd tx = Call_propose_recovery args \<and> pra_account args = Some a \<and>
        pra_guardian args = Some g \<and> pra_new_owner args = Some ow \<and> has_authority (fst tx) g \<and> rs_policy (load_recovery a st) = Some pol \<and>
        add_approval (rs_pending_recovery (load_recovery a st)) g ow (now (fst tx)) = Inr p \<and>
        p' = fix_effective_at pol (now (fst tx)) p)"
  using assms
  apply (cases "snd tx")
  apply (auto simp: identity_exec_def identity_op_defs identity_helper_defs split: option.splits if_splits)
  done

lemma policy_changes:
  assumes "identity_exec tx st = Inr st'" and "rs_policy (load_recovery a st) = Some pol"
  shows "rs_policy (load_recovery a st') = Some pol \<or>
     (\<exists>pp. snd tx = Call_apply_recovery_policy (Some a) \<and>
        rs_pending_policy (load_recovery a st) = Some pp \<and> pp_effective_at pp \<le> now (fst tx) \<and>
        rs_policy (load_recovery a st') = Some (pp_policy pp))"
  using assms
  by (cases "snd tx") (auto simp: identity_exec_def identity_op_defs identity_helper_defs split: option.splits if_splits)

lemma pending_policy_changes:
  assumes "identity_exec tx st = Inr st'" and "rs_pending_policy (load_recovery a st') = Some pp'"
  shows "rs_pending_policy (load_recovery a st) = Some pp' \<or>
     (\<exists>pol args. snd tx = Call_set_recovery_policy args \<and> srp_account args = Some a \<and>
        rs_policy (load_recovery a st) = Some pol \<and>
        pp_effective_at pp' = now (fst tx) + delay_ms pol)"
  using assms
  by (cases "snd tx") (auto simp: identity_exec_def identity_op_defs identity_helper_defs split: option.splits if_splits)

section \<open>Time locks and approvals\<close>

text \<open>A transaction in which guardian \<open>g\<close> signed a recovery of \<open>a\<close> to \<open>ow\<close>.\<close>

definition approves :: "'w env \<times> identity_call \<Rightarrow> bytes \<Rightarrow> bytes \<Rightarrow> bytes \<Rightarrow> bool" where
  "approves tx a g ow \<longleftrightarrow> (case snd tx of
     Call_propose_recovery args \<Rightarrow> pra_account args = Some a \<and> pra_guardian args = Some g \<and>
       pra_new_owner args = Some ow \<and> has_authority (fst tx) g
   | _ \<Rightarrow> False)"

definition recovery_deadline :: "bytes \<Rightarrow> identity_state \<Rightarrow> u64 option" where
  "recovery_deadline a st = (case rs_pending_recovery (load_recovery a st) of
     None \<Rightarrow> None
   | Some p \<Rightarrow> if pr_effective_at p = 0 then None else Some (pr_effective_at p))"

definition policy_delay :: "bytes \<Rightarrow> identity_state \<Rightarrow> u64" where
  "policy_delay a st = (case rs_policy (load_recovery a st) of None \<Rightarrow> 0 | Some pol \<Rightarrow> delay_ms pol)"

definition policy_deadline :: "bytes \<Rightarrow> identity_state \<Rightarrow> u64 option" where
  "policy_deadline a st = map_option pp_effective_at (rs_pending_policy (load_recovery a st))"

definition account_owner :: "bytes \<Rightarrow> identity_state \<Rightarrow> bytes option" where
  "account_owner a st = map_option id_owner (identities st a)"

definition account_policy :: "bytes \<Rightarrow> identity_state \<Rightarrow> recovery_policy option" where
  "account_policy a st = rs_policy (load_recovery a st)"

definition proposes_recovery :: "bytes \<Rightarrow> 'w env \<times> identity_call \<Rightarrow> bool" where
  "proposes_recovery a tx \<longleftrightarrow> (case snd tx of
     Call_propose_recovery args \<Rightarrow> pra_account args = Some a | _ \<Rightarrow> False)"

definition proposes_policy :: "bytes \<Rightarrow> 'w env \<times> identity_call \<Rightarrow> bool" where
  "proposes_policy a tx \<longleftrightarrow> (case snd tx of
     Call_set_recovery_policy args \<Rightarrow> srp_account args = Some a | _ \<Rightarrow> False)"

lemmas identity_timelock_defs = recovery_deadline_def policy_delay_def policy_deadline_def
  account_owner_def account_policy_def proposes_recovery_def proposes_policy_def

lemma owner_change_after_deadline:
  assumes "identity_exec tx st = Inr st'" and "account_owner a st = Some v" and "account_owner a st' \<noteq> Some v"
  shows "\<exists>d. recovery_deadline a st = Some d \<and> d \<le> now (fst tx)"
  using assms by (auto simp: identity_timelock_defs dest: owner_changes)

lemma recovery_deadline_announced:
  assumes "identity_exec tx st = Inr st'" and "recovery_deadline a st' = Some d"
  shows "recovery_deadline a st = Some d \<or> (proposes_recovery a tx \<and> d = now (fst tx) + policy_delay a st)"
proof -
  obtain p' where p': "rs_pending_recovery (load_recovery a st') = Some p'" "pr_effective_at p' = d" "d \<noteq> 0"
    using assms(2) by (auto simp: recovery_deadline_def split: option.splits if_splits)
  from pending_recovery_changes [OF assms(1) p'(1)] p'(2,3) show ?thesis
    by (auto simp: identity_timelock_defs add_approval_def fix_effective_at_def Let_def split: option.splits if_splits)
qed

interpretation owner_lock: timelock identity_exec identity_inv "\<lambda>tx. now (fst tx)"
    "account_owner a" "recovery_deadline a" "policy_delay a" "proposes_recovery a" for a
  by unfold_locales (erule identity_exec_inv owner_change_after_deadline recovery_deadline_announced, assumption+)+

interpretation policy_lock: timelock identity_exec identity_inv "\<lambda>tx. now (fst tx)"
    "account_policy a" "policy_deadline a" "policy_delay a" "proposes_policy a" for a
  by unfold_locales (auto intro: identity_exec_inv simp: identity_timelock_defs
    dest: policy_changes pending_policy_changes)

lemma identity_run_inv: "identity_inv (run identity_exec identity_init cs)"
  by (rule identity_contract.run_keeps [OF identity_init_inv])

section \<open>Guardian recovery is M-of-N\<close>

lemma fix_effective_at_simps [simp]:
  "pr_new_owner (fix_effective_at pol t p) = pr_new_owner p"
  "pr_approvals (fix_effective_at pol t p) = pr_approvals p"
  by (simp_all add: fix_effective_at_def)

lemma add_approval_cases:
  "add_approval old g ow t = Inr p \<Longrightarrow> pr_new_owner p = ow \<and> (pr_approvals p = [g] \<or>
     (\<exists>q. old = Some q \<and> pr_new_owner q = ow \<and> pr_approvals p = pr_approvals q @ [g]))"
  by (auto simp: add_approval_def Let_def split: option.splits if_splits)

lemma approvals_signed:
  "\<forall>p. rs_pending_recovery (load_recovery a (run identity_exec identity_init cs)) = Some p \<longrightarrow>
     (\<forall>g \<in> set (pr_approvals p). \<exists>tx \<in> set cs. approves tx a g (pr_new_owner p))"
  (is "?H cs (run identity_exec identity_init cs)")
proof (rule run_history [where H = "\<lambda>cs st. \<forall>p. rs_pending_recovery (load_recovery a st) = Some p \<longrightarrow>
     (\<forall>g \<in> set (pr_approvals p). \<exists>tx \<in> set cs. approves tx a g (pr_new_owner p))"])
  fix cs :: "('a env \<times> identity_call) list" and t t' and c :: "'a env \<times> identity_call"
  assume H: "\<forall>p. rs_pending_recovery (load_recovery a t) = Some p \<longrightarrow>
     (\<forall>g \<in> set (pr_approvals p). \<exists>tx \<in> set cs. approves tx a g (pr_new_owner p))"
    and step: "identity_exec c t = Inr t'"
  show "\<forall>p. rs_pending_recovery (load_recovery a t') = Some p \<longrightarrow>
     (\<forall>g \<in> set (pr_approvals p). \<exists>tx \<in> set (cs @ [c]). approves tx a g (pr_new_owner p))"
  proof (intro allI impI ballI)
    fix p g
    assume p: "rs_pending_recovery (load_recovery a t') = Some p" and g: "g \<in> set (pr_approvals p)"
    from pending_recovery_changes [OF step p]
    show "\<exists>tx \<in> set (cs @ [c]). approves tx a g (pr_new_owner p)"
    proof (elim disjE exE conjE)
      assume "rs_pending_recovery (load_recovery a t) = Some p"
      with H g show ?thesis by auto
    next
      fix args g' ow pol q
      assume "snd c = Call_propose_recovery args" "pra_account args = Some a"
        "pra_guardian args = Some g'" "pra_new_owner args = Some ow" "has_authority (fst c) g'"
        and q: "add_approval (rs_pending_recovery (load_recovery a t)) g' ow (now (fst c)) = Inr q"
        and "p = fix_effective_at pol (now (fst c)) q"
      then have "approves c a g' (pr_new_owner p)" "pr_approvals p = pr_approvals q" "pr_new_owner p = ow"
        using add_approval_cases [OF q] by (simp_all add: approves_def)
      with add_approval_cases [OF q] H g show ?thesis by auto blast
    qed
  qed
qed (auto simp: identity_init_def load_recovery_def)

text \<open>
  C2: In any history of the contract, a transaction that replaces the owner of an account by
  \<open>new\<close> is backed by at least \<open>threshold\<close> distinct guardians of the policy in force, each of
  whom signed an earlier transaction proposing exactly this \<open>new\<close> owner for this account.
\<close>

theorem recovery_needs_threshold:
  fixes tx :: "'w env \<times> identity_call" and cs :: "('w env \<times> identity_call) list"
  assumes "identity_exec tx (run identity_exec identity_init cs) = Inr st'"
    and "account_owner a (run identity_exec identity_init cs) = Some old"
    and "account_owner a st' = Some new" and "new \<noteq> old"
  shows "\<exists>pol gs. account_policy a (run identity_exec identity_init cs) = Some pol \<and>
           distinct gs \<and> set gs \<subseteq> set (guardians pol) \<and> unat (threshold pol) \<le> length gs \<and>
           (\<forall>g \<in> set gs. \<exists>t \<in> set cs. approves t a g new)"
proof -
  let ?st = "run identity_exec identity_init cs"
  obtain p where p: "rs_pending_recovery (load_recovery a ?st) = Some p" "pr_effective_at p \<noteq> 0"
    "new = pr_new_owner p"
    using owner_changes [OF assms(1)] assms(2-4) by (fastforce simp: account_owner_def)
  moreover have "pending_ok (rs_policy (load_recovery a ?st)) (Some p)"
    using load_recovery_facts(2) [OF identity_run_inv] p(1) by metis
  ultimately show ?thesis
    using approvals_signed [of a cs] by (auto simp: pending_ok_def account_policy_def)
qed

text \<open>
  C21: The owner of an account only changes when some earlier \<open>propose_recovery\<close> for it lies at
  least the recovery delay (as it stood at that proposal) in the past.
\<close>

theorem recovery_timelock:
  fixes tx :: "'w env \<times> identity_call" and cs :: "('w env \<times> identity_call) list"
  assumes "identity_exec tx (run identity_exec identity_init cs) = Inr st'"
    and "account_owner a (run identity_exec identity_init cs) = Some old"
    and "account_owner a st' \<noteq> Some old"
  shows "\<exists>before t after. cs = before @ t # after \<and> proposes_recovery a t \<and>
           now (fst t) + policy_delay a (run identity_exec identity_init before) \<le> now (fst tx)"
  by (rule owner_lock.change_was_announced [OF identity_init_inv _ assms])
    (simp add: recovery_deadline_def load_recovery_def identity_init_def)

text \<open>
  Once an account has a recovery policy, the policy in force only changes when an earlier
  \<open>set_recovery_policy\<close> for it lies at least the then current delay in the past.
\<close>

theorem policy_timelock:
  fixes tx :: "'w env \<times> identity_call" and cs :: "('w env \<times> identity_call) list"
  assumes "identity_exec tx (run identity_exec identity_init cs) = Inr st'"
    and "account_policy a (run identity_exec identity_init cs) = Some old"
    and "account_policy a st' \<noteq> Some old"
  shows "\<exists>before t after. cs = before @ t # after \<and> proposes_policy a t \<and>
           now (fst t) + policy_delay a (run identity_exec identity_init before) \<le> now (fst tx)"
  by (rule policy_lock.change_was_announced [OF identity_init_inv _ assms])
    (simp add: policy_deadline_def load_recovery_def identity_init_def)

section \<open>Actor resolution\<close>

text \<open>A device record that is good for a capability at the current block time.\<close>

definition device_good :: "'w env \<Rightarrow> identity_state \<Rightarrow> bytes \<Rightarrow> bytes \<Rightarrow> u32 \<Rightarrow> bool" where
  "device_good env st account device capability \<longleftrightarrow>
     (case (identities st account, devices st (account @ device)) of
        (Some rec, Some dev) \<Rightarrow> \<not> dev_revoked dev \<and> dev_device_epoch dev = id_device_epoch rec \<and>
          now env < dev_expires_at dev \<and> (capability = 0 \<or> dev_capabilities dev AND capability \<noteq> 0)
      | _ \<Rightarrow> False)"

interpretation identity_resolver: actor_resolver "\<lambda>a d c. resolve env (Some a) d c st"
    "\<lambda>a. identities st a \<noteq> None" "\<lambda>a. id_owner (the (identities st a))" "device_good env st"
  for env st
  by unfold_locales
    (auto simp: resolve_def unresolved_def device_good_def device_key_def not_le split: option.splits if_splits)

text \<open>
  Resolution succeeds exactly for a registered account that acts for itself (no device, or
  its own address as the device) or through a device whose record is unrevoked, of the current
  device epoch, unexpired and granted the requested capability.
\<close>

theorem resolve_spec:
  "ok (resolve env account device capability st) \<longleftrightarrow>
     (\<exists>a rec. account = Some a \<and> a \<noteq> [] \<and> identities st a = Some rec \<and>
       (is_empty device \<or> device = Some a \<or> device_good env st a (the device) capability))"
  by (cases account)
    (auto simp: resolve_def unresolved_def device_good_def device_key_def not_le split: option.splits if_splits)

lemma recovery_voids_devices:
  assumes "execute_recovery env (Some a) st = Inr (st', evs)"
    and "device_good env0 st a d c0"
  shows "\<not> device_good env1 st' a d c1"
  using assms
  by (auto simp: execute_recovery_def identity_helper_defs device_good_def split: option.splits)

lemma revoked_device_void:
  assumes "revoke_device env \<lparr>rd_account = Some a, rd_device = Some d\<rparr> st = Inr (st', evs)"
  shows "\<not> device_good env' st' a d c"
  using assms by (auto simp: revoke_device_def identity_helper_defs device_good_def split: option.splits)

section \<open>Encryption key versions\<close>

definition key_version_mono :: "identity_state \<Rightarrow> identity_state \<Rightarrow> bool" where
  "key_version_mono s t \<longleftrightarrow> (\<forall>a r. identities s a = Some r \<longrightarrow>
     (\<exists>r'. identities t a = Some r' \<and> id_key_version r \<le> id_key_version r' \<and>
        (id_key_version r = id_key_version r' \<longrightarrow> id_encryption_key r = id_encryption_key r')))"

lemma key_version_step: "identity_exec tx st = Inr st' \<Longrightarrow> key_version_mono st st'"
  by (cases "snd tx") (auto simp: key_version_mono_def identity_exec_def identity_op_defs identity_helper_defs
     split: option.splits if_splits)

lemma key_version_trans: "key_version_mono s t \<Longrightarrow> key_version_mono t u \<Longrightarrow> key_version_mono s u"
  unfolding key_version_mono_def
proof (intro allI impI)
  fix a r
  assume st: "\<forall>a r. identities s a = Some r \<longrightarrow> (\<exists>r'. identities t a = Some r' \<and>
      id_key_version r \<le> id_key_version r' \<and>
      (id_key_version r = id_key_version r' \<longrightarrow> id_encryption_key r = id_encryption_key r'))"
    and tu: "\<forall>a r. identities t a = Some r \<longrightarrow> (\<exists>r'. identities u a = Some r' \<and>
      id_key_version r \<le> id_key_version r' \<and>
      (id_key_version r = id_key_version r' \<longrightarrow> id_encryption_key r = id_encryption_key r'))"
    and r: "identities s a = Some r"
  obtain r1 where r1: "identities t a = Some r1" "id_key_version r \<le> id_key_version r1"
    "id_key_version r = id_key_version r1 \<longrightarrow> id_encryption_key r = id_encryption_key r1" using st r by blast
  obtain r2 where r2: "identities u a = Some r2" "id_key_version r1 \<le> id_key_version r2"
    "id_key_version r1 = id_key_version r2 \<longrightarrow> id_encryption_key r1 = id_encryption_key r2" using tu r1(1) by blast
  have "id_key_version r = id_key_version r2 \<longrightarrow> id_key_version r = id_key_version r1"
    using r1(2) r2(2) by auto
  with r1 r2 show "\<exists>r'. identities u a = Some r' \<and> id_key_version r \<le> id_key_version r' \<and>
      (id_key_version r = id_key_version r' \<longrightarrow> id_encryption_key r = id_encryption_key r')"
    by (intro exI [of _ r2]) auto
qed

interpretation key_versions: kept_relation identity_exec identity_inv key_version_mono
proof unfold_locales
  show "key_version_mono s s" for s by (simp add: key_version_mono_def)
qed (auto intro: key_version_trans key_version_step)

section \<open>Properties of every history\<close>

text \<open>
  Every history keeps the stored state well formed: identities under their 25-byte address
  with a 32-byte key and a version of at least 1, device records under account || device with
  known capability bits, and recovery states whose policies are valid M-of-N policies and whose
  pending recovery has distinct approvals by current guardians.
\<close>

theorem identity_runs_well_formed: "identity_inv (run identity_exec identity_init cs)"
  by (rule identity_run_inv)

text \<open>
  The key version of an identity never decreases, and a version number is never published
  again for another key.
\<close>

theorem key_version_never_reused:
  fixes cs ds :: "('w env \<times> identity_call) list"
  assumes "identities (run identity_exec identity_init cs) a = Some r"
    and "identities (run identity_exec identity_init (cs @ ds)) a = Some r'"
  shows "id_key_version r \<le> id_key_version r' \<and>
    (id_key_version r = id_key_version r' \<longrightarrow> id_encryption_key r = id_encryption_key r')"
proof -
  have "key_version_mono (run identity_exec identity_init cs) (run identity_exec identity_init (cs @ ds))"
    unfolding run_append by (rule key_versions.run_rel [OF identity_run_inv])
  with assms show ?thesis unfolding key_version_mono_def by (metis option.inject)
qed

section \<open>Witnesses\<close>

text \<open>An account with two guardians, both of whom propose the same new owner.\<close>

definition demo_policy :: recovery_policy where
  "demo_policy = \<lparr>guardians = [sample_addr 2, sample_addr 3], threshold = 2, delay_ms = 500\<rparr>"

definition demo_setup :: "(unit env \<times> identity_call) list" where
  "demo_setup =
     [(sample_env 1000, Call_register \<lparr>reg_account = Some (sample_addr 1),
         reg_encryption_key = Some (replicate 32 7), reg_key_version = 1,
         reg_profile_hash = None, reg_profile_uri = None\<rparr>),
      (sample_env 1000, Call_set_recovery_policy
         \<lparr>srp_account = Some (sample_addr 1), srp_policy = Some demo_policy\<rparr>)]"

definition demo_approvals :: "(unit env \<times> identity_call) list" where
  "demo_approvals =
     [(sample_env 2000, Call_propose_recovery \<lparr>pra_account = Some (sample_addr 1),
         pra_guardian = Some (sample_addr 2), pra_new_owner = Some (sample_addr 9)\<rparr>),
      (sample_env 3000, Call_propose_recovery \<lparr>pra_account = Some (sample_addr 1),
         pra_guardian = Some (sample_addr 3), pra_new_owner = Some (sample_addr 9)\<rparr>)]"

definition demo_identity :: "bytes \<Rightarrow> u32 \<Rightarrow> u64 \<Rightarrow> identity_record" where
  "demo_identity ow e t = \<lparr>id_account = sample_addr 1, id_owner = ow, id_encryption_key = replicate 32 7,
     id_key_version = 1, id_profile_hash = None, id_profile_uri = None, id_protocol_version = 1,
     id_device_epoch = e, id_registered_at = 1000, id_updated_at = t\<rparr>"

lemmas identity_eval = identity_exec_def identity_op_defs identity_helper_defs identity_limits
  load_recovery_def add_approval_def fix_effective_at_def policy_ok_def optional_string_def
  require_string_def optional_hash_def validate_policy_def word_le_nat_alt

lemma demo_setup_run:
  "run identity_exec identity_init demo_setup =
     \<lparr>identities = [sample_addr 1 \<mapsto> demo_identity (sample_addr 1) 0 1000], devices = Map.empty,
      recovery = [sample_addr 1 \<mapsto> \<lparr>rs_policy = Some demo_policy, rs_pending_policy = None,
                              rs_pending_recovery = None\<rparr>]\<rparr>"
  by (simp add: demo_setup_def identity_init_def identity_eval demo_policy_def demo_identity_def)

lemma demo_approvals_run:
  "run identity_exec identity_init (demo_setup @ demo_approvals) =
     \<lparr>identities = [sample_addr 1 \<mapsto> demo_identity (sample_addr 1) 0 1000], devices = Map.empty,
      recovery = [sample_addr 1 \<mapsto> \<lparr>rs_policy = Some demo_policy, rs_pending_policy = None,
        rs_pending_recovery = Some \<lparr>pr_new_owner = sample_addr 9, pr_approvals = [sample_addr 2, sample_addr 3],
          pr_effective_at = 3500, pr_proposed_at = 2000\<rparr>\<rparr>]\<rparr>"
  by (simp add: run_append demo_setup_run demo_approvals_def identity_eval demo_policy_def
      demo_identity_def)


lemma demo_recovery_tx:
  "identity_exec (sample_env 3500, Call_execute_recovery (Some (sample_addr 1)))
     (run identity_exec identity_init (demo_setup @ demo_approvals)) =
   Inr \<lparr>identities = [sample_addr 1 \<mapsto> demo_identity (sample_addr 9) 1 3500], devices = Map.empty,
      recovery = [sample_addr 1 \<mapsto> \<lparr>rs_policy = Some demo_policy, rs_pending_policy = None,
                              rs_pending_recovery = None\<rparr>]\<rparr>"
  by (simp add: demo_approvals_run identity_eval demo_identity_def)

lemma demo_owner:
  "account_owner (sample_addr 1) (run identity_exec identity_init (demo_setup @ demo_approvals)) =
     Some (sample_addr 1)"
  by (simp add: demo_approvals_run account_owner_def demo_identity_def)

theorem recovery_needs_threshold_witness:
  "\<exists>pol gs. account_policy (sample_addr 1) (run identity_exec identity_init (demo_setup @ demo_approvals)) =
       Some pol \<and> distinct gs \<and> set gs \<subseteq> set (guardians pol) \<and> unat (threshold pol) \<le> length gs \<and>
       (\<forall>g \<in> set gs. \<exists>t \<in> set (demo_setup @ demo_approvals). approves t (sample_addr 1) g (sample_addr 9))"
  by (rule recovery_needs_threshold [OF demo_recovery_tx demo_owner])
    (simp_all add: account_owner_def demo_identity_def)

theorem recovery_timelock_witness:
  "\<exists>before t after. demo_setup @ demo_approvals = before @ t # after \<and>
     proposes_recovery (sample_addr 1) t \<and>
     now (fst t) + policy_delay (sample_addr 1) (run identity_exec identity_init before) \<le> 3500"
  using recovery_timelock [OF demo_recovery_tx demo_owner]
  by (simp add: account_owner_def demo_identity_def)

text \<open>A policy change, queued at time 2000 and applied at time 2500.\<close>

definition demo_policy_change :: "(unit env \<times> identity_call) list" where
  "demo_policy_change = [(sample_env 2000, Call_set_recovery_policy
     \<lparr>srp_account = Some (sample_addr 1),
      srp_policy = Some \<lparr>guardians = [sample_addr 4], threshold = 1, delay_ms = 0\<rparr>\<rparr>)]"

lemma demo_policy_change_run:
  "run identity_exec identity_init (demo_setup @ demo_policy_change) =
     \<lparr>identities = [sample_addr 1 \<mapsto> demo_identity (sample_addr 1) 0 1000], devices = Map.empty,
      recovery = [sample_addr 1 \<mapsto> \<lparr>rs_policy = Some demo_policy, rs_pending_policy =
        Some \<lparr>pp_policy = \<lparr>guardians = [sample_addr 4], threshold = 1, delay_ms = 0\<rparr>,
              pp_effective_at = 2500\<rparr>, rs_pending_recovery = None\<rparr>]\<rparr>"
  by (simp add: run_append demo_setup_run demo_policy_change_def identity_eval demo_policy_def
      demo_identity_def)

lemma demo_policy_tx:
  "identity_exec (sample_env 2500, Call_apply_recovery_policy (Some (sample_addr 1)))
     (run identity_exec identity_init (demo_setup @ demo_policy_change)) =
   Inr \<lparr>identities = [sample_addr 1 \<mapsto> demo_identity (sample_addr 1) 0 1000], devices = Map.empty,
      recovery = [sample_addr 1 \<mapsto> \<lparr>rs_policy = Some \<lparr>guardians = [sample_addr 4], threshold = 1,
        delay_ms = 0\<rparr>, rs_pending_policy = None, rs_pending_recovery = None\<rparr>]\<rparr>"
  by (simp add: demo_policy_change_run identity_eval demo_identity_def)

theorem policy_timelock_witness:
  "\<exists>before t after. demo_setup @ demo_policy_change = before @ t # after \<and>
     proposes_policy (sample_addr 1) t \<and>
     now (fst t) + policy_delay (sample_addr 1) (run identity_exec identity_init before) \<le> 2500"
  using policy_timelock [OF demo_policy_tx, of "sample_addr 1" demo_policy]
  by (simp add: demo_policy_change_run account_policy_def load_recovery_def demo_policy_def)

theorem key_version_never_reused_witness:
  "identities (run identity_exec identity_init (demo_setup @ demo_approvals)) (sample_addr 1) =
     Some (demo_identity (sample_addr 1) 0 1000) \<and>
   id_key_version (demo_identity (sample_addr 1) 0 1000) \<le>
     id_key_version (demo_identity (sample_addr 1) 0 1000)"
  using key_version_never_reused [of demo_setup "sample_addr 1" "demo_identity (sample_addr 1) 0 1000"
      demo_approvals "demo_identity (sample_addr 1) 0 1000"]
  by (simp add: demo_setup_run demo_approvals_run)

end
