(* ===== verification/Devices.thy ===== *)
theory Devices
  imports Identity
begin

text \<open>
  Device authority over whole histories of the identity contract: a device that can act for an
  account was authorized, with that capability and expiry, by the signature of the account's
  present owner, and has neither been revoked nor voided by a recovery since.
\<close>

section \<open>Device epochs\<close>

text \<open>
  The epoch counter is 32 bits wide. In a history of fewer transactions than that it never wraps,
  and no device is ahead of its account.
\<close>

definition epochs_below :: "nat \<Rightarrow> identity_state \<Rightarrow> bool" where
  "epochs_below n st \<longleftrightarrow>
     (\<forall>a rec. identities st a = Some rec \<longrightarrow> unat (id_device_epoch rec) \<le> n) \<and>
     (\<forall>k dev. devices st k = Some dev \<longrightarrow>
        (\<exists>rec. identities st (dev_account dev) = Some rec \<and> dev_device_epoch dev \<le> id_device_epoch rec))"

lemma epochs_below_init: "epochs_below n identity_init"
  by (simp add: epochs_below_def identity_init_def)

lemma epochs_below_mono: "epochs_below n st \<Longrightarrow> n \<le> m \<Longrightarrow> epochs_below m st"
  by (force simp: epochs_below_def)

lemma epochs_put_identity:
  assumes "epochs_below n st" and "identities st a = Some old \<or> identities st a = None \<and> id_device_epoch rec = 0"
    and "identities st a = Some old \<Longrightarrow> id_device_epoch old \<le> id_device_epoch rec" and "unat (id_device_epoch rec) \<le> n"
    and "identities st' = (identities st)(a \<mapsto> rec)" and "devices st' = devices st"
  shows "epochs_below n st'"
  unfolding epochs_below_def
proof (intro conjI allI impI)
  fix b r assume "identities st' b = Some r"
  then show "unat (id_device_epoch r) \<le> n" using assms by (auto simp: epochs_below_def split: if_splits)
next
  fix k dev assume "devices st' k = Some dev"
  then obtain r where "identities st (dev_account dev) = Some r" "dev_device_epoch dev \<le> id_device_epoch r"
    using assms(1) unfolding assms(6) epochs_below_def by blast
  then show "\<exists>r. identities st' (dev_account dev) = Some r \<and> dev_device_epoch dev \<le> id_device_epoch r"
    using assms(2,3,5) by (cases "dev_account dev = a") (auto intro: order_trans)
qed

lemma epochs_put_device:
  assumes "epochs_below n st" and "identities st (dev_account dev) = Some rec" and "dev_device_epoch dev \<le> id_device_epoch rec"
    and "identities st' = identities st" and "devices st' = (devices st)(k \<mapsto> dev)"
  shows "epochs_below n st'"
  using assms by (auto simp: epochs_below_def)

lemma epochs_same:
  "epochs_below n st \<Longrightarrow> identities st' = identities st \<Longrightarrow> devices st' = devices st \<Longrightarrow> epochs_below n st'"
  by (simp add: epochs_below_def)

lemma epoch_inc: "unat e \<le> n \<Longrightarrow> n < 4294967295 \<Longrightarrow> unat (e + 1) = Suc (unat e)" for e :: u32
  by (intro unat_inc) simp

lemma execute_recovery_Inr:
  assumes "execute_recovery env args st = Inr (st', evs)"
  obtains a rec p t where "args = Some a" "length a = 25" "identities st a = Some rec"
    "rs_pending_recovery (load_recovery a st) = Some p"
    "identities st' = (identities st)(a \<mapsto> rec\<lparr>id_owner := pr_new_owner p, id_device_epoch := id_device_epoch rec + 1, id_updated_at := t\<rparr>)"
    "devices st' = devices st"
  using assms by (auto simp: execute_recovery_def identity_helper_defs)

lemma authorize_device_Inr:
  assumes "authorize_device env args st = Inr (st', evs)"
  obtains a d rec dev where "ad_account args = Some a" "ad_device args = Some d" "length a = 25" "length d = 25"
    "identities st a = Some rec" "has_authority env (id_owner rec)" "identities st' = identities st"
    "devices st' = (devices st)(a @ d \<mapsto> dev)" "dev_account dev = a" "dev_device_epoch dev = id_device_epoch rec"
    "dev_capabilities dev = ad_capabilities args" "dev_expires_at dev = ad_expires_at args" "\<not> dev_revoked dev"
    "ad_expires_at args \<le> now env + MAX_DEVICE_LIFETIME_MS" "now env < ad_expires_at args"
  using assms by (auto simp: authorize_device_def identity_helper_defs device_key_def)

lemma revoke_device_Inr:
  assumes "revoke_device env args st = Inr (st', evs)"
  obtains k dev where "devices st k = Some dev" "identities st' = identities st"
    "devices st' = (devices st)(k \<mapsto> dev\<lparr>dev_revoked := True\<rparr>)"
  using assms by (auto simp: revoke_device_def identity_helper_defs)

lemma identity_write_cases [consumes 4, case_names register update same]:
  assumes "identity_step env call st = Inr (st', evs)"
    and "\<And>args. call \<noteq> Call_authorize_device args" and "\<And>args. call \<noteq> Call_revoke_device args"
    and "\<And>a. call \<noteq> Call_execute_recovery a"
  obtains (register) a rec where "identities st a = None" "id_device_epoch rec = 0"
      "identities st' = (identities st)(a \<mapsto> rec)" "devices st' = devices st"
  | (update) a old rec where "identities st a = Some old" "id_device_epoch rec = id_device_epoch old" "id_owner rec = id_owner old"
      "identities st' = (identities st)(a \<mapsto> rec)" "devices st' = devices st"
  | (same) "identities st' = identities st" "devices st' = devices st"
proof (cases call)
  case (Call_register args)
  with assms(1) obtain a k v h u where "identities st a = None" and st': "st' = st\<lparr>identities := (identities st)(a \<mapsto>
      \<lparr>id_account = a, id_owner = a, id_encryption_key = k, id_key_version = v, id_profile_hash = h, id_profile_uri = u,
       id_protocol_version = PROTOCOL_VERSION, id_device_epoch = 0, id_registered_at = now env, id_updated_at = now env\<rparr>)\<rparr>"
    by (auto simp: register_def require_encryption_key_def Let_def simp del: identity_optional_hash_def)
  then show thesis by (intro register [of a]) simp_all
next
  case (Call_update_profile args)
  with assms(1) obtain a old h u t where "identities st a = Some old" and st': "st' = st\<lparr>identities := (identities st)(a \<mapsto>
      old\<lparr>id_profile_hash := h, id_profile_uri := u, id_updated_at := t\<rparr>)\<rparr>"
    by (auto simp: update_profile_def load_identity_def require_owner_def require_encryption_key_def Let_def)
  then show thesis by (intro update [of a old]) simp_all
next
  case (Call_rotate_encryption_key args)
  with assms(1) obtain a old k v t where "identities st a = Some old" and st': "st' = st\<lparr>identities := (identities st)(a \<mapsto>
      old\<lparr>id_encryption_key := k, id_key_version := v, id_updated_at := t\<rparr>)\<rparr>"
    by (auto simp: rotate_encryption_key_def load_identity_def require_owner_def require_encryption_key_def Let_def)
  then show thesis by (intro update [of a old]) simp_all
next
  case (Call_set_recovery_policy args)
  with assms(1) have "identities st' = identities st \<and> devices st' = devices st"
    by (auto simp: set_recovery_policy_def load_identity_def require_owner_def Let_def split: option.splits)
  then show thesis by (intro same) simp_all
next
  case (Call_apply_recovery_policy args)
  with assms(1) have "identities st' = identities st \<and> devices st' = devices st"
    by (auto simp: apply_recovery_policy_def identity_helper_defs)
  then show thesis by (intro same) simp_all
next
  case (Call_cancel_recovery_policy args)
  with assms(1) have "identities st' = identities st \<and> devices st' = devices st"
    by (auto simp: cancel_recovery_policy_def identity_helper_defs)
  then show thesis by (intro same) simp_all
next
  case (Call_propose_recovery args)
  with assms(1) have "identities st' = identities st \<and> devices st' = devices st"
    by (auto simp: propose_recovery_def identity_helper_defs)
  then show thesis by (intro same) simp_all
next
  case (Call_cancel_recovery args)
  with assms(1) have "identities st' = identities st \<and> devices st' = devices st"
    by (auto simp: cancel_recovery_def identity_helper_defs)
  then show thesis by (intro same) simp_all
qed (use assms in simp_all)

lemma epochs_step:
  assumes "epochs_below n st" and "identity_step env call st = Inr (st', evs)" and "n < 4294967295"
  shows "epochs_below (Suc n) st'"
proof -
  have up: "epochs_below (Suc n) st" using assms(1) by (rule epochs_below_mono) simp
  have other: "epochs_below (Suc n) st'" if n: "\<And>args. call \<noteq> Call_authorize_device args"
    "\<And>args. call \<noteq> Call_revoke_device args" "\<And>a. call \<noteq> Call_execute_recovery a"
    using assms(2) n
  proof (cases rule: identity_write_cases)
    case (register a rec)
    then show ?thesis by (intro epochs_put_identity [OF up]) simp_all
  next
    case (update a old rec)
    moreover from up update(1) have "unat (id_device_epoch old) \<le> Suc n" by (simp add: epochs_below_def)
    ultimately show ?thesis by (intro epochs_put_identity [OF up, of a old rec]) auto
  next
    case same
    with up show ?thesis by (rule epochs_same)
  qed
  show ?thesis
  proof (cases call)
    case (Call_execute_recovery x)
    with assms(2) have "execute_recovery env x st = Inr (st', evs)" by simp
    then show ?thesis
    proof (rule execute_recovery_Inr)
      fix a rec p t
      assume rec: "identities st a = Some rec"
        and st': "identities st' = (identities st)(a \<mapsto> rec\<lparr>id_owner := pr_new_owner p,
          id_device_epoch := id_device_epoch rec + 1, id_updated_at := t\<rparr>)" "devices st' = devices st"
      have "unat (id_device_epoch rec) \<le> n" using assms(1) rec by (simp add: epochs_below_def)
      then have "unat (id_device_epoch rec + 1) = Suc (unat (id_device_epoch rec))" "unat (id_device_epoch rec) \<le> n"
        using assms(3) epoch_inc by blast+
      with up rec st' show ?thesis
        by (intro epochs_put_identity [OF up, of a rec]) (simp_all add: word_le_nat_alt)
    qed
  next
    case (Call_authorize_device args)
    with assms(2) have "authorize_device env args st = Inr (st', evs)" by simp
    then show ?thesis by (rule authorize_device_Inr) (rule epochs_put_device [OF up]; auto)
  next
    case (Call_revoke_device args)
    with assms(2) have "revoke_device env args st = Inr (st', evs)" by simp
    then show ?thesis
    proof (rule revoke_device_Inr)
      fix k dev
      assume dev: "devices st k = Some dev" and st': "identities st' = identities st"
        "devices st' = (devices st)(k \<mapsto> dev\<lparr>dev_revoked := True\<rparr>)"
      from up dev obtain r where "identities st (dev_account dev) = Some r" "dev_device_epoch dev \<le> id_device_epoch r"
        unfolding epochs_below_def by blast
      then show ?thesis by (intro epochs_put_device [OF up _ _ st']) simp_all
    qed
  qed (rule other; simp)+
qed

lemma epochs_below_run: "length cs < 4294967296 \<Longrightarrow> epochs_below (length cs) (run identity_exec identity_init cs)"
proof (induction cs rule: rev_induct)
  case Nil
  show ?case by (simp add: epochs_below_init)
next
  case (snoc tx cs)
  then have below: "epochs_below (length cs) (run identity_exec identity_init cs)" by simp
  show ?case
  proof (cases "identity_exec tx (run identity_exec identity_init cs)")
    case (Inl e)
    with below show ?thesis by (simp add: run_snoc epochs_below_mono)
  next
    case (Inr st')
    then obtain evs where "identity_step (fst tx) (snd tx) (run identity_exec identity_init cs) = Inr (st', evs)"
      by (auto simp: identity_exec_def)
    from epochs_step [OF below this] snoc.prems Inr show ?thesis by (simp add: run_snoc)
  qed
qed

section \<open>Live devices\<close>

text \<open>The device record stands unrevoked in the present epoch of an account owned by \<open>ow\<close>.\<close>

definition live :: "bytes \<Rightarrow> bytes \<Rightarrow> bytes \<Rightarrow> device_record \<Rightarrow> identity_state \<Rightarrow> bool" where
  "live a d ow dev st \<longleftrightarrow> (\<exists>rec. identities st a = Some rec \<and> id_owner rec = ow \<and> devices st (a @ d) = Some dev \<and>
     \<not> dev_revoked dev \<and> dev_device_epoch dev = id_device_epoch rec)"

lemma device_good_live:
  "device_good env st a d c \<longleftrightarrow> (\<exists>ow dev. live a d ow dev st \<and> now env < dev_expires_at dev \<and>
     (c = 0 \<or> dev_capabilities dev AND c \<noteq> 0))"
  by (auto simp: device_good_def live_def split: option.splits)

text \<open>Only an authorization signed by the owner makes a device live.\<close>

lemma became_live:
  assumes inv: "identity_inv st" and below: "epochs_below n st" and n: "n < 4294967295"
    and ok: "identity_step env call st = Inr (st', evs)" and a: "length a = 25"
    and old: "\<not> live a d ow dev st" and new: "live a d ow dev st'"
  shows "\<exists>args. call = Call_authorize_device args \<and> ad_account args = Some a \<and> ad_device args = Some d \<and>
    has_authority env ow \<and> dev_capabilities dev = ad_capabilities args \<and> dev_expires_at dev = ad_expires_at args \<and>
    ad_expires_at args \<le> now env + MAX_DEVICE_LIFETIME_MS"
proof -
  have new': "\<exists>rec. identities st' a = Some rec \<and> id_owner rec = ow \<and> dev_device_epoch dev = id_device_epoch rec"
    "devices st' (a @ d) = Some dev" "\<not> dev_revoked dev"
    using new by (auto simp: live_def)
  have owner: "\<exists>r. identities st (dev_account dv) = Some r \<and> dev_device_epoch dv \<le> id_device_epoch r \<and> dev_account dv = a"
    if "devices st (a @ d) = Some dv" for dv
  proof -
    have "device_ok st (a @ d) dv" using inv that by (simp add: identity_inv_def)
    then have "dev_account dv = a" using a unfolding device_ok_def by (metis append_eq_append_conv)
    then show ?thesis using below that unfolding epochs_below_def by blast
  qed
  have other: False if other_calls: "\<And>args. call \<noteq> Call_authorize_device args"
    "\<And>args. call \<noteq> Call_revoke_device args" "\<And>a. call \<noteq> Call_execute_recovery a"
    using ok other_calls
  proof (cases rule: identity_write_cases)
    case (register b rec)
    with new'(2) owner have "b \<noteq> a" by fastforce
    with register old new show False by (auto simp: live_def)
  next
    case (update b o' rec)
    with old new show False by (cases "b = a") (auto simp: live_def)
  next
    case same
    with old new show False by (auto simp: live_def)
  qed
  show ?thesis
  proof (cases call)
    case (Call_authorize_device args)
    with ok have "authorize_device env args st = Inr (st', evs)" by simp
    then show ?thesis
    proof (rule authorize_device_Inr)
      fix a' d' rec dv
      assume h: "ad_account args = Some a'" "ad_device args = Some d'" "length a' = 25" "identities st a' = Some rec"
        "has_authority env (id_owner rec)" "identities st' = identities st" "devices st' = (devices st)(a' @ d' \<mapsto> dv)"
        "dev_capabilities dv = ad_capabilities args" "dev_expires_at dv = ad_expires_at args"
        "ad_expires_at args \<le> now env + MAX_DEVICE_LIFETIME_MS"
      have "a' @ d' = a @ d"
      proof (rule ccontr)
        assume "a' @ d' \<noteq> a @ d"
        with new h(6,7) have "live a d ow dev st" by (auto simp: live_def)
        with old show False ..
      qed
      then have "a' = a" "d' = d" using a h(3) by simp_all
      with h new' show ?thesis by (intro exI [of _ args]) (auto simp: Call_authorize_device)
    qed
  next
    case (Call_revoke_device args)
    with ok have "revoke_device env args st = Inr (st', evs)" by simp
    then have False
      by (rule revoke_device_Inr) (use old new in \<open>auto simp: live_def split: if_splits\<close>)
    then show ?thesis ..
  next
    case (Call_execute_recovery x)
    with ok have "execute_recovery env x st = Inr (st', evs)" by simp
    then have False
    proof (rule execute_recovery_Inr)
      fix a' rec p t
      assume rec: "identities st a' = Some rec" and st': "identities st' = (identities st)(a' \<mapsto> rec\<lparr>id_owner := pr_new_owner p,
          id_device_epoch := id_device_epoch rec + 1, id_updated_at := t\<rparr>)" "devices st' = devices st"
      show False
      proof (cases "a' = a")
        case False
        with old new st' show False by (auto simp: live_def)
      next
        case True
        from owner new'(2) st'(2) rec True have "dev_device_epoch dev \<le> id_device_epoch rec" by auto
        moreover have "dev_device_epoch dev = id_device_epoch rec + 1" using new'(1) st'(1) True by auto
        moreover have "unat (id_device_epoch rec) \<le> n" using below rec by (simp add: epochs_below_def)
        then have "unat (id_device_epoch rec + 1) = Suc (unat (id_device_epoch rec))" using n by (rule epoch_inc)
        ultimately show False by (simp add: word_le_nat_alt)
      qed
    qed
    then show ?thesis ..
  qed (rule FalseE, rule other; simp)+
qed

text \<open>
  Whatever device can act for an account was put there by the account's present owner: the
  history holds an authorization of that device, signed by the key that owns the account now,
  which granted the capability asked for, has not expired and was at most 366 days long, and since
  which the device has stood unrevoked and no recovery has taken the account. (The history is
  shorter than the range of the epoch counter.)
\<close>

lemma device_authorized:
  fixes cs :: "('w env \<times> identity_call) list"
  assumes "device_good env (run identity_exec identity_init cs) a d c" and "length a = 25" and "length cs < 4294967296"
  shows "\<exists>before env1 args after rec dev st1.
    cs = before @ (env1, Call_authorize_device args) # after \<and>
    identities (run identity_exec identity_init cs) a = Some rec \<and>
    ad_account args = Some a \<and> ad_device args = Some d \<and> has_authority env1 (id_owner rec) \<and>
    (c = 0 \<or> ad_capabilities args AND c \<noteq> 0) \<and> now env < ad_expires_at args \<and>
    ad_expires_at args \<le> now env1 + 31622400000 \<and>
    identity_exec (env1, Call_authorize_device args) (run identity_exec identity_init before) = Inr st1 \<and>
    (\<forall>ys zs. after = ys @ zs \<longrightarrow> live a d (id_owner rec) dev (run identity_exec st1 ys))"
proof -
  from assms(1) obtain ow dev where l: "live a d ow dev (run identity_exec identity_init cs)"
    and good: "now env < dev_expires_at dev" "c = 0 \<or> dev_capabilities dev AND c \<noteq> 0"
    by (auto simp: device_good_live)
  have "\<not> live a d ow dev identity_init" by (simp add: live_def identity_init_def)
  then obtain before tx after st1 where cs: "cs = before @ tx # after"
    and n: "\<not> live a d ow dev (run identity_exec identity_init before)"
    and tx: "identity_exec tx (run identity_exec identity_init before) = Inr st1" and p: "live a d ow dev st1"
    and held: "\<And>ys zs. after = ys @ zs \<Longrightarrow> live a d ow dev (run identity_exec st1 ys)"
    using l by (rule run_established [where P = "live a d ow dev"]) (rule that, assumption+)
  obtain evs where st: "identity_step (fst tx) (snd tx) (run identity_exec identity_init before) = Inr (st1, evs)"
    using tx by (auto simp: identity_exec_def)
  have len: "length before < 4294967295" using assms(3) cs by simp
  then have below: "epochs_below (length before) (run identity_exec identity_init before)" by (intro epochs_below_run) simp
  from became_live [OF identity_run_inv below len st assms(2) n p] obtain args where
    args: "snd tx = Call_authorize_device args" "ad_account args = Some a" "ad_device args = Some d"
    "has_authority (fst tx) ow" "dev_capabilities dev = ad_capabilities args" "dev_expires_at dev = ad_expires_at args"
    "ad_expires_at args \<le> now (fst tx) + MAX_DEVICE_LIFETIME_MS" by blast
  obtain rec where rec: "identities (run identity_exec identity_init cs) a = Some rec" "id_owner rec = ow"
    using l by (auto simp: live_def)
  have "tx = (fst tx, Call_authorize_device args)" using args(1) by (cases tx) simp
  then show ?thesis
    using cs rec args(2-7) good tx held
    by (intro exI [of _ before] exI [of _ "fst tx"] exI [of _ args] exI [of _ after] exI [of _ rec] exI [of _ dev] exI [of _ st1])
      (simp add: identity_limits)
qed

end
