(* ===== verification/Relationships.thy ===== *)
theory Relationships
  imports Actor Timelock "HOL-Library.Sublist"
begin

text \<open>
  The relationships contract, \<open>packages/contracts/relationships/assembly/Relationships.ts\<close>:
  mutual friendships, unilateral follows, blocks and the per-account friends-audience epoch.
  The first part is the contract as written, the second its invariant, what ends a friendship
  and what a friendship needs.
\<close>

section \<open>State objects\<close>

datatype relationship_status = Rel_none | Rel_pending | Rel_active | Rel_inactive

record relationship_record =
  rr_a :: bytes
  rr_b :: bytes
  rr_status :: relationship_status
  rr_requester :: bytes
  rr_nonce :: u64
  rr_updated_at :: u64

record audience_state =
  aud_epoch :: u32
  aud_updated_at :: u64

record block_record =
  blk_blocked :: bool
  blk_updated_at :: u64

record follow_record =
  fol_active :: bool
  fol_updated_at :: u64

record relationships_state =
  edges :: "bytes \<rightharpoonup> relationship_record"
  blocks :: "bytes \<rightharpoonup> block_record"
  follows :: "bytes \<rightharpoonup> follow_record"
  audiences :: "bytes \<rightharpoonup> audience_state"
  rel_config :: "bytes option option" \<comment> \<open>the stored object and its \<open>value\<close>\<close>
  rel_usage :: "bytes option option"

definition relationships_empty :: relationships_state where
  "relationships_empty = \<lparr>edges = Map.empty, blocks = Map.empty, follows = Map.empty,
     audiences = Map.empty, rel_config = None, rel_usage = None\<rparr>"

section \<open>Arguments and events\<close>

record request_friend_arguments =
  rf_requester :: "bytes option"
  rf_recipient :: "bytes option"
  rf_device :: "bytes option"

record accept_friend_arguments =
  af_approver :: "bytes option"
  af_requester :: "bytes option"
  af_device :: "bytes option"
  af_key_package_ref :: "bytes option"

record remove_friend_arguments =
  rm_actor :: "bytes option"
  rm_peer :: "bytes option"
  rm_device :: "bytes option"

record block_arguments =
  bl_actor :: "bytes option"
  bl_target :: "bytes option"

record unblock_arguments =
  ub_actor :: "bytes option"
  ub_target :: "bytes option"

record follow_arguments =
  fo_follower :: "bytes option"
  fo_target :: "bytes option"
  fo_device :: "bytes option"

record unfollow_arguments =
  uf_follower :: "bytes option"
  uf_target :: "bytes option"
  uf_device :: "bytes option"

record rotate_audience_arguments =
  ra_actor :: "bytes option"
  ra_device :: "bytes option"

text \<open>The payloads of the \<open>osp.relationships.*\<close> events, fields in the order of the schema.\<close>

datatype relationships_event =
    Friend_requested bytes bytes u64 u64
  | Friend_accepted bytes bytes u64 "bytes option" u64
  | Friend_removed bytes bytes u64 u32 u64
  | Blocked bytes bytes u32 u64
  | Unblocked bytes bytes u64
  | Followed bytes bytes u64
  | Unfollowed bytes bytes u64
  | Audience_rotated bytes u32 string u64

type_synonym relationships_outcome = "(relationships_state \<times> relationships_event emitted list) result"

section \<open>Constants\<close>

definition KEY_PACKAGE_REF_LENGTH :: nat where "KEY_PACKAGE_REF_LENGTH = 32"
definition REASON_FRIEND_REMOVED :: string where "REASON_FRIEND_REMOVED = ''friend_removed''"
definition REASON_BLOCKED :: string where "REASON_BLOCKED = ''blocked''"
definition REASON_MANUAL :: string where "REASON_MANUAL = ''manual''"

section \<open>Internal helpers\<close>

definition rel_set_token_contract :: "'w env \<Rightarrow> bytes option \<Rightarrow> relationships_state \<Rightarrow> relationships_outcome" where
  "rel_set_token_contract env args_address st =
     require_authority env (contract_id env)
     (attempt (require_address args_address ''token'') (\<lambda>address.
      Inr (st\<lparr>rel_usage := Some (Some address)\<rparr>, [])))"

definition rel_get_token_contract :: "relationships_state \<Rightarrow> bytes option" where
  "rel_get_token_contract st = (case rel_usage st of None \<Rightarrow> None | Some c \<Rightarrow> c)"

text \<open>
  \<open>consume\<close> charges one unit of the account's allowance at the token contract; it is the only
  call of this contract that writes another contract's state (\<open>'w\<close>).
\<close>

definition rel_consume :: "'w env \<Rightarrow> bytes \<Rightarrow> relationships_state \<Rightarrow> 'w \<Rightarrow> 'w result" where
  "rel_consume env account st w =
     (case rel_usage st of
        None \<Rightarrow> Inr w
      | Some c \<Rightarrow>
          if is_empty c then Inr w
          else attempt (non_null c ''value'') (\<lambda>contract.
               case call_consume env contract account 1 w of
                 None \<Rightarrow> Inl (Revert ''usage allowance exhausted'')
               | Some w' \<Rightarrow> Inr w'))"

definition rel_identity_contract :: "relationships_state \<Rightarrow> bytes" where
  "rel_identity_contract st =
     (case rel_config st of
        None \<Rightarrow> []
      | Some v \<Rightarrow> if is_empty v then [] else the v)"

definition pair_key :: "bytes \<Rightarrow> bytes \<Rightarrow> bytes" where
  "pair_key a b = (if compare a b \<le> 0 then concat_parts [a, b] else concat_parts [b, a])"

definition directed_key :: "bytes \<Rightarrow> bytes \<Rightarrow> bytes" where
  "directed_key from_addr to_addr = concat_parts [from_addr, to_addr]"

definition has_blocked :: "bytes \<Rightarrow> bytes \<Rightarrow> relationships_state \<Rightarrow> bool" where
  "has_blocked actor target st =
     (case blocks st (directed_key actor target) of None \<Rightarrow> False | Some rec \<Rightarrow> blk_blocked rec)"

definition require_not_blocked ::
  "bytes \<Rightarrow> bytes \<Rightarrow> string \<Rightarrow> relationships_state \<Rightarrow> 'a result \<Rightarrow> 'a result" where
  "require_not_blocked actor other what st k =
     require (\<not> has_blocked actor other st) (what @ '' is blocked'')
     (require (\<not> has_blocked other actor st) (''blocked by '' @ what) k)"

definition is_following :: "bytes \<Rightarrow> bytes \<Rightarrow> relationships_state \<Rightarrow> bool" where
  "is_following follower target st =
     (case follows st (directed_key follower target) of None \<Rightarrow> False | Some rec \<Rightarrow> fol_active rec)"

definition load_audience :: "bytes \<Rightarrow> relationships_state \<Rightarrow> audience_state" where
  "load_audience account st =
     (case audiences st account of None \<Rightarrow> \<lparr>aud_epoch = 0, aud_updated_at = 0\<rparr> | Some state \<Rightarrow> state)"

definition advance_epoch :: "bytes \<Rightarrow> u64 \<Rightarrow> relationships_state \<Rightarrow> (relationships_state \<times> u32) result" where
  "advance_epoch account t st =
     (let state = load_audience account st
      in require (aud_epoch state < - 1) ''audience epoch exhausted''
         (let state' = state\<lparr>aud_epoch := aud_epoch state + 1, aud_updated_at := t\<rparr>
          in Inr (st\<lparr>audiences := (audiences st)(account \<mapsto> state')\<rparr>, aud_epoch state')))"

definition emit_audience_rotated :: "bytes \<Rightarrow> u32 \<Rightarrow> string \<Rightarrow> u64 \<Rightarrow> relationships_event emitted" where
  "emit_audience_rotated account new_epoch why t = (Audience_rotated account new_epoch why t, [account])"

definition optional_key_package_ref :: "bytes option \<Rightarrow> bytes option result" where
  "optional_key_package_ref v =
     (if is_empty v then Inr None
      else require (length (the v) = KEY_PACKAGE_REF_LENGTH)
             ''key_package_ref must be empty or 32 bytes'' (Inr v))"

section \<open>Admin\<close>

definition rel_set_identity_contract :: "'w env \<Rightarrow> bytes option \<Rightarrow> relationships_state \<Rightarrow> relationships_outcome" where
  "rel_set_identity_contract env args_address st =
     require_authority env (contract_id env)
     (attempt (require_address args_address ''address'') (\<lambda>address.
      Inr (st\<lparr>rel_config := Some (Some address)\<rparr>, [])))"

section \<open>Friendships\<close>

text \<open>The nonce of a new request: one, or the successor of an ended relationship's nonce.\<close>

definition request_nonce :: "relationship_record option \<Rightarrow> u64 result" where
  "request_nonce existing =
     (case existing of
        None \<Rightarrow> Inr 1
      | Some rec \<Rightarrow>
          require (rr_status rec \<noteq> Rel_pending) ''already pending''
          (require (rr_status rec \<noteq> Rel_active) ''already friends'' (Inr (rr_nonce rec + 1))))"

definition request_friend :: "'w env \<Rightarrow> request_friend_arguments \<Rightarrow> 'w \<times> relationships_state \<Rightarrow>
    (('w \<times> relationships_state) \<times> relationships_event emitted list) result" where
  "request_friend env args s =
     (let w = fst s; st = snd s in
     attempt (require_address (rf_requester args) ''requester'') (\<lambda>requester.
     attempt (require_address (rf_recipient args) ''recipient'') (\<lambda>recipient.
     require (requester \<noteq> recipient) ''cannot friend yourself''
    (let ic = rel_identity_contract st in
     attempt (require_authorized env ic requester (rf_device args) CAP_RELATIONSHIPS) (\<lambda>_.
     attempt (actor_exists env ic recipient) (\<lambda>registered.
     require registered ''recipient not registered''
    (require_not_blocked requester recipient ''recipient'' st
    (let key = pair_key requester recipient in
     attempt (request_nonce (edges st key)) (\<lambda>nonce.
     let t = now env;
         first = (if compare requester recipient < 0 then requester else recipient);
         second = (if compare requester recipient < 0 then recipient else requester);
         rec = \<lparr>rr_a = first, rr_b = second, rr_status = Rel_pending, rr_requester = requester,
                rr_nonce = nonce, rr_updated_at = t\<rparr>;
         st' = st\<lparr>edges := (edges st)(key \<mapsto> rec)\<rparr>
     in attempt (rel_consume env requester st' w) (\<lambda>w'.
        Inr ((w', st'), [(Friend_requested requester recipient nonce t, [requester, recipient])])))))))))))"

definition accept_friend :: "'w env \<Rightarrow> accept_friend_arguments \<Rightarrow> relationships_state \<Rightarrow> relationships_outcome" where
  "accept_friend env args st =
     attempt (require_address (af_approver args) ''approver'') (\<lambda>approver.
     attempt (require_address (af_requester args) ''requester'') (\<lambda>requester.
     require (approver \<noteq> requester) ''approver and requester must differ''
    (attempt (require_authorized env (rel_identity_contract st) approver (af_device args) CAP_RELATIONSHIPS) (\<lambda>_.
     require_not_blocked approver requester ''requester'' st
    (attempt (optional_key_package_ref (af_key_package_ref args)) (\<lambda>key_package_ref.
     let key = pair_key approver requester
     in require (edges st key \<noteq> None \<and> rr_status (the (edges st key)) = Rel_pending) ''no pending request''
       (attempt (non_null (edges st key) ''rec'') (\<lambda>rec.
        require (rr_requester rec = requester) ''requester mismatch''
       (let t = now env;
            rec' = rec\<lparr>rr_status := Rel_active, rr_nonce := rr_nonce rec + 1, rr_updated_at := t\<rparr>
        in Inr (st\<lparr>edges := (edges st)(key \<mapsto> rec')\<rparr>,
                [(Friend_accepted approver requester (rr_nonce rec') key_package_ref t,
                  [approver, requester])]))))))))))"

definition remove_friend :: "'w env \<Rightarrow> remove_friend_arguments \<Rightarrow> relationships_state \<Rightarrow> relationships_outcome" where
  "remove_friend env args st =
     attempt (require_address (rm_actor args) ''actor'') (\<lambda>actor.
     attempt (require_address (rm_peer args) ''peer'') (\<lambda>peer.
     require (actor \<noteq> peer) ''actor and peer must differ''
    (attempt (require_authorized env (rel_identity_contract st) actor (rm_device args) CAP_RELATIONSHIPS) (\<lambda>_.
     let key = pair_key actor peer
     in require (edges st key \<noteq> None \<and> rr_status (the (edges st key)) = Rel_active) ''not friends''
       (attempt (non_null (edges st key) ''rec'') (\<lambda>rec.
        let t = now env;
            rec' = rec\<lparr>rr_status := Rel_inactive, rr_nonce := rr_nonce rec + 1, rr_updated_at := t\<rparr>;
            st1 = st\<lparr>edges := (edges st)(key \<mapsto> rec')\<rparr>
        in attempt (advance_epoch actor t st1) (\<lambda>(st2, new_epoch).
           attempt (advance_epoch peer t st2) (\<lambda>(st3, peer_epoch).
           Inr (st3,
                [(Friend_removed actor peer (rr_nonce rec') new_epoch t, [actor, peer]),
                 emit_audience_rotated actor new_epoch REASON_FRIEND_REMOVED t,
                 emit_audience_rotated peer peer_epoch REASON_FRIEND_REMOVED t])))))))))"

section \<open>Blocks\<close>

text \<open>Any pending or active friendship under the key ends.\<close>

definition end_edge :: "bytes \<Rightarrow> u64 \<Rightarrow> relationships_state \<Rightarrow> relationships_state" where
  "end_edge key t st =
     (case edges st key of
        None \<Rightarrow> st
      | Some rec \<Rightarrow>
          if rr_status rec = Rel_pending \<or> rr_status rec = Rel_active
          then st\<lparr>edges := (edges st)(key \<mapsto> rec\<lparr>rr_status := Rel_inactive,
                   rr_nonce := rr_nonce rec + 1, rr_updated_at := t\<rparr>)\<rparr>
          else st)"

definition block :: "'w env \<Rightarrow> block_arguments \<Rightarrow> relationships_state \<Rightarrow> relationships_outcome" where
  "block env args st =
     attempt (require_address (bl_actor args) ''actor'') (\<lambda>actor.
     attempt (require_address (bl_target args) ''target'') (\<lambda>target.
     require (actor \<noteq> target) ''cannot block yourself''
    (attempt (require_authorized env (rel_identity_contract st) actor None 0) (\<lambda>_.
     let block_key = directed_key actor target
     in require (\<not> has_blocked actor target st) ''already blocked''
       (let t = now env;
            st1 = st\<lparr>blocks := (blocks st)(block_key \<mapsto> \<lparr>blk_blocked = True, blk_updated_at = t\<rparr>)\<rparr>;
            key = pair_key actor target;
            was_active = (case edges st1 key of None \<Rightarrow> False | Some rec \<Rightarrow> rr_status rec = Rel_active);
            st2 = end_edge key t st1;
            st3 = st2\<lparr>follows := (follows st2)(directed_key actor target := None)\<rparr>;
            st4 = st3\<lparr>follows := (follows st3)(directed_key target actor := None)\<rparr>
        in attempt (advance_epoch actor t st4) (\<lambda>(st5, new_epoch).
           let evs = [(Blocked actor target new_epoch t, [actor, target]),
                      emit_audience_rotated actor new_epoch REASON_BLOCKED t]
           in if was_active
              then attempt (advance_epoch target t st5) (\<lambda>(st6, target_epoch).
                   Inr (st6, evs @ [emit_audience_rotated target target_epoch REASON_BLOCKED t]))
              else Inr (st5, evs)))))))"

definition unblock :: "'w env \<Rightarrow> unblock_arguments \<Rightarrow> relationships_state \<Rightarrow> relationships_outcome" where
  "unblock env args st =
     attempt (require_address (ub_actor args) ''actor'') (\<lambda>actor.
     attempt (require_address (ub_target args) ''target'') (\<lambda>target.
     require (actor \<noteq> target) ''cannot unblock yourself''
    (attempt (require_authorized env (rel_identity_contract st) actor None 0) (\<lambda>_.
     let block_key = directed_key actor target
     in require (has_blocked actor target st) ''not blocked''
       (Inr (st\<lparr>blocks := (blocks st)(block_key := None)\<rparr>,
             [(Unblocked actor target (now env), [actor, target])]))))))"

section \<open>Follows\<close>

definition follow :: "'w env \<Rightarrow> follow_arguments \<Rightarrow> 'w \<times> relationships_state \<Rightarrow>
    (('w \<times> relationships_state) \<times> relationships_event emitted list) result" where
  "follow env args s =
     (let w = fst s; st = snd s in
     attempt (require_address (fo_follower args) ''follower'') (\<lambda>follower.
     attempt (require_address (fo_target args) ''target'') (\<lambda>target.
     require (follower \<noteq> target) ''cannot follow yourself''
    (let ic = rel_identity_contract st in
     attempt (require_authorized env ic follower (fo_device args) CAP_RELATIONSHIPS) (\<lambda>_.
     attempt (actor_exists env ic target) (\<lambda>registered.
     require registered ''target not registered''
    (require_not_blocked follower target ''target'' st
    (require (\<not> is_following follower target st) ''already following''
    (let t = now env;
         st' = st\<lparr>follows := (follows st)(directed_key follower target \<mapsto>
                 \<lparr>fol_active = True, fol_updated_at = t\<rparr>)\<rparr>
     in attempt (rel_consume env follower st' w) (\<lambda>w'.
        Inr ((w', st'), [(Followed follower target t, [follower, target])])))))))))))"

definition unfollow :: "'w env \<Rightarrow> unfollow_arguments \<Rightarrow> relationships_state \<Rightarrow> relationships_outcome" where
  "unfollow env args st =
     attempt (require_address (uf_follower args) ''follower'') (\<lambda>follower.
     attempt (require_address (uf_target args) ''target'') (\<lambda>target.
     require (follower \<noteq> target) ''cannot unfollow yourself''
    (attempt (require_authorized env (rel_identity_contract st) follower (uf_device args) CAP_RELATIONSHIPS) (\<lambda>_.
     require (is_following follower target st) ''not following''
    (Inr (st\<lparr>follows := (follows st)(directed_key follower target := None)\<rparr>,
          [(Unfollowed follower target (now env), [follower, target])]))))))"

section \<open>Audience epoch\<close>

definition rotate_audience :: "'w env \<Rightarrow> rotate_audience_arguments \<Rightarrow> relationships_state \<Rightarrow> relationships_outcome" where
  "rotate_audience env args st =
     attempt (require_address (ra_actor args) ''actor'') (\<lambda>actor.
     attempt (require_authorized env (rel_identity_contract st) actor (ra_device args) CAP_RELATIONSHIPS) (\<lambda>_.
     let t = now env
     in attempt (advance_epoch actor t st) (\<lambda>(st', new_epoch).
        Inr (st', [emit_audience_rotated actor new_epoch REASON_MANUAL t]))))"

section \<open>Reads\<close>

definition get_relationship :: "bytes option \<Rightarrow> bytes option \<Rightarrow> relationships_state \<Rightarrow> relationship_record option" where
  "get_relationship a b st =
     (if is_empty a \<or> is_empty b then None else edges st (pair_key (the a) (the b)))"

definition get_audience :: "bytes option \<Rightarrow> relationships_state \<Rightarrow> audience_state" where
  "get_audience account st =
     (if is_empty account then \<lparr>aud_epoch = 0, aud_updated_at = 0\<rparr> else load_audience (the account) st)"

definition is_blocked :: "bytes option \<Rightarrow> bytes option \<Rightarrow> relationships_state \<Rightarrow> bool" where
  "is_blocked actor target st =
     (if is_empty actor \<or> is_empty target then False else has_blocked (the actor) (the target) st)"

definition get_follow :: "bytes option \<Rightarrow> bytes option \<Rightarrow> relationships_state \<Rightarrow> follow_record option" where
  "get_follow follower target st =
     (if is_empty follower \<or> is_empty target then None
      else follows st (directed_key (the follower) (the target)))"

definition rel_get_identity_contract :: "relationships_state \<Rightarrow> bytes option" where
  "rel_get_identity_contract st = (case rel_config st of None \<Rightarrow> None | Some v \<Rightarrow> v)"

section \<open>The contract as a transition system\<close>

datatype relationships_call =
    Call_rel_set_token_contract "bytes option"
  | Call_rel_set_identity_contract "bytes option"
  | Call_request_friend request_friend_arguments
  | Call_accept_friend accept_friend_arguments
  | Call_remove_friend remove_friend_arguments
  | Call_block block_arguments
  | Call_unblock unblock_arguments
  | Call_follow follow_arguments
  | Call_unfollow unfollow_arguments
  | Call_rotate_audience rotate_audience_arguments

fun relationships_step :: "'w env \<Rightarrow> relationships_call \<Rightarrow> 'w \<times> relationships_state \<Rightarrow>
    (('w \<times> relationships_state) \<times> relationships_event emitted list) result" where
  "relationships_step env (Call_rel_set_token_contract a) s = local_op (rel_set_token_contract env a) s"
| "relationships_step env (Call_rel_set_identity_contract a) s = local_op (rel_set_identity_contract env a) s"
| "relationships_step env (Call_request_friend args) s = request_friend env args s"
| "relationships_step env (Call_accept_friend args) s = local_op (accept_friend env args) s"
| "relationships_step env (Call_remove_friend args) s = local_op (remove_friend env args) s"
| "relationships_step env (Call_block args) s = local_op (block env args) s"
| "relationships_step env (Call_unblock args) s = local_op (unblock env args) s"
| "relationships_step env (Call_follow args) s = follow env args s"
| "relationships_step env (Call_unfollow args) s = local_op (unfollow env args) s"
| "relationships_step env (Call_rotate_audience args) s = local_op (rotate_audience env args) s"

definition relationships_exec ::
  "'w env \<times> relationships_call \<Rightarrow> 'w \<times> relationships_state \<Rightarrow> ('w \<times> relationships_state) result" where
  "relationships_exec tx s = map_sum id fst (relationships_step (fst tx) (snd tx) s)"

section \<open>Keys\<close>

lemma pair_key_min_max: "pair_key a b = min a b @ max a b"
  by (auto simp: pair_key_def min_def max_def not_le)

lemma pair_key_commute: "pair_key a b = pair_key b a"
  by (simp add: pair_key_min_max min.commute max.commute)

lemma pair_key_eq:
  assumes "length a = 25" and "length b = 25" and "length c = 25" and "length d = 25"
  shows "pair_key a b = pair_key c d \<longleftrightarrow> (a = c \<and> b = d) \<or> (a = d \<and> b = c)"
  using assms by (auto simp: pair_key_def)

lemma directed_key_eq:
  "length a = 25 \<Longrightarrow> length c = 25 \<Longrightarrow> directed_key a b = directed_key c d \<longleftrightarrow> a = c \<and> b = d"
  by (simp add: directed_key_def)

section \<open>Well-formed states\<close>

definition pair_status :: "bytes \<Rightarrow> bytes \<Rightarrow> relationships_state \<Rightarrow> relationship_status" where
  "pair_status a b st = (case edges st (pair_key a b) of None \<Rightarrow> Rel_none | Some r \<Rightarrow> rr_status r)"

definition friends :: "bytes \<Rightarrow> bytes \<Rightarrow> relationships_state \<Rightarrow> bool" where
  "friends a b st \<longleftrightarrow> pair_status a b st = Rel_active"

definition audience_epoch :: "bytes \<Rightarrow> relationships_state \<Rightarrow> u32" where
  "audience_epoch a st = aud_epoch (load_audience a st)"

definition edge_ok :: "bytes \<Rightarrow> relationship_record \<Rightarrow> bool" where
  "edge_ok k r \<longleftrightarrow> k = rr_a r @ rr_b r \<and> length (rr_a r) = 25 \<and> length (rr_b r) = 25 \<and>
     rr_a r < rr_b r \<and> (rr_requester r = rr_a r \<or> rr_requester r = rr_b r) \<and> rr_status r \<noteq> Rel_none"

text \<open>A blocked pair is severed: no pending or active edge, no follow either way.\<close>

definition severed :: "bytes \<Rightarrow> bytes \<Rightarrow> relationships_state \<Rightarrow> bool" where
  "severed a b st \<longleftrightarrow> pair_status a b st \<notin> {Rel_pending, Rel_active} \<and>
     \<not> is_following a b st \<and> \<not> is_following b a st"

definition relationships_inv :: "relationships_state \<Rightarrow> bool" where
  "relationships_inv st \<longleftrightarrow>
     (\<forall>k r. edges st k = Some r \<longrightarrow> edge_ok k r) \<and>
     (\<forall>a b. length a = 25 \<longrightarrow> length b = 25 \<longrightarrow> has_blocked a b st \<longrightarrow> severed a b st)"

lemma relationships_empty_inv: "relationships_inv relationships_empty"
  by (simp add: relationships_inv_def relationships_empty_def has_blocked_def)

lemmas relationships_op_defs = rel_set_token_contract_def rel_set_identity_contract_def
  request_friend_def accept_friend_def remove_friend_def block_def unblock_def follow_def
  unfollow_def rotate_audience_def

lemmas relationships_helper_defs = advance_epoch_def require_not_blocked_def Let_def

text \<open>How each kind of write acts on the four observations of a pair.\<close>

lemma observe_put_edge:
  "pair_status a b (st\<lparr>edges := (edges st)(k \<mapsto> r)\<rparr>) = (if pair_key a b = k then rr_status r else pair_status a b st)"
  "is_following a b (st\<lparr>edges := m\<rparr>) = is_following a b st"
  "has_blocked a b (st\<lparr>edges := m\<rparr>) = has_blocked a b st"
  "audience_epoch a (st\<lparr>edges := m\<rparr>) = audience_epoch a st"
  by (simp_all add: pair_status_def is_following_def has_blocked_def audience_epoch_def load_audience_def)

lemma observe_put_follow:
  "pair_status a b (st\<lparr>follows := fm\<rparr>) = pair_status a b st"
  "is_following a b (st\<lparr>follows := (follows st)(k := v)\<rparr>) =
     (if directed_key a b = k then (case v of None \<Rightarrow> False | Some r \<Rightarrow> fol_active r) else is_following a b st)"
  "has_blocked a b (st\<lparr>follows := fm\<rparr>) = has_blocked a b st"
  "audience_epoch a (st\<lparr>follows := fm\<rparr>) = audience_epoch a st"
  by (simp_all add: pair_status_def is_following_def has_blocked_def audience_epoch_def load_audience_def)

lemma observe_put_block:
  "pair_status a b (st\<lparr>blocks := bm\<rparr>) = pair_status a b st"
  "is_following a b (st\<lparr>blocks := bm\<rparr>) = is_following a b st"
  "has_blocked a b (st\<lparr>blocks := (blocks st)(k := v)\<rparr>) =
     (if directed_key a b = k then (case v of None \<Rightarrow> False | Some r \<Rightarrow> blk_blocked r) else has_blocked a b st)"
  "audience_epoch a (st\<lparr>blocks := bm\<rparr>) = audience_epoch a st"
  by (simp_all add: pair_status_def is_following_def has_blocked_def audience_epoch_def load_audience_def)

lemma observe_put_audience:
  "pair_status a b (st\<lparr>audiences := am\<rparr>) = pair_status a b st"
  "is_following a b (st\<lparr>audiences := am\<rparr>) = is_following a b st"
  "has_blocked a b (st\<lparr>audiences := am\<rparr>) = has_blocked a b st"
  "audience_epoch a (st\<lparr>audiences := (audiences st)(c \<mapsto> s)\<rparr>) =
     (if a = c then aud_epoch s else audience_epoch a st)"
  by (simp_all add: pair_status_def is_following_def has_blocked_def audience_epoch_def load_audience_def)

lemma observe_config:
  "pair_status a b (st\<lparr>rel_config := c\<rparr>) = pair_status a b st"
  "is_following a b (st\<lparr>rel_config := c\<rparr>) = is_following a b st"
  "has_blocked a b (st\<lparr>rel_config := c\<rparr>) = has_blocked a b st"
  "audience_epoch a (st\<lparr>rel_config := c\<rparr>) = audience_epoch a st"
  "pair_status a b (st\<lparr>rel_usage := c\<rparr>) = pair_status a b st"
  "is_following a b (st\<lparr>rel_usage := c\<rparr>) = is_following a b st"
  "has_blocked a b (st\<lparr>rel_usage := c\<rparr>) = has_blocked a b st"
  "audience_epoch a (st\<lparr>rel_usage := c\<rparr>) = audience_epoch a st"
  by (simp_all add: pair_status_def is_following_def has_blocked_def audience_epoch_def load_audience_def)

lemmas observe = observe_put_edge observe_put_follow observe_put_block observe_put_audience observe_config

lemma relationships_inv_severed:
  "relationships_inv st \<Longrightarrow> length a = 25 \<Longrightarrow> length b = 25 \<Longrightarrow> has_blocked a b st \<Longrightarrow> severed a b st"
  by (simp add: relationships_inv_def)

lemma relationships_inv_edge: "relationships_inv st \<Longrightarrow> edges st k = Some r \<Longrightarrow> edge_ok k r"
  by (simp add: relationships_inv_def)

lemma inv_put_edge:
  assumes "relationships_inv st" and "edge_ok k r"
    and "\<And>a b. length a = 25 \<Longrightarrow> length b = 25 \<Longrightarrow> pair_key a b = k \<Longrightarrow> has_blocked a b st \<Longrightarrow> rr_status r = Rel_inactive"
  shows "relationships_inv (st\<lparr>edges := (edges st)(k \<mapsto> r)\<rparr>)"
  using assms by (auto simp: relationships_inv_def severed_def observe)

lemma inv_put_follow:
  assumes "relationships_inv st" and "length a = 25" and "length b = 25"
    and "\<not> has_blocked a b st" and "\<not> has_blocked b a st"
  shows "relationships_inv (st\<lparr>follows := (follows st)(directed_key a b \<mapsto> r)\<rparr>)"
  using assms by (auto simp: relationships_inv_def severed_def observe directed_key_eq)

lemma inv_drop_follow:
  "relationships_inv st \<Longrightarrow> relationships_inv (st\<lparr>follows := (follows st)(k := None)\<rparr>)"
  by (auto simp: relationships_inv_def severed_def observe)

lemma inv_put_block:
  assumes "relationships_inv st" and "length a = 25" and "length b = 25" and "severed a b st"
  shows "relationships_inv (st\<lparr>blocks := (blocks st)(directed_key a b := v)\<rparr>)"
  using assms by (auto simp: relationships_inv_def severed_def observe directed_key_eq split: if_splits)

lemma inv_drop_block:
  "relationships_inv st \<Longrightarrow> relationships_inv (st\<lparr>blocks := (blocks st)(k := None)\<rparr>)"
  by (auto simp: relationships_inv_def severed_def observe split: if_splits)

lemma inv_put_audience: "relationships_inv st \<Longrightarrow> relationships_inv (st\<lparr>audiences := am\<rparr>)"
  by (simp add: relationships_inv_def severed_def observe)

lemma inv_config:
  "relationships_inv st \<Longrightarrow> relationships_inv (st\<lparr>rel_config := c\<rparr>)"
  "relationships_inv st \<Longrightarrow> relationships_inv (st\<lparr>rel_usage := c\<rparr>)"
  by (simp_all add: relationships_inv_def severed_def observe)

lemmas relationships_puts = inv_put_follow inv_drop_follow inv_drop_block inv_put_audience inv_config

lemma edge_ok_status:
  "edge_ok k r \<Longrightarrow> s \<noteq> Rel_none \<Longrightarrow> edge_ok k (r\<lparr>rr_status := s, rr_nonce := n, rr_updated_at := t\<rparr>)"
  by (simp add: edge_ok_def)

lemma edge_ok_new:
  "length p = 25 \<Longrightarrow> length q = 25 \<Longrightarrow> p < q \<Longrightarrow> r = p \<or> r = q \<Longrightarrow>
   edge_ok (pair_key p q) \<lparr>rr_a = p, rr_b = q, rr_status = Rel_pending, rr_requester = r, rr_nonce = n, rr_updated_at = t\<rparr>"
  "length p = 25 \<Longrightarrow> length q = 25 \<Longrightarrow> p \<noteq> q \<Longrightarrow> \<not> p < q \<Longrightarrow> r = p \<or> r = q \<Longrightarrow>
   edge_ok (pair_key p q) \<lparr>rr_a = q, rr_b = p, rr_status = Rel_pending, rr_requester = r, rr_nonce = n, rr_updated_at = t\<rparr>"
  by (auto simp: edge_ok_def pair_key_def)

section \<open>Every operation keeps the invariant\<close>

lemma request_inv:
  "relationships_inv (snd s) \<Longrightarrow> request_friend env args s = Inr (s', evs) \<Longrightarrow> relationships_inv (snd s')"
  by (auto simp: request_friend_def relationships_helper_defs pair_key_eq
      intro!: inv_put_edge edge_ok_new)

lemma accept_inv:
  "relationships_inv st \<Longrightarrow> accept_friend env args st = Inr (st', evs) \<Longrightarrow> relationships_inv st'"
  by (auto simp: accept_friend_def relationships_helper_defs pair_key_eq
      intro!: inv_put_edge edge_ok_status dest: relationships_inv_edge)

lemma remove_inv:
  "relationships_inv st \<Longrightarrow> remove_friend env args st = Inr (st', evs) \<Longrightarrow> relationships_inv st'"
  by (auto simp: remove_friend_def relationships_helper_defs
      intro!: inv_put_audience inv_put_edge edge_ok_status dest: relationships_inv_edge)

lemma follow_inv:
  "relationships_inv (snd s) \<Longrightarrow> follow env args s = Inr (s', evs) \<Longrightarrow> relationships_inv (snd s')"
  by (auto simp: follow_def relationships_helper_defs intro!: inv_put_follow)

lemma other_rel_ops_inv:
  "relationships_inv st \<Longrightarrow> rel_set_token_contract env a st = Inr (st', evs) \<Longrightarrow> relationships_inv st'"
  "relationships_inv st \<Longrightarrow> rel_set_identity_contract env a st = Inr (st', evs) \<Longrightarrow> relationships_inv st'"
  "relationships_inv st \<Longrightarrow> unblock env ub st = Inr (st', evs) \<Longrightarrow> relationships_inv st'"
  "relationships_inv st \<Longrightarrow> unfollow env uf st = Inr (st', evs) \<Longrightarrow> relationships_inv st'"
  "relationships_inv st \<Longrightarrow> rotate_audience env ra st = Inr (st', evs) \<Longrightarrow> relationships_inv st'"
  by (auto simp: relationships_op_defs relationships_helper_defs intro!: relationships_puts)

lemma observe_end_edge:
  "pair_status a b (end_edge k t st) =
     (if pair_key a b = k \<and> pair_status a b st \<in> {Rel_pending, Rel_active} then Rel_inactive else pair_status a b st)"
  "is_following a b (end_edge k t st) = is_following a b st"
  "has_blocked a b (end_edge k t st) = has_blocked a b st"
  "audience_epoch a (end_edge k t st) = audience_epoch a st"
  "follows (end_edge k t st) = follows st"
  by (auto simp: end_edge_def observe pair_status_def split: option.splits)

lemma end_edge_inv: "relationships_inv st \<Longrightarrow> relationships_inv (end_edge k t st)"
  by (auto simp: end_edge_def intro!: inv_put_edge edge_ok_status dest: relationships_inv_edge split: option.split)

text \<open>The four observations of a pair after a block.\<close>

lemma observe_fields:
  "pair_status a b st = (case edges st (pair_key a b) of None \<Rightarrow> Rel_none | Some r \<Rightarrow> rr_status r)"
  "is_following a b st = (case follows st (directed_key a b) of None \<Rightarrow> False | Some r \<Rightarrow> fol_active r)"
  "has_blocked a b st = (case blocks st (directed_key a b) of None \<Rightarrow> False | Some r \<Rightarrow> blk_blocked r)"
  "audience_epoch a st = (case audiences st a of None \<Rightarrow> 0 | Some s \<Rightarrow> aud_epoch s)"
  by (simp_all add: pair_status_def is_following_def has_blocked_def audience_epoch_def load_audience_def
      split: option.split)

lemma end_edge_fields:
  "follows (end_edge k t st) = follows st" "blocks (end_edge k t st) = blocks st"
  "audiences (end_edge k t st) = audiences st"
  "edges (end_edge k t st) = (case edges st k of None \<Rightarrow> edges st
     | Some r \<Rightarrow> if rr_status r = Rel_pending \<or> rr_status r = Rel_active
         then (edges st)(k \<mapsto> r\<lparr>rr_status := Rel_inactive, rr_nonce := rr_nonce r + 1, rr_updated_at := t\<rparr>)
         else edges st)"
  by (auto simp: end_edge_def split: option.split)

text \<open>A successful advance, field by field; the counter does not wrap.\<close>

lemma advance_epoch_fields:
  assumes "advance_epoch a t st = Inr (st', e)"
  shows "edges st' = edges st" "follows st' = follows st" "blocks st' = blocks st"
    "unat (audience_epoch a st') = Suc (unat (audience_epoch a st))"
    "c \<noteq> a \<Longrightarrow> audience_epoch c st' = audience_epoch c st"
    "e = audience_epoch a st'" "relationships_inv st \<Longrightarrow> relationships_inv st'"
proof -
  have e: "aud_epoch (load_audience a st) < - 1"
    and st': "st' = st\<lparr>audiences := (audiences st)(a \<mapsto>
        (load_audience a st)\<lparr>aud_epoch := aud_epoch (load_audience a st) + 1, aud_updated_at := t\<rparr>)\<rparr>"
    using assms by (auto simp: advance_epoch_def Let_def)
  show "edges st' = edges st" "follows st' = follows st" "blocks st' = blocks st" by (simp_all add: st')
  show "unat (audience_epoch a st') = Suc (unat (audience_epoch a st))"
    using unat_inc [OF word_below_max [OF e]] by (simp add: st' load_audience_def audience_epoch_def)
  show "c \<noteq> a \<Longrightarrow> audience_epoch c st' = audience_epoch c st" by (simp add: st' observe_put_audience)
  show "e = audience_epoch a st'"
    using assms by (auto simp: advance_epoch_def Let_def audience_epoch_def load_audience_def)
  show "relationships_inv st \<Longrightarrow> relationships_inv st'" by (simp add: st' inv_put_audience)
qed

text \<open>The fields of the state after a block.\<close>

lemma block_fields:
  assumes "block env args st = Inr (st', evs)"
  obtains a b where "bl_actor args = Some a" "bl_target args = Some b" "length a = 25" "length b = 25"
    "a \<noteq> b" "\<not> has_blocked a b st"
    "edges st' = edges (end_edge (pair_key a b) (now env) st)"
    "follows st' = (follows st)(directed_key a b := None, directed_key b a := None)"
    "blocks st' = (blocks st)(directed_key a b \<mapsto> \<lparr>blk_blocked = True, blk_updated_at = now env\<rparr>)"
    "unat (audience_epoch a st') = Suc (unat (audience_epoch a st))"
    "friends a b st \<Longrightarrow> unat (audience_epoch b st') = Suc (unat (audience_epoch b st))"
    "\<And>c. c \<noteq> a \<Longrightarrow> \<not> (c = b \<and> friends a b st) \<Longrightarrow> audience_epoch c st' = audience_epoch c st"
proof -
  define t where "t = now env"
  from assms obtain a b st4 st5 e where ab: "bl_actor args = Some a" "bl_target args = Some b"
      "length a = 25" "length b = 25" "a \<noteq> b" "\<not> has_blocked a b st"
    and st4: "st4 = (let st2 = end_edge (pair_key a b) t (st\<lparr>blocks := (blocks st)(directed_key a b \<mapsto> \<lparr>blk_blocked = True, blk_updated_at = t\<rparr>)\<rparr>)
        in st2\<lparr>follows := (follows st)(directed_key a b := None, directed_key b a := None)\<rparr>)"
    and st5: "advance_epoch a t st4 = Inr (st5, e)"
    and rest: "if friends a b st then \<exists>e'. advance_epoch b t st5 = Inr (st', e') else st' = st5"
    unfolding block_def Let_def t_def friends_def pair_status_def
    by (auto simp: end_edge_fields split: option.splits if_splits)
  have old: "edges st4 = edges (end_edge (pair_key a b) t st)"
    "follows st4 = (follows st)(directed_key a b := None, directed_key b a := None)"
    "blocks st4 = (blocks st)(directed_key a b \<mapsto> \<lparr>blk_blocked = True, blk_updated_at = t\<rparr>)"
    "\<And>c. audience_epoch c st4 = audience_epoch c st"
    by (simp_all add: st4 Let_def end_edge_fields observe_fields split: option.split)
  note five = advance_epoch_fields [OF st5]
  show thesis
  proof (cases "friends a b st")
    case True
    with rest obtain e' where "advance_epoch b t st5 = Inr (st', e')" by auto
    note six = advance_epoch_fields [OF this]
    have "unat (audience_epoch a st') = Suc (unat (audience_epoch a st))"
      using six(5) [of a] five(4) ab(5) old(4) [of a] by simp
    moreover have "unat (audience_epoch b st') = Suc (unat (audience_epoch b st))"
      using six(4) five(5) [of b] ab(5) old(4) [of b] by simp
    moreover have "audience_epoch c st' = audience_epoch c st" if "c \<noteq> a" "c \<noteq> b" for c
      using six(5) [of c] five(5) [of c] that old(4) [of c] by simp
    ultimately show thesis
      using ab True six(1-3) five(1-3) old(1-3) by (intro that [of a b]) (simp_all add: t_def [symmetric])
  next
    case False
    with rest have "st' = st5" by simp
    with ab False show thesis by (intro that [of a b]) (simp_all add: five old t_def [symmetric])
  qed
qed

lemma block_inv:
  assumes inv: "relationships_inv st" and blk: "block env args st = Inr (st', evs)"
  shows "relationships_inv st'"
  using blk
proof (rule block_fields)
  fix a b
  assume ab: "length a = 25" "length b = 25"
    and e: "edges st' = edges (end_edge (pair_key a b) (now env) st)"
    and f: "follows st' = (follows st)(directed_key a b := None, directed_key b a := None)"
    and bl: "blocks st' = (blocks st)(directed_key a b \<mapsto> \<lparr>blk_blocked = True, blk_updated_at = now env\<rparr>)"
  let ?mid = "end_edge (pair_key a b) (now env) st"
  have mid: "relationships_inv ?mid" using inv by (rule end_edge_inv)
  have status: "pair_status c d st' = pair_status c d ?mid" for c d by (simp add: pair_status_def e)
  have "severed c d st'" if cd: "length c = 25" "length d = 25" "has_blocked c d st'" for c d
  proof (cases "c = a \<and> d = b")
    case True
    then show ?thesis by (simp add: severed_def status observe_end_edge) (simp add: observe_fields f)
  next
    case False
    with cd ab have "has_blocked c d ?mid" by (auto simp: end_edge_fields observe_fields bl directed_key_eq)
    with mid cd have "severed c d ?mid" by (intro relationships_inv_severed)
    then show ?thesis by (auto simp: severed_def status observe_end_edge) (simp_all add: observe_fields f split: if_splits)
  qed
  with mid show ?thesis by (simp add: relationships_inv_def e)
qed

lemma relationships_exec_inv:
  assumes "relationships_inv (snd s)" and "relationships_exec tx s = Inr s'"
  shows "relationships_inv (snd s')"
  using assms by (cases "snd tx") (auto simp: relationships_exec_def dest: request_inv accept_inv
    remove_inv block_inv follow_inv other_rel_ops_inv)

interpretation relationships_contract: kept_invariant relationships_exec "\<lambda>s. relationships_inv (snd s)"
  by unfold_locales (rule relationships_exec_inv)

lemma relationships_run_inv: "relationships_inv (snd (run relationships_exec (w, relationships_empty) cs))"
  by (rule relationships_contract.run_keeps) (simp add: relationships_empty_inv)

section \<open>Ending a friendship\<close>

text \<open>
  Epochs never go back, and when a friendship is over both epochs are strictly ahead of every
  value they had while it lasted.
\<close>

definition epoch_mono :: "relationships_state \<Rightarrow> relationships_state \<Rightarrow> bool" where
  "epoch_mono s t \<longleftrightarrow> (\<forall>a. audience_epoch a s \<le> audience_epoch a t) \<and>
     (\<forall>a b. length a = 25 \<longrightarrow> length b = 25 \<longrightarrow> friends a b s \<longrightarrow> \<not> friends a b t \<longrightarrow>
        audience_epoch a s < audience_epoch a t \<and> audience_epoch b s < audience_epoch b t)"

lemma epoch_mono_refl: "epoch_mono s s"
  by (simp add: epoch_mono_def)

lemma epoch_mono_trans: "epoch_mono s t \<Longrightarrow> epoch_mono t u \<Longrightarrow> epoch_mono s u"
  unfolding epoch_mono_def by (meson order.strict_trans1 order.strict_trans2 order.trans)

lemma epoch_mono_same_edges:
  assumes "edges st' = edges st" and "\<And>a. audience_epoch a st \<le> audience_epoch a st'"
  shows "epoch_mono st st'"
  using assms by (simp add: epoch_mono_def friends_def pair_status_def)

lemma epoch_step_up: "unat x = Suc (unat y) \<Longrightarrow> y < x" for x y :: u32
  by (simp add: word_less_nat_alt)

lemma remove_epochs:
  assumes "remove_friend env args st = Inr (st', evs)"
  obtains a b where "rm_actor args = Some a" "rm_peer args = Some b" "length a = 25" "length b = 25" "a \<noteq> b"
    "friends a b st" "\<And>c d. friends c d st' \<longleftrightarrow> friends c d st \<and> pair_key c d \<noteq> pair_key a b"
    "unat (audience_epoch a st') = Suc (unat (audience_epoch a st))"
    "unat (audience_epoch b st') = Suc (unat (audience_epoch b st))"
    "\<And>c. c \<noteq> a \<Longrightarrow> c \<noteq> b \<Longrightarrow> audience_epoch c st' = audience_epoch c st"
proof -
  define t where "t = now env"
  from assms obtain a b rec st2 e1 e2 where ab: "rm_actor args = Some a" "rm_peer args = Some b"
      "length a = 25" "length b = 25" "a \<noteq> b"
    and rec: "edges st (pair_key a b) = Some rec" "rr_status rec = Rel_active"
    and st2: "advance_epoch a t (st\<lparr>edges := (edges st)(pair_key a b \<mapsto>
      rec\<lparr>rr_status := Rel_inactive, rr_nonce := rr_nonce rec + 1, rr_updated_at := t\<rparr>)\<rparr>) = Inr (st2, e1)"
    and st3: "advance_epoch b t st2 = Inr (st', e2)"
    by (auto simp: remove_friend_def Let_def t_def)
  note two = advance_epoch_fields [OF st2] and three = advance_epoch_fields [OF st3]
  show thesis
    using ab rec by (intro that)
      (auto simp: two three observe friends_def, auto simp: pair_status_def two three split: option.splits if_splits)
qed

lemma friendship_ends:
  assumes "edges st' = edges (end_edge (pair_key a b) t st)"
  shows "friends c d st' \<longleftrightarrow> friends c d st \<and> pair_key c d \<noteq> pair_key a b"
proof -
  have "pair_status c d st' = pair_status c d (end_edge (pair_key a b) t st)"
    by (simp add: pair_status_def assms)
  then show ?thesis by (auto simp: friends_def observe_end_edge)
qed

lemma friends_commute: "friends a b st \<longleftrightarrow> friends b a st"
  by (simp add: friends_def pair_status_def pair_key_commute)

lemma epoch_mono_end:
  assumes "length a = 25" and "length b = 25" and "a \<noteq> b"
    and "\<And>c d. friends c d st' \<longleftrightarrow> friends c d st \<and> pair_key c d \<noteq> pair_key a b"
    and "unat (audience_epoch a st') = Suc (unat (audience_epoch a st))"
    and "friends a b st \<Longrightarrow> unat (audience_epoch b st') = Suc (unat (audience_epoch b st))"
    and "\<And>c. c \<noteq> a \<Longrightarrow> \<not> (c = b \<and> friends a b st) \<Longrightarrow> audience_epoch c st' = audience_epoch c st"
  shows "epoch_mono st st'"
  unfolding epoch_mono_def
proof (intro conjI allI impI)
  note up = epoch_step_up [OF assms(5)] epoch_step_up [OF assms(6)]
  show "audience_epoch c st \<le> audience_epoch c st'" for c
    using up assms(7) [of c] by (cases "c = a"; cases "c = b \<and> friends a b st") auto
  fix c d
  assume cd: "length (c::bytes) = 25" "length (d::bytes) = 25" "friends c d st" "\<not> friends c d st'"
  then have "c = a \<and> d = b \<or> c = b \<and> d = a"
    using assms(1,2,4) by (auto simp: pair_key_eq)
  with cd(3) up show "audience_epoch c st < audience_epoch c st'" "audience_epoch d st < audience_epoch d st'"
    by (auto simp: friends_commute)
qed

lemma epoch_put_other:
  assumes "\<And>r. edges st k = Some r \<Longrightarrow> rr_status r \<noteq> Rel_active"
  shows "epoch_mono st (st\<lparr>edges := (edges st)(k \<mapsto> r)\<rparr>)"
  using assms by (auto simp: epoch_mono_def observe friends_def pair_status_def split: if_splits option.splits)

lemma epoch_mono_step:
  assumes "relationships_exec tx s = Inr s'"
  shows "epoch_mono (snd s) (snd s')"
proof (cases "snd tx")
  case (Call_remove_friend args)
  with assms obtain evs where "remove_friend (fst tx) args (snd s) = Inr (snd s', evs)"
    by (auto simp: relationships_exec_def)
  then show ?thesis
  proof (rule remove_epochs)
    fix a b
    assume "length a = 25" "length b = 25" "a \<noteq> b" "friends a b (snd s)"
      "\<And>c d. friends c d (snd s') \<longleftrightarrow> friends c d (snd s) \<and> pair_key c d \<noteq> pair_key a b"
      "unat (audience_epoch a (snd s')) = Suc (unat (audience_epoch a (snd s)))"
      "unat (audience_epoch b (snd s')) = Suc (unat (audience_epoch b (snd s)))"
      "\<And>c. c \<noteq> a \<Longrightarrow> c \<noteq> b \<Longrightarrow> audience_epoch c (snd s') = audience_epoch c (snd s)"
    then show ?thesis by (intro epoch_mono_end [of a b]) blast+
  qed
next
  case (Call_block args)
  with assms obtain evs where "block (fst tx) args (snd s) = Inr (snd s', evs)"
    by (auto simp: relationships_exec_def)
  then show ?thesis
  proof (rule block_fields)
    fix a b
    assume a: "length a = 25" "length b = 25" "a \<noteq> b"
      and e: "edges (snd s') = edges (end_edge (pair_key a b) (now (fst tx)) (snd s))"
      and "unat (audience_epoch a (snd s')) = Suc (unat (audience_epoch a (snd s)))"
      "friends a b (snd s) \<Longrightarrow> unat (audience_epoch b (snd s')) = Suc (unat (audience_epoch b (snd s)))"
      "\<And>c. c \<noteq> a \<Longrightarrow> \<not> (c = b \<and> friends a b (snd s)) \<Longrightarrow> audience_epoch c (snd s') = audience_epoch c (snd s)"
    then show ?thesis by (intro epoch_mono_end [OF a friendship_ends [OF e]])
  qed
next
  case (Call_rotate_audience args)
  with assms obtain a t e where "advance_epoch a t (snd s) = Inr (snd s', e)"
    by (auto simp: relationships_exec_def rotate_audience_def Let_def)
  note adv = advance_epoch_fields [OF this]
  show ?thesis
  proof (rule epoch_mono_same_edges)
    show "audience_epoch c (snd s) \<le> audience_epoch c (snd s')" for c
      using adv(4) adv(5) [of c] by (cases "c = a") (auto dest: epoch_step_up)
  qed (rule adv)
next
  case (Call_request_friend args)
  with assms show ?thesis
    by (auto simp: relationships_exec_def request_friend_def relationships_helper_defs request_nonce_def
        case_option_Inr intro!: epoch_put_other)
next
  case (Call_accept_friend args)
  with assms show ?thesis
    by (auto simp: relationships_exec_def accept_friend_def relationships_helper_defs intro!: epoch_put_other)
qed (use assms in \<open>auto simp: relationships_exec_def relationships_op_defs relationships_helper_defs
    intro!: epoch_mono_same_edges simp: observe\<close>)

interpretation epochs: kept_relation relationships_exec "\<lambda>s. relationships_inv (snd s)"
    "\<lambda>s t. epoch_mono (snd s) (snd t)"
  by unfold_locales (auto intro: epoch_mono_refl epoch_mono_trans epoch_mono_step)

text \<open>
  C27: Once two accounts are no longer friends the audience epochs of
  both are strictly greater than any they had while they were friends, and on the way no epoch of anybody
  decreases: no key epoch outlives the friendship it was handed out in.
\<close>

theorem friendship_end_rotates:
  fixes cs ds :: "('w env \<times> relationships_call) list"
  assumes "s = run relationships_exec (w, relationships_empty) cs"
    and "s' = run relationships_exec (w, relationships_empty) (cs @ ds)"
    and "friends a b (snd s)" and "\<not> friends a b (snd s')"
    and "length a = 25" and "length b = 25"
  shows "audience_epoch a (snd s) < audience_epoch a (snd s') \<and>
         audience_epoch b (snd s) < audience_epoch b (snd s') \<and>
         (\<forall>c. audience_epoch c (snd s) \<le> audience_epoch c (snd s'))"
proof -
  have "epoch_mono (snd s) (snd s')"
    unfolding assms(1,2) run_append by (rule epochs.run_rel) (rule relationships_run_inv)
  with assms(3-6) show ?thesis by (simp add: epoch_mono_def)
qed

text \<open>
  C35: In every state of every history a blocked pair is severed: as long as one party blocks the
  other there is neither a pending request nor a friendship between them, and neither follows
  the other.
\<close>

theorem blocked_pair_severed:
  assumes "s = snd (run relationships_exec (w, relationships_empty) cs)"
    and "has_blocked a b s \<or> has_blocked b a s" and "length a = 25" and "length b = 25"
  shows "pair_status a b s \<noteq> Rel_pending \<and> \<not> friends a b s \<and>
         \<not> is_following a b s \<and> \<not> is_following b a s"
proof -
  have "relationships_inv s" unfolding assms(1) by (rule relationships_run_inv)
  with assms(2-4) have "severed a b s \<or> severed b a s" by (auto intro: relationships_inv_severed)
  then show ?thesis by (auto simp: severed_def friends_def pair_status_def pair_key_commute)
qed

text \<open>
  Every stored relationship is canonical: it stands under the concatenation of its two
  25-byte addresses in ascending order, so a pair has one record whichever party is named
  first, and its requester is one of the two.
\<close>

theorem relationship_records_canonical:
  assumes "s = snd (run relationships_exec (w, relationships_empty) cs)"
    and "get_relationship (Some a) (Some b) s = Some r" and "length a = 25" and "length b = 25"
  shows "get_relationship (Some b) (Some a) s = Some r \<and> rr_a r = min a b \<and> rr_b r = max a b \<and>
         rr_a r < rr_b r \<and> (rr_requester r = a \<or> rr_requester r = b)"
proof -
  have "relationships_inv s" unfolding assms(1) by (rule relationships_run_inv)
  moreover have r: "edges s (pair_key a b) = Some r" and "a \<noteq> []" and "b \<noteq> []"
    using assms(2) by (auto simp: get_relationship_def split: if_splits)
  ultimately have "edge_ok (pair_key a b) r" by (auto dest: relationships_inv_edge)
  then have "min a b @ max a b = rr_a r @ rr_b r" and "length (rr_a r) = 25" and "rr_a r < rr_b r"
    and "rr_requester r = rr_a r \<or> rr_requester r = rr_b r"
    by (auto simp: edge_ok_def pair_key_min_max)
  moreover have "length (min a b) = 25" using assms(3,4) by (simp add: min_def)
  ultimately have "rr_a r = min a b" and "rr_b r = max a b" and "rr_a r < rr_b r"
    and "rr_requester r = min a b \<or> rr_requester r = max a b" by auto
  moreover have "{min a b, max a b} = {a, b}" by (auto simp: min_def max_def)
  ultimately show ?thesis
    using r \<open>a \<noteq> []\<close> \<open>b \<noteq> []\<close> by (auto simp: get_relationship_def pair_key_commute [of b a])
qed

text \<open>
  A block takes full effect in one transaction: the target is blocked, a pending or active
  friendship ends, follows are removed both ways, the actor's epoch advances by one (without
  wrapping) and the target's too exactly when they were friends; no other epoch and no other
  pair's relationship changes.
\<close>

theorem block_effect:
  assumes "block env \<lparr>bl_actor = Some a, bl_target = Some b\<rparr> st = Inr (st', evs)"
  shows "has_blocked a b st' \<and> severed a b st' \<and>
    unat (audience_epoch a st') = Suc (unat (audience_epoch a st)) \<and>
    unat (audience_epoch b st') = (if friends a b st then Suc (unat (audience_epoch b st)) else unat (audience_epoch b st)) \<and>
    (\<forall>c. c \<notin> {a, b} \<longrightarrow> audience_epoch c st' = audience_epoch c st) \<and>
    (\<forall>c d. pair_key c d \<noteq> pair_key a b \<longrightarrow> pair_status c d st' = pair_status c d st)"
  using assms
proof (rule block_fields)
  fix a' b'
  assume eqs: "bl_actor \<lparr>bl_actor = Some a, bl_target = Some b\<rparr> = Some a'"
      "bl_target \<lparr>bl_actor = Some a, bl_target = Some b\<rparr> = Some b'"
    and ab: "length a' = 25" "length b' = 25" "a' \<noteq> b'"
    and e: "edges st' = edges (end_edge (pair_key a' b') (now env) st)"
    and f: "follows st' = (follows st)(directed_key a' b' := None, directed_key b' a' := None)"
    and bl: "blocks st' = (blocks st)(directed_key a' b' \<mapsto> \<lparr>blk_blocked = True, blk_updated_at = now env\<rparr>)"
    and ep: "unat (audience_epoch a' st') = Suc (unat (audience_epoch a' st))"
      "friends a' b' st \<Longrightarrow> unat (audience_epoch b' st') = Suc (unat (audience_epoch b' st))"
      "\<And>c. c \<noteq> a' \<Longrightarrow> \<not> (c = b' \<and> friends a' b' st) \<Longrightarrow> audience_epoch c st' = audience_epoch c st"
  have same: "a' = a" "b' = b" using eqs by auto
  have status: "pair_status c d st' = pair_status c d (end_edge (pair_key a b) (now env) st)" for c d
    by (simp add: pair_status_def e same)
  have "severed a b st'"
    by (simp add: severed_def status observe_end_edge) (simp add: observe_fields f same)
  moreover have "has_blocked a b st'" by (simp add: has_blocked_def bl same)
  moreover have "\<forall>c d. pair_key c d \<noteq> pair_key a b \<longrightarrow> pair_status c d st' = pair_status c d st"
    by (simp add: status observe_end_edge)
  ultimately show ?thesis
    using ep [unfolded same] ab [unfolded same] by auto
qed

section \<open>Consent\<close>

text \<open>A friend request of \<open>p\<close> to \<open>q\<close>, signed for \<open>p\<close>, and its acceptance, signed for the acceptor.\<close>

definition request_by :: "relationships_state \<Rightarrow> bytes \<Rightarrow> bytes \<Rightarrow> 'w env \<times> relationships_call \<Rightarrow> bool" where
  "request_by st p q tx \<longleftrightarrow> (case snd tx of
     Call_request_friend args \<Rightarrow> rf_requester args = Some p \<and> rf_recipient args = Some q \<and>
       (\<exists>s. require_authorized (fst tx) (rel_identity_contract st) p (rf_device args) CAP_RELATIONSHIPS = Inr s)
   | _ \<Rightarrow> False)"

definition accept_by :: "relationships_state \<Rightarrow> bytes \<Rightarrow> bytes \<Rightarrow> 'w env \<times> relationships_call \<Rightarrow> bool" where
  "accept_by st q p tx \<longleftrightarrow> (case snd tx of
     Call_accept_friend args \<Rightarrow> af_approver args = Some q \<and> af_requester args = Some p \<and>
       (\<exists>s. require_authorized (fst tx) (rel_identity_contract st) q (af_device args) CAP_RELATIONSHIPS = Inr s)
   | _ \<Rightarrow> False)"

definition pending_from :: "bytes \<Rightarrow> bytes \<Rightarrow> bytes \<Rightarrow> relationships_state \<Rightarrow> bool" where
  "pending_from p a b st \<longleftrightarrow> (case edges st (pair_key a b) of
     None \<Rightarrow> False | Some r \<Rightarrow> rr_status r = Rel_pending \<and> rr_requester r = p)"

lemma edges_audience_config [simp]:
  "friends a b (st\<lparr>audiences := am\<rparr>) = friends a b st"
  "pending_from p a b (st\<lparr>audiences := am\<rparr>) = pending_from p a b st"
  by (simp_all add: friends_def pair_status_def pending_from_def)

text \<open>What one transaction may do to the pair: nothing new without the party's consent.\<close>

definition consented :: "bytes \<Rightarrow> bytes \<Rightarrow> 'w env \<times> relationships_call \<Rightarrow> relationships_state \<Rightarrow>
    relationships_state \<Rightarrow> bool" where
  "consented a b tx s s' \<longleftrightarrow>
     (friends a b s' \<longrightarrow> friends a b s \<or>
        (\<exists>p q. {p, q} = {a, b} \<and> pending_from p a b s \<and> accept_by s q p tx)) \<and>
     (\<forall>p. pending_from p a b s' \<longrightarrow> pending_from p a b s \<or>
        (\<exists>q. {p, q} = {a, b} \<and> request_by s p q tx))"

lemma consentedD:
  "consented a b tx s s' \<Longrightarrow> friends a b s' \<Longrightarrow> \<not> friends a b s \<Longrightarrow>
     \<exists>p q. {p, q} = {a, b} \<and> pending_from p a b s \<and> accept_by s q p tx"
  "consented a b tx s s' \<Longrightarrow> pending_from p a b s' \<Longrightarrow> \<not> pending_from p a b s \<Longrightarrow>
     \<exists>q. {p, q} = {a, b} \<and> request_by s p q tx"
  unfolding consented_def by blast+

lemma unlinked_step:
  assumes "edges s' = edges (end_edge (pair_key c d) t s)"
  shows "pending_from p a b s' \<Longrightarrow> pending_from p a b s" "friends a b s' \<Longrightarrow> friends a b s"
  using assms by (auto simp: pending_from_def friends_def pair_status_def end_edge_fields
    split: option.splits if_splits)

lemma request_step:
  assumes "request_friend env args s = Inr (s', evs)" and ab: "length a = 25" "length b = 25"
  shows "consented a b (env, Call_request_friend args) (snd s) (snd s')"
  using assms
  by (auto simp: consented_def request_friend_def relationships_helper_defs friends_def observe
      pending_from_def pair_key_eq request_by_def split: if_splits option.splits)

lemma accept_step:
  assumes "accept_friend env args st = Inr (st', evs)" and ab: "length a = 25" "length b = 25"
  shows "consented a b (env, Call_accept_friend args) st st'"
  using assms
  by (auto simp: consented_def accept_friend_def relationships_helper_defs friends_def observe
      pending_from_def pair_key_eq accept_by_def pair_key_commute split: if_splits option.splits)

lemma remove_step:
  assumes "remove_friend env args st = Inr (st', evs)"
  shows "consented a b tx st st'"
proof -
  from assms obtain c d r st2 e1 e2 where 
    st2: "advance_epoch c (now env) (st\<lparr>edges := (edges st)(pair_key c d \<mapsto>
      r\<lparr>rr_status := Rel_inactive, rr_nonce := rr_nonce r + 1, rr_updated_at := (now env)\<rparr>)\<rparr>) = Inr (st2, e1)"
    and st3: "advance_epoch d (now env) st2 = Inr (st', e2)"
    by (auto simp: remove_friend_def Let_def)
  have "friends a b st' \<Longrightarrow> friends a b st" "pending_from p a b st' \<Longrightarrow> pending_from p a b st" for p
    by (auto simp: friends_def pair_status_def pending_from_def advance_epoch_fields(1) [OF st3]
        advance_epoch_fields(1) [OF st2] split: option.splits if_splits)
  then show ?thesis by (simp add: consented_def)
qed

lemma block_step: "block env args st = Inr (st', evs) \<Longrightarrow> consented a b tx st st'"
  by (erule block_fields) (auto simp: consented_def dest: unlinked_step)

lemma consent_same_edges: "edges st' = edges st \<Longrightarrow> consented a b tx st st'"
  by (simp add: consented_def friends_def pair_status_def pending_from_def)

lemma consent_step:
  assumes "relationships_exec tx s = Inr s'" and ab: "length a = 25" "length b = 25"
  shows "consented a b tx (snd s) (snd s')"
proof -
  obtain env call where tx: "tx = (env, call)" by (cases tx)
  show ?thesis
    using assms(1) unfolding tx
    by (cases call) (auto simp: relationships_exec_def dest: remove_step block_step
        intro: request_step [OF _ ab] accept_step [OF _ ab],
      auto simp: relationships_op_defs relationships_helper_defs intro!: consent_same_edges)
qed

abbreviation rel_after :: "'w \<Rightarrow> ('w env \<times> relationships_call) list \<Rightarrow> relationships_state" where
  "rel_after w cs \<equiv> snd (run relationships_exec (w, relationships_empty) cs)"

lemma consent_snoc:
  assumes "length a = 25" and "length b = 25"
  shows "consented a b tx (rel_after w cs) (rel_after w (cs @ [tx])) \<or> rel_after w (cs @ [tx]) = rel_after w cs"
proof (cases "relationships_exec tx (run relationships_exec (w, relationships_empty) cs)")
  case (Inr s')
  with consent_step [OF Inr assms] show ?thesis by (simp add: run_snoc)
qed (simp add: run_snoc)

text \<open>A standing request was made in the history and has been pending ever since.\<close>

lemma pending_requested:
  assumes ab: "length a = 25" "length b = 25" and "pending_from p a b (rel_after w cs)"
  shows "\<exists>x t y q. cs = x @ t # y \<and> {p, q} = {a, b} \<and> request_by (rel_after w x) p q t \<and>
    (\<forall>y1. prefix y1 y \<longrightarrow> pending_from p a b (rel_after w (x @ t # y1)))"
  using assms(3)
proof (induction cs rule: rev_induct)
  case Nil
  then show ?case by (simp add: pending_from_def relationships_empty_def)
next
  case (snoc tx cs)
  show ?case
  proof (cases "pending_from p a b (rel_after w cs)")
    case True
    then obtain x t y q where cs: "cs = x @ t # y" and q: "{p, q} = {a, b}" "request_by (rel_after w x) p q t"
      and pend: "\<forall>y1. prefix y1 y \<longrightarrow> pending_from p a b (rel_after w (x @ t # y1))"
      using snoc.IH by blast
    have "\<forall>y1. prefix y1 (y @ [tx]) \<longrightarrow> pending_from p a b (rel_after w (x @ t # y1))"
      using pend snoc.prems by (auto simp: cs)
    with q cs show ?thesis
      by (intro exI [of _ x] exI [of _ t] exI [of _ "y @ [tx]"] exI [of _ q] conjI) simp_all
  next
    case False
    with snoc.prems have "consented a b tx (rel_after w cs) (rel_after w (cs @ [tx]))"
      using consent_snoc [OF ab, of tx w cs] by auto
    from consentedD(2) [OF this snoc.prems False] obtain q where
      "{p, q} = {a, b}" "request_by (rel_after w cs) p q tx" by blast
    with snoc.prems show ?thesis
      by (intro exI [of _ cs] exI [of _ tx] exI [of _ "[]"] exI [of _ q] conjI) simp_all
  qed
qed

text \<open>
  C34: Every friendship rests on the consent of both: one party requested it in a transaction
  signed for that party, the request stayed pending until the other party accepted it in a
  transaction signed for that other party, and the friendship has held ever since.
\<close>

theorem friendship_needs_consent:
  assumes "friends a b (rel_after w cs)" and "length a = 25" and "length b = 25"
  shows "\<exists>x t1 y t2 z p q. cs = x @ t1 # y @ t2 # z \<and> {p, q} = {a, b} \<and>
    request_by (rel_after w x) p q t1 \<and>
    (\<forall>y1. prefix y1 y \<longrightarrow> pending_from p a b (rel_after w (x @ t1 # y1))) \<and>
    accept_by (rel_after w (x @ t1 # y)) q p t2 \<and>
    (\<forall>z1. prefix z1 z \<longrightarrow> friends a b (rel_after w (x @ t1 # y @ t2 # z1)))"
  using assms(1)
proof (induction cs rule: rev_induct)
  case Nil
  then show ?case by (simp add: friends_def pair_status_def relationships_empty_def)
next
  case (snoc tx cs)
  show ?case
  proof (cases "friends a b (rel_after w cs)")
    case True
    then obtain x t1 y t2 z p q where cs: "cs = x @ t1 # y @ t2 # z" and q: "{p, q} = {a, b}"
      "request_by (rel_after w x) p q t1"
      "\<forall>y1. prefix y1 y \<longrightarrow> pending_from p a b (rel_after w (x @ t1 # y1))"
      "accept_by (rel_after w (x @ t1 # y)) q p t2"
      and held: "\<forall>z1. prefix z1 z \<longrightarrow> friends a b (rel_after w (x @ t1 # y @ t2 # z1))"
      using snoc.IH by blast
    have "\<forall>z1. prefix z1 (z @ [tx]) \<longrightarrow> friends a b (rel_after w (x @ t1 # y @ t2 # z1))"
      using held snoc.prems by (auto simp: cs)
    with q cs show ?thesis
      by (intro exI [of _ x] exI [of _ t1] exI [of _ y] exI [of _ t2] exI [of _ "z @ [tx]"] exI [of _ p]
          exI [of _ q] conjI) simp_all
  next
    case False
    with snoc.prems have "consented a b tx (rel_after w cs) (rel_after w (cs @ [tx]))"
      using consent_snoc [OF assms(2,3), of tx w cs] by auto
    from consentedD(1) [OF this snoc.prems False] obtain p q where pq: "{p, q} = {a, b}"
      and "pending_from p a b (rel_after w cs)" and acc: "accept_by (rel_after w cs) q p tx" by blast
    then obtain x t1 y q' where req: "cs = x @ t1 # y" "{p, q'} = {a, b}" "request_by (rel_after w x) p q' t1"
      "\<forall>y1. prefix y1 y \<longrightarrow> pending_from p a b (rel_after w (x @ t1 # y1))"
      using pending_requested [OF assms(2,3)] by metis
    have "q' = q" using pq req(2) by (metis doubleton_eq_iff)
    with pq acc req snoc.prems show ?thesis
      by (intro exI [of _ x] exI [of _ t1] exI [of _ y] exI [of _ tx] exI [of _ "[]"] exI [of _ p]
          exI [of _ q] conjI) simp_all
  qed
qed

section \<open>Witnesses\<close>

text \<open>Two accounts become friends, then one blocks the other.\<close>

definition demo_friends :: "(unit env \<times> relationships_call) list" where
  "demo_friends =
     [(open_env 10, Call_rel_set_identity_contract (Some (sample_addr 100))),
      (open_env 20, Call_request_friend \<lparr>rf_requester = Some (sample_addr 1),
         rf_recipient = Some (sample_addr 2), rf_device = None\<rparr>),
      (open_env 30, Call_accept_friend \<lparr>af_approver = Some (sample_addr 2),
         af_requester = Some (sample_addr 1), af_device = None, af_key_package_ref = None\<rparr>)]"

definition demo_block :: "(unit env \<times> relationships_call) list" where
  "demo_block = [(open_env 40, Call_block \<lparr>bl_actor = Some (sample_addr 1), bl_target = Some (sample_addr 2)\<rparr>)]"

definition demo_edge :: "relationship_status \<Rightarrow> u64 \<Rightarrow> u64 \<Rightarrow> relationship_record" where
  "demo_edge s n t = \<lparr>rr_a = sample_addr 1, rr_b = sample_addr 2, rr_status = s,
     rr_requester = sample_addr 1, rr_nonce = n, rr_updated_at = t\<rparr>"

lemmas relationships_eval = relationships_exec_def relationships_op_defs relationships_helper_defs
  rel_identity_contract_def rel_consume_def request_nonce_def has_blocked_def local_op_def
  optional_key_package_ref_def end_edge_def demo_edge_def load_audience_def

lemma demo_pair_key:
  "pair_key (sample_addr 1) (sample_addr 2) = sample_addr 1 @ sample_addr 2"
  "pair_key (sample_addr 2) (sample_addr 1) = sample_addr 1 @ sample_addr 2"
  by (simp_all add: pair_key_def word_le_nat_alt)

lemma demo_friends_run:
  "run relationships_exec ((), relationships_empty) demo_friends =
     ((), \<lparr>edges = [sample_addr 1 @ sample_addr 2 \<mapsto> demo_edge Rel_active 2 30], blocks = Map.empty,
           follows = Map.empty, audiences = Map.empty, rel_config = Some (Some (sample_addr 100)),
           rel_usage = None\<rparr>)"
  by (simp add: demo_friends_def relationships_empty_def relationships_eval demo_pair_key)

lemma demo_block_run:
  "snd (run relationships_exec ((), relationships_empty) (demo_friends @ demo_block)) =
     \<lparr>edges = [sample_addr 1 @ sample_addr 2 \<mapsto> demo_edge Rel_inactive 3 40],
      blocks = [sample_addr 1 @ sample_addr 2 \<mapsto> \<lparr>blk_blocked = True, blk_updated_at = 40\<rparr>],
      follows = Map.empty,
      audiences = [sample_addr 1 \<mapsto> \<lparr>aud_epoch = 1, aud_updated_at = 40\<rparr>,
                   sample_addr 2 \<mapsto> \<lparr>aud_epoch = 1, aud_updated_at = 40\<rparr>],
      rel_config = Some (Some (sample_addr 100)), rel_usage = None\<rparr>"
  by (simp add: run_append demo_friends_run demo_block_def relationships_eval
      demo_pair_key directed_key_def)

lemma demo_states:
  "friends (sample_addr 1) (sample_addr 2) (rel_after () demo_friends)"
  "\<not> friends (sample_addr 1) (sample_addr 2) (rel_after () (demo_friends @ demo_block))"
  "has_blocked (sample_addr 1) (sample_addr 2) (rel_after () (demo_friends @ demo_block))"
  by (simp_all only: demo_friends_run demo_block_run)
    (simp_all add: friends_def pair_status_def has_blocked_def directed_key_def demo_pair_key demo_edge_def)

theorem friendship_end_rotates_witness:
  "audience_epoch (sample_addr 1) (rel_after () demo_friends) <
     audience_epoch (sample_addr 1) (rel_after () (demo_friends @ demo_block))"
  using friendship_end_rotates [OF refl refl demo_states(1,2)] by simp

theorem blocked_pair_severed_witness:
  "\<not> is_following (sample_addr 2) (sample_addr 1) (rel_after () (demo_friends @ demo_block))"
  using blocked_pair_severed [OF refl disjI1 [OF demo_states(3)]] by simp

theorem relationship_records_canonical_witness:
  "get_relationship (Some (sample_addr 2)) (Some (sample_addr 1)) (rel_after () demo_friends) =
     Some (demo_edge Rel_active 2 30)"
  using relationship_records_canonical [OF refl, of "sample_addr 1" "sample_addr 2" "()" demo_friends
      "demo_edge Rel_active 2 30"]
  by (simp add: demo_friends_run get_relationship_def demo_pair_key)

theorem block_effect_witness:
  "\<exists>st' evs. block (open_env 40 :: unit env) \<lparr>bl_actor = Some (sample_addr 1), bl_target = Some (sample_addr 2)\<rparr>
     (rel_after () demo_friends) = Inr (st', evs) \<and>
     unat (audience_epoch (sample_addr 2) st') = Suc (unat (audience_epoch (sample_addr 2) (rel_after () demo_friends)))"
proof -
  obtain st' evs where "block (open_env 40 :: unit env) \<lparr>bl_actor = Some (sample_addr 1), bl_target = Some (sample_addr 2)\<rparr>
     (rel_after () demo_friends) = Inr (st', evs)"
    by (simp add: demo_friends_run relationships_eval demo_pair_key directed_key_def)
  with block_effect [OF this] demo_states(1) show ?thesis
    by (intro exI [of _ st'] exI [of _ evs]) simp
qed

theorem friendship_needs_consent_witness:
  "\<exists>x t1 y t2 z p q. demo_friends = x @ t1 # y @ t2 # z \<and> {p, q} = {sample_addr 1, sample_addr 2} \<and>
    request_by (rel_after () x) p q t1 \<and> accept_by (rel_after () (x @ t1 # y)) q p t2"
  using friendship_needs_consent [OF demo_states(1)] by (simp del: append_Cons) blast

end
