(* ===== verification/Publications.thy ===== *)
theory Publications
  imports Actor Timelock
begin

text \<open>
  The publications contract, \<open>packages/contracts/publications/assembly/Publications.ts\<close>: signed,
  versioned posts and replies, lifecycle facts, reactions, key distribution and cross-post
  outcomes. The first part is the contract as written; the second its invariant, what a post
  keeps for ever, and the idempotency keys.
\<close>

section \<open>State objects\<close>

text \<open>
  Enum values stay the wire integers that the contract range-checks; these are the literals of
  \<open>audience_kind\<close>, \<open>lifecycle_state\<close> and \<open>outcome_state\<close>. \<open>post_record\<close> is shared with the token
  contract and stands in theory \<open>Chain\<close>.
\<close>

definition AUDIENCE_everyone :: int where "AUDIENCE_everyone = 0"
definition AUDIENCE_friends :: int where "AUDIENCE_friends = 1"
definition AUDIENCE_custom :: int where "AUDIENCE_custom = 2"
definition LIFECYCLE_active :: int where "LIFECYCLE_active = 0"
definition LIFECYCLE_author_hidden :: int where "LIFECYCLE_author_hidden = 1"
definition LIFECYCLE_deleted :: int where "LIFECYCLE_deleted = 2"
definition LIFECYCLE_unavailable :: int where "LIFECYCLE_unavailable = 3"
definition LIFECYCLE_migrated :: int where "LIFECYCLE_migrated = 4"
definition LIFECYCLE_superseded :: int where "LIFECYCLE_superseded = 5"
definition OUTCOME_succeeded :: int where "OUTCOME_succeeded = 0"
definition OUTCOME_reconcile_required :: int where "OUTCOME_reconcile_required = 4"

lemmas wire_enums = AUDIENCE_everyone_def AUDIENCE_friends_def AUDIENCE_custom_def
  LIFECYCLE_active_def LIFECYCLE_author_hidden_def LIFECYCLE_deleted_def LIFECYCLE_unavailable_def
  LIFECYCLE_migrated_def LIFECYCLE_superseded_def OUTCOME_succeeded_def OUTCOME_reconcile_required_def

record media_ref =
  mr_content_hash :: "bytes option"
  mr_mime :: "ustring option"
  mr_size :: u64
  mr_locations :: "ustring list"
  mr_key_ref :: "bytes option"

record author_state =
  next_sequence :: u64
  last_publish_at :: u64
  post_count :: u64

record post_ref =
  ref_post_id :: "bytes option"

record dependencies =
  dep_identity :: "bytes option"
  dep_relationships :: "bytes option"

record publications_state =
  posts :: "bytes \<rightharpoonup> post_record"
  authors :: "bytes \<rightharpoonup> author_state"
  idempotency :: "bytes \<rightharpoonup> post_ref"
  pub_config :: "dependencies option"
  pub_usage :: "bytes option option"

definition publications_empty :: publications_state where
  "publications_empty = \<lparr>posts = Map.empty, authors = Map.empty, idempotency = Map.empty,
     pub_config = None, pub_usage = None\<rparr>"

section \<open>Arguments and events\<close>

record publish_arguments =
  pa_author :: "bytes option"
  pa_post_id :: "bytes option"
  pa_previous_version :: "bytes option"
  pa_sequence :: u64
  pa_audience :: int
  pa_audience_id :: "bytes option"
  pa_epoch :: u32
  pa_envelope :: "bytes option"
  pa_content_hash :: "bytes option"
  pa_media :: "media_ref list"
  pa_reply_to :: "bytes option"
  pa_idempotency_key :: "bytes option"
  pa_device :: "bytes option"

record set_lifecycle_arguments =
  sl_author :: "bytes option"
  sl_post_id :: "bytes option"
  sl_version :: "bytes option"
  sl_state :: int
  sl_reason :: "ustring option"
  sl_replacement_id :: "bytes option"
  sl_device :: "bytes option"

record react_arguments =
  rea_actor :: "bytes option"
  rea_post_id :: "bytes option"
  rea_reaction :: u32
  rea_remove :: bool
  rea_device :: "bytes option"

record distribute_keys_arguments =
  dk_author :: "bytes option"
  dk_audience_id :: "bytes option"
  dk_epoch :: u32
  dk_packages :: "bytes option"
  dk_device :: "bytes option"

record record_cross_post_arguments =
  xp_author :: "bytes option"
  xp_idempotency_key :: "bytes option"
  xp_adapter :: "ustring option"
  xp_state :: int
  xp_external_ref :: "ustring option"
  xp_post_id :: "bytes option"
  xp_manifest_hash :: "bytes option"
  xp_device :: "bytes option"

record published_event =
  pe_author :: bytes
  pe_post_id :: bytes
  pe_content_hash :: bytes
  pe_previous_version :: "bytes option"
  pe_version_number :: u32
  pe_sequence :: u64
  pe_audience :: int
  pe_audience_id :: "bytes option"
  pe_epoch :: u32
  pe_envelope :: "bytes option"
  pe_media :: "media_ref list"
  pe_reply_to :: "bytes option"
  pe_idempotency_key :: "bytes option"
  pe_protocol_version :: u32
  pe_timestamp :: u64

text \<open>The payloads of the \<open>osp.publications.*\<close> events, fields in the order of the schema.\<close>

datatype publications_event =
    Published published_event
  | Lifecycle bytes bytes bytes int ustring "bytes option" u64
  | Reaction bytes bytes bytes u32 bool u64
  | Keys_distributed bytes "bytes option" u32 bytes u64
  | Cross_post_outcome bytes bytes ustring int ustring "bytes option" "bytes option" u64

type_synonym publications_outcome = "(publications_state \<times> publications_event emitted list) result"

section \<open>Constants\<close>

definition PUB_PROTOCOL_VERSION :: u32 where "PUB_PROTOCOL_VERSION = 1"
definition MAX_ENVELOPE_BYTES :: u32 where "MAX_ENVELOPE_BYTES = 4096"
definition MAX_MEDIA_REFS :: u32 where "MAX_MEDIA_REFS = 8"
definition MAX_KEY_PACKAGE_BYTES :: u32 where "MAX_KEY_PACKAGE_BYTES = 16384"
definition MAX_IDEMPOTENCY_KEY_BYTES :: u32 where "MAX_IDEMPOTENCY_KEY_BYTES = 32"
definition MAX_LOCATION_CHARS :: u32 where "MAX_LOCATION_CHARS = 256"
definition MAX_LOCATIONS_PER_MEDIA :: nat where "MAX_LOCATIONS_PER_MEDIA = 4"
definition MAX_MIME_CHARS :: nat where "MAX_MIME_CHARS = 128"
definition MAX_REASON_CHARS :: nat where "MAX_REASON_CHARS = 256"
definition MAX_ADAPTER_CHARS :: nat where "MAX_ADAPTER_CHARS = 64"
definition MAX_EXTERNAL_REF_CHARS :: nat where "MAX_EXTERNAL_REF_CHARS = 256"
definition MAX_AUDIENCE_ID_BYTES :: nat where "MAX_AUDIENCE_ID_BYTES = 32"
definition MAX_KEY_REF_BYTES :: nat where "MAX_KEY_REF_BYTES = 128"
definition HASH_LENGTH :: nat where "HASH_LENGTH = 32"
definition FIRST_SEQUENCE :: u64 where "FIRST_SEQUENCE = 1"
definition POST_ID_DOMAIN :: ustring where "POST_ID_DOMAIN = utf16 ''osp/v1/post-id''"
definition MAX_AUDIENCE_KIND :: int where "MAX_AUDIENCE_KIND = AUDIENCE_custom"
definition MAX_LIFECYCLE_STATE :: int where "MAX_LIFECYCLE_STATE = LIFECYCLE_superseded"
definition MAX_OUTCOME_STATE :: int where "MAX_OUTCOME_STATE = OUTCOME_reconcile_required"

section \<open>Internal helpers\<close>

definition pub_set_token_contract :: "'w env \<Rightarrow> bytes option \<Rightarrow> publications_state \<Rightarrow> publications_outcome" where
  "pub_set_token_contract env args_address st =
     require_authority env (contract_id env)
     (attempt (require_address args_address ''token'') (\<lambda>address.
      Inr (st\<lparr>pub_usage := Some (Some address)\<rparr>, [])))"

definition pub_get_token_contract :: "publications_state \<Rightarrow> bytes option" where
  "pub_get_token_contract st = (case pub_usage st of None \<Rightarrow> None | Some c \<Rightarrow> c)"

definition pub_consume :: "'w env \<Rightarrow> bytes \<Rightarrow> publications_state \<Rightarrow> 'w \<Rightarrow> 'w result" where
  "pub_consume env account st w =
     (case pub_usage st of
        None \<Rightarrow> Inr w
      | Some c \<Rightarrow>
          if is_empty c then Inr w
          else attempt (non_null c ''value'') (\<lambda>contract.
               case call_consume env contract account 1 w of
                 None \<Rightarrow> Inl (Revert ''usage allowance exhausted'')
               | Some w' \<Rightarrow> Inr w'))"

definition pub_dependencies :: "publications_state \<Rightarrow> dependencies" where
  "pub_dependencies st =
     (case pub_config st of
        None \<Rightarrow> \<lparr>dep_identity = None, dep_relationships = None\<rparr>
      | Some cfg \<Rightarrow> cfg)"

definition pub_identity_contract :: "publications_state \<Rightarrow> bytes" where
  "pub_identity_contract st =
     (let cfg = pub_dependencies st
      in if is_empty (dep_identity cfg) then [] else the (dep_identity cfg))"

definition pub_relationships_contract :: "publications_state \<Rightarrow> bytes" where
  "pub_relationships_contract st =
     (let cfg = pub_dependencies st
      in if is_empty (dep_relationships cfg) then [] else the (dep_relationships cfg))"

text \<open>
  The hash system call answers with a multihash; its two-byte prefix is stripped. A bare
  32-byte digest is accepted as it is.
\<close>

definition sha256 :: "'w env \<Rightarrow> bytes \<Rightarrow> bytes result" where
  "sha256 env data =
     (let digest = hash_sha256 env data
      in if length digest = HASH_LENGTH + 2 \<and> digest ! 0 = 0x12 \<and> digest ! 1 = 0x20
         then Inr (drop 2 digest)
         else require (length digest = HASH_LENGTH) ''unexpected digest length'' (Inr digest))"

definition post_id_preimage :: "'w env \<Rightarrow> bytes \<Rightarrow> u64 \<Rightarrow> bytes \<Rightarrow> bytes" where
  "post_id_preimage env author sequence content_hash =
     concat_parts [string_to_bytes env POST_ID_DOMAIN, chain_id env, u32be PUB_PROTOCOL_VERSION,
                   author, u64be sequence, content_hash]"

definition compute_post_id :: "'w env \<Rightarrow> bytes \<Rightarrow> u64 \<Rightarrow> bytes \<Rightarrow> bytes result" where
  "compute_post_id env author sequence content_hash =
     sha256 env (post_id_preimage env author sequence content_hash)"

definition require_hash :: "bytes option \<Rightarrow> string \<Rightarrow> bytes result" where
  "require_hash v what =
     require (\<not> is_empty v) (what @ '' is required'')
     (attempt (non_null v what) (\<lambda>b.
      require (length b = HASH_LENGTH) (what @ '' must be 32 bytes'') (Inr b)))"

text \<open>\<open>isEmpty(v) ? null : requireHash(v, what)\<close>, the shape check of an optional post link.\<close>

definition given_hash :: "bytes option \<Rightarrow> string \<Rightarrow> bytes option result" where
  "given_hash v what =
     (if is_empty v then Inr None else attempt (require_hash v what) (\<lambda>h. Inr (Some h)))"

definition load_author :: "bytes \<Rightarrow> publications_state \<Rightarrow> author_state" where
  "load_author author st =
     (case authors st author of
        None \<Rightarrow> \<lparr>next_sequence = FIRST_SEQUENCE, last_publish_at = 0, post_count = 0\<rparr>
      | Some state \<Rightarrow> state)"

definition idempotency_key :: "bytes \<Rightarrow> bytes \<Rightarrow> bytes" where
  "idempotency_key author key = concat_parts [author, key]"

fun check_locations :: "ustring list \<Rightarrow> unit result" where
  "check_locations [] = Inr ()"
| "check_locations (l # ls) =
     require (of_nat (length l) \<le> MAX_LOCATION_CHARS) ''media location too long'' (check_locations ls)"

fun check_media_refs :: "media_ref list \<Rightarrow> unit result" where
  "check_media_refs [] = Inr ()"
| "check_media_refs (r # rs) =
     attempt (require_string (mr_mime r) MAX_MIME_CHARS ''media mime'') (\<lambda>_.
     attempt (optional_hash (mr_content_hash r) ''media content_hash'') (\<lambda>_.
     require (length (mr_locations r) \<le> MAX_LOCATIONS_PER_MEDIA) ''too many media locations''
    (attempt (check_locations (mr_locations r)) (\<lambda>_.
     attempt (optional_bytes (mr_key_ref r) MAX_KEY_REF_BYTES ''media key_ref'') (\<lambda>_.
     check_media_refs rs)))))"

definition validate_media :: "media_ref list \<Rightarrow> unit result" where
  "validate_media media =
     require (of_nat (length media) \<le> MAX_MEDIA_REFS) ''too many media refs'' (check_media_refs media)"

definition pub_is_blocked :: "'w env \<Rightarrow> bytes \<Rightarrow> bytes \<Rightarrow> publications_state \<Rightarrow> bool result" where
  "pub_is_blocked env actor target st =
     (let rc = pub_relationships_contract st
      in require (length rc > 0) ''relationships contract not configured''
         (case call_is_blocked env rc actor target of
            Call_Failed \<Rightarrow> Inl (Revert ''block check failed'')
          | Call_Empty \<Rightarrow> Inr False
          | Call_Object v \<Rightarrow> Inr v))"

definition reserve_idempotency_key ::
  "bytes \<Rightarrow> bytes option \<Rightarrow> bytes \<Rightarrow> publications_state \<Rightarrow> publications_state result" where
  "reserve_idempotency_key author key post_id st =
     (case key of
        None \<Rightarrow> Inr st
      | Some k \<Rightarrow>
          let map_key = idempotency_key author k
          in require (idempotency st map_key = None) ''duplicate idempotency key''
             (Inr (st\<lparr>idempotency := (idempotency st)(map_key \<mapsto> \<lparr>ref_post_id = Some post_id\<rparr>)\<rparr>)))"

section \<open>Admin\<close>

definition pub_set_identity_contract :: "'w env \<Rightarrow> bytes option \<Rightarrow> publications_state \<Rightarrow> publications_outcome" where
  "pub_set_identity_contract env args_address st =
     require_authority env (contract_id env)
     (attempt (require_address args_address ''address'') (\<lambda>address.
      let cfg = pub_dependencies st
      in Inr (st\<lparr>pub_config := Some (cfg\<lparr>dep_identity := Some address\<rparr>)\<rparr>, [])))"

definition pub_set_relationships_contract :: "'w env \<Rightarrow> bytes option \<Rightarrow> publications_state \<Rightarrow> publications_outcome" where
  "pub_set_relationships_contract env args_address st =
     require_authority env (contract_id env)
     (attempt (require_address args_address ''address'') (\<lambda>address.
      let cfg = pub_dependencies st
      in Inr (st\<lparr>pub_config := Some (cfg\<lparr>dep_relationships := Some address\<rparr>)\<rparr>, [])))"

section \<open>Publishing\<close>

text \<open>The envelope is bounded and content-addressed when it is present.\<close>

definition check_envelope :: "'w env \<Rightarrow> bytes option \<Rightarrow> bytes \<Rightarrow> bytes option result" where
  "check_envelope env args_envelope content_hash =
     (let envelope = (if is_empty args_envelope then None else args_envelope)
      in case envelope of
           None \<Rightarrow> Inr None
         | Some e \<Rightarrow>
             require (of_nat (length e) \<le> MAX_ENVELOPE_BYTES) ''envelope too large''
             (attempt (sha256 env e) (\<lambda>digest.
              require (digest = content_hash) ''content hash mismatch'' (Inr envelope))))"

definition check_audience :: "int \<Rightarrow> bytes option \<Rightarrow> bytes option result" where
  "check_audience audience args_audience_id =
     require (audience \<ge> 0 \<and> audience \<le> MAX_AUDIENCE_KIND) ''unknown audience''
     (attempt (optional_bytes args_audience_id MAX_AUDIENCE_ID_BYTES ''audience_id'') (\<lambda>audience_id.
      if audience = AUDIENCE_custom
      then require (audience_id \<noteq> None) ''custom audience requires audience_id'' (Inr audience_id)
      else require (audience_id = None) ''audience_id not allowed for this audience'' (Inr audience_id)))"

text \<open>The parent of a reply: its id and author, or nothing for a top-level post.\<close>

definition resolve_reply :: "'w env \<Rightarrow> bytes \<Rightarrow> bytes option \<Rightarrow> publications_state \<Rightarrow>
    (bytes option \<times> bytes option) result" where
  "resolve_reply env author requested st =
     (case requested of
        None \<Rightarrow> Inr (None, None)
      | Some parent_id \<Rightarrow>
          require (posts st parent_id \<noteq> None) ''reply target not found''
         (attempt (non_null (posts st parent_id) ''parent'') (\<lambda>parent.
          require (post_state parent \<noteq> LIFECYCLE_deleted) ''reply target deleted''
         (let parent_author = post_author parent
          in if parent_author \<noteq> author
             then attempt (pub_is_blocked env parent_author author st) (\<lambda>blocked.
                  require (\<not> blocked) ''blocked by author'' (Inr (Some parent_id, Some parent_author)))
             else Inr (Some parent_id, Some parent_author)))))"

text \<open>
  The two ways \<open>publish\<close> writes. Both return the new state, the record, the previous version,
  the reply target and its author.
\<close>

type_synonym version_outcome =
  "(publications_state \<times> post_record \<times> bytes option \<times> bytes option \<times> bytes option) result"

definition publish_first :: "'w env \<Rightarrow> publish_arguments \<Rightarrow> bytes \<Rightarrow> bytes \<Rightarrow> bytes \<Rightarrow> bytes option \<Rightarrow>
    bytes option \<Rightarrow> publications_state \<Rightarrow> version_outcome" where
  "publish_first env args author post_id content_hash idem_key requested_reply_to st =
     (let t = now env in
      require (posts st post_id = None) ''post already exists''
     (let state = load_author author st in
      require (pa_sequence args = next_sequence state) ''sequence mismatch''
     (attempt (compute_post_id env author (pa_sequence args) content_hash) (\<lambda>computed.
      require (computed = post_id) ''post id mismatch''
     (attempt (resolve_reply env author requested_reply_to st) (\<lambda>(reply_to', reply_author).
      attempt (reserve_idempotency_key author idem_key post_id st) (\<lambda>st1.
      let rec = \<lparr>post_author = author, post_sequence = pa_sequence args, version_count = 1,
                 latest_version = content_hash, post_state = LIFECYCLE_active, reply_to = reply_to',
                 post_audience = pa_audience args, created_at = t, post_updated_at = t\<rparr>;
          st2 = st1\<lparr>posts := (posts st1)(post_id \<mapsto> rec)\<rparr>;
          state' = state\<lparr>next_sequence := next_sequence state + 1, post_count := post_count state + 1,
                         last_publish_at := t\<rparr>;
          st3 = st2\<lparr>authors := (authors st2)(author \<mapsto> state')\<rparr>
      in Inr (st3, rec, None, reply_to', reply_author))))))))"

definition publish_edit :: "'w env \<Rightarrow> publish_arguments \<Rightarrow> bytes \<Rightarrow> bytes \<Rightarrow> bytes \<Rightarrow> bytes option \<Rightarrow>
    bytes option \<Rightarrow> post_record \<Rightarrow> publications_state \<Rightarrow> version_outcome" where
  "publish_edit env args author post_id content_hash idem_key requested_reply_to record st =
     (let t = now env in
      require (post_author record = author) ''author mismatch''
     (require (post_state record \<noteq> LIFECYCLE_deleted) ''post deleted''
     (attempt (non_null (pa_previous_version args) ''previous_version'') (\<lambda>previous.
      require (previous = latest_version record) ''stale version''
     (require (pa_audience args = post_audience record) ''audience change not allowed''
     (let reply_to' = (if is_empty (reply_to record) then None else reply_to record) in
      require (requested_reply_to \<noteq> None \<longrightarrow> reply_to' \<noteq> None \<and> requested_reply_to = reply_to')
        ''reply_to change not allowed''
     (let reply_author = (case reply_to' of None \<Rightarrow> None
                          | Some r \<Rightarrow> (case posts st r of None \<Rightarrow> None | Some p \<Rightarrow> Some (post_author p))) in
      attempt (reserve_idempotency_key author idem_key post_id st) (\<lambda>st1.
      let record' = record\<lparr>version_count := version_count record + 1,
                           latest_version := content_hash, post_updated_at := t\<rparr>
      in Inr (st1\<lparr>posts := (posts st1)(post_id \<mapsto> record')\<rparr>, record', Some previous, reply_to',
              reply_author)))))))))"

text \<open>Replies need COMMENT, top-level posts PUBLISH; for an edit the stored thread position decides.\<close>

definition publish_capability :: "bool \<Rightarrow> bytes option \<Rightarrow> post_record option \<Rightarrow> u32" where
  "publish_capability is_first requested_reply_to existing =
     (if is_first then (if requested_reply_to \<noteq> None then CAP_COMMENT else CAP_PUBLISH)
      else (case existing of None \<Rightarrow> CAP_PUBLISH
            | Some p \<Rightarrow> if \<not> is_empty (reply_to p) then CAP_COMMENT else CAP_PUBLISH))"

definition publish :: "'w env \<Rightarrow> publish_arguments \<Rightarrow> 'w \<times> publications_state \<Rightarrow>
    (('w \<times> publications_state) \<times> publications_event emitted list) result" where
  "publish env args s =
     (let w = fst s; st = snd s in
      attempt (require_address (pa_author args) ''author'') (\<lambda>author.
      attempt (require_hash (pa_post_id args) ''post_id'') (\<lambda>post_id.
      attempt (require_hash (pa_content_hash args) ''content_hash'') (\<lambda>content_hash.
      attempt (check_envelope env (pa_envelope args) content_hash) (\<lambda>envelope.
      attempt (check_audience (pa_audience args) (pa_audience_id args)) (\<lambda>audience_id.
      attempt (validate_media (pa_media args)) (\<lambda>_.
      attempt (optional_bytes (pa_idempotency_key args) (unat MAX_IDEMPOTENCY_KEY_BYTES) ''idempotency key'') (\<lambda>idem_key.
      attempt (given_hash (pa_reply_to args) ''reply_to'') (\<lambda>requested_reply_to.
      let is_first = is_empty (pa_previous_version args);
          existing = (if is_first then None else posts st post_id)
      in require (is_first \<or> existing \<noteq> None) ''post not found''
     (attempt (require_authorized env (pub_identity_contract st) author (pa_device args)
                (publish_capability is_first requested_reply_to existing)) (\<lambda>_.
      attempt (case existing of
                 None \<Rightarrow> publish_first env args author post_id content_hash idem_key requested_reply_to st
               | Some record \<Rightarrow> publish_edit env args author post_id content_hash idem_key requested_reply_to record st)
        (\<lambda>(st', rec, previous_version, reply_to', reply_author).
      attempt (pub_consume env author st' w) (\<lambda>w'.
      let impacted = [author] @ (case reply_author of None \<Rightarrow> [] | Some a \<Rightarrow> if a \<noteq> author then [a] else []);
          ev = \<lparr>pe_author = author, pe_post_id = post_id, pe_content_hash = content_hash,
                pe_previous_version = previous_version, pe_version_number = version_count rec,
                pe_sequence = post_sequence rec, pe_audience = pa_audience args,
                pe_audience_id = audience_id, pe_epoch = pa_epoch args, pe_envelope = envelope,
                pe_media = pa_media args, pe_reply_to = reply_to', pe_idempotency_key = idem_key,
                pe_protocol_version = PUB_PROTOCOL_VERSION, pe_timestamp = now env\<rparr>
      in Inr ((w', st'), [(Published ev, impacted)]))))))))))))))"

section \<open>Lifecycle, reactions, keys and cross-posts\<close>

definition check_replacement :: "int \<Rightarrow> bytes option \<Rightarrow> bytes \<Rightarrow> bytes option result" where
  "check_replacement new_state args_replacement post_id =
     (if new_state = LIFECYCLE_migrated \<or> new_state = LIFECYCLE_superseded
      then attempt (require_hash args_replacement ''replacement_id'') (\<lambda>replacement.
           require (replacement \<noteq> post_id) ''replacement_id must differ from post_id''
           (Inr (Some replacement)))
      else require (is_empty args_replacement) ''replacement_id not allowed for this state'' (Inr None))"

definition set_lifecycle :: "'w env \<Rightarrow> set_lifecycle_arguments \<Rightarrow> publications_state \<Rightarrow> publications_outcome" where
  "set_lifecycle env args st =
     attempt (require_address (sl_author args) ''author'') (\<lambda>author.
     attempt (require_hash (sl_post_id args) ''post_id'') (\<lambda>post_id.
     attempt (require_hash (sl_version args) ''version'') (\<lambda>version.
     require (sl_state args \<ge> 0 \<and> sl_state args \<le> MAX_LIFECYCLE_STATE) ''unknown lifecycle state''
    (attempt (require_string (sl_reason args) MAX_REASON_CHARS ''reason'') (\<lambda>why.
     attempt (check_replacement (sl_state args) (sl_replacement_id args) post_id) (\<lambda>replacement_id.
     attempt (require_authorized env (pub_identity_contract st) author (sl_device args) CAP_PUBLISH) (\<lambda>_.
     require (posts st post_id \<noteq> None) ''post not found''
    (attempt (non_null (posts st post_id) ''record'') (\<lambda>record.
     require (post_author record = author) ''author mismatch''
    (require (latest_version record = version) ''version mismatch''
    (require (post_state record \<noteq> LIFECYCLE_deleted) ''post deleted''
    (let t = now env;
         record' = record\<lparr>post_state := sl_state args, post_updated_at := t\<rparr>
     in Inr (st\<lparr>posts := (posts st)(post_id \<mapsto> record')\<rparr>,
             [(Lifecycle author post_id version (sl_state args) why replacement_id t, [author])])))))))))))))"

definition react :: "'w env \<Rightarrow> react_arguments \<Rightarrow> 'w \<times> publications_state \<Rightarrow>
    (('w \<times> publications_state) \<times> publications_event emitted list) result" where
  "react env args s =
     (let w = fst s; st = snd s in
      attempt (require_address (rea_actor args) ''actor'') (\<lambda>actor.
      attempt (require_hash (rea_post_id args) ''post_id'') (\<lambda>post_id.
      require (rea_reaction args \<noteq> 0) ''reaction is required''
     (attempt (require_authorized env (pub_identity_contract st) actor (rea_device args) CAP_REACT) (\<lambda>_.
      require (posts st post_id \<noteq> None) ''post not found''
     (attempt (non_null (posts st post_id) ''record'') (\<lambda>record.
      require (post_state record \<noteq> LIFECYCLE_deleted) ''post deleted''
     (let t = now env;
          author = post_author record;
          impacted = [actor] @ (if author \<noteq> actor then [author] else [])
      in attempt (if \<not> rea_remove args then pub_consume env actor st w else Inr w) (\<lambda>w'.
         Inr ((w', st), [(Reaction actor post_id author (rea_reaction args) (rea_remove args) t, impacted)]))))))))))"

definition distribute_keys :: "'w env \<Rightarrow> distribute_keys_arguments \<Rightarrow> publications_state \<Rightarrow> publications_outcome" where
  "distribute_keys env args st =
     attempt (require_address (dk_author args) ''author'') (\<lambda>author.
     attempt (require_bytes (dk_packages args) (unat MAX_KEY_PACKAGE_BYTES) ''packages'') (\<lambda>packages.
     attempt (optional_bytes (dk_audience_id args) MAX_AUDIENCE_ID_BYTES ''audience_id'') (\<lambda>audience_id.
     attempt (require_authorized env (pub_identity_contract st) author (dk_device args) CAP_PUBLISH) (\<lambda>_.
     Inr (st, [(Keys_distributed author audience_id (dk_epoch args) packages (now env), [author])])))))"

text \<open>The post this author's key was bound to by publish, if any.\<close>

definition bound_post :: "publications_state \<Rightarrow> bytes \<Rightarrow> bytes \<Rightarrow> bytes option" where
  "bound_post st author key =
     (case idempotency st (idempotency_key author key) of
        None \<Rightarrow> None
      | Some bound \<Rightarrow> if \<not> is_empty (ref_post_id bound) then ref_post_id bound else None)"

definition check_target ::
  "publications_state \<Rightarrow> bytes \<Rightarrow> bytes option \<Rightarrow> bytes option \<Rightarrow> unit result" where
  "check_target st author bound_post_id post_id =
     (case post_id of
        None \<Rightarrow> Inr ()
      | Some pid \<Rightarrow>
          require (posts st pid \<noteq> None) ''post not found''
         (attempt (non_null (posts st pid) ''record'') (\<lambda>record.
          require (post_author record = author) ''author mismatch''
         (require (bound_post_id \<noteq> None \<longrightarrow> bound_post_id = Some pid)
            ''idempotency key bound to another post'' (Inr ())))))"

definition record_cross_post :: "'w env \<Rightarrow> record_cross_post_arguments \<Rightarrow> publications_state \<Rightarrow> publications_outcome" where
  "record_cross_post env args st =
     attempt (require_address (xp_author args) ''author'') (\<lambda>author.
     attempt (require_bytes (xp_idempotency_key args) (unat MAX_IDEMPOTENCY_KEY_BYTES) ''idempotency_key'') (\<lambda>idem_key.
     require (xp_adapter args \<noteq> None \<and> length (the (xp_adapter args)) > 0) ''adapter is required''
    (attempt (require_string (xp_adapter args) MAX_ADAPTER_CHARS ''adapter'') (\<lambda>adapter.
     attempt (require_string (xp_external_ref args) MAX_EXTERNAL_REF_CHARS ''external_ref'') (\<lambda>external_ref.
     attempt (optional_hash (xp_manifest_hash args) ''manifest_hash'') (\<lambda>manifest_hash.
     require (xp_state args \<ge> 0 \<and> xp_state args \<le> MAX_OUTCOME_STATE) ''unknown outcome state''
    (attempt (given_hash (xp_post_id args) ''post_id'') (\<lambda>post_id.
     require (xp_state args = OUTCOME_succeeded \<longrightarrow> post_id \<noteq> None) ''post_id is required for a succeeded outcome''
    (attempt (require_authorized env (pub_identity_contract st) author (xp_device args) CAP_PUBLISH) (\<lambda>_.
     let bound_post_id = bound_post st author idem_key
     in attempt (check_target st author bound_post_id post_id) (\<lambda>_.
        require (xp_state args = OUTCOME_succeeded \<longrightarrow> bound_post_id \<noteq> None) ''idempotency key not bound to a post''
       (Inr (st, [(Cross_post_outcome author idem_key adapter (xp_state args) external_ref post_id
                    manifest_hash (now env), [author])])))))))))))))"

section \<open>Reads\<close>

definition get_post :: "bytes option \<Rightarrow> publications_state \<Rightarrow> post_record option" where
  "get_post post_id st = (if is_empty post_id then None else posts st (the post_id))"

definition get_author_state :: "bytes option \<Rightarrow> publications_state \<Rightarrow> author_state" where
  "get_author_state author st =
     (if is_empty author then \<lparr>next_sequence = FIRST_SEQUENCE, last_publish_at = 0, post_count = 0\<rparr>
      else load_author (the author) st)"

definition get_post_by_idempotency_key ::
  "bytes option \<Rightarrow> bytes option \<Rightarrow> publications_state \<Rightarrow> post_ref option" where
  "get_post_by_idempotency_key author key st =
     (if is_empty author \<or> is_empty key then None
      else idempotency st (idempotency_key (the author) (the key)))"

record limits =
  lim_max_envelope_bytes :: u32
  lim_max_media_refs :: u32
  lim_max_key_package_bytes :: u32
  lim_max_idempotency_key_bytes :: u32
  lim_max_location_chars :: u32
  lim_protocol_version :: u32

definition get_limits :: limits where
  "get_limits = \<lparr>lim_max_envelope_bytes = MAX_ENVELOPE_BYTES, lim_max_media_refs = MAX_MEDIA_REFS,
     lim_max_key_package_bytes = MAX_KEY_PACKAGE_BYTES,
     lim_max_idempotency_key_bytes = MAX_IDEMPOTENCY_KEY_BYTES,
     lim_max_location_chars = MAX_LOCATION_CHARS, lim_protocol_version = PUB_PROTOCOL_VERSION\<rparr>"

definition get_dependencies :: "publications_state \<Rightarrow> dependencies" where
  "get_dependencies st = pub_dependencies st"

section \<open>The contract as a transition system\<close>

datatype publications_call =
    Call_pub_set_token_contract "bytes option"
  | Call_pub_set_identity_contract "bytes option"
  | Call_pub_set_relationships_contract "bytes option"
  | Call_publish publish_arguments
  | Call_set_lifecycle set_lifecycle_arguments
  | Call_react react_arguments
  | Call_distribute_keys distribute_keys_arguments
  | Call_record_cross_post record_cross_post_arguments

fun publications_step :: "'w env \<Rightarrow> publications_call \<Rightarrow> 'w \<times> publications_state \<Rightarrow>
    (('w \<times> publications_state) \<times> publications_event emitted list) result" where
  "publications_step env (Call_pub_set_token_contract a) s = local_op (pub_set_token_contract env a) s"
| "publications_step env (Call_pub_set_identity_contract a) s = local_op (pub_set_identity_contract env a) s"
| "publications_step env (Call_pub_set_relationships_contract a) s = local_op (pub_set_relationships_contract env a) s"
| "publications_step env (Call_publish args) s = publish env args s"
| "publications_step env (Call_set_lifecycle args) s = local_op (set_lifecycle env args) s"
| "publications_step env (Call_react args) s = react env args s"
| "publications_step env (Call_distribute_keys args) s = local_op (distribute_keys env args) s"
| "publications_step env (Call_record_cross_post args) s = local_op (record_cross_post env args) s"

definition publications_exec ::
  "'w env \<times> publications_call \<Rightarrow> 'w \<times> publications_state \<Rightarrow> ('w \<times> publications_state) result" where
  "publications_exec tx s = map_sum id fst (publications_step (fst tx) (snd tx) s)"

section \<open>What a successful publish did\<close>

lemma require_hash_Inr [simp]: "require_hash v what = Inr b \<longleftrightarrow> v = Some b \<and> length b = 32"
  by (auto simp: require_hash_def HASH_LENGTH_def)

lemma given_hash_Inr:
  "given_hash v what = Inr x \<Longrightarrow> x = (if is_empty v then None else v) \<and> (\<forall>y. x = Some y \<longrightarrow> length y = 32)"
  by (auto simp: given_hash_def split: if_splits)

lemma reserve_Inr:
  "reserve_idempotency_key author key pid st = Inr st' \<Longrightarrow>
     posts st' = posts st \<and> authors st' = authors st \<and> pub_config st' = pub_config st \<and>
     (case key of None \<Rightarrow> idempotency st' = idempotency st
      | Some k \<Rightarrow> idempotency st (author @ k) = None \<and>
          idempotency st' = (idempotency st)(author @ k \<mapsto> \<lparr>ref_post_id = Some pid\<rparr>))"
  by (auto simp: reserve_idempotency_key_def idempotency_key_def Let_def split: option.splits)

lemma resolve_reply_Inr:
  "resolve_reply env author req st = Inr (rt, ra) \<Longrightarrow>
     rt = req \<and> (\<forall>p. req = Some p \<longrightarrow> (\<exists>parent. posts st p = Some parent \<and>
       post_state parent \<noteq> LIFECYCLE_deleted \<and> ra = Some (post_author parent) \<and>
       (post_author parent \<noteq> author \<longrightarrow> pub_is_blocked env (post_author parent) author st = Inr False)))"
  by (auto simp: resolve_reply_def Let_def split: option.splits if_splits)

text \<open>Both kinds of version write one post and at most one idempotency entry.\<close>

lemma publish_first_Inr:
  assumes "publish_first env args author pid h ik req st = Inr (st', rec, pv, rt, ra)"
  shows "posts st pid = None" "pa_sequence args = next_sequence (load_author author st)"
    "compute_post_id env author (pa_sequence args) h = Inr pid" "rt = req" "pv = None"
    "rec = \<lparr>post_author = author, post_sequence = pa_sequence args, version_count = 1,
       latest_version = h, post_state = LIFECYCLE_active, reply_to = req,
       post_audience = pa_audience args, created_at = now env, post_updated_at = now env\<rparr>"
    "resolve_reply env author req st = Inr (rt, ra)"
    "posts st' = (posts st)(pid \<mapsto> rec)"
    "authors st' = (authors st)(author \<mapsto> \<lparr>next_sequence = next_sequence (load_author author st) + 1,
       last_publish_at = now env, post_count = post_count (load_author author st) + 1\<rparr>)"
    "case ik of None \<Rightarrow> idempotency st' = idempotency st
      | Some k \<Rightarrow> idempotency st (author @ k) = None \<and>
          idempotency st' = (idempotency st)(author @ k \<mapsto> \<lparr>ref_post_id = Some pid\<rparr>)"
    "pub_config st' = pub_config st"
proof -
  from assms obtain st1 where
    res: "reserve_idempotency_key author ik pid st = Inr st1" and
    rr: "resolve_reply env author req st = Inr (rt, ra)" and
    rest: "posts st pid = None" "pa_sequence args = next_sequence (load_author author st)"
    "compute_post_id env author (pa_sequence args) h = Inr pid" "pv = None"
    "rec = \<lparr>post_author = author, post_sequence = pa_sequence args, version_count = 1,
       latest_version = h, post_state = LIFECYCLE_active, reply_to = rt,
       post_audience = pa_audience args, created_at = now env, post_updated_at = now env\<rparr>"
    "st' = st1\<lparr>posts := (posts st1)(pid \<mapsto> rec), authors := (authors st1)(author \<mapsto>
        (load_author author st)\<lparr>next_sequence := next_sequence (load_author author st) + 1,
        post_count := post_count (load_author author st) + 1, last_publish_at := now env\<rparr>)\<rparr>"
    by (auto simp: publish_first_def Let_def)
  show "posts st pid = None" "pa_sequence args = next_sequence (load_author author st)"
    "compute_post_id env author (pa_sequence args) h = Inr pid" "rt = req" "pv = None"
    "rec = \<lparr>post_author = author, post_sequence = pa_sequence args, version_count = 1,
       latest_version = h, post_state = LIFECYCLE_active, reply_to = req,
       post_audience = pa_audience args, created_at = now env, post_updated_at = now env\<rparr>"
    "resolve_reply env author req st = Inr (rt, ra)"
    using rest rr resolve_reply_Inr [OF rr] by simp_all
  show "posts st' = (posts st)(pid \<mapsto> rec)"
    "authors st' = (authors st)(author \<mapsto> \<lparr>next_sequence = next_sequence (load_author author st) + 1,
       last_publish_at = now env, post_count = post_count (load_author author st) + 1\<rparr>)"
    "case ik of None \<Rightarrow> idempotency st' = idempotency st
      | Some k \<Rightarrow> idempotency st (author @ k) = None \<and>
          idempotency st' = (idempotency st)(author @ k \<mapsto> \<lparr>ref_post_id = Some pid\<rparr>)"
    "pub_config st' = pub_config st"
    using rest(6) reserve_Inr [OF res] by (auto split: option.splits)
qed

lemma publish_edit_Inr:
  assumes "publish_edit env args author pid h ik req old st = Inr (st', rec, pv, rt, ra)"
  shows "post_author old = author" "post_state old \<noteq> LIFECYCLE_deleted"
    "pv = Some (latest_version old)" "pa_previous_version args = Some (latest_version old)"
    "pa_audience args = post_audience old" "req \<noteq> None \<Longrightarrow> req = reply_to old"
    "rec = old\<lparr>version_count := version_count old + 1, latest_version := h, post_updated_at := now env\<rparr>"
    "posts st' = (posts st)(pid \<mapsto> rec)" "authors st' = authors st"
    "case ik of None \<Rightarrow> idempotency st' = idempotency st
      | Some k \<Rightarrow> idempotency st (author @ k) = None \<and>
          idempotency st' = (idempotency st)(author @ k \<mapsto> \<lparr>ref_post_id = Some pid\<rparr>)"
    "pub_config st' = pub_config st"
proof -
  from assms obtain st1 where
    res: "reserve_idempotency_key author ik pid st = Inr st1" and
    rest: "post_author old = author" "post_state old \<noteq> LIFECYCLE_deleted"
    "pv = Some (latest_version old)" "pa_previous_version args = Some (latest_version old)"
    "pa_audience args = post_audience old" "req \<noteq> None \<Longrightarrow> req = reply_to old"
    "rec = old\<lparr>version_count := version_count old + 1, latest_version := h, post_updated_at := now env\<rparr>"
    "st' = st1\<lparr>posts := (posts st1)(pid \<mapsto> rec)\<rparr>"
    by (auto simp: publish_edit_def Let_def split: if_splits)
  show "post_author old = author" "post_state old \<noteq> LIFECYCLE_deleted"
    "pv = Some (latest_version old)" "pa_previous_version args = Some (latest_version old)"
    "pa_audience args = post_audience old" "req \<noteq> None \<Longrightarrow> req = reply_to old"
    "rec = old\<lparr>version_count := version_count old + 1, latest_version := h, post_updated_at := now env\<rparr>"
    by (fact rest)+
  show "posts st' = (posts st)(pid \<mapsto> rec)" "authors st' = authors st"
    "case ik of None \<Rightarrow> idempotency st' = idempotency st
      | Some k \<Rightarrow> idempotency st (author @ k) = None \<and>
          idempotency st' = (idempotency st)(author @ k \<mapsto> \<lparr>ref_post_id = Some pid\<rparr>)"
    "pub_config st' = pub_config st"
    using rest(8) reserve_Inr [OF res] by (auto split: option.splits)
qed

text \<open>The checked arguments of a successful publish, and which of the two ways it went.\<close>

lemma publish_cases:
  assumes "publish env args s = Inr (s', evs)"
  obtains (first) author pid h ik req rec ra where
      "pa_author args = Some author" "length author = 25" "pa_post_id args = Some pid" "length pid = 32"
      "pa_content_hash args = Some h" "length h = 32" "0 \<le> pa_audience args" "pa_audience args \<le> 2"
      "ik = (if is_empty (pa_idempotency_key args) then None else pa_idempotency_key args)"
      "req = (if is_empty (pa_reply_to args) then None else pa_reply_to args)" "\<And>x. req = Some x \<Longrightarrow> length x = 32"
      "is_empty (pa_previous_version args)"
      "\<exists>sg. require_authorized env (pub_identity_contract (snd s)) author (pa_device args)
         (if req \<noteq> None then CAP_COMMENT else CAP_PUBLISH) = Inr sg"
      "publish_first env args author pid h ik req (snd s) = Inr (snd s', rec, None, req, ra)"
      "pub_consume env author (snd s') (fst s) = Inr (fst s')"
  | (edit) author pid h ik req rec old pv rt ra where
      "pa_author args = Some author" "length author = 25" "pa_post_id args = Some pid" "length pid = 32"
      "pa_content_hash args = Some h" "length h = 32" "0 \<le> pa_audience args" "pa_audience args \<le> 2"
      "ik = (if is_empty (pa_idempotency_key args) then None else pa_idempotency_key args)"
      "posts (snd s) pid = Some old"
      "\<exists>sg. require_authorized env (pub_identity_contract (snd s)) author (pa_device args)
         (if is_empty (reply_to old) then CAP_PUBLISH else CAP_COMMENT) = Inr sg"
      "publish_edit env args author pid h ik req old (snd s) = Inr (snd s', rec, pv, rt, ra)"
      "pub_consume env author (snd s') (fst s) = Inr (fst s')"
proof -
  have aud: "check_audience a i = Inr x \<Longrightarrow> 0 \<le> a \<and> a \<le> 2" for a i x
    by (auto simp: check_audience_def MAX_AUDIENCE_KIND_def wire_enums)
  have opt: "optional_bytes v n what = Inr x \<Longrightarrow> x = (if is_empty v then None else v)" for v n what x
    by auto
  from assms obtain author pid h env' aid ik req existing st' rec pv rt ra w' sg where
    base: "pa_author args = Some author" "length author = 25" "pa_post_id args = Some pid" "length pid = 32"
      "pa_content_hash args = Some h" "length h = 32"
    and "check_audience (pa_audience args) (pa_audience_id args) = Inr aid"
    and "optional_bytes (pa_idempotency_key args) (unat MAX_IDEMPOTENCY_KEY_BYTES) ''idempotency key'' = Inr ik"
    and req: "given_hash (pa_reply_to args) ''reply_to'' = Inr req"
    and ex: "existing = (if is_empty (pa_previous_version args) then None else posts (snd s) pid)"
      "is_empty (pa_previous_version args) \<or> existing \<noteq> None"
    and au: "require_authorized env (pub_identity_contract (snd s)) author (pa_device args)
                (publish_capability (is_empty (pa_previous_version args)) req existing) = Inr sg"
    and w: "(case existing of
                 None \<Rightarrow> publish_first env args author pid h ik req (snd s)
               | Some old \<Rightarrow> publish_edit env args author pid h ik req old (snd s))
          = Inr (st', rec, pv, rt, ra)"
    and c: "pub_consume env author st' (fst s) = Inr w'" "s' = (w', st')"
    unfolding publish_def Let_def
    by (auto simp del: optional_bytes_Inr is_empty_iff if_split simp: case_prod_unfold)
  note checked = base aud [OF this(7), THEN conjunct1] aud [OF this(7), THEN conjunct2] opt [OF this(8)]
  note reply = given_hash_Inr [OF req]
  show thesis
  proof (cases existing)
    case None
    with ex have "is_empty (pa_previous_version args)" by blast
    moreover from w None have pf: "publish_first env args author pid h ik req (snd s) = Inr (st', rec, pv, rt, ra)"
      by simp
    moreover note publish_first_Inr(4,5) [OF pf]
    moreover have "publish_capability True req None = (if req \<noteq> None then CAP_COMMENT else CAP_PUBLISH)"
      by (simp add: publish_capability_def)
    ultimately show thesis
      using checked reply au c None by (intro first [of author pid h ik req rec ra]) auto
  next
    case (Some old)
    with ex have "posts (snd s) pid = Some old" "\<not> is_empty (pa_previous_version args)"
      by (auto split: if_splits)
    moreover have "publish_capability False req (Some old) =
        (if is_empty (reply_to old) then CAP_PUBLISH else CAP_COMMENT)"
      by (simp add: publish_capability_def)
    ultimately show thesis
      using checked au c w Some by (intro edit [of author pid h ik old req rec pv rt ra]) auto
  qed
qed

section \<open>Well-formed states\<close>

definition post_ok :: "publications_state \<Rightarrow> bytes \<Rightarrow> post_record \<Rightarrow> bool" where
  "post_ok st pid r \<longleftrightarrow> length pid = 32 \<and> length (post_author r) = 25 \<and> length (latest_version r) = 32 \<and>
     0 \<le> post_audience r \<and> post_audience r \<le> 2 \<and> 0 \<le> post_state r \<and> post_state r \<le> 5 \<and>
     (\<forall>q. reply_to r = Some q \<longrightarrow> length q = 32 \<and> posts st q \<noteq> None)"

definition key_ok :: "publications_state \<Rightarrow> bytes \<Rightarrow> post_ref \<Rightarrow> bool" where
  "key_ok st k ref \<longleftrightarrow> (\<exists>pid p key. ref_post_id ref = Some pid \<and> pid \<noteq> [] \<and> posts st pid = Some p \<and>
     k = post_author p @ key)"

definition publications_inv :: "publications_state \<Rightarrow> bool" where
  "publications_inv st \<longleftrightarrow> (\<forall>pid r. posts st pid = Some r \<longrightarrow> post_ok st pid r) \<and>
     (\<forall>k ref. idempotency st k = Some ref \<longrightarrow> key_ok st k ref)"

lemma publications_empty_inv: "publications_inv publications_empty"
  by (simp add: publications_inv_def publications_empty_def)

text \<open>A new or rewritten post of the same author keeps the other facts.\<close>

lemma publications_inv_put:
  assumes "publications_inv st" and "posts st' = (posts st)(pid \<mapsto> rec)"
    and "post_ok st pid rec" and "\<And>old. posts st pid = Some old \<Longrightarrow> post_author old = post_author rec"
    and "idempotency st' = idempotency st \<or>
      (\<exists>k. idempotency st' = (idempotency st)(post_author rec @ k \<mapsto> \<lparr>ref_post_id = Some pid\<rparr>))"
  shows "publications_inv st'"
proof -
  have posts: "post_ok st' q r" if "posts st' q = Some r" for q r
    using that assms(1,2,3) by (auto simp: publications_inv_def post_ok_def split: if_splits)
  have "key_ok st' k ref" if "key_ok st k ref" for k ref
    using that assms(2,4) by (fastforce simp: key_ok_def)
  moreover have "key_ok st' (post_author rec @ k) \<lparr>ref_post_id = Some pid\<rparr>" for k
    using assms(2,3) by (auto simp: key_ok_def post_ok_def)
  ultimately have "key_ok st' k ref" if "idempotency st' k = Some ref" for k ref
    using that assms(1,5) by (auto simp: publications_inv_def split: if_splits)
  with posts show ?thesis by (simp add: publications_inv_def)
qed

lemma idempotency_write:
  "(case ik of None \<Rightarrow> m' = m | Some k \<Rightarrow> P k \<and> m' = m(a @ k \<mapsto> v)) \<Longrightarrow>
   m' = m \<or> (\<exists>k. m' = m(a @ k \<mapsto> v))"
  by (auto split: option.splits)

lemma publish_inv:
  assumes inv: "publications_inv (snd s)" and pub: "publish env args s = Inr (s', evs)"
  shows "publications_inv (snd s')"
  using pub
proof (cases rule: publish_cases)
  case (first author pid h ik req rec ra)
  note p = publish_first_Inr [OF first(14)]
  have "post_ok (snd s) pid rec"
    using first p(6) resolve_reply_Inr [OF p(7)] by (auto simp: post_ok_def wire_enums)
  with inv p(8) show ?thesis
    by (rule publications_inv_put) (use p(1,6) idempotency_write [OF p(10)] in auto)
next
  case (edit author pid h ik req rec old pv rt ra)
  note p = publish_edit_Inr [OF edit(12)]
  have "post_ok (snd s) pid old" using inv edit(10) by (simp add: publications_inv_def)
  with edit p(7) have "post_ok (snd s) pid rec" by (auto simp: post_ok_def)
  with inv p(8) show ?thesis
    by (rule publications_inv_put) (use edit(10) p(1,7) idempotency_write [OF p(10)] in auto)
qed

lemmas publications_op_defs = pub_set_token_contract_def pub_set_identity_contract_def
  pub_set_relationships_contract_def set_lifecycle_def react_def distribute_keys_def record_cross_post_def

lemma set_lifecycle_Inr:
  assumes "set_lifecycle env args st = Inr (st', evs)"
  obtains author pid old where "sl_author args = Some author" "sl_post_id args = Some pid"
    "posts st pid = Some old" "post_author old = author" "post_state old \<noteq> LIFECYCLE_deleted"
    "sl_version args = Some (latest_version old)" "0 \<le> sl_state args" "sl_state args \<le> 5"
    "\<exists>sg. require_authorized env (pub_identity_contract st) author (sl_device args) CAP_PUBLISH = Inr sg"
    "posts st' = (posts st)(pid \<mapsto> old\<lparr>post_state := sl_state args, post_updated_at := now env\<rparr>)"
    "authors st' = authors st" "idempotency st' = idempotency st" "pub_config st' = pub_config st"
  using assms by (auto simp: set_lifecycle_def Let_def MAX_LIFECYCLE_STATE_def wire_enums simp del: require_string_Inr)

text \<open>The operations that leave posts, authors and keys alone.\<close>

lemma other_pub_ops:
  assumes "publications_exec tx s = Inr s'"
    and "\<And>args. snd tx \<noteq> Call_publish args" and "\<And>args. snd tx \<noteq> Call_set_lifecycle args"
  shows "posts (snd s') = posts (snd s)" "authors (snd s') = authors (snd s)"
    "idempotency (snd s') = idempotency (snd s)"
  using assms by (cases "snd tx"; auto simp: publications_exec_def publications_op_defs Let_def
      simp del: require_string_Inr require_bytes_Inr optional_hash_Inr optional_bytes_Inr split del: if_split)+

lemma publications_exec_inv:
  assumes inv: "publications_inv (snd s)" and ex: "publications_exec tx s = Inr s'"
  shows "publications_inv (snd s')"
proof (cases "(\<exists>args. snd tx = Call_publish args) \<or> (\<exists>args. snd tx = Call_set_lifecycle args)")
  case True
  then show ?thesis
  proof (elim disjE exE)
    fix args
    assume "snd tx = Call_publish args"
    with ex obtain evs where "publish (fst tx) args s = Inr (s', evs)" by (auto simp: publications_exec_def)
    with inv show ?thesis by (rule publish_inv)
  next
    fix args
    assume "snd tx = Call_set_lifecycle args"
    with ex obtain evs where "set_lifecycle (fst tx) args (snd s) = Inr (snd s', evs)"
      by (auto simp: publications_exec_def)
    then show ?thesis
    proof (rule set_lifecycle_Inr)
      fix pid old
      assume old: "posts (snd s) pid = Some old" and st: "0 \<le> sl_state args" "sl_state args \<le> 5"
        and p: "posts (snd s') = (posts (snd s))(pid \<mapsto> old\<lparr>post_state := sl_state args, post_updated_at := now (fst tx)\<rparr>)"
        and i: "idempotency (snd s') = idempotency (snd s)"
      have "post_ok (snd s) pid old" using inv old by (simp add: publications_inv_def)
      with st have "post_ok (snd s) pid (old\<lparr>post_state := sl_state args, post_updated_at := now (fst tx)\<rparr>)"
        by (simp add: post_ok_def)
      with inv p show ?thesis by (rule publications_inv_put) (use old i in auto)
    qed
  qed
next
  case False
  with other_pub_ops [OF ex] inv show ?thesis
    by (simp add: publications_inv_def post_ok_def key_ok_def)
qed

interpretation publications_contract: kept_invariant publications_exec "\<lambda>s. publications_inv (snd s)"
  by unfold_locales (rule publications_exec_inv)

abbreviation pub_after :: "'w \<Rightarrow> ('w env \<times> publications_call) list \<Rightarrow> publications_state" where
  "pub_after w cs \<equiv> snd (run publications_exec (w, publications_empty) cs)"

lemma publications_run_inv: "publications_inv (pub_after w cs)"
  by (rule publications_contract.run_keeps) (simp add: publications_empty_inv)

text \<open>
  Every history keeps the stored posts well formed: posts stand under 32-byte ids with a
  25-byte author, a 32-byte current version and known enum values; a reply always points to a
  stored post, so threads never dangle; and every idempotency entry belongs to an existing post
  of the author it was reserved for.
\<close>

theorem publications_runs_well_formed: "publications_inv (pub_after w cs)"
  by (rule publications_run_inv)

section \<open>What a post keeps for ever\<close>

definition post_frozen_part :: "post_record \<Rightarrow> bytes \<times> u64 \<times> bytes option \<times> int \<times> u64" where
  "post_frozen_part r = (post_author r, post_sequence r, reply_to r, post_audience r, created_at r)"

definition posts_kept :: "publications_state \<Rightarrow> publications_state \<Rightarrow> bool" where
  "posts_kept s t \<longleftrightarrow>
     (\<forall>pid r. posts s pid = Some r \<longrightarrow> (\<exists>r'. posts t pid = Some r' \<and>
        post_frozen_part r' = post_frozen_part r \<and> (post_state r = LIFECYCLE_deleted \<longrightarrow> r' = r))) \<and>
     (\<forall>k ref. idempotency s k = Some ref \<longrightarrow> idempotency t k = Some ref)"

lemma posts_kept_put:
  assumes "posts t = (posts s)(pid \<mapsto> rec)"
    and "\<And>old. posts s pid = Some old \<Longrightarrow> post_frozen_part rec = post_frozen_part old \<and> post_state old \<noteq> LIFECYCLE_deleted"
    and "\<And>k ref. idempotency s k = Some ref \<Longrightarrow> idempotency t k = Some ref"
  shows "posts_kept s t"
  using assms by (auto simp: posts_kept_def)

lemma posts_kept_step:
  assumes ex: "publications_exec tx s = Inr s'"
  shows "posts_kept (snd s) (snd s')"
proof (cases "(\<exists>args. snd tx = Call_publish args) \<or> (\<exists>args. snd tx = Call_set_lifecycle args)")
  case True
  then show ?thesis
  proof (elim disjE exE)
    fix args
    assume "snd tx = Call_publish args"
    with ex obtain evs where "publish (fst tx) args s = Inr (s', evs)" by (auto simp: publications_exec_def)
    then show ?thesis
    proof (cases rule: publish_cases)
      case (first author pid h ik req rec ra)
      note p = publish_first_Inr [OF first(14)]
      from p(8) show ?thesis
        by (rule posts_kept_put) (use p(1,10) in \<open>auto split: option.splits\<close>)
    next
      case (edit author pid h ik req rec old pv rt ra)
      note p = publish_edit_Inr [OF edit(12)]
      from p(8) show ?thesis
        by (rule posts_kept_put)
          (use edit(10) p(2,7,10) in \<open>auto simp: post_frozen_part_def split: option.splits\<close>)
    qed
  next
    fix args
    assume "snd tx = Call_set_lifecycle args"
    with ex obtain evs where "set_lifecycle (fst tx) args (snd s) = Inr (snd s', evs)"
      by (auto simp: publications_exec_def)
    then show ?thesis
      by (rule set_lifecycle_Inr) (auto intro!: posts_kept_put simp: post_frozen_part_def)
  qed
next
  case False
  with other_pub_ops [OF ex] show ?thesis by (auto simp: posts_kept_def)
qed

lemma posts_kept_trans:
  assumes st: "posts_kept s t" and tu: "posts_kept t u"
  shows "posts_kept s u"
  unfolding posts_kept_def
proof (intro conjI allI impI)
  fix pid r
  assume "posts s pid = Some r"
  with st obtain r1 where r1: "posts t pid = Some r1" "post_frozen_part r1 = post_frozen_part r"
    "post_state r = LIFECYCLE_deleted \<longrightarrow> r1 = r" unfolding posts_kept_def by blast
  with tu obtain r2 where "posts u pid = Some r2" "post_frozen_part r2 = post_frozen_part r1"
    "post_state r1 = LIFECYCLE_deleted \<longrightarrow> r2 = r1" unfolding posts_kept_def by blast
  with r1 show "\<exists>r'. posts u pid = Some r' \<and> post_frozen_part r' = post_frozen_part r \<and>
      (post_state r = LIFECYCLE_deleted \<longrightarrow> r' = r)" by (intro exI [of _ r2]) auto
next
  fix k ref
  assume "idempotency s k = Some ref"
  with st tu show "idempotency u k = Some ref" unfolding posts_kept_def by blast
qed

interpretation post_history: kept_relation publications_exec "\<lambda>s. publications_inv (snd s)"
    "\<lambda>s t. posts_kept (snd s) (snd t)"
proof unfold_locales
  show "posts_kept (snd s) (snd s)" for s :: "'a \<times> publications_state" by (simp add: posts_kept_def)
qed (auto intro: posts_kept_trans posts_kept_step)

text \<open>
  A post is never removed, and its author, sequence number, thread position, audience and
  creation time never change; a deleted post never changes again in any field.
\<close>

theorem posts_are_permanent:
  fixes cs ds :: "('w env \<times> publications_call) list"
  assumes "posts (pub_after w cs) pid = Some r"
  shows "\<exists>r'. posts (pub_after w (cs @ ds)) pid = Some r' \<and> post_frozen_part r' = post_frozen_part r \<and>
    (post_state r = LIFECYCLE_deleted \<longrightarrow> r' = r)"
proof -
  have "posts_kept (pub_after w cs) (pub_after w (cs @ ds))"
    unfolding run_append by (rule post_history.run_rel) (rule publications_run_inv)
  with assms show ?thesis by (simp add: posts_kept_def)
qed

lemma published_key_bound:
  fixes s s' :: "'w \<times> publications_state"
  assumes "publish env args s = Inr (s', evs)" and "pa_idempotency_key args = Some k" and "k \<noteq> []"
    and "publications_inv (snd s)"
  shows "\<exists>a. pa_author args = Some a \<and> length a = 25 \<and>
    idempotency (snd (run publications_exec s' ds)) (a @ k) = Some \<lparr>ref_post_id = pa_post_id args\<rparr>"
proof -
  have "\<exists>a. pa_author args = Some a \<and> length a = 25 \<and> idempotency (snd s') (a @ k) = Some \<lparr>ref_post_id = pa_post_id args\<rparr>"
    using assms(1)
  proof (cases rule: publish_cases)
    case (first author pid h ik req rec ra)
    then have "ik = Some k" using assms(2,3) by simp
    with first(1-3) publish_first_Inr(10) [OF first(14)] show ?thesis by simp
  next
    case (edit author pid h ik req rec old pv rt ra)
    then have "ik = Some k" using assms(2,3) by simp
    with edit(1-3) publish_edit_Inr(10) [OF edit(12)] show ?thesis by simp
  qed
  moreover have "posts_kept (snd s') (snd (run publications_exec s' ds))"
    using publish_inv [OF assms(4,1)] by (rule post_history.run_rel)
  ultimately show ?thesis by (auto simp: posts_kept_def)
qed

text \<open>
  C10: An idempotency key works once: after a successful publish under a key, every later publish
  of that author under the same key reverts, whatever happened in between, and the key stays
  bound to the post of the first one. A client may therefore retry a publish blindly.
\<close>

theorem publish_at_most_once:
  fixes s s' :: "'w \<times> publications_state"
  assumes "publish env args s = Inr (s', evs)" and "pa_idempotency_key args = Some k" and "k \<noteq> []"
    and "publications_inv (snd s)"
    and "pa_author args' = pa_author args" and "pa_idempotency_key args' = Some k"
  shows "(\<forall>s2 evs2. publish env' args' (run publications_exec s' ds) \<noteq> Inr (s2, evs2)) \<and>
    get_post_by_idempotency_key (pa_author args) (Some k) (snd (run publications_exec s' ds)) =
      Some \<lparr>ref_post_id = pa_post_id args\<rparr>"
proof -
  obtain a where a: "pa_author args = Some a" "length a = 25"
    and later: "idempotency (snd (run publications_exec s' ds)) (a @ k) = Some \<lparr>ref_post_id = pa_post_id args\<rparr>"
    using published_key_bound [OF assms(1-4)] by blast
  have "publish env' args' (run publications_exec s' ds) \<noteq> Inr (s2, evs2)" for s2 evs2
  proof
    assume "publish env' args' (run publications_exec s' ds) = Inr (s2, evs2)"
    then show False
    proof (cases rule: publish_cases)
      case (first author pid h ik req rec ra)
      then have "ik = Some k" "author = a" using assms(3,5,6) a by simp_all
      with later publish_first_Inr(10) [OF first(14)] show ?thesis by simp
    next
      case (edit author pid h ik req rec old pv rt ra)
      then have "ik = Some k" "author = a" using assms(3,5,6) a by simp_all
      with later publish_edit_Inr(10) [OF edit(12)] show ?thesis by simp
    qed
  qed
  moreover have "a \<noteq> []" using a(2) by auto
  ultimately show ?thesis using a(1) assms(3) later
    by (simp add: get_post_by_idempotency_key_def idempotency_key_def)
qed

section \<open>Who may write a post\<close>

text \<open>
  C33: A stored post is created or changed only by a transaction whose resolved signer acts for
  the post's own author, with the capability its thread position asks for: for a new version
  COMMENT when the stored post is a reply and PUBLISH otherwise (whatever the caller claims),
  for a lifecycle change PUBLISH.
\<close>

theorem only_author_writes_posts:
  assumes "publications_inv (snd s)" and "publications_exec (env, call) s = Inr s'"
    and "posts (snd s') pid \<noteq> posts (snd s) pid"
  shows "\<exists>r device cap sg. posts (snd s') pid = Some r \<and>
    (posts (snd s) pid = None \<or> map_option post_author (posts (snd s) pid) = Some (post_author r)) \<and>
    require_authorized env (pub_identity_contract (snd s)) (post_author r) device cap = Inr sg \<and>
    cap = (if (\<exists>args. call = Call_publish args) \<and> reply_to r \<noteq> None then CAP_COMMENT else CAP_PUBLISH)"
proof (cases "(\<exists>args. call = Call_publish args) \<or> (\<exists>args. call = Call_set_lifecycle args)")
  case True
  then show ?thesis
  proof (elim disjE exE)
    fix args
    assume c: "call = Call_publish args"
    with assms(2) obtain evs where "publish env args s = Inr (s', evs)" by (auto simp: publications_exec_def)
    then show ?thesis
    proof (cases rule: publish_cases)
      case (first author pid' h ik req rec ra)
      note p = publish_first_Inr [OF first(14)]
      have "pid = pid'" using assms(3) p(8) by (auto split: if_splits)
      moreover have "reply_to rec = req" "post_author rec = author" using p(6) by simp_all
      ultimately show ?thesis using first(13) p(1,8) c by (cases req; fastforce)
    next
      case (edit author pid' h ik req rec old pv rt ra)
      note p = publish_edit_Inr [OF edit(12)]
      have pid: "pid = pid'" using assms(3) p(8) by (auto split: if_splits)
      have "post_ok (snd s) pid' old" using assms(1) edit(10) by (simp add: publications_inv_def)
      then have "is_empty (reply_to old) \<longleftrightarrow> reply_to old = None" by (auto simp: post_ok_def)
      moreover have "reply_to rec = reply_to old" "post_author rec = author" using p(1,7) by simp_all
      ultimately show ?thesis using edit(10,11) p(1,8) c pid by (cases "reply_to old"; fastforce)
    qed
  next
    fix args
    assume c: "call = Call_set_lifecycle args"
    with assms(2) obtain evs where "set_lifecycle env args (snd s) = Inr (snd s', evs)"
      by (auto simp: publications_exec_def)
    then show ?thesis
      by (rule set_lifecycle_Inr) (use assms(3) c in \<open>auto split: if_splits\<close>)
  qed
next
  case False
  with other_pub_ops(1) [OF assms(2)] assms(3) show ?thesis by simp
qed

section \<open>Sequence numbers\<close>

definition sequences_ok :: "nat \<Rightarrow> publications_state \<Rightarrow> bool" where
  "sequences_ok n st \<longleftrightarrow>
     (\<forall>a. unat (next_sequence (load_author a st)) \<le> Suc n) \<and>
     (\<forall>pid r. posts st pid = Some r \<longrightarrow> unat (post_sequence r) < unat (next_sequence (load_author (post_author r) st))) \<and>
     (\<forall>p1 p2 r1 r2. posts st p1 = Some r1 \<longrightarrow> posts st p2 = Some r2 \<longrightarrow> post_author r1 = post_author r2 \<longrightarrow>
        post_sequence r1 = post_sequence r2 \<longrightarrow> p1 = p2)"

lemma sequences_mono: "sequences_ok n st \<Longrightarrow> sequences_ok (Suc n) st"
  by (auto simp: sequences_ok_def le_SucI)

lemma sequences_edit:
  assumes "sequences_ok n st" and "posts st' = (posts st)(pid \<mapsto> rec)" and "authors st' = authors st"
    and "posts st pid = Some old" and "post_author rec = post_author old" and "post_sequence rec = post_sequence old"
  shows "sequences_ok n st'"
  using assms by (auto simp: sequences_ok_def load_author_def)

lemma sequences_first:
  assumes ok: "sequences_ok n st" and n: "Suc n < 2 ^ 64 - 1"
    and p: "posts st' = (posts st)(pid \<mapsto> rec)"
    and a: "authors st' = (authors st)(author \<mapsto> \<lparr>next_sequence = next_sequence (load_author author st) + 1,
       last_publish_at = t, post_count = c\<rparr>)"
    and r: "post_author rec = author" "post_sequence rec = next_sequence (load_author author st)"
  shows "sequences_ok (Suc n) st'"
proof -
  let ?next = "next_sequence (load_author author st)"
  have "unat ?next \<le> Suc n" using ok by (simp add: sequences_ok_def)
  with n have up: "unat (?next + 1) = Suc (unat ?next)" by (intro unat_inc) simp
  have load: "next_sequence (load_author b st') = (if b = author then ?next + 1 else next_sequence (load_author b st))" for b
    by (simp add: load_author_def a)
  have below: "unat (post_sequence r) < unat (next_sequence (load_author (post_author r) st))"
    if "posts st q = Some r" for q r
    using ok that by (simp add: sequences_ok_def)
  show ?thesis
    unfolding sequences_ok_def load p
  proof (intro conjI allI impI)
    show "unat (if a = author then ?next + 1 else next_sequence (load_author a st)) \<le> Suc (Suc n)" for a
      using ok up by (simp add: sequences_ok_def le_SucI)
  next
    fix q r assume "((posts st)(pid \<mapsto> rec)) q = Some r"
    then show "unat (post_sequence r) < unat (if post_author r = author then ?next + 1
        else next_sequence (load_author (post_author r) st))"
      using below [of q r] r up by (cases "q = pid") auto
  next
    fix p1 p2 r1 r2
    assume q: "((posts st)(pid \<mapsto> rec)) p1 = Some r1" "((posts st)(pid \<mapsto> rec)) p2 = Some r2"
      and same: "post_author r1 = post_author r2" "post_sequence r1 = post_sequence r2"
    have unique: "posts st p1 = Some r1 \<Longrightarrow> posts st p2 = Some r2 \<Longrightarrow> p1 = p2"
      using ok same unfolding sequences_ok_def by blast
    show "p1 = p2"
    proof (cases "p1 = pid")
      case True
      with q have "r1 = rec" by simp
      then have "\<not> posts st p2 = Some r2" using below [of p2 r2] same r by auto
      with q(2) True show ?thesis by (simp split: if_splits)
    next
      case False
      with q have p1: "posts st p1 = Some r1" by simp
      then have "r2 \<noteq> rec" using below [of p1 r1] same r by auto
      with q(2) have "posts st p2 = Some r2" by (simp split: if_splits)
      with unique p1 show ?thesis by blast
    qed
  qed
qed

lemma sequences_step:
  assumes ok: "sequences_ok n (snd s)" and n: "Suc n < 2 ^ 64 - 1" and ex: "publications_exec tx s = Inr s'"
  shows "sequences_ok (Suc n) (snd s')"
proof (cases "(\<exists>args. snd tx = Call_publish args) \<or> (\<exists>args. snd tx = Call_set_lifecycle args)")
  case True
  then show ?thesis
  proof (elim disjE exE)
    fix args
    assume "snd tx = Call_publish args"
    with ex obtain evs where "publish (fst tx) args s = Inr (s', evs)" by (auto simp: publications_exec_def)
    then show ?thesis
    proof (cases rule: publish_cases)
      case (first author pid h ik req rec ra)
      note p = publish_first_Inr [OF first(14)]
      from ok n p(8,9) show ?thesis by (rule sequences_first) (use p(2,6) in simp_all)
    next
      case (edit author pid h ik req rec old pv rt ra)
      note p = publish_edit_Inr [OF edit(12)]
      from ok p(8,9) edit(10) have "sequences_ok n (snd s')"
        by (rule sequences_edit) (use p(7) in simp_all)
      then show ?thesis by (rule sequences_mono)
    qed
  next
    fix args
    assume "snd tx = Call_set_lifecycle args"
    with ex obtain evs where "set_lifecycle (fst tx) args (snd s) = Inr (snd s', evs)"
      by (auto simp: publications_exec_def)
    then show ?thesis
      by (rule set_lifecycle_Inr) (auto intro!: sequences_mono sequences_edit [OF ok])
  qed
next
  case False
  with other_pub_ops [OF ex] have "posts (snd s') = posts (snd s)" "authors (snd s') = authors (snd s)" by simp_all
  with ok show ?thesis by (auto simp: sequences_ok_def load_author_def le_SucI)
qed

text \<open>
  In every history too short to wrap the 64-bit counter, an author's sequence number names
  at most one post, and every number used lies below the author's next one.
\<close>

theorem sequence_names_one_post:
  assumes "length cs < 2 ^ 64 - 2" and "posts (pub_after w cs) p1 = Some r1"
    and "posts (pub_after w cs) p2 = Some r2" and "post_author r1 = post_author r2"
  shows "(post_sequence r1 = post_sequence r2 \<longrightarrow> p1 = p2) \<and>
    post_sequence r1 < next_sequence (get_author_state (Some (post_author r1)) (pub_after w cs))"
proof -
  have "length cs < 2 ^ 64 - 2 \<longrightarrow> sequences_ok (length cs) (pub_after w cs)"
  proof (rule run_history [where H = "\<lambda>cs s. length cs < 2 ^ 64 - 2 \<longrightarrow> sequences_ok (length cs) (snd s)"])
    show "length ([]::('a env \<times> publications_call) list) < 2 ^ 64 - 2 \<longrightarrow>
        sequences_ok (length ([]::('a env \<times> publications_call) list)) (snd (w, publications_empty))"
      by (simp add: sequences_ok_def publications_empty_def load_author_def FIRST_SEQUENCE_def)
  qed (auto intro: sequences_step sequences_mono)
  with assms have ok: "sequences_ok (length cs) (pub_after w cs)" by simp
  have "post_ok (pub_after w cs) p1 r1"
    using publications_run_inv [of w cs] assms(2) by (simp add: publications_inv_def)
  then have "post_author r1 \<noteq> []" by (auto simp: post_ok_def)
  moreover have "unat (post_sequence r1) < unat (next_sequence (load_author (post_author r1) (pub_after w cs)))"
    using ok assms(2) by (simp add: sequences_ok_def)
  moreover have "post_sequence r1 = post_sequence r2 \<longrightarrow> p1 = p2"
    using ok assms(2-4) unfolding sequences_ok_def by blast
  ultimately show ?thesis by (simp add: get_author_state_def word_less_nat_alt)
qed

section \<open>Post ids\<close>

lemma preimage_inj:
  assumes "length a = 25" and "length b = 25" and "length h = 32" and "length h' = 32"
    and "post_id_preimage env a s h = post_id_preimage env b s' h'"
  shows "a = b \<and> s = s' \<and> h = h'"
  using assms by (auto simp: post_id_preimage_def dest: u64be_inj)

lemma post_id_step:
  assumes ex: "publications_exec tx s = Inr s'" and "posts (snd s') pid = Some r"
  shows "(\<exists>r0. posts (snd s) pid = Some r0 \<and> post_author r0 = post_author r \<and> post_sequence r0 = post_sequence r) \<or>
    (\<exists>h. length h = 32 \<and> compute_post_id (fst tx) (post_author r) (post_sequence r) h = Inr pid)"
proof (cases "(\<exists>args. snd tx = Call_publish args) \<or> (\<exists>args. snd tx = Call_set_lifecycle args)")
  case True
  then show ?thesis
  proof (elim disjE exE)
    fix args
    assume "snd tx = Call_publish args"
    with ex obtain evs where "publish (fst tx) args s = Inr (s', evs)" by (auto simp: publications_exec_def)
    then show ?thesis
    proof (cases rule: publish_cases)
      case (first author pid' h ik req rec ra)
      note p = publish_first_Inr [OF first(14)]
      show ?thesis using p(3,6,8) first(6) assms(2) by (auto split: if_splits)
    next
      case (edit author pid' h ik req rec old pv rt ra)
      note p = publish_edit_Inr [OF edit(12)]
      show ?thesis using p(7,8) edit(10) assms(2) by (auto split: if_splits)
    qed
  next
    fix args
    assume "snd tx = Call_set_lifecycle args"
    with ex obtain evs where "set_lifecycle (fst tx) args (snd s) = Inr (snd s', evs)"
      by (auto simp: publications_exec_def)
    then show ?thesis
      by (rule set_lifecycle_Inr) (use assms(2) in \<open>auto split: if_splits\<close>)
  qed
next
  case False
  with other_pub_ops(1) [OF ex] assms(2) show ?thesis by auto
qed

text \<open>
  On a chain whose hash, chain id and string encoding stay the same, every post stands under
  the digest of a preimage made of its own author and sequence number and a 32-byte content
  hash, and no other author, sequence number or content hash has that preimage.
\<close>

theorem post_id_commits:
  fixes env :: "'w env" and cs :: "('w env \<times> publications_call) list"
  assumes "\<forall>tx \<in> set cs. compute_post_id (fst tx) = compute_post_id env"
    and "posts (pub_after w cs) pid = Some r"
  shows "\<exists>h. length h = 32 \<and> sha256 env (post_id_preimage env (post_author r) (post_sequence r) h) = Inr pid \<and>
    (\<forall>a s h'. length a = 25 \<and> length h' = 32 \<and>
       post_id_preimage env a s h' = post_id_preimage env (post_author r) (post_sequence r) h \<longrightarrow>
       a = post_author r \<and> s = post_sequence r \<and> h' = h)"
proof -
  let ?H = "\<lambda>(cs :: ('w env \<times> publications_call) list) (s :: 'w \<times> publications_state). (\<forall>tx \<in> set cs. compute_post_id (fst tx) = compute_post_id env) \<longrightarrow>
    (\<forall>pid r. posts (snd s) pid = Some r \<longrightarrow>
       (\<exists>h. length h = 32 \<and> compute_post_id env (post_author r) (post_sequence r) h = Inr pid))"
  have "?H cs (run publications_exec (w, publications_empty) cs)"
  proof (rule run_history [where H = ?H])
    show "?H [] (w, publications_empty)" by (simp add: publications_empty_def)
  next
    fix cs s and tx :: "'w env \<times> publications_call" and s'
    assume H: "?H cs s" and ex: "publications_exec tx s = Inr s'"
    show "?H (cs @ [tx]) s'"
    proof (intro impI allI)
      fix pid r
      assume "\<forall>tx \<in> set (cs @ [tx]). compute_post_id (fst tx) = compute_post_id env"
        and "posts (snd s') pid = Some r"
      with H post_id_step [OF ex, of pid r]
      show "\<exists>h. length h = 32 \<and> compute_post_id env (post_author r) (post_sequence r) h = Inr pid" by force
    qed
  qed simp
  with assms obtain h where h: "length h = 32" "compute_post_id env (post_author r) (post_sequence r) h = Inr pid"
    by blast
  have "length (post_author r) = 25"
    using publications_run_inv [of w cs] assms(2) by (auto simp: publications_inv_def post_ok_def)
  then have "a = post_author r \<and> s = post_sequence r \<and> h' = h"
    if "length a = 25 \<and> length h' = 32 \<and>
      post_id_preimage env a s h' = post_id_preimage env (post_author r) (post_sequence r) h" for a s h'
    using that h(1) preimage_inj [of a "post_author r" h' h env s "post_sequence r"] by simp
  with h [unfolded compute_post_id_def] show ?thesis by blast
qed

section \<open>Cross-post outcomes\<close>

text \<open>
  A cross-post outcome is only reported by a signer resolved for its author and writes
  nothing; when it claims success it names a stored post of that author to which the
  idempotency key was bound by the author's own publish.
\<close>

theorem cross_post_success_is_bound:
  assumes "record_cross_post env args st = Inr (st', evs)"
  shows "st' = st \<and> (\<exists>author key sg. xp_author args = Some author \<and> xp_idempotency_key args = Some key \<and>
    require_authorized env (pub_identity_contract st) author (xp_device args) CAP_PUBLISH = Inr sg \<and>
    (xp_state args = OUTCOME_succeeded \<longrightarrow> (\<exists>pid r. xp_post_id args = Some pid \<and> posts st pid = Some r \<and>
       post_author r = author \<and>
       get_post_by_idempotency_key (Some author) (Some key) st = Some \<lparr>ref_post_id = Some pid\<rparr>)))"
proof -
  from assms obtain author key post_id sg where
    a: "xp_author args = Some author" "length author = 25" "xp_idempotency_key args = Some key" "key \<noteq> []"
    "require_authorized env (pub_identity_contract st) author (xp_device args) CAP_PUBLISH = Inr sg" "st' = st"
    and pid: "given_hash (xp_post_id args) ''post_id'' = Inr post_id"
    and need: "xp_state args = OUTCOME_succeeded \<longrightarrow> post_id \<noteq> None"
    and post: "check_target st author (bound_post st author key) post_id = Inr ()"
    and bound: "xp_state args = OUTCOME_succeeded \<longrightarrow> bound_post st author key \<noteq> None"
    unfolding record_cross_post_def Let_def
    by (auto simp del: is_empty_iff require_string_Inr optional_hash_Inr option.exhaust_sel)
  have "\<exists>p r. xp_post_id args = Some p \<and> posts st p = Some r \<and> post_author r = author \<and>
       get_post_by_idempotency_key (Some author) (Some key) st = Some \<lparr>ref_post_id = Some p\<rparr>"
    if s: "xp_state args = OUTCOME_succeeded"
  proof -
    from s need obtain p where "post_id = Some p" by auto
    with given_hash_Inr [OF pid] have p: "post_id = Some p" "xp_post_id args = Some p"
      by (auto split: if_splits)
    with post obtain r where r: "posts st p = Some r" "post_author r = author"
      and "bound_post st author key \<noteq> None \<longrightarrow> bound_post st author key = Some p"
      by (auto simp: check_target_def)
    with s bound have "bound_post st author key = Some p" by simp
    then have "idempotency st (idempotency_key author key) = Some \<lparr>ref_post_id = Some p\<rparr>"
      by (auto simp: bound_post_def split: option.splits if_splits)
    moreover have "author \<noteq> []" using a(2) by auto
    ultimately show ?thesis using p(2) r a(4) by (simp add: get_post_by_idempotency_key_def)
  qed
  with a show ?thesis by blast
qed

section \<open>Witnesses\<close>

text \<open>
  One post under an idempotency key, then its deletion. The stand-in hash of the host keeps the
  last 32 bytes of its input, so the post id is the reversed content hash.
\<close>

lemma open_env_post_id:
  "length h = 32 \<Longrightarrow> compute_post_id (open_env t) a s h = Inr (rev h)"
  by (simp add: compute_post_id_def sha256_def Let_def post_id_preimage_def open_env_def sample_env_def HASH_LENGTH_def)

definition demo_publish :: publish_arguments where
  "demo_publish = \<lparr>pa_author = Some (sample_addr 1), pa_post_id = Some (replicate 32 5), pa_previous_version = None,
     pa_sequence = 1, pa_audience = 0, pa_audience_id = None, pa_epoch = 0, pa_envelope = None,
     pa_content_hash = Some (replicate 32 5), pa_media = [], pa_reply_to = None,
     pa_idempotency_key = Some [7], pa_device = None\<rparr>"

definition demo_pub_setup :: "(unit env \<times> publications_call) list" where
  "demo_pub_setup = [(open_env 10, Call_pub_set_identity_contract (Some (sample_addr 100)))]"

definition demo_posts :: "(unit env \<times> publications_call) list" where
  "demo_posts = demo_pub_setup @ [(open_env 20, Call_publish demo_publish)]"

definition demo_delete :: "(unit env \<times> publications_call) list" where
  "demo_delete = [(open_env 30, Call_set_lifecycle \<lparr>sl_author = Some (sample_addr 1), sl_post_id = Some (replicate 32 5),
     sl_version = Some (replicate 32 5), sl_state = 2, sl_reason = None, sl_replacement_id = None, sl_device = None\<rparr>)]"

definition demo_post :: "int \<Rightarrow> u64 \<Rightarrow> post_record" where
  "demo_post s t = \<lparr>post_author = sample_addr 1, post_sequence = 1, version_count = 1, latest_version = replicate 32 5,
     post_state = s, reply_to = None, post_audience = 0, created_at = 20, post_updated_at = t\<rparr>"

definition demo_pub_state :: "int \<Rightarrow> u64 \<Rightarrow> publications_state" where
  "demo_pub_state s t = \<lparr>posts = [replicate 32 5 \<mapsto> demo_post s t],
     authors = [sample_addr 1 \<mapsto> \<lparr>next_sequence = 2, last_publish_at = 20, post_count = 1\<rparr>],
     idempotency = [sample_addr 1 @ [7] \<mapsto> \<lparr>ref_post_id = Some (replicate 32 5)\<rparr>],
     pub_config = Some \<lparr>dep_identity = Some (sample_addr 100), dep_relationships = None\<rparr>, pub_usage = None\<rparr>"

lemmas publications_eval = publications_exec_def publish_def publish_first_def publish_edit_def publications_op_defs
  Let_def require_hash_def HASH_LENGTH_def given_hash_def check_envelope_def check_audience_def optional_bytes_def
  validate_media_def pub_identity_contract_def pub_dependencies_def load_author_def resolve_reply_def
  reserve_idempotency_key_def idempotency_key_def pub_consume_def wire_enums MAX_AUDIENCE_KIND_def
  MAX_LIFECYCLE_STATE_def MAX_MEDIA_REFS_def MAX_IDEMPOTENCY_KEY_BYTES_def FIRST_SEQUENCE_def
  publish_capability_def require_string_def check_replacement_def local_op_def

lemma demo_pub_setup_run:
  "run publications_exec ((), publications_empty) demo_pub_setup =
     ((), \<lparr>posts = Map.empty, authors = Map.empty, idempotency = Map.empty,
        pub_config = Some \<lparr>dep_identity = Some (sample_addr 100), dep_relationships = None\<rparr>, pub_usage = None\<rparr>)"
  by (simp add: demo_pub_setup_def publications_empty_def publications_eval)

lemma demo_publish_tx:
  "\<exists>evs. publish (open_env 20 :: unit env) demo_publish (run publications_exec ((), publications_empty) demo_pub_setup) =
     Inr (((), demo_pub_state 0 20), evs)"
  by (simp add: demo_pub_setup_run demo_publish_def publications_eval open_env_post_id
      demo_pub_state_def demo_post_def)

lemma demo_posts_run: "run publications_exec ((), publications_empty) demo_posts = ((), demo_pub_state 0 20)"
  using demo_publish_tx by (auto simp: demo_posts_def run_snoc publications_exec_def)

lemma demo_delete_run:
  "run publications_exec ((), publications_empty) (demo_posts @ demo_delete) = ((), demo_pub_state 2 30)"
  by (simp add: run_append demo_posts_run demo_delete_def publications_eval demo_pub_state_def demo_post_def)

lemma demo_post_stored: "posts (pub_after () demo_posts) (replicate 32 5) = Some (demo_post 0 20)"
  by (simp add: demo_posts_run demo_pub_state_def)

theorem posts_are_permanent_witness:
  "\<exists>r'. posts (pub_after () (demo_posts @ demo_delete)) (replicate 32 5) = Some r' \<and>
     post_frozen_part r' = post_frozen_part (demo_post 0 20)"
  using posts_are_permanent [OF demo_post_stored, of demo_delete] by blast

theorem publish_at_most_once_witness:
  "\<forall>s2 evs2. publish (open_env 50) demo_publish (run publications_exec ((), demo_pub_state 0 20) demo_delete) \<noteq> Inr (s2, evs2)"
proof -
  obtain evs where "publish (open_env 20 :: unit env) demo_publish
      (run publications_exec ((), publications_empty) demo_pub_setup) = Inr (((), demo_pub_state 0 20), evs)"
    using demo_publish_tx by blast
  from publish_at_most_once [OF this, of "[7]" demo_publish "open_env 50" demo_delete] show ?thesis
    using publications_run_inv [of "()" demo_pub_setup] by (simp add: demo_publish_def)
qed

theorem only_author_writes_posts_witness:
  "\<exists>r. posts (demo_pub_state 0 20) (replicate 32 5) = Some r \<and> post_author r = sample_addr 1"
proof -
  have "publications_exec (open_env 20 :: unit env, Call_publish demo_publish)
      (run publications_exec ((), publications_empty) demo_pub_setup) = Inr ((), demo_pub_state 0 20)"
    using demo_publish_tx by (auto simp: publications_exec_def)
  from only_author_writes_posts [OF publications_run_inv this, of "replicate 32 5"] show ?thesis
    by (simp add: demo_pub_setup_run demo_pub_state_def demo_post_def)
qed

theorem sequence_names_one_post_witness:
  "post_sequence (demo_post 0 20) < next_sequence (get_author_state (Some (sample_addr 1)) (pub_after () demo_posts))"
  using sequence_names_one_post [OF _ demo_post_stored demo_post_stored refl]
  by (simp add: demo_posts_def demo_pub_setup_def demo_post_def)

theorem post_id_commits_witness:
  "\<exists>h. length h = 32 \<and> sha256 (open_env 0 :: unit env)
     (post_id_preimage (open_env 0 :: unit env) (post_author (demo_post 0 20)) (post_sequence (demo_post 0 20)) h) = Inr (replicate 32 5)"
proof -
  have "compute_post_id (open_env t :: unit env) = compute_post_id (open_env 0 :: unit env)" for t
    by (simp add: fun_eq_iff compute_post_id_def sha256_def post_id_preimage_def open_env_def sample_env_def)
  then have "\<forall>tx \<in> set demo_posts. compute_post_id (fst tx) = compute_post_id (open_env 0 :: unit env)"
    by (simp add: demo_posts_def demo_pub_setup_def)
  from post_id_commits [OF this demo_post_stored] show ?thesis by blast
qed

theorem cross_post_success_is_bound_witness:
  "\<exists>st' evs. record_cross_post (open_env 60 :: unit env) \<lparr>xp_author = Some (sample_addr 1), xp_idempotency_key = Some [7],
      xp_adapter = Some [120], xp_state = 0, xp_external_ref = None, xp_post_id = Some (replicate 32 5),
      xp_manifest_hash = None, xp_device = None\<rparr> (pub_after () demo_posts) = Inr (st', evs) \<and> st' = pub_after () demo_posts"
proof -
  let ?args = "\<lparr>xp_author = Some (sample_addr 1), xp_idempotency_key = Some [7],
      xp_adapter = Some [120], xp_state = 0, xp_external_ref = None, xp_post_id = Some (replicate 32 5),
      xp_manifest_hash = None, xp_device = None\<rparr>"
  obtain st' evs where "record_cross_post (open_env 60 :: unit env) ?args (pub_after () demo_posts) = Inr (st', evs)"
    by (simp add: demo_posts_run demo_pub_state_def demo_post_def publications_eval MAX_ADAPTER_CHARS_def
        require_bytes_def optional_hash_def MAX_OUTCOME_STATE_def check_target_def bound_post_def)
  with cross_post_success_is_bound [OF this] show ?thesis by blast
qed

end
