(* ===== verification/Communities.thy ===== *)
theory Communities
  imports Actor Timelock
begin

text \<open>
  The communities contract, \<open>packages/contracts/communities/assembly/Communities.ts\<close>: communities,
  expiring roles, published policies, time-locked ownership and moderation labels. The first part
  is the contract as written; the second its invariant, the ownership time lock and who may hand
  out the admin rank.
\<close>

section \<open>State objects\<close>

text \<open>Roles stay the wire integers that \<open>set_role\<close> range-checks.\<close>

definition ROLE_none :: int where "ROLE_none = 0"
definition ROLE_owner :: int where "ROLE_owner = 5"
definition ROLE_banned :: int where "ROLE_banned = 6"

record community_record =
  com_id :: bytes
  com_owner :: bytes
  com_name :: ustring
  com_policy_hash :: "bytes option"
  com_policy_uri :: "ustring option"
  com_transfer_delay_ms :: u64
  com_pending_owner :: "bytes option"
  com_transfer_effective_at :: u64
  com_created_at :: u64
  com_updated_at :: u64

record role_record =
  role_role :: int
  role_scope :: "bytes option"
  role_expires_at :: u64
  role_granted_by :: bytes
  role_granted_at :: u64

record communities_state =
  com_communities :: "bytes \<rightharpoonup> community_record"
  com_roles :: "bytes \<rightharpoonup> role_record"
  com_config :: "bytes option option"

definition communities_empty :: communities_state where
  "communities_empty = \<lparr>com_communities = Map.empty, com_roles = Map.empty, com_config = None\<rparr>"

section \<open>Arguments and events\<close>

record create_community_arguments =
  cc_creator :: "bytes option"
  cc_id :: "bytes option"
  cc_name :: "ustring option"
  cc_policy_hash :: "bytes option"
  cc_policy_uri :: "ustring option"
  cc_transfer_delay_ms :: u64
  cc_device :: "bytes option"

record set_role_arguments =
  sr_community_id :: "bytes option"
  sr_actor :: "bytes option"
  sr_subject :: "bytes option"
  sr_role :: int
  sr_scope :: "bytes option"
  sr_expires_at :: u64
  sr_device :: "bytes option"

record set_policy_arguments =
  sp_community_id :: "bytes option"
  sp_actor :: "bytes option"
  sp_policy_hash :: "bytes option"
  sp_policy_uri :: "ustring option"
  sp_device :: "bytes option"

record propose_owner_transfer_arguments =
  po_community_id :: "bytes option"
  po_owner :: "bytes option"
  po_new_owner :: "bytes option"

record cancel_owner_transfer_arguments =
  co_community_id :: "bytes option"
  co_owner :: "bytes option"

record set_label_arguments =
  lab_community_id :: "bytes option"
  lab_actor :: "bytes option"
  lab_post_id :: "bytes option"
  lab_label :: "ustring option"
  lab_reason :: "ustring option"
  lab_device :: "bytes option"

text \<open>The payloads of the \<open>osp.communities.*\<close> events, fields in the order of the schema.\<close>

datatype communities_event =
    Community_created bytes bytes ustring "bytes option" "ustring option" u64 u64
  | Role_set bytes bytes bytes int "bytes option" u64 u64
  | Policy_set bytes bytes "bytes option" "ustring option" u64
  | Owner_transfer_proposed bytes bytes bytes u64
  | Owner_transfer_cancelled bytes u64
  | Owner_transferred bytes bytes bytes u64
  | Label_set bytes bytes bytes ustring "ustring option" u64

type_synonym communities_outcome = "(communities_state \<times> communities_event emitted list) result"

section \<open>Constants\<close>

definition ID_MAX_LENGTH :: nat where "ID_MAX_LENGTH = 32"
definition NAME_MAX_LENGTH :: nat where "NAME_MAX_LENGTH = 64"
definition POLICY_HASH_LENGTH :: nat where "POLICY_HASH_LENGTH = 32"
definition POLICY_URI_MAX_LENGTH :: nat where "POLICY_URI_MAX_LENGTH = 256"
definition SCOPE_MAX_LENGTH :: nat where "SCOPE_MAX_LENGTH = 32"
definition POST_ID_LENGTH :: nat where "POST_ID_LENGTH = 32"
definition LABEL_MAX_LENGTH :: nat where "LABEL_MAX_LENGTH = 64"
definition REASON_MAX_LENGTH :: nat where "REASON_MAX_LENGTH = 256"
definition TRANSFER_DELAY_MAX_MS :: u64 where "TRANSFER_DELAY_MAX_MS = 30 * 24 * 60 * 60 * 1000"
definition RANK_NONE :: int where "RANK_NONE = 0"
definition RANK_MODERATOR :: int where "RANK_MODERATOR = 3"
definition RANK_ADMIN :: int where "RANK_ADMIN = 4"
definition RANK_OWNER :: int where "RANK_OWNER = 5"
definition ROLE_MAX_VALUE :: int where "ROLE_MAX_VALUE = 6"

lemmas community_levels = ROLE_none_def ROLE_owner_def ROLE_banned_def RANK_NONE_def RANK_MODERATOR_def
  RANK_ADMIN_def RANK_OWNER_def ROLE_MAX_VALUE_def

section \<open>Internal helpers\<close>

definition com_identity_contract :: "communities_state \<Rightarrow> bytes" where
  "com_identity_contract st =
     (case com_config st of
        None \<Rightarrow> []
      | Some v \<Rightarrow> if is_empty v then [] else the v)"

definition role_key :: "bytes \<Rightarrow> bytes \<Rightarrow> bytes" where
  "role_key community_id subject = concat_parts [community_id, subject]"

definition require_community :: "bytes \<Rightarrow> communities_state \<Rightarrow> community_record result" where
  "require_community i st =
     require (com_communities st i \<noteq> None) ''community not found''
     (non_null (com_communities st i) ''rec'')"

definition rank :: "int \<Rightarrow> int" where
  "rank role = (if role = ROLE_banned then RANK_NONE else if role = ROLE_none then RANK_NONE else role)"

definition effective_role :: "community_record \<Rightarrow> bytes \<Rightarrow> u64 \<Rightarrow> communities_state \<Rightarrow> int" where
  "effective_role community account t st =
     (if com_owner community = account then ROLE_owner
      else case com_roles st (role_key (com_id community) account) of
        None \<Rightarrow> ROLE_none
      | Some rec \<Rightarrow>
          if role_expires_at rec \<noteq> 0 \<and> role_expires_at rec \<le> t then ROLE_none else role_role rec)"

definition effective_rank :: "community_record \<Rightarrow> bytes \<Rightarrow> u64 \<Rightarrow> communities_state \<Rightarrow> int" where
  "effective_rank community account t st = rank (effective_role community account t st)"

definition require_community_id :: "bytes option \<Rightarrow> bytes result" where
  "require_community_id v = require_bytes v ID_MAX_LENGTH ''community id''"

definition optional_policy_hash :: "bytes option \<Rightarrow> bytes option result" where
  "optional_policy_hash v =
     (if is_empty v then Inr None
      else require (length (the v) = POLICY_HASH_LENGTH) ''policy_hash must be empty or 32 bytes'' (Inr v))"

definition optional_policy_uri :: "ustring option \<Rightarrow> ustring option result" where
  "optional_policy_uri v =
     attempt (require_string v POLICY_URI_MAX_LENGTH ''policy_uri'') (\<lambda>s.
     Inr (if length s = 0 then None else Some s))"

definition optional_scope :: "bytes option \<Rightarrow> bytes option result" where
  "optional_scope v =
     (if is_empty v then Inr None
      else require (length (the v) \<le> SCOPE_MAX_LENGTH) ''scope too large'' (Inr v))"

section \<open>Operations\<close>

definition com_set_identity_contract :: "'w env \<Rightarrow> bytes option \<Rightarrow> communities_state \<Rightarrow> communities_outcome" where
  "com_set_identity_contract env args_address st =
     require_authority env (contract_id env)
     (attempt (require_address args_address ''address'') (\<lambda>address.
      Inr (st\<lparr>com_config := Some (Some address)\<rparr>, [])))"

definition create_community :: "'w env \<Rightarrow> create_community_arguments \<Rightarrow> communities_state \<Rightarrow> communities_outcome" where
  "create_community env args st =
     attempt (require_address (cc_creator args) ''creator'') (\<lambda>creator.
     attempt (require_community_id (cc_id args)) (\<lambda>i.
     attempt (require_string (cc_name args) NAME_MAX_LENGTH ''name'') (\<lambda>name.
     require (length name > 0) ''name is required''
    (attempt (optional_policy_hash (cc_policy_hash args)) (\<lambda>policy_hash.
     attempt (optional_policy_uri (cc_policy_uri args)) (\<lambda>policy_uri.
     require (cc_transfer_delay_ms args \<le> TRANSFER_DELAY_MAX_MS) ''transfer_delay_ms too large''
    (attempt (require_authorized env (com_identity_contract st) creator None 0) (\<lambda>_.
     require (com_communities st i = None) ''community id already exists''
    (let t = now env;
         rec = \<lparr>com_id = i, com_owner = creator, com_name = name, com_policy_hash = policy_hash,
                com_policy_uri = policy_uri, com_transfer_delay_ms = cc_transfer_delay_ms args,
                com_pending_owner = None, com_transfer_effective_at = 0, com_created_at = t,
                com_updated_at = t\<rparr>
     in Inr (st\<lparr>com_communities := (com_communities st)(i \<mapsto> rec)\<rparr>,
             [(Community_created i creator name policy_hash policy_uri (cc_transfer_delay_ms args) t,
               [creator])]))))))))))"

definition set_role :: "'w env \<Rightarrow> set_role_arguments \<Rightarrow> communities_state \<Rightarrow> communities_outcome" where
  "set_role env args st =
     attempt (require_community_id (sr_community_id args)) (\<lambda>community_id.
     attempt (require_address (sr_actor args) ''actor'') (\<lambda>actor.
     attempt (require_address (sr_subject args) ''subject'') (\<lambda>subject.
     let role = sr_role args in
     require (role \<ge> 0 \<and> role \<le> ROLE_MAX_VALUE) ''invalid role''
    (attempt (optional_scope (sr_scope args)) (\<lambda>scope.
     let t = now env in
     require (sr_expires_at args = 0 \<or> sr_expires_at args > t) ''expires_at must be 0 or in the future''
    (attempt (require_community community_id st) (\<lambda>community.
     attempt (require_authorized env (com_identity_contract st) actor (sr_device args) CAP_COMMUNITY) (\<lambda>_.
     let actor_rank = effective_rank community actor t st in
     require (actor_rank \<ge> RANK_ADMIN) ''insufficient role''
    (require (com_owner community \<noteq> subject) ''cannot change owner role''
    (require (role \<noteq> ROLE_owner) ''use ownership transfer''
    (require (actor_rank < RANK_OWNER \<longrightarrow> rank role < RANK_ADMIN) ''admin may only set roles below admin''
    (require (actor_rank < RANK_OWNER \<longrightarrow> effective_rank community subject t st < RANK_ADMIN)
       ''admin cannot change an admin's role''
    (let key = role_key community_id subject;
         st' = (if role = ROLE_none
                then st\<lparr>com_roles := (com_roles st)(key := None)\<rparr>
                else st\<lparr>com_roles := (com_roles st)(key \<mapsto>
                       \<lparr>role_role = role, role_scope = scope, role_expires_at = sr_expires_at args,
                        role_granted_by = actor, role_granted_at = t\<rparr>)\<rparr>)
     in Inr (st', [(Role_set community_id actor subject role scope (sr_expires_at args) t,
                    [actor, subject])]))))))))))))))"

definition set_policy :: "'w env \<Rightarrow> set_policy_arguments \<Rightarrow> communities_state \<Rightarrow> communities_outcome" where
  "set_policy env args st =
     attempt (require_community_id (sp_community_id args)) (\<lambda>community_id.
     attempt (require_address (sp_actor args) ''actor'') (\<lambda>actor.
     attempt (optional_policy_hash (sp_policy_hash args)) (\<lambda>policy_hash.
     attempt (optional_policy_uri (sp_policy_uri args)) (\<lambda>policy_uri.
     attempt (require_community community_id st) (\<lambda>community.
     attempt (require_authorized env (com_identity_contract st) actor (sp_device args) CAP_COMMUNITY) (\<lambda>_.
     let t = now env in
     require (effective_rank community actor t st \<ge> RANK_ADMIN) ''insufficient role''
    (let community' = community\<lparr>com_policy_hash := policy_hash, com_policy_uri := policy_uri,
                                com_updated_at := t\<rparr>
     in Inr (st\<lparr>com_communities := (com_communities st)(community_id \<mapsto> community')\<rparr>,
             [(Policy_set community_id actor policy_hash policy_uri t, [actor])]))))))))"

definition propose_owner_transfer ::
  "'w env \<Rightarrow> propose_owner_transfer_arguments \<Rightarrow> communities_state \<Rightarrow> communities_outcome" where
  "propose_owner_transfer env args st =
     attempt (require_community_id (po_community_id args)) (\<lambda>community_id.
     attempt (require_address (po_owner args) ''owner'') (\<lambda>owner.
     attempt (require_address (po_new_owner args) ''new_owner'') (\<lambda>new_owner.
     require (owner \<noteq> new_owner) ''new_owner must differ from owner''
    (attempt (require_community community_id st) (\<lambda>community.
     require (com_owner community = owner) ''only the owner may propose a transfer''
    (attempt (require_authorized env (com_identity_contract st) owner None 0) (\<lambda>_.
     let t = now env;
         effective_at = t + com_transfer_delay_ms community;
         community' = community\<lparr>com_pending_owner := Some new_owner,
                                com_transfer_effective_at := effective_at, com_updated_at := t\<rparr>
     in Inr (st\<lparr>com_communities := (com_communities st)(community_id \<mapsto> community')\<rparr>,
             [(Owner_transfer_proposed community_id owner new_owner effective_at, [owner, new_owner])]))))))))"

definition cancel_owner_transfer ::
  "'w env \<Rightarrow> cancel_owner_transfer_arguments \<Rightarrow> communities_state \<Rightarrow> communities_outcome" where
  "cancel_owner_transfer env args st =
     attempt (require_community_id (co_community_id args)) (\<lambda>community_id.
     attempt (require_address (co_owner args) ''owner'') (\<lambda>owner.
     attempt (require_community community_id st) (\<lambda>community.
     require (com_owner community = owner) ''only the owner may cancel a transfer''
    (attempt (require_authorized env (com_identity_contract st) owner None 0) (\<lambda>_.
     require (\<not> is_empty (com_pending_owner community)) ''no pending transfer''
    (attempt (non_null (com_pending_owner community) ''pending_owner'') (\<lambda>pending_owner.
     let t = now env;
         community' = community\<lparr>com_pending_owner := None, com_transfer_effective_at := 0,
                                com_updated_at := t\<rparr>
     in Inr (st\<lparr>com_communities := (com_communities st)(community_id \<mapsto> community')\<rparr>,
             [(Owner_transfer_cancelled community_id t, [owner, pending_owner])]))))))))"

definition execute_owner_transfer :: "'w env \<Rightarrow> bytes option \<Rightarrow> communities_state \<Rightarrow> communities_outcome" where
  "execute_owner_transfer env args_community_id st =
     attempt (require_community_id args_community_id) (\<lambda>community_id.
     attempt (require_community community_id st) (\<lambda>community.
     require (\<not> is_empty (com_pending_owner community)) ''no pending transfer''
    (let t = now env in
     require (t \<ge> com_transfer_effective_at community) ''transfer delay not elapsed''
    (attempt (non_null (com_pending_owner community) ''pending_owner'') (\<lambda>new_owner.
     let previous_owner = com_owner community;
         community' = community\<lparr>com_owner := new_owner, com_pending_owner := None,
                                com_transfer_effective_at := 0, com_updated_at := t\<rparr>
     in Inr (st\<lparr>com_communities := (com_communities st)(community_id \<mapsto> community'),
                com_roles := (com_roles st)(role_key community_id new_owner := None)\<rparr>,
             [(Owner_transferred community_id previous_owner new_owner t, [previous_owner, new_owner])]))))))"

definition set_label :: "'w env \<Rightarrow> set_label_arguments \<Rightarrow> communities_state \<Rightarrow> communities_outcome" where
  "set_label env args st =
     attempt (require_community_id (lab_community_id args)) (\<lambda>community_id.
     attempt (require_address (lab_actor args) ''actor'') (\<lambda>actor.
     attempt (require_bytes (lab_post_id args) POST_ID_LENGTH ''post_id'') (\<lambda>post_id.
     require (length post_id = POST_ID_LENGTH) ''post_id must be 32 bytes''
    (attempt (require_string (lab_label args) LABEL_MAX_LENGTH ''label'') (\<lambda>label.
     require (length label > 0) ''label is required''
    (attempt (require_string (lab_reason args) REASON_MAX_LENGTH ''reason'') (\<lambda>why.
     attempt (require_community community_id st) (\<lambda>community.
     attempt (require_authorized env (com_identity_contract st) actor (lab_device args) CAP_COMMUNITY) (\<lambda>_.
     let t = now env in
     require (effective_rank community actor t st \<ge> RANK_MODERATOR) ''insufficient role''
    (Inr (st, [(Label_set community_id actor post_id label (if length why = 0 then None else Some why) t,
                [actor])])))))))))))"

section \<open>Reads\<close>

definition get_community :: "bytes option \<Rightarrow> communities_state \<Rightarrow> community_record option" where
  "get_community i st = (if is_empty i then None else com_communities st (the i))"

definition get_role :: "bytes option \<Rightarrow> bytes option \<Rightarrow> communities_state \<Rightarrow> role_record option" where
  "get_role community_id subject st =
     (if is_empty community_id \<or> is_empty subject then None
      else com_roles st (role_key (the community_id) (the subject)))"

definition com_get_identity_contract :: "communities_state \<Rightarrow> bytes option" where
  "com_get_identity_contract st = (case com_config st of None \<Rightarrow> None | Some v \<Rightarrow> v)"

section \<open>The contract as a transition system\<close>

datatype communities_call =
    Call_com_set_identity_contract "bytes option"
  | Call_create_community create_community_arguments
  | Call_set_role set_role_arguments
  | Call_set_policy set_policy_arguments
  | Call_propose_owner_transfer propose_owner_transfer_arguments
  | Call_cancel_owner_transfer cancel_owner_transfer_arguments
  | Call_execute_owner_transfer "bytes option"
  | Call_set_label set_label_arguments

fun communities_step :: "'w env \<Rightarrow> communities_call \<Rightarrow> communities_state \<Rightarrow> communities_outcome" where
  "communities_step env (Call_com_set_identity_contract a) st = com_set_identity_contract env a st"
| "communities_step env (Call_create_community args) st = create_community env args st"
| "communities_step env (Call_set_role args) st = set_role env args st"
| "communities_step env (Call_set_policy args) st = set_policy env args st"
| "communities_step env (Call_propose_owner_transfer args) st = propose_owner_transfer env args st"
| "communities_step env (Call_cancel_owner_transfer args) st = cancel_owner_transfer env args st"
| "communities_step env (Call_execute_owner_transfer a) st = execute_owner_transfer env a st"
| "communities_step env (Call_set_label args) st = set_label env args st"

definition communities_exec :: "'w env \<times> communities_call \<Rightarrow> communities_state \<Rightarrow> communities_state result" where
  "communities_exec tx st = map_sum id fst (communities_step (fst tx) (snd tx) st)"

section \<open>Well-formed states\<close>

definition community_ok :: "bytes \<Rightarrow> community_record \<Rightarrow> bool" where
  "community_ok k c \<longleftrightarrow> com_id c = k \<and> k \<noteq> [] \<and> length k \<le> ID_MAX_LENGTH \<and> length (com_owner c) = 25 \<and>
     com_name c \<noteq> [] \<and> com_transfer_delay_ms c \<le> TRANSFER_DELAY_MAX_MS \<and>
     (\<forall>p. com_pending_owner c = Some p \<longrightarrow> length p = 25 \<and> p \<noteq> com_owner c)"

definition role_ok :: "communities_state \<Rightarrow> bytes \<Rightarrow> role_record \<Rightarrow> bool" where
  "role_ok st k r \<longleftrightarrow> (\<exists>i c subject. k = i @ subject \<and> length subject = 25 \<and> com_communities st i = Some c \<and>
     com_owner c \<noteq> subject \<and> 1 \<le> role_role r \<and> role_role r \<le> 6 \<and> role_role r \<noteq> ROLE_owner)"

definition communities_inv :: "communities_state \<Rightarrow> bool" where
  "communities_inv st \<longleftrightarrow> (\<forall>k c. com_communities st k = Some c \<longrightarrow> community_ok k c) \<and>
     (\<forall>k r. com_roles st k = Some r \<longrightarrow> role_ok st k r)"

lemma communities_empty_inv: "communities_inv communities_empty"
  by (simp add: communities_inv_def communities_empty_def)

lemmas communities_op_defs = com_set_identity_contract_def create_community_def set_role_def
  set_policy_def propose_owner_transfer_def cancel_owner_transfer_def execute_owner_transfer_def set_label_def

lemmas communities_helper_defs = require_community_id_def Let_def role_key_def

lemma require_community_Inr [simp]: "require_community i st = Inr c \<longleftrightarrow> com_communities st i = Some c"
  by (auto simp: require_community_def)

lemma communities_invD:
  "communities_inv st \<Longrightarrow> com_communities st k = Some c \<Longrightarrow> community_ok k c"
  "communities_inv st \<Longrightarrow> com_roles st k = Some r \<Longrightarrow> role_ok st k r"
  by (simp_all add: communities_inv_def)

text \<open>A role stays well placed as long as the owner of its community stays.\<close>

lemma role_ok_same_owners:
  assumes "role_ok st k r"
    and "\<And>i c. com_communities st i = Some c \<Longrightarrow> \<exists>c'. com_communities st' i = Some c' \<and> com_owner c' = com_owner c"
  shows "role_ok st' k r"
  using assms(1) unfolding role_ok_def by (metis assms(2))

lemma communities_inv_put:
  assumes inv: "communities_inv st" and ok: "community_ok k c"
    and owner: "\<And>c0. com_communities st k = Some c0 \<Longrightarrow> com_owner c = com_owner c0"
  shows "communities_inv (st\<lparr>com_communities := (com_communities st)(k \<mapsto> c)\<rparr>)"
proof -
  have "role_ok (st\<lparr>com_communities := (com_communities st)(k \<mapsto> c)\<rparr>) q r" if "role_ok st q r" for q r
    using that by (rule role_ok_same_owners) (use owner in auto)
  with inv ok show ?thesis by (simp add: communities_inv_def)
qed

lemma communities_inv_role:
  "communities_inv st \<Longrightarrow> role_ok st k r \<Longrightarrow> communities_inv (st\<lparr>com_roles := (com_roles st)(k \<mapsto> r)\<rparr>)"
  by (auto simp: communities_inv_def role_ok_def)

lemma communities_inv_drop_role:
  "communities_inv st \<Longrightarrow> communities_inv (st\<lparr>com_roles := (com_roles st)(k := None)\<rparr>)"
  by (auto simp: communities_inv_def role_ok_def)

lemma communities_inv_transfer:
  assumes inv: "communities_inv st" and c0: "com_communities st i = Some c0" and ok: "community_ok i c"
    and "length (com_owner c) = 25"
  shows "communities_inv (st\<lparr>com_communities := (com_communities st)(i \<mapsto> c),
                             com_roles := (com_roles st)(i @ com_owner c := None)\<rparr>)"
proof -
  have "role_ok (st\<lparr>com_communities := (com_communities st)(i \<mapsto> c)\<rparr>) k r"
    if "role_ok st k r" "k \<noteq> i @ com_owner c" for k r
  proof -
    from that(1) obtain j d subject where k: "k = j @ subject" "length subject = 25"
      and d: "com_communities st j = Some d" "com_owner d \<noteq> subject"
      and r: "1 \<le> role_role r" "role_role r \<le> 6" "role_role r \<noteq> ROLE_owner"
      unfolding role_ok_def by blast
    show ?thesis
    proof (cases "j = i")
      case True
      with k that(2) have "com_owner c \<noteq> subject" by auto
      with k r True show ?thesis by (auto simp: role_ok_def)
    next
      case False
      with k d r show ?thesis by (auto simp: role_ok_def)
    qed
  qed
  then have "role_ok (st\<lparr>com_communities := (com_communities st)(i \<mapsto> c),
       com_roles := (com_roles st)(i @ com_owner c := None)\<rparr>) k r"
    if "role_ok st k r" "k \<noteq> i @ com_owner c" for k r
    using that by (simp add: role_ok_def)
  with inv ok show ?thesis by (auto simp: communities_inv_def)
qed

lemma community_ok_updates:
  "community_ok k c \<Longrightarrow> community_ok k (c\<lparr>com_policy_hash := h, com_policy_uri := u, com_updated_at := t\<rparr>)"
  "community_ok k c \<Longrightarrow> length p = 25 \<Longrightarrow> p \<noteq> com_owner c \<Longrightarrow>
     community_ok k (c\<lparr>com_pending_owner := Some p, com_transfer_effective_at := e, com_updated_at := t\<rparr>)"
  "community_ok k c \<Longrightarrow>
     community_ok k (c\<lparr>com_pending_owner := None, com_transfer_effective_at := e, com_updated_at := t\<rparr>)"
  "community_ok k c \<Longrightarrow> com_pending_owner c = Some p \<Longrightarrow>
     community_ok k (c\<lparr>com_owner := p, com_pending_owner := None, com_transfer_effective_at := e, com_updated_at := t\<rparr>)"
  by (auto simp: community_ok_def)

lemma community_pending_address:
  "communities_inv st \<Longrightarrow> com_communities st k = Some c \<Longrightarrow> com_pending_owner c = Some p \<Longrightarrow> length p = 25"
  by (auto simp: community_ok_def dest: communities_invD)

lemma set_role_Inr:
  assumes "set_role env args st = Inr (st', evs)"
  obtains i actor subject c v where "sr_community_id args = Some i" "sr_actor args = Some actor"
    "sr_subject args = Some subject" "length actor = 25" "length subject = 25" "com_communities st i = Some c"
    "\<exists>sg. require_authorized env (com_identity_contract st) actor (sr_device args) CAP_COMMUNITY = Inr sg"
    "RANK_ADMIN \<le> effective_rank c actor (now env) st" "com_owner c \<noteq> subject"
    "effective_rank c actor (now env) st < RANK_OWNER \<Longrightarrow>
       rank (sr_role args) < RANK_ADMIN \<and> effective_rank c subject (now env) st < RANK_ADMIN"
    "st' = st\<lparr>com_roles := (com_roles st)(role_key i subject := v)\<rparr>"
    "case v of None \<Rightarrow> sr_role args = ROLE_none
     | Some r \<Rightarrow> role_role r = sr_role args \<and> 1 \<le> sr_role args \<and> sr_role args \<le> 6 \<and> sr_role args \<noteq> ROLE_owner"
proof -
  let ?r = "\<lambda>scope actor. \<lparr>role_role = sr_role args, role_scope = scope, role_expires_at = sr_expires_at args,
    role_granted_by = actor, role_granted_at = now env\<rparr>"
  from assms obtain i actor subject c scope sg where
    a: "sr_community_id args = Some i" "sr_actor args = Some actor" "sr_subject args = Some subject"
    "length actor = 25" "length subject = 25" "com_communities st i = Some c"
    "require_authorized env (com_identity_contract st) actor (sr_device args) CAP_COMMUNITY = Inr sg"
    "RANK_ADMIN \<le> effective_rank c actor (now env) st" "com_owner c \<noteq> subject"
    "effective_rank c actor (now env) st < RANK_OWNER \<longrightarrow> rank (sr_role args) < RANK_ADMIN"
    "effective_rank c actor (now env) st < RANK_OWNER \<longrightarrow> effective_rank c subject (now env) st < RANK_ADMIN"
    and role: "0 \<le> sr_role args" "sr_role args \<le> ROLE_MAX_VALUE" "sr_role args \<noteq> ROLE_owner"
    and st': "st' = (if sr_role args = ROLE_none then st\<lparr>com_roles := (com_roles st)(role_key i subject := None)\<rparr>
       else st\<lparr>com_roles := (com_roles st)(role_key i subject \<mapsto> ?r scope actor)\<rparr>)"
    unfolding set_role_def Let_def require_community_id_def
    by (auto simp del: if_split)
  show thesis
  proof (cases "sr_role args = ROLE_none")
    case True
    with a st' show thesis by (intro that [of i actor subject c None]) auto
  next
    case False
    with role have "1 \<le> sr_role args" "sr_role args \<le> 6" by (simp_all add: community_levels)
    with a st' role False show thesis by (intro that [of i actor subject c "Some (?r scope actor)"]) auto
  qed
qed

lemma set_role_inv:
  assumes inv: "communities_inv st" and "set_role env args st = Inr (st', evs)"
  shows "communities_inv st'"
  using assms(2)
proof (rule set_role_Inr)
  fix i subject c v
  assume c: "com_communities st i = Some c" "length subject = 25" "com_owner c \<noteq> subject"
    and st': "st' = st\<lparr>com_roles := (com_roles st)(role_key i subject := v)\<rparr>"
    and v: "case v of None \<Rightarrow> sr_role args = ROLE_none
      | Some r \<Rightarrow> role_role r = sr_role args \<and> 1 \<le> sr_role args \<and> sr_role args \<le> 6 \<and> sr_role args \<noteq> ROLE_owner"
  show "communities_inv st'"
  proof (cases v)
    case None
    with inv st' show ?thesis by (simp add: communities_inv_drop_role)
  next
    case (Some r)
    with c v have "role_ok st (role_key i subject) r" by (auto simp: role_ok_def role_key_def)
    with inv st' Some show ?thesis by (simp add: communities_inv_role)
  qed
qed

lemma create_community_inv:
  "communities_inv st \<Longrightarrow> create_community env args st = Inr (st', evs) \<Longrightarrow> communities_inv st'"
  by (auto simp: create_community_def communities_helper_defs community_ok_def intro!: communities_inv_put)

lemma community_policy_inv: "communities_inv st \<Longrightarrow> set_policy env args st = Inr (st', evs) \<Longrightarrow> communities_inv st'"
  by (auto simp: set_policy_def communities_helper_defs intro!: communities_inv_put community_ok_updates
      dest: communities_invD)

lemma transfer_ops_inv:
  "communities_inv st \<Longrightarrow> propose_owner_transfer env po st = Inr (st', evs) \<Longrightarrow> communities_inv st'"
  "communities_inv st \<Longrightarrow> cancel_owner_transfer env co st = Inr (st', evs) \<Longrightarrow> communities_inv st'"
  by (auto simp: propose_owner_transfer_def cancel_owner_transfer_def communities_helper_defs
      intro!: communities_inv_put community_ok_updates dest: communities_invD)

lemma execute_transfer_inv:
  assumes inv: "communities_inv st" and "execute_owner_transfer env i st = Inr (st', evs)"
  shows "communities_inv st'"
proof -
  from assms(2) obtain k c p where c: "com_communities st k = Some c" "com_pending_owner c = Some p"
    and st': "st' = st\<lparr>com_communities := (com_communities st)(k \<mapsto> c\<lparr>com_owner := p, com_pending_owner := None,
        com_transfer_effective_at := 0, com_updated_at := now env\<rparr>), com_roles := (com_roles st)(k @ p := None)\<rparr>"
    by (auto simp: execute_owner_transfer_def communities_helper_defs)
  have "length p = 25" using inv c by (rule community_pending_address)
  with communities_inv_transfer [OF inv c(1) community_ok_updates(4) [OF communities_invD(1) [OF inv c(1)] c(2)]]
  show ?thesis by (simp add: st')
qed

lemma communities_exec_inv:
  assumes "communities_inv st" and "communities_exec tx st = Inr st'"
  shows "communities_inv st'"
proof (cases "snd tx")
  case (Call_com_set_identity_contract a)
  with assms show ?thesis
    by (auto simp: communities_exec_def com_set_identity_contract_def communities_inv_def role_ok_def)
next
  case (Call_set_label args)
  with assms show ?thesis
    by (auto simp: communities_exec_def set_label_def communities_helper_defs simp del: require_string_Inr)
qed (use assms in \<open>auto simp: communities_exec_def dest: set_role_inv create_community_inv community_policy_inv
    transfer_ops_inv execute_transfer_inv\<close>)

interpretation communities_contract: kept_invariant communities_exec communities_inv
  by unfold_locales (rule communities_exec_inv)

lemma communities_run_inv: "communities_inv (run communities_exec communities_empty cs)"
  by (rule communities_contract.run_keeps) (rule communities_empty_inv)

section \<open>The ownership time lock\<close>

definition community_owner :: "bytes \<Rightarrow> communities_state \<Rightarrow> bytes option" where
  "community_owner i st = map_option com_owner (com_communities st i)"

definition transfer_deadline :: "bytes \<Rightarrow> communities_state \<Rightarrow> u64 option" where
  "transfer_deadline i st = (case com_communities st i of None \<Rightarrow> None
     | Some c \<Rightarrow> if is_empty (com_pending_owner c) then None else Some (com_transfer_effective_at c))"

definition transfer_delay :: "bytes \<Rightarrow> communities_state \<Rightarrow> u64" where
  "transfer_delay i st = (case com_communities st i of None \<Rightarrow> 0 | Some c \<Rightarrow> com_transfer_delay_ms c)"

definition proposes_transfer :: "bytes \<Rightarrow> 'w env \<times> communities_call \<Rightarrow> bool" where
  "proposes_transfer i tx = (case snd tx of
     Call_propose_owner_transfer args \<Rightarrow> po_community_id args = Some i | _ \<Rightarrow> False)"

definition owner_kept :: "bytes \<Rightarrow> 'w env \<times> communities_call \<Rightarrow> communities_state \<Rightarrow> communities_state \<Rightarrow> bool" where
  "owner_kept i tx st st' \<longleftrightarrow>
     (\<forall>v. community_owner i st = Some v \<longrightarrow> community_owner i st' \<noteq> Some v \<longrightarrow>
        (\<exists>d. transfer_deadline i st = Some d \<and> d \<le> now (fst tx))) \<and>
     (\<forall>d. transfer_deadline i st' = Some d \<longrightarrow> transfer_deadline i st = Some d \<or>
        (proposes_transfer i tx \<and> d = now (fst tx) + transfer_delay i st))"

lemma owner_kept_same:
  "com_communities st' = com_communities st \<Longrightarrow> owner_kept i tx st st'"
  by (simp add: owner_kept_def community_owner_def transfer_deadline_def)

lemma owner_kept_update:
  assumes "com_communities st k = Some c0" and "com_communities st' = (com_communities st)(k \<mapsto> c)"
    and "com_owner c = com_owner c0 \<or>
      (\<not> is_empty (com_pending_owner c0) \<and> com_transfer_effective_at c0 \<le> now (fst tx))"
    and "is_empty (com_pending_owner c) \<or>
      (com_pending_owner c = com_pending_owner c0 \<and> com_transfer_effective_at c = com_transfer_effective_at c0) \<or>
      (proposes_transfer k tx \<and> com_transfer_effective_at c = now (fst tx) + com_transfer_delay_ms c0)"
  shows "owner_kept i tx st st'"
proof (cases "i = k")
  case True
  then show ?thesis
    using assms by (auto simp: owner_kept_def community_owner_def transfer_deadline_def transfer_delay_def
        simp del: is_empty_iff split: if_splits)
next
  case False
  then show ?thesis
    using assms(2) by (simp add: owner_kept_def community_owner_def transfer_deadline_def)
qed

lemma owner_kept_create:
  assumes "com_communities st k = None" and "com_communities st' = (com_communities st)(k \<mapsto> c)"
    and "com_pending_owner c = None"
  shows "owner_kept i tx st st'"
  using assms by (auto simp: owner_kept_def community_owner_def transfer_deadline_def split: if_splits)

lemma set_role_communities: "set_role env args st = Inr (st', evs) \<Longrightarrow> com_communities st' = com_communities st"
  by (erule set_role_Inr) simp

lemma set_label_state: "set_label env args st = Inr (st', evs) \<Longrightarrow> st' = st"
  by (auto simp: set_label_def Let_def simp del: require_string_Inr require_bytes_Inr)

lemma owner_kept_step:
  assumes "communities_exec tx st = Inr st'"
  shows "owner_kept i tx st st'"
proof (cases "snd tx")
  case (Call_set_role args)
  with assms show ?thesis
    by (auto simp: communities_exec_def intro!: owner_kept_same dest: set_role_communities)
next
  case (Call_set_label args)
  with assms show ?thesis
    by (auto simp: communities_exec_def intro!: owner_kept_same dest: set_label_state)
next
  case (Call_com_set_identity_contract a)
  with assms show ?thesis
    by (auto simp: communities_exec_def com_set_identity_contract_def intro!: owner_kept_same)
next
  case (Call_create_community args)
  with assms show ?thesis
    by (auto simp: communities_exec_def create_community_def communities_helper_defs simp del: require_string_Inr
        intro!: owner_kept_create)
next
  case (Call_set_policy args)
  with assms show ?thesis
    by (auto simp: communities_exec_def set_policy_def communities_helper_defs simp del: is_empty_iff
        elim!: owner_kept_update)
next
  case (Call_propose_owner_transfer args)
  with assms show ?thesis
    by (auto simp: communities_exec_def propose_owner_transfer_def communities_helper_defs proposes_transfer_def
        elim!: owner_kept_update)
next
  case (Call_cancel_owner_transfer args)
  with assms show ?thesis
    by (auto simp: communities_exec_def cancel_owner_transfer_def communities_helper_defs elim!: owner_kept_update)
next
  case (Call_execute_owner_transfer a)
  with assms show ?thesis
    by (auto simp: communities_exec_def execute_owner_transfer_def communities_helper_defs elim!: owner_kept_update)
qed

interpretation owner_transfer_lock: timelock communities_exec communities_inv "\<lambda>tx. now (fst tx)"
    "community_owner i" "transfer_deadline i" "transfer_delay i" "proposes_transfer i" for i
proof unfold_locales
  fix st st' v d and tx :: "'a env \<times> communities_call"
  assume ex: "communities_exec tx st = Inr st'"
  note kept = owner_kept_step [OF ex, of i, unfolded owner_kept_def]
  show "communities_inv st \<Longrightarrow> communities_inv st'" using ex by (rule communities_exec_inv [rotated])
  show "community_owner i st = Some v \<Longrightarrow> community_owner i st' \<noteq> Some v \<Longrightarrow>
      \<exists>d. transfer_deadline i st = Some d \<and> d \<le> now (fst tx)" using kept by blast
  show "transfer_deadline i st' = Some d \<Longrightarrow> transfer_deadline i st = Some d \<or>
      proposes_transfer i tx \<and> d = now (fst tx) + transfer_delay i st" using kept by blast
qed

text \<open>
  The owner of a community only changes when some earlier ownership proposal for it lies at
  least the community's transfer delay in the past.
\<close>

theorem community_owner_timelock:
  fixes tx :: "'w env \<times> communities_call" and cs :: "('w env \<times> communities_call) list"
  assumes "communities_exec tx (run communities_exec communities_empty cs) = Inr st'"
    and "community_owner i (run communities_exec communities_empty cs) = Some old"
    and "community_owner i st' \<noteq> Some old"
  shows "\<exists>before t after. cs = before @ t # after \<and> proposes_transfer i t \<and>
           now (fst t) + transfer_delay i (run communities_exec communities_empty before) \<le> now (fst tx)"
  by (rule owner_transfer_lock.change_was_announced [OF communities_empty_inv _ assms])
    (simp add: transfer_deadline_def communities_empty_def)

section \<open>Roles\<close>

text \<open>
  Every history keeps communities and roles well formed: a community stands under its own id
  with a 25-byte owner and, if any, a pending owner other than the owner; every stored role
  belongs to an existing community and to an account that is not its owner, and is never the
  owner role, which only comes from the community record.
\<close>

theorem communities_runs_well_formed: "communities_inv (run communities_exec communities_empty cs)"
  by (rule communities_run_inv)

definition is_admin :: "bytes \<Rightarrow> bytes \<Rightarrow> u64 \<Rightarrow> communities_state \<Rightarrow> bool" where
  "is_admin i a t st \<longleftrightarrow> (case com_communities st i of None \<Rightarrow> False
     | Some c \<Rightarrow> effective_rank c a t st \<ge> RANK_ADMIN)"

lemma rank_owner_only:
  assumes "communities_inv st" and "com_communities st i = Some c" and "RANK_OWNER \<le> effective_rank c a t st"
  shows "com_owner c = a"
proof (rule ccontr)
  assume "com_owner c \<noteq> a"
  with assms(3) obtain r where "com_roles st (role_key (com_id c) a) = Some r" "5 \<le> rank (role_role r)"
    by (auto simp: effective_rank_def effective_role_def rank_def community_levels split: option.splits if_splits)
  then have "role_ok st (role_key (com_id c) a) r" using assms(1) by (auto dest: communities_invD)
  then show False using \<open>5 \<le> rank (role_role r)\<close> by (auto simp: role_ok_def rank_def community_levels split: if_splits)
qed

lemma admin_after_role:
  assumes "communities_inv st" and "com_communities st k = Some c" and "length s = 25"
    and "st' = st\<lparr>com_roles := (com_roles st)(role_key k s := v)\<rparr>" and "length a = 25" and "i \<noteq> k \<or> a \<noteq> s"
  shows "is_admin i a t st' = is_admin i a t st"
proof -
  have "role_key i a \<noteq> role_key k s" using assms(3,5,6) by (auto simp: role_key_def)
  moreover have "com_id c' = i" if "com_communities st i = Some c'" for c'
    using communities_invD(1) [OF assms(1) that] by (simp add: community_ok_def)
  ultimately show ?thesis
    by (auto simp: is_admin_def assms(4) effective_rank_def effective_role_def split: option.splits)
qed

text \<open>Rewriting a community without touching its id and owner changes no rank.\<close>

lemma is_admin_put:
  assumes "com_communities st k = Some c0" and "com_owner c = com_owner c0" and "com_id c = com_id c0"
  shows "is_admin i a t (st\<lparr>com_communities := (com_communities st)(k \<mapsto> c)\<rparr>) = is_admin i a t st"
  using assms by (auto simp: is_admin_def effective_rank_def effective_role_def split: option.splits)

lemma is_admin_create:
  "com_communities st k = None \<Longrightarrow> com_communities st i \<noteq> None \<Longrightarrow>
   is_admin i a t (st\<lparr>com_communities := (com_communities st)(k \<mapsto> c)\<rparr>) = is_admin i a t st"
  by (auto simp: is_admin_def effective_rank_def effective_role_def split: option.splits)

lemma create_community_Inr:
  assumes "create_community env args st = Inr (st', evs)"
  obtains k creator c sg where "cc_id args = Some k" "cc_creator args = Some creator" "com_communities st k = None"
      "com_owner c = creator" "com_id c = k" "st' = st\<lparr>com_communities := (com_communities st)(k \<mapsto> c)\<rparr>"
      "require_authorized env (com_identity_contract st) creator None 0 = Inr sg"
  using assms that [of _ _ "\<lparr>com_id = _, com_owner = _, com_name = _, com_policy_hash = _, com_policy_uri = _,
    com_transfer_delay_ms = _, com_pending_owner = None, com_transfer_effective_at = 0, com_created_at = _, com_updated_at = _\<rparr>"]
  by (auto simp: create_community_def communities_helper_defs simp del: require_string_Inr)

text \<open>A community that did not exist has no roles left, so that its creator is the only admin.\<close>

lemma is_admin_new:
  assumes "communities_inv st" and "com_communities st k = None" and "com_id c = k"
    and "is_admin k a t (st\<lparr>com_communities := (com_communities st)(k \<mapsto> c)\<rparr>)" and "length a = 25"
  shows "a = com_owner c"
proof (rule ccontr)
  assume "a \<noteq> com_owner c"
  with assms(3,4) obtain r where "com_roles st (role_key k a) = Some r"
    by (auto simp: is_admin_def effective_rank_def effective_role_def community_levels rank_def split: option.splits if_splits)
  then have "role_ok st (role_key k a) r" using assms(1) by (auto dest: communities_invD)
  with assms(2,5) show False by (auto simp: role_ok_def role_key_def)
qed

lemma is_admin_transfer:
  assumes inv: "communities_inv st" and "com_communities st k = Some c0" and "i \<noteq> k" and "length s = 25" and "length a = 25"
  shows "is_admin i a t (st\<lparr>com_communities := (com_communities st)(k \<mapsto> c),
           com_roles := (com_roles st)(role_key k s := None)\<rparr>) = is_admin i a t st"
proof -
  have "com_id c' = i" if "com_communities st i = Some c'" for c'
    using communities_invD(1) [OF inv that] by (simp add: community_ok_def)
  then show ?thesis
    using assms(3-5) by (auto simp: is_admin_def effective_rank_def effective_role_def role_key_def split: option.splits)
qed

lemma role_change_by_owner:
  assumes inv: "communities_inv st" and ex: "set_role env args st = Inr (st', evs)" and a: "length a = 25"
    and change: "is_admin i a (now env) st' \<noteq> is_admin i a (now env) st"
  shows "sr_community_id args = Some i \<and> sr_subject args = Some a \<and> sr_actor args = community_owner i st \<and>
    (\<exists>sg. require_authorized env (com_identity_contract st) (the (community_owner i st)) (sr_device args)
            CAP_COMMUNITY = Inr sg)"
  using ex
proof (rule set_role_Inr)
  fix k actor subject c v
  assume k: "sr_community_id args = Some k" "sr_actor args = Some actor" "sr_subject args = Some subject"
      "length subject = 25" "com_communities st k = Some c"
      "\<exists>sg. require_authorized env (com_identity_contract st) actor (sr_device args) CAP_COMMUNITY = Inr sg"
    and adm: "RANK_ADMIN \<le> effective_rank c actor (now env) st" "com_owner c \<noteq> subject"
    and limit: "effective_rank c actor (now env) st < RANK_OWNER \<Longrightarrow>
       rank (sr_role args) < RANK_ADMIN \<and> effective_rank c subject (now env) st < RANK_ADMIN"
    and st': "st' = st\<lparr>com_roles := (com_roles st)(role_key k subject := v)\<rparr>"
    and v: "case v of None \<Rightarrow> sr_role args = ROLE_none
     | Some r \<Rightarrow> role_role r = sr_role args \<and> 1 \<le> sr_role args \<and> sr_role args \<le> 6 \<and> sr_role args \<noteq> ROLE_owner"
  have ia: "i = k" "a = subject"
    using admin_after_role [OF inv k(5,4) st' a, of i "now env"] change by blast+
  have idk: "com_id c = k" using communities_invD(1) [OF inv k(5)] by (simp add: community_ok_def)
  have "com_owner c = actor"
  proof (rule ccontr)
    assume "com_owner c \<noteq> actor"
    then have "effective_rank c actor (now env) st < RANK_OWNER"
      using rank_owner_only [OF inv k(5)] by (meson not_less)
    with limit have low: "rank (sr_role args) < RANK_ADMIN" "effective_rank c subject (now env) st < RANK_ADMIN"
      by simp_all
    have "effective_rank c subject (now env) st' < RANK_ADMIN"
      using adm(2) v low(1) by (cases v)
        (auto simp: st' effective_rank_def effective_role_def idk rank_def community_levels split: if_splits)
    with low(2) change k(5) ia show False by (auto simp: is_admin_def st')
  qed
  with ia k show ?thesis by (simp add: community_owner_def)
qed

text \<open>
  C40: Only the owner hands out or takes away the admin rank: whenever a transaction changes
  whether an account has at least the admin rank in a community, it is a \<open>set_role\<close> for
  that account signed for the owner of the community, or the execution of a time-locked
  ownership transfer of that community, or it creates the community and the account is its creator, who signed it.
\<close>

theorem admin_rank_from_owner:
  assumes inv: "communities_inv st" and ex: "communities_exec (env, call) st = Inr st'"
    and a: "length a = 25" and change: "is_admin i a (now env) st' \<noteq> is_admin i a (now env) st"
  shows "(\<exists>args sg. call = Call_set_role args \<and> sr_community_id args = Some i \<and> sr_subject args = Some a \<and>
      sr_actor args = community_owner i st \<and>
      require_authorized env (com_identity_contract st) (the (community_owner i st)) (sr_device args)
        CAP_COMMUNITY = Inr sg) \<or>
    call = Call_execute_owner_transfer (Some i) \<or>
    (\<exists>args sg. call = Call_create_community args \<and> cc_id args = Some i \<and> cc_creator args = Some a \<and>
      com_communities st i = None \<and> require_authorized env (com_identity_contract st) a None 0 = Inr sg)"
proof (cases call)
  case (Call_set_role args)
  with ex obtain evs where "set_role env args st = Inr (st', evs)" by (auto simp: communities_exec_def)
  from role_change_by_owner [OF inv this a change] Call_set_role show ?thesis by blast
next
  case (Call_execute_owner_transfer b)
  with ex obtain k c p where b: "b = Some k" and c: "com_communities st k = Some c" "com_pending_owner c = Some p"
    and st': "st' = st\<lparr>com_communities := (com_communities st)(k \<mapsto> c\<lparr>com_owner := p, com_pending_owner := None,
        com_transfer_effective_at := 0, com_updated_at := now env\<rparr>), com_roles := (com_roles st)(role_key k p := None)\<rparr>"
    by (auto simp: communities_exec_def execute_owner_transfer_def communities_helper_defs)
  have "length p = 25" using inv c by (rule community_pending_address)
  with change is_admin_transfer [OF inv c(1) _ _ a, of i p "now env"] have "i = k" unfolding st' by blast
  with b Call_execute_owner_transfer show ?thesis by simp
next
  case (Call_set_label args)
  with ex change show ?thesis by (auto simp: communities_exec_def dest: set_label_state)
next
  case (Call_com_set_identity_contract b)
  with ex have "com_communities st' = com_communities st" "com_roles st' = com_roles st"
    by (auto simp: communities_exec_def com_set_identity_contract_def)
  then have "is_admin i a t st' = is_admin i a t st" for t
    by (simp add: is_admin_def effective_rank_def effective_role_def split: option.split)
  with change show ?thesis by blast
next
  case (Call_create_community args)
  with ex obtain evs where "create_community env args st = Inr (st', evs)" by (auto simp: communities_exec_def)
  then obtain k creator c sg where k: "cc_id args = Some k" "cc_creator args = Some creator" "com_communities st k = None"
      "com_owner c = creator" "com_id c = k" "st' = st\<lparr>com_communities := (com_communities st)(k \<mapsto> c)\<rparr>"
      "require_authorized env (com_identity_contract st) creator None 0 = Inr sg"
    by (rule create_community_Inr)
  show ?thesis
  proof (cases "i = k")
    case True
    have "is_admin k a (now env) st' \<Longrightarrow> a = creator"
      using is_admin_new [OF inv k(3,5), of a "now env"] k(4,6) a by simp
    with change True k Call_create_community show ?thesis by (auto simp: is_admin_def)
  next
    case False
    with change k is_admin_create [of st k i a "now env" c] show ?thesis
      by (cases "com_communities st i") (auto simp: is_admin_def)
  qed
next
  case (Call_set_policy args)
  with ex have "is_admin i a t st' = is_admin i a t st" for t
    by (auto simp: communities_exec_def set_policy_def communities_helper_defs is_admin_put)
  with change show ?thesis by blast
next
  case (Call_propose_owner_transfer args)
  with ex have "is_admin i a t st' = is_admin i a t st" for t
    by (auto simp: communities_exec_def propose_owner_transfer_def communities_helper_defs is_admin_put)
  with change show ?thesis by blast
next
  case (Call_cancel_owner_transfer args)
  with ex have "is_admin i a t st' = is_admin i a t st" for t
    by (auto simp: communities_exec_def cancel_owner_transfer_def communities_helper_defs is_admin_put)
  with change show ?thesis by blast
qed

section \<open>Witnesses\<close>

text \<open>A community whose owner appoints an admin and then hands the community over.\<close>

definition demo_community_txs :: "(unit env \<times> communities_call) list" where
  "demo_community_txs =
     [(open_env 10, Call_com_set_identity_contract (Some (sample_addr 100))),
      (open_env 20, Call_create_community \<lparr>cc_creator = Some (sample_addr 1), cc_id = Some [9], cc_name = Some [65],
         cc_policy_hash = None, cc_policy_uri = None, cc_transfer_delay_ms = 500, cc_device = None\<rparr>)]"

definition demo_transfer :: "(unit env \<times> communities_call) list" where
  "demo_transfer = [(open_env 30, Call_propose_owner_transfer \<lparr>po_community_id = Some [9],
     po_owner = Some (sample_addr 1), po_new_owner = Some (sample_addr 2)\<rparr>)]"

definition demo_community :: "byte \<Rightarrow> bytes option \<Rightarrow> u64 \<Rightarrow> u64 \<Rightarrow> community_record" where
  "demo_community n p e u = \<lparr>com_id = [9], com_owner = sample_addr n, com_name = [65], com_policy_hash = None,
     com_policy_uri = None, com_transfer_delay_ms = 500, com_pending_owner = p, com_transfer_effective_at = e,
     com_created_at = 20, com_updated_at = u\<rparr>"

lemmas communities_eval = communities_exec_def communities_op_defs communities_helper_defs require_bytes_def
  require_string_def optional_policy_hash_def optional_policy_uri_def optional_scope_def com_identity_contract_def
  effective_rank_def effective_role_def rank_def community_levels ID_MAX_LENGTH_def NAME_MAX_LENGTH_def
  POLICY_URI_MAX_LENGTH_def TRANSFER_DELAY_MAX_MS_def word_le_nat_alt word_less_nat_alt require_community_def

lemma demo_community_run:
  "run communities_exec communities_empty demo_community_txs =
     \<lparr>com_communities = [[9] \<mapsto> demo_community 1 None 0 20], com_roles = Map.empty, com_config = Some (Some (sample_addr 100))\<rparr>"
  by (simp add: demo_community_txs_def communities_empty_def communities_eval demo_community_def)

lemma demo_transfer_run:
  "run communities_exec communities_empty (demo_community_txs @ demo_transfer) =
     \<lparr>com_communities = [[9] \<mapsto> demo_community 1 (Some (sample_addr 2)) 530 30], com_roles = Map.empty,
      com_config = Some (Some (sample_addr 100))\<rparr>"
  by (simp add: run_append demo_community_run demo_transfer_def communities_eval demo_community_def)

lemma demo_execute_transfer:
  "communities_exec (open_env 530, Call_execute_owner_transfer (Some [9]))
     (run communities_exec communities_empty (demo_community_txs @ demo_transfer)) =
   Inr \<lparr>com_communities = [[9] \<mapsto> demo_community 2 None 0 530], com_roles = Map.empty,
      com_config = Some (Some (sample_addr 100))\<rparr>"
  by (simp add: demo_transfer_run communities_eval demo_community_def)

theorem community_owner_timelock_witness:
  "\<exists>before t after. demo_community_txs @ demo_transfer = before @ t # after \<and> proposes_transfer [9] t \<and>
     now (fst t) + transfer_delay [9] (run communities_exec communities_empty before) \<le> 530"
  using community_owner_timelock [OF demo_execute_transfer, of "[9]" "sample_addr 1"]
  by (simp add: demo_transfer_run community_owner_def demo_community_def)

definition demo_appoint :: set_role_arguments where
  "demo_appoint = \<lparr>sr_community_id = Some [9], sr_actor = Some (sample_addr 1), sr_subject = Some (sample_addr 3),
     sr_role = 4, sr_scope = None, sr_expires_at = 0, sr_device = None\<rparr>"

theorem admin_rank_from_owner_witness:
  "\<exists>sg. require_authorized (open_env 40 :: unit env) (sample_addr 100) (sample_addr 1) None CAP_COMMUNITY = Inr sg"
proof -
  let ?st = "run communities_exec communities_empty demo_community_txs"
  obtain st' where ex: "communities_exec (open_env 40 :: unit env, Call_set_role demo_appoint) ?st = Inr st'"
    and "is_admin [9] (sample_addr 3) 40 st' \<noteq> is_admin [9] (sample_addr 3) 40 ?st"
    by (simp add: demo_community_run demo_appoint_def communities_eval demo_community_def is_admin_def)
  with admin_rank_from_owner [OF communities_run_inv ex, of "[9]" "sample_addr 3"]
  show ?thesis by (simp add: demo_community_run community_owner_def demo_community_def com_identity_contract_def demo_appoint_def)
qed

end
