(* ===== verification/Messaging.thy ===== *)
theory Messaging
  imports Actor Timelock
begin

text \<open>
  The messaging contract, \<open>packages/contracts/messaging/assembly/Messaging.ts\<close>: conversations
  that need an invitation and its acceptance, and encrypted messages inside them. The first part
  is the contract as written; the second shows what every stored message presupposes.
\<close>

section \<open>State objects\<close>

text \<open>
  The stored records always carry their addresses, identifiers and hashes; the status is the wire
  integer: 1 requested, 2 accepted, 3 closed.
\<close>

record conversation_record =
  conv_a :: bytes
  conv_b :: bytes
  requester :: bytes
  conv_status :: u32
  generation :: u64
  conv_sequence :: u64
  conv_updated_at :: u64

record message_record =
  msg_sender :: bytes
  msg_recipient :: bytes
  msg_id :: bytes
  msg_content_hash :: bytes
  msg_generation :: u64
  msg_sequence :: u64
  msg_timestamp :: u64

record messaging_dependencies =
  md_identity :: bytes
  md_relationships :: bytes
  md_token :: bytes

record messaging_state =
  msg_config :: "messaging_dependencies option"
  conversations :: "bytes \<rightharpoonup> conversation_record"
  messages :: "bytes \<rightharpoonup> message_record"

definition messaging_empty :: messaging_state where
  "messaging_empty = \<lparr>msg_config = None, conversations = Map.empty, messages = Map.empty\<rparr>"

section \<open>Arguments and events\<close>

record set_dependencies_arguments =
  sd_identity :: "bytes option"
  sd_relationships :: "bytes option"
  sd_token :: "bytes option"

record conversation_arguments =
  ca_actor :: "bytes option"
  ca_peer :: "bytes option"
  ca_device :: "bytes option"
  ca_generation :: u64

record send_message_arguments =
  sm_sender :: "bytes option"
  sm_recipient :: "bytes option"
  sm_device :: "bytes option"
  sm_message_id :: "bytes option"
  sm_generation :: u64
  sm_envelope :: "bytes option"

datatype messaging_event =
    Conversation_changed conversation_record u64
  | Message_sent message_record bytes u64

type_synonym 'w messaging_outcome = "(('w \<times> messaging_state) \<times> messaging_event emitted list) result"

section \<open>Helpers\<close>

definition msg_pair :: "bytes \<Rightarrow> bytes \<Rightarrow> bytes" where
  "msg_pair a b = (if compare a b < 0 then concat_parts [a, b] else concat_parts [b, a])"

definition deps :: "messaging_state \<Rightarrow> messaging_dependencies result" where
  "deps st = require (msg_config st \<noteq> None) ''messaging not configured'' (non_null (msg_config st) ''c'')"

definition set_dependencies ::
  "'w env \<Rightarrow> set_dependencies_arguments \<Rightarrow> messaging_state \<Rightarrow> (messaging_state \<times> messaging_event emitted list) result" where
  "set_dependencies env args st =
     require_authority env (contract_id env)
     (attempt (require_address (sd_identity args) ''identity'') (\<lambda>identity.
      attempt (require_address (sd_relationships args) ''relationships'') (\<lambda>relationships.
      attempt (require_address (sd_token args) ''token'') (\<lambda>token.
      Inr (st\<lparr>msg_config := Some \<lparr>md_identity = identity, md_relationships = relationships, md_token = token\<rparr>\<rparr>, [])))))"

definition msg_get_dependencies :: "messaging_state \<Rightarrow> messaging_dependencies result" where
  "msg_get_dependencies st = deps st"

text \<open>The loop over the two directions of the block check.\<close>

fun unblocked_loop :: "'w env \<Rightarrow> bytes \<Rightarrow> (bytes \<times> bytes) list \<Rightarrow> unit result" where
  "unblocked_loop env rel [] = Inr ()"
| "unblocked_loop env rel ((x, y) # rest) =
     (case call_is_blocked env rel x y of
        Call_Object value \<Rightarrow> require (\<not> value) ''conversation blocked'' (unblocked_loop env rel rest)
      | _ \<Rightarrow> Inl (Revert ''block check failed''))"

definition unblocked :: "'w env \<Rightarrow> bytes \<Rightarrow> bytes \<Rightarrow> messaging_state \<Rightarrow> unit result" where
  "unblocked env a b st = attempt (deps st) (\<lambda>d. unblocked_loop env (md_relationships d) [(a, b), (b, a)])"

definition authorize :: "'w env \<Rightarrow> bytes \<Rightarrow> bytes \<Rightarrow> bytes option \<Rightarrow> messaging_state \<Rightarrow> bytes result" where
  "authorize env a b device st =
     attempt (require_address (Some a) ''actor'') (\<lambda>_.
     attempt (require_address (Some b) ''peer'') (\<lambda>_.
     require (a \<noteq> b) ''cannot message yourself''
    (attempt (deps st) (\<lambda>d.
     require_authorized env (md_identity d) a device CAP_MESSAGING))))"

definition msg_consume :: "'w env \<Rightarrow> bytes \<Rightarrow> messaging_state \<Rightarrow> 'w \<Rightarrow> 'w result" where
  "msg_consume env a st w =
     attempt (deps st) (\<lambda>d.
     case call_consume env (md_token d) a 1 w of
       None \<Rightarrow> Inl (Revert ''usage allowance exhausted'')
     | Some w' \<Rightarrow> Inr w')"

definition conversation_event :: "'w env \<Rightarrow> conversation_record \<Rightarrow> messaging_event emitted" where
  "conversation_event env c = (Conversation_changed c (now env), [conv_a c, conv_b c])"

section \<open>Operations\<close>

definition request_conversation :: "'w env \<Rightarrow> conversation_arguments \<Rightarrow> 'w \<times> messaging_state \<Rightarrow> 'w messaging_outcome" where
  "request_conversation env args s =
     (let (w, st) = s in
      attempt (require_address (ca_actor args) ''actor'') (\<lambda>a.
      attempt (require_address (ca_peer args) ''peer'') (\<lambda>b.
      attempt (authorize env a b (ca_device args) st) (\<lambda>_.
      attempt (unblocked env a b st) (\<lambda>_.
      attempt (deps st) (\<lambda>d.
      attempt (actor_exists env (md_identity d) b) (\<lambda>registered.
      require registered ''peer not registered''
     (let key = msg_pair a b; old = conversations st key in
      require (old = None \<or> conv_status (the old) = 3) ''conversation already requested or accepted''
     (require (ca_generation args = (case old of None \<Rightarrow> 0 | Some c \<Rightarrow> generation c)) ''conversation changed; refresh''
     (require (ca_generation args < - 1) ''conversation generation exhausted''
     (attempt (msg_consume env a st w) (\<lambda>w'.
      let c = \<lparr>conv_a = (if compare a b < 0 then a else b), conv_b = (if compare a b < 0 then b else a),
               requester = a, conv_status = 1, generation = ca_generation args + 1,
               conv_sequence = (case old of None \<Rightarrow> 0 | Some c \<Rightarrow> conv_sequence c), conv_updated_at = now env\<rparr>
      in Inr ((w', st\<lparr>conversations := (conversations st)(key \<mapsto> c)\<rparr>), [conversation_event env c])))))))))))))"

definition accept_conversation :: "'w env \<Rightarrow> conversation_arguments \<Rightarrow> messaging_state \<Rightarrow>
    (messaging_state \<times> messaging_event emitted list) result" where
  "accept_conversation env args st =
     attempt (require_address (ca_actor args) ''actor'') (\<lambda>a.
     attempt (require_address (ca_peer args) ''peer'') (\<lambda>b.
     attempt (authorize env a b (ca_device args) st) (\<lambda>_.
     attempt (unblocked env a b st) (\<lambda>_.
     let key = msg_pair a b; c = conversations st key in
     require (c \<noteq> None \<and> conv_status (the c) = 1 \<and> generation (the c) = ca_generation args) ''no matching invitation''
    (attempt (non_null c ''c'') (\<lambda>conv.
     require (requester conv = b) ''only the recipient may accept''
    (let c' = conv\<lparr>conv_status := 2, conv_updated_at := now env\<rparr>
     in Inr (st\<lparr>conversations := (conversations st)(key \<mapsto> c')\<rparr>, [conversation_event env c']))))))))"

definition close_conversation :: "'w env \<Rightarrow> conversation_arguments \<Rightarrow> messaging_state \<Rightarrow>
    (messaging_state \<times> messaging_event emitted list) result" where
  "close_conversation env args st =
     attempt (require_address (ca_actor args) ''actor'') (\<lambda>a.
     attempt (require_address (ca_peer args) ''peer'') (\<lambda>b.
     attempt (authorize env a b (ca_device args) st) (\<lambda>_.
     let key = msg_pair a b; c = conversations st key in
     require (c \<noteq> None \<and> generation (the c) = ca_generation args) ''conversation changed; refresh''
    (attempt (non_null c ''c'') (\<lambda>conv.
     let c' = conv\<lparr>conv_status := 3, conv_updated_at := now env\<rparr>
     in Inr (st\<lparr>conversations := (conversations st)(key \<mapsto> c')\<rparr>, [conversation_event env c']))))))"

text \<open>
  A retry with the same identifier answers with the stored message and writes nothing.
\<close>

definition send_message :: "'w env \<Rightarrow> send_message_arguments \<Rightarrow> 'w \<times> messaging_state \<Rightarrow>
    ((('w \<times> messaging_state) \<times> message_record) \<times> messaging_event emitted list) result" where
  "send_message env args s =
     (let (w, st) = s in
      attempt (require_address (sm_sender args) ''sender'') (\<lambda>a.
      attempt (require_address (sm_recipient args) ''recipient'') (\<lambda>b.
      attempt (authorize env a b (sm_device args) st) (\<lambda>_.
      attempt (require_bytes (sm_message_id args) 32 ''message id'') (\<lambda>mid.
      require (length mid = 32) ''message id must be 32 bytes''
     (attempt (require_bytes (sm_envelope args) 4096 ''encrypted envelope'') (\<lambda>envelope.
      let hash = drop 2 (hash_sha256 env envelope); key = concat_parts [a, mid] in
      case messages st key of
        Some existing \<Rightarrow>
          require (msg_recipient existing = b \<and> msg_generation existing = sm_generation args \<and>
                   msg_content_hash existing = hash)
            ''message id already used for different content''
          (Inr (((w, st), existing), []))
      | None \<Rightarrow>
          attempt (unblocked env a b st) (\<lambda>_.
          let pair = msg_pair a b; c = conversations st pair in
          require (c \<noteq> None \<and> conv_status (the c) = 2 \<and> generation (the c) = sm_generation args)
            ''recipient must accept this conversation first''
         (attempt (non_null c ''c'') (\<lambda>conv.
          require (conv_sequence conv < - 1) ''message sequence exhausted''
         (attempt (msg_consume env a st w) (\<lambda>w'.
          let c' = conv\<lparr>conv_sequence := conv_sequence conv + 1, conv_updated_at := now env\<rparr>;
              m = \<lparr>msg_sender = a, msg_recipient = b, msg_id = mid, msg_content_hash = hash,
                   msg_generation = sm_generation args, msg_sequence = conv_sequence c', msg_timestamp = now env\<rparr>;
              st' = st\<lparr>conversations := (conversations st)(pair \<mapsto> c'), messages := (messages st)(key \<mapsto> m)\<rparr>
          in Inr (((w', st'), m), [(Message_sent m envelope (now env), [a, b])])))))))))))))"

section \<open>Reads\<close>

definition get_conversation :: "bytes option \<Rightarrow> bytes option \<Rightarrow> messaging_state \<Rightarrow> conversation_record option result" where
  "get_conversation a b st =
     attempt (require_address a ''a'') (\<lambda>x. attempt (require_address b ''b'') (\<lambda>y.
     Inr (conversations st (msg_pair x y))))"

definition get_message :: "bytes option \<Rightarrow> bytes option \<Rightarrow> messaging_state \<Rightarrow> message_record option result" where
  "get_message sender message_id st =
     attempt (require_address sender ''sender'') (\<lambda>a. attempt (require_bytes message_id 32 ''message id'') (\<lambda>mid.
     Inr (messages st (concat_parts [a, mid]))))"

section \<open>The contract as a transition system\<close>

datatype messaging_call =
    Call_set_dependencies set_dependencies_arguments
  | Call_request_conversation conversation_arguments
  | Call_accept_conversation conversation_arguments
  | Call_close_conversation conversation_arguments
  | Call_send_message send_message_arguments

fun messaging_step :: "'w env \<Rightarrow> messaging_call \<Rightarrow> 'w \<times> messaging_state \<Rightarrow> 'w messaging_outcome" where
  "messaging_step env (Call_set_dependencies args) s = local_op (set_dependencies env args) s"
| "messaging_step env (Call_request_conversation args) s = request_conversation env args s"
| "messaging_step env (Call_accept_conversation args) s = local_op (accept_conversation env args) s"
| "messaging_step env (Call_close_conversation args) s = local_op (close_conversation env args) s"
| "messaging_step env (Call_send_message args) s =
     attempt (send_message env args s) (\<lambda>((s', m), evs). Inr (s', evs))"

definition messaging_exec :: "'w env \<times> messaging_call \<Rightarrow> 'w \<times> messaging_state \<Rightarrow> ('w \<times> messaging_state) result" where
  "messaging_exec tx s = map_sum id fst (messaging_step (fst tx) (snd tx) s)"

abbreviation msg_after :: "'w \<Rightarrow> ('w env \<times> messaging_call) list \<Rightarrow> messaging_state" where
  "msg_after w cs \<equiv> snd (run messaging_exec (w, messaging_empty) cs)"

section \<open>What a success says\<close>

lemma authorize_Inr [simp, inversion]:
  "authorize env a b dev st = Inr sg \<longleftrightarrow> length a = 25 \<and> length b = 25 \<and> a \<noteq> b \<and>
     (\<exists>d. msg_config st = Some d \<and> require_authorized env (md_identity d) a dev CAP_MESSAGING = Inr sg)"
  by (auto simp: authorize_def deps_def)

lemma unblocked_loop_Inr [simp]:
  "unblocked_loop env rel xs = Inr () \<longleftrightarrow> (\<forall>(x, y) \<in> set xs. call_is_blocked env rel x y = Call_Object False)"
  by (induction xs) (auto split: call_result.splits)

lemma unblocked_Inr [simp, inversion]:
  "unblocked env a b st = Inr () \<longleftrightarrow> (\<exists>d. msg_config st = Some d \<and>
     call_is_blocked env (md_relationships d) a b = Call_Object False \<and>
     call_is_blocked env (md_relationships d) b a = Call_Object False)"
  by (auto simp: unblocked_def deps_def simp del: unblocked_loop.simps)

lemma msg_consume_Inr [simp, inversion]:
  "msg_consume env a st w = Inr w' \<longleftrightarrow> (\<exists>d. msg_config st = Some d \<and> call_consume env (md_token d) a 1 w = Some w')"
  by (auto simp: msg_consume_def deps_def split: option.splits)

lemma request_conversation_Inr:
  assumes "request_conversation env args (w, st) = Inr ((w', st'), evs)"
  obtains a b d old c where "ca_actor args = Some a" "ca_peer args = Some b" "length a = 25" "length b = 25" "a \<noteq> b"
    "msg_config st = Some d" "\<exists>sg. require_authorized env (md_identity d) a (ca_device args) CAP_MESSAGING = Inr sg"
    "actor_exists env (md_identity d) b = Inr True"
    "call_is_blocked env (md_relationships d) a b = Call_Object False"
    "call_is_blocked env (md_relationships d) b a = Call_Object False"
    "old = conversations st (msg_pair a b)" "old = None \<or> conv_status (the old) = 3"
    "ca_generation args = (case old of None \<Rightarrow> 0 | Some c \<Rightarrow> generation c)" "ca_generation args < - 1"
    "call_consume env (md_token d) a 1 w = Some w'"
    "c = \<lparr>conv_a = (if compare a b < 0 then a else b), conv_b = (if compare a b < 0 then b else a),
       requester = a, conv_status = 1, generation = ca_generation args + 1,
       conv_sequence = (case old of None \<Rightarrow> 0 | Some c \<Rightarrow> conv_sequence c), conv_updated_at = now env\<rparr>"
    "st' = st\<lparr>conversations := (conversations st)(msg_pair a b \<mapsto> c)\<rparr>"
  using assms by (auto simp: request_conversation_def deps_def Let_def)

lemma accept_conversation_Inr:
  assumes "accept_conversation env args st = Inr (st', evs)"
  obtains a b d c where "ca_actor args = Some a" "ca_peer args = Some b" "length a = 25" "length b = 25" "a \<noteq> b"
    "msg_config st = Some d" "\<exists>sg. require_authorized env (md_identity d) a (ca_device args) CAP_MESSAGING = Inr sg"
    "call_is_blocked env (md_relationships d) a b = Call_Object False"
    "call_is_blocked env (md_relationships d) b a = Call_Object False"
    "conversations st (msg_pair a b) = Some c" "conv_status c = 1" "generation c = ca_generation args" "requester c = b"
    "st' = st\<lparr>conversations := (conversations st)(msg_pair a b \<mapsto> c\<lparr>conv_status := 2, conv_updated_at := now env\<rparr>)\<rparr>"
  using assms by (auto simp: accept_conversation_def Let_def)

lemma close_conversation_Inr:
  assumes "close_conversation env args st = Inr (st', evs)"
  obtains a b d c where "ca_actor args = Some a" "ca_peer args = Some b" "length a = 25" "length b = 25" "a \<noteq> b"
    "msg_config st = Some d" "\<exists>sg. require_authorized env (md_identity d) a (ca_device args) CAP_MESSAGING = Inr sg"
    "conversations st (msg_pair a b) = Some c" "generation c = ca_generation args"
    "st' = st\<lparr>conversations := (conversations st)(msg_pair a b \<mapsto> c\<lparr>conv_status := 3, conv_updated_at := now env\<rparr>)\<rparr>"
  using assms by (auto simp: close_conversation_def Let_def)

text \<open>A send either repeats a stored message or stores a new one.\<close>

lemma send_message_cases [consumes 1, case_names retry fresh]:
  assumes "send_message env args (w, st) = Inr (((w', st'), m), evs)"
  obtains (retry) a b d mid env_bytes where "sm_sender args = Some a" "sm_recipient args = Some b" "length a = 25" "length b = 25" "a \<noteq> b"
    "msg_config st = Some d" "\<exists>sg. require_authorized env (md_identity d) a (sm_device args) CAP_MESSAGING = Inr sg"
    "sm_message_id args = Some mid" "length mid = 32" "sm_envelope args = Some env_bytes"
    "messages st (a @ mid) = Some m" "msg_recipient m = b" "msg_generation m = sm_generation args"
    "msg_content_hash m = drop 2 (hash_sha256 env env_bytes)" "w' = w" "st' = st" "evs = []"
  | (fresh) a b d mid env_bytes c where "sm_sender args = Some a" "sm_recipient args = Some b" "length a = 25" "length b = 25" "a \<noteq> b"
    "msg_config st = Some d" "\<exists>sg. require_authorized env (md_identity d) a (sm_device args) CAP_MESSAGING = Inr sg"
    "sm_message_id args = Some mid" "length mid = 32" "sm_envelope args = Some env_bytes"
    "env_bytes \<noteq> []" "length env_bytes \<le> 4096" "messages st (a @ mid) = None"
    "call_is_blocked env (md_relationships d) a b = Call_Object False"
    "call_is_blocked env (md_relationships d) b a = Call_Object False"
    "conversations st (msg_pair a b) = Some c" "conv_status c = 2" "generation c = sm_generation args" "conv_sequence c < - 1"
    "call_consume env (md_token d) a 1 w = Some w'"
    "m = \<lparr>msg_sender = a, msg_recipient = b, msg_id = mid, msg_content_hash = drop 2 (hash_sha256 env env_bytes),
       msg_generation = sm_generation args, msg_sequence = conv_sequence c + 1, msg_timestamp = now env\<rparr>"
    "st' = st\<lparr>conversations := (conversations st)(msg_pair a b \<mapsto> c\<lparr>conv_sequence := conv_sequence c + 1, conv_updated_at := now env\<rparr>),
       messages := (messages st)(a @ mid \<mapsto> m)\<rparr>"
    "evs = [(Message_sent m env_bytes (now env), [a, b])]"
proof -
  from assms obtain a b d mid env_bytes where base: "sm_sender args = Some a" "sm_recipient args = Some b"
    "length a = 25" "length b = 25" "a \<noteq> b" "msg_config st = Some d"
    "\<exists>sg. require_authorized env (md_identity d) a (sm_device args) CAP_MESSAGING = Inr sg"
    "sm_message_id args = Some mid" "length mid = 32" "sm_envelope args = Some env_bytes" "env_bytes \<noteq> []" "length env_bytes \<le> 4096"
    by (auto simp: send_message_def Let_def)
  then have ne: "mid \<noteq> []" by auto
  show thesis
  proof (cases "messages st (a @ mid)")
    case (Some x)
    with assms base ne show thesis by (intro retry [OF base(1-10)]) (auto simp: send_message_def Let_def)
  next
    case None
    from assms base ne None obtain c where
      "call_is_blocked env (md_relationships d) a b = Call_Object False"
      "call_is_blocked env (md_relationships d) b a = Call_Object False"
      "conversations st (msg_pair a b) = Some c" "conv_status c = 2" "generation c = sm_generation args" "conv_sequence c < - 1"
      "call_consume env (md_token d) a 1 w = Some w'"
      "m = \<lparr>msg_sender = a, msg_recipient = b, msg_id = mid, msg_content_hash = drop 2 (hash_sha256 env env_bytes),
         msg_generation = sm_generation args, msg_sequence = conv_sequence c + 1, msg_timestamp = now env\<rparr>"
      "st' = st\<lparr>conversations := (conversations st)(msg_pair a b \<mapsto> c\<lparr>conv_sequence := conv_sequence c + 1, conv_updated_at := now env\<rparr>),
         messages := (messages st)(a @ mid \<mapsto> m)\<rparr>"
      "evs = [(Message_sent m env_bytes (now env), [a, b])]"
      by (auto simp: send_message_def Let_def)
    with base None show thesis by (intro fresh) 
  qed
qed

lemma set_dependencies_Inr:
  "set_dependencies env args st = Inr (st', evs) \<Longrightarrow> conversations st' = conversations st \<and> messages st' = messages st"
  by (auto simp: set_dependencies_def)

section \<open>Well-formed conversations\<close>

lemma msg_pair_min_max: "msg_pair a b = min a b @ max a b"
  by (auto simp: msg_pair_def min_def max_def)

lemma msg_pair_commute: "msg_pair a b = msg_pair b a"
  by (simp add: msg_pair_min_max min.commute max.commute)

lemma msg_pair_eq:
  assumes "length a = 25" and "length b = 25" and "length c = 25" and "length d = 25"
  shows "msg_pair a b = msg_pair c d \<longleftrightarrow> {a, b} = {c, d}"
proof -
  have "length (min a b) = length (min c d)" using assms by (simp add: min_def)
  then have "msg_pair a b = msg_pair c d \<longleftrightarrow> min a b = min c d \<and> max a b = max c d"
    by (simp add: msg_pair_min_max)
  also have "\<dots> \<longleftrightarrow> {a, b} = {c, d}" by (auto simp: min_def max_def doubleton_eq_iff)
  finally show ?thesis .
qed

definition conversation_ok :: "bytes \<Rightarrow> conversation_record \<Rightarrow> bool" where
  "conversation_ok k c \<longleftrightarrow> length (conv_a c) = 25 \<and> length (conv_b c) = 25 \<and> conv_a c < conv_b c \<and>
     k = conv_a c @ conv_b c \<and> requester c \<in> {conv_a c, conv_b c} \<and> conv_status c \<in> {1, 2, 3} \<and> 1 \<le> generation c"

text \<open>
  A message stands under its sender and identifier, belongs to the conversation of its two
  parties, and its generation and sequence number are not ahead of it.
\<close>

definition message_ok :: "messaging_state \<Rightarrow> bytes \<Rightarrow> message_record \<Rightarrow> bool" where
  "message_ok st k m \<longleftrightarrow> k = msg_sender m @ msg_id m \<and> length (msg_sender m) = 25 \<and> length (msg_recipient m) = 25 \<and>
     msg_sender m \<noteq> msg_recipient m \<and> length (msg_id m) = 32 \<and>
     (\<exists>c. conversations st (msg_pair (msg_sender m) (msg_recipient m)) = Some c \<and>
        msg_generation m \<le> generation c \<and> 1 \<le> msg_sequence m \<and> msg_sequence m \<le> conv_sequence c)"

definition sequences_distinct :: "messaging_state \<Rightarrow> bool" where
  "sequences_distinct st \<longleftrightarrow> (\<forall>k k' m m'. messages st k = Some m \<longrightarrow> messages st k' = Some m' \<longrightarrow>
     msg_pair (msg_sender m) (msg_recipient m) = msg_pair (msg_sender m') (msg_recipient m') \<longrightarrow>
     msg_sequence m = msg_sequence m' \<longrightarrow> k = k')"

definition messaging_inv :: "messaging_state \<Rightarrow> bool" where
  "messaging_inv st \<longleftrightarrow> (\<forall>k c. conversations st k = Some c \<longrightarrow> conversation_ok k c) \<and>
     (\<forall>k m. messages st k = Some m \<longrightarrow> message_ok st k m) \<and> sequences_distinct st"

lemma messaging_empty_inv: "messaging_inv messaging_empty"
  by (simp add: messaging_inv_def messaging_empty_def sequences_distinct_def)

text \<open>A write to one conversation that moves nothing back keeps the messages well formed.\<close>

definition conversation_grows :: "conversation_record option \<Rightarrow> conversation_record \<Rightarrow> bool" where
  "conversation_grows old c \<longleftrightarrow> (\<forall>o'. old = Some o' \<longrightarrow> generation o' \<le> generation c \<and> conv_sequence o' \<le> conv_sequence c)"

lemma put_conversation_inv:
  assumes inv: "messaging_inv st" and grows: "conversation_grows (conversations st k) c" and ok: "conversation_ok k c"
    and conv: "conversations st' = (conversations st)(k \<mapsto> c)" and same: "messages st' = messages st"
  shows "messaging_inv st'"
proof -
  have "message_ok st' k' m" if "messages st k' = Some m" for k' m
  proof -
    have "message_ok st k' m" using inv that by (simp add: messaging_inv_def)
    then show ?thesis using grows by (auto simp: message_ok_def conv conversation_grows_def intro: order_trans)
  qed
  then show ?thesis using inv ok by (auto simp: messaging_inv_def conv same sequences_distinct_def)
qed

text \<open>In particular a write that touches only the status, the time and the sequence number.\<close>

lemma touch_conversation_inv:
  assumes inv: "messaging_inv st" and c: "conversations st k = Some c"
    and same: "conv_a c' = conv_a c" "conv_b c' = conv_b c" "requester c' = requester c" "generation c' = generation c"
    and "conv_status c' \<in> {1, 2, 3}" and "conv_sequence c \<le> conv_sequence c'"
    and "conversations st' = (conversations st)(k \<mapsto> c')" and "messages st' = messages st"
  shows "messaging_inv st'"
proof (rule put_conversation_inv [OF inv _ _ assms(9,10)])
  show "conversation_grows (conversations st k) c'" using c same(4) assms(8) by (simp add: conversation_grows_def)
  have "conversation_ok k c" using inv c by (simp add: messaging_inv_def)
  then show "conversation_ok k c'" using same assms(7) by (simp add: conversation_ok_def)
qed

lemma word_inc_le: "x < - 1 \<Longrightarrow> x \<le> x + 1" for x :: u64
  using unat_inc [of x] word_below_max [of x] by (simp add: word_le_nat_alt)

lemma word_inc_less: "x < - 1 \<Longrightarrow> x < x + 1" for x :: u64
  using unat_inc [of x] word_below_max [of x] by (simp add: word_less_nat_alt)

lemma word_inc_pos: "x < - 1 \<Longrightarrow> 1 \<le> x + 1" for x :: u64
  using unat_inc [of x] word_below_max [of x] by (simp add: word_le_nat_alt)

lemma request_conversation_inv:
  assumes inv: "messaging_inv st" and ok: "request_conversation env args (w, st) = Inr ((w', st'), evs)"
  shows "messaging_inv st'"
  using ok
proof (rule request_conversation_Inr)
  fix a b old c
  assume ab: "length a = 25" "length b = 25" "a \<noteq> b" and old: "old = conversations st (msg_pair a b)"
    and g: "ca_generation args = (case old of None \<Rightarrow> 0 | Some c \<Rightarrow> generation c)" "ca_generation args < - 1"
    and c: "c = \<lparr>conv_a = (if compare a b < 0 then a else b), conv_b = (if compare a b < 0 then b else a),
       requester = a, conv_status = 1, generation = ca_generation args + 1,
       conv_sequence = (case old of None \<Rightarrow> 0 | Some c \<Rightarrow> conv_sequence c), conv_updated_at = now env\<rparr>"
    and st': "st' = st\<lparr>conversations := (conversations st)(msg_pair a b \<mapsto> c)\<rparr>"
  show ?thesis
  proof (rule put_conversation_inv [OF inv])
    show "conversation_ok (msg_pair a b) c"
      using ab word_inc_pos [OF g(2)] by (cases a b rule: linorder_cases) (simp_all add: conversation_ok_def c msg_pair_def)
    show "conversation_grows (conversations st (msg_pair a b)) c"
      using word_inc_le [OF g(2)] g(1) by (auto simp: conversation_grows_def c old)
  qed (simp_all add: st')
qed

lemma accept_conversation_inv:
  assumes inv: "messaging_inv st" and ok: "accept_conversation env args st = Inr (st', evs)"
  shows "messaging_inv st'"
  using ok
proof (rule accept_conversation_Inr)
  fix a b c
  assume c: "conversations st (msg_pair a b) = Some c"
    and st': "st' = st\<lparr>conversations := (conversations st)(msg_pair a b \<mapsto> c\<lparr>conv_status := 2, conv_updated_at := now env\<rparr>)\<rparr>"
  show ?thesis by (rule touch_conversation_inv [OF inv c]) (simp_all add: st')
qed

lemma close_conversation_inv:
  assumes inv: "messaging_inv st" and ok: "close_conversation env args st = Inr (st', evs)"
  shows "messaging_inv st'"
  using ok
proof (rule close_conversation_Inr)
  fix a b c
  assume c: "conversations st (msg_pair a b) = Some c"
    and st': "st' = st\<lparr>conversations := (conversations st)(msg_pair a b \<mapsto> c\<lparr>conv_status := 3, conv_updated_at := now env\<rparr>)\<rparr>"
  show ?thesis by (rule touch_conversation_inv [OF inv c]) (simp_all add: st')
qed

lemma put_message_inv:
  assumes inv: "messaging_inv st" and ok: "message_ok st k m"
    and new: "\<And>k' m'. messages st k' = Some m' \<Longrightarrow>
      msg_pair (msg_sender m') (msg_recipient m') = msg_pair (msg_sender m) (msg_recipient m) \<Longrightarrow> msg_sequence m' \<noteq> msg_sequence m"
    and st': "st' = st\<lparr>messages := (messages st)(k \<mapsto> m)\<rparr>"
  shows "messaging_inv st'"
proof -
  have "message_ok st' k' m'" if "messages st' k' = Some m'" for k' m'
    using that inv ok by (auto simp: st' messaging_inv_def message_ok_def split: if_splits)
  moreover have "sequences_distinct st'"
    unfolding sequences_distinct_def st'
    using inv new by (simp add: messaging_inv_def sequences_distinct_def) metis
  ultimately show ?thesis using inv by (simp add: messaging_inv_def st')
qed

lemma send_message_inv:
  assumes inv: "messaging_inv st" and ok: "send_message env args (w, st) = Inr (((w', st'), m), evs)"
  shows "messaging_inv st'"
  using ok
proof (cases rule: send_message_cases)
  case retry
  with inv show ?thesis by simp
next
  case (fresh a b d mid env_bytes c)
  define c' where "c' = c\<lparr>conv_sequence := conv_sequence c + 1, conv_updated_at := now env\<rparr>"
  define st1 where "st1 = st\<lparr>conversations := (conversations st)(msg_pair a b \<mapsto> c')\<rparr>"
  have "messaging_inv st1"
    by (rule touch_conversation_inv [OF inv fresh(16), of c'])
      (use inv fresh(16) word_inc_le [OF fresh(19)] in \<open>auto simp: st1_def c'_def messaging_inv_def conversation_ok_def\<close>)
  have st': "st' = st1\<lparr>messages := (messages st1)(a @ mid \<mapsto> m)\<rparr>"
    by (simp add: fresh(22) st1_def c'_def)
  have m_ok: "message_ok st1 (a @ mid) m"
    using fresh(3-5,9,18) word_inc_pos [OF fresh(19)] by (simp add: message_ok_def fresh(21) st1_def c'_def)
  have distinct: "msg_sequence m' \<noteq> msg_sequence m"
    if "messages st k = Some m'" and "msg_pair (msg_sender m') (msg_recipient m') = msg_pair a b" for k m'
  proof -
    have "message_ok st k m'" using inv that(1) by (simp add: messaging_inv_def)
    then have "msg_sequence m' \<le> conv_sequence c" using that(2) fresh(16) by (auto simp: message_ok_def)
    then show ?thesis using word_inc_less [OF fresh(19)] by (auto simp: fresh(21))
  qed
  have "msg_sequence m' \<noteq> msg_sequence m" if "messages st1 k' = Some m'"
    "msg_pair (msg_sender m') (msg_recipient m') = msg_pair (msg_sender m) (msg_recipient m)" for k' m'
    using that distinct by (simp add: st1_def fresh(21))
  with \<open>messaging_inv st1\<close> m_ok show ?thesis using st' by (rule put_message_inv)
qed

lemma messaging_step_inv:
  assumes "messaging_inv (snd s)" and "messaging_step env call s = Inr (s', evs)"
  shows "messaging_inv (snd s')"
proof (cases call)
  case (Call_set_dependencies args)
  with assms show ?thesis
    by (auto dest!: set_dependencies_Inr simp: messaging_inv_def message_ok_def sequences_distinct_def)
next
  case (Call_request_conversation args)
  with assms show ?thesis by (cases s; cases s') (auto intro: request_conversation_inv)
next
  case (Call_send_message args)
  with assms show ?thesis by (cases s; cases s') (auto intro: send_message_inv)
qed (use assms in \<open>auto intro: accept_conversation_inv close_conversation_inv\<close>)

lemma messaging_exec_Inr:
  assumes "messaging_exec tx s = Inr s'"
  obtains evs where "messaging_step (fst tx) (snd tx) s = Inr (s', evs)"
  using assms by (auto simp: messaging_exec_def)

interpretation messaging_contract: kept_invariant messaging_exec "\<lambda>s. messaging_inv (snd s)"
  by unfold_locales (auto elim!: messaging_exec_Inr dest: messaging_step_inv)

lemma messaging_run_inv: "messaging_inv (msg_after w cs)"
  using messaging_contract.run_keeps [of "(w, messaging_empty)" cs] messaging_empty_inv by simp

text \<open>
  Every history of the messaging contract keeps the stored data well formed: a conversation
  stands under its two distinct parties in ascending order, every message belongs to the
  conversation of its parties and is not ahead of it, and no two messages between the same
  parties carry the same sequence number.
\<close>

theorem messaging_runs_well_formed:
  "messaging_inv (msg_after w cs)"
  by (rule messaging_run_inv)

section \<open>Consent\<close>

definition accepted :: "bytes \<Rightarrow> u64 \<Rightarrow> messaging_state \<Rightarrow> bool" where
  "accepted p g st \<longleftrightarrow> (\<exists>c. conversations st p = Some c \<and> conv_status c = 2 \<and> generation c = g)"

definition invited :: "bytes \<Rightarrow> u64 \<Rightarrow> bytes \<Rightarrow> messaging_state \<Rightarrow> bool" where
  "invited p g r st \<longleftrightarrow> (\<exists>c. conversations st p = Some c \<and> conv_status c = 1 \<and> generation c = g \<and> requester c = r)"

text \<open>The transaction is signed for the account, with the messaging capability if by a device.\<close>

definition signed_for :: "'w env \<Rightarrow> messaging_state \<Rightarrow> bytes \<Rightarrow> bytes option \<Rightarrow> bool" where
  "signed_for env st account device \<longleftrightarrow> (\<exists>d sg. msg_config st = Some d \<and>
     require_authorized env (md_identity d) account device CAP_MESSAGING = Inr sg)"

text \<open>Which transaction stores a message, opens a conversation, invites to one.\<close>

lemma send_step:
  assumes "messaging_step env (Call_send_message args) s = Inr (s', evs)"
  obtains m where "send_message env args (fst s, snd s) = Inr (((fst s', snd s'), m), evs)"
  using assms by auto

lemma step_new_message:
  assumes "messaging_step env call s = Inr (s', evs)"
    and "messages (snd s) k \<noteq> Some m" and "messages (snd s') k = Some m"
  shows "accepted (msg_pair (msg_sender m) (msg_recipient m)) (msg_generation m) (snd s)"
proof (cases call)
  case (Call_send_message args)
  from assms(1) obtain m' where "send_message env args (fst s, snd s) = Inr (((fst s', snd s'), m'), evs)"
    unfolding Call_send_message by (rule send_step)
  then show ?thesis
  proof (cases rule: send_message_cases)
    case retry
    with assms(2,3) show ?thesis by simp
  next
    case (fresh a b d mid env_bytes c)
    with assms(2,3) have "m = m'" by (auto split: if_splits)
    with fresh(16-18) show ?thesis by (simp add: accepted_def fresh(21))
  qed
next
  case (Call_request_conversation args)
  with assms show ?thesis by (cases s; cases s') (auto elim!: request_conversation_Inr)
qed (use assms in \<open>auto dest!: set_dependencies_Inr elim!: accept_conversation_Inr close_conversation_Inr\<close>)

lemma step_new_accepted:
  assumes "messaging_step env call s = Inr (s', evs)" and "\<not> accepted p g (snd s)" and "accepted p g (snd s')"
  obtains args a b where "call = Call_accept_conversation args" "ca_actor args = Some a" "ca_peer args = Some b"
    "length a = 25" "length b = 25" "p = msg_pair a b" "g = ca_generation args" "invited p g b (snd s)"
    "signed_for env (snd s) a (ca_device args)" "\<exists>out. accept_conversation env args (snd s) = Inr out"
proof (cases call)
  case (Call_accept_conversation args)
  with assms(1) have acc: "accept_conversation env args (snd s) = Inr (snd s', evs)" by auto
  then show thesis
  proof (rule accept_conversation_Inr)
    fix a b d c
    assume h: "ca_actor args = Some a" "ca_peer args = Some b" "length a = 25" "length b = 25" "msg_config (snd s) = Some d"
      "\<exists>sg. require_authorized env (md_identity d) a (ca_device args) CAP_MESSAGING = Inr sg"
      and c: "conversations (snd s) (msg_pair a b) = Some c" "conv_status c = 1" "generation c = ca_generation args" "requester c = b"
      and s': "snd s' = snd s\<lparr>conversations := (conversations (snd s))(msg_pair a b \<mapsto> c\<lparr>conv_status := 2, conv_updated_at := now env\<rparr>)\<rparr>"
    from assms(2,3) have p: "p = msg_pair a b" "g = ca_generation args"
      using c(3) unfolding s' accepted_def by (auto split: if_splits)
    with h c acc show thesis by (intro that [OF Call_accept_conversation]) (auto simp: invited_def signed_for_def)
  qed
next
  case (Call_send_message args)
  from assms(1) obtain m' where "send_message env args (fst s, snd s) = Inr (((fst s', snd s'), m'), evs)"
    unfolding Call_send_message by (rule send_step)
  then show thesis
    by (cases rule: send_message_cases) (use assms(2,3) in \<open>auto simp: accepted_def split: if_splits\<close>)
next
  case (Call_request_conversation args)
  with assms show thesis by (cases s; cases s') (auto elim!: request_conversation_Inr simp: accepted_def split: if_splits)
next
  case (Call_close_conversation args)
  with assms show thesis by (auto elim!: close_conversation_Inr simp: accepted_def split: if_splits)
next
  case (Call_set_dependencies args)
  with assms show thesis by (auto dest!: set_dependencies_Inr simp: accepted_def)
qed

lemma step_new_invited:
  assumes "messaging_step env call s = Inr (s', evs)" and "\<not> invited p g r (snd s)" and "invited p g r (snd s')"
  obtains args b where "call = Call_request_conversation args" "ca_actor args = Some r" "ca_peer args = Some b"
    "length r = 25" "length b = 25" "p = msg_pair r b" "g = ca_generation args + 1"
    "signed_for env (snd s) r (ca_device args)" "\<exists>out. request_conversation env args s = Inr out"
proof (cases call)
  case (Call_request_conversation args)
  with assms(1) have req: "request_conversation env args (fst s, snd s) = Inr ((fst s', snd s'), evs)" by simp
  then show thesis
  proof (rule request_conversation_Inr)
    fix a b d old c
    assume h: "ca_actor args = Some a" "ca_peer args = Some b" "length a = 25" "length b = 25" "msg_config (snd s) = Some d"
      "\<exists>sg. require_authorized env (md_identity d) a (ca_device args) CAP_MESSAGING = Inr sg"
      and c: "c = \<lparr>conv_a = (if compare a b < 0 then a else b), conv_b = (if compare a b < 0 then b else a),
       requester = a, conv_status = 1, generation = ca_generation args + 1,
       conv_sequence = (case old of None \<Rightarrow> 0 | Some c \<Rightarrow> conv_sequence c), conv_updated_at = now env\<rparr>"
      and s': "snd s' = snd s\<lparr>conversations := (conversations (snd s))(msg_pair a b \<mapsto> c)\<rparr>"
    from assms(2,3) have p: "p = msg_pair a b" "g = ca_generation args + 1" "r = a"
      unfolding s' invited_def by (auto simp: c split: if_splits)
    with h req show thesis by (intro that [OF Call_request_conversation]) (auto simp: signed_for_def)
  qed
next
  case (Call_send_message args)
  from assms(1) obtain m' where "send_message env args (fst s, snd s) = Inr (((fst s', snd s'), m'), evs)"
    unfolding Call_send_message by (rule send_step)
  then show thesis
    by (cases rule: send_message_cases) (use assms(2,3) in \<open>auto simp: invited_def split: if_splits\<close>)
next
  case (Call_accept_conversation args)
  with assms show thesis by (auto elim!: accept_conversation_Inr simp: invited_def split: if_splits)
next
  case (Call_close_conversation args)
  with assms show thesis by (auto elim!: close_conversation_Inr simp: invited_def split: if_splits)
next
  case (Call_set_dependencies args)
  with assms show thesis by (auto dest!: set_dependencies_Inr simp: invited_def)
qed

lemma messaging_established:
  assumes "\<not> P s" and "P (run messaging_exec s cs)"
  obtains before tx after s' evs where "cs = before @ tx # after" "\<not> P (run messaging_exec s before)"
    "messaging_step (fst tx) (snd tx) (run messaging_exec s before) = Inr (s', evs)" "P s'"
  using assms by (rule run_established) (auto elim!: messaging_exec_Inr intro: that)

text \<open>
  C22: Nobody is messaged without having agreed: whenever a message of generation \<open>g\<close> is stored,
  the history contains a request of that generation by one of the two parties, signed for it,
  and after it an acceptance of that generation by the other party, signed for that one.
\<close>

theorem messages_need_acceptance:
  fixes cs :: "('w env \<times> messaging_call) list"
  assumes "messages (msg_after w cs) k = Some m"
  shows "\<exists>x y c1 env1 args1 c2 env2 args2 c3.
    cs = c1 @ (env1, Call_request_conversation args1) # c2 @ (env2, Call_accept_conversation args2) # c3 \<and>
    {x, y} = {msg_sender m, msg_recipient m} \<and> x \<noteq> y \<and>
    ca_actor args1 = Some x \<and> ca_peer args1 = Some y \<and> ca_generation args1 + 1 = msg_generation m \<and>
    signed_for env1 (msg_after w c1) x (ca_device args1) \<and>
    ca_actor args2 = Some y \<and> ca_peer args2 = Some x \<and> ca_generation args2 = msg_generation m \<and>
    signed_for env2 (msg_after w (c1 @ (env1, Call_request_conversation args1) # c2)) y (ca_device args2)"
proof -
  let ?p = "msg_pair (msg_sender m) (msg_recipient m)" and ?g = "msg_generation m"
  have m_ok: "message_ok (msg_after w cs) k m" using messaging_run_inv [of w cs] assms by (simp add: messaging_inv_def)
  have start: "\<not> messages (snd (w, messaging_empty)) k = Some m" "\<not> accepted ?p ?g (snd (w, messaging_empty))"
    "\<not> invited ?p ?g r (snd (w, messaging_empty))" for r
    by (simp_all add: messaging_empty_def accepted_def invited_def)
  obtain b1 tx1 a1 s1 e1 where b1: "cs = b1 @ tx1 # a1" and "messages (msg_after w b1) k \<noteq> Some m"
    and "messaging_step (fst tx1) (snd tx1) (run messaging_exec (w, messaging_empty) b1) = Inr (s1, e1)"
    and "messages (snd s1) k = Some m"
    using start(1) assms by (rule messaging_established [where P = "\<lambda>s. messages (snd s) k = Some m"])
  then have "accepted ?p ?g (msg_after w b1)" by (intro step_new_message)
  with start(2) obtain b2 tx2 a2 s2 e2 where b2: "b1 = b2 @ tx2 # a2" and n2: "\<not> accepted ?p ?g (msg_after w b2)"
    and st2: "messaging_step (fst tx2) (snd tx2) (run messaging_exec (w, messaging_empty) b2) = Inr (s2, e2)"
    and p2: "accepted ?p ?g (snd s2)"
    by (rule messaging_established [where P = "\<lambda>s. accepted ?p ?g (snd s)"])
  from st2 n2 p2 obtain args2 y x where acc: "snd tx2 = Call_accept_conversation args2" "ca_actor args2 = Some y"
    "ca_peer args2 = Some x" "length y = 25" "length x = 25" "?p = msg_pair y x" "?g = ca_generation args2"
    "signed_for (fst tx2) (msg_after w b2) y (ca_device args2)"
    and inv2: "invited ?p ?g x (msg_after w b2)"
    by (rule step_new_accepted)
  from start(3) inv2 obtain b3 tx3 a3 s3 e3 where b3: "b2 = b3 @ tx3 # a3" and n3: "\<not> invited ?p ?g x (msg_after w b3)"
    and st3: "messaging_step (fst tx3) (snd tx3) (run messaging_exec (w, messaging_empty) b3) = Inr (s3, e3)"
    and p3: "invited ?p ?g x (snd s3)"
    by (rule messaging_established [where P = "\<lambda>s. invited ?p ?g x (snd s)"])
  from st3 n3 p3 obtain args1 y' where req: "snd tx3 = Call_request_conversation args1" "ca_actor args1 = Some x"
    "ca_peer args1 = Some y'" "length x = 25" "length y' = 25" "?p = msg_pair x y'" "?g = ca_generation args1 + 1"
    "signed_for (fst tx3) (msg_after w b3) x (ca_device args1)"
    by (rule step_new_invited)
  have pairs: "{y, x} = {msg_sender m, msg_recipient m}" "{x, y'} = {msg_sender m, msg_recipient m}"
    using acc(4-6) req(4-6) m_ok msg_pair_eq by (simp_all add: message_ok_def)
  then have yx: "y' = y" "x \<noteq> y" using m_ok by (auto simp: message_ok_def doubleton_eq_iff)
  have b2': "b2 = b3 @ (fst tx3, Call_request_conversation args1) # a3" using b3 req(1) by (cases tx3) simp
  show ?thesis
  proof (intro exI conjI)
    show "cs = b3 @ (fst tx3, Call_request_conversation args1) # a3 @ (fst tx2, Call_accept_conversation args2) # (a2 @ tx1 # a1)"
      using b1 b2 b3 acc(1) req(1) by (cases tx2; cases tx3) simp
    show "{x, y} = {msg_sender m, msg_recipient m}" "x \<noteq> y" using pairs(1) yx by (simp_all add: insert_commute)
    show "ca_actor args1 = Some x" "ca_generation args1 + 1 = ?g" "ca_actor args2 = Some y" "ca_peer args2 = Some x"
      "ca_generation args2 = ?g" "signed_for (fst tx3) (msg_after w b3) x (ca_device args1)"
      using acc req by simp_all
    show "ca_peer args1 = Some y" using req(3) yx by simp
    show "signed_for (fst tx2) (msg_after w (b3 @ (fst tx3, Call_request_conversation args1) # a3)) y (ca_device args2)"
      using acc(8) by (simp only: b2')
  qed
qed

section \<open>Sending\<close>

text \<open>
  A send that stores a message goes into an accepted conversation of the generation named,
  between parties neither of whom blocks the other, charges the sender one action, and gives the
  message the next sequence number of the conversation; every other send that succeeds writes
  nothing at all and answers with the message stored before.
\<close>

theorem send_effect:
  assumes "send_message env args (w, st) = Inr (((w', st'), m), evs)"
  shows "\<exists>a b mid d. sm_sender args = Some a \<and> sm_recipient args = Some b \<and> sm_message_id args = Some mid \<and>
    msg_config st = Some d \<and> signed_for env st a (sm_device args) \<and>
    (if messages st (a @ mid) = None
     then accepted (msg_pair a b) (sm_generation args) st \<and>
       call_is_blocked env (md_relationships d) a b = Call_Object False \<and>
       call_is_blocked env (md_relationships d) b a = Call_Object False \<and>
       call_consume env (md_token d) a 1 w = Some w' \<and>
       messages st' = (messages st)(a @ mid \<mapsto> m) \<and> msg_sender m = a \<and> msg_recipient m = b \<and>
       (\<exists>c c'. conversations st (msg_pair a b) = Some c \<and> conversations st' = (conversations st)(msg_pair a b \<mapsto> c') \<and>
          unat (msg_sequence m) = unat (conv_sequence c) + 1 \<and> conv_sequence c' = msg_sequence m)
     else messages st (a @ mid) = Some m \<and> w' = w \<and> st' = st \<and> evs = [])"
  using assms
proof (cases rule: send_message_cases)
  case (retry a b d mid)
  then show ?thesis by (simp add: signed_for_def)
next
  case (fresh a b d mid env_bytes c)
  have "unat (conv_sequence c + 1) = unat (conv_sequence c) + 1"
    using unat_inc [OF word_below_max [OF fresh(19)]] by simp
  then have "\<exists>c c'. conversations st (msg_pair a b) = Some c \<and> conversations st' = (conversations st)(msg_pair a b \<mapsto> c') \<and>
      unat (msg_sequence m) = unat (conv_sequence c) + 1 \<and> conv_sequence c' = msg_sequence m"
    by (intro exI [of _ c] exI [of _ "c\<lparr>conv_sequence := conv_sequence c + 1, conv_updated_at := now env\<rparr>"])
      (simp add: fresh(16,21,22))
  with fresh show ?thesis by (simp add: signed_for_def accepted_def)
qed

definition messages_kept :: "'w \<times> messaging_state \<Rightarrow> 'w \<times> messaging_state \<Rightarrow> bool" where
  "messages_kept s s' \<longleftrightarrow> (\<forall>k m. messages (snd s) k = Some m \<longrightarrow> messages (snd s') k = Some m)"

lemma step_messages_kept:
  assumes "messaging_step env call s = Inr (s', evs)"
  shows "messages_kept s s'"
proof (cases call)
  case (Call_send_message args)
  from assms obtain m' where "send_message env args (fst s, snd s) = Inr (((fst s', snd s'), m'), evs)"
    unfolding Call_send_message by (rule send_step)
  then show ?thesis by (cases rule: send_message_cases) (auto simp: messages_kept_def)
next
  case (Call_request_conversation args)
  with assms show ?thesis by (cases s; cases s') (auto elim!: request_conversation_Inr simp: messages_kept_def)
qed (use assms in \<open>auto dest!: set_dependencies_Inr elim!: accept_conversation_Inr close_conversation_Inr simp: messages_kept_def\<close>)

interpretation message_log: kept_relation messaging_exec "\<lambda>s. messaging_inv (snd s)" messages_kept
  by unfold_locales (auto elim!: messaging_exec_Inr dest!: step_messages_kept simp: messages_kept_def)

text \<open>
  Sending is idempotent: after a send has succeeded, whatever transactions follow, a later
  send under the same sender and message identifier can only answer with the stored message, and
  does so for the same recipient, generation and envelope; it charges nothing, writes nothing
  and emits nothing.
\<close>

theorem send_idempotent:
  fixes s s' :: "'w \<times> messaging_state" and cs :: "('w env \<times> messaging_call) list"
  assumes "messaging_inv (snd s)" and "send_message env args s = Inr ((s', m), evs)"
    and "sm_sender args' = sm_sender args" and "sm_message_id args' = sm_message_id args"
  defines "s2 \<equiv> run messaging_exec s' cs"
  shows "(send_message env' args' s2 = Inr out \<longrightarrow> out = ((s2, m), [])) \<and>
    (sm_recipient args' = sm_recipient args \<and> sm_generation args' = sm_generation args \<and>
     sm_envelope args' = sm_envelope args \<and> hash_sha256 env' = hash_sha256 env \<and>
     signed_for env' (snd s2) (the (sm_sender args)) (sm_device args') \<longrightarrow>
       send_message env' args' s2 = Inr ((s2, m), []))"
proof -
  obtain w st w' st' where s: "s = (w, st)" "s' = (w', st')" by (cases s; cases s')
  have sent: "send_message env args (w, st) = Inr (((w', st'), m), evs)" using assms(2) by (simp add: s)
  then obtain a b mid envelope where base: "sm_sender args = Some a" "sm_recipient args = Some b" "length a = 25" "length b = 25"
    "a \<noteq> b" "sm_message_id args = Some mid" "length mid = 32" "sm_envelope args = Some envelope"
    "envelope \<noteq> []" "length envelope \<le> 4096"
    and stored: "messages st' (a @ mid) = Some m" "msg_recipient m = b" "msg_generation m = sm_generation args"
      "msg_content_hash m = drop 2 (hash_sha256 env envelope)"
  proof (cases rule: send_message_cases)
    case (retry a b d mid e)
    moreover have "e \<noteq> [] \<and> length e \<le> 4096" using sent retry(10) by (auto simp: send_message_def Let_def)
    ultimately show thesis by (intro that [of a b mid e]) simp_all
  next
    case (fresh a b d mid e c)
    then show thesis by (intro that [of a b mid e]) simp_all
  qed
  have "messaging_inv (snd s')" using assms(1) sent by (simp add: s send_message_inv)
  then have "messages_kept s' s2" unfolding s2_def by (rule message_log.run_rel)
  with stored(1) have later: "messages (snd s2) (a @ mid) = Some m" by (simp add: messages_kept_def s)
  obtain w2 st2 where s2: "s2 = (w2, st2)" by (cases s2)
  have "out = ((s2, m), [])" if "send_message env' args' s2 = Inr out"
  proof -
    obtain w3 st3 m3 e3 where out: "out = (((w3, st3), m3), e3)" by (metis prod.collapse)
    from that have "send_message env' args' (w2, st2) = Inr (((w3, st3), m3), e3)" by (simp add: s2 out)
    then show ?thesis using later base assms(3,4) s2 out by (cases rule: send_message_cases) auto
  qed
  moreover have "send_message env' args' s2 = Inr ((s2, m), [])"
    if same: "sm_recipient args' = sm_recipient args" "sm_generation args' = sm_generation args" "sm_envelope args' = sm_envelope args"
      "hash_sha256 env' = hash_sha256 env" "signed_for env' (snd s2) a (sm_device args')"
  proof -
    have "mid \<noteq> []" using base(7) by auto
    moreover obtain d sg where "msg_config st2 = Some d"
      "require_authorized env' (md_identity d) a (sm_device args') CAP_MESSAGING = Inr sg"
      using same(5) s2 by (auto simp: signed_for_def)
    ultimately show ?thesis using same(1-4) base later stored assms(3,4)
      by (simp add: send_message_def s2 Let_def authorize_def deps_def require_bytes_def)
  qed
  ultimately show ?thesis using base(1) by simp
qed

section \<open>Closing\<close>

text \<open>A generation that is over: a later one has begun, or the conversation stands closed.\<close>

definition over :: "bytes \<Rightarrow> u64 \<Rightarrow> messaging_state \<Rightarrow> bool" where
  "over p g st \<longleftrightarrow> (\<exists>c. conversations st p = Some c \<and> (g < generation c \<or> (generation c = g \<and> conv_status c = 3)))"

lemma step_over:
  assumes "over p g (snd s)" and "messaging_step env call s = Inr (s', evs)"
  shows "over p g (snd s')"
proof (cases call)
  case (Call_send_message args)
  from assms(2) obtain m' where "send_message env args (fst s, snd s) = Inr (((fst s', snd s'), m'), evs)"
    unfolding Call_send_message by (rule send_step)
  then show ?thesis by (cases rule: send_message_cases) (use assms(1) in \<open>auto simp: over_def\<close>)
next
  case (Call_request_conversation args)
  with assms(2) have "request_conversation env args (fst s, snd s) = Inr ((fst s', snd s'), evs)" by simp
  then show ?thesis
  proof (rule request_conversation_Inr)
    fix a b old c
    assume old: "old = conversations (snd s) (msg_pair a b)"
      and g: "ca_generation args = (case old of None \<Rightarrow> 0 | Some c \<Rightarrow> generation c)" "ca_generation args < - 1"
      and c: "c = \<lparr>conv_a = (if compare a b < 0 then a else b), conv_b = (if compare a b < 0 then b else a),
       requester = a, conv_status = 1, generation = ca_generation args + 1,
       conv_sequence = (case old of None \<Rightarrow> 0 | Some c \<Rightarrow> conv_sequence c), conv_updated_at = now env\<rparr>"
      and s': "snd s' = snd s\<lparr>conversations := (conversations (snd s))(msg_pair a b \<mapsto> c)\<rparr>"
    show ?thesis
    proof (cases "p = msg_pair a b")
      case False
      with assms(1) show ?thesis by (simp add: over_def s')
    next
      case True
      with assms(1) g(1) old have "g \<le> ca_generation args" by (auto simp: over_def)
      also note word_inc_less [OF g(2)]
      finally show ?thesis using True by (simp add: over_def s' c)
    qed
  qed
next
  case (Call_accept_conversation args)
  with assms show ?thesis by (auto elim!: accept_conversation_Inr simp: over_def)
next
  case (Call_close_conversation args)
  with assms show ?thesis by (auto elim!: close_conversation_Inr simp: over_def)
next
  case (Call_set_dependencies args)
  with assms show ?thesis by (auto dest!: set_dependencies_Inr simp: over_def)
qed

interpretation closed_generation: kept_invariant messaging_exec "\<lambda>s. over p g (snd s)"
  by unfold_locales (auto elim!: messaging_exec_Inr intro: step_over)

text \<open>
  Closing is final for its generation: once a party has closed a conversation, whatever
  transactions follow, no message of that generation between the two is ever stored again, in
  either direction; messages need a new invitation and a new acceptance.
\<close>

theorem closed_generation_is_final:
  fixes cs :: "('w env \<times> messaging_call) list"
  assumes "close_conversation env args st = Inr (st', evs)"
    and "ca_actor args = Some a" and "ca_peer args = Some b"
    and "send_message env' args' (run messaging_exec (w, st') cs) = Inr ((s'', m), evs')"
    and "sm_sender args' = Some x" and "sm_recipient args' = Some y" and "{x, y} = {a, b}"
    and "sm_generation args' = ca_generation args"
  shows "s'' = run messaging_exec (w, st') cs \<and> evs' = []"
proof -
  have "over (msg_pair a b) (ca_generation args) st'"
    using assms(1-3) by (auto elim!: close_conversation_Inr simp: over_def)
  then have over: "over (msg_pair a b) (ca_generation args) (snd (run messaging_exec (w, st') cs))"
    using closed_generation.run_keeps [of "msg_pair a b" "ca_generation args" "(w, st')" cs] by simp
  obtain w2 st2 w3 st3 where s: "run messaging_exec (w, st') cs = (w2, st2)" "s'' = (w3, st3)" by (metis prod.collapse)
  have "msg_pair x y = msg_pair a b" using assms(7) by (auto simp: doubleton_eq_iff msg_pair_commute)
  moreover from assms(4) have sent: "send_message env' args' (w2, st2) = Inr (((w3, st3), m), evs')" by (simp add: s)
  ultimately show ?thesis
    by (cases rule: send_message_cases [OF sent]) (use over assms(5,6,8) s in \<open>auto simp: over_def\<close>)
qed

section \<open>The properties at concrete inputs\<close>

definition msg_env :: "u64 \<Rightarrow> unit env" where
  "msg_env t = (open_env t)\<lparr>call_is_blocked := (\<lambda>_ _ _. Call_Object False), call_consume := (\<lambda>_ _ _ w. Some w),
     hash_sha256 := (\<lambda>b. [0x12, 0x20] @ take 32 (rev b @ replicate 32 0))\<rparr>"

lemma msg_env_simps [simp]:
  "now (msg_env t) = t" "has_authority (msg_env t) a" "contract_id (msg_env t) = sample_addr 200"
  "ic \<noteq> [] \<Longrightarrow> require_authorized (msg_env t) ic a d c = Inr a"
  "ic \<noteq> [] \<Longrightarrow> actor_exists (msg_env t) ic a = Inr True"
  "call_is_blocked (msg_env t) = (\<lambda>_ _ _. Call_Object False)"
  "call_consume (msg_env t) = (\<lambda>_ _ _ w. Some w)"
  "hash_sha256 (msg_env t) = (\<lambda>b. [0x12, 0x20] @ take 32 (rev b @ replicate 32 0))"
  by (simp_all add: msg_env_def open_env_def now_def require_authorized_def actor_exists_def sample_env_def Let_def)

definition conv_args :: "byte \<Rightarrow> byte \<Rightarrow> u64 \<Rightarrow> conversation_arguments" where
  "conv_args a b g = \<lparr>ca_actor = Some (sample_addr a), ca_peer = Some (sample_addr b), ca_device = None, ca_generation = g\<rparr>"

definition send_args :: "byte \<Rightarrow> byte \<Rightarrow> byte \<Rightarrow> send_message_arguments" where
  "send_args a b n = \<lparr>sm_sender = Some (sample_addr a), sm_recipient = Some (sample_addr b), sm_device = None,
     sm_message_id = Some (replicate 32 n), sm_generation = 1, sm_envelope = Some [n]\<rparr>"

definition demo_dependencies :: messaging_dependencies where
  "demo_dependencies = \<lparr>md_identity = sample_addr 90, md_relationships = sample_addr 91, md_token = sample_addr 94\<rparr>"

definition demo_conversation :: "u32 \<Rightarrow> u64 \<Rightarrow> u64 \<Rightarrow> conversation_record" where
  "demo_conversation status n t = \<lparr>conv_a = sample_addr 1, conv_b = sample_addr 2, requester = sample_addr 1,
     conv_status = status, generation = 1, conv_sequence = n, conv_updated_at = t\<rparr>"

definition demo_message :: message_record where
  "demo_message = \<lparr>msg_sender = sample_addr 2, msg_recipient = sample_addr 1, msg_id = replicate 32 7,
     msg_content_hash = 7 # replicate 31 0, msg_generation = 1, msg_sequence = 1, msg_timestamp = 40\<rparr>"

definition demo_open :: "(unit env \<times> messaging_call) list" where
  "demo_open = [(msg_env 10, Call_set_dependencies \<lparr>sd_identity = Some (sample_addr 90),
       sd_relationships = Some (sample_addr 91), sd_token = Some (sample_addr 94)\<rparr>),
     (msg_env 20, Call_request_conversation (conv_args 1 2 0)),
     (msg_env 30, Call_accept_conversation (conv_args 2 1 1))]"

definition demo_accepted :: messaging_state where
  "demo_accepted = \<lparr>msg_config = Some demo_dependencies,
     conversations = [sample_addr 1 @ sample_addr 2 \<mapsto> demo_conversation 2 0 30], messages = Map.empty\<rparr>"

definition demo_sent :: messaging_state where
  "demo_sent = \<lparr>msg_config = Some demo_dependencies,
     conversations = [sample_addr 1 @ sample_addr 2 \<mapsto> demo_conversation 2 1 40],
     messages = [sample_addr 2 @ replicate 32 7 \<mapsto> demo_message]\<rparr>"

lemma demo_open_state: "run messaging_exec ((), messaging_empty) demo_open = ((), demo_accepted)"
  by (simp add: demo_open_def messaging_exec_def set_dependencies_def request_conversation_def accept_conversation_def
      conv_args_def messaging_empty_def msg_pair_def deps_def local_op_def demo_accepted_def demo_dependencies_def
      demo_conversation_def authorize_def unblocked_def msg_consume_def Let_def)

lemma demo_send:
  "send_message (msg_env 40) (send_args 2 1 7) ((), demo_accepted) =
     Inr ((((), demo_sent), demo_message), [(Message_sent demo_message [7] 40, [sample_addr 2, sample_addr 1])])"
  by (simp add: send_message_def send_args_def demo_accepted_def demo_dependencies_def demo_conversation_def demo_sent_def
      demo_message_def authorize_def unblocked_def msg_consume_def deps_def msg_pair_def require_bytes_def Let_def)

lemma demo_sent_state:
  "run messaging_exec ((), messaging_empty) (demo_open @ [(msg_env 40, Call_send_message (send_args 2 1 7))]) = ((), demo_sent)"
  by (simp add: run_append demo_open_state) (simp add: messaging_exec_def demo_send)

theorem messages_need_acceptance_witness:
  "\<exists>x y. {x, y} = {sample_addr 2, sample_addr 1} \<and> x \<noteq> y \<and>
    messages (msg_after () (demo_open @ [(msg_env 40, Call_send_message (send_args 2 1 7))])) (sample_addr 2 @ replicate 32 7) = Some demo_message"
proof -
  have m: "messages (msg_after () (demo_open @ [(msg_env 40, Call_send_message (send_args 2 1 7))]))
      (sample_addr 2 @ replicate 32 7) = Some demo_message"
    by (simp add: demo_sent_state) (simp add: demo_sent_def)
  from messages_need_acceptance [OF this] obtain x y where "{x, y} = {msg_sender demo_message, msg_recipient demo_message}" "x \<noteq> y"
    by blast
  then have "{x, y} = {sample_addr 2, sample_addr 1} \<and> x \<noteq> y" by (simp add: demo_message_def)
  with m show ?thesis by blast
qed

theorem send_effect_witness:
  "\<exists>c. conversations demo_accepted (msg_pair (sample_addr 2) (sample_addr 1)) = Some c \<and> unat (msg_sequence demo_message) = unat (conv_sequence c) + 1"
proof -
  have "messages demo_accepted = Map.empty" by (simp add: demo_accepted_def)
  with send_effect [OF demo_send] show ?thesis by (auto simp: send_args_def)
qed

theorem send_idempotent_witness:
  "send_message (msg_env 60) (send_args 2 1 7) (run messaging_exec ((), demo_sent) []) =
     Inr ((run messaging_exec ((), demo_sent) [], demo_message), [])"
proof -
  have "messaging_inv (snd ((), demo_accepted))" using messaging_run_inv [of "()" demo_open] by (simp add: demo_open_state)
  note retry = send_idempotent [OF this demo_send refl refl, of "msg_env 60" "[]", THEN conjunct2, THEN mp]
  have "signed_for (msg_env 60) demo_sent (sample_addr 2) None"
    by (simp add: signed_for_def demo_sent_def demo_dependencies_def)
  then show ?thesis by (intro retry) (simp add: send_args_def)
qed

definition demo_closed :: messaging_state where
  "demo_closed = demo_sent\<lparr>conversations := [sample_addr 1 @ sample_addr 2 \<mapsto> demo_conversation 3 1 50]\<rparr>"

lemma demo_close: "\<exists>evs. close_conversation (msg_env 50) (conv_args 1 2 1) demo_sent = Inr (demo_closed, evs)"
  by (simp add: close_conversation_def conv_args_def demo_sent_def demo_closed_def demo_dependencies_def demo_conversation_def
      authorize_def deps_def msg_pair_def Let_def)

lemma demo_retry: "send_message (msg_env 60) (send_args 2 1 7) ((), demo_closed) = Inr ((((), demo_closed), demo_message), [])"
  by (simp add: send_message_def send_args_def demo_sent_def demo_closed_def demo_dependencies_def demo_message_def
      authorize_def deps_def require_bytes_def Let_def)

theorem closed_generation_is_final_witness:
  "send_message (msg_env 60) (send_args 2 1 7) (run messaging_exec ((), demo_closed) []) =
     Inr ((run messaging_exec ((), demo_closed) [], demo_message), [])"
proof -
  obtain evs where close: "close_conversation (msg_env 50) (conv_args 1 2 1) demo_sent = Inr (demo_closed, evs)"
    using demo_close by blast
  have retry: "send_message (msg_env 60) (send_args 2 1 7) (run messaging_exec ((), demo_closed) []) =
      Inr ((((), demo_closed), demo_message), [])" using demo_retry by simp
  from closed_generation_is_final [OF close _ _ retry, of "sample_addr 1" "sample_addr 2" "sample_addr 2" "sample_addr 1"] retry
  show ?thesis by (simp add: conv_args_def send_args_def insert_commute)
qed

end
