(* ===== verification/Token.thy ===== *)
theory Token
  imports Actor Timelock
begin

text \<open>
  The action token, \<open>packages/contracts/token/assembly/Token.ts\<close>: balances and a bounded supply,
  usage credits that regenerate over a day, capped rewards for supporting posts. The first part
  is the contract as written, on 64-bit words; the second shows that no intermediate product
  wraps, that the supply is the sum of the balances, and what spending and supporting do.
\<close>

section \<open>State objects\<close>

record account_state =
  balance :: u64
  free_credits :: u64
  token_credits :: u64
  acc_updated_at :: u64

record reward_state =
  reward_day :: u64
  minted :: u64

record token_config =
  tok_identity :: bytes
  tok_relationships :: bytes
  tok_publications :: bytes
  tok_messaging :: bytes
  reward_amount :: u64
  daily_reward_cap :: u64
  recipient_daily_cap :: u64
  tok_supply :: u64

record token_state =
  tok_config :: "token_config option"
  accounts :: "bytes \<rightharpoonup> account_state"
  supports :: "bytes \<rightharpoonup> reward_state"
  rewards :: "bytes \<rightharpoonup> reward_state"
  global_reward :: "reward_state option"

definition token_empty :: token_state where
  "token_empty = \<lparr>tok_config = None, accounts = Map.empty, supports = Map.empty, rewards = Map.empty,
     global_reward = None\<rparr>"

section \<open>Arguments and events\<close>

record token_init_arguments =
  ti_identity :: "bytes option"
  ti_relationships :: "bytes option"
  ti_publications :: "bytes option"
  ti_messaging :: "bytes option"

record set_reward_policy_arguments =
  rp_reward_amount :: u64
  rp_daily_reward_cap :: u64
  rp_recipient_daily_cap :: u64

record support_arguments =
  su_actor :: "bytes option"
  su_post_id :: "bytes option"
  su_device :: "bytes option"

record transfer_arguments =
  tr_from :: "bytes option"
  tr_to :: "bytes option"
  tr_value :: u64

record burn_arguments =
  bu_from :: "bytes option"
  bu_value :: u64

record consume_arguments =
  co_account :: "bytes option"
  co_units :: u64

text \<open>The payloads of the \<open>osp.token.*\<close> events, fields in the order of the schema.\<close>

datatype token_event =
    Account_updated bytes account_state u64
  | Supported bytes bytes bytes u64 u64
  | Transfer bytes bytes u64 u64
  | Burn bytes u64 u64
  | Policy_changed u64 u64 u64 u64

type_synonym token_outcome = "(token_state \<times> token_event emitted list) result"

section \<open>Constants\<close>

definition DAY :: u64 where "DAY = 86400000"
definition FREE :: u64 where "FREE = 100000"
definition PER_TOKEN :: u64 where "PER_TOKEN = 1000"
definition MAX_SUPPLY :: u64 where "MAX_SUPPLY = 1000000"

lemmas token_constants = DAY_def FREE_def PER_TOKEN_def MAX_SUPPLY_def

section \<open>Configuration\<close>

definition cfg :: "token_state \<Rightarrow> token_config result" where
  "cfg st = require (tok_config st \<noteq> None) ''token not configured'' (non_null (tok_config st) ''c'')"

definition token_init :: "'w env \<Rightarrow> token_init_arguments \<Rightarrow> token_state \<Rightarrow> token_outcome" where
  "token_init env args st =
     require_authority env (contract_id env)
     (require (tok_config st = None) ''already initialized''
     (attempt (require_address (ti_identity args) ''identity'') (\<lambda>identity.
      attempt (require_address (ti_relationships args) ''relationships'') (\<lambda>relationships.
      attempt (require_address (ti_publications args) ''publications'') (\<lambda>publications.
      attempt (require_address (ti_messaging args) ''messaging'') (\<lambda>messaging.
      Inr (st\<lparr>tok_config := Some \<lparr>tok_identity = identity, tok_relationships = relationships,
             tok_publications = publications, tok_messaging = messaging, reward_amount = 1,
             daily_reward_cap = 1000, recipient_daily_cap = 10, tok_supply = 0\<rparr>\<rparr>, [])))))))"

definition set_reward_policy :: "'w env \<Rightarrow> set_reward_policy_arguments \<Rightarrow> token_state \<Rightarrow> token_outcome" where
  "set_reward_policy env args st =
     require_authority env (contract_id env)
     (require (rp_reward_amount args \<le> 10 \<and> rp_daily_reward_cap args \<le> 10000 \<and> rp_recipient_daily_cap args \<le> 100)
        ''reward policy exceeds pilot bounds''
     (attempt (cfg st) (\<lambda>c.
      let c' = c\<lparr>reward_amount := rp_reward_amount args, daily_reward_cap := rp_daily_reward_cap args,
                recipient_daily_cap := rp_recipient_daily_cap args\<rparr>
      in Inr (st\<lparr>tok_config := Some c'\<rparr>,
              [(Policy_changed (reward_amount c') (daily_reward_cap c') (recipient_daily_cap c') (now env), [])]))))"

section \<open>Accounts\<close>

text \<open>The account with its credits regenerated to the present; nothing is stored.\<close>

definition regenerate :: "u64 \<Rightarrow> account_state \<Rightarrow> account_state" where
  "regenerate t a =
     (let dt = (if t > acc_updated_at a then min (t - acc_updated_at a) DAY else 0);
          cap = balance a * PER_TOKEN
      in a\<lparr>free_credits := min FREE (free_credits a + (FREE * dt) div DAY),
           token_credits := min cap (token_credits a + (cap * dt) div DAY),
           acc_updated_at := t\<rparr>)"

definition load :: "'w env \<Rightarrow> bytes \<Rightarrow> token_state \<Rightarrow> account_state" where
  "load env account st =
     (let t = now env in
      case accounts st account of
        None \<Rightarrow> \<lparr>balance = 0, free_credits = FREE, token_credits = 0, acc_updated_at = t\<rparr>
      | Some a \<Rightarrow> regenerate t a)"

definition save :: "'w env \<Rightarrow> bytes \<Rightarrow> account_state \<Rightarrow> token_state \<Rightarrow> token_state \<times> token_event emitted" where
  "save env account a st =
     (st\<lparr>accounts := (accounts st)(account \<mapsto> a)\<rparr>, (Account_updated account a (now env), [account]))"

definition spend :: "'w env \<Rightarrow> bytes \<Rightarrow> u64 \<Rightarrow> token_state \<Rightarrow> token_outcome" where
  "spend env account units st =
     require (units > 0 \<and> units \<le> 100) ''invalid usage cost''
     (let cost = units * 1000;
          a = load env account st
      in require (free_credits a + token_credits a \<ge> cost)
           ''usage allowance exhausted; wait for regeneration''
         (let free = min (free_credits a) cost;
              a' = a\<lparr>free_credits := free_credits a - free,
                     token_credits := token_credits a - (cost - free)\<rparr>;
              (st', ev) = save env account a' st
          in Inr (st', [ev])))"

section \<open>Operations\<close>

definition consume :: "'w env \<Rightarrow> consume_arguments \<Rightarrow> token_state \<Rightarrow> token_outcome" where
  "consume env args st =
     attempt (cfg st) (\<lambda>c.
     require (caller env \<noteq> None \<and> (the (caller env) = tok_publications c \<or>
                the (caller env) = tok_messaging c \<or> the (caller env) = tok_relationships c))
       ''only protocol contracts may consume credits''
    (attempt (require_address (co_account args) ''account'') (\<lambda>account.
     spend env account (co_units args) st)))"

definition transfer :: "'w env \<Rightarrow> transfer_arguments \<Rightarrow> token_state \<Rightarrow> token_outcome" where
  "transfer env args st =
     attempt (require_address (tr_from args) ''from'') (\<lambda>from_addr.
     attempt (require_address (tr_to args) ''to'') (\<lambda>to_addr.
     require (from_addr \<noteq> to_addr) ''cannot transfer to yourself''
    (attempt (cfg st) (\<lambda>c.
     attempt (require_authorized env (tok_identity c) from_addr None 0) (\<lambda>_.
     attempt (actor_exists env (tok_identity c) to_addr) (\<lambda>registered.
     require registered ''recipient not registered''
    (let a = load env from_addr st;
         b = load env to_addr st
     in require (tr_value args > 0 \<and> tr_value args \<le> balance a) ''insufficient balance''
       (let moved = (token_credits a * tr_value args) div balance a;
            a' = a\<lparr>balance := balance a - tr_value args, token_credits := token_credits a - moved\<rparr>;
            b' = b\<lparr>balance := balance b + tr_value args, token_credits := token_credits b + moved\<rparr>;
            (st1, ev1) = save env from_addr a' st;
            (st2, ev2) = save env to_addr b' st1
        in Inr (st2, [ev1, ev2, (Transfer from_addr to_addr (tr_value args) (now env), [from_addr, to_addr])])))))))))"

definition burn :: "'w env \<Rightarrow> burn_arguments \<Rightarrow> token_state \<Rightarrow> token_outcome" where
  "burn env args st =
     attempt (require_address (bu_from args) ''from'') (\<lambda>from_addr.
     attempt (cfg st) (\<lambda>c.
     attempt (require_authorized env (tok_identity c) from_addr None 0) (\<lambda>_.
     let a = load env from_addr st
     in require (bu_value args > 0 \<and> bu_value args \<le> balance a) ''insufficient balance''
       (let a' = a\<lparr>token_credits := token_credits a - (token_credits a * bu_value args) div balance a,
                   balance := balance a - bu_value args\<rparr>;
            c' = c\<lparr>tok_supply := tok_supply c - bu_value args\<rparr>;
            (st', ev) = save env from_addr a' (st\<lparr>tok_config := Some c'\<rparr>)
        in Inr (st', [ev, (Burn from_addr (bu_value args) (now env), [from_addr])])))))"

text \<open>The block check of one direction; \<open>support\<close> runs it for both.\<close>

definition check_support_block :: "'w env \<Rightarrow> bytes \<Rightarrow> bytes \<Rightarrow> bytes \<Rightarrow> unit result" where
  "check_support_block env relationships x y =
     (case call_is_blocked env relationships x y of
        Call_Object blocked \<Rightarrow> require (\<not> blocked) ''support blocked'' (Inr ())
      | _ \<Rightarrow> Inl (Revert ''block lookup failed''))"

definition find_active_post :: "'w env \<Rightarrow> bytes \<Rightarrow> bytes \<Rightarrow> post_record result" where
  "find_active_post env publications post_id =
     (case call_get_post env publications post_id of
        Call_Object post \<Rightarrow>
          require (post \<noteq> None \<and> post_state (the post) = 0) ''post is not active''
          (non_null post ''post'')
      | _ \<Rightarrow> Inl (Revert ''post lookup failed''))"

text \<open>A reward counter of today: a missing or older one starts from zero.\<close>

definition of_day :: "u64 \<Rightarrow> reward_state option \<Rightarrow> reward_state" where
  "of_day day r = (case r of None \<Rightarrow> \<lparr>reward_day = day, minted = 0\<rparr>
     | Some s \<Rightarrow> if reward_day s \<noteq> day then \<lparr>reward_day = day, minted = 0\<rparr> else s)"

definition reward_due :: "token_config \<Rightarrow> reward_state \<Rightarrow> reward_state \<Rightarrow> u64" where
  "reward_due c global user =
     (let r1 = min (reward_amount c) (if daily_reward_cap c > minted global then daily_reward_cap c - minted global else 0);
          r2 = min r1 (if recipient_daily_cap c > minted user then recipient_daily_cap c - minted user else 0)
      in min r2 (MAX_SUPPLY - tok_supply c))"

text \<open>Minting the reward of a support, when there is one.\<close>

definition mint_reward :: "'w env \<Rightarrow> bytes \<Rightarrow> u64 \<Rightarrow> token_config \<Rightarrow> token_state \<Rightarrow> token_state \<times> token_event emitted list" where
  "mint_reward env recipient reward c st =
     (if reward > 0
      then let a = load env recipient st;
               a' = a\<lparr>balance := balance a + reward, token_credits := token_credits a + reward * PER_TOKEN\<rparr>;
               c' = c\<lparr>tok_supply := tok_supply c + reward\<rparr>;
               (st', ev) = save env recipient a' (st\<lparr>tok_config := Some c'\<rparr>)
           in (st', [ev])
      else (st, []))"

definition support :: "'w env \<Rightarrow> support_arguments \<Rightarrow> token_state \<Rightarrow> ((token_state \<times> u64) \<times> token_event emitted list) result" where
  "support env args st =
     attempt (require_address (su_actor args) ''actor'') (\<lambda>actor.
     attempt (require_bytes (su_post_id args) 32 ''post id'') (\<lambda>post_id.
     attempt (cfg st) (\<lambda>c.
     require (length post_id = 32) ''post id must be 32 bytes''
    (attempt (require_authorized env (tok_identity c) actor (su_device args) CAP_SUPPORT) (\<lambda>_.
     attempt (find_active_post env (tok_publications c) post_id) (\<lambda>post.
     let recipient = post_author post in
     require (actor \<noteq> recipient) ''cannot support your own post''
    (attempt (check_support_block env (tok_relationships c) actor recipient) (\<lambda>_.
     attempt (check_support_block env (tok_relationships c) recipient actor) (\<lambda>_.
     let key = concat_parts [actor, post_id] in
     require (supports st key = None) ''already supported this post''
    (attempt (spend env actor 1 st) (\<lambda>(st1, evs1).
     let day = now env div DAY;
         global = of_day day (global_reward st1);
         user = of_day day (rewards st1 recipient);
         reward = reward_due c global user;
         st2 = st1\<lparr>supports := (supports st1)(key \<mapsto> \<lparr>reward_day = day, minted = reward\<rparr>)\<rparr>;
         st3 = st2\<lparr>global_reward := Some (global\<lparr>minted := minted global + reward\<rparr>)\<rparr>;
         st4 = st3\<lparr>rewards := (rewards st3)(recipient \<mapsto> user\<lparr>minted := minted user + reward\<rparr>)\<rparr>;
         (st5, evs2) = mint_reward env recipient reward c st4
     in Inr ((st5, reward),
             evs1 @ evs2 @ [(Supported actor recipient post_id reward (now env), [actor, recipient])]))))))))))))"

section \<open>Reads\<close>

definition tok_get_config :: "token_state \<Rightarrow> token_config option" where
  "tok_get_config st = tok_config st"

definition get_account :: "'w env \<Rightarrow> bytes option \<Rightarrow> token_state \<Rightarrow> (account_state \<times> u64) result" where
  "get_account env account st =
     attempt (require_address account ''account'') (\<lambda>acc.
     let a = load env acc st in Inr (a, FREE + balance a * PER_TOKEN))"

definition balance_of :: "'w env \<Rightarrow> bytes option \<Rightarrow> token_state \<Rightarrow> u64 result" where
  "balance_of env owner st =
     attempt (require_address owner ''owner'') (\<lambda>acc. Inr (balance (load env acc st)))"

definition total_supply :: "token_state \<Rightarrow> u64 result" where
  "total_supply st = attempt (cfg st) (\<lambda>c. Inr (tok_supply c))"

definition token_name :: string where "token_name = ''Open Social Action Token''"
definition token_symbol :: string where "token_symbol = ''OSAT''"
definition token_decimals :: u32 where "token_decimals = 0"

section \<open>The contract as a transition system\<close>

datatype token_call =
    Call_token_init token_init_arguments
  | Call_set_reward_policy set_reward_policy_arguments
  | Call_consume consume_arguments
  | Call_transfer transfer_arguments
  | Call_burn burn_arguments
  | Call_support support_arguments

fun token_step :: "'w env \<Rightarrow> token_call \<Rightarrow> token_state \<Rightarrow> token_outcome" where
  "token_step env (Call_token_init args) st = token_init env args st"
| "token_step env (Call_set_reward_policy args) st = set_reward_policy env args st"
| "token_step env (Call_consume args) st = consume env args st"
| "token_step env (Call_transfer args) st = transfer env args st"
| "token_step env (Call_burn args) st = burn env args st"
| "token_step env (Call_support args) st =
     attempt (support env args st) (\<lambda>((st', reward), evs). Inr (st', evs))"

definition token_exec :: "'w env \<times> token_call \<Rightarrow> token_state \<Rightarrow> token_state result" where
  "token_exec tx st = map_sum id fst (token_step (fst tx) (snd tx) st)"

section \<open>Credits\<close>

text \<open>An account within the pilot bounds; every product below then fits in 64 bits.\<close>

definition account_ok :: "account_state \<Rightarrow> bool" where
  "account_ok a \<longleftrightarrow> unat (balance a) \<le> 1000000 \<and> unat (free_credits a) \<le> 100000 \<and>
     unat (token_credits a) \<le> 1000 * unat (balance a)"

definition elapsed :: "u64 \<Rightarrow> account_state \<Rightarrow> nat" where
  "elapsed t a = min (unat t - unat (acc_updated_at a)) 86400000"

lemma mult_bound: "a \<le> x \<Longrightarrow> b \<le> y \<Longrightarrow> a * b \<le> x * y" for a b x y :: nat
  by (rule mult_le_mono)

lemma unat_mult_bounded:
  fixes a b :: u64
  assumes "unat a \<le> x" and "unat b \<le> y" and "x * y < 2 ^ 64"
  shows "unat (a * b) = unat a * unat b"
proof -
  have "unat a * unat b \<le> x * y" using assms(1,2) by (rule mult_le_mono)
  with assms(3) show ?thesis by (intro word_mult_eq_unat) simp
qed

lemma unat_add_bounded:
  fixes a b :: u64
  assumes "unat a \<le> x" and "unat b \<le> y" and "x + y < 2 ^ 64"
  shows "unat (a + b) = unat a + unat b"
  using assms by (intro word_add_eq_unat) simp

text \<open>
  Regeneration computes what it says, over natural numbers and without any wrap-around: an
  account within the pilot bounds gains a day's share of its capacity per day elapsed (at most
  one day), up to the capacity, and stays within the bounds; its balance is untouched.
\<close>

theorem regenerate_exact:
  assumes "account_ok a"
  shows "unat (free_credits (regenerate t a)) =
      min 100000 (unat (free_credits a) + 100000 * elapsed t a div 86400000) \<and>
    unat (token_credits (regenerate t a)) =
      min (1000 * unat (balance a)) (unat (token_credits a) + 1000 * unat (balance a) * elapsed t a div 86400000) \<and>
    balance (regenerate t a) = balance a \<and> account_ok (regenerate t a)"
proof -
  define dt where "dt = (if t > acc_updated_at a then min (t - acc_updated_at a) DAY else 0)"
  have dt: "unat dt = elapsed t a"
    by (auto simp: dt_def elapsed_def unat_min unat_sub DAY_def word_less_nat_alt word_le_nat_alt)
  then have dt_le: "unat dt \<le> 86400000" by (simp add: elapsed_def)
  have bal: "unat (balance a) \<le> 1000000" and free: "unat (free_credits a) \<le> 100000"
    and tc: "unat (token_credits a) \<le> 1000 * unat (balance a)" using assms by (auto simp: account_ok_def)
  have cap: "unat (balance a * PER_TOKEN) = 1000 * unat (balance a)"
    using unat_mult_bounded [OF bal, of PER_TOKEN 1000] by (simp add: PER_TOKEN_def)
  then have cap_le: "unat (balance a * PER_TOKEN) \<le> 1000000000" using bal by simp
  have "unat (FREE * dt) = 100000 * unat dt"
    using unat_mult_bounded [of FREE 100000 dt 86400000] dt_le by (simp add: FREE_def)
  then have f: "unat (FREE * dt div DAY) = 100000 * unat dt div 86400000"
    by (simp add: unat_div_distrib DAY_def)
  then have "unat (FREE * dt div DAY) \<le> 100000" using dt_le by (simp add: div_le_mono)
  with free have free': "unat (free_credits a + FREE * dt div DAY) = unat (free_credits a) + 100000 * unat dt div 86400000"
    using f by (subst unat_add_bounded [of _ 100000 _ 100000]) simp_all
  have "unat (balance a * PER_TOKEN * dt) = 1000 * unat (balance a) * unat dt"
    using unat_mult_bounded [OF cap_le dt_le] cap by simp
  then have g: "unat (balance a * PER_TOKEN * dt div DAY) = 1000 * unat (balance a) * unat dt div 86400000"
    by (simp add: unat_div_distrib DAY_def)
  have "1000 * unat (balance a) * unat dt \<le> 1000000000 * 86400000"
    using bal dt_le by (intro mult_le_mono) simp_all
  then have "1000 * unat (balance a) * unat dt div 86400000 \<le> 1000000000"
    using div_le_mono [of "1000 * unat (balance a) * unat dt" "1000000000 * 86400000" 86400000] by simp
  then have tok': "unat (token_credits a + balance a * PER_TOKEN * dt div DAY) =
      unat (token_credits a) + 1000 * unat (balance a) * unat dt div 86400000"
    using tc bal g by (subst unat_add_bounded [of _ 1000000000 _ 1000000000]) simp_all
  have r: "regenerate t a = a\<lparr>free_credits := min FREE (free_credits a + FREE * dt div DAY),
      token_credits := min (balance a * PER_TOKEN) (token_credits a + balance a * PER_TOKEN * dt div DAY),
      acc_updated_at := t\<rparr>"
    by (simp add: regenerate_def Let_def dt_def)
  have "unat (free_credits (regenerate t a)) = min 100000 (unat (free_credits a) + 100000 * unat dt div 86400000)"
    using free' by (simp add: r unat_min FREE_def)
  moreover have "unat (token_credits (regenerate t a)) =
      min (1000 * unat (balance a)) (unat (token_credits a) + 1000 * unat (balance a) * unat dt div 86400000)"
    using tok' cap by (simp add: r unat_min)
  moreover have "balance (regenerate t a) = balance a" by (simp add: r)
  ultimately show ?thesis using bal by (simp add: dt account_ok_def)
qed

section \<open>The ledger\<close>

definition balance_nat :: "token_state \<Rightarrow> bytes \<Rightarrow> nat" where
  "balance_nat st k = (case accounts st k of None \<Rightarrow> 0 | Some a \<Rightarrow> unat (balance a))"

definition total_balance :: "token_state \<Rightarrow> nat" where
  "total_balance st = (\<Sum>k \<in> dom (accounts st). balance_nat st k)"

definition supply_nat :: "token_state \<Rightarrow> nat" where
  "supply_nat st = (case tok_config st of None \<Rightarrow> 0 | Some c \<Rightarrow> unat (tok_supply c))"

definition caps_ok :: "token_state \<Rightarrow> bool" where
  "caps_ok st \<longleftrightarrow>
     (\<forall>c. tok_config st = Some c \<longrightarrow> unat (reward_amount c) \<le> 10 \<and> unat (daily_reward_cap c) \<le> 10000 \<and>
        unat (recipient_daily_cap c) \<le> 100) \<and>
     (\<forall>g. global_reward st = Some g \<longrightarrow> unat (minted g) \<le> 10000) \<and>
     (\<forall>k u. rewards st k = Some u \<longrightarrow> unat (minted u) \<le> 100)"

definition credits_ok :: "token_state \<Rightarrow> bool" where
  "credits_ok st \<longleftrightarrow> (\<forall>k a. accounts st k = Some a \<longrightarrow> unat (free_credits a) \<le> 100000 \<and>
     unat (token_credits a) \<le> 1000 * unat (balance a))"

definition token_inv :: "token_state \<Rightarrow> bool" where
  "token_inv st \<longleftrightarrow> finite (dom (accounts st)) \<and> total_balance st = supply_nat st \<and> supply_nat st \<le> 1000000 \<and>
     credits_ok st \<and> caps_ok st"

lemma token_empty_inv: "token_inv token_empty"
  by (simp add: token_inv_def token_empty_def total_balance_def supply_nat_def credits_ok_def caps_ok_def)

text \<open>How the sum of the balances reacts to one write.\<close>

lemma total_balance_put:
  assumes "finite (dom (accounts st))" and "accounts st' = (accounts st)(k \<mapsto> a)"
  shows "total_balance st' + balance_nat st k = total_balance st + unat (balance a)"
proof -
  let ?D = "dom (accounts st) - {k}"
  have same: "(\<Sum>x \<in> ?D. balance_nat st' x) = (\<Sum>x \<in> ?D. balance_nat st x)"
    by (rule sum.cong) (auto simp: balance_nat_def assms(2))
  have "dom (accounts st') = insert k ?D" by (auto simp: assms(2))
  then have "total_balance st' = (\<Sum>x \<in> insert k ?D. balance_nat st' x)"
    by (simp only: total_balance_def)
  then have "total_balance st' = unat (balance a) + (\<Sum>x \<in> ?D. balance_nat st x)"
    using assms(1) same by (subst (asm) sum.insert) (simp_all add: balance_nat_def [of st' k] assms(2))
  moreover have "total_balance st = balance_nat st k + (\<Sum>x \<in> ?D. balance_nat st x)"
  proof (cases "k \<in> dom (accounts st)")
    case True
    then show ?thesis using assms(1) by (simp add: total_balance_def sum.remove [of _ k])
  next
    case False
    then have "balance_nat st k = 0" "?D = dom (accounts st)"
      by (auto simp: balance_nat_def split: option.splits)
    then show ?thesis by (simp add: total_balance_def)
  qed
  ultimately show ?thesis by simp
qed

lemma balance_le_total: "finite (dom (accounts st)) \<Longrightarrow> balance_nat st k \<le> total_balance st"
proof (cases "k \<in> dom (accounts st)")
  case False
  then show ?thesis by (auto simp: balance_nat_def split: option.splits)
next
  case True
  assume "finite (dom (accounts st))"
  with True show ?thesis unfolding total_balance_def by (intro member_le_sum) simp_all
qed

lemma token_inv_bound: "token_inv st \<Longrightarrow> balance_nat st k \<le> supply_nat st"
  using balance_le_total [of st k] by (simp add: token_inv_def)

text \<open>A loaded account is within the bounds and has the stored balance.\<close>

lemma load_ok:
  assumes "token_inv st"
  shows "account_ok (load env k st)" and "unat (balance (load env k st)) = balance_nat st k"
proof -
  have "account_ok a" if "accounts st k = Some a" for a
    using token_inv_bound [OF assms, of k] assms that
    by (simp add: account_ok_def balance_nat_def token_inv_def credits_ok_def)
  then show "account_ok (load env k st)" "unat (balance (load env k st)) = balance_nat st k"
    using regenerate_exact by (auto simp: load_def Let_def balance_nat_def account_ok_def FREE_def split: option.split)
qed

text \<open>Any one write that keeps the credit bounds and the sum keeps the invariant.\<close>

lemma token_inv_put:
  assumes inv: "token_inv st" and a: "account_ok a"
    and acc: "accounts st' = (accounts st)(k \<mapsto> a)"
    and sum: "supply_nat st' + balance_nat st k = supply_nat st + unat (balance a)"
    and sup: "supply_nat st' \<le> 1000000" and caps: "caps_ok st'"
  shows "token_inv st'"
proof -
  have "finite (dom (accounts st'))" using inv acc by (simp add: token_inv_def)
  moreover have "total_balance st' = supply_nat st'"
    using total_balance_put [OF _ acc] inv sum by (simp add: token_inv_def)
  moreover have "credits_ok st'" using inv a by (auto simp: credits_ok_def acc token_inv_def account_ok_def)
  ultimately show ?thesis using sup caps by (simp add: token_inv_def)
qed

section \<open>Spending\<close>

definition credits_nat :: "account_state \<Rightarrow> nat" where
  "credits_nat a = unat (free_credits a) + unat (token_credits a)"

lemma spend_Inr:
  assumes inv: "token_inv st" and ok: "spend env account units st = Inr (st', evs)"
  obtains a' where "1 \<le> unat units" "unat units \<le> 100" "1000 * unat units \<le> credits_nat (load env account st)"
    "st' = st\<lparr>accounts := (accounts st)(account \<mapsto> a')\<rparr>" "account_ok a'"
    "balance a' = balance (load env account st)" "acc_updated_at a' = acc_updated_at (load env account st)"
    "credits_nat a' = credits_nat (load env account st) - 1000 * unat units"
    "unat (free_credits a') = unat (free_credits (load env account st)) - 1000 * unat units"
    "evs = [(Account_updated account a' (now env), [account])]"
proof -
  define a where "a = load env account st"
  define cost where "cost = units * 1000"
  have a_ok: "account_ok a" using load_ok(1) [OF inv] by (simp add: a_def)
  from ok have u: "units > 0" "units \<le> 100" and enough: "cost \<le> free_credits a + token_credits a"
    and st': "st' = st\<lparr>accounts := (accounts st)(account \<mapsto> a\<lparr>free_credits := free_credits a - min (free_credits a) cost,
       token_credits := token_credits a - (cost - min (free_credits a) cost)\<rparr>)\<rparr>"
    and evs: "evs = [(Account_updated account (a\<lparr>free_credits := free_credits a - min (free_credits a) cost,
       token_credits := token_credits a - (cost - min (free_credits a) cost)\<rparr>) (now env), [account])]"
    by (auto simp: spend_def Let_def save_def a_def cost_def)
  have units: "1 \<le> unat units" "unat units \<le> 100"
    using u by (auto simp: word_less_nat_alt word_le_nat_alt)
  have cost: "unat cost = 1000 * unat units"
    using unat_mult_bounded [OF units(2), of 1000 1000] by (simp add: cost_def)
  have sum: "unat (free_credits a + token_credits a) = credits_nat a"
    using a_ok unat_add_bounded [of "free_credits a" 100000 "token_credits a" 1000000000]
    by (simp add: account_ok_def credits_nat_def)
  let ?free = "min (free_credits a) cost"
  have free: "unat ?free = min (unat (free_credits a)) (1000 * unat units)" by (simp add: unat_min cost)
  have f': "unat (free_credits a - ?free) = unat (free_credits a) - 1000 * unat units"
    by (subst unat_sub) (simp_all add: free)
  have rest: "unat (cost - ?free) = 1000 * unat units - unat ?free"
    by (subst unat_sub) (simp_all add: cost)
  have enough': "1000 * unat units \<le> credits_nat a"
    using enough sum cost by (simp add: word_le_nat_alt)
  then have le: "cost - ?free \<le> token_credits a"
    using rest free by (simp add: word_le_nat_alt credits_nat_def)
  have t': "unat (token_credits a - (cost - ?free)) = unat (token_credits a) - (1000 * unat units - unat ?free)"
    using le rest by (simp add: unat_sub)
  show thesis
  proof (rule that)
    show "st' = st\<lparr>accounts := (accounts st)(account \<mapsto> a\<lparr>free_credits := free_credits a - ?free,
       token_credits := token_credits a - (cost - ?free)\<rparr>)\<rparr>" by (rule st')
    show "account_ok (a\<lparr>free_credits := free_credits a - ?free, token_credits := token_credits a - (cost - ?free)\<rparr>)"
      using a_ok f' t' by (auto simp: account_ok_def intro: le_trans [OF diff_le_self])
    show "credits_nat (a\<lparr>free_credits := free_credits a - ?free, token_credits := token_credits a - (cost - ?free)\<rparr>) =
        credits_nat (load env account st) - 1000 * unat units"
      using f' t' free enough' by (simp add: credits_nat_def a_def [symmetric]) (auto simp: min_def)
    show "evs = [(Account_updated account (a\<lparr>free_credits := free_credits a - ?free,
       token_credits := token_credits a - (cost - ?free)\<rparr>) (now env), [account])]" by (rule evs)
  qed (use units enough' f' in \<open>simp_all add: a_def [symmetric]\<close>)
qed

lemma spend_inv:
  assumes inv: "token_inv st" and ok: "spend env account units st = Inr (st', evs)"
  shows "token_inv st'"
  using inv ok
proof (rule spend_Inr)
  fix a'
  assume st': "st' = st\<lparr>accounts := (accounts st)(account \<mapsto> a')\<rparr>" and a': "account_ok a'"
    and b: "balance a' = balance (load env account st)"
  from inv a' show ?thesis
    by (rule token_inv_put)
      (use inv b load_ok(2) [OF inv, of env account] in \<open>simp_all add: st' supply_nat_def token_inv_def caps_ok_def\<close>)
qed

section \<open>Transfers and burns\<close>

text \<open>
  The share of token-backed credits that moves with a transfer or goes with a burn: it neither
  exceeds the credits there are nor leaves more behind than the remaining balance backs.
\<close>

lemma moved_share:
  fixes b v c :: nat
  assumes "v \<le> b" and "0 < b" and "c \<le> 1000 * b"
  shows "c * v div b \<le> c" and "c * v div b \<le> 1000 * v" and "c - c * v div b \<le> 1000 * (b - v)"
proof -
  show "c * v div b \<le> c" using assms(1,2) by (metis div_le_mono mult_le_mono2 nonzero_mult_div_cancel_right less_not_refl)
  have "c * v div b \<le> 1000 * b * v div b" using assms(3) by (intro div_le_mono mult_le_mono1)
  also have "1000 * b * v div b = 1000 * v" using assms(2) by (simp add: mult.assoc mult.left_commute [of _ b])
  finally show "c * v div b \<le> 1000 * v" .
  have "c * (b - v) \<le> 1000 * (b - v) * b"
    using mult_le_mono1 [OF assms(3), of "b - v"] by (simp add: mult.commute mult.left_commute)
  moreover have "c * (b - v) = c * b - c * v" by (simp add: diff_mult_distrib2)
  ultimately have "c * b \<le> 1000 * (b - v) * b + c * v" by linarith
  then have "c * b div b \<le> (1000 * (b - v) * b + c * v) div b" by (rule div_le_mono)
  then show "c - c * v div b \<le> 1000 * (b - v)"
    using assms(2) by simp
qed

lemma moved_credits:
  assumes a: "account_ok a" and v: "v \<le> balance a" "0 < v"
  defines "m \<equiv> (token_credits a * v) div balance a"
  shows "unat m = unat (token_credits a) * unat v div unat (balance a)"
    and "unat m \<le> unat (token_credits a)" and "unat m \<le> 1000 * unat v"
    and "unat (token_credits a - m) = unat (token_credits a) - unat m"
    and "unat (balance a - v) = unat (balance a) - unat v"
    and "account_ok (a\<lparr>balance := balance a - v, token_credits := token_credits a - m\<rparr>)"
proof -
  have v': "unat v \<le> unat (balance a)" "0 < unat v" using v by (auto simp: word_le_nat_alt word_less_nat_alt)
  have bal: "unat (balance a) \<le> 1000000" and tc: "unat (token_credits a) \<le> 1000 * unat (balance a)"
    and fc: "unat (free_credits a) \<le> 100000"
    using a by (auto simp: account_ok_def)
  have "unat (token_credits a * v) = unat (token_credits a) * unat v"
    using unat_mult_bounded [of "token_credits a" 1000000000 v 1000000] tc bal v' by simp
  then show m: "unat m = unat (token_credits a) * unat v div unat (balance a)"
    by (simp add: m_def unat_div_distrib)
  note share = moved_share [OF v'(1) _ tc, folded m]
  have pos: "0 < unat (balance a)" using v' by simp
  show le: "unat m \<le> unat (token_credits a)" and "unat m \<le> 1000 * unat v" using share pos by simp_all
  show tc': "unat (token_credits a - m) = unat (token_credits a) - unat m"
    using le by (simp add: unat_sub word_le_nat_alt)
  show b': "unat (balance a - v) = unat (balance a) - unat v" using v(1) by (simp add: unat_sub)
  show "account_ok (a\<lparr>balance := balance a - v, token_credits := token_credits a - m\<rparr>)"
    using share(3) pos bal fc tc' b' by (simp add: account_ok_def)
qed

lemma received_credits:
  assumes b: "account_ok b" and "unat (balance b) + unat v \<le> 1000000" and "unat m \<le> 1000 * unat v"
  shows "unat (balance b + v) = unat (balance b) + unat v"
    and "unat (token_credits b + m) = unat (token_credits b) + unat m"
    and "account_ok (b\<lparr>balance := balance b + v, token_credits := token_credits b + m\<rparr>)"
proof -
  have tc: "unat (token_credits b) \<le> 1000 * unat (balance b)" and fc: "unat (free_credits b) \<le> 100000"
    using b by (auto simp: account_ok_def)
  show bal: "unat (balance b + v) = unat (balance b) + unat v"
    using assms(2) by (intro word_add_eq_unat) simp
  show cr: "unat (token_credits b + m) = unat (token_credits b) + unat m"
    using assms(2,3) tc by (intro word_add_eq_unat) simp
  show "account_ok (b\<lparr>balance := balance b + v, token_credits := token_credits b + m\<rparr>)"
    using assms(2,3) tc fc bal cr by (simp add: account_ok_def)
qed

text \<open>The two accounts a transfer writes.\<close>

lemma transfer_Inr:
  assumes "transfer env args st = Inr (st', evs)"
  obtains x y c a b m where "tr_from args = Some x" "tr_to args = Some y" "x \<noteq> y" "length x = 25" "length y = 25"
    "tok_config st = Some c" "\<exists>sg. require_authorized env (tok_identity c) x None 0 = Inr sg"
    "actor_exists env (tok_identity c) y = Inr True"
    "a = load env x st" "b = load env y st" "0 < tr_value args" "tr_value args \<le> balance a"
    "m = (token_credits a * tr_value args) div balance a"
    "st' = st\<lparr>accounts := (accounts st)
       (x \<mapsto> a\<lparr>balance := balance a - tr_value args, token_credits := token_credits a - m\<rparr>,
        y \<mapsto> b\<lparr>balance := balance b + tr_value args, token_credits := token_credits b + m\<rparr>)\<rparr>"
  using assms by (auto simp: transfer_def Let_def save_def cfg_def)

text \<open>Two accounts of a sound ledger never hold more than the supply between them.\<close>

lemma two_balances:
  assumes inv: "token_inv st" and "x \<noteq> y"
  shows "balance_nat st x + balance_nat st y \<le> supply_nat st"
proof -
  define st1 where "st1 = st\<lparr>accounts := (accounts st)(x \<mapsto> \<lparr>balance = 0, free_credits = 0, token_credits = 0, acc_updated_at = 0\<rparr>)\<rparr>"
  have fin: "finite (dom (accounts st))" using inv by (simp add: token_inv_def)
  then have "total_balance st1 + balance_nat st x = total_balance st"
    using total_balance_put [of st st1 x] by (simp add: st1_def)
  moreover have "balance_nat st1 y \<le> total_balance st1"
    using fin by (intro balance_le_total) (simp add: st1_def)
  moreover have "balance_nat st1 y = balance_nat st y" using assms(2) by (simp add: st1_def balance_nat_def)
  ultimately show ?thesis using inv by (simp add: token_inv_def)
qed

lemma transfer_inv:
  assumes inv: "token_inv st" and tr: "transfer env args st = Inr (st', evs)"
  shows "token_inv st'"
  using tr
proof (rule transfer_Inr)
  fix x y c a b m
  assume xy: "x \<noteq> y" and a: "a = load env x st" and b: "b = load env y st"
    and v: "0 < tr_value args" "tr_value args \<le> balance a"
    and m: "m = (token_credits a * tr_value args) div balance a"
    and st': "st' = st\<lparr>accounts := (accounts st)
       (x \<mapsto> a\<lparr>balance := balance a - tr_value args, token_credits := token_credits a - m\<rparr>,
        y \<mapsto> b\<lparr>balance := balance b + tr_value args, token_credits := token_credits b + m\<rparr>)\<rparr>"
  define a' where "a' = a\<lparr>balance := balance a - tr_value args, token_credits := token_credits a - m\<rparr>"
  define b' where "b' = b\<lparr>balance := balance b + tr_value args, token_credits := token_credits b + m\<rparr>"
  define st1 where "st1 = st\<lparr>accounts := (accounts st)(x \<mapsto> a')\<rparr>"
  have a_ok: "account_ok a" "unat (balance a) = balance_nat st x"
    and b_ok: "account_ok b" "unat (balance b) = balance_nat st y"
    using load_ok [OF inv] by (simp_all add: a b)
  note sent = moved_credits [OF a_ok(1) v(2,1), folded m]
  have v': "unat (tr_value args) \<le> balance_nat st x" using v(2) a_ok(2) by (simp add: word_le_nat_alt)
  have fin: "finite (dom (accounts st))" and sum: "total_balance st = supply_nat st" "supply_nat st \<le> 1000000"
    using inv by (simp_all add: token_inv_def)
  have "unat (balance b) + unat (tr_value args) \<le> 1000000"
    using two_balances [OF inv xy] v' b_ok(2) sum(2) by linarith
  note recv = received_credits [OF b_ok(1) this sent(3)]
  have t1: "total_balance st1 + unat (tr_value args) = total_balance st"
    using total_balance_put [OF fin, of st1 x a'] a_ok(2) sent(5) v' by (simp add: st1_def a'_def)
  have "balance_nat st1 y = balance_nat st y" using xy by (simp add: st1_def balance_nat_def)
  then have "total_balance st' = total_balance st"
    using total_balance_put [of st1 st' y b'] fin t1 recv(1) b_ok(2)
    by (simp add: st' st1_def a'_def b'_def)
  moreover have "credits_ok st'"
    using inv sent(6) recv(3) by (auto simp: st' credits_ok_def token_inv_def account_ok_def)
  moreover have "supply_nat st' = supply_nat st" "caps_ok st'" "finite (dom (accounts st'))"
    using inv by (simp_all add: st' supply_nat_def caps_ok_def token_inv_def)
  ultimately show ?thesis using sum by (simp add: token_inv_def)
qed

lemma burn_Inr:
  assumes "burn env args st = Inr (st', evs)"
  obtains x c a m where "bu_from args = Some x" "length x = 25" "tok_config st = Some c"
    "\<exists>sg. require_authorized env (tok_identity c) x None 0 = Inr sg" "a = load env x st"
    "0 < bu_value args" "bu_value args \<le> balance a" "m = (token_credits a * bu_value args) div balance a"
    "st' = st\<lparr>tok_config := Some (c\<lparr>tok_supply := tok_supply c - bu_value args\<rparr>), accounts := (accounts st)
       (x \<mapsto> a\<lparr>token_credits := token_credits a - m, balance := balance a - bu_value args\<rparr>)\<rparr>"
  using assms by (auto simp: burn_def Let_def save_def cfg_def)

lemma burn_inv:
  assumes inv: "token_inv st" and bu: "burn env args st = Inr (st', evs)"
  shows "token_inv st'" and "supply_nat st' + unat (bu_value args) = supply_nat st"
proof (atomize (full), use bu in \<open>rule burn_Inr\<close>)
  fix x c a m
  assume c: "tok_config st = Some c" and a: "a = load env x st"
    and v: "0 < bu_value args" "bu_value args \<le> balance a"
    and m: "m = (token_credits a * bu_value args) div balance a"
    and st': "st' = st\<lparr>tok_config := Some (c\<lparr>tok_supply := tok_supply c - bu_value args\<rparr>), accounts := (accounts st)
       (x \<mapsto> a\<lparr>token_credits := token_credits a - m, balance := balance a - bu_value args\<rparr>)\<rparr>"
  have a_ok: "account_ok a" "unat (balance a) = balance_nat st x" using load_ok [OF inv] by (simp_all add: a)
  note sent = moved_credits [OF a_ok(1) v(2,1), folded m]
  have v': "unat (bu_value args) \<le> balance_nat st x" using v(2) a_ok(2) by (simp add: word_le_nat_alt)
  then have "unat (bu_value args) \<le> unat (tok_supply c)"
    using token_inv_bound [OF inv, of x] c by (simp add: supply_nat_def)
  then have sup: "supply_nat st' + unat (bu_value args) = supply_nat st"
    by (simp add: st' supply_nat_def c unat_sub word_le_nat_alt)
  have "account_ok (a\<lparr>token_credits := token_credits a - m, balance := balance a - bu_value args\<rparr>)"
    using sent(6) by (simp add: account_ok_def)
  with inv have "token_inv st'"
  proof (rule token_inv_put)
    show "supply_nat st' + balance_nat st x = supply_nat st +
        unat (balance (a\<lparr>token_credits := token_credits a - m, balance := balance a - bu_value args\<rparr>))"
      using sup sent(5) a_ok(2) v' by simp
    show "supply_nat st' \<le> 1000000" using sup inv by (simp add: token_inv_def)
    show "caps_ok st'" using inv c by (auto simp: st' token_inv_def caps_ok_def)
  qed (simp add: st')
  with sup show "token_inv st' \<and> supply_nat st' + unat (bu_value args) = supply_nat st" by simp
qed

section \<open>Support\<close>

lemma min_room:
  fixes cap m r0 :: u64
  shows "unat (min r0 (if cap > m then cap - m else 0)) = min (unat r0) (unat cap - unat m)"
  by (auto simp: unat_min unat_sub word_less_nat_alt word_le_nat_alt)

text \<open>The reward due, over natural numbers: the least of the amount and the room under the caps.\<close>

lemma reward_due_nat:
  assumes "unat (tok_supply c) \<le> 1000000"
  shows "unat (reward_due c g u) =
    min (min (min (unat (reward_amount c)) (unat (daily_reward_cap c) - unat (minted g)))
      (unat (recipient_daily_cap c) - unat (minted u))) (1000000 - unat (tok_supply c))"
proof -
  have "tok_supply c \<le> MAX_SUPPLY" using assms by (simp add: word_le_nat_alt MAX_SUPPLY_def)
  then have "unat (MAX_SUPPLY - tok_supply c) = 1000000 - unat (tok_supply c)"
    by (simp add: unat_sub MAX_SUPPLY_def)
  then show ?thesis by (simp only: reward_due_def Let_def unat_min [of _ "MAX_SUPPLY - tok_supply c"] min_room)
qed

lemma load_accounts: "accounts s = accounts t \<Longrightarrow> load env k s = load env k t"
  by (simp add: load_def)

lemma spend_fields:
  assumes "spend env account units st = Inr (st', evs)"
  shows "\<exists>a. st' = st\<lparr>accounts := (accounts st)(account \<mapsto> a)\<rparr>"
  using assms by (auto simp: spend_def Let_def save_def)

lemma support_Inr:
  assumes "support env args st = Inr ((st', r), evs)"
  obtains actor pid c post st1 evs1 g u st4 evs2 where
    "su_actor args = Some actor" "length actor = 25" "su_post_id args = Some pid" "length pid = 32"
    "tok_config st = Some c" "actor \<noteq> post_author post"
    "\<exists>sg. require_authorized env (tok_identity c) actor (su_device args) CAP_SUPPORT = Inr sg"
    "find_active_post env (tok_publications c) pid = Inr post"
    "check_support_block env (tok_relationships c) actor (post_author post) = Inr ()"
    "check_support_block env (tok_relationships c) (post_author post) actor = Inr ()"
    "supports st (actor @ pid) = None" "spend env actor 1 st = Inr (st1, evs1)"
    "g = of_day (now env div DAY) (global_reward st)"
    "u = of_day (now env div DAY) (rewards st (post_author post))" "r = reward_due c g u"
    "st4 = st1\<lparr>supports := (supports st)(actor @ pid \<mapsto> \<lparr>reward_day = now env div DAY, minted = r\<rparr>),
       global_reward := Some (g\<lparr>minted := minted g + r\<rparr>),
       rewards := (rewards st)(post_author post \<mapsto> u\<lparr>minted := minted u + r\<rparr>)\<rparr>"
    "mint_reward env (post_author post) r c st4 = (st', evs2)"
proof -
  from assms obtain actor pid c post st1 evs1 where a:
    "su_actor args = Some actor" "length actor = 25" "su_post_id args = Some pid" "length pid = 32"
    "tok_config st = Some c" "actor \<noteq> post_author post"
    "\<exists>sg. require_authorized env (tok_identity c) actor (su_device args) CAP_SUPPORT = Inr sg"
    "find_active_post env (tok_publications c) pid = Inr post"
    "check_support_block env (tok_relationships c) actor (post_author post) = Inr ()"
    "check_support_block env (tok_relationships c) (post_author post) actor = Inr ()"
    "supports st (actor @ pid) = None" "spend env actor 1 st = Inr (st1, evs1)"
    and rest: "(let day = now env div DAY;
         global = of_day day (global_reward st1);
         user = of_day day (rewards st1 (post_author post));
         reward = reward_due c global user;
         st2 = st1\<lparr>supports := (supports st1)(actor @ pid \<mapsto> \<lparr>reward_day = day, minted = reward\<rparr>)\<rparr>;
         st3 = st2\<lparr>global_reward := Some (global\<lparr>minted := minted global + reward\<rparr>)\<rparr>;
         st4 = st3\<lparr>rewards := (rewards st3)(post_author post \<mapsto> user\<lparr>minted := minted user + reward\<rparr>)\<rparr>;
         (st5, evs2) = mint_reward env (post_author post) reward c st4
     in Inr ((st5, reward),
             evs1 @ evs2 @ [(Supported actor (post_author post) pid reward (now env), [actor, post_author post])]))
       = (Inr ((st', r), evs) :: ((token_state \<times> u64) \<times> token_event emitted list) result)"
    unfolding support_def Let_def by (auto simp: cfg_def)
  have same: "supports st1 = supports st" "global_reward st1 = global_reward st" "rewards st1 = rewards st"
    using spend_fields [OF a(12)] by auto
  obtain st5 evs2 where m: "mint_reward env (post_author post) r c (st1\<lparr>supports := (supports st)(actor @ pid \<mapsto>
       \<lparr>reward_day = now env div DAY, minted = r\<rparr>),
       global_reward := Some ((of_day (now env div DAY) (global_reward st))\<lparr>minted := minted (of_day (now env div DAY) (global_reward st)) + r\<rparr>),
       rewards := (rewards st)(post_author post \<mapsto> (of_day (now env div DAY) (rewards st (post_author post)))\<lparr>minted :=
         minted (of_day (now env div DAY) (rewards st (post_author post))) + r\<rparr>)\<rparr>) = (st5, evs2)"
    by (cases "mint_reward env (post_author post) r c (st1\<lparr>supports := (supports st)(actor @ pid \<mapsto>
       \<lparr>reward_day = now env div DAY, minted = r\<rparr>),
       global_reward := Some ((of_day (now env div DAY) (global_reward st))\<lparr>minted := minted (of_day (now env div DAY) (global_reward st)) + r\<rparr>),
       rewards := (rewards st)(post_author post \<mapsto> (of_day (now env div DAY) (rewards st (post_author post)))\<lparr>minted :=
         minted (of_day (now env div DAY) (rewards st (post_author post))) + r\<rparr>)\<rparr>)") blast
  from rest have r: "r = reward_due c (of_day (now env div DAY) (global_reward st)) (of_day (now env div DAY) (rewards st (post_author post)))"
    by (simp add: Let_def same split: prod.splits)
  from rest m have "st5 = st'" by (simp add: Let_def same r [symmetric])
  with a m r show thesis by (intro that [OF a refl refl r refl]) simp
qed

lemma of_day_minted: "(\<And>s. r = Some s \<Longrightarrow> unat (minted s) \<le> n) \<Longrightarrow> unat (minted (of_day d r)) \<le> n"
  by (auto simp: of_day_def split: option.split)

text \<open>A support mints exactly the reward due and stays within every cap.\<close>

lemma support_facts:
  assumes inv: "token_inv st" and ok: "support env args st = Inr ((st', r), evs)"
  shows "token_inv st'" and "supply_nat st' = supply_nat st + unat r"
    and "\<exists>c g. tok_config st = Some c \<and> g = of_day (now env div DAY) (global_reward st) \<and>
      unat r \<le> unat (reward_amount c) \<and> unat r \<le> unat (daily_reward_cap c) - unat (minted g) \<and>
      global_reward st' = Some (g\<lparr>minted := minted g + r\<rparr>) \<and> unat (minted g + r) = unat (minted g) + unat r"
proof (atomize (full), use ok in \<open>rule support_Inr\<close>)
  fix actor pid c post st1 evs1 g u st4 evs2
  assume c: "tok_config st = Some c" and sp: "spend env actor 1 st = Inr (st1, evs1)"
    and g: "g = of_day (now env div DAY) (global_reward st)"
    and u: "u = of_day (now env div DAY) (rewards st (post_author post))" and r: "r = reward_due c g u"
    and st4: "st4 = st1\<lparr>supports := (supports st)(actor @ pid \<mapsto> \<lparr>reward_day = now env div DAY, minted = r\<rparr>),
       global_reward := Some (g\<lparr>minted := minted g + r\<rparr>),
       rewards := (rewards st)(post_author post \<mapsto> u\<lparr>minted := minted u + r\<rparr>)\<rparr>"
    and mint: "mint_reward env (post_author post) r c st4 = (st', evs2)"
  have inv1: "token_inv st1" using inv sp by (rule spend_inv)
  have same: "tok_config st1 = Some c" "global_reward st1 = global_reward st" "rewards st1 = rewards st"
    using spend_fields [OF sp] c by auto
  have caps: "caps_ok st" using inv by (simp add: token_inv_def)
  have sup: "unat (tok_supply c) \<le> 1000000" using inv c by (simp add: token_inv_def supply_nat_def)
  have amount: "unat (reward_amount c) \<le> 10" "unat (daily_reward_cap c) \<le> 10000" "unat (recipient_daily_cap c) \<le> 100"
    using caps c by (auto simp: caps_ok_def)
  have mg: "unat (minted g) \<le> 10000" and mu: "unat (minted u) \<le> 100"
    using caps unfolding g u by (auto intro!: of_day_minted simp: caps_ok_def)
  note due = reward_due_nat [OF sup, of g u, folded r]
  have room: "unat r \<le> unat (reward_amount c)" "unat r \<le> unat (daily_reward_cap c) - unat (minted g)"
    "unat r \<le> unat (recipient_daily_cap c) - unat (minted u)" "unat r \<le> 1000000 - unat (tok_supply c)"
    unfolding due by (meson min.cobounded1 min.cobounded2 order_trans)+
  have small: "unat r \<le> 10" using room(1) amount(1) by simp
  have up: "unat (minted g + r) = unat (minted g) + unat r" "unat (minted u + r) = unat (minted u) + unat r"
    "unat (tok_supply c + r) = unat (tok_supply c) + unat r"
    using mg mu sup small by (simp_all add: word_add_eq_unat)
  have acc4: "accounts st4 = accounts st1" "tok_config st4 = Some c" by (simp_all add: st4 same)
  have inv4: "token_inv st4"
  proof -
    have "unat (minted g + r) \<le> 10000" "unat (minted u + r) \<le> 100"
      using up mg mu room(2,3) amount by linarith+
    then have "caps_ok st4" using caps c by (auto simp: caps_ok_def st4 same)
    moreover have "total_balance st4 = total_balance st1" "supply_nat st4 = supply_nat st1"
      by (simp_all add: total_balance_def balance_nat_def acc4 supply_nat_def same)
    ultimately show ?thesis using inv1 by (simp add: token_inv_def acc4 credits_ok_def)
  qed
  have third: "\<exists>c g. tok_config st = Some c \<and> g = of_day (now env div DAY) (global_reward st) \<and>
      unat r \<le> unat (reward_amount c) \<and> unat r \<le> unat (daily_reward_cap c) - unat (minted g) \<and>
      global_reward st' = Some (g\<lparr>minted := minted g + r\<rparr>) \<and> unat (minted g + r) = unat (minted g) + unat r"
    using c g room up mint by (auto simp: mint_reward_def Let_def save_def st4 split: if_splits)
  have s4: "supply_nat st4 = supply_nat st" by (simp add: supply_nat_def acc4 c)
  have "token_inv st' \<and> supply_nat st' = supply_nat st + unat r"
  proof (cases "r > 0")
    case False
    then have "r = 0" by (simp add: word_gt_0)
    with mint have "st' = st4" "unat r = 0" by (simp_all add: mint_reward_def)
    with inv4 s4 show ?thesis by simp
  next
    case True
    define a where "a = load env (post_author post) st4"
    define a' where "a' = a\<lparr>balance := balance a + r, token_credits := token_credits a + r * PER_TOKEN\<rparr>"
    from True mint have st': "st' = st4\<lparr>tok_config := Some (c\<lparr>tok_supply := tok_supply c + r\<rparr>),
        accounts := (accounts st4)(post_author post \<mapsto> a')\<rparr>"
      by (auto simp: mint_reward_def Let_def save_def a_def a'_def load_def)
    have a_ok: "account_ok a" "unat (balance a) = balance_nat st4 (post_author post)"
      using load_ok [OF inv4] by (simp_all add: a_def)
    have "unat (balance a) \<le> unat (tok_supply c)"
      using token_inv_bound [OF inv4, of "post_author post"] a_ok(2) by (simp add: supply_nat_def acc4)
    then have total: "unat (balance a) + unat r \<le> 1000000" using room(4) sup by linarith
    have "unat (r * PER_TOKEN) = 1000 * unat r"
      using unat_mult_bounded [OF small, of PER_TOKEN 1000] by (simp add: PER_TOKEN_def)
    note recv = received_credits [OF a_ok(1) total, of "r * PER_TOKEN", folded a'_def, OF eq_imp_le [OF this]]
    have sup': "supply_nat st' = supply_nat st + unat r"
      using up(3) c by (simp add: st' supply_nat_def)
    from inv4 recv(3) have "token_inv st'"
    proof (rule token_inv_put)
      show "supply_nat st' + balance_nat st4 (post_author post) = supply_nat st4 + unat (balance a')"
        using sup' s4 recv(1) a_ok(2) by (simp add: a'_def)
      show "supply_nat st' \<le> 1000000" using sup' c room(4) sup by (simp add: supply_nat_def)
      show "caps_ok st'" using inv4 acc4 by (auto simp: st' token_inv_def caps_ok_def)
    qed (simp add: st')
    with sup' show ?thesis by simp
  qed
  with third show "token_inv st' \<and> supply_nat st' = supply_nat st + unat r \<and>
      (\<exists>c g. tok_config st = Some c \<and> g = of_day (now env div DAY) (global_reward st) \<and>
      unat r \<le> unat (reward_amount c) \<and> unat r \<le> unat (daily_reward_cap c) - unat (minted g) \<and>
      global_reward st' = Some (g\<lparr>minted := minted g + r\<rparr>) \<and> unat (minted g + r) = unat (minted g) + unat r)"
    by blast
qed

section \<open>Every history is sound\<close>

lemma token_init_inv:
  assumes "token_inv st" and "token_init env args st = Inr (st', evs)"
  shows "token_inv st'"
  using assms by (auto simp: token_init_def token_inv_def total_balance_def balance_nat_def supply_nat_def
      credits_ok_def caps_ok_def)

lemma set_reward_policy_inv:
  assumes "token_inv st" and "set_reward_policy env args st = Inr (st', evs)"
  shows "token_inv st'" and "supply_nat st' = supply_nat st" and "global_reward st' = global_reward st"
    and "accounts st' = accounts st" and "supports st' = supports st" and "rewards st' = rewards st"
proof -
  from assms(2) obtain c where c: "tok_config st = Some c"
    and b: "rp_reward_amount args \<le> 10" "rp_daily_reward_cap args \<le> 10000" "rp_recipient_daily_cap args \<le> 100"
    and st': "st' = st\<lparr>tok_config := Some (c\<lparr>reward_amount := rp_reward_amount args,
       daily_reward_cap := rp_daily_reward_cap args, recipient_daily_cap := rp_recipient_daily_cap args\<rparr>)\<rparr>"
    by (auto simp: set_reward_policy_def cfg_def Let_def)
  then show "supply_nat st' = supply_nat st" "global_reward st' = global_reward st"
    "accounts st' = accounts st" "supports st' = supports st" "rewards st' = rewards st"
    by (simp_all add: supply_nat_def)
  have "unat (rp_reward_amount args) \<le> 10" "unat (rp_daily_reward_cap args) \<le> 10000"
    "unat (rp_recipient_daily_cap args) \<le> 100"
    using b by (simp_all add: word_le_nat_alt)
  then show "token_inv st'" using assms(1) c
    by (simp add: token_inv_def total_balance_def balance_nat_def supply_nat_def credits_ok_def caps_ok_def st')
qed

lemma consume_Inr:
  assumes "consume env args st = Inr (st', evs)"
  obtains c k where "tok_config st = Some c"
    "caller env \<in> {Some (tok_publications c), Some (tok_messaging c), Some (tok_relationships c)}"
    "co_account args = Some k" "length k = 25" "spend env k (co_units args) st = Inr (st', evs)"
  using assms by (auto simp: consume_def cfg_def)

lemma token_step_support:
  "token_step env (Call_support args) st = Inr (st', evs) \<longleftrightarrow> (\<exists>r. support env args st = Inr ((st', r), evs))"
  by (auto simp del: support_def)

lemma token_exec_Inr:
  assumes "token_exec tx st = Inr st'"
  obtains evs where "token_step (fst tx) (snd tx) st = Inr (st', evs)"
  using assms by (auto simp: token_exec_def)

lemma token_step_inv:
  assumes "token_inv st" and "token_step env call st = Inr (st', evs)"
  shows "token_inv st'"
proof (cases call)
  case (Call_support args)
  with assms show ?thesis using support_facts(1) by (auto simp: token_step_support simp del: token_step.simps)
next
  case (Call_consume args)
  with assms show ?thesis by (auto elim!: consume_Inr intro: spend_inv)
qed (use assms in \<open>auto intro: token_init_inv set_reward_policy_inv(1) transfer_inv burn_inv(1)\<close>)

interpretation token_contract: kept_invariant token_exec token_inv
  by unfold_locales (auto elim!: token_exec_Inr intro: token_step_inv)

text \<open>
  In every history of the token contract the supply is the sum of the balances and never
  exceeds a million, and every account is within the credit bounds: at most a hundred free
  actions, and at most one action's credits per token held.
\<close>

theorem token_runs_sound:
  "token_inv (run token_exec token_empty cs)"
  by (rule token_contract.run_keeps) (rule token_empty_inv)

section \<open>What an operation costs and moves\<close>

lemma regenerate_now:
  assumes "account_ok a" and "acc_updated_at a = t"
  shows "regenerate t a = a"
proof (rule account_state.equality)
  have "elapsed t a = 0" using assms(2) by (simp add: elapsed_def)
  then show "free_credits (regenerate t a) = free_credits a" "token_credits (regenerate t a) = token_credits a"
    using regenerate_exact [OF assms(1), of t] assms(1) by (simp_all add: word_unat_eq_iff account_ok_def)
qed (use assms(2) in \<open>simp_all add: regenerate_def Let_def\<close>)

lemma load_time [simp]: "acc_updated_at (load env k st) = now env"
  by (simp add: load_def regenerate_def Let_def split: option.split)

lemma load_put:
  assumes "accounts st' = (accounts st)(k \<mapsto> a)"
  shows "account_ok a \<Longrightarrow> acc_updated_at a = now env \<Longrightarrow> load env k st' = a"
    and "k' \<noteq> k \<Longrightarrow> load env k' st' = load env k' st"
  using assms regenerate_now [of a "now env"] by (simp_all add: load_def)

lemma spend_exact:
  assumes inv: "token_inv st" and ok: "spend env k units st = Inr (st', evs)"
  shows "credits_nat (load env k st') + 1000 * unat units = credits_nat (load env k st)"
    and "unat (free_credits (load env k st')) = unat (free_credits (load env k st)) - 1000 * unat units"
    and "balance_nat st' k = balance_nat st k" and "\<forall>k'. k' \<noteq> k \<longrightarrow> accounts st' k' = accounts st k'"
proof (atomize (full), use inv ok in \<open>rule spend_Inr\<close>)
  fix a'
  assume st': "st' = st\<lparr>accounts := (accounts st)(k \<mapsto> a')\<rparr>" and a': "account_ok a'"
    and rest: "1000 * unat units \<le> credits_nat (load env k st)" "balance a' = balance (load env k st)"
      "acc_updated_at a' = acc_updated_at (load env k st)"
      "credits_nat a' = credits_nat (load env k st) - 1000 * unat units"
      "unat (free_credits a') = unat (free_credits (load env k st)) - 1000 * unat units"
  have "load env k st' = a'" using a' rest(3) by (intro load_put(1)) (simp_all add: st')
  moreover have "balance_nat st' k = balance_nat st k"
    using rest(2) load_ok(2) [OF inv, of env k] by (simp add: st' balance_nat_def)
  ultimately show "(credits_nat (load env k st') + 1000 * unat units = credits_nat (load env k st) \<and>
      unat (free_credits (load env k st')) = unat (free_credits (load env k st)) - 1000 * unat units) \<and>
      balance_nat st' k = balance_nat st k \<and> (\<forall>k'. k' \<noteq> k \<longrightarrow> accounts st' k' = accounts st k')"
    using rest by (simp add: st')
qed

lemma spend_succeeds:
  assumes inv: "token_inv st"
  shows "(\<exists>r. spend env k units st = Inr r) \<longleftrightarrow>
    1 \<le> unat units \<and> unat units \<le> 100 \<and> 1000 * unat units \<le> credits_nat (load env k st)"
proof -
  define a where "a = load env k st"
  have a: "account_ok a" using load_ok(1) [OF inv] by (simp add: a_def)
  have sum: "unat (free_credits a + token_credits a) = credits_nat a"
    using a unat_add_bounded [of "free_credits a" 100000 "token_credits a" 1000000000]
    by (simp add: account_ok_def credits_nat_def)
  have "(\<exists>r. spend env k units st = Inr r) \<longleftrightarrow> 0 < units \<and> units \<le> 100 \<and> units * 1000 \<le> free_credits a + token_credits a"
    by (auto simp: spend_def Let_def save_def a_def)
  also have "\<dots> \<longleftrightarrow> 1 \<le> unat units \<and> unat units \<le> 100 \<and> unat (units * 1000) \<le> credits_nat a"
    by (auto simp: word_le_nat_alt word_less_nat_alt sum)
  also have "\<dots> \<longleftrightarrow> 1 \<le> unat units \<and> unat units \<le> 100 \<and> 1000 * unat units \<le> credits_nat a"
    using unat_mult_bounded [of units 100 1000 1000] by auto
  finally show ?thesis by (simp add: a_def)
qed

text \<open>
  Spending is exact: a protocol contract that consumes units for an account takes a thousand
  credits per unit, out of the free ones first, leaves the balance and every other account
  untouched, and does so if and only if the caller is one of the three configured contracts, the
  units are between one and a hundred, and the account has that much after regeneration.
\<close>

theorem consume_exact:
  assumes "token_inv st" and "tok_config st = Some c" and "co_account args = Some k" and "length k = 25"
  shows "((\<exists>r. consume env args st = Inr r) \<longleftrightarrow>
      caller env \<in> {Some (tok_publications c), Some (tok_messaging c), Some (tok_relationships c)} \<and>
      1 \<le> unat (co_units args) \<and> unat (co_units args) \<le> 100 \<and>
      1000 * unat (co_units args) \<le> credits_nat (load env k st)) \<and>
    (\<forall>st' evs. consume env args st = Inr (st', evs) \<longrightarrow>
      credits_nat (load env k st') + 1000 * unat (co_units args) = credits_nat (load env k st) \<and>
      unat (free_credits (load env k st')) = unat (free_credits (load env k st)) - 1000 * unat (co_units args) \<and>
      balance_nat st' k = balance_nat st k \<and> (\<forall>k'. k' \<noteq> k \<longrightarrow> accounts st' k' = accounts st k'))"
proof (intro conjI allI impI)
  have "consume env args st = (if caller env \<in> {Some (tok_publications c), Some (tok_messaging c), Some (tok_relationships c)}
      then spend env k (co_units args) st
      else Inl (Revert ''only protocol contracts may consume credits''))"
    using assms by (auto simp: consume_def cfg_def require_def)
  then show "(\<exists>r. consume env args st = Inr r) \<longleftrightarrow>
      caller env \<in> {Some (tok_publications c), Some (tok_messaging c), Some (tok_relationships c)} \<and>
      1 \<le> unat (co_units args) \<and> unat (co_units args) \<le> 100 \<and>
      1000 * unat (co_units args) \<le> credits_nat (load env k st)"
    using spend_succeeds [OF assms(1), of env k "co_units args"] by auto
next
  fix st' evs
  assume "consume env args st = Inr (st', evs)"
  then have sp: "spend env k (co_units args) st = Inr (st', evs)" using assms by (auto elim!: consume_Inr)
  note spent = spend_exact [OF assms(1) sp]
  show "credits_nat (load env k st') + 1000 * unat (co_units args) = credits_nat (load env k st)"
    "unat (free_credits (load env k st')) = unat (free_credits (load env k st)) - 1000 * unat (co_units args)"
    "balance_nat st' k = balance_nat st k"
    using spent by simp_all
  show "accounts st' k' = accounts st k'" if "k' \<noteq> k" for k'
    using spent(4) that by simp
qed

text \<open>
  A transfer is a movement between two registered accounts, signed by the owner of the
  sender: the amount leaves one balance and enters the other, the credits that go with it enter
  the receiver's account, no credit or token is created or lost, the supply stays, and no other
  account changes.
\<close>

theorem transfer_moves:
  assumes "token_inv st" and "transfer env args st = Inr (st', evs)"
    and "tr_from args = Some x" and "tr_to args = Some y"
  shows "x \<noteq> y \<and> 1 \<le> unat (tr_value args) \<and>
    (\<exists>c sg. tok_config st = Some c \<and> require_authorized env (tok_identity c) x None 0 = Inr sg \<and>
       actor_exists env (tok_identity c) y = Inr True) \<and>
    balance_nat st' x + unat (tr_value args) = balance_nat st x \<and>
    balance_nat st' y = balance_nat st y + unat (tr_value args) \<and>
    credits_nat (load env x st') + credits_nat (load env y st') =
      credits_nat (load env x st) + credits_nat (load env y st) \<and>
    supply_nat st' = supply_nat st \<and> (\<forall>k. k \<noteq> x \<longrightarrow> k \<noteq> y \<longrightarrow> accounts st' k = accounts st k)"
  using assms(2)
proof (rule transfer_Inr)
  fix x0 y0 c a b m
  assume from_to: "tr_from args = Some x0" "tr_to args = Some y0" and xy: "x0 \<noteq> y0"
    and c: "tok_config st = Some c" "\<exists>sg. require_authorized env (tok_identity c) x0 None 0 = Inr sg"
      "actor_exists env (tok_identity c) y0 = Inr True"
    and a: "a = load env x0 st" and b: "b = load env y0 st"
    and v: "0 < tr_value args" "tr_value args \<le> balance a"
    and m: "m = (token_credits a * tr_value args) div balance a"
    and st': "st' = st\<lparr>accounts := (accounts st)
       (x0 \<mapsto> a\<lparr>balance := balance a - tr_value args, token_credits := token_credits a - m\<rparr>,
        y0 \<mapsto> b\<lparr>balance := balance b + tr_value args, token_credits := token_credits b + m\<rparr>)\<rparr>"
  have [simp]: "x0 = x" "y0 = y" using from_to assms(3,4) by simp_all
  have a_ok: "account_ok a" "unat (balance a) = balance_nat st x" "acc_updated_at a = now env"
    and b_ok: "account_ok b" "unat (balance b) = balance_nat st y" "acc_updated_at b = now env"
    using load_ok [OF assms(1)] by (simp_all add: a b)
  note sent = moved_credits [OF a_ok(1) v(2,1), folded m]
  have v': "unat (tr_value args) \<le> balance_nat st x" using v(2) a_ok(2) by (simp add: word_le_nat_alt)
  have "unat (balance b) + unat (tr_value args) \<le> 1000000"
    using two_balances [OF assms(1) xy] v' b_ok(2) assms(1) by (simp add: token_inv_def)
  note recv = received_credits [OF b_ok(1) this sent(3)]
  have "load env x st' = a\<lparr>balance := balance a - tr_value args, token_credits := token_credits a - m\<rparr>"
    "load env y st' = b\<lparr>balance := balance b + tr_value args, token_credits := token_credits b + m\<rparr>"
    using sent(6) recv(3) a_ok(3) b_ok(3) xy regenerate_now by (simp_all add: load_def st')
  then have "credits_nat (load env x st') + credits_nat (load env y st') =
      credits_nat (load env x st) + credits_nat (load env y st)"
    using sent(2,4) recv(2) by (simp add: credits_nat_def a b)
  moreover have "1 \<le> unat (tr_value args)" using v(1) by (simp add: word_less_nat_alt)
  moreover have "balance_nat st' x + unat (tr_value args) = balance_nat st x"
    "balance_nat st' y = balance_nat st y + unat (tr_value args)"
    using sent(5) recv(1) a_ok(2) b_ok(2) v' xy by (simp_all add: st' balance_nat_def)
  ultimately show ?thesis using xy c by (simp add: st' supply_nat_def)
qed

section \<open>Rewards\<close>

text \<open>A recorded support stays, with the reward it was given.\<close>

definition supports_kept :: "token_state \<Rightarrow> token_state \<Rightarrow> bool" where
  "supports_kept st st' \<longleftrightarrow> (\<forall>k r. supports st k = Some r \<longrightarrow> supports st' k = Some r)"

lemma support_records:
  assumes "support env args st = Inr ((st', r), evs)"
  shows "\<exists>actor pid. su_actor args = Some actor \<and> length actor = 25 \<and> su_post_id args = Some pid \<and>
    supports st (actor @ pid) = None \<and>
    supports st' = (supports st)(actor @ pid \<mapsto> \<lparr>reward_day = now env div DAY, minted = r\<rparr>)"
  using assms by (rule support_Inr) (auto simp: mint_reward_def Let_def save_def split: if_splits)

lemma other_keeps_supports:
  assumes "token_step env call st = Inr (st', evs)" and "\<And>args. call \<noteq> Call_support args"
  shows "supports st' = supports st"
proof (cases call)
  case (Call_consume args)
  with assms(1) show ?thesis by (auto elim!: consume_Inr dest!: spend_fields)
next
  case (Call_transfer args)
  with assms(1) show ?thesis by (auto elim!: transfer_Inr)
next
  case (Call_burn args)
  with assms(1) show ?thesis by (auto elim!: burn_Inr)
qed (use assms in \<open>auto simp: token_init_def set_reward_policy_def Let_def\<close>)

lemma step_supports_kept:
  assumes "token_step env call st = Inr (st', evs)"
  shows "supports_kept st st'"
proof (cases "\<exists>args. call = Call_support args")
  case True
  with assms show ?thesis
    by (auto simp: token_step_support supports_kept_def simp del: token_step.simps dest!: support_records)
next
  case False
  with other_keeps_supports [OF assms] show ?thesis by (simp add: supports_kept_def)
qed

interpretation support_log: kept_relation token_exec token_inv supports_kept
  by unfold_locales
    (auto simp: supports_kept_def elim!: token_exec_Inr dest!: step_supports_kept)

text \<open>
  A post is supported at most once by an actor: after a support has succeeded, whatever
  transactions follow, no support of the same post by the same actor succeeds again.
\<close>

theorem support_only_once:
  assumes "token_inv st" and "support env args st = Inr ((st', r), evs)"
    and "su_actor args' = su_actor args" and "su_post_id args' = su_post_id args"
  shows "support env' args' (run token_exec st' cs) \<noteq> Inr out"
proof -
  have "supports_kept st' (run token_exec st' cs)"
    using support_log.run_rel support_facts(1) [OF assms(1,2)] by blast
  moreover obtain actor pid where "su_actor args = Some actor" "su_post_id args = Some pid"
    "supports st' (actor @ pid) \<noteq> None"
    using support_records [OF assms(2)] by auto
  ultimately have "supports (run token_exec st' cs) (actor @ pid) \<noteq> None"
    and "su_actor args' = Some actor" "su_post_id args' = Some pid"
    using assms(3,4) by (auto simp: supports_kept_def)
  then show ?thesis by (cases out; cases "fst out") (auto dest!: support_records)
qed

text \<open>The tokens minted on a day, as the global counter has them.\<close>

definition minted_on :: "u64 \<Rightarrow> token_state \<Rightarrow> nat" where
  "minted_on d st = (case global_reward st of None \<Rightarrow> 0 | Some g \<Rightarrow> if reward_day g = d then unat (minted g) else 0)"

lemma minted_of_day: "unat (minted (of_day d (global_reward st))) = minted_on d st"
  by (simp add: of_day_def minted_on_def split: option.split)

lemma reward_day_of_day [simp]: "reward_day (of_day d r) = d"
  by (simp add: of_day_def split: option.split)

lemma minted_on_bound: "token_inv st \<Longrightarrow> minted_on d st \<le> 10000"
  by (auto simp: minted_on_def token_inv_def caps_ok_def split: option.split)

lemma step_mints:
  assumes inv: "token_inv st" and ok: "token_step env call st = Inr (st', evs)" and d: "now env div DAY = d"
  shows "supply_nat st' + minted_on d st \<le> supply_nat st + minted_on d st'"
proof (cases call)
  case (Call_support args)
  with ok obtain r where s: "support env args st = Inr ((st', r), evs)"
    by (auto simp: token_step_support simp del: token_step.simps)
  have "minted_on d st' = minted_on d st + unat r"
    using support_facts(3) [OF inv s] d by (auto simp: minted_on_def [of _ st'] minted_of_day)
  then show ?thesis using support_facts(2) [OF inv s] by simp
next
  case (Call_token_init args)
  with ok show ?thesis by (auto simp: token_init_def supply_nat_def minted_on_def)
next
  case (Call_set_reward_policy args)
  with ok have p: "set_reward_policy env args st = Inr (st', evs)" by simp
  show ?thesis using set_reward_policy_inv(2,3) [OF inv p] by (simp add: minted_on_def)
next
  case (Call_consume args)
  with ok show ?thesis by (auto elim!: consume_Inr dest!: spend_fields simp: supply_nat_def minted_on_def)
next
  case (Call_transfer args)
  with ok show ?thesis by (auto elim!: transfer_Inr simp: supply_nat_def minted_on_def)
next
  case (Call_burn args)
  with ok have b: "burn env args st = Inr (st', evs)" by simp
  then have "minted_on d st' = minted_on d st" by (auto elim!: burn_Inr simp: minted_on_def)
  with burn_inv(2) [OF inv b] show ?thesis by simp
qed

text \<open>
  C23: Emission is bounded per day: whatever transactions one UTC day holds, from any sound
  state and with any policy changes in between, the supply grows by at most ten thousand.
\<close>

theorem daily_emission_bound:
  fixes cs :: "('w env \<times> token_call) list"
  assumes "token_inv st" and "\<forall>tx \<in> set cs. now (fst tx) div DAY = d"
  shows "supply_nat (run token_exec st cs) \<le> supply_nat st + 10000"
proof -
  have "supply_nat (run token_exec st cs) + minted_on d st \<le> supply_nat st + minted_on d (run token_exec st cs)"
    using assms
  proof (induction cs arbitrary: st)
    case Nil
    show ?case by simp
  next
    case (Cons tx cs)
    show ?case
    proof (cases "token_exec tx st")
      case (Inl e)
      with Cons show ?thesis by simp
    next
      case (Inr st')
      then obtain evs where ok: "token_step (fst tx) (snd tx) st = Inr (st', evs)" by (rule token_exec_Inr)
      from Cons.prems ok have "token_inv st'" and "supply_nat st' + minted_on d st \<le> supply_nat st + minted_on d st'"
        by (auto intro: token_step_inv step_mints)
      with Cons.IH [of st'] Cons.prems(2) Inr show ?thesis by simp
    qed
  qed
  moreover have "minted_on d (run token_exec st cs) \<le> 10000"
    using assms(1) by (intro minted_on_bound token_contract.run_keeps)
  ultimately show ?thesis by linarith
qed

lemma support_exact:
  assumes "token_inv st" and "support env args st = Inr ((st', r), evs)"
  shows "\<exists>actor pid c post sg. su_actor args = Some actor \<and> su_post_id args = Some pid \<and> tok_config st = Some c \<and>
    require_authorized env (tok_identity c) actor (su_device args) CAP_SUPPORT = Inr sg \<and>
    call_get_post env (tok_publications c) pid = Call_Object (Some post) \<and> post_state post = 0 \<and>
    actor \<noteq> post_author post \<and>
    call_is_blocked env (tok_relationships c) actor (post_author post) = Call_Object False \<and>
    call_is_blocked env (tok_relationships c) (post_author post) actor = Call_Object False \<and>
    credits_nat (load env actor st') + 1000 = credits_nat (load env actor st) \<and>
    unat r \<le> unat (reward_amount c) \<and> supply_nat st' = supply_nat st + unat r \<and>
    balance_nat st' (post_author post) = balance_nat st (post_author post) + unat r \<and>
    (\<forall>k. k \<noteq> post_author post \<longrightarrow> balance_nat st' k = balance_nat st k)"
  using assms(2)
proof (rule support_Inr)
  fix actor pid c post st1 evs1 g u st4 evs2
  assume h: "su_actor args = Some actor" "su_post_id args = Some pid" "tok_config st = Some c"
    "\<exists>sg. require_authorized env (tok_identity c) actor (su_device args) CAP_SUPPORT = Inr sg"
    and ne: "actor \<noteq> post_author post"
    and post: "find_active_post env (tok_publications c) pid = Inr post"
    and blocks: "check_support_block env (tok_relationships c) actor (post_author post) = Inr ()"
      "check_support_block env (tok_relationships c) (post_author post) actor = Inr ()"
    and sp: "spend env actor 1 st = Inr (st1, evs1)"
    and st4: "st4 = st1\<lparr>supports := (supports st)(actor @ pid \<mapsto> \<lparr>reward_day = now env div DAY, minted = r\<rparr>),
       global_reward := Some (g\<lparr>minted := minted g + r\<rparr>),
       rewards := (rewards st)(post_author post \<mapsto> u\<lparr>minted := minted u + r\<rparr>)\<rparr>"
    and mint: "mint_reward env (post_author post) r c st4 = (st', evs2)"
  let ?w = "post_author post"
  have inv1: "token_inv st1" using assms(1) sp by (rule spend_inv)
  note spent = spend_exact [OF assms(1) sp]
  have reward: "unat r \<le> unat (reward_amount c)" and sup: "supply_nat st' = supply_nat st + unat r"
    using support_facts [OF assms] h(3) by auto
  have bal: "balance (load env ?w st4) = balance (load env ?w st1)" by (simp add: load_def st4)
  have small: "unat (balance (load env ?w st1) + r) = balance_nat st1 ?w + unat r"
  proof (subst word_add_eq_unat)
    have "supply_nat st' \<le> 1000000" using support_facts(1) [OF assms] by (simp add: token_inv_def)
    moreover have "supply_nat st1 = supply_nat st" using spend_fields [OF sp] by (auto simp: supply_nat_def)
    ultimately show "unat (balance (load env ?w st1)) + unat r < 2 ^ LENGTH(64)"
      using token_inv_bound [OF inv1, of ?w] load_ok(2) [OF inv1, of env ?w] sup by simp
  qed (simp add: load_ok(2) [OF inv1])
  have acc: "accounts st' = (if r > 0 then (accounts st1)(?w \<mapsto> (load env ?w st4)
      \<lparr>balance := balance (load env ?w st4) + r, token_credits := token_credits (load env ?w st4) + r * PER_TOKEN\<rparr>)
      else accounts st1)"
    using mint by (auto simp: mint_reward_def Let_def save_def st4 split: if_splits)
  have b: "balance_nat st' k = (if k = ?w then balance_nat st1 k + unat r else balance_nat st1 k)" for k
    using small bal acc by (auto simp: balance_nat_def word_gt_0)
  have keep: "balance_nat st1 k = balance_nat st k" for k
    using spent(3,4) by (cases "k = actor") (simp_all add: balance_nat_def)
  have "load env actor st' = load env actor st1" using ne acc by (simp add: load_def)
  then have "credits_nat (load env actor st') + 1000 = credits_nat (load env actor st)"
    using spent(1) by simp
  with h ne reward sup b keep post blocks show ?thesis
    by (auto simp: find_active_post_def check_support_block_def split: call_result.splits)
qed

text \<open>
  Supporting a post costs the actor one action and pays the author at most the configured
  reward: it needs an active post of somebody else, a signature good for the support capability
  and no block in either direction; the supply and the author's balance grow by the reward, and
  nobody else's balance changes.
\<close>

theorem support_effect:
  assumes "token_inv st" and "support env args st = Inr ((st', r), evs)"
  shows "\<exists>actor pid c post sg. su_actor args = Some actor \<and> su_post_id args = Some pid \<and> tok_config st = Some c \<and>
    require_authorized env (tok_identity c) actor (su_device args) CAP_SUPPORT = Inr sg \<and>
    call_get_post env (tok_publications c) pid = Call_Object (Some post) \<and> post_state post = 0 \<and>
    actor \<noteq> post_author post \<and>
    call_is_blocked env (tok_relationships c) actor (post_author post) = Call_Object False \<and>
    call_is_blocked env (tok_relationships c) (post_author post) actor = Call_Object False \<and>
    credits_nat (load env actor st') + 1000 = credits_nat (load env actor st) \<and>
    unat r \<le> unat (reward_amount c) \<and> supply_nat st' = supply_nat st + unat r \<and>
    balance_nat st' (post_author post) = balance_nat st (post_author post) + unat r \<and>
    (\<forall>k. k \<noteq> post_author post \<longrightarrow> balance_nat st' k = balance_nat st k)"
  using assms by (rule support_exact)

section \<open>The properties at concrete inputs\<close>

text \<open>A ledger with two accounts, a host where account 1 is called by the publications contract.\<close>

definition demo_config :: token_config where
  "demo_config = \<lparr>tok_identity = sample_addr 90, tok_relationships = sample_addr 91, tok_publications = sample_addr 92,
     tok_messaging = sample_addr 93, reward_amount = 1, daily_reward_cap = 1000, recipient_daily_cap = 10, tok_supply = 7\<rparr>"

definition demo_account :: "u64 \<Rightarrow> account_state" where
  "demo_account b = \<lparr>balance = b, free_credits = 40000, token_credits = 1000 * b, acc_updated_at = 500\<rparr>"

definition demo_ledger :: token_state where
  "demo_ledger = \<lparr>tok_config = Some demo_config,
     accounts = [sample_addr 1 \<mapsto> demo_account 5, sample_addr 2 \<mapsto> demo_account 2],
     supports = Map.empty, rewards = Map.empty, global_reward = None\<rparr>"

lemma demo_ledger_inv: "token_inv demo_ledger"
proof -
  have "total_balance demo_ledger = 7" by (simp add: total_balance_def balance_nat_def demo_ledger_def demo_account_def)
  then show ?thesis
    by (simp add: token_inv_def supply_nat_def credits_ok_def caps_ok_def demo_config_def demo_ledger_def demo_account_def)
qed

definition demo_post :: "byte \<Rightarrow> post_record" where
  "demo_post author = \<lparr>post_author = sample_addr author, post_sequence = 1, version_count = 1, latest_version = [],
     post_state = 0, reply_to = None, post_audience = 1, created_at = 0, post_updated_at = 0\<rparr>"

definition token_env :: "u64 \<Rightarrow> 'w env" where
  "token_env t = (open_env t)\<lparr>caller := Some (sample_addr 92), call_is_blocked := (\<lambda>_ _ _. Call_Object False),
     call_get_post := (\<lambda>_ _. Call_Object (Some (demo_post 2)))\<rparr>"

lemma token_env_simps [simp]:
  "now (token_env t) = t" "caller (token_env t) = Some (sample_addr 92)"
  "ic \<noteq> [] \<Longrightarrow> require_authorized (token_env t) ic a d c = Inr a"
  "ic \<noteq> [] \<Longrightarrow> actor_exists (token_env t) ic a = Inr True"
  "call_is_blocked (token_env t) = (\<lambda>_ _ _. Call_Object False)"
  "call_get_post (token_env t) = (\<lambda>_ _. Call_Object (Some (demo_post 2)))"
  by (simp_all add: token_env_def open_env_def now_def require_authorized_def actor_exists_def sample_env_def Let_def)

theorem regenerate_exact_witness:
  "unat (free_credits (regenerate 43200500 (demo_account 5))) = 90000"
  using regenerate_exact [of "demo_account 5" 43200500]
  by (simp add: account_ok_def demo_account_def elapsed_def)

theorem consume_exact_witness:
  "\<exists>r. consume (token_env 500 :: unit env) \<lparr>co_account = Some (sample_addr 1), co_units = 3\<rparr> demo_ledger = Inr r"
proof -
  have "1000 * 3 \<le> credits_nat (load (token_env 500 :: unit env) (sample_addr 1) demo_ledger)"
    by (simp add: load_def regenerate_def Let_def credits_nat_def demo_ledger_def demo_account_def FREE_def PER_TOKEN_def DAY_def)
  then show ?thesis
    using consume_exact [OF demo_ledger_inv, of demo_config "\<lparr>co_account = Some (sample_addr 1), co_units = 3\<rparr>" "sample_addr 1" "token_env 500 :: unit env"]
    by (simp add: demo_ledger_def demo_config_def)
qed

definition demo_transfer :: transfer_arguments where
  "demo_transfer = \<lparr>tr_from = Some (sample_addr 1), tr_to = Some (sample_addr 2), tr_value = 3\<rparr>"

theorem transfer_moves_witness:
  "\<exists>st' evs. transfer (token_env 500 :: unit env) demo_transfer demo_ledger = Inr (st', evs) \<and> balance_nat st' (sample_addr 2) = 5"
proof -
  obtain st' evs where "transfer (token_env 500 :: unit env) demo_transfer demo_ledger = Inr (st', evs)"
    by (simp add: transfer_def demo_transfer_def cfg_def demo_ledger_def demo_config_def load_def regenerate_def Let_def
        save_def demo_account_def PER_TOKEN_def DAY_def FREE_def)
  note tr = this
  have "balance_nat demo_ledger (sample_addr 2) = 2" by (simp add: balance_nat_def demo_ledger_def demo_account_def)
  with transfer_moves [OF demo_ledger_inv tr, of "sample_addr 1" "sample_addr 2"]
  have "balance_nat st' (sample_addr 2) = 5" by (simp add: demo_transfer_def)
  with tr show ?thesis by blast
qed

definition demo_support :: support_arguments where
  "demo_support = \<lparr>su_actor = Some (sample_addr 1), su_post_id = Some (replicate 32 9), su_device = None\<rparr>"

lemma demo_support_ok: "\<exists>st' evs. support (token_env 500 :: unit env) demo_support demo_ledger = Inr ((st', 1), evs)"
  by (simp add: support_def demo_support_def cfg_def demo_ledger_def demo_config_def load_def regenerate_def Let_def
      save_def demo_account_def PER_TOKEN_def DAY_def FREE_def find_active_post_def check_support_block_def
      demo_post_def spend_def mint_reward_def reward_due_def of_day_def MAX_SUPPLY_def require_bytes_def)

theorem support_effect_witness:
  "\<exists>st' evs. support (token_env 500 :: unit env) demo_support demo_ledger = Inr ((st', 1), evs) \<and> supply_nat st' = 8"
proof -
  obtain st' evs where s: "support (token_env 500 :: unit env) demo_support demo_ledger = Inr ((st', 1), evs)"
    using demo_support_ok by blast
  have "supply_nat demo_ledger = 7" by (simp add: supply_nat_def demo_ledger_def demo_config_def)
  with support_effect [OF demo_ledger_inv s] have "supply_nat st' = 8" by auto
  with s show ?thesis by blast
qed

theorem support_only_once_witness:
  "\<exists>st' evs. support (token_env 500 :: unit env) demo_support demo_ledger = Inr ((st', 1), evs) \<and>
    (\<forall>out. support (token_env 600 :: unit env) demo_support (run token_exec st' [(token_env 550 :: unit env, Call_support demo_support)]) \<noteq> Inr out)"
proof -
  obtain st' evs where s: "support (token_env 500 :: unit env) demo_support demo_ledger = Inr ((st', 1), evs)"
    using demo_support_ok by blast
  have "support (token_env 600 :: unit env) demo_support (run token_exec st' [(token_env 550 :: unit env, Call_support demo_support)]) \<noteq> Inr out" for out
    using demo_ledger_inv s refl refl by (rule support_only_once)
  with s show ?thesis by blast
qed

theorem daily_emission_bound_witness:
  "supply_nat (run token_exec demo_ledger [(token_env 500 :: unit env, Call_support demo_support), (token_env 700, Call_support demo_support)]) \<le> 10007"
  using daily_emission_bound [OF demo_ledger_inv, of "[(token_env 500 :: unit env, Call_support demo_support), (token_env 700, Call_support demo_support)]" 0]
  by (simp add: DAY_def supply_nat_def [of demo_ledger]) (simp add: demo_ledger_def demo_config_def)

end
