(* ===== verification/Protocol.thy ===== *)
theory Protocol
  imports Devices Relationships Publications Communities Messaging Token
begin

text \<open>
  The contracts composed the way the deployment composes them: one world of contract states, in
  which a call of one contract to another runs the entry point of that contract on its own state.
  The registry and the sponsorship contract call nobody and are called by nobody, so they are
  not part of the world. The theory closes the parameters of theory \<open>Chain\<close> over the other
  components and shows what holds only of the whole.
\<close>

section \<open>The world\<close>

text \<open>What the deployment fixes: the chain, the digest, the string encoding, the addresses.\<close>

record deployment =
  dp_chain_id :: bytes
  dp_sha256 :: "bytes \<Rightarrow> bytes"
  dp_string_to_bytes :: "ustring \<Rightarrow> bytes"
  at_identity :: bytes
  at_relationships :: bytes
  at_publications :: bytes
  at_communities :: bytes
  at_messaging :: bytes
  at_token :: bytes

record world =
  w_identity :: identity_state
  w_relationships :: relationships_state
  w_publications :: publications_state
  w_communities :: communities_state
  w_messaging :: messaging_state
  w_token :: token_state

definition world_empty :: world where
  "world_empty = \<lparr>w_identity = identity_init, w_relationships = relationships_empty, w_publications = publications_empty,
     w_communities = communities_empty, w_messaging = messaging_empty, w_token = token_empty\<rparr>"

datatype protocol_call =
    On_identity identity_call
  | On_relationships relationships_call
  | On_publications publications_call
  | On_communities communities_call
  | On_messaging messaging_call
  | On_token token_call

record transaction =
  tx_time :: u64
  tx_authority :: "bytes \<Rightarrow> bool"
  tx_call :: protocol_call

section \<open>Calls between contracts\<close>

text \<open>A host on which no other contract answers: enough for the callees, which call nobody.\<close>

definition leaf_env :: "deployment \<Rightarrow> bytes \<Rightarrow> bytes option \<Rightarrow> transaction \<Rightarrow> token_state env" where
  "leaf_env dp self calling t = \<lparr>head_block_time = tx_time t, contract_id = self, has_authority = tx_authority t,
     caller = calling, chain_id = dp_chain_id dp, hash_sha256 = dp_sha256 dp, string_to_bytes = dp_string_to_bytes dp,
     call_resolve_actor = (\<lambda>_ _ _ _. Call_Failed), call_is_blocked = (\<lambda>_ _ _. Call_Failed),
     call_get_post = (\<lambda>_ _. Call_Failed), call_consume = (\<lambda>_ _ _ _. None)\<rparr>"

text \<open>
  The host as the contract at \<open>self\<close> sees it: \<open>resolve_actor\<close>, \<open>is_blocked\<close> and \<open>get_post\<close> read
  the states of the contracts at their addresses, \<open>consume\<close> runs on the token's; a call to any
  other address fails.
\<close>

definition contract_env :: "deployment \<Rightarrow> bytes \<Rightarrow> transaction \<Rightarrow> world \<Rightarrow> token_state env" where
  "contract_env dp self t w = (leaf_env dp self None t)\<lparr>
     call_resolve_actor := (\<lambda>c a d cap. if c = at_identity dp
        then Call_Object (resolve (leaf_env dp c (Some self) t) (Some a) d cap (w_identity w)) else Call_Failed),
     call_is_blocked := (\<lambda>c a b. if c = at_relationships dp
        then Call_Object (is_blocked (Some a) (Some b) (w_relationships w)) else Call_Failed),
     call_get_post := (\<lambda>c i. if c = at_publications dp
        then Call_Object (get_post (Some i) (w_publications w)) else Call_Failed),
     call_consume := (\<lambda>c a n tok. if c = at_token dp
        then (case consume (leaf_env dp c (Some self) t) \<lparr>co_account = Some a, co_units = n\<rparr> tok of
                Inl _ \<Rightarrow> None | Inr (tok', _) \<Rightarrow> Some tok')
        else None)\<rparr>"

fun protocol_step :: "deployment \<Rightarrow> transaction \<Rightarrow> protocol_call \<Rightarrow> world \<Rightarrow> world result" where
  "protocol_step dp t (On_identity c) w =
     attempt (identity_step (contract_env dp (at_identity dp) t w) c (w_identity w)) (\<lambda>(s, _). Inr (w\<lparr>w_identity := s\<rparr>))"
| "protocol_step dp t (On_relationships c) w =
     attempt (relationships_step (contract_env dp (at_relationships dp) t w) c (w_token w, w_relationships w))
       (\<lambda>((tok, s), _). Inr (w\<lparr>w_relationships := s, w_token := tok\<rparr>))"
| "protocol_step dp t (On_publications c) w =
     attempt (publications_step (contract_env dp (at_publications dp) t w) c (w_token w, w_publications w))
       (\<lambda>((tok, s), _). Inr (w\<lparr>w_publications := s, w_token := tok\<rparr>))"
| "protocol_step dp t (On_communities c) w =
     attempt (communities_step (contract_env dp (at_communities dp) t w) c (w_communities w)) (\<lambda>(s, _). Inr (w\<lparr>w_communities := s\<rparr>))"
| "protocol_step dp t (On_messaging c) w =
     attempt (messaging_step (contract_env dp (at_messaging dp) t w) c (w_token w, w_messaging w))
       (\<lambda>((tok, s), _). Inr (w\<lparr>w_messaging := s, w_token := tok\<rparr>))"
| "protocol_step dp t (On_token c) w =
     attempt (token_step (contract_env dp (at_token dp) t w) c (w_token w)) (\<lambda>(s, _). Inr (w\<lparr>w_token := s\<rparr>))"

definition protocol_exec :: "deployment \<Rightarrow> transaction \<Rightarrow> world \<Rightarrow> world result" where
  "protocol_exec dp t w = protocol_step dp t (tx_call t) w"

abbreviation world_after :: "deployment \<Rightarrow> transaction list \<Rightarrow> world" where
  "world_after dp ts \<equiv> run (protocol_exec dp) world_empty ts"

lemma contract_env_simps [simp]:
  "now (contract_env dp self t w) = tx_time t" "has_authority (contract_env dp self t w) = tx_authority t"
  "contract_id (contract_env dp self t w) = self" "caller (contract_env dp self t w) = None"
  "now (leaf_env dp self c t) = tx_time t" "caller (leaf_env dp self c t) = c"
  by (simp_all add: contract_env_def leaf_env_def now_def)

lemma world_calls [simp]:
  "call_is_blocked (contract_env dp self t w) c a b = (if c = at_relationships dp
     then Call_Object (is_blocked (Some a) (Some b) (w_relationships w)) else Call_Failed)"
  "call_get_post (contract_env dp self t w) c i = (if c = at_publications dp
     then Call_Object (get_post (Some i) (w_publications w)) else Call_Failed)"
  by (simp_all add: contract_env_def)

section \<open>Who acts\<close>

text \<open>
  The transaction carries the signature of the account's owner or of a device that is good for
  the capability.
\<close>

definition acts_for :: "deployment \<Rightarrow> transaction \<Rightarrow> world \<Rightarrow> bytes \<Rightarrow> u32 \<Rightarrow> bool" where
  "acts_for dp t w a cap \<longleftrightarrow> (\<exists>rec. identities (w_identity w) a = Some rec \<and>
     (tx_authority t (id_owner rec) \<or>
      (\<exists>d. tx_authority t d \<and> device_good (leaf_env dp (at_identity dp) None t) (w_identity w) a d cap)))"

lemma authorized_acts:
  assumes "require_authorized (contract_env dp self t w) ic a dev cap = Inr sg" and "a \<noteq> []"
  shows "acts_for dp t w a cap" and "is_empty dev \<Longrightarrow> \<exists>rec. identities (w_identity w) a = Some rec \<and> tx_authority t (id_owner rec)"
proof -
  from assms(1) have ic: "ic = at_identity dp" "ic \<noteq> []"
    by (auto simp: require_authorized_def contract_env_def Let_def split: if_splits)
  have calls: "call_resolve_actor (contract_env dp self t w) ic =
      (\<lambda>a d c. Call_Object (resolve (leaf_env dp ic (Some self) t) (Some a) d c (w_identity w)))"
    by (auto simp: contract_env_def ic)
  have same: "device_good (leaf_env dp ic (Some self) t) = device_good (leaf_env dp (at_identity dp) None t)"
    by (intro ext) (simp add: device_good_def split: option.split)
  from identity_resolver.authorized_iff [OF calls ic(2) assms(2), of dev cap sg] assms(1)
  show "acts_for dp t w a cap"
    unfolding acts_for_def same by (auto split: if_splits)
  from identity_resolver.owner_must_sign [OF calls ic(2) assms(2), of cap sg] assms(1)
  show "\<exists>rec. identities (w_identity w) a = Some rec \<and> tx_authority t (id_owner rec)" if "is_empty dev"
    using that identity_resolver.authorized_iff [OF calls ic(2) assms(2), of dev cap sg] by auto
qed

section \<open>Paying for actions\<close>

text \<open>
  The interface of the credit meter, as the paying contracts use it: a charge keeps the ledger
  sound, takes exactly one action from the account named and nothing from anybody else.
\<close>

locale credit_meter =
  fixes charge :: "bytes \<Rightarrow> 'w \<Rightarrow> 'w option"
    and credits :: "bytes \<Rightarrow> 'w \<Rightarrow> nat"
    and sound :: "'w \<Rightarrow> bool"
  assumes charge_sound: "sound w \<Longrightarrow> charge a w = Some w' \<Longrightarrow> sound w'"
    and charge_exact: "sound w \<Longrightarrow> charge a w = Some w' \<Longrightarrow> credits a w' + 1000 = credits a w"
    and charge_others: "sound w \<Longrightarrow> charge a w = Some w' \<Longrightarrow> b \<noteq> a \<Longrightarrow> credits b w' = credits b w"
begin

lemma charge_effect:
  "sound w \<Longrightarrow> charge a w = Some w' \<Longrightarrow> credits b w' + (if b = a then 1000 else 0) = credits b w"
  using charge_exact charge_others by (cases "b = a") simp_all

lemma charge_none_below: "sound w \<Longrightarrow> credits a w < 1000 \<Longrightarrow> charge a w = None"
  using charge_exact [of w a] by (cases "charge a w") force+

end

text \<open>The credits an account has at a time: a hundred free actions before it is first seen.\<close>

definition credits_at :: "u64 \<Rightarrow> bytes \<Rightarrow> token_state \<Rightarrow> nat" where
  "credits_at time k tok = (case accounts tok k of None \<Rightarrow> 100000 | Some a \<Rightarrow> credits_nat (regenerate time a))"

lemma credits_load: "credits_nat (load env k tok) = credits_at (now env) k tok"
  by (simp add: credits_at_def load_def Let_def credits_nat_def FREE_def split: option.split)

lemma credits_same: "accounts tok' k = accounts tok k \<Longrightarrow> credits_at time k tok' = credits_at time k tok"
  by (simp add: credits_at_def)

definition charge_at :: "deployment \<Rightarrow> bytes \<Rightarrow> transaction \<Rightarrow> bytes \<Rightarrow> token_state \<Rightarrow> token_state option" where
  "charge_at dp self t a tok =
     (case consume (leaf_env dp (at_token dp) (Some self) t) \<lparr>co_account = Some a, co_units = 1\<rparr> tok of
        Inl _ \<Rightarrow> None | Inr (tok', _) \<Rightarrow> Some tok')"

lemma charge_at_Some:
  "charge_at dp self t a tok = Some tok' \<longleftrightarrow>
   (\<exists>evs. consume (leaf_env dp (at_token dp) (Some self) t) \<lparr>co_account = Some a, co_units = 1\<rparr> tok = Inr (tok', evs))"
  by (auto simp: charge_at_def split: sum.splits)

interpretation token_meter: credit_meter "charge_at dp self t" "credits_at (tx_time t)" token_inv for dp self t
proof unfold_locales
  fix tok a tok'
  assume inv: "token_inv tok" and "charge_at dp self t a tok = Some tok'"
  then obtain evs where "consume (leaf_env dp (at_token dp) (Some self) t) \<lparr>co_account = Some a, co_units = 1\<rparr> tok = Inr (tok', evs)"
    by (auto simp: charge_at_Some)
  then have sp: "spend (leaf_env dp (at_token dp) (Some self) t) a 1 tok = Inr (tok', evs)"
    by (auto elim!: consume_Inr)
  show "token_inv tok'" using inv sp by (rule spend_inv)
  note spent = spend_exact [OF inv sp]
  show "credits_at (tx_time t) a tok' + 1000 = credits_at (tx_time t) a tok"
    using spent(1) by (simp add: credits_load)
  show "credits_at (tx_time t) b tok' = credits_at (tx_time t) b tok" if "b \<noteq> a" for b
    using spent(4) that by (intro credits_same) simp
qed

lemma world_consume [simp]:
  "call_consume (contract_env dp self t w) c a 1 tok = (if c = at_token dp then charge_at dp self t a tok else None)"
  by (simp add: contract_env_def charge_at_def)

text \<open>The account and device that pay for a call, when the call costs an action.\<close>

fun relationships_payer :: "relationships_call \<Rightarrow> (bytes option \<times> bytes option) option" where
  "relationships_payer (Call_request_friend args) = Some (rf_requester args, rf_device args)"
| "relationships_payer (Call_follow args) = Some (fo_follower args, fo_device args)"
| "relationships_payer _ = None"

fun publications_payer :: "publications_call \<Rightarrow> (bytes option \<times> bytes option) option" where
  "publications_payer (Call_publish args) = Some (pa_author args, pa_device args)"
| "publications_payer (Call_react args) = (if rea_remove args then None else Some (rea_actor args, rea_device args))"
| "publications_payer _ = None"

text \<open>A send is charged unless it repeats a stored message.\<close>

definition repeats :: "send_message_arguments \<Rightarrow> messaging_state \<Rightarrow> bool" where
  "repeats args st \<longleftrightarrow> (\<exists>a mid. sm_sender args = Some a \<and> sm_message_id args = Some mid \<and> messages st (a @ mid) \<noteq> None)"

fun messaging_payer :: "messaging_call \<Rightarrow> messaging_state \<Rightarrow> (bytes option \<times> bytes option) option" where
  "messaging_payer (Call_request_conversation args) st = Some (ca_actor args, ca_device args)"
| "messaging_payer (Call_send_message args) st = (if repeats args st then None else Some (sm_sender args, sm_device args))"
| "messaging_payer _ st = None"

text \<open>A charge through a configured usage contract; without one the action is free.\<close>

definition charged :: "'w env \<Rightarrow> bytes option option \<Rightarrow> bytes \<Rightarrow> 'w \<Rightarrow> 'w \<Rightarrow> bool" where
  "charged env usage a w w' \<longleftrightarrow> (case usage of
     Some (Some c) \<Rightarrow> if c = [] then w' = w else call_consume env c a 1 w = Some w'
   | _ \<Rightarrow> w' = w)"

lemma pub_consume_charged: "pub_consume env a st w = Inr w' \<Longrightarrow> charged env (pub_usage st) a w w'"
  by (auto simp: pub_consume_def charged_def split: option.splits)

lemma rel_consume_charged: "rel_consume env a st w = Inr w' \<Longrightarrow> charged env (rel_usage st) a w w'"
  by (auto simp: rel_consume_def charged_def split: option.splits)

definition paid_by :: "'w env \<Rightarrow> bytes \<Rightarrow> bytes option option \<Rightarrow> (bytes option \<times> bytes option) option \<Rightarrow> 'w \<Rightarrow> 'w \<Rightarrow> bool" where
  "paid_by env ic usage payer w w' \<longleftrightarrow> (case payer of None \<Rightarrow> w' = w
     | Some (acct, dev) \<Rightarrow> \<exists>a cap sg. acct = Some a \<and> length a = 25 \<and>
         require_authorized env ic a dev cap = Inr sg \<and> charged env usage a w w')"

lemma relationships_paid:
  assumes "relationships_step env call (w, st) = Inr ((w', st'), evs)"
  shows "paid_by env (rel_identity_contract st) (rel_usage st) (relationships_payer call) w w'"
proof (cases call)
  case (Call_request_friend args)
  with assms obtain a st1 cap sg where "rf_requester args = Some a" "length a = 25"
    "require_authorized env (rel_identity_contract st) a (rf_device args) cap = Inr sg"
    "rel_consume env a st1 w = Inr w'" "rel_usage st1 = rel_usage st"
    by (fastforce simp: request_friend_def require_not_blocked_def Let_def)
  with Call_request_friend show ?thesis using rel_consume_charged [of env a st1 w w'] by (auto simp: paid_by_def)
next
  case (Call_follow args)
  with assms obtain a st1 cap sg where "fo_follower args = Some a" "length a = 25"
    "require_authorized env (rel_identity_contract st) a (fo_device args) cap = Inr sg"
    "rel_consume env a st1 w = Inr w'" "rel_usage st1 = rel_usage st"
    by (fastforce simp: follow_def require_not_blocked_def Let_def)
  with Call_follow show ?thesis using rel_consume_charged [of env a st1 w w'] by (auto simp: paid_by_def)
qed (use assms in \<open>auto simp: paid_by_def\<close>)

lemma reserve_usage: "reserve_idempotency_key author key pid st = Inr st' \<Longrightarrow> pub_usage st' = pub_usage st"
  by (auto simp: reserve_idempotency_key_def Let_def split: option.splits)

lemma publish_usage:
  assumes "publish env args s = Inr (s', evs)"
  shows "pub_usage (snd s') = pub_usage (snd s)"
  using assms
proof (cases rule: publish_cases)
  case (first author pid h ik req rec ra)
  from first(14) show ?thesis by (cases s') (auto simp: publish_first_def Let_def dest!: reserve_usage)
next
  case (edit author pid h ik req rec old pv rt ra)
  from edit(12) show ?thesis by (cases s') (auto simp: publish_edit_def Let_def dest!: reserve_usage)
qed

lemma publications_paid:
  assumes "publications_step env call (w, st) = Inr ((w', st'), evs)"
  shows "paid_by env (pub_identity_contract st) (pub_usage st) (publications_payer call) w w'"
proof (cases call)
  case (Call_publish args)
  with assms have p: "publish env args (w, st) = Inr ((w', st'), evs)" by simp
  note usage = publish_usage [OF p]
  from p show ?thesis
  proof (cases rule: publish_cases)
    case (first author pid h ik req rec ra)
    with Call_publish usage show ?thesis using pub_consume_charged [OF first(15)] by (auto simp: paid_by_def)
  next
    case (edit author pid h ik req rec old pv rt ra)
    with Call_publish usage show ?thesis using pub_consume_charged [OF edit(13)] by (auto simp: paid_by_def)
  qed
next
  case (Call_react args)
  with assms obtain a sg where "rea_actor args = Some a" "length a = 25"
    "require_authorized env (pub_identity_contract st) a (rea_device args) CAP_REACT = Inr sg"
    "(if \<not> rea_remove args then pub_consume env a st w else Inr w) = Inr w'"
    by (auto simp: react_def Let_def)
  with Call_react show ?thesis using pub_consume_charged [of env a st w w'] by (auto simp: paid_by_def split: if_splits)
qed (use assms in \<open>auto simp: paid_by_def\<close>)

lemma messaging_paid:
  assumes "messaging_step env call (w, st) = Inr ((w', st'), evs)"
  shows "messaging_payer call st = None \<and> w' = w \<or>
    (\<exists>d. msg_config st = Some d \<and> messaging_payer call st \<noteq> None \<and>
       (\<exists>a dev cap sg. messaging_payer call st = Some (Some a, dev) \<and> length a = 25 \<and>
          require_authorized env (md_identity d) a dev cap = Inr sg \<and> call_consume env (md_token d) a 1 w = Some w'))"
proof (cases call)
  case (Call_request_conversation args)
  with assms show ?thesis by (auto elim!: request_conversation_Inr)
next
  case (Call_send_message args)
  with assms obtain m where "send_message env args (w, st) = Inr (((w', st'), m), evs)" by auto
  then show ?thesis
  proof (cases rule: send_message_cases)
    case (retry a b d mid e)
    then have "repeats args st" by (simp add: repeats_def)
    with retry Call_send_message show ?thesis by simp
  next
    case (fresh a b d mid e c)
    then have "\<not> repeats args st" by (auto simp: repeats_def)
    with fresh Call_send_message show ?thesis by auto
  qed
qed (use assms in \<open>auto\<close>)

section \<open>The whole\<close>

definition world_inv :: "world \<Rightarrow> bool" where
  "world_inv w \<longleftrightarrow> identity_inv (w_identity w) \<and> relationships_inv (w_relationships w) \<and>
     publications_inv (w_publications w) \<and> communities_inv (w_communities w) \<and> messaging_inv (w_messaging w) \<and>
     token_inv (w_token w)"

lemma charged_sound:
  assumes "token_inv w" and "charged (contract_env dp self t x) usage a w w'"
  shows "token_inv w'"
  using assms token_meter.charge_sound
  by (auto simp: charged_def split: option.splits if_splits)

lemma paid_sound:
  assumes "token_inv w" and "paid_by (contract_env dp self t x) ic usage payer w w'"
  shows "token_inv w'"
  using assms charged_sound by (auto simp: paid_by_def split: option.splits)

lemma world_empty_inv: "world_inv world_empty"
  by (simp add: world_inv_def world_empty_def identity_init_inv relationships_empty_inv messaging_empty_inv token_empty_inv
      publications_run_inv [where cs = "[]", simplified] communities_run_inv [where cs = "[]", simplified])

lemma step_keeps:
  "identity_inv st \<Longrightarrow> identity_step env c st = Inr (st', e) \<Longrightarrow> identity_inv st'"
  using identity_exec_inv [of st "(env, c)" st'] by (simp add: identity_exec_def)

lemma rel_step_keeps:
  "relationships_inv st \<Longrightarrow> relationships_step env c' (w, st) = Inr ((w', st2), e) \<Longrightarrow> relationships_inv st2"
  using relationships_exec_inv [of "(w, st)" "(env, c')" "(w', st2)"] by (simp add: relationships_exec_def)

lemma pub_step_keeps:
  "publications_inv st \<Longrightarrow> publications_step env c' (w, st) = Inr ((w', st2), e) \<Longrightarrow> publications_inv st2"
  using publications_exec_inv [of "(w, st)" "(env, c')" "(w', st2)"] by (simp add: publications_exec_def)

lemma com_step_keeps:
  "communities_inv st \<Longrightarrow> communities_step env c st = Inr (st', e) \<Longrightarrow> communities_inv st'"
  using communities_contract.keeps [of st "(env, c)" st'] by (simp add: communities_exec_def)

lemma protocol_step_inv:
  assumes inv: "world_inv w" and ok: "protocol_step dp t call w = Inr w'"
  shows "world_inv w'"
proof (cases call)
  case (On_identity c)
  with ok obtain s e where "identity_step (contract_env dp (at_identity dp) t w) c (w_identity w) = Inr (s, e)"
    "w' = w\<lparr>w_identity := s\<rparr>" by auto
  with inv step_keeps show ?thesis by (auto simp: world_inv_def)
next
  case (On_relationships c)
  with ok obtain tok s e where st: "relationships_step (contract_env dp (at_relationships dp) t w) c (w_token w, w_relationships w) = Inr ((tok, s), e)"
    and w': "w' = w\<lparr>w_relationships := s, w_token := tok\<rparr>" by auto
  from inv relationships_paid [OF st] have "token_inv tok" by (auto simp: world_inv_def intro: paid_sound)
  with inv rel_step_keeps [OF _ st] show ?thesis by (simp add: world_inv_def w')
next
  case (On_publications c)
  with ok obtain tok s e where st: "publications_step (contract_env dp (at_publications dp) t w) c (w_token w, w_publications w) = Inr ((tok, s), e)"
    and w': "w' = w\<lparr>w_publications := s, w_token := tok\<rparr>" by auto
  from inv publications_paid [OF st] have "token_inv tok" by (auto simp: world_inv_def intro: paid_sound)
  with inv pub_step_keeps [OF _ st] show ?thesis by (simp add: world_inv_def w')
next
  case (On_communities c)
  with ok obtain s e where "communities_step (contract_env dp (at_communities dp) t w) c (w_communities w) = Inr (s, e)"
    "w' = w\<lparr>w_communities := s\<rparr>" by auto
  with inv com_step_keeps show ?thesis by (auto simp: world_inv_def)
next
  case (On_messaging c)
  with ok obtain tok s e where st: "messaging_step (contract_env dp (at_messaging dp) t w) c (w_token w, w_messaging w) = Inr ((tok, s), e)"
    and w': "w' = w\<lparr>w_messaging := s, w_token := tok\<rparr>" by auto
  from inv messaging_paid [OF st] have "token_inv tok"
    using token_meter.charge_sound by (auto simp: world_inv_def split: if_splits)
  moreover have "messaging_inv s" using messaging_step_inv [OF _ st] inv by (simp add: world_inv_def)
  ultimately show ?thesis using inv by (simp add: world_inv_def w')
next
  case (On_token c)
  with ok obtain s e where "token_step (contract_env dp (at_token dp) t w) c (w_token w) = Inr (s, e)"
    "w' = w\<lparr>w_token := s\<rparr>" by auto
  with inv token_step_inv show ?thesis by (auto simp: world_inv_def)
qed

interpretation protocol_world: kept_invariant "protocol_exec dp" world_inv for dp
  by unfold_locales (auto simp: protocol_exec_def intro: protocol_step_inv)

text \<open>
  C1: The composed protocol keeps every contract sound: whatever transactions users send to any of
  the contracts, with the calls the contracts make to each other, all stored data stays well
  formed and the token supply stays the sum of the balances.
\<close>

theorem protocol_runs_sound: "world_inv (world_after dp ts)"
  using world_empty_inv by (rule protocol_world.run_keeps)

section \<open>Credits and tokens move only with their holder\<close>

lemma charged_credits:
  assumes "token_inv tok" and "charged (contract_env dp self t x) usage a tok tok'"
  shows "k \<noteq> a \<Longrightarrow> credits_at (tx_time t) k tok' = credits_at (tx_time t) k tok"
    and "usage = Some (Some (at_token dp)) \<Longrightarrow> at_token dp \<noteq> [] \<Longrightarrow>
      credits_at (tx_time t) a tok' + 1000 = credits_at (tx_time t) a tok"
    and "balance_nat tok' k = balance_nat tok k"
proof -
  have "charge_at dp self t a tok = Some tok' \<or> tok' = tok"
    using assms(2) by (auto simp: charged_def split: option.splits if_splits)
  then show "k \<noteq> a \<Longrightarrow> credits_at (tx_time t) k tok' = credits_at (tx_time t) k tok"
    using token_meter.charge_others [OF assms(1)] by blast
  show "credits_at (tx_time t) a tok' + 1000 = credits_at (tx_time t) a tok"
    if "usage = Some (Some (at_token dp))" "at_token dp \<noteq> []"
    using assms(2) that token_meter.charge_exact [OF assms(1)] by (simp add: charged_def)
  show "balance_nat tok' k = balance_nat tok k"
  proof (cases "tok' = tok")
    case False
    with \<open>charge_at dp self t a tok = Some tok' \<or> tok' = tok\<close> have "charge_at dp self t a tok = Some tok'" by blast
    then obtain evs where sp: "spend (leaf_env dp (at_token dp) (Some self) t) a 1 tok = Inr (tok', evs)"
      by (auto simp: charge_at_Some elim!: consume_Inr)
    from spend_exact(3,4) [OF assms(1) sp] show ?thesis by (cases "k = a") (simp_all add: balance_nat_def)
  qed simp
qed

lemma charge_balances:
  assumes "token_inv tok" and "charge_at dp self t a tok = Some tok'"
  shows "balance_nat tok' k = balance_nat tok k"
proof -
  obtain evs where sp: "spend (leaf_env dp (at_token dp) (Some self) t) a 1 tok = Inr (tok', evs)"
    using assms(2) by (auto simp: charge_at_Some elim!: consume_Inr)
  from spend_exact(3,4) [OF assms(1) sp] show ?thesis by (cases "k = a") (simp_all add: balance_nat_def)
qed

lemma credits_put:
  "accounts tok' = (accounts tok)(k \<mapsto> a) \<Longrightarrow> account_ok a \<Longrightarrow> acc_updated_at a = time \<Longrightarrow>
   credits_at time k tok' = credits_nat a"
  by (simp add: credits_at_def regenerate_now)

text \<open>In a transfer or a burn only the credits of the sender can shrink.\<close>

lemma transfer_credits:
  assumes inv: "token_inv st" and ok: "transfer env args st = Inr (st', evs)" and k: "tr_from args \<noteq> Some k"
  shows "credits_at (now env) k st \<le> credits_at (now env) k st'"
  using ok
proof (rule transfer_Inr)
  fix x y c a b m
  assume xy: "tr_from args = Some x" "tr_to args = Some y" "x \<noteq> y"
    and a: "a = load env x st" and v: "0 < tr_value args" "tr_value args \<le> balance a"
    and m: "m = (token_credits a * tr_value args) div balance a"
    and st': "st' = st\<lparr>accounts := (accounts st)
       (x \<mapsto> a\<lparr>balance := balance a - tr_value args, token_credits := token_credits a - m\<rparr>,
        y \<mapsto> b\<lparr>balance := balance b + tr_value args, token_credits := token_credits b + m\<rparr>)\<rparr>"
  have sent: "account_ok a" "acc_updated_at a = now env" using load_ok(1) [OF inv] by (simp_all add: a)
  note moved = moved_credits [OF sent(1) v(2,1), folded m]
  let ?a' = "a\<lparr>balance := balance a - tr_value args, token_credits := token_credits a - m\<rparr>"
  have "credits_at (now env) x st' = credits_nat ?a'"
    using moved(6) sent(2) xy(3) by (simp add: credits_at_def st' regenerate_now)
  also have "\<dots> \<le> credits_nat a" using moved(4) by (simp add: credits_nat_def)
  also have "\<dots> = credits_at (now env) x st" by (simp add: a credits_load)
  finally have x: "credits_at (now env) x st' \<le> credits_at (now env) x st" .
  note moves = transfer_moves [OF inv ok xy(1,2)]
  then have "credits_at (now env) x st' + credits_at (now env) y st' = credits_at (now env) x st + credits_at (now env) y st"
    by (simp add: credits_load)
  with x have "credits_at (now env) y st \<le> credits_at (now env) y st'" by linarith
  moreover have "credits_at (now env) k st' = credits_at (now env) k st" if "k \<noteq> x" "k \<noteq> y"
    using that by (intro credits_same) (simp add: st')
  moreover have "k \<noteq> x" using k xy(1) by blast
  ultimately show ?thesis by (cases "k = y") simp_all
qed

lemma burn_others: "burn env args st = Inr (st', evs) \<Longrightarrow> bu_from args \<noteq> Some k \<Longrightarrow> accounts st' k = accounts st k"
  by (auto elim!: burn_Inr)

lemma mint_accounts:
  assumes "mint_reward env k r c st = (st', evs)"
  shows "accounts st' = (if r > 0 then (accounts st)(k \<mapsto> (load env k st)
      \<lparr>balance := balance (load env k st) + r, token_credits := token_credits (load env k st) + r * PER_TOKEN\<rparr>)
    else accounts st)"
proof (cases "r > 0")
  case True
  with assms have "st' = st\<lparr>tok_config := Some (c\<lparr>tok_supply := tok_supply c + r\<rparr>), accounts := (accounts st)(k \<mapsto> (load env k st)
      \<lparr>balance := balance (load env k st) + r, token_credits := token_credits (load env k st) + r * PER_TOKEN\<rparr>)\<rparr>"
    by (simp add: mint_reward_def Let_def save_def)
  with True show ?thesis by simp
next
  case False
  with assms show ?thesis by (simp add: mint_reward_def)
qed

text \<open>A support takes one action from the actor and gives the author a thousand units for each token of the reward.\<close>

lemma support_credits_exact:
  assumes inv: "token_inv st" and ok: "support env args st = Inr ((st', r), evs)"
  shows "\<exists>a w. su_actor args = Some a \<and> a \<noteq> w \<and>
    credits_at (now env) k st' + (if k = a then 1000 else 0) = credits_at (now env) k st + (if k = w then 1000 * unat r else 0) \<and>
    balance_nat st' k = balance_nat st k + (if k = w then unat r else 0)"
  using ok
proof (rule support_Inr)
  fix actor pid c post st1 evs1 g u st4 evs2
  assume act: "su_actor args = Some actor" and ne: "actor \<noteq> post_author post"
    and sp: "spend env actor 1 st = Inr (st1, evs1)"
    and c: "tok_config st = Some c"
    and st4: "st4 = st1\<lparr>supports := (supports st)(actor @ pid \<mapsto> \<lparr>reward_day = now env div DAY, minted = r\<rparr>),
       global_reward := Some (g\<lparr>minted := minted g + r\<rparr>),
       rewards := (rewards st)(post_author post \<mapsto> u\<lparr>minted := minted u + r\<rparr>)\<rparr>"
    and mint: "mint_reward env (post_author post) r c st4 = (st', evs2)"
  let ?w = "post_author post"
  have inv1: "token_inv st1" using inv sp by (rule spend_inv)
  note spent = spend_exact [OF inv sp]
  have one: "credits_at (now env) k st1 + (if k = actor then 1000 else 0) = credits_at (now env) k st"
    using spent(1) credits_same [of st1 k st "now env"] spent(4) by (cases "k = actor") (simp_all add: credits_load)
  have keep: "balance_nat st1 k = balance_nat st k"
    using spent(3,4) by (cases "k = actor") (simp_all add: balance_nat_def)
  have "credits_at (now env) k st' = credits_at (now env) k st1 + (if k = ?w then 1000 * unat r else 0) \<and>
    balance_nat st' k = balance_nat st1 k + (if k = ?w then unat r else 0)"
  proof (cases "r > 0 \<and> k = ?w")
    case False
    then have "accounts st' k = accounts st1 k"
      unfolding mint_accounts [OF mint] by (auto simp: st4)
    then have "credits_at (now env) k st' = credits_at (now env) k st1" "balance_nat st' k = balance_nat st1 k"
      by (rule credits_same) (simp add: balance_nat_def \<open>accounts st' k = accounts st1 k\<close>)
    with False show ?thesis by (auto simp: word_gt_0)
  next
    case True
    define a where "a = load env ?w st1"
    have a: "load env ?w st4 = a" unfolding a_def by (rule load_accounts) (simp add: st4)
    have a_ok: "account_ok a" "unat (balance a) = balance_nat st1 ?w" "acc_updated_at a = now env"
      using load_ok [OF inv1] by (simp_all add: a_def)
    have sup: "supply_nat st' = supply_nat st + unat r" "supply_nat st' \<le> 1000000" "unat r \<le> 1000000"
      using support_facts(1,2) [OF inv ok] by (simp_all add: token_inv_def)
    have same: "supply_nat st1 = supply_nat st" using spend_fields [OF sp] by (auto simp: supply_nat_def)
    have total: "unat (balance a) + unat r \<le> 1000000"
      using token_inv_bound [OF inv1, of ?w] sup same a_ok(2) by linarith
    have times: "unat (r * PER_TOKEN) = 1000 * unat r"
      using unat_mult_bounded [OF sup(3), of PER_TOKEN 1000] by (simp add: PER_TOKEN_def)
    note recv = received_credits [OF a_ok(1) total, of "r * PER_TOKEN", OF eq_imp_le [OF times]]
    have acc: "accounts st' ?w = Some (a\<lparr>balance := balance a + r, token_credits := token_credits a + r * PER_TOKEN\<rparr>)"
      using True unfolding mint_accounts [OF mint] a by simp
    then have "credits_at (now env) ?w st' = credits_nat (a\<lparr>balance := balance a + r, token_credits := token_credits a + r * PER_TOKEN\<rparr>)"
      using recv(3) a_ok(3) by (simp add: credits_at_def regenerate_now)
    also have "\<dots> = credits_nat a + 1000 * unat r" using recv(2) times by (simp add: credits_nat_def)
    finally have "credits_at (now env) ?w st' = credits_at (now env) ?w st1 + 1000 * unat r" by (simp add: a_def credits_load)
    moreover have "balance_nat st' ?w = balance_nat st1 ?w + unat r" using acc recv(1) a_ok(2) by (simp add: balance_nat_def)
    ultimately show ?thesis using True by simp
  qed
  with one keep act ne show ?thesis by (intro exI [of _ actor] exI [of _ ?w]) auto
qed

lemma support_credits:
  assumes "token_inv st" and "support env args st = Inr ((st', r), evs)" and "su_actor args \<noteq> Some k"
  shows "credits_at (now env) k st \<le> credits_at (now env) k st'"
  using support_credits_exact [OF assms(1,2), of k] assms(3) by auto

text \<open>The token contract's own entry points.\<close>

definition spends_own :: "deployment \<Rightarrow> transaction \<Rightarrow> world \<Rightarrow> bytes \<Rightarrow> token_state \<Rightarrow> bool" where
  "spends_own dp t w k tok \<longleftrightarrow>
     (credits_at (tx_time t) k tok < credits_at (tx_time t) k (w_token w) \<longrightarrow> (\<exists>cap. acts_for dp t w k cap)) \<and>
     (balance_nat tok k < balance_nat (w_token w) k \<longrightarrow>
        (\<exists>rec. identities (w_identity w) k = Some rec \<and> tx_authority t (id_owner rec)))"

lemma spends_own_ge:
  "credits_at (tx_time t) k (w_token w) \<le> credits_at (tx_time t) k tok \<Longrightarrow>
   balance_nat (w_token w) k \<le> balance_nat tok k \<Longrightarrow> spends_own dp t w k tok"
  unfolding spends_own_def using leD by blast

lemma spends_own_same: "accounts tok k = accounts (w_token w) k \<Longrightarrow> spends_own dp t w k tok"
  by (rule spends_own_ge) (simp_all add: credits_at_def balance_nat_def)

lemma spends_own_owner:
  "acts_for dp t w k cap \<Longrightarrow> \<exists>rec. identities (w_identity w) k = Some rec \<and> tx_authority t (id_owner rec) \<Longrightarrow>
   spends_own dp t w k tok"
  unfolding spends_own_def by blast

lemma transfer_own:
  assumes inv: "token_inv (w_token w)" and tr: "transfer (contract_env dp self t w) args (w_token w) = Inr (tok, evs)"
  shows "spends_own dp t w k tok"
proof -
  have "\<exists>x y. tr_from args = Some x \<and> tr_to args = Some y \<and> length x = 25"
    using tr by (rule transfer_Inr) (rule exI, rule exI, intro conjI; assumption)
  then obtain x y where xy: "tr_from args = Some x" "tr_to args = Some y" "length x = 25" by blast
  note moves = transfer_moves [OF inv tr xy(1,2)]
  then obtain tc sg where au: "require_authorized (contract_env dp self t w) (tok_identity (tc :: token_config)) x None 0 = Inr sg"
    by blast
  have x: "x \<noteq> []" using xy(3) by auto
  show ?thesis
  proof (cases "k = x")
    case True
    have "is_empty None" by simp
    with True show ?thesis using authorized_acts [OF au x] by (blast intro: spends_own_owner)
  next
    case False
    then have "credits_at (tx_time t) k (w_token w) \<le> credits_at (tx_time t) k tok"
      using transfer_credits [OF inv tr, of k] xy(1) by simp
    moreover have "balance_nat (w_token w) k \<le> balance_nat tok k"
      using moves False by (cases "k = y") (simp_all add: balance_nat_def)
    ultimately show ?thesis by (rule spends_own_ge)
  qed
qed

lemma burn_own:
  assumes bu: "burn (contract_env dp self t w) args (w_token w) = Inr (tok, evs)"
  shows "spends_own dp t w k tok"
proof -
  have "\<exists>x tc sg. bu_from args = Some x \<and> length x = 25 \<and>
      require_authorized (contract_env dp self t w) (tok_identity (tc :: token_config)) x None 0 = Inr sg"
    using bu
  proof (rule burn_Inr)
    fix x c
    assume "bu_from args = Some x" "length x = 25"
      "\<exists>sg. require_authorized (contract_env dp self t w) (tok_identity (c :: token_config)) x None 0 = Inr sg"
    then show ?thesis by blast
  qed
  then obtain x tc sg where x: "bu_from args = Some x" "length x = 25"
    and au: "require_authorized (contract_env dp self t w) (tok_identity (tc :: token_config)) x None 0 = Inr sg" by blast
  have ne: "x \<noteq> []" using x(2) by auto
  show ?thesis
  proof (cases "k = x")
    case True
    have "is_empty None" by simp
    with True show ?thesis using authorized_acts [OF au ne] by (blast intro: spends_own_owner)
  next
    case False
    with burn_others [OF bu] x(1) show ?thesis by (intro spends_own_same) simp
  qed
qed

lemma support_own:
  assumes inv: "token_inv (w_token w)" and su: "support (contract_env dp self t w) args (w_token w) = Inr ((tok, r), evs)"
  shows "spends_own dp t w k tok"
proof -
  from support_exact [OF inv su] obtain actor tc sg post where a: "su_actor args = Some actor"
    and au: "require_authorized (contract_env dp self t w) (tok_identity (tc :: token_config)) actor (su_device args) CAP_SUPPORT = Inr sg"
    and bal: "balance_nat tok (post_author (post :: post_record)) = balance_nat (w_token w) (post_author post) + unat r"
      "\<forall>k. k \<noteq> post_author post \<longrightarrow> balance_nat tok k = balance_nat (w_token w) k"
    by blast
  have "\<exists>x. su_actor args = Some x \<and> length x = 25"
    using su by (rule support_Inr) (rule exI, intro conjI; assumption)
  then have "actor \<noteq> []" using a by auto
  note owner = authorized_acts(1) [OF au this]
  have b: "balance_nat (w_token w) k \<le> balance_nat tok k" using bal by (cases "k = post_author post") simp_all
  show ?thesis
  proof (cases "k = actor")
    case True
    have "\<not> balance_nat tok k < balance_nat (w_token w) k" using b by simp
    with owner True show ?thesis unfolding spends_own_def by blast
  next
    case False
    then have "credits_at (tx_time t) k (w_token w) \<le> credits_at (tx_time t) k tok"
      using support_credits [OF inv su, of k] a by simp
    then show ?thesis using b by (rule spends_own_ge)
  qed
qed

lemma token_call_own:
  assumes inv: "token_inv (w_token w)"
    and ok: "token_step (contract_env dp self t w) c (w_token w) = Inr (tok, evs)"
  shows "spends_own dp t w k tok"
proof (cases c)
  case (Call_token_init args)
  with ok show ?thesis by (intro spends_own_same) (auto simp: token_init_def)
next
  case (Call_set_reward_policy args)
  with ok have p: "set_reward_policy (contract_env dp self t w) args (w_token w) = Inr (tok, evs)" by simp
  show ?thesis using set_reward_policy_inv(4) [OF inv p] by (intro spends_own_same) simp
next
  case (Call_consume args)
  with ok show ?thesis by (auto elim!: consume_Inr)
next
  case (Call_transfer args)
  with ok have "transfer (contract_env dp self t w) args (w_token w) = Inr (tok, evs)" by simp
  with inv show ?thesis by (rule transfer_own)
next
  case (Call_burn args)
  with ok have "burn (contract_env dp self t w) args (w_token w) = Inr (tok, evs)" by simp
  then show ?thesis by (rule burn_own)
next
  case (Call_support args)
  with ok obtain r where "support (contract_env dp self t w) args (w_token w) = Inr ((tok, r), evs)"
    by (auto simp: token_step_support simp del: token_step.simps)
  with inv show ?thesis by (rule support_own)
qed

lemma paid_own:
  assumes inv: "token_inv (w_token w)"
    and paid: "paid_by (contract_env dp self t w) ic usage payer (w_token w) tok"
  shows "spends_own dp t w k tok"
proof (cases payer)
  case None
  with paid show ?thesis by (intro spends_own_same) (simp add: paid_by_def)
next
  case (Some p)
  with paid obtain a cap sg where a: "length a = 25"
    and au: "require_authorized (contract_env dp self t w) ic a (snd p) cap = Inr sg"
    and ch: "charged (contract_env dp self t w) usage a (w_token w) tok"
    by (auto simp: paid_by_def split_beta)
  note moved = charged_credits [OF inv ch]
  show ?thesis
  proof (cases "k = a")
    case True
    have "a \<noteq> []" using a by auto
    with au True have "acts_for dp t w k cap" by (auto dest: authorized_acts)
    then show ?thesis using moved(3) by (auto simp: spends_own_def)
  next
    case False
    then show ?thesis using moved by (intro spends_own_ge) simp_all
  qed
qed

lemma messaging_own:
  assumes inv: "token_inv (w_token w)"
    and st: "messaging_step (contract_env dp self t w) c (w_token w, w_messaging w) = Inr ((tok, s), e)"
  shows "spends_own dp t w k tok"
  using messaging_paid [OF st]
proof (elim disjE conjE exE)
  assume "tok = w_token w"
  then show ?thesis by (intro spends_own_same) simp
next
  fix d a dev cap sg
  assume a: "length a = 25" and au: "require_authorized (contract_env dp self t w) (md_identity d) a dev cap = Inr sg"
    and ch: "call_consume (contract_env dp self t w) (md_token d) a 1 (w_token w) = Some tok"
  from ch have "paid_by (contract_env dp self t w) (md_identity d)
      (if md_token d = [] then None else Some (Some (md_token d))) (Some (Some a, dev)) (w_token w) tok" if "md_token d \<noteq> []"
    using that a au by (auto simp: paid_by_def charged_def)
  then show ?thesis
  proof (cases "md_token d = []")
    case True
    have ne: "a \<noteq> []" using a by auto
    from ch have c: "charge_at dp self t a (w_token w) = Some tok" by (simp split: if_splits)
    note moved = charge_balances [OF inv c]
    show ?thesis
    proof (cases "k = a")
      case True
      with au ne have "acts_for dp t w k cap" by (auto dest: authorized_acts)
      then show ?thesis using moved by (auto simp: spends_own_def)
    next
      case False
      then show ?thesis using moved token_meter.charge_others [OF inv c] by (intro spends_own_ge) simp_all
    qed
  qed (use inv in \<open>blast intro: paid_own\<close>)
qed

lemma step_own:
  assumes inv: "world_inv w" and ok: "protocol_step dp t call w = Inr w'"
  shows "spends_own dp t w k (w_token w')"
proof -
  have tok: "token_inv (w_token w)" using inv by (simp add: world_inv_def)
  show ?thesis
  proof (cases call)
    case (On_identity c)
    with ok show ?thesis by (intro spends_own_same) auto
  next
    case (On_communities c)
    with ok show ?thesis by (intro spends_own_same) auto
  next
    case (On_relationships c)
    with ok obtain s e where "relationships_step (contract_env dp (at_relationships dp) t w) c (w_token w, w_relationships w) = Inr ((w_token w', s), e)"
      by auto
    from paid_own [OF tok relationships_paid [OF this]] show ?thesis .
  next
    case (On_publications c)
    with ok obtain s e where "publications_step (contract_env dp (at_publications dp) t w) c (w_token w, w_publications w) = Inr ((w_token w', s), e)"
      by auto
    from paid_own [OF tok publications_paid [OF this]] show ?thesis .
  next
    case (On_messaging c)
    with ok obtain s e where "messaging_step (contract_env dp (at_messaging dp) t w) c (w_token w, w_messaging w) = Inr ((w_token w', s), e)"
      by auto
    with tok show ?thesis by (rule messaging_own)
  next
    case (On_token c)
    with ok obtain e where "token_step (contract_env dp (at_token dp) t w) c (w_token w) = Inr (w_token w', e)" by auto
    with tok show ?thesis by (rule token_call_own)
  qed
qed

text \<open>
  C9: Nobody but the holder spends what an account has. In the composed protocol, whatever the
  history and whichever contract a transaction calls, when it leaves an account with fewer action
  credits the transaction was signed by the account's owner or by a device of it that was good,
  at that moment, for some capability; and when it leaves it with a smaller token balance the
  owner key itself had signed, so no delegated device can ever move tokens.
\<close>

theorem holder_spends:
  assumes "protocol_exec dp t (world_after dp ts) = Inr w'"
  shows "(credits_at (tx_time t) k (w_token w') < credits_at (tx_time t) k (w_token (world_after dp ts)) \<longrightarrow>
      (\<exists>cap. acts_for dp t (world_after dp ts) k cap)) \<and>
    (balance_nat (w_token w') k < balance_nat (w_token (world_after dp ts)) k \<longrightarrow>
      (\<exists>rec. identities (w_identity (world_after dp ts)) k = Some rec \<and> tx_authority t (id_owner rec)))"
proof -
  have "protocol_step dp t (tx_call t) (world_after dp ts) = Inr w'" using assms by (simp only: protocol_exec_def)
  from step_own [OF protocol_world.run_keeps [OF world_empty_inv] this] show ?thesis by (simp only: spends_own_def)
qed

section \<open>What an action costs\<close>

text \<open>The account that pays for a call; transfers and burns are not actions, they move or destroy capacity with the tokens.\<close>

fun payer :: "protocol_call \<Rightarrow> world \<Rightarrow> bytes option" where
  "payer (On_relationships c) w = (case relationships_payer c of None \<Rightarrow> None | Some p \<Rightarrow> fst p)"
| "payer (On_publications c) w = (case publications_payer c of None \<Rightarrow> None | Some p \<Rightarrow> fst p)"
| "payer (On_messaging c) w = (case messaging_payer c (w_messaging w) of None \<Rightarrow> None | Some p \<Rightarrow> fst p)"
| "payer (On_token (Call_support args)) w = su_actor args"
| "payer _ w = None"

fun moves_tokens :: "protocol_call \<Rightarrow> bool" where
  "moves_tokens (On_token (Call_transfer args)) = True"
| "moves_tokens (On_token (Call_burn args)) = True"
| "moves_tokens _ = False"

text \<open>A deployment whose social contracts point at its token contract.\<close>

definition metered :: "deployment \<Rightarrow> world \<Rightarrow> bool" where
  "metered dp w \<longleftrightarrow> at_token dp \<noteq> [] \<and> rel_usage (w_relationships w) = Some (Some (at_token dp)) \<and>
     pub_usage (w_publications w) = Some (Some (at_token dp))"

lemma paid_exactly:
  assumes inv: "token_inv (w_token w)" and "usage = Some (Some (at_token dp))" "at_token dp \<noteq> []"
    and paid: "paid_by (contract_env dp self t w) ic usage p (w_token w) tok"
  shows "credits_at (tx_time t) k tok + (if (case p of None \<Rightarrow> None | Some x \<Rightarrow> fst x) = Some k then 1000 else 0) =
    credits_at (tx_time t) k (w_token w) \<and> balance_nat tok k = balance_nat (w_token w) k"
proof (cases p)
  case None
  with paid show ?thesis by (simp add: paid_by_def)
next
  case (Some x)
  with paid obtain a where a: "fst x = Some a" and ch: "charged (contract_env dp self t w) usage a (w_token w) tok"
    by (auto simp: paid_by_def split_beta)
  show ?thesis
  proof (cases "k = a")
    case True
    with charged_credits(2) [OF inv ch assms(2,3)] charged_credits(3) [OF inv ch] Some a show ?thesis by simp
  next
    case False
    with charged_credits(1,3) [OF inv ch] Some a show ?thesis by simp
  qed
qed

text \<open>What a call does to the credits and the balance of an account: an action taken, a reward given.\<close>

definition costs_exactly :: "transaction \<Rightarrow> protocol_call \<Rightarrow> world \<Rightarrow> world \<Rightarrow> bytes \<Rightarrow> bool" where
  "costs_exactly t c w w' k \<longleftrightarrow>
     credits_at (tx_time t) k (w_token w') + (if payer c w = Some k then 1000 else 0) =
       credits_at (tx_time t) k (w_token w) + 1000 * (balance_nat (w_token w') k - balance_nat (w_token w) k) \<and>
     (balance_nat (w_token w') k = balance_nat (w_token w) k \<or>
       balance_nat (w_token w) k < balance_nat (w_token w') k \<and> payer c w \<noteq> Some k \<and> (\<exists>args. c = On_token (Call_support args)))"

lemma costs_same_balance:
  "balance_nat (w_token w') k = balance_nat (w_token w) k \<Longrightarrow>
   credits_at (tx_time t) k (w_token w') + (if payer c w = Some k then 1000 else 0) = credits_at (tx_time t) k (w_token w) \<Longrightarrow>
   costs_exactly t c w w' k"
  by (simp add: costs_exactly_def)

lemma support_cost:
  assumes "token_inv (w_token w)" and "support (contract_env dp self t w) args (w_token w) = Inr ((w_token w', r), evs)"
  shows "costs_exactly t (On_token (Call_support args)) w w' k"
  using support_credits_exact [OF assms, of k] by (auto simp: costs_exactly_def split: if_splits)

lemma step_cost:
  assumes inv: "world_inv w" and ok: "protocol_step dp t call w = Inr w'" and "metered dp w"
    and "\<not> moves_tokens call"
  shows "costs_exactly t call w w' k"
proof -
  have tok: "token_inv (w_token w)"
    using inv by (simp add: world_inv_def)
  have m: "at_token dp \<noteq> []" "rel_usage (w_relationships w) = Some (Some (at_token dp))"
    "pub_usage (w_publications w) = Some (Some (at_token dp))"
    using assms(3) by (simp_all add: metered_def)
  show ?thesis
  proof (cases "call")
    case (On_identity c)
    with ok show ?thesis by (auto simp: costs_exactly_def)
  next
    case (On_communities c)
    with ok show ?thesis by (auto simp: costs_exactly_def)
  next
    case (On_relationships c)
    with ok obtain s e where "relationships_step (contract_env dp (at_relationships dp) t w) c (w_token w, w_relationships w) = Inr ((w_token w', s), e)"
      by auto
    from paid_exactly [OF tok m(2,1) relationships_paid [OF this], of k] On_relationships show ?thesis by (simp add: costs_exactly_def)
  next
    case (On_publications c)
    with ok obtain s e where "publications_step (contract_env dp (at_publications dp) t w) c (w_token w, w_publications w) = Inr ((w_token w', s), e)"
      by auto
    from paid_exactly [OF tok m(3,1) publications_paid [OF this], of k] On_publications show ?thesis by (simp add: costs_exactly_def)
  next
    case (On_messaging c)
    with ok obtain s e where "messaging_step (contract_env dp (at_messaging dp) t w) c (w_token w, w_messaging w) = Inr ((w_token w', s), e)"
      by auto
    from messaging_paid [OF this] consider "messaging_payer c (w_messaging w) = None" "w_token w' = w_token w"
      | a dev where "messaging_payer c (w_messaging w) = Some (Some a, dev)"
          "charge_at dp (at_messaging dp) t a (w_token w) = Some (w_token w')"
      by (auto split: if_splits)
    then show ?thesis
    proof cases
      case 1
      with On_messaging show ?thesis by (simp add: costs_exactly_def)
    next
      case (2 a dev)
      have "payer call w = Some a" using 2(1) On_messaging by simp
      then show ?thesis using token_meter.charge_effect [OF tok 2(2), of k] charge_balances [OF tok 2(2), of k]
        by (cases "k = a") (simp_all add: costs_exactly_def)
    qed
  next
    case (On_token c)
    then obtain evs where st: "token_step (contract_env dp (at_token dp) t w) c (w_token w) = Inr (w_token w', evs)"
      using ok by auto
    show ?thesis
    proof (cases c)
      case (Call_token_init args)
      with st have "accounts (w_token w') = accounts (w_token w)"
        by (auto simp: token_init_def dest!: arg_cong [where f = accounts])
      then show ?thesis by (simp add: costs_exactly_def credits_at_def balance_nat_def On_token Call_token_init)
    next
      case (Call_set_reward_policy args)
      with st have "set_reward_policy (contract_env dp (at_token dp) t w) args (w_token w) = Inr (w_token w', evs)" by simp
      then have "accounts (w_token w') = accounts (w_token w)" by (rule set_reward_policy_inv(4) [OF tok])
      then show ?thesis by (simp add: costs_exactly_def credits_at_def balance_nat_def On_token Call_set_reward_policy)
    next
      case (Call_consume args)
      with st show ?thesis by (auto elim!: consume_Inr)
    next
      case (Call_support args)
      with st obtain r where "support (contract_env dp (at_token dp) t w) args (w_token w) = Inr ((w_token w', r), evs)"
        by (auto simp: token_step_support simp del: token_step.simps)
      with tok show ?thesis unfolding On_token Call_support by (rule support_cost)
    qed (use assms(4) On_token in auto)
  qed
qed

text \<open>
  C24: In a metered deployment actions cost exactly what they should: a call that succeeds takes one action, a
  thousand credit units, from its payer (the requester of a friendship, the follower, the author of a
  version, the actor of a reaction that is not a removal, the requester of a conversation, the sender of a
  message that is not a repetition, the supporter of a post) and nothing from any other account. Credits
  only grow with a reward: the author of a supported post gets a thousand units for each new token. The calls
  left out are transfers and burns, which move or destroy capacity with the tokens.
\<close>

theorem actions_cost_exactly:
  assumes "protocol_exec dp t (world_after dp ts) = Inr w'" and "metered dp (world_after dp ts)"
    and "\<not> moves_tokens (tx_call t)"
  shows "credits_at (tx_time t) k (w_token w') + (if payer (tx_call t) (world_after dp ts) = Some k then 1000 else 0) =
      credits_at (tx_time t) k (w_token (world_after dp ts)) +
        1000 * (balance_nat (w_token w') k - balance_nat (w_token (world_after dp ts)) k) \<and>
    (balance_nat (w_token w') k = balance_nat (w_token (world_after dp ts)) k \<or>
      balance_nat (w_token (world_after dp ts)) k < balance_nat (w_token w') k \<and>
      payer (tx_call t) (world_after dp ts) \<noteq> Some k \<and> (\<exists>args. tx_call t = On_token (Call_support args)))"
proof -
  have "protocol_step dp t (tx_call t) (world_after dp ts) = Inr w'" using assms(1) by (simp only: protocol_exec_def)
  with protocol_world.run_keeps [OF world_empty_inv] have "costs_exactly t (tx_call t) (world_after dp ts) w' k"
    using assms(2,3) by (rule step_cost)
  then show ?thesis by (simp only: costs_exactly_def)
qed

section \<open>Blocks are enforced everywhere\<close>

text \<open>
  The account a call reaches out from and the accounts it reaches, for the calls that ask for a block; reactions
  and transfers of tokens do not, and removing, leaving or closing never needs one.
\<close>

definition replies_to :: "publish_arguments \<Rightarrow> publications_state \<Rightarrow> bytes \<Rightarrow> bool" where
  "replies_to args st p \<longleftrightarrow> is_empty (pa_previous_version args) \<and> \<not> is_empty (pa_reply_to args) \<and>
     (\<exists>parent. posts st (the (pa_reply_to args)) = Some parent \<and> post_author parent = p)"

fun contacts :: "protocol_call \<Rightarrow> world \<Rightarrow> bytes \<Rightarrow> bytes \<Rightarrow> bool" where
  "contacts (On_relationships (Call_request_friend args)) w a p \<longleftrightarrow> rf_requester args = Some a \<and> rf_recipient args = Some p"
| "contacts (On_relationships (Call_accept_friend args)) w a p \<longleftrightarrow> af_approver args = Some a \<and> af_requester args = Some p"
| "contacts (On_relationships (Call_follow args)) w a p \<longleftrightarrow> fo_follower args = Some a \<and> fo_target args = Some p"
| "contacts (On_publications (Call_publish args)) w a p \<longleftrightarrow> pa_author args = Some a \<and> a \<noteq> p \<and> replies_to args (w_publications w) p"
| "contacts (On_messaging (Call_request_conversation args)) w a p \<longleftrightarrow> ca_actor args = Some a \<and> ca_peer args = Some p"
| "contacts (On_messaging (Call_accept_conversation args)) w a p \<longleftrightarrow> ca_actor args = Some a \<and> ca_peer args = Some p"
| "contacts (On_messaging (Call_send_message args)) w a p \<longleftrightarrow> sm_sender args = Some a \<and> sm_recipient args = Some p \<and>
     \<not> repeats args (w_messaging w)"
| "contacts (On_token (Call_support args)) w a p \<longleftrightarrow> su_actor args = Some a \<and>
     (\<exists>pid post. su_post_id args = Some pid \<and> posts (w_publications w) pid = Some post \<and> post_author post = p)"
| "contacts _ w a p \<longleftrightarrow> False"

lemma is_blocked_addresses: "length a = 25 \<Longrightarrow> length b = 25 \<Longrightarrow> is_blocked (Some a) (Some b) st = has_blocked a b st"
  by (auto simp: is_blocked_def)

lemma relationships_enforce:
  assumes "relationships_step env c (w, st) = Inr ((w', st'), e)"
    and "contacts (On_relationships c) x a p" 
  shows "\<not> has_blocked p a st"
  using assms by (cases c) (auto simp: request_friend_def accept_friend_def follow_def require_not_blocked_def Let_def)

lemma publications_enforce:
  assumes inv: "publications_inv (w_publications w)"
    and ok: "publications_step (contract_env dp self t w) c (tok, w_publications w) = Inr ((tok', st'), e)"
    and con: "contacts (On_publications c) w a p"
  shows "\<not> has_blocked p a (w_relationships w)"
proof -
  from con obtain args parent r where c: "c = Call_publish args" and a: "pa_author args = Some a" "a \<noteq> p"
    and r: "is_empty (pa_previous_version args)" "pa_reply_to args = Some r" "r \<noteq> []"
    and parent: "posts (w_publications w) r = Some (parent :: post_record)" "post_author parent = p"
    by (cases c) (auto simp: replies_to_def)
  from ok have "publish (contract_env dp self t w) args (tok, w_publications w) = Inr ((tok', st'), e)" by (simp add: c)
  then show ?thesis
  proof (cases rule: publish_cases)
    case (first author pid h ik req rec ra)
    have "req = Some r" using first(10) r by simp
    with resolve_reply_Inr [OF publish_first_Inr(7) [OF first(14)]] parent a first(1)
    have nb: "pub_is_blocked (contract_env dp self t w) p a (w_publications w) = Inr False" by auto
    have "length p = 25" using inv parent by (auto simp: publications_inv_def post_ok_def)
    with nb first(1,2) a(1) show ?thesis
      by (auto simp: pub_is_blocked_def Let_def is_blocked_addresses split: if_splits)
  next
    case (edit author pid h ik req rec old pv rt ra)
    from publish_edit_Inr(4) [OF edit(12)] r(1) have "latest_version old = []" by simp
    moreover have "length (latest_version old) = 32"
      using inv edit(10) by (auto simp: publications_inv_def post_ok_def)
    ultimately show ?thesis by simp
  qed
qed

lemma messaging_enforce:
  assumes ok: "messaging_step (contract_env dp self t w) c (tok, w_messaging w) = Inr ((tok', st'), e)"
    and con: "contacts (On_messaging c) w a p"
  shows "\<not> has_blocked p a (w_relationships w)"
proof (cases c)
  case (Call_request_conversation args)
  with ok have "request_conversation (contract_env dp self t w) args (tok, w_messaging w) = Inr ((tok', st'), e)" by simp
  then show ?thesis
    by (rule request_conversation_Inr) (use con Call_request_conversation in \<open>auto simp: is_blocked_addresses split: if_splits\<close>)
next
  case (Call_accept_conversation args)
  with ok have "accept_conversation (contract_env dp self t w) args (w_messaging w) = Inr (st', e)" by auto
  then show ?thesis
    by (rule accept_conversation_Inr) (use con Call_accept_conversation in \<open>auto simp: is_blocked_addresses split: if_splits\<close>)
next
  case (Call_send_message args)
  with ok obtain m where "send_message (contract_env dp self t w) args (tok, w_messaging w) = Inr (((tok', st'), m), e)" by auto
  then show ?thesis
  proof (cases rule: send_message_cases)
    case (retry a b d mid eb)
    with con Call_send_message show ?thesis by (auto simp: repeats_def)
  next
    case (fresh a b d mid eb c)
    with con Call_send_message show ?thesis by (auto simp: is_blocked_addresses split: if_splits)
  qed
qed (use con in auto)

lemma token_enforce:
  assumes inv: "token_inv tok" "publications_inv (w_publications w)"
    and ok: "token_step (contract_env dp self t w) c tok = Inr (tok', e)"
    and con: "contacts (On_token c) w a p"
  shows "\<not> has_blocked p a (w_relationships w) \<and> \<not> has_blocked a p (w_relationships w)"
proof -
  from con obtain args pid post where c: "c = Call_support args" and a: "su_actor args = Some a" "su_post_id args = Some pid"
    and post: "posts (w_publications w) pid = Some (post :: post_record)" "post_author post = p"
    by (cases c) auto
  from ok obtain r where su: "support (contract_env dp self t w) args tok = Inr ((tok', r), e)"
    by (auto simp: c token_step_support simp del: token_step.simps)
  from support_exact [OF inv(1) su] a obtain tc post' where
    get: "call_get_post (contract_env dp self t w) (tok_publications (tc :: token_config)) pid = Call_Object (Some (post' :: post_record))"
    and nb: "call_is_blocked (contract_env dp self t w) (tok_relationships tc) a (post_author post') = Call_Object False"
      "call_is_blocked (contract_env dp self t w) (tok_relationships tc) (post_author post') a = Call_Object False"
    by (auto simp del: world_calls)
  have la: "\<exists>x. su_actor args = Some x \<and> length x = 25"
    using su by (rule support_Inr) (rule exI, intro conjI; assumption)
  from get post have "post' = post" by (auto simp: get_post_def split: if_splits)
  moreover have "length p = 25" using inv(2) post by (auto simp: publications_inv_def post_ok_def)
  ultimately show ?thesis using nb la a post by (auto simp: is_blocked_addresses split: if_splits)
qed

text \<open>
  C3: A block is enforced by the whole protocol, not only by the contract that stores it. In no
  history can a blocked account reach the one that blocked it: no friend request, acceptance or
  follow, no new reply to a post of it, no conversation request or acceptance, no new message and
  no token support of a post of it succeeds in any contract while the block stands, whatever
  addresses the contracts were configured with. Two calls of the protocol ask for no block, and the
  property does not speak of them: \<open>react\<close>, whose event names the author of the post, and the transfer of tokens.
\<close>

theorem block_is_enforced:
  assumes "protocol_exec dp t (world_after dp ts) = Inr w'" and "contacts (tx_call t) (world_after dp ts) a p"
  shows "\<not> has_blocked p a (w_relationships (world_after dp ts))"
proof -
  let ?w = "world_after dp ts"
  have inv: "token_inv (w_token ?w)" "publications_inv (w_publications ?w)"
    using protocol_world.run_keeps [OF world_empty_inv, of dp ts] by (simp_all add: world_inv_def)
  have ok: "protocol_step dp t (tx_call t) ?w = Inr w'" using assms(1) by (simp add: protocol_exec_def)
  show ?thesis
  proof (cases "tx_call t")
    case (On_relationships c)
    with ok obtain s e where "relationships_step (contract_env dp (at_relationships dp) t ?w) c (w_token ?w, w_relationships ?w) = Inr ((w_token w', s), e)"
      by auto
    from relationships_enforce [OF this] assms(2) On_relationships show ?thesis by simp
  next
    case (On_publications c)
    with ok obtain s e where "publications_step (contract_env dp (at_publications dp) t ?w) c (w_token ?w, w_publications ?w) = Inr ((w_token w', s), e)"
      by auto
    from publications_enforce [OF inv(2) this] assms(2) On_publications show ?thesis by simp
  next
    case (On_messaging c)
    with ok obtain s e where "messaging_step (contract_env dp (at_messaging dp) t ?w) c (w_token ?w, w_messaging ?w) = Inr ((w_token w', s), e)"
      by auto
    from messaging_enforce [OF this] assms(2) On_messaging show ?thesis by simp
  next
    case (On_token c)
    with ok obtain e where "token_step (contract_env dp (at_token dp) t ?w) c (w_token ?w) = Inr (w_token w', e)" by auto
    from token_enforce [OF inv this] assms(2) On_token show ?thesis by auto
  qed (use assms(2) in auto)
qed

section \<open>The properties at concrete inputs\<close>

definition demo_dp :: deployment where
  "demo_dp = \<lparr>dp_chain_id = [18], dp_sha256 = (\<lambda>b. take 32 (rev b @ replicate 32 0)), dp_string_to_bytes = map ucast,
     at_identity = sample_addr 90, at_relationships = sample_addr 91, at_publications = sample_addr 92,
     at_communities = sample_addr 93, at_messaging = sample_addr 94, at_token = sample_addr 95\<rparr>"

definition demo_tx :: "u64 \<Rightarrow> protocol_call \<Rightarrow> transaction" where
  "demo_tx n c = \<lparr>tx_time = n, tx_authority = (\<lambda>_. True), tx_call = c\<rparr>"

definition demo_register :: "byte \<Rightarrow> protocol_call" where
  "demo_register n = On_identity (Call_register \<lparr>reg_account = Some (sample_addr n),
     reg_encryption_key = Some (replicate 32 7), reg_key_version = 1, reg_profile_hash = None, reg_profile_uri = None\<rparr>)"

definition demo_follow :: transaction where
  "demo_follow = demo_tx 500 (On_relationships (Call_follow
     \<lparr>fo_follower = Some (sample_addr 1), fo_target = Some (sample_addr 2), fo_device = None\<rparr>))"

definition demo_history :: "transaction list" where
  "demo_history =
    [demo_tx 100 (demo_register 1), demo_tx 100 (demo_register 2),
     demo_tx 200 (On_relationships (Call_rel_set_identity_contract (Some (sample_addr 90)))),
     demo_tx 200 (On_relationships (Call_rel_set_token_contract (Some (sample_addr 95)))),
     demo_tx 200 (On_publications (Call_pub_set_token_contract (Some (sample_addr 95)))),
     demo_tx 300 (On_token (Call_token_init \<lparr>ti_identity = Some (sample_addr 90), ti_relationships = Some (sample_addr 91),
        ti_publications = Some (sample_addr 92), ti_messaging = Some (sample_addr 94)\<rparr>))]"

definition demo_person :: "byte \<Rightarrow> identity_record" where
  "demo_person n = \<lparr>id_account = sample_addr n, id_owner = sample_addr n, id_encryption_key = replicate 32 7,
     id_key_version = 1, id_profile_hash = None, id_profile_uri = None, id_protocol_version = 1,
     id_device_epoch = 0, id_registered_at = 100, id_updated_at = 100\<rparr>"

definition demo_world :: world where
  "demo_world = world_empty
    \<lparr>w_identity := \<lparr>identities = [sample_addr 1 \<mapsto> demo_person 1, sample_addr 2 \<mapsto> demo_person 2], devices = Map.empty, recovery = Map.empty\<rparr>,
     w_relationships := relationships_empty\<lparr>rel_config := Some (Some (sample_addr 90)), rel_usage := Some (Some (sample_addr 95))\<rparr>,
     w_publications := publications_empty\<lparr>pub_usage := Some (Some (sample_addr 95))\<rparr>,
     w_token := token_empty\<lparr>tok_config := Some \<lparr>tok_identity = sample_addr 90, tok_relationships = sample_addr 91,
        tok_publications = sample_addr 92, tok_messaging = sample_addr 94, reward_amount = 1,
        daily_reward_cap = 1000, recipient_daily_cap = 10, tok_supply = 0\<rparr>\<rparr>\<rparr>"

lemma demo_dp_simps [simp]:
  "at_identity demo_dp = sample_addr 90" "at_relationships demo_dp = sample_addr 91" "at_publications demo_dp = sample_addr 92"
  "at_communities demo_dp = sample_addr 93" "at_messaging demo_dp = sample_addr 94" "at_token demo_dp = sample_addr 95"
  by (simp_all add: demo_dp_def)

lemma demo_tx_simps [simp]:
  "tx_time (demo_tx n c) = n" "tx_authority (demo_tx n c) = (\<lambda>_. True)" "tx_call (demo_tx n c) = c"
  by (simp_all add: demo_tx_def)

lemma demo_history_run: "world_after demo_dp demo_history = demo_world"
  by (simp add: demo_history_def protocol_exec_def demo_register_def world_empty_def demo_world_def
     identity_eval identity_init_def demo_person_def relationships_eval relationships_empty_def publications_empty_def
     pub_set_token_contract_def token_init_def token_empty_def fun_upd_twist)

lemma demo_follow_call: "tx_call demo_follow = On_relationships (Call_follow
     \<lparr>fo_follower = Some (sample_addr 1), fo_target = Some (sample_addr 2), fo_device = None\<rparr>)"
  "tx_time demo_follow = 500"
  by (simp_all add: demo_follow_def)

lemma demo_follow_ok: "\<exists>w'. protocol_exec demo_dp demo_follow demo_world = Inr w'"
  by (simp add: protocol_exec_def demo_follow_def demo_world_def relationships_eval contract_env_def leaf_env_def
     require_authorized_def actor_exists_def resolve_def demo_person_def now_def relationships_empty_def
     directed_key_def is_following_def consume_def cfg_def spend_def load_def token_empty_def FREE_def save_def Let_def)

lemma demo_metered: "metered demo_dp demo_world"
  by (simp add: metered_def demo_world_def)

lemma demo_credits: "credits_at n k (w_token demo_world) = 100000"
  by (simp add: credits_at_def demo_world_def token_empty_def)

theorem actions_cost_exactly_witness:
  "\<exists>w'. protocol_exec demo_dp demo_follow (world_after demo_dp demo_history) = Inr w' \<and>
     credits_at 500 (sample_addr 1) (w_token w') = 99000 \<and> credits_at 500 (sample_addr 2) (w_token w') = 100000"
proof -
  obtain w' where ok: "protocol_exec demo_dp demo_follow demo_world = Inr w'" using demo_follow_ok by blast
  note cost = actions_cost_exactly [of demo_dp demo_follow demo_history w', unfolded demo_history_run demo_follow_call,
      OF ok demo_metered, simplified]
  from cost [of "sample_addr 1"] cost [of "sample_addr 2"] ok show ?thesis
    by (simp add: demo_credits demo_history_run)
qed

theorem block_is_enforced_witness:
  "contacts (tx_call demo_follow) (world_after demo_dp demo_history) (sample_addr 1) (sample_addr 2) \<and>
   \<not> has_blocked (sample_addr 2) (sample_addr 1) (w_relationships (world_after demo_dp demo_history))"
proof -
  have con: "contacts (tx_call demo_follow) (world_after demo_dp demo_history) (sample_addr 1) (sample_addr 2)"
    by (simp add: demo_follow_call)
  obtain w' where "protocol_exec demo_dp demo_follow (world_after demo_dp demo_history) = Inr w'"
    using demo_follow_ok by (auto simp: demo_history_run)
  from block_is_enforced [OF this con] con show ?thesis by blast
qed

theorem holder_spends_witness:
  "\<exists>w' cap. protocol_exec demo_dp demo_follow (world_after demo_dp demo_history) = Inr w' \<and>
    acts_for demo_dp demo_follow (world_after demo_dp demo_history) (sample_addr 1) cap"
proof -
  obtain w' where ok: "protocol_exec demo_dp demo_follow (world_after demo_dp demo_history) = Inr w'"
    using demo_follow_ok by (auto simp: demo_history_run)
  then have "protocol_step demo_dp demo_follow (tx_call demo_follow) demo_world = Inr w'"
    by (simp only: protocol_exec_def demo_history_run)
  from step_cost [OF _ this demo_metered, of "sample_addr 1"] protocol_world.run_keeps [OF world_empty_inv, of demo_dp demo_history]
  have "credits_at 500 (sample_addr 1) (w_token w') < credits_at 500 (sample_addr 1) (w_token demo_world)"
    by (auto simp: demo_follow_call demo_history_run demo_credits costs_exactly_def)
  with holder_spends [OF ok, of "sample_addr 1"] ok show ?thesis
    by (auto simp: demo_follow_call demo_history_run)
qed

section \<open>Delegation in the composed protocol\<close>

text \<open>
  The identity contract calls nobody, so in the composed protocol it stores exactly what it would
  store alone under its own calls: those of the history, each with the host it ran on.
\<close>

fun identity_trace :: "deployment \<Rightarrow> world \<Rightarrow> transaction list \<Rightarrow> (token_state env \<times> identity_call) list" where
  "identity_trace dp w [] = []"
| "identity_trace dp w (t # ts) =
     (case tx_call t of On_identity c \<Rightarrow> [(contract_env dp (at_identity dp) t w, c)] | _ \<Rightarrow> []) @
     identity_trace dp (run (protocol_exec dp) w [t]) ts"

lemma trace_step:
  "w_identity (run (protocol_exec dp) w [t]) =
   run identity_exec (w_identity w) (case tx_call t of On_identity c \<Rightarrow> [(contract_env dp (at_identity dp) t w, c)] | _ \<Rightarrow> [])"
  by (cases "tx_call t") (auto simp: protocol_exec_def identity_exec_def split: sum.splits)

lemma trace_run: "w_identity (run (protocol_exec dp) w ts) = run identity_exec (w_identity w) (identity_trace dp w ts)"
proof (induction ts arbitrary: w)
  case (Cons t ts)
  have "run (protocol_exec dp) w (t # ts) = run (protocol_exec dp) (run (protocol_exec dp) w [t]) ts"
    by (simp split: sum.split)
  then show ?case by (simp only: Cons.IH trace_step identity_trace.simps run_append)
qed simp

lemma trace_append:
  "identity_trace dp w (xs @ ys) = identity_trace dp w xs @ identity_trace dp (run (protocol_exec dp) w xs) ys"
proof (induction xs arbitrary: w)
  case (Cons x xs)
  have "run (protocol_exec dp) w (x # xs) = run (protocol_exec dp) (run (protocol_exec dp) w [x]) xs"
    by (simp split: sum.split)
  then show ?case by (simp only: append_Cons identity_trace.simps Cons.IH append_assoc)
qed simp

lemma trace_length: "length (identity_trace dp w ts) \<le> length ts"
proof (induction ts arbitrary: w)
  case (Cons t ts)
  from this [of "run (protocol_exec dp) w [t]"] show ?case
    by (simp del: run.simps split: protocol_call.split)
qed simp

lemma trace_split:
  assumes "identity_trace dp w ts = xs @ (env, c) # ys"
  obtains before t after where "ts = before @ t # after" "tx_call t = On_identity c" "identity_trace dp w before = xs"
    "env = contract_env dp (at_identity dp) t (run (protocol_exec dp) w before)"
    "ys = identity_trace dp (run (protocol_exec dp) w (before @ [t])) after"
  using assms
proof (induction ts arbitrary: w xs thesis)
  case (Cons t ts)
  let ?w = "run (protocol_exec dp) w [t]"
  have run: "run (protocol_exec dp) w (t # zs) = run (protocol_exec dp) ?w zs" for zs
    by (simp split: sum.split)
  show ?case
  proof (cases "xs = [] \<and> (\<exists>c'. tx_call t = On_identity c')")
    case True
    with Cons.prems(2) show ?thesis
      by (intro Cons.prems(1) [of "[]" t ts]) (auto simp del: run.simps(2))
  next
    case False
    then obtain xs' where xs: "xs = (case tx_call t of On_identity c \<Rightarrow> [(contract_env dp (at_identity dp) t w, c)] | _ \<Rightarrow> []) @ xs'"
      and rest: "identity_trace dp ?w ts = xs' @ (env, c) # ys"
      using Cons.prems(2) by (cases "tx_call t"; cases xs) (auto simp del: run.simps(2))
    show ?thesis
    proof (rule Cons.IH [OF _ rest])
      fix before t' after
      assume "ts = before @ t' # after" "tx_call t' = On_identity c" "identity_trace dp ?w before = xs'"
        "env = contract_env dp (at_identity dp) t' (run (protocol_exec dp) ?w before)"
        "ys = identity_trace dp (run (protocol_exec dp) ?w (before @ [t'])) after"
      then show ?thesis
        by (intro Cons.prems(1) [of "t # before" t' after])
          (simp_all only: run [of before] run [of "before @ [t']"] append_Cons identity_trace.simps xs)
    qed
  qed
qed simp

text \<open>
  C4: Whoever acts for an account in the composed protocol is the owner or was let in by the
  owner. If a transaction can act for an account with some capability, it carries the signature of
  the account's present owner, or of a device for which the history holds an authorization signed
  by that same owner key, granting the capability, not expired and at most 366 days long; and
  at every moment since then the device was unrevoked and the account had that owner. (The history
  is shorter than the range of the 32-bit epoch counter.)
\<close>

theorem delegation_comes_from_owner:
  assumes "acts_for dp t (world_after dp ts) a cap" and "length a = 25" and "length ts < 4294967296"
  shows "\<exists>rec. identities (w_identity (world_after dp ts)) a = Some rec \<and>
    (tx_authority t (id_owner rec) \<or>
     (\<exists>before t1 args after d dev. ts = before @ t1 # after \<and> tx_call t1 = On_identity (Call_authorize_device args) \<and>
        ad_account args = Some a \<and> ad_device args = Some d \<and> tx_authority t d \<and> tx_authority t1 (id_owner rec) \<and>
        (cap = 0 \<or> ad_capabilities args AND cap \<noteq> 0) \<and>
        tx_time t < ad_expires_at args \<and> ad_expires_at args \<le> tx_time t1 + 31622400000 \<and>
        (\<forall>ys zs. after = ys @ zs \<longrightarrow>
           live a d (id_owner rec) dev (w_identity (world_after dp (before @ t1 # ys))))))"
proof -
  let ?w = "world_after dp ts" and ?cs = "identity_trace dp world_empty ts"
  have state: "w_identity ?w = run identity_exec identity_init ?cs"
    by (simp add: trace_run world_empty_def)
  from assms(1) obtain rec where rec: "identities (w_identity ?w) a = Some rec"
    and or: "tx_authority t (id_owner rec) \<or> (\<exists>d. tx_authority t d \<and> device_good (leaf_env dp (at_identity dp) None t) (w_identity ?w) a d cap)"
    by (auto simp: acts_for_def)
  from or show ?thesis
  proof (elim disjE exE conjE)
    fix d
    assume d: "tx_authority t d" and good: "device_good (leaf_env dp (at_identity dp) None t) (w_identity ?w) a d cap"
    have "length ?cs < 4294967296" using trace_length assms(3) by (rule le_less_trans)
    from device_authorized [OF good [unfolded state] assms(2) this] obtain xs env1 args ys dev st1 rec' where
      cs: "?cs = xs @ (env1, Call_authorize_device args) # ys" and rec': "identities (run identity_exec identity_init ?cs) a = Some (rec' :: identity_record)"
      and facts: "ad_account args = Some a" "ad_device args = Some d" "has_authority env1 (id_owner rec')"
        "cap = 0 \<or> ad_capabilities args AND cap \<noteq> 0" "now (leaf_env dp (at_identity dp) None t) < ad_expires_at args"
        "ad_expires_at args \<le> now env1 + 31622400000"
      and st1: "identity_exec (env1, Call_authorize_device args) (run identity_exec identity_init xs) = Inr st1"
      and lives: "\<forall>us vs. ys = us @ vs \<longrightarrow> live a d (id_owner rec') dev (run identity_exec st1 us)"
      by blast
    have same: "rec' = rec" using rec rec' by (simp add: state)
    from cs obtain before t1 after where ts: "ts = before @ t1 # after" "tx_call t1 = On_identity (Call_authorize_device args)"
      and xs: "identity_trace dp world_empty before = xs"
      and env1: "env1 = contract_env dp (at_identity dp) t1 (world_after dp before)"
      and ys: "ys = identity_trace dp (world_after dp (before @ [t1])) after"
      by (rule trace_split)
    have live: "live a d (id_owner rec) dev (w_identity (world_after dp (before @ t1 # us)))" if "after = us @ vs" for us vs
    proof -
      have "ys = identity_trace dp (world_after dp (before @ [t1])) us @ identity_trace dp (world_after dp (before @ [t1] @ us)) vs"
        by (simp add: ys that trace_append run_append [symmetric])
      with lives same have l: "live a d (id_owner rec) dev (run identity_exec st1 (identity_trace dp (world_after dp (before @ [t1])) us))"
        by blast
      have "identity_trace dp world_empty (before @ [t1]) = xs @ [(env1, Call_authorize_device args)]"
        using ts(2) by (simp add: trace_append xs env1 del: run.simps)
      then have "w_identity (world_after dp (before @ [t1])) = st1"
        using st1 by (simp only: trace_run) (simp add: world_empty_def run_append)
      moreover have "world_after dp (before @ t1 # us) = run (protocol_exec dp) (world_after dp (before @ [t1])) us"
        by (simp only: run_append [symmetric]) simp
      ultimately show ?thesis using l by (simp only: trace_run)
    qed
    have "tx_authority t1 (id_owner rec)" "cap = 0 \<or> ad_capabilities args AND cap \<noteq> 0" "tx_time t < ad_expires_at args"
      "ad_expires_at args \<le> tx_time t1 + 31622400000"
      using facts same env1 by simp_all
    then show ?thesis using rec ts facts(1,2) d live by blast
  qed (use rec in blast)
qed

definition demo_delegation :: "transaction list" where
  "demo_delegation = demo_history @ [demo_tx 400 (On_identity (Call_authorize_device
     \<lparr>ad_account = Some (sample_addr 1), ad_device = Some (sample_addr 5), ad_capabilities = 3, ad_expires_at = 9000, ad_label = None\<rparr>))]"

text \<open>A transaction that carries only the signature of the device.\<close>

definition demo_by_device :: transaction where
  "demo_by_device = \<lparr>tx_time = 600, tx_authority = (\<lambda>k. k = sample_addr 5), tx_call = demo_register 7\<rparr>"

lemma demo_device_acts: "acts_for demo_dp demo_by_device (world_after demo_dp demo_delegation) (sample_addr 1) CAP_PUBLISH"
  unfolding demo_delegation_def run_append demo_history_run
  by (simp add: demo_world_def protocol_exec_def identity_eval demo_person_def acts_for_def demo_by_device_def device_key_def
      device_good_def CAP_PUBLISH_def)

theorem delegation_comes_from_owner_witness:
  "\<exists>before t1 args after. demo_delegation = before @ t1 # after \<and>
     tx_call t1 = On_identity (Call_authorize_device args) \<and> ad_device args = Some (sample_addr 5)"
proof -
  have rec: "identities (w_identity (world_after demo_dp demo_delegation)) (sample_addr 1) = Some (demo_person 1)"
    unfolding demo_delegation_def run_append demo_history_run
    by (simp add: demo_world_def protocol_exec_def identity_eval demo_person_def device_key_def)
  have "length demo_delegation < 4294967296" by (simp add: demo_delegation_def demo_history_def)
  from delegation_comes_from_owner [OF demo_device_acts length_sample_addr this] show ?thesis
    by (auto simp: rec demo_by_device_def demo_person_def)
qed

end
