(* ===== verification/Registry.thy ===== *)
theory Registry
  imports Actor Timelock
begin

text \<open>
  The registry contract, \<open>packages/contracts/registry/assembly/Registry.ts\<close>: the published
  contract set. The admin proposes an entry, anyone applies it after the upgrade delay; the
  admin key moves through the same time lock. The first part is the contract as written, the
  second its invariant, the two time locks and the history of an active entry.
\<close>

section \<open>State objects\<close>

datatype contract_status = Status_proposed | Status_active | Status_deprecated

record contract_entry =
  ce_name :: ustring
  ce_address :: bytes
  ce_version :: u32
  ce_abi_hash :: "bytes option"
  ce_status :: contract_status
  ce_effective_at :: u64
  ce_notes :: "ustring option"
  ce_updated_at :: u64

record registry_config =
  reg_admin :: bytes
  upgrade_delay_ms :: u64
  reg_protocol_version :: u32
  pending_admin :: "bytes option"
  admin_transfer_effective_at :: u64

record registry_state =
  reg_config :: "registry_config option"
  active_entries :: "bytes \<rightharpoonup> contract_entry"
  proposed_entries :: "bytes \<rightharpoonup> contract_entry"

definition registry_empty :: registry_state where
  "registry_empty = \<lparr>reg_config = None, active_entries = Map.empty, proposed_entries = Map.empty\<rparr>"

section \<open>Arguments and events\<close>

record registry_init_arguments =
  ri_admin :: "bytes option"
  ri_upgrade_delay_ms :: u64
  ri_protocol_version :: u32

record propose_contract_arguments =
  pc_name :: "ustring option"
  pc_address :: "bytes option"
  pc_version :: u32
  pc_abi_hash :: "bytes option"
  pc_notes :: "ustring option"

record deprecate_contract_arguments =
  dc_name :: "ustring option"
  dc_notes :: "ustring option"

text \<open>The payloads of the \<open>osp.registry.*\<close> events, fields in the order of the schema.\<close>

datatype registry_event =
    Contract_proposed ustring bytes u32 "bytes option" u64
  | Contract_activated ustring bytes u32 u64
  | Contract_cancelled ustring u64
  | Contract_deprecated ustring bytes u32 u64
  | Admin_proposed bytes u64
  | Admin_changed bytes bytes u64

type_synonym registry_outcome = "(registry_state \<times> registry_event emitted list) result"

section \<open>Constants\<close>

definition REG_DAY_MS :: u64 where "REG_DAY_MS = 86400000"
definition MAX_UPGRADE_DELAY_MS :: u64 where "MAX_UPGRADE_DELAY_MS = 30 * REG_DAY_MS"
definition MAX_NAME_CHARS :: nat where "MAX_NAME_CHARS = 32"
definition ABI_HASH_LENGTH :: nat where "ABI_HASH_LENGTH = 32"
definition MAX_NOTES_CHARS :: nat where "MAX_NOTES_CHARS = 256"
definition MAX_LIST_LIMIT :: nat where "MAX_LIST_LIMIT = 100"

section \<open>Internal helpers\<close>

definition load_config :: "registry_state \<Rightarrow> registry_config result" where
  "load_config st = require (reg_config st \<noteq> None) ''not initialized''
     (non_null (reg_config st) ''cfg'')"

definition require_admin :: "'w env \<Rightarrow> registry_state \<Rightarrow> registry_config result" where
  "require_admin env st =
     attempt (load_config st) (\<lambda>cfg. require_authority env (reg_admin cfg) (Inr cfg))"

definition name_char :: "u16 \<Rightarrow> bool" where
  "name_char c \<longleftrightarrow> (c \<ge> 0x61 \<and> c \<le> 0x7a) \<or> (c \<ge> 0x30 \<and> c \<le> 0x39) \<or> c = 0x5f \<or> c = 0x2d"

fun check_name_chars :: "ustring \<Rightarrow> unit result" where
  "check_name_chars [] = Inr ()"
| "check_name_chars (c # cs) =
     require (name_char c) ''name must match [a-z0-9_-]'' (check_name_chars cs)"

definition require_name :: "ustring option \<Rightarrow> ustring result" where
  "require_name v =
     require (v \<noteq> None \<and> length (the v) > 0) ''name is required''
     (attempt (non_null v ''name'') (\<lambda>name.
      require (length name \<le> MAX_NAME_CHARS) ''name too long''
      (attempt (check_name_chars name) (\<lambda>_. Inr name))))"

definition name_key :: "'w env \<Rightarrow> ustring \<Rightarrow> bytes" where
  "name_key env name = string_to_bytes env name"

definition optional_abi_hash :: "bytes option \<Rightarrow> bytes option result" where
  "optional_abi_hash v =
     (if is_empty v then Inr None
      else require (length (the v) = ABI_HASH_LENGTH) ''abi_hash must be empty or 32 bytes'' (Inr v))"

definition optional_notes :: "ustring option \<Rightarrow> ustring option result" where
  "optional_notes v =
     attempt (require_string v MAX_NOTES_CHARS ''notes'') (\<lambda>s.
     Inr (if length s = 0 then None else Some s))"

definition registry_impacted :: "bytes \<Rightarrow> bytes \<Rightarrow> bytes list" where
  "registry_impacted a b = (if a = b then [a] else [a, b])"

definition emit_activated :: "contract_entry \<Rightarrow> u64 \<Rightarrow> bytes list \<Rightarrow> registry_event emitted" where
  "emit_activated entry t impacted =
     (Contract_activated (ce_name entry) (ce_address entry) (ce_version entry) t, impacted)"

section \<open>Operations\<close>

definition registry_init :: "'w env \<Rightarrow> registry_init_arguments \<Rightarrow> registry_state \<Rightarrow> registry_outcome" where
  "registry_init env args st =
     require_authority env (contract_id env)
     (require (reg_config st = None) ''already initialized''
     (attempt (require_address (ri_admin args) ''admin'') (\<lambda>admin.
      require (ri_upgrade_delay_ms args \<le> MAX_UPGRADE_DELAY_MS) ''upgrade_delay_ms too large''
     (require (ri_protocol_version args \<ge> 1) ''protocol_version must be >= 1''
     (Inr (st\<lparr>reg_config := Some \<lparr>reg_admin = admin, upgrade_delay_ms = ri_upgrade_delay_ms args,
             reg_protocol_version = ri_protocol_version args, pending_admin = None,
             admin_transfer_effective_at = 0\<rparr>\<rparr>, []))))))"

definition propose_contract ::
  "'w env \<Rightarrow> propose_contract_arguments \<Rightarrow> registry_state \<Rightarrow> registry_outcome" where
  "propose_contract env args st =
     attempt (require_admin env st) (\<lambda>cfg.
     attempt (require_name (pc_name args)) (\<lambda>name.
     attempt (require_address (pc_address args) ''address'') (\<lambda>address.
     require (pc_version args \<ge> 1) ''version must be >= 1''
    (attempt (optional_abi_hash (pc_abi_hash args)) (\<lambda>abi_hash.
     attempt (optional_notes (pc_notes args)) (\<lambda>notes.
     let admin = reg_admin cfg;
         key = name_key env name;
         t = now env
     in case active_entries st key of
          None \<Rightarrow>
            let entry = \<lparr>ce_name = name, ce_address = address, ce_version = pc_version args,
                         ce_abi_hash = abi_hash, ce_status = Status_active, ce_effective_at = t,
                         ce_notes = notes, ce_updated_at = t\<rparr>
            in Inr (st\<lparr>active_entries := (active_entries st)(key \<mapsto> entry)\<rparr>,
                    [emit_activated entry t (registry_impacted address admin)])
        | Some current \<Rightarrow>
            require (pc_version args > ce_version current)
              ''version must be greater than the active version''
            (let effective_at = t + upgrade_delay_ms cfg;
                 entry = \<lparr>ce_name = name, ce_address = address, ce_version = pc_version args,
                          ce_abi_hash = abi_hash, ce_status = Status_proposed,
                          ce_effective_at = effective_at, ce_notes = notes, ce_updated_at = t\<rparr>
             in Inr (st\<lparr>proposed_entries := (proposed_entries st)(key \<mapsto> entry)\<rparr>,
                     [(Contract_proposed name address (pc_version args) abi_hash effective_at,
                       registry_impacted address admin)]))))))))"

definition apply_contract :: "'w env \<Rightarrow> ustring option \<Rightarrow> registry_state \<Rightarrow> registry_outcome" where
  "apply_contract env args_name st =
     attempt (load_config st) (\<lambda>_.
     attempt (require_name args_name) (\<lambda>name.
     let key = name_key env name
     in require (proposed_entries st key \<noteq> None) ''no proposed entry for name''
        (attempt (non_null (proposed_entries st key) ''pending'') (\<lambda>entry.
         let t = now env
         in require (t \<ge> ce_effective_at entry) ''upgrade delay has not elapsed''
            (let entry' = entry\<lparr>ce_status := Status_active, ce_updated_at := t\<rparr>
             in Inr (st\<lparr>active_entries := (active_entries st)(key \<mapsto> entry'),
                        proposed_entries := (proposed_entries st)(key := None)\<rparr>,
                     [emit_activated entry' t [ce_address entry']]))))))"

definition cancel_contract :: "'w env \<Rightarrow> ustring option \<Rightarrow> registry_state \<Rightarrow> registry_outcome" where
  "cancel_contract env args_name st =
     attempt (require_admin env st) (\<lambda>cfg.
     attempt (require_name args_name) (\<lambda>name.
     let key = name_key env name
     in require (proposed_entries st key \<noteq> None) ''no proposed entry for name''
        (attempt (non_null (proposed_entries st key) ''pending'') (\<lambda>pending.
         Inr (st\<lparr>proposed_entries := (proposed_entries st)(key := None)\<rparr>,
              [(Contract_cancelled name (now env),
                registry_impacted (ce_address pending) (reg_admin cfg))])))))"

definition deprecate_contract ::
  "'w env \<Rightarrow> deprecate_contract_arguments \<Rightarrow> registry_state \<Rightarrow> registry_outcome" where
  "deprecate_contract env args st =
     attempt (require_admin env st) (\<lambda>cfg.
     attempt (require_name (dc_name args)) (\<lambda>name.
     attempt (optional_notes (dc_notes args)) (\<lambda>notes.
     let key = name_key env name
     in require (active_entries st key \<noteq> None) ''no active entry for name''
        (attempt (non_null (active_entries st key) ''current'') (\<lambda>entry.
         require (ce_status entry \<noteq> Status_deprecated) ''contract already deprecated''
         (let t = now env;
              entry' = entry\<lparr>ce_status := Status_deprecated, ce_notes := notes, ce_updated_at := t\<rparr>
          in Inr (st\<lparr>active_entries := (active_entries st)(key \<mapsto> entry')\<rparr>,
                  [(Contract_deprecated name (ce_address entry') (ce_version entry') t,
                    registry_impacted (ce_address entry') (reg_admin cfg))])))))))"

definition propose_admin :: "'w env \<Rightarrow> bytes option \<Rightarrow> registry_state \<Rightarrow> registry_outcome" where
  "propose_admin env args_new_admin st =
     attempt (require_admin env st) (\<lambda>cfg.
     attempt (require_address args_new_admin ''new_admin'') (\<lambda>new_admin.
     require (new_admin \<noteq> reg_admin cfg) ''new_admin must differ from the current admin''
     (let effective_at = now env + upgrade_delay_ms cfg;
          cfg' = cfg\<lparr>pending_admin := Some new_admin, admin_transfer_effective_at := effective_at\<rparr>
      in Inr (st\<lparr>reg_config := Some cfg'\<rparr>,
              [(Admin_proposed new_admin effective_at, [new_admin, reg_admin cfg])]))))"

definition cancel_admin :: "'w env \<Rightarrow> registry_state \<Rightarrow> registry_outcome" where
  "cancel_admin env st =
     attempt (require_admin env st) (\<lambda>cfg.
     require (\<not> is_empty (pending_admin cfg)) ''no pending admin transfer''
     (Inr (st\<lparr>reg_config := Some (cfg\<lparr>pending_admin := None, admin_transfer_effective_at := 0\<rparr>)\<rparr>, [])))"

definition execute_admin :: "'w env \<Rightarrow> registry_state \<Rightarrow> registry_outcome" where
  "execute_admin env st =
     attempt (load_config st) (\<lambda>cfg.
     require (\<not> is_empty (pending_admin cfg)) ''no pending admin transfer''
     (let t = now env
      in require (t \<ge> admin_transfer_effective_at cfg) ''admin transfer delay has not elapsed''
         (attempt (non_null (pending_admin cfg) ''pending_admin'') (\<lambda>new_admin.
          let previous = reg_admin cfg;
              cfg' = cfg\<lparr>reg_admin := new_admin, pending_admin := None,
                         admin_transfer_effective_at := 0\<rparr>
          in Inr (st\<lparr>reg_config := Some cfg'\<rparr>,
                  [(Admin_changed previous new_admin t, [new_admin, previous])])))))"

section \<open>Reads\<close>

definition get_contract :: "'w env \<Rightarrow> ustring option \<Rightarrow> registry_state \<Rightarrow> contract_entry option" where
  "get_contract env name st =
     (if name = None \<or> length (the name) = 0 then None
      else active_entries st (name_key env (the name)))"

definition get_proposed_contract :: "'w env \<Rightarrow> ustring option \<Rightarrow> registry_state \<Rightarrow> contract_entry option" where
  "get_proposed_contract env name st =
     (if name = None \<or> length (the name) = 0 then None
      else proposed_entries st (name_key env (the name)))"

text \<open>
  The insertion sort of \<open>list_contracts\<close>, on the two parallel arrays: the inner \<open>while\<close> moves
  entries up from index \<open>j\<close>, the outer loop pushes one object at a time.
\<close>

fun sift_loop :: "bytes \<Rightarrow> bytes list \<Rightarrow> 'v list \<Rightarrow> nat \<Rightarrow> bytes list \<times> 'v list \<times> nat" where
  "sift_loop key keys vals 0 = (keys, vals, 0)"
| "sift_loop key keys vals (Suc j) =
     (if compare (keys ! j) key > 0
      then sift_loop key (keys[Suc j := keys ! j]) (vals[Suc j := vals ! j]) j
      else (keys, vals, Suc j))"

fun insertion_loop :: "(bytes \<times> 'v) list \<Rightarrow> bytes list \<Rightarrow> 'v list \<Rightarrow> 'v list" where
  "insertion_loop [] keys vals = vals"
| "insertion_loop ((key, v) # objs) keys vals =
     (let j = length keys;
          (keys', vals', j') = sift_loop key (keys @ [key]) (vals @ [v]) j
      in insertion_loop objs (keys'[j' := key]) (vals'[j' := v]))"

text \<open>\<open>get_many\<close> is the storage iteration of the SDK: at most \<open>limit\<close> objects of the map.\<close>

definition list_contracts ::
  "((bytes \<rightharpoonup> contract_entry) \<Rightarrow> nat \<Rightarrow> (bytes \<times> contract_entry) list) \<Rightarrow> registry_state \<Rightarrow> contract_entry list" where
  "list_contracts get_many st = insertion_loop (get_many (active_entries st) MAX_LIST_LIMIT) [] []"

definition get_config :: "registry_state \<Rightarrow> registry_config option" where
  "get_config st = reg_config st"

section \<open>The contract as a transition system\<close>

datatype registry_call =
    Call_registry_init registry_init_arguments
  | Call_propose_contract propose_contract_arguments
  | Call_apply_contract "ustring option"
  | Call_cancel_contract "ustring option"
  | Call_deprecate_contract deprecate_contract_arguments
  | Call_propose_admin "bytes option"
  | Call_cancel_admin
  | Call_execute_admin

fun registry_step :: "'w env \<Rightarrow> registry_call \<Rightarrow> registry_state \<Rightarrow> registry_outcome" where
  "registry_step env (Call_registry_init args) st = registry_init env args st"
| "registry_step env (Call_propose_contract args) st = propose_contract env args st"
| "registry_step env (Call_apply_contract name) st = apply_contract env name st"
| "registry_step env (Call_cancel_contract name) st = cancel_contract env name st"
| "registry_step env (Call_deprecate_contract args) st = deprecate_contract env args st"
| "registry_step env (Call_propose_admin a) st = propose_admin env a st"
| "registry_step env Call_cancel_admin st = cancel_admin env st"
| "registry_step env Call_execute_admin st = execute_admin env st"

definition registry_exec :: "'w env \<times> registry_call \<Rightarrow> registry_state \<Rightarrow> registry_state result" where
  "registry_exec tx st = map_sum id fst (registry_step (fst tx) (snd tx) st)"

section \<open>Well-formed states\<close>

definition entry_ok :: "contract_entry \<Rightarrow> bool" where
  "entry_ok e \<longleftrightarrow> length (ce_address e) = 25 \<and> 1 \<le> ce_version e \<and>
     1 \<le> length (ce_name e) \<and> length (ce_name e) \<le> MAX_NAME_CHARS \<and> list_all name_char (ce_name e)"

definition config_ok :: "registry_config \<Rightarrow> bool" where
  "config_ok c \<longleftrightarrow> length (reg_admin c) = 25 \<and> upgrade_delay_ms c \<le> MAX_UPGRADE_DELAY_MS \<and>
     (\<forall>a. pending_admin c = Some a \<longrightarrow> length a = 25)"

definition registry_inv :: "registry_state \<Rightarrow> bool" where
  "registry_inv st \<longleftrightarrow>
     (\<forall>c. reg_config st = Some c \<longrightarrow> config_ok c) \<and>
     (reg_config st = None \<longrightarrow> active_entries st = Map.empty) \<and>
     (\<forall>k e. active_entries st k = Some e \<longrightarrow> entry_ok e \<and> ce_status e \<noteq> Status_proposed) \<and>
     (\<forall>k p. proposed_entries st k = Some p \<longrightarrow> entry_ok p \<and> ce_status p = Status_proposed \<and>
        (\<exists>e. active_entries st k = Some e \<and> ce_version e < ce_version p))"

lemma registry_empty_inv: "registry_inv registry_empty"
  by (simp add: registry_inv_def registry_empty_def)

lemmas registry_op_defs = registry_init_def propose_contract_def apply_contract_def
  cancel_contract_def deprecate_contract_def propose_admin_def cancel_admin_def execute_admin_def

lemmas registry_helper_defs = load_config_def require_admin_def Let_def

lemma check_name_chars_Inr [simp]: "check_name_chars cs = Inr u \<longleftrightarrow> list_all name_char cs"
  by (induction cs) auto

lemma require_name_Inr [simp]:
  "require_name v = Inr name \<longleftrightarrow> v = Some name \<and> 1 \<le> length name \<and>
     length name \<le> MAX_NAME_CHARS \<and> list_all name_char name"
  by (auto simp: require_name_def Suc_le_eq)

lemma registry_inv_put_config:
  "registry_inv st \<Longrightarrow> config_ok c \<Longrightarrow> registry_inv (st\<lparr>reg_config := Some c\<rparr>)"
  by (auto simp: registry_inv_def)

lemma registry_inv_put_active:
  "registry_inv st \<Longrightarrow> entry_ok e \<Longrightarrow> ce_status e \<noteq> Status_proposed \<Longrightarrow> reg_config st \<noteq> None \<Longrightarrow>
   (\<And>p. proposed_entries st k = Some p \<Longrightarrow> ce_version e < ce_version p) \<Longrightarrow>
   registry_inv (st\<lparr>active_entries := (active_entries st)(k \<mapsto> e)\<rparr>)"
  by (auto simp: registry_inv_def)

lemma registry_inv_put_proposed:
  "registry_inv st \<Longrightarrow> entry_ok p \<Longrightarrow> ce_status p = Status_proposed \<Longrightarrow>
   active_entries st k = Some e \<Longrightarrow> ce_version e < ce_version p \<Longrightarrow>
   registry_inv (st\<lparr>proposed_entries := (proposed_entries st)(k \<mapsto> p)\<rparr>)"
  by (auto simp: registry_inv_def)

lemma registry_inv_drop_proposed:
  "registry_inv st \<Longrightarrow> registry_inv (st\<lparr>proposed_entries := (proposed_entries st)(k := None)\<rparr>)"
  by (auto simp: registry_inv_def)

lemma registry_inv_apply:
  "registry_inv st \<Longrightarrow> reg_config st \<noteq> None \<Longrightarrow> proposed_entries st k = Some p \<Longrightarrow>
   registry_inv (st\<lparr>active_entries := (active_entries st)(k \<mapsto> p\<lparr>ce_status := Status_active, ce_updated_at := t\<rparr>),
                   proposed_entries := (proposed_entries st)(k := None)\<rparr>)"
  by (auto simp: registry_inv_def entry_ok_def)

lemma registry_invD:
  "registry_inv st \<Longrightarrow> reg_config st = Some c \<Longrightarrow> config_ok c"
  "registry_inv st \<Longrightarrow> active_entries st k = Some e \<Longrightarrow> entry_ok e"
  "registry_inv st \<Longrightarrow> active_entries st k = Some e \<Longrightarrow> reg_config st \<noteq> None"
  "registry_inv st \<Longrightarrow> active_entries st k = None \<Longrightarrow> proposed_entries st k = None"
  "registry_inv st \<Longrightarrow> proposed_entries st k = Some p \<Longrightarrow> active_entries st k = Some e \<Longrightarrow> ce_version e < ce_version p"
  by (auto simp: registry_inv_def) (metis option.distinct(1) option.exhaust, metis option.inject)

lemma config_ok_updates:
  "config_ok c \<Longrightarrow> length a = 25 \<Longrightarrow> config_ok (c\<lparr>pending_admin := Some a, admin_transfer_effective_at := t\<rparr>)"
  "config_ok c \<Longrightarrow> config_ok (c\<lparr>pending_admin := None, admin_transfer_effective_at := t\<rparr>)"
  "config_ok c \<Longrightarrow> pending_admin c = Some a \<Longrightarrow>
     config_ok (c\<lparr>reg_admin := a, pending_admin := None, admin_transfer_effective_at := t\<rparr>)"
  "config_ok c \<Longrightarrow> pending_admin c = Some a \<Longrightarrow> config_ok (c\<lparr>reg_admin := a\<rparr>)"
  by (auto simp: config_ok_def)

lemma registry_init_inv: "registry_inv st \<Longrightarrow> registry_init env args st = Inr (st', evs) \<Longrightarrow> registry_inv st'"
  by (auto simp: registry_init_def config_ok_def intro!: registry_inv_put_config)

lemma propose_contract_inv: "registry_inv st \<Longrightarrow> propose_contract env args st = Inr (st', evs) \<Longrightarrow> registry_inv st'"
  by (auto simp: propose_contract_def registry_helper_defs entry_ok_def case_option_Inr
      intro!: registry_inv_put_active registry_inv_put_proposed dest: registry_invD(4))

lemma apply_contract_inv: "registry_inv st \<Longrightarrow> apply_contract env args st = Inr (st', evs) \<Longrightarrow> registry_inv st'"
  by (auto simp: apply_contract_def registry_helper_defs intro!: registry_inv_apply)

lemma cancel_contract_inv: "registry_inv st \<Longrightarrow> cancel_contract env args st = Inr (st', evs) \<Longrightarrow> registry_inv st'"
  by (auto simp: cancel_contract_def registry_helper_defs intro!: registry_inv_drop_proposed)

lemma deprecate_contract_inv: "registry_inv st \<Longrightarrow> deprecate_contract env args st = Inr (st', evs) \<Longrightarrow> registry_inv st'"
  by (auto simp: deprecate_contract_def registry_helper_defs entry_ok_def intro!: registry_inv_put_active
      dest: registry_invD(2,5))

lemma admin_ops_inv:
  "registry_inv st \<Longrightarrow> propose_admin env a st = Inr (st', evs) \<Longrightarrow> registry_inv st'"
  "registry_inv st \<Longrightarrow> cancel_admin env st = Inr (st', evs) \<Longrightarrow> registry_inv st'"
  "registry_inv st \<Longrightarrow> execute_admin env st = Inr (st', evs) \<Longrightarrow> registry_inv st'"
  by (auto simp: propose_admin_def cancel_admin_def execute_admin_def registry_helper_defs
      intro!: registry_inv_put_config config_ok_updates dest: registry_invD(1))

lemma registry_exec_inv:
  assumes "registry_inv st" and "registry_exec tx st = Inr st'"
  shows "registry_inv st'"
  using assms by (cases "snd tx") (auto simp: registry_exec_def dest: registry_init_inv propose_contract_inv
    apply_contract_inv cancel_contract_inv deprecate_contract_inv admin_ops_inv)

interpretation registry_contract: kept_invariant registry_exec registry_inv
  by unfold_locales (rule registry_exec_inv)

lemma registry_run_inv: "registry_inv (run registry_exec registry_empty cs)"
  by (rule registry_contract.run_keeps [OF registry_empty_inv])

section \<open>Time locks\<close>

definition active_target :: "bytes \<Rightarrow> registry_state \<Rightarrow> (bytes \<times> u32) option" where
  "active_target k st = map_option (\<lambda>e. (ce_address e, ce_version e)) (active_entries st k)"

definition proposed_deadline :: "bytes \<Rightarrow> registry_state \<Rightarrow> u64 option" where
  "proposed_deadline k st = map_option ce_effective_at (proposed_entries st k)"

definition upgrade_delay :: "registry_state \<Rightarrow> u64" where
  "upgrade_delay st = (case reg_config st of None \<Rightarrow> 0 | Some c \<Rightarrow> upgrade_delay_ms c)"

definition proposes_entry :: "bytes \<Rightarrow> 'w env \<times> registry_call \<Rightarrow> bool" where
  "proposes_entry k tx = (case snd tx of
     Call_propose_contract args \<Rightarrow> (case pc_name args of None \<Rightarrow> False | Some n \<Rightarrow> name_key (fst tx) n = k)
   | _ \<Rightarrow> False)"

definition active_admin :: "registry_state \<Rightarrow> bytes option" where
  "active_admin st = map_option reg_admin (reg_config st)"

definition admin_deadline :: "registry_state \<Rightarrow> u64 option" where
  "admin_deadline st = (case reg_config st of None \<Rightarrow> None
     | Some c \<Rightarrow> if is_empty (pending_admin c) then None else Some (admin_transfer_effective_at c))"

definition proposes_admin :: "'w env \<times> registry_call \<Rightarrow> bool" where
  "proposes_admin tx = (case snd tx of Call_propose_admin _ \<Rightarrow> True | _ \<Rightarrow> False)"

lemma entry_step:
  assumes "registry_inv st" and "registry_exec tx st = Inr st'"
  shows "active_target k st = Some v \<Longrightarrow> active_target k st' \<noteq> Some v \<Longrightarrow>
      \<exists>d. proposed_deadline k st = Some d \<and> d \<le> now (fst tx)"
    and "proposed_deadline k st' = Some d \<Longrightarrow>
      proposed_deadline k st = Some d \<or> (proposes_entry k tx \<and> d = now (fst tx) + upgrade_delay st)"
  using assms
  by (cases "snd tx";
      force simp: registry_exec_def registry_op_defs registry_helper_defs active_target_def case_option_Inr
        proposed_deadline_def proposes_entry_def upgrade_delay_def split: if_splits)+

interpretation entry_lock: timelock registry_exec registry_inv "\<lambda>tx. now (fst tx)" "active_target k"
    "proposed_deadline k" upgrade_delay "proposes_entry k" for k
  by unfold_locales (blast intro: registry_exec_inv, blast dest: entry_step(1), blast dest: entry_step(2))

lemma admin_step:
  assumes "registry_inv st" and "registry_exec tx st = Inr st'"
  shows "active_admin st = Some v \<Longrightarrow> active_admin st' \<noteq> Some v \<Longrightarrow>
      \<exists>d. admin_deadline st = Some d \<and> d \<le> now (fst tx)"
    and "admin_deadline st' = Some d \<Longrightarrow>
      admin_deadline st = Some d \<or> (proposes_admin tx \<and> d = now (fst tx) + upgrade_delay st)"
  using assms
  by (cases "snd tx";
      force simp: registry_exec_def registry_op_defs registry_helper_defs active_admin_def case_option_Inr
        admin_deadline_def proposes_admin_def upgrade_delay_def split: if_splits)+

interpretation admin_lock: timelock registry_exec registry_inv "\<lambda>tx. now (fst tx)" active_admin
    admin_deadline upgrade_delay proposes_admin
  by unfold_locales (blast intro: registry_exec_inv, blast dest: admin_step(1), blast dest: admin_step(2))

text \<open>
  C25: An active entry points somewhere else (another address or version) only after some
  \<open>propose_contract\<close> for its name that lies at least the upgrade delay in the past.
\<close>

theorem contract_upgrade_timelock:
  fixes tx :: "'w env \<times> registry_call" and cs :: "('w env \<times> registry_call) list"
  assumes "registry_exec tx (run registry_exec registry_empty cs) = Inr st'"
    and "active_target k (run registry_exec registry_empty cs) = Some old"
    and "active_target k st' \<noteq> Some old"
  shows "\<exists>before t after. cs = before @ t # after \<and> proposes_entry k t \<and>
           now (fst t) + upgrade_delay (run registry_exec registry_empty before) \<le> now (fst tx)"
  by (rule entry_lock.change_was_announced [OF registry_empty_inv _ assms])
    (simp add: proposed_deadline_def registry_empty_def)

text \<open>
  The admin of an initialized registry only changes after some \<open>propose_admin\<close> that lies at
  least the upgrade delay in the past.
\<close>

theorem admin_transfer_timelock:
  fixes tx :: "'w env \<times> registry_call" and cs :: "('w env \<times> registry_call) list"
  assumes "registry_exec tx (run registry_exec registry_empty cs) = Inr st'"
    and "active_admin (run registry_exec registry_empty cs) = Some old"
    and "active_admin st' \<noteq> Some old"
  shows "\<exists>before t after. cs = before @ t # after \<and> proposes_admin t \<and>
           now (fst t) + upgrade_delay (run registry_exec registry_empty before) \<le> now (fst tx)"
  by (rule admin_lock.change_was_announced [OF registry_empty_inv _ assms])
    (simp add: admin_deadline_def registry_empty_def)

section \<open>The history of an active entry\<close>

text \<open>
  The transaction that brought an entry in: a proposal of exactly its address and version under
  its name, signed by the admin of that moment.
\<close>

definition signed_proposal :: "registry_state \<Rightarrow> bytes \<Rightarrow> contract_entry \<Rightarrow> 'w env \<times> registry_call \<Rightarrow> bool" where
  "signed_proposal st k e tx \<longleftrightarrow> (case (reg_config st, snd tx) of
     (Some cfg, Call_propose_contract args) \<Rightarrow>
        has_authority (fst tx) (reg_admin cfg) \<and> proposes_entry k tx \<and>
        pc_address args = Some (ce_address e) \<and> pc_version args = ce_version e
   | _ \<Rightarrow> False)"

definition stored_entry :: "registry_state \<Rightarrow> bytes \<Rightarrow> contract_entry \<Rightarrow> bool" where
  "stored_entry st k e \<longleftrightarrow> active_entries st k = Some e \<or> proposed_entries st k = Some e"

lemma entry_origin_step:
  assumes "registry_exec tx st = Inr st'" and "stored_entry st' k e"
  shows "signed_proposal st k e tx \<or>
    (\<exists>e0. stored_entry st k e0 \<and> ce_address e0 = ce_address e \<and> ce_version e0 = ce_version e)"
  using assms
  by (cases "snd tx";
      force simp: registry_exec_def registry_op_defs registry_helper_defs stored_entry_def
        signed_proposal_def proposes_entry_def case_option_Inr split: if_splits)

lemma signed_proposal_same:
  "signed_proposal st k e0 tx \<Longrightarrow> ce_address e0 = ce_address e \<Longrightarrow> ce_version e0 = ce_version e \<Longrightarrow>
   signed_proposal st k e tx"
  by (auto simp: signed_proposal_def split: option.splits registry_call.splits)

text \<open>
  Every active or proposed entry of any history was put forward by the registry admin: some
  earlier transaction, signed by the admin of that moment, proposed exactly its address and
  version under its name.
\<close>

theorem entry_was_proposed:
  assumes "stored_entry (run registry_exec registry_empty cs) k e"
  shows "\<exists>before t after. cs = before @ t # after \<and>
           signed_proposal (run registry_exec registry_empty before) k e t"
  using assms
proof (induction cs arbitrary: e rule: rev_induct)
  case Nil
  then show ?case by (simp add: stored_entry_def registry_empty_def)
next
  case (snoc tx cs)
  let ?st = "run registry_exec registry_empty cs"
  have old: "\<exists>before t after. cs @ [tx] = before @ t # after \<and>
      signed_proposal (run registry_exec registry_empty before) k e t"
    if e0: "stored_entry ?st k e0" "ce_address e0 = ce_address e" "ce_version e0 = ce_version e" for e0
  proof -
    obtain before t after where "cs = before @ t # after"
      "signed_proposal (run registry_exec registry_empty before) k e0 t"
      using snoc.IH [OF e0(1)] by blast
    then have "cs @ [tx] = before @ t # (after @ [tx]) \<and>
        signed_proposal (run registry_exec registry_empty before) k e t"
      using signed_proposal_same [OF _ e0(2,3)] by simp
    then show ?thesis by blast
  qed
  show ?case
  proof (cases "registry_exec tx ?st")
    case (Inl r)
    with snoc.prems have "stored_entry ?st k e" by (simp add: run_snoc)
    then show ?thesis using old by blast
  next
    case (Inr st')
    with snoc.prems have "stored_entry st' k e" by (simp add: run_snoc)
    with Inr consider "signed_proposal ?st k e tx"
      | e0 where "stored_entry ?st k e0" "ce_address e0 = ce_address e" "ce_version e0 = ce_version e"
      using entry_origin_step by blast
    then show ?thesis
    proof cases
      case 1
      then show ?thesis by (intro exI [of _ cs] exI [of _ tx] exI [of _ "[]"]) simp
    next
      case 2
      then show ?thesis by (rule old)
    qed
  qed
qed

section \<open>Versions\<close>

definition version_mono :: "registry_state \<Rightarrow> registry_state \<Rightarrow> bool" where
  "version_mono s t \<longleftrightarrow> (\<forall>k e. active_entries s k = Some e \<longrightarrow>
     (\<exists>e'. active_entries t k = Some e' \<and> ce_version e \<le> ce_version e' \<and>
        (ce_version e = ce_version e' \<longrightarrow> ce_address e = ce_address e' \<and> ce_abi_hash e = ce_abi_hash e')))"

lemma version_step:
  assumes "registry_inv st" and "registry_exec tx st = Inr st'"
  shows "version_mono st st'"
  using assms
  by (cases "snd tx"; force simp: version_mono_def registry_exec_def registry_op_defs
      registry_helper_defs case_option_Inr dest: registry_invD(5) split: if_splits)

lemma version_trans:
  assumes st: "version_mono s t" and tu: "version_mono t u"
  shows "version_mono s u"
  unfolding version_mono_def
proof (intro allI impI)
  fix k e
  assume "active_entries s k = Some e"
  with st obtain e1 where e1: "active_entries t k = Some e1" "ce_version e \<le> ce_version e1"
    "ce_version e = ce_version e1 \<longrightarrow> ce_address e = ce_address e1 \<and> ce_abi_hash e = ce_abi_hash e1"
    unfolding version_mono_def by blast
  with tu obtain e2 where e2: "active_entries u k = Some e2" "ce_version e1 \<le> ce_version e2"
    "ce_version e1 = ce_version e2 \<longrightarrow> ce_address e1 = ce_address e2 \<and> ce_abi_hash e1 = ce_abi_hash e2"
    unfolding version_mono_def by blast
  have "ce_version e = ce_version e2 \<longrightarrow> ce_version e = ce_version e1"
    using e1(2) e2(2) by auto
  with e1 e2 show "\<exists>e'. active_entries u k = Some e' \<and> ce_version e \<le> ce_version e' \<and>
      (ce_version e = ce_version e' \<longrightarrow> ce_address e = ce_address e' \<and> ce_abi_hash e = ce_abi_hash e')"
    by (intro exI [of _ e2]) auto
qed

interpretation versions: kept_relation registry_exec registry_inv version_mono
proof unfold_locales
  show "version_mono s s" for s by (simp add: version_mono_def)
qed (auto intro: version_trans version_step)

text \<open>
  An active entry is never removed; its version never decreases, and a version number never
  comes back with another address or interface hash.
\<close>

theorem versions_never_reused:
  fixes cs ds :: "('w env \<times> registry_call) list"
  assumes "active_entries (run registry_exec registry_empty cs) k = Some e"
  shows "\<exists>e'. active_entries (run registry_exec registry_empty (cs @ ds)) k = Some e' \<and>
    ce_version e \<le> ce_version e' \<and>
    (ce_version e = ce_version e' \<longrightarrow> ce_address e = ce_address e' \<and> ce_abi_hash e = ce_abi_hash e')"
proof -
  have "version_mono (run registry_exec registry_empty cs) (run registry_exec registry_empty (cs @ ds))"
    unfolding run_append by (rule versions.run_rel [OF registry_run_inv])
  with assms show ?thesis unfolding version_mono_def by blast
qed

section \<open>Listing\<close>

text \<open>
  The inner loop moves the greater keys up by one; on a sorted prefix it leaves the gap after
  the keys that are at most the new one.
\<close>

definition place :: "bytes \<times> 'v \<Rightarrow> (bytes \<times> 'v) list \<Rightarrow> (bytes \<times> 'v) list" where
  "place p xs = filter (\<lambda>q. fst q \<le> fst p) xs @ p # filter (\<lambda>q. fst p < fst q) xs"

lemma sift_loop_place:
  assumes "sorted (map fst xs)"
    and "sift_loop (fst p) (map fst (xs @ g # ys)) (map snd (xs @ g # ys)) (length xs) = (ks, vs, j)"
  shows "ks[j := fst p] = map fst (place p xs @ ys) \<and> vs[j := snd p] = map snd (place p xs @ ys)"
  using assms
proof (induction xs arbitrary: g ys rule: rev_induct)
  case Nil
  then show ?case by (auto simp: place_def)
next
  case (snoc x xs)
  have before: "\<forall>q \<in> set xs. fst q \<le> fst x" and sorted: "sorted (map fst xs)"
    using snoc.prems(1) by (auto simp: sorted_append)
  show ?case
  proof (cases "fst p < fst x")
    case True
    then have "place p (xs @ [x]) = place p xs @ [x]" by (simp add: place_def)
    moreover have "sift_loop (fst p) (map fst (xs @ x # x # ys)) (map snd (xs @ x # x # ys)) (length xs) = (ks, vs, j)"
      using snoc.prems(2) True by (simp add: nth_append list_update_append)
    ultimately show ?thesis using snoc.IH [OF sorted, of x "x # ys"] by simp
  next
    case False
    then have "\<forall>q \<in> set (xs @ [x]). fst q \<le> fst p" using before by fastforce
    then have "place p (xs @ [x]) = xs @ [x, p]"
      by (auto simp: place_def not_less filter_True filter_False)
    then show ?thesis using snoc.prems(2) False by (auto simp: nth_append list_update_append)
  qed
qed

lemma sorted_place: "sorted (map fst xs) \<Longrightarrow> sorted (map fst (place p xs))"
  by (auto simp: place_def sorted_append sorted_wrt_map sorted_wrt_filter)

lemma mset_place: "mset (place p xs) = add_mset p (mset xs)"
proof -
  have "mset (filter (\<lambda>q. fst q \<le> fst p) xs) + mset (filter (\<lambda>q. fst p < fst q) xs) = mset xs"
    using multiset_partition [of "mset xs" "\<lambda>q. fst q \<le> fst p"] by (simp add: not_le)
  then show ?thesis by (simp add: place_def)
qed

lemma place_same_key:
  "filter (\<lambda>q. fst q = k) (place p xs) = filter (\<lambda>q. fst q = k) (xs @ [p])"
proof -
  have "filter (\<lambda>q. fst q = k) (filter (\<lambda>q. fst q \<le> fst p) xs) =
      (if k \<le> fst p then filter (\<lambda>q. fst q = k) xs else [])"
    and "filter (\<lambda>q. fst q = k) (filter (\<lambda>q. fst p < fst q) xs) =
      (if fst p < k then filter (\<lambda>q. fst q = k) xs else [])"
    by (auto intro: filter_cong simp: filter_empty_conv)
  then show ?thesis by (auto simp: place_def)
qed

lemma insertion_loop_place:
  "sorted (map fst acc) \<Longrightarrow>
   insertion_loop objs (map fst acc) (map snd acc) = map snd (foldl (\<lambda>xs p. place p xs) acc objs)"
proof (induction objs arbitrary: acc)
  case Nil
  show ?case by simp
next
  case (Cons p objs)
  obtain ks vs j where s: "sift_loop (fst p) (map fst (acc @ p # [])) (map snd (acc @ p # [])) (length acc) = (ks, vs, j)"
    by (metis prod_cases3)
  then have "ks[j := fst p] = map fst (place p acc)" and "vs[j := snd p] = map snd (place p acc)"
    using sift_loop_place [OF Cons.prems s] by simp_all
  with s Cons.IH [OF sorted_place [OF Cons.prems]] show ?case by (cases p) simp
qed

lemma foldl_place_sort: "foldl (\<lambda>xs p. place p xs) [] objs = sort_key fst objs"
proof (induction objs rule: rev_induct)
  case Nil
  show ?case by simp
next
  case (snoc p objs)
  let ?ys = "place p (sort_key fst objs)"
  have "sort_key fst (objs @ [p]) = ?ys"
  proof (rule properties_for_sort_key)
    show "mset ?ys = mset (objs @ [p])" by (simp add: mset_place)
    show "filter (\<lambda>x. fst k = fst x) ?ys = filter (\<lambda>x. fst k = fst x) (objs @ [p])" for k
      using place_same_key [of "fst k" p "sort_key fst objs"] sort_key_stable [of fst "fst k" objs]
      by (simp add: eq_commute)
    show "sorted (map fst ?ys)" by (simp add: sorted_place)
  qed
  with snoc show ?case by simp
qed

text \<open>
  The listing of the active entries is the stable sort, by raw name bytes, of whatever
  objects the storage iteration returned (at most 100 of them), none lost and none repeated.
\<close>

theorem list_contracts_sorted:
  "list_contracts get_many st = map snd (sort_key fst (get_many (active_entries st) 100))"
  using insertion_loop_place [of "[]" "get_many (active_entries st) 100"]
  by (simp add: list_contracts_def MAX_LIST_LIMIT_def foldl_place_sort)

section \<open>Witnesses\<close>

text \<open>A registry with a delay of 1000 ms and an entry "a" upgraded and an admin moved.\<close>

definition demo_registry :: "(unit env \<times> registry_call) list" where
  "demo_registry =
     [(sample_env 10, Call_registry_init \<lparr>ri_admin = Some (sample_addr 1),
         ri_upgrade_delay_ms = 1000, ri_protocol_version = 1\<rparr>),
      (sample_env 20, Call_propose_contract \<lparr>pc_name = Some [0x61], pc_address = Some (sample_addr 5),
         pc_version = 1, pc_abi_hash = None, pc_notes = None\<rparr>)]"

definition demo_proposals :: "(unit env \<times> registry_call) list" where
  "demo_proposals =
     [(sample_env 30, Call_propose_contract \<lparr>pc_name = Some [0x61], pc_address = Some (sample_addr 6),
         pc_version = 2, pc_abi_hash = None, pc_notes = None\<rparr>),
      (sample_env 30, Call_propose_admin (Some (sample_addr 2)))]"

definition demo_entry :: "byte \<Rightarrow> u32 \<Rightarrow> contract_status \<Rightarrow> u64 \<Rightarrow> u64 \<Rightarrow> contract_entry" where
  "demo_entry n v s e u = \<lparr>ce_name = [0x61], ce_address = sample_addr n, ce_version = v,
     ce_abi_hash = None, ce_status = s, ce_effective_at = e, ce_notes = None, ce_updated_at = u\<rparr>"

definition demo_config :: "byte \<Rightarrow> bytes option \<Rightarrow> u64 \<Rightarrow> registry_config" where
  "demo_config a p e = \<lparr>reg_admin = sample_addr a, upgrade_delay_ms = 1000, reg_protocol_version = 1,
     pending_admin = p, admin_transfer_effective_at = e\<rparr>"

lemmas registry_eval = registry_exec_def registry_op_defs registry_helper_defs require_name_def
  name_char_def name_key_def optional_abi_hash_def optional_notes_def require_string_def
  MAX_NAME_CHARS_def MAX_UPGRADE_DELAY_MS_def REG_DAY_MS_def MAX_NOTES_CHARS_def
  demo_entry_def demo_config_def word_le_nat_alt word_less_nat_alt

lemma sample_name_key: "string_to_bytes (sample_env t) = map ucast"
  by (simp add: sample_env_def)

lemma demo_registry_run:
  "run registry_exec registry_empty demo_registry =
     \<lparr>reg_config = Some (demo_config 1 None 0), active_entries = [[0x61] \<mapsto> demo_entry 5 1 Status_active 20 20],
      proposed_entries = Map.empty\<rparr>"
  by (simp add: demo_registry_def registry_empty_def registry_eval sample_name_key)

lemma demo_proposals_run:
  "run registry_exec registry_empty (demo_registry @ demo_proposals) =
     \<lparr>reg_config = Some (demo_config 1 (Some (sample_addr 2)) 1030),
      active_entries = [[0x61] \<mapsto> demo_entry 5 1 Status_active 20 20],
      proposed_entries = [[0x61] \<mapsto> demo_entry 6 2 Status_proposed 1030 30]\<rparr>"
  by (simp add: run_append demo_registry_run demo_proposals_def registry_eval sample_name_key)

lemma demo_apply:
  "registry_exec (sample_env 1030, Call_apply_contract (Some [0x61]))
     (run registry_exec registry_empty (demo_registry @ demo_proposals)) =
   Inr \<lparr>reg_config = Some (demo_config 1 (Some (sample_addr 2)) 1030),
      active_entries = [[0x61] \<mapsto> demo_entry 6 2 Status_active 1030 1030], proposed_entries = Map.empty\<rparr>"
  by (simp add: demo_proposals_run registry_eval sample_name_key)

lemma demo_execute_admin:
  "registry_exec (sample_env 1030, Call_execute_admin)
     (run registry_exec registry_empty (demo_registry @ demo_proposals)) =
   Inr \<lparr>reg_config = Some (demo_config 2 None 0),
      active_entries = [[0x61] \<mapsto> demo_entry 5 1 Status_active 20 20],
      proposed_entries = [[0x61] \<mapsto> demo_entry 6 2 Status_proposed 1030 30]\<rparr>"
  by (simp add: demo_proposals_run registry_eval sample_name_key)

theorem contract_upgrade_timelock_witness:
  "\<exists>before t after. demo_registry @ demo_proposals = before @ t # after \<and> proposes_entry [0x61] t \<and>
     now (fst t) + upgrade_delay (run registry_exec registry_empty before) \<le> 1030"
  using contract_upgrade_timelock [OF demo_apply, of "[0x61]" "(sample_addr 5, 1)"]
  by (simp add: demo_proposals_run active_target_def demo_entry_def)

theorem admin_transfer_timelock_witness:
  "\<exists>before t after. demo_registry @ demo_proposals = before @ t # after \<and> proposes_admin t \<and>
     now (fst t) + upgrade_delay (run registry_exec registry_empty before) \<le> 1030"
  using admin_transfer_timelock [OF demo_execute_admin, of "sample_addr 1"]
  by (simp add: demo_proposals_run active_admin_def demo_config_def)

theorem entry_was_proposed_witness:
  "\<exists>before t after. demo_registry @ demo_proposals = before @ t # after \<and>
     signed_proposal (run registry_exec registry_empty before) [0x61]
       (demo_entry 6 2 Status_proposed 1030 30) t"
  by (rule entry_was_proposed) (simp add: stored_entry_def demo_proposals_run)

theorem versions_never_reused_witness:
  "\<exists>e'. active_entries (run registry_exec registry_empty (demo_registry @ demo_proposals)) [0x61] = Some e' \<and>
     1 \<le> ce_version e'"
  using versions_never_reused [of demo_registry "[0x61]" "demo_entry 5 1 Status_active 20 20" demo_proposals]
  by (auto simp: demo_registry_run demo_entry_def)

end
