(* ===== verification/Sponsorship.thy ===== *)
theory Sponsorship
  imports Actor Timelock "HOL-Library.Sublist"
begin

text \<open>
  The sponsorship contract, \<open>packages/contracts/sponsorship/assembly/Sponsorship.ts\<close>: discovery
  records of Mana sponsors and the grants they give to users. The first part is the contract as
  written; the second which endpoints it accepts, who may change what, and the pages it lists.
\<close>

section \<open>State objects\<close>

record allowed_call =
  ac_contract_id :: "bytes option"
  ac_entry_points :: "u32 list"

record sponsor_record =
  sr_sponsor :: bytes
  sr_endpoint :: ustring
  sr_policy_uri :: ustring
  sr_policy_version :: u32
  sr_allowed :: "allowed_call list"
  sr_max_rc_per_op :: u64
  sr_max_ops_per_user_per_day :: u32
  sr_max_bytes_per_op :: u32
  sr_active :: bool
  sr_registered_at :: u64
  sr_updated_at :: u64

record user_grant =
  ug_sponsor :: bytes
  ug_user :: bytes
  ug_daily_ops :: u32
  ug_expires_at :: u64
  ug_revoked :: bool
  ug_updated_at :: u64

record sponsorship_state =
  sponsors :: "bytes \<rightharpoonup> sponsor_record"
  grants :: "bytes \<rightharpoonup> user_grant"

definition sponsorship_empty :: sponsorship_state where
  "sponsorship_empty = \<lparr>sponsors = Map.empty, grants = Map.empty\<rparr>"

section \<open>Arguments and events\<close>

record set_sponsor_arguments =
  ss_sponsor :: "bytes option"
  ss_endpoint :: "ustring option"
  ss_policy_uri :: "ustring option"
  ss_policy_version :: u32
  ss_allowed :: "allowed_call list"
  ss_max_rc_per_op :: u64
  ss_max_ops_per_user_per_day :: u32
  ss_max_bytes_per_op :: u32
  ss_active :: bool

record set_user_grant_arguments =
  sg_sponsor :: "bytes option"
  sg_user :: "bytes option"
  sg_daily_ops :: u32
  sg_expires_at :: u64

record revoke_user_grant_arguments =
  rg_sponsor :: "bytes option"
  rg_user :: "bytes option"

text \<open>The payloads of the \<open>osp.sponsorship.*\<close> events, fields in the order of the schema.\<close>

datatype sponsorship_event =
    Sponsor_set bytes ustring u32 bool u64
  | Sponsor_deactivated bytes u64
  | User_grant_set bytes bytes u32 u64 u64
  | User_grant_revoked bytes bytes u64

type_synonym sponsorship_outcome = "(sponsorship_state \<times> sponsorship_event emitted list) result"

section \<open>Constants\<close>

definition MAX_ENDPOINT_LENGTH :: nat where "MAX_ENDPOINT_LENGTH = 256"
definition MAX_POLICY_URI_LENGTH :: nat where "MAX_POLICY_URI_LENGTH = 256"
definition MAX_ALLOWED_CALLS :: nat where "MAX_ALLOWED_CALLS = 32"
definition MAX_ENTRY_POINTS_PER_CALL :: nat where "MAX_ENTRY_POINTS_PER_CALL = 64"
definition MAX_BYTES_PER_OP :: u32 where "MAX_BYTES_PER_OP = 65536"
definition SPONSOR_PAGE_LIMIT :: u32 where "SPONSOR_PAGE_LIMIT = 100"
definition HTTPS_PREFIX :: ustring where "HTTPS_PREFIX = utf16 ''https://''"
definition LOCALHOST :: ustring where "LOCALHOST = utf16 ''http://localhost''"

lemmas sponsorship_limits = MAX_ENDPOINT_LENGTH_def MAX_POLICY_URI_LENGTH_def MAX_ALLOWED_CALLS_def
  MAX_ENTRY_POINTS_PER_CALL_def MAX_BYTES_PER_OP_def SPONSOR_PAGE_LIMIT_def

section \<open>Internal helpers\<close>

definition grant_key :: "bytes \<Rightarrow> bytes \<Rightarrow> bytes" where
  "grant_key sponsor user = concat_parts [sponsor, user]"

text \<open>\<open>String.startsWith\<close> and \<open>String.charAt\<close>, which is empty past the end.\<close>

definition starts_with :: "ustring \<Rightarrow> ustring \<Rightarrow> bool" where
  "starts_with s p \<longleftrightarrow> take (length p) s = p"

definition char_at :: "ustring \<Rightarrow> nat \<Rightarrow> ustring" where
  "char_at s i = (if i < length s then [s ! i] else [])"

definition validate_endpoint :: "ustring option \<Rightarrow> ustring result" where
  "validate_endpoint v =
     attempt (require_string v MAX_ENDPOINT_LENGTH ''endpoint'') (\<lambda>endpoint.
     if length endpoint = 0 then Inr endpoint
     else let ok0 = starts_with endpoint HTTPS_PREFIX;
              ok1 = (if \<not> ok0 \<and> starts_with endpoint LOCALHOST
                     then length endpoint = length LOCALHOST \<or>
                          char_at endpoint (length LOCALHOST) = utf16 '':'' \<or>
                          char_at endpoint (length LOCALHOST) = utf16 ''/''
                     else ok0)
          in require ok1 ''endpoint must use https'' (Inr endpoint))"

fun validate_allowed_loop :: "allowed_call list \<Rightarrow> unit result" where
  "validate_allowed_loop [] = Inr ()"
| "validate_allowed_loop (a # rest) =
     attempt (require_address (ac_contract_id a) ''allowed contract_id'') (\<lambda>_.
     require (length (ac_entry_points a) \<le> MAX_ENTRY_POINTS_PER_CALL) ''too many entry points''
     (validate_allowed_loop rest))"

definition validate_allowed :: "allowed_call list \<Rightarrow> unit result" where
  "validate_allowed allowed =
     require (length allowed \<le> MAX_ALLOWED_CALLS) ''too many allowed calls'' (validate_allowed_loop allowed)"

definition require_sponsor_record :: "bytes \<Rightarrow> sponsorship_state \<Rightarrow> sponsor_record result" where
  "require_sponsor_record sponsor st =
     require (sponsors st sponsor \<noteq> None) ''sponsor not registered'' (non_null (sponsors st sponsor) ''rec'')"

section \<open>Sponsors\<close>

definition set_sponsor :: "'w env \<Rightarrow> set_sponsor_arguments \<Rightarrow> sponsorship_state \<Rightarrow> sponsorship_outcome" where
  "set_sponsor env args st =
     attempt (require_address (ss_sponsor args) ''sponsor'') (\<lambda>sponsor.
     require_authority env sponsor
    (attempt (validate_endpoint (ss_endpoint args)) (\<lambda>endpoint.
     attempt (require_string (ss_policy_uri args) MAX_POLICY_URI_LENGTH ''policy_uri'') (\<lambda>policy_uri.
     attempt (validate_allowed (ss_allowed args)) (\<lambda>_.
     require (ss_max_bytes_per_op args \<le> MAX_BYTES_PER_OP) ''max_bytes_per_op too large''
    (let t = now env;
         registered_at = (case sponsors st sponsor of Some existing \<Rightarrow> sr_registered_at existing | None \<Rightarrow> t);
         rec = \<lparr>sr_sponsor = sponsor, sr_endpoint = endpoint, sr_policy_uri = policy_uri,
                sr_policy_version = ss_policy_version args, sr_allowed = ss_allowed args,
                sr_max_rc_per_op = ss_max_rc_per_op args,
                sr_max_ops_per_user_per_day = ss_max_ops_per_user_per_day args,
                sr_max_bytes_per_op = ss_max_bytes_per_op args, sr_active = ss_active args,
                sr_registered_at = registered_at, sr_updated_at = t\<rparr>
     in Inr (st\<lparr>sponsors := (sponsors st)(sponsor \<mapsto> rec)\<rparr>,
             [(Sponsor_set sponsor endpoint (ss_policy_version args) (ss_active args) t, [sponsor])])))))))"

definition deactivate_sponsor :: "'w env \<Rightarrow> bytes option \<Rightarrow> sponsorship_state \<Rightarrow> sponsorship_outcome" where
  "deactivate_sponsor env args_sponsor st =
     attempt (require_address args_sponsor ''sponsor'') (\<lambda>sponsor.
     require_authority env sponsor
    (attempt (require_sponsor_record sponsor st) (\<lambda>rec.
     let t = now env in
     Inr (st\<lparr>sponsors := (sponsors st)(sponsor \<mapsto> rec\<lparr>sr_active := False, sr_updated_at := t\<rparr>)\<rparr>,
          [(Sponsor_deactivated sponsor t, [sponsor])]))))"

section \<open>User grants\<close>

definition set_user_grant :: "'w env \<Rightarrow> set_user_grant_arguments \<Rightarrow> sponsorship_state \<Rightarrow> sponsorship_outcome" where
  "set_user_grant env args st =
     attempt (require_address (sg_sponsor args) ''sponsor'') (\<lambda>sponsor.
     attempt (require_address (sg_user args) ''user'') (\<lambda>user.
     require (sponsor \<noteq> user) ''user must differ from sponsor''
    (require_authority env sponsor
    (require (sg_daily_ops args \<ge> 1) ''daily_ops must be at least 1''
    (let t = now env in
     require (sg_expires_at args = 0 \<or> sg_expires_at args > t) ''expires_at must be 0 or in the future''
    (attempt (require_sponsor_record sponsor st) (\<lambda>rec.
     require (sr_active rec) ''sponsor inactive''
    (let grant = \<lparr>ug_sponsor = sponsor, ug_user = user, ug_daily_ops = sg_daily_ops args,
                  ug_expires_at = sg_expires_at args, ug_revoked = False, ug_updated_at = t\<rparr>
     in Inr (st\<lparr>grants := (grants st)(grant_key sponsor user \<mapsto> grant)\<rparr>,
             [(User_grant_set sponsor user (sg_daily_ops args) (sg_expires_at args) t, [sponsor, user])])))))))))"

definition revoke_user_grant :: "'w env \<Rightarrow> revoke_user_grant_arguments \<Rightarrow> sponsorship_state \<Rightarrow> sponsorship_outcome" where
  "revoke_user_grant env args st =
     attempt (require_address (rg_sponsor args) ''sponsor'') (\<lambda>sponsor.
     attempt (require_address (rg_user args) ''user'') (\<lambda>user.
     require_authority env sponsor
    (let key = grant_key sponsor user in
     require (grants st key \<noteq> None) ''grant not found''
    (attempt (non_null (grants st key) ''grant'') (\<lambda>grant.
     let t = now env in
     Inr (st\<lparr>grants := (grants st)(key \<mapsto> grant\<lparr>ug_revoked := True, ug_updated_at := t\<rparr>)\<rparr>,
          [(User_grant_revoked sponsor user t, [sponsor, user])]))))))"

section \<open>Reads\<close>

definition get_sponsor :: "bytes option \<Rightarrow> sponsorship_state \<Rightarrow> sponsor_record option" where
  "get_sponsor sponsor st = (if is_empty sponsor then None else sponsors st (the sponsor))"

text \<open>
  \<open>get_many\<close> is the storage iteration of the SDK: at most so many objects after the key, in
  ascending order of their keys.
\<close>

definition list_sponsors ::
  "((bytes \<rightharpoonup> sponsor_record) \<Rightarrow> bytes \<Rightarrow> nat \<Rightarrow> (bytes \<times> sponsor_record) list) \<Rightarrow> bytes option \<Rightarrow> u32 \<Rightarrow>
   sponsorship_state \<Rightarrow> sponsor_record list" where
  "list_sponsors get_many args_start args_limit st =
     (let limit = (if args_limit = 0 \<or> args_limit > SPONSOR_PAGE_LIMIT then SPONSOR_PAGE_LIMIT else args_limit);
          start = (if is_empty args_start then [] else the args_start)
      in map snd (get_many (sponsors st) start (unat limit)))"

definition get_user_grant :: "bytes option \<Rightarrow> bytes option \<Rightarrow> sponsorship_state \<Rightarrow> user_grant option" where
  "get_user_grant sponsor user st =
     (if is_empty sponsor \<or> is_empty user then None else grants st (grant_key (the sponsor) (the user)))"

section \<open>The contract as a transition system\<close>

datatype sponsorship_call =
    Call_set_sponsor set_sponsor_arguments
  | Call_deactivate_sponsor "bytes option"
  | Call_set_user_grant set_user_grant_arguments
  | Call_revoke_user_grant revoke_user_grant_arguments

fun sponsorship_step :: "'w env \<Rightarrow> sponsorship_call \<Rightarrow> sponsorship_state \<Rightarrow> sponsorship_outcome" where
  "sponsorship_step env (Call_set_sponsor args) st = set_sponsor env args st"
| "sponsorship_step env (Call_deactivate_sponsor a) st = deactivate_sponsor env a st"
| "sponsorship_step env (Call_set_user_grant args) st = set_user_grant env args st"
| "sponsorship_step env (Call_revoke_user_grant args) st = revoke_user_grant env args st"

definition sponsorship_exec :: "'w env \<times> sponsorship_call \<Rightarrow> sponsorship_state \<Rightarrow> sponsorship_state result" where
  "sponsorship_exec tx st = map_sum id fst (sponsorship_step (fst tx) (snd tx) st)"

section \<open>Endpoints\<close>

lemma starts_with_prefix: "starts_with s p \<longleftrightarrow> prefix p s"
  by (metis starts_with_def take_is_prefix append_eq_conv_conj prefix_def)

lemma char_at_length:
  assumes "prefix p s"
  shows "char_at s (length p) = [c] \<longleftrightarrow> prefix (p @ [c]) s"
proof -
  from assms obtain t where s: "s = p @ t" by (auto simp: prefix_def)
  show ?thesis by (cases t) (auto simp: s char_at_def)
qed

text \<open>
  Exactly these endpoints are accepted, and unchanged: none, or at most 256 code units that
  begin with \<open>https://\<close>, are \<open>http://localhost\<close>, or continue that with a colon or a slash; so
  no other host is reached over plain http.
\<close>

theorem endpoint_accepted_iff:
  "validate_endpoint (Some e) = Inr e' \<longleftrightarrow> e' = e \<and> length e \<le> 256 \<and>
     (e = [] \<or> prefix (utf16 ''https://'') e \<or> e = utf16 ''http://localhost'' \<or>
      prefix (utf16 ''http://localhost:'') e \<or> prefix (utf16 ''http://localhost/'') e)"
proof -
  have ext: "utf16 ''http://localhost:'' = LOCALHOST @ [0x3A]" "utf16 ''http://localhost/'' = LOCALHOST @ [0x2F]"
    "utf16 '':'' = [0x3A]" "utf16 ''/'' = [0x2F]" "utf16 ''http://localhost'' = LOCALHOST"
    by (simp_all add: utf16_def LOCALHOST_def of_char_def)
  have whole: "prefix LOCALHOST e \<Longrightarrow> length e = length LOCALHOST \<longleftrightarrow> e = LOCALHOST"
    by (auto simp: prefix_def)
  have longer: "prefix (LOCALHOST @ [c]) e \<Longrightarrow> prefix LOCALHOST e" for c
    by (metis prefix_def append_prefixD)
  have "LOCALHOST \<noteq> []" by (simp add: LOCALHOST_def utf16_def)
  then show ?thesis
    unfolding ext HTTPS_PREFIX_def [symmetric]
    using whole char_at_length [of LOCALHOST e] longer
    by (auto simp: validate_endpoint_def Let_def starts_with_prefix ext MAX_ENDPOINT_LENGTH_def split: if_splits)
qed

section \<open>Records and grants\<close>

definition allowed_ok :: "allowed_call \<Rightarrow> bool" where
  "allowed_ok a \<longleftrightarrow> (\<exists>c. ac_contract_id a = Some c \<and> length c = 25) \<and> length (ac_entry_points a) \<le> 64"

definition sponsor_ok :: "bytes \<Rightarrow> sponsor_record \<Rightarrow> bool" where
  "sponsor_ok k r \<longleftrightarrow> k = sr_sponsor r \<and> length k = 25 \<and> validate_endpoint (Some (sr_endpoint r)) = Inr (sr_endpoint r) \<and>
     length (sr_policy_uri r) \<le> 256 \<and> length (sr_allowed r) \<le> 32 \<and> list_all allowed_ok (sr_allowed r) \<and>
     sr_max_bytes_per_op r \<le> 65536"

definition grant_ok :: "sponsorship_state \<Rightarrow> bytes \<Rightarrow> user_grant \<Rightarrow> bool" where
  "grant_ok st k g \<longleftrightarrow> k = ug_sponsor g @ ug_user g \<and> length (ug_sponsor g) = 25 \<and> length (ug_user g) = 25 \<and>
     ug_sponsor g \<noteq> ug_user g \<and> 1 \<le> ug_daily_ops g \<and> sponsors st (ug_sponsor g) \<noteq> None"

definition sponsorship_inv :: "sponsorship_state \<Rightarrow> bool" where
  "sponsorship_inv st \<longleftrightarrow> (\<forall>k r. sponsors st k = Some r \<longrightarrow> sponsor_ok k r) \<and> (\<forall>k g. grants st k = Some g \<longrightarrow> grant_ok st k g)"

lemma sponsorship_empty_inv: "sponsorship_inv sponsorship_empty"
  by (simp add: sponsorship_inv_def sponsorship_empty_def)

lemma validate_endpoint_stable: "validate_endpoint v = Inr e \<Longrightarrow> validate_endpoint (Some e) = Inr e"
  by (cases v) (auto simp: validate_endpoint_def Let_def split: if_splits)

lemma validate_allowed_Inr [simp]: "validate_allowed xs = Inr () \<longleftrightarrow> length xs \<le> 32 \<and> list_all allowed_ok xs"
proof -
  have "validate_allowed_loop xs = Inr () \<longleftrightarrow> list_all allowed_ok xs"
    by (induction xs) (auto simp: allowed_ok_def MAX_ENTRY_POINTS_PER_CALL_def)
  then show ?thesis by (simp add: validate_allowed_def MAX_ALLOWED_CALLS_def)
qed

lemma set_sponsor_Inr:
  assumes "set_sponsor env args st = Inr (st', evs)"
  obtains k r where "ss_sponsor args = Some k" "has_authority env k" "sponsor_ok k r"
    "st' = st\<lparr>sponsors := (sponsors st)(k \<mapsto> r)\<rparr>"
    "sr_registered_at r = (case sponsors st k of Some x \<Rightarrow> sr_registered_at x | None \<Rightarrow> now env)"
proof -
  from assms obtain k e p where k: "ss_sponsor args = Some k" "length k = 25" "has_authority env k"
    and e: "validate_endpoint (ss_endpoint args) = Inr e"
    and p: "require_string (ss_policy_uri args) MAX_POLICY_URI_LENGTH ''policy_uri'' = Inr p"
    and a: "length (ss_allowed args) \<le> 32" "list_all allowed_ok (ss_allowed args)" "ss_max_bytes_per_op args \<le> MAX_BYTES_PER_OP"
    and st': "st' = st\<lparr>sponsors := (sponsors st)(k \<mapsto> \<lparr>sr_sponsor = k, sr_endpoint = e, sr_policy_uri = p,
                sr_policy_version = ss_policy_version args, sr_allowed = ss_allowed args,
                sr_max_rc_per_op = ss_max_rc_per_op args,
                sr_max_ops_per_user_per_day = ss_max_ops_per_user_per_day args,
                sr_max_bytes_per_op = ss_max_bytes_per_op args, sr_active = ss_active args,
                sr_registered_at = (case sponsors st k of Some x \<Rightarrow> sr_registered_at x | None \<Rightarrow> now env),
                sr_updated_at = now env\<rparr>)\<rparr>"
    by (auto simp: set_sponsor_def Let_def simp del: require_string_Inr)
  have "length p \<le> 256" using p by (auto simp: MAX_POLICY_URI_LENGTH_def split: option.splits)
  then show thesis
    by (intro that [OF k(1,3) _ st'])
      (use k(2) a validate_endpoint_stable [OF e] in \<open>simp_all add: sponsor_ok_def MAX_BYTES_PER_OP_def\<close>)
qed

lemma deactivate_sponsor_Inr:
  assumes "deactivate_sponsor env a st = Inr (st', evs)"
  obtains k r where "a = Some k" "has_authority env k" "sponsors st k = Some r"
    "st' = st\<lparr>sponsors := (sponsors st)(k \<mapsto> r\<lparr>sr_active := False, sr_updated_at := now env\<rparr>)\<rparr>"
  using assms by (auto simp: deactivate_sponsor_def require_sponsor_record_def Let_def)

lemma set_user_grant_Inr:
  assumes "set_user_grant env args st = Inr (st', evs)"
  obtains s u r where "sg_sponsor args = Some s" "sg_user args = Some u" "length s = 25" "length u = 25" "s \<noteq> u"
    "has_authority env s" "sponsors st s = Some r" "sr_active r" "1 \<le> sg_daily_ops args"
    "sg_expires_at args = 0 \<or> now env < sg_expires_at args"
    "st' = st\<lparr>grants := (grants st)(s @ u \<mapsto> \<lparr>ug_sponsor = s, ug_user = u, ug_daily_ops = sg_daily_ops args,
       ug_expires_at = sg_expires_at args, ug_revoked = False, ug_updated_at = now env\<rparr>)\<rparr>"
  using assms by (auto simp: set_user_grant_def require_sponsor_record_def Let_def grant_key_def)

lemma revoke_user_grant_Inr:
  assumes "revoke_user_grant env args st = Inr (st', evs)"
  obtains s u g where "rg_sponsor args = Some s" "rg_user args = Some u" "length s = 25" "length u = 25"
    "has_authority env s" "grants st (s @ u) = Some g"
    "st' = st\<lparr>grants := (grants st)(s @ u \<mapsto> g\<lparr>ug_revoked := True, ug_updated_at := now env\<rparr>)\<rparr>"
  using assms by (auto simp: revoke_user_grant_def Let_def grant_key_def)

lemmas sponsorship_elims = set_sponsor_Inr deactivate_sponsor_Inr set_user_grant_Inr revoke_user_grant_Inr

lemma sponsorship_step_inv:
  assumes inv: "sponsorship_inv st" and ok: "sponsorship_step env call st = Inr (st', evs)"
  shows "sponsorship_inv st'"
proof (cases call)
  case (Call_set_sponsor args)
  with ok have "set_sponsor env args st = Inr (st', evs)" by simp
  then show ?thesis
    by (rule set_sponsor_Inr) (use inv in \<open>auto simp: sponsorship_inv_def grant_ok_def\<close>)
next
  case (Call_deactivate_sponsor a)
  with ok have "deactivate_sponsor env a st = Inr (st', evs)" by simp
  then show ?thesis
    by (rule deactivate_sponsor_Inr) (use inv in \<open>auto simp: sponsorship_inv_def grant_ok_def sponsor_ok_def\<close>)
next
  case (Call_set_user_grant args)
  with ok have "set_user_grant env args st = Inr (st', evs)" by simp
  then show ?thesis
    by (rule set_user_grant_Inr) (use inv in \<open>auto simp: sponsorship_inv_def grant_ok_def\<close>)
next
  case (Call_revoke_user_grant args)
  with ok have "revoke_user_grant env args st = Inr (st', evs)" by simp
  then show ?thesis
    by (rule revoke_user_grant_Inr) (use inv in \<open>auto simp: sponsorship_inv_def grant_ok_def\<close>)
qed

lemma sponsorship_exec_Inr:
  assumes "sponsorship_exec tx st = Inr st'"
  obtains evs where "sponsorship_step (fst tx) (snd tx) st = Inr (st', evs)"
  using assms by (auto simp: sponsorship_exec_def)

text \<open>A sponsor once registered stays registered, since the same moment.\<close>

definition sponsors_kept :: "sponsorship_state \<Rightarrow> sponsorship_state \<Rightarrow> bool" where
  "sponsors_kept st st' \<longleftrightarrow> (\<forall>k r. sponsors st k = Some r \<longrightarrow>
     (\<exists>r'. sponsors st' k = Some r' \<and> sr_registered_at r' = sr_registered_at r))"

lemma sponsors_kept_trans: "sponsors_kept st st1 \<Longrightarrow> sponsors_kept st1 st2 \<Longrightarrow> sponsors_kept st st2"
  unfolding sponsors_kept_def by metis

interpretation sponsorship_contract: kept_relation sponsorship_exec sponsorship_inv sponsors_kept
proof (unfold_locales, goal_cases)
  case (1 s c s')
  then show ?case by (auto elim!: sponsorship_exec_Inr intro: sponsorship_step_inv)
next
  case (3 s t u)
  then show ?case by (rule sponsors_kept_trans)
next
  case (4 s c s')
  then show ?case
    by (cases "snd c") (auto elim!: sponsorship_exec_Inr sponsorship_elims simp: sponsors_kept_def split: option.splits)
qed (simp add: sponsors_kept_def)

text \<open>
  In every history only a sponsor writes its own record and grants: whenever a transaction
  changes the discovery record of an account or any grant given by it, that account signed the
  transaction; a new or renewed grant needs its active record; and every stored record and grant
  is well formed (endpoint, limits, grant of a registered sponsor to another account).
\<close>

theorem sponsor_controls_record:
  fixes cs :: "('w env \<times> sponsorship_call) list"
  defines "st \<equiv> run sponsorship_exec sponsorship_empty cs"
  assumes "sponsorship_step env call st = Inr (st', evs)" and "length s = 25" and "length u = 25"
  shows "(sponsors st' s \<noteq> sponsors st s \<or> grants st' (s @ u) \<noteq> grants st (s @ u) \<longrightarrow> has_authority env s) \<and>
    (\<forall>g. grants st' (s @ u) = Some g \<longrightarrow> \<not> ug_revoked g \<longrightarrow> grants st (s @ u) \<noteq> Some g \<longrightarrow>
       (\<exists>r. sponsors st s = Some r \<and> sr_active r) \<and> (ug_expires_at g = 0 \<or> now env < ug_expires_at g)) \<and>
    sponsorship_inv st'"
proof -
  have inv: "sponsorship_inv st"
    unfolding st_def using sponsorship_empty_inv by (rule sponsorship_contract.run_keeps)
  then have "sponsorship_inv st'" using assms(2) by (rule sponsorship_step_inv)
  moreover have "sponsors st' s \<noteq> sponsors st s \<or> grants st' (s @ u) \<noteq> grants st (s @ u) \<longrightarrow> has_authority env s"
  proof (cases call)
    case (Call_set_sponsor args)
    with assms(2) show ?thesis by (auto elim!: set_sponsor_Inr split: if_splits)
  next
    case (Call_deactivate_sponsor a)
    with assms(2) show ?thesis by (auto elim!: deactivate_sponsor_Inr split: if_splits)
  next
    case (Call_set_user_grant args)
    with assms(2) have "set_user_grant env args st = Inr (st', evs)" by simp
    then show ?thesis by (rule set_user_grant_Inr) (use assms(3) in \<open>auto split: if_splits\<close>)
  next
    case (Call_revoke_user_grant args)
    with assms(2) have "revoke_user_grant env args st = Inr (st', evs)" by simp
    then show ?thesis by (rule revoke_user_grant_Inr) (use assms(3) in \<open>auto split: if_splits\<close>)
  qed
  moreover have "(\<exists>r. sponsors st s = Some r \<and> sr_active r) \<and> (ug_expires_at g = 0 \<or> now env < ug_expires_at g)"
    if g: "grants st' (s @ u) = Some g" "\<not> ug_revoked g" "grants st (s @ u) \<noteq> Some g" for g
  proof (cases call)
    case (Call_set_user_grant args)
    with assms(2) have "set_user_grant env args st = Inr (st', evs)" by simp
    then show ?thesis by (rule set_user_grant_Inr) (use assms(3) g in \<open>auto split: if_splits\<close>)
  next
    case (Call_revoke_user_grant args)
    with assms(2) have "revoke_user_grant env args st = Inr (st', evs)" by simp
    then show ?thesis by (rule revoke_user_grant_Inr) (use assms(3) g in \<open>auto split: if_splits\<close>)
  next
    case (Call_set_sponsor args)
    with assms(2) g show ?thesis by (auto elim!: set_sponsor_Inr)
  next
    case (Call_deactivate_sponsor a)
    with assms(2) g show ?thesis by (auto elim!: deactivate_sponsor_Inr)
  qed
  ultimately show ?thesis by blast
qed

section \<open>The property at a concrete input\<close>

definition demo_sponsor :: set_sponsor_arguments where
  "demo_sponsor = \<lparr>ss_sponsor = Some (sample_addr 3), ss_endpoint = Some (utf16 ''https://s''), ss_policy_uri = None,
     ss_policy_version = 1, ss_allowed = [], ss_max_rc_per_op = 0, ss_max_ops_per_user_per_day = 9,
     ss_max_bytes_per_op = 1024, ss_active = True\<rparr>"

definition demo_grant :: set_user_grant_arguments where
  "demo_grant = \<lparr>sg_sponsor = Some (sample_addr 3), sg_user = Some (sample_addr 4), sg_daily_ops = 5, sg_expires_at = 0\<rparr>"

theorem sponsor_controls_record_witness:
  "\<exists>st' evs. sponsorship_step (sample_env 20 :: unit env) (Call_set_user_grant demo_grant)
      (run sponsorship_exec sponsorship_empty [(sample_env 10 :: unit env, Call_set_sponsor demo_sponsor)]) = Inr (st', evs) \<and>
    sponsorship_inv st'"
proof -
  let ?st = "run sponsorship_exec sponsorship_empty [(sample_env 10 :: unit env, Call_set_sponsor demo_sponsor)]"
  have "validate_endpoint (Some (utf16 ''https://s'')) = Inr (utf16 ''https://s'')"
    unfolding endpoint_accepted_iff by (simp add: utf16_def)
  then have "\<exists>r. sponsors ?st (sample_addr 3) = Some r \<and> sr_active r"
    by (simp add: sponsorship_exec_def set_sponsor_def demo_sponsor_def Let_def require_string_def MAX_BYTES_PER_OP_def
        sponsorship_empty_def validate_allowed_def)
  then obtain st' evs where g: "sponsorship_step (sample_env 20 :: unit env) (Call_set_user_grant demo_grant) ?st = Inr (st', evs)"
    by (auto simp: set_user_grant_def demo_grant_def require_sponsor_record_def Let_def simp del: run.simps)
  with sponsor_controls_record [OF g, of "sample_addr 3" "sample_addr 4"] show ?thesis by auto
qed

end
