(* ===== verification/Js.thy ===== *)
theory Js
  imports OSP_Prelude "HOL-Library.Sublist"
begin

text \<open>
  The part of JavaScript that the TypeScript packages use: strings as UTF-16 code units, thrown
  errors as values, and asynchronous code as a state-passing computation over the world outside
  the program (an \<open>await\<close> may change it, and it may throw).
\<close>

section \<open>Errors\<close>

text \<open>\<open>EncodingError\<close> of the SDK and every other \<open>Error\<close>, each with its message.\<close>

datatype js_error = Encoding_error ustring | Thrown ustring

fun error_message :: "js_error \<Rightarrow> ustring" where
  "error_message (Encoding_error m) = m"
| "error_message (Thrown m) = m"

type_synonym 'a js = "js_error + 'a"

text \<open>\<open>if (!c) throw new EncodingError(msg); k\<close>\<close>

definition js_check :: "bool \<Rightarrow> string \<Rightarrow> 'a js \<Rightarrow> 'a js" where
  "js_check c msg k = (if c then k else Inl (Encoding_error (utf16 msg)))"

text \<open>\<open>const x = m; k x\<close> where \<open>m\<close> may throw.\<close>

definition js_let :: "'a js \<Rightarrow> ('a \<Rightarrow> 'b js) \<Rightarrow> 'b js" where
  "js_let m k = (case m of Inl e \<Rightarrow> Inl e | Inr x \<Rightarrow> k x)"

lemma js_check_Inr [simp]: "js_check c msg k = Inr r \<longleftrightarrow> c \<and> k = Inr r"
  by (simp add: js_check_def)

lemma js_check_True [simp]: "js_check True msg k = k"
  by (simp add: js_check_def)

lemma js_let_Inr [simp]: "js_let m k = Inr r \<longleftrightarrow> (\<exists>x. m = Inr x \<and> k x = Inr r)"
  by (auto simp: js_let_def split: sum.splits)

lemma js_let_of_Inr [simp]: "js_let (Inr x) k = k x"
  by (simp add: js_let_def)

lemma js_let_of_Inl [simp]: "js_let (Inl e) k = Inl e"
  by (simp add: js_let_def)

section \<open>Strings\<close>

text \<open>\<open>toLowerCase\<close> on the ASCII letters, the only ones a hex string or an error pattern has.\<close>

definition lower_unit :: "u16 \<Rightarrow> u16" where
  "lower_unit c = (if 0x41 \<le> c \<and> c \<le> 0x5a then c + 0x20 else c)"

definition to_lower :: "ustring \<Rightarrow> ustring" where
  "to_lower s = map lower_unit s"

text \<open>The test \<open>/a|b|c/i\<close> of a message for one of several literal phrases.\<close>

definition matches_any :: "string list \<Rightarrow> ustring \<Rightarrow> bool" where
  "matches_any phrases s \<longleftrightarrow> list_ex (\<lambda>p. sublist (utf16 p) (to_lower s)) phrases"

lemma lower_unit_idem [simp]: "lower_unit (lower_unit c) = lower_unit c"
proof (cases "0x41 \<le> c \<and> c \<le> 0x5a")
  case True
  then have "unat c + 32 < 65536" "unat c \<ge> 65" by (simp_all add: word_le_nat_alt)
  then have "unat (c + 0x20) = unat c + 32" by (subst unat_add_lem [THEN iffD1]) simp_all
  with \<open>unat c \<ge> 65\<close> have "\<not> c + 0x20 \<le> 0x5a" by (simp add: word_le_nat_alt)
  with True show ?thesis by (simp add: lower_unit_def)
qed (auto simp: lower_unit_def)

lemma to_lower_idem [simp]: "to_lower (to_lower s) = to_lower s"
  by (simp add: to_lower_def)

section \<open>Asynchronous code\<close>

type_synonym ('w, 'a) io = "'w \<Rightarrow> 'a js \<times> 'w"

definition io_return :: "'a \<Rightarrow> ('w, 'a) io" where
  "io_return x w = (Inr x, w)"

definition io_throw :: "js_error \<Rightarrow> ('w, 'a) io" where
  "io_throw e w = (Inl e, w)"

definition io_let :: "('w, 'a) io \<Rightarrow> ('a \<Rightarrow> ('w, 'b) io) \<Rightarrow> ('w, 'b) io" where
  "io_let m k w = (case m w of (Inl e, w') \<Rightarrow> (Inl e, w') | (Inr x, w') \<Rightarrow> k x w')"

text \<open>\<open>try { k (await m) } catch (e) { h e }\<close> where \<open>k\<close> itself does not throw.\<close>

definition io_try :: "('w, 'a) io \<Rightarrow> ('a \<Rightarrow> ('w, 'b) io) \<Rightarrow> (js_error \<Rightarrow> ('w, 'b) io) \<Rightarrow> ('w, 'b) io" where
  "io_try m k h w = (case m w of (Inl e, w') \<Rightarrow> h e w' | (Inr x, w') \<Rightarrow> k x w')"

lemma io_return_eq [simp]: "io_return x w = (Inr x, w)"
  by (simp add: io_return_def)

lemma io_throw_eq [simp]: "io_throw e w = (Inl e, w)"
  by (simp add: io_throw_def)

lemma io_let_Inr [simp]: "io_let m k w = (Inr r, w2) \<longleftrightarrow> (\<exists>x w1. m w = (Inr x, w1) \<and> k x w1 = (Inr r, w2))"
  by (auto simp: io_let_def split: prod.splits sum.splits)

lemma io_try_Inr: "io_try m k h w = (Inr r, w2) \<longleftrightarrow>
    (\<exists>x w1. m w = (Inr x, w1) \<and> k x w1 = (Inr r, w2)) \<or> (\<exists>e w1. m w = (Inl e, w1) \<and> h e w1 = (Inr r, w2))"
  by (auto simp: io_try_def split: prod.splits sum.splits)

end
