(* ===== verification/Encoding.thy ===== *)
theory Encoding
  imports Js Chain
begin

text \<open>
  The byte helpers and protocol identifiers of the SDK (\<open>packages/sdk/src/encoding.ts\<close>,
  \<open>packages/sdk/src/ids.ts\<close>). Base58, base64url and hex come from the library \<open>koilib\<close> and SHA-256 from
  \<open>@noble/hashes\<close>; they are parameters.
\<close>

record codec =
  decode_base58 :: "ustring \<Rightarrow> bytes js"
  encode_base58 :: "bytes \<Rightarrow> ustring"
  decode_base64url :: "ustring \<Rightarrow> bytes js"
  noble_sha256 :: "bytes \<Rightarrow> bytes"

section \<open>Constants\<close>

definition ENCODING_PROTOCOL_VERSION :: int where "ENCODING_PROTOCOL_VERSION = 1"

definition DOMAIN_POST_ID :: string where "DOMAIN_POST_ID = ''osp/v1/post-id''"
definition DOMAIN_AUDIENCE :: string where "DOMAIN_AUDIENCE = ''osp/v1/audience''"
definition DOMAIN_IDEMPOTENCY :: string where "DOMAIN_IDEMPOTENCY = ''osp/v1/idem''"

definition LIMIT_idempotencyKeyBytes :: nat where "LIMIT_idempotencyKeyBytes = 16"
definition LIMIT_attemptIdBytes :: nat where "LIMIT_attemptIdBytes = 16"
definition LIMIT_audienceIdBytes :: nat where "LIMIT_audienceIdBytes = 16"
definition LIMIT_addressBytes :: nat where "LIMIT_addressBytes = 25"
definition LIMIT_hashBytes :: nat where "LIMIT_hashBytes = 32"

section \<open>Byte helpers\<close>

text \<open>
  \<open>TextEncoder\<close>: UTF-8 of a string of UTF-16 units; a surrogate without its partner becomes
  U+FFFD.
\<close>

definition utf8_two :: "nat \<Rightarrow> bytes" where
  "utf8_two c = [of_nat (0xc0 + c div 64), of_nat (0x80 + c mod 64)]"

definition utf8_three :: "nat \<Rightarrow> bytes" where
  "utf8_three c = [of_nat (0xe0 + c div 4096), of_nat (0x80 + c div 64 mod 64), of_nat (0x80 + c mod 64)]"

definition utf8_four :: "nat \<Rightarrow> bytes" where
  "utf8_four c = [of_nat (0xf0 + c div 262144), of_nat (0x80 + c div 4096 mod 64), of_nat (0x80 + c div 64 mod 64),
     of_nat (0x80 + c mod 64)]"

definition high_surrogate :: "u16 \<Rightarrow> bool" where "high_surrogate c \<longleftrightarrow> 0xd800 \<le> c \<and> c < 0xdc00"
definition low_surrogate :: "u16 \<Rightarrow> bool" where "low_surrogate c \<longleftrightarrow> 0xdc00 \<le> c \<and> c < 0xe000"

fun utf8 :: "ustring \<Rightarrow> bytes" where
  "utf8 [] = []"
| "utf8 (c # cs) =
     (if c < 0x80 then ucast c # utf8 cs
      else if c < 0x800 then utf8_two (unat c) @ utf8 cs
      else if high_surrogate c then
        (case cs of
           [] \<Rightarrow> utf8_three 0xfffd
         | d # ds \<Rightarrow>
             if low_surrogate d
             then utf8_four (0x10000 + (unat c - 0xd800) * 0x400 + (unat d - 0xdc00)) @ utf8 ds
             else utf8_three 0xfffd @ utf8 cs)
      else if low_surrogate c then utf8_three 0xfffd @ utf8 cs
      else utf8_three (unat c) @ utf8 cs)"

text \<open>\<open>concat\<close>: the parts are copied one after the other into an array of their total length.\<close>

fun set_parts :: "bytes \<Rightarrow> nat \<Rightarrow> bytes list \<Rightarrow> bytes" where
  "set_parts out offset [] = out"
| "set_parts out offset (p # ps) =
     set_parts (take offset out @ p @ drop (offset + length p) out) (offset + length p) ps"

definition concat_bytes :: "bytes list \<Rightarrow> bytes" where
  "concat_bytes parts = set_parts (replicate (foldl (\<lambda>n p. n + length p) 0 parts) 0) 0 parts"

text \<open>What is accepted as an integer: a number, a bigint, a decimal string, an object with a \<open>toString\<close>.\<close>

datatype int_input =
    Js_number int
  | Js_fraction \<comment> \<open>a number that is not an integer, an infinity or \<open>NaN\<close>\<close>
  | Js_bigint int
  | Js_text ustring
  | Js_object ustring
  | Js_other

definition is_digit :: "u16 \<Rightarrow> bool" where
  "is_digit c \<longleftrightarrow> 0x30 \<le> c \<and> c \<le> 0x39"

definition digits_value :: "ustring \<Rightarrow> int" where
  "digits_value ds = foldl (\<lambda>acc d. acc * 10 + (uint d - 0x30)) 0 ds"

text \<open>\<open>BigInt(text)\<close> when the text matches \<open>/^-?\d+$/\<close>.\<close>

fun decimal_text :: "ustring \<Rightarrow> int option" where
  "decimal_text [] = None"
| "decimal_text (c # cs) =
     (if c = 0x2d then (if cs \<noteq> [] \<and> list_all is_digit cs then Some (- digits_value cs) else None)
      else if list_all is_digit (c # cs) then Some (digits_value (c # cs)) else None)"

definition not_an_integer :: "int js" where
  "not_an_integer = Inl (Encoding_error (utf16 ''expected an integer''))"

fun toBigInt :: "int_input \<Rightarrow> int js" where
  "toBigInt (Js_bigint n) = Inr n"
| "toBigInt (Js_number n) = Inr n"
| "toBigInt Js_fraction = not_an_integer"
| "toBigInt (Js_text s) = (case decimal_text s of Some n \<Rightarrow> Inr n | None \<Rightarrow> not_an_integer)"
| "toBigInt (Js_object s) = (case decimal_text s of Some n \<Rightarrow> Inr n | None \<Rightarrow> not_an_integer)"
| "toBigInt Js_other = not_an_integer"

text \<open>\<open>DataView.setUint32\<close> and \<open>setBigUint64\<close>, big endian: byte \<open>i\<close> of \<open>n\<close> bytes.\<close>

definition be_bytes :: "nat \<Rightarrow> int \<Rightarrow> bytes" where
  "be_bytes n v = map (\<lambda>i. of_int (v div 256 ^ (n - 1 - i))) [0..<n]"

fun sdk_u32be :: "int_input \<Rightarrow> bytes js" where
  "sdk_u32be (Js_number n) =
     js_check (0 \<le> n \<and> n \<le> 0xffffffff) ''u32be: not an unsigned 32-bit integer'' (Inr (be_bytes 4 n))"
| "sdk_u32be _ = Inl (Encoding_error (utf16 ''u32be: not an unsigned 32-bit integer''))"

definition sdk_u64be :: "int_input \<Rightarrow> bytes js" where
  "sdk_u64be v =
     js_let (toBigInt v) (\<lambda>n.
     js_check (0 \<le> n \<and> n \<le> 0xffffffffffffffff) ''u64be: not an unsigned 64-bit integer'' (Inr (be_bytes 8 n)))"

text \<open>The comparison loop collects the differing bits of every pair of bytes.\<close>

unbundle bit_operations_syntax

fun diff_loop :: "byte \<Rightarrow> bytes \<Rightarrow> bytes \<Rightarrow> byte" where
  "diff_loop diff (a # as) (b # bs) = diff_loop (diff OR (a XOR b)) as bs"
| "diff_loop diff _ _ = diff"

definition bytesEqual :: "bytes \<Rightarrow> bytes \<Rightarrow> bool" where
  "bytesEqual a b = (if length a \<noteq> length b then False else diff_loop 0 a b = 0)"

section \<open>Addresses, chain ids and identifiers\<close>

datatype address_like = Address_text ustring | Address_bytes bytes
datatype chain_id_like = Chain_text ustring | Chain_bytes bytes

definition addressToBytes :: "codec \<Rightarrow> address_like \<Rightarrow> bytes js" where
  "addressToBytes cd address =
     js_let (case address of Address_text s \<Rightarrow> decode_base58 cd s | Address_bytes b \<Rightarrow> Inr b) (\<lambda>bytes.
     js_check (length bytes = LIMIT_addressBytes) ''address must be 25 bytes'' (Inr bytes))"

definition addressToString :: "codec \<Rightarrow> address_like \<Rightarrow> ustring js" where
  "addressToString cd address =
     (case address of
        Address_text s \<Rightarrow> Inr s
      | Address_bytes b \<Rightarrow> js_let (addressToBytes cd address) (\<lambda>bytes. Inr (encode_base58 cd bytes)))"

definition isAddress :: "codec \<Rightarrow> ustring \<Rightarrow> bool" where
  "isAddress cd value =
     (if value = [] then False
      else case decode_base58 cd value of Inr b \<Rightarrow> length b = LIMIT_addressBytes | Inl _ \<Rightarrow> False)"

definition chainIdToBytes :: "codec \<Rightarrow> chain_id_like \<Rightarrow> bytes js" where
  "chainIdToBytes cd chainId =
     js_let (case chainId of Chain_text s \<Rightarrow> decode_base64url cd s | Chain_bytes b \<Rightarrow> Inr b) (\<lambda>bytes.
     js_check (bytes \<noteq> []) ''chain id must not be empty'' (Inr bytes))"

definition contentHash :: "codec \<Rightarrow> bytes \<Rightarrow> bytes" where
  "contentHash cd envelopeBytes = noble_sha256 cd envelopeBytes"

record post_id_input =
  pi_chain :: chain_id_like
  pi_version :: "int_input option"
  pi_author :: address_like
  pi_sequence :: int_input
  pi_content_hash :: bytes

definition postId :: "codec \<Rightarrow> post_id_input \<Rightarrow> bytes js" where
  "postId cd inp =
     js_check (length (pi_content_hash inp) = LIMIT_hashBytes) ''contentHash must be 32 bytes''
    (js_let (toBigInt (pi_sequence inp)) (\<lambda>n.
     js_check (\<not> n < 1) ''sequence is 1-based (spec 2.1); the first publication has sequence 1''
    (js_let (chainIdToBytes cd (pi_chain inp)) (\<lambda>chain.
     js_let (sdk_u32be (case pi_version inp of Some v \<Rightarrow> v | None \<Rightarrow> Js_number ENCODING_PROTOCOL_VERSION)) (\<lambda>version.
     js_let (addressToBytes cd (pi_author inp)) (\<lambda>author.
     js_let (sdk_u64be (pi_sequence inp)) (\<lambda>sequence.
     Inr (noble_sha256 cd (concat_bytes
       [utf8 (utf16 DOMAIN_POST_ID), chain, version, author, sequence, pi_content_hash inp])))))))))"

definition sdk_idempotencyKey :: "codec \<Rightarrow> address_like \<Rightarrow> bytes \<Rightarrow> bytes js" where
  "sdk_idempotencyKey cd author attemptId =
     js_check (length attemptId = LIMIT_attemptIdBytes) ''attemptId must be 16 bytes''
    (js_let (addressToBytes cd author) (\<lambda>a.
     Inr (take LIMIT_idempotencyKeyBytes
       (noble_sha256 cd (concat_bytes [utf8 (utf16 DOMAIN_IDEMPOTENCY), a, attemptId])))))"

definition customAudienceId :: "codec \<Rightarrow> address_like \<Rightarrow> ustring \<Rightarrow> bytes js" where
  "customAudienceId cd author label =
     js_check (label \<noteq> []) ''audience label must not be empty''
    (js_let (addressToBytes cd author) (\<lambda>a.
     Inr (take LIMIT_audienceIdBytes
       (noble_sha256 cd (concat_bytes [utf8 (utf16 DOMAIN_AUDIENCE), a, utf8 label])))))"

definition newAttemptId :: "(nat \<Rightarrow> bytes) \<Rightarrow> bytes js" where
  "newAttemptId rng =
     (let i = rng LIMIT_attemptIdBytes
      in js_check (length i = LIMIT_attemptIdBytes) ''rng returned the wrong length'' (Inr i))"

section \<open>Properties of the helpers\<close>

lemma set_parts_append:
  "length out = offset + length (concat ps) \<Longrightarrow> set_parts out offset ps = take offset out @ concat ps"
  by (induction ps arbitrary: out offset) (auto simp: add.assoc)

lemma concat_bytes_concat [simp]: "concat_bytes ps = concat ps"
proof -
  have "foldl (\<lambda>n p. n + length p) k ps = k + length (concat ps)" for k
    by (induction ps arbitrary: k) simp_all
  from this [of 0] show ?thesis by (simp add: concat_bytes_def set_parts_append)
qed

lemma diff_loop_zero: "length a = length b \<Longrightarrow> diff_loop d a b = 0 \<longleftrightarrow> d = 0 \<and> a = b"
proof (induction a b arbitrary: d rule: list_induct2)
  case (Cons x xs y ys)
  have undo: "(x XOR y) XOR y = x" by (simp add: xor.assoc)
  have "x = y" if "x XOR y = 0" using undo that by simp
  then have "x XOR y = 0 \<longleftrightarrow> x = y" by auto
  moreover have "d OR e = 0 \<longleftrightarrow> d = 0 \<and> e = 0" for e :: byte by (rule or_eq_0_iff)
  ultimately show ?case using Cons.IH by auto
qed simp

lemma bytesEqual_iff: "bytesEqual a b \<longleftrightarrow> a = b"
  by (auto simp: bytesEqual_def diff_loop_zero)

lemma be_bytes_length [simp]: "length (be_bytes n v) = n"
  by (simp add: be_bytes_def)

text \<open>The two languages write the same big-endian bytes.\<close>

lemma low_byte_of_int: "(ucast (w AND 0xff :: 'a::len word) :: byte) = of_int (uint w)" if "8 \<le> LENGTH('a)"
proof -
  have "w AND 0xff = take_bit 8 w" by (simp add: take_bit_eq_mask mask_eq_exp_minus_1)
  then have "uint (ucast (w AND 0xff) :: byte) = uint w mod 256"
    by (simp only: unsigned_ucast_eq unsigned_take_bit_eq) (simp add: take_bit_eq_mod)
  moreover have "uint (of_int (uint w) :: byte) = uint w mod 256" by (simp only: uint_word_of_int) simp
  ultimately show ?thesis by (simp only: word_uint_eq_iff)
qed

lemma u64be_loop_bytes: "u64be_loop n v out = be_bytes n (uint v) @ out"
proof (induction n arbitrary: v out)
  case (Suc n)
  have "uint (drop_bit 8 v) = uint v div 256" by (simp add: drop_bit_eq_div uint_div_distrib)
  moreover have "be_bytes (Suc n) (uint v) = be_bytes n (uint v div 256) @ [of_int (uint v)]"
  proof -
    have "uint v div 256 ^ (n - i) = uint v div 256 div 256 ^ (n - 1 - i)" if "i < n" for i
      using that by (simp add: zdiv_zmult2_eq [symmetric] power_Suc [symmetric] Suc_diff_Suc del: power_Suc)
    then show ?thesis by (simp add: be_bytes_def)
  qed
  ultimately show ?case by (simp add: Suc.IH low_byte_of_int)
qed (simp add: be_bytes_def)

lemma be_bytes_u64:
  assumes "0 \<le> n" "n \<le> 0xffffffffffffffff"
  shows "be_bytes 8 n = u64be (of_int n)"
  using assms by (simp add: u64be_def u64be_loop_bytes uint_word_of_int)

lemma be_bytes_u32:
  assumes "0 \<le> n" "n \<le> 0xffffffff"
  shows "be_bytes 4 n = u32be (of_int n)"
proof -
  have u: "uint (of_int n :: u32) = n" using assms by (simp add: uint_word_of_int)
  have d: "uint (drop_bit k (of_int n :: u32)) = n div 2 ^ k" for k
    by (simp only: unsigned_drop_bit_eq) (use assms u in \<open>simp add: take_bit_int_eq_self drop_bit_eq_div\<close>)
  show ?thesis
    by (simp add: be_bytes_def u32be_def low_byte_of_int d u upt_conv_Cons numeral_nat del: upt_Suc)
qed

end
