(* ===== verification/Identifiers.thy ===== *)
theory Identifiers
  imports Publications Encoding
begin

text \<open>
  The identifiers the SDK computes against those the contracts check: the post id of the client is
  the post id of the chain, and identifiers of different kinds never hash the same bytes.
\<close>

text \<open>
  C36: The client and the chain agree on post ids. Whenever the SDK computes a post id, with
  the chain's own id and the default protocol version, the sequence given is a positive 64-bit
  number and the publications contract computes the same id for that author, sequence and
  content hash, so the contract's id check accepts what the SDK submits.
\<close>

theorem post_id_agrees:
  assumes "postId cd inp = Inr pid" and "pi_version inp = None"
    and "chainIdToBytes cd (pi_chain inp) = Inr (chain_id env)"
    and "string_to_bytes env POST_ID_DOMAIN = utf8 (utf16 DOMAIN_POST_ID)"
    and "\<And>data. sha256 env data = Inr (noble_sha256 cd data)"
  shows "\<exists>author n. addressToBytes cd (pi_author inp) = Inr author \<and> length author = 25 \<and>
    toBigInt (pi_sequence inp) = Inr n \<and> 1 \<le> n \<and> n < 2 ^ 64 \<and>
    compute_post_id env author (of_int n) (pi_content_hash inp) = Inr pid"
proof -
  from assms(1-3) obtain n author where n: "toBigInt (pi_sequence inp) = Inr n" "1 \<le> n" "n \<le> 0xffffffffffffffff"
    and author: "addressToBytes cd (pi_author inp) = Inr author"
    and pid: "pid = noble_sha256 cd (utf8 (utf16 DOMAIN_POST_ID) @ chain_id env @ be_bytes 4 1 @ author @ be_bytes 8 n @ pi_content_hash inp)"
    by (auto simp: postId_def sdk_u64be_def ENCODING_PROTOCOL_VERSION_def not_less)
  have "u32be PUB_PROTOCOL_VERSION = be_bytes 4 1"
    using be_bytes_u32 [of 1] by (simp add: PUB_PROTOCOL_VERSION_def)
  then have "compute_post_id env author (of_int n) (pi_content_hash inp) = Inr pid"
    using n be_bytes_u64 [of n] by (simp add: compute_post_id_def post_id_preimage_def assms(4,5) pid)
  moreover have "length author = 25" using author by (auto simp: addressToBytes_def LIMIT_addressBytes_def)
  ultimately show ?thesis using author n by (intro exI [of _ author] exI [of _ n]) simp
qed

text \<open>
  The integers the SDK puts into hashed bytes can be read back: whatever form the number was
  given in, an accepted 64-bit encoding is eight bytes whose big-endian value is that number.
\<close>

theorem u64_roundtrip:
  assumes "sdk_u64be v = Inr b"
  shows "length b = 8 \<and> toBigInt v = Inr (int (be_value b))"
proof -
  from assms obtain n where n: "toBigInt v = Inr n" "0 \<le> n" "n \<le> 0xffffffffffffffff" and b: "b = u64be (of_int n)"
    by (auto simp: sdk_u64be_def be_bytes_u64)
  have "int (unat (of_int n :: u64)) = n" using n by (simp add: uint_word_of_int)
  with n b show ?thesis by (simp add: u64be_roundtrip)
qed

section \<open>Domain separation\<close>

text \<open>The bytes hashed for an identifier of each kind.\<close>

definition idempotency_preimage :: "bytes \<Rightarrow> bytes \<Rightarrow> bytes" where
  "idempotency_preimage a att = utf8 (utf16 DOMAIN_IDEMPOTENCY) @ a @ att"

definition audience_preimage :: "bytes \<Rightarrow> ustring \<Rightarrow> bytes" where
  "audience_preimage a label = utf8 (utf16 DOMAIN_AUDIENCE) @ a @ utf8 label"

definition post_preimage :: "bytes \<Rightarrow> bytes \<Rightarrow> bytes \<Rightarrow> bytes \<Rightarrow> bytes \<Rightarrow> bytes" where
  "post_preimage chain version a sequence h = utf8 (utf16 DOMAIN_POST_ID) @ chain @ version @ a @ sequence @ h"

lemma domain_bytes:
  "utf8 (utf16 DOMAIN_IDEMPOTENCY) = [111, 115, 112, 47, 118, 49, 47, 105, 100, 101, 109]"
  "utf8 (utf16 DOMAIN_AUDIENCE) = [111, 115, 112, 47, 118, 49, 47, 97, 117, 100, 105, 101, 110, 99, 101]"
  "utf8 (utf16 DOMAIN_POST_ID) = [111, 115, 112, 47, 118, 49, 47, 112, 111, 115, 116, 45, 105, 100]"
  by (simp_all add: DOMAIN_IDEMPOTENCY_def DOMAIN_AUDIENCE_def DOMAIN_POST_ID_def utf16_def)

text \<open>
  Identifiers are bound to what they identify. An idempotency key the SDK derives is the
  truncated digest of bytes that determine its author and its attempt, and those bytes are never
  the ones hashed for a custom audience or a post, whatever their inputs: the three domains
  separate at the eighth byte.
\<close>

theorem idempotency_key_commits:
  assumes "sdk_idempotencyKey cd author att = Inr k"
  shows "\<exists>a. addressToBytes cd author = Inr a \<and> k = take 16 (noble_sha256 cd (idempotency_preimage a att)) \<and>
    (\<forall>a' att'. length a' = 25 \<longrightarrow> idempotency_preimage a' att' = idempotency_preimage a att \<longrightarrow>
       a' = a \<and> att' = att) \<and>
    (\<forall>a' label. audience_preimage a' label \<noteq> idempotency_preimage a att) \<and>
    (\<forall>c v a' s h. post_preimage c v a' s h \<noteq> idempotency_preimage a att)"
proof -
  from assms obtain a where a: "addressToBytes cd author = Inr a"
    and k: "k = take 16 (noble_sha256 cd (idempotency_preimage a att))"
    by (auto simp: sdk_idempotencyKey_def idempotency_preimage_def LIMIT_idempotencyKeyBytes_def)
  have "length a = 25" using a by (auto simp: addressToBytes_def LIMIT_addressBytes_def)
  with a k show ?thesis
    by (intro exI [of _ a]) (auto simp: idempotency_preimage_def audience_preimage_def post_preimage_def domain_bytes)
qed

section \<open>The properties at concrete inputs\<close>

definition demo_codec :: codec where
  "demo_codec = \<lparr>decode_base58 = (\<lambda>s. Inr (map ucast s)), encode_base58 = map ucast,
     decode_base64url = (\<lambda>s. Inr (map ucast s)), noble_sha256 = (\<lambda>b. take 32 (rev b @ replicate 32 0))\<rparr>"

definition demo_post_input :: post_id_input where
  "demo_post_input = \<lparr>pi_chain = Chain_bytes [18, 32], pi_version = None, pi_author = Address_bytes (sample_addr 3),
     pi_sequence = Js_text (utf16 ''12''), pi_content_hash = replicate 32 9\<rparr>"

lemma demo_post_id: "\<exists>pid. postId demo_codec demo_post_input = Inr pid"
  by (simp add: postId_def demo_post_input_def LIMIT_hashBytes_def utf16_def is_digit_def digits_value_def chainIdToBytes_def
      ENCODING_PROTOCOL_VERSION_def addressToBytes_def LIMIT_addressBytes_def sdk_u64be_def)

theorem post_id_agrees_witness:
  "\<exists>pid n. postId demo_codec demo_post_input = Inr pid \<and>
     compute_post_id (sample_env 0 :: unit env) (sample_addr 3) n (replicate 32 9) = Inr pid"
proof -
  obtain pid where p: "postId demo_codec demo_post_input = Inr pid" using demo_post_id by blast
  have "sha256 (sample_env 0 :: unit env) data = Inr (noble_sha256 demo_codec data)" for data
  proof -
    have h: "hash_sha256 (sample_env 0 :: unit env) = noble_sha256 demo_codec" by (simp add: sample_env_def demo_codec_def)
    have "length (noble_sha256 demo_codec data) = 32" by (simp add: demo_codec_def min_def)
    then show ?thesis by (simp add: sha256_def h HASH_LENGTH_def)
  qed
  moreover have "string_to_bytes (sample_env 0 :: unit env) POST_ID_DOMAIN = utf8 (utf16 DOMAIN_POST_ID)"
    unfolding domain_bytes by (simp add: sample_env_def POST_ID_DOMAIN_def utf16_def)
  ultimately have "\<exists>author n. addressToBytes demo_codec (pi_author demo_post_input) = Inr author \<and> length author = 25 \<and>
    toBigInt (pi_sequence demo_post_input) = Inr n \<and> 1 \<le> n \<and> n < 2 ^ 64 \<and>
    compute_post_id (sample_env 0 :: unit env) author (of_int n) (pi_content_hash demo_post_input) = Inr pid"
    by (intro post_id_agrees [OF p]) (simp_all add: demo_post_input_def chainIdToBytes_def sample_env_def)
  with p show ?thesis by (auto simp: demo_post_input_def addressToBytes_def)
qed

theorem u64_roundtrip_witness:
  "\<exists>b. sdk_u64be (Js_text (utf16 ''12'')) = Inr b \<and> be_value b = 12"
proof -
  have t: "toBigInt (Js_text (utf16 ''12'')) = Inr 12" by (simp add: utf16_def is_digit_def digits_value_def)
  then obtain b where b: "sdk_u64be (Js_text (utf16 ''12'')) = Inr b" by (simp add: sdk_u64be_def)
  from u64_roundtrip [OF this] t b show ?thesis by auto
qed

theorem idempotency_key_commits_witness:
  "\<exists>k. sdk_idempotencyKey demo_codec (Address_bytes (sample_addr 3)) (replicate 16 4) = Inr k \<and>
     k = take 16 (noble_sha256 demo_codec (idempotency_preimage (sample_addr 3) (replicate 16 4)))"
proof -
  obtain k where k: "sdk_idempotencyKey demo_codec (Address_bytes (sample_addr 3)) (replicate 16 4) = Inr k"
    by (simp add: sdk_idempotencyKey_def LIMIT_attemptIdBytes_def addressToBytes_def LIMIT_addressBytes_def)
  from idempotency_key_commits [OF this] k show ?thesis by (auto simp: addressToBytes_def LIMIT_addressBytes_def)
qed

end
