(* ===== verification/Reconcile.thy ===== *)
theory Reconcile
  imports Encoding
begin

text \<open>
  Cross-platform reconciliation (\<open>packages/sdk/src/reconcile.ts\<close>): the record of a cross-post
  attempt, the pure transition function, and the Reconciler, which asks the chain about an unknown
  outcome before it publishes again. The chain, the indexer and the two publishing actions are
  calls into the world outside; the hex encoding of \<open>koilib\<close> is a parameter.
\<close>

section \<open>Records\<close>

datatype cross_post_state = Draft | Submitting | Succeeded | Partial | Unknown_outcome | Failed | Reconcile_required

datatype side_status = Side_pending | Side_ok | Side_failed | Side_unknown | Side_not_required

record cross_post_record =
  cp_key :: ustring \<comment> \<open>hex of the idempotency key\<close>
  cp_attempt :: ustring
  cp_host_site :: "ustring option"
  cp_audience :: int
  cp_state :: cross_post_state
  cp_host :: side_status
  cp_koinos :: side_status
  cp_host_ref :: "ustring option"
  cp_tx :: "ustring option"
  cp_post :: "ustring option" \<comment> \<open>hex of the post id\<close>
  cp_error :: "ustring option"
  cp_updated :: int

text \<open>The events; the last argument is the optional time \<open>at\<close>.\<close>

datatype reconcile_event =
    Retry "int option"
  | Host_succeeded ustring "int option"
  | Host_failed ustring "int option"
  | Koinos_succeeded ustring ustring "int option"
  | Koinos_failed ustring "int option"
  | Koinos_unknown "ustring option" "int option"
  | Lookup_found ustring "ustring option" "int option"
  | Lookup_missing "int option"

text \<open>\<open>Uint8Array | string\<close>\<close>

datatype hex_like = Raw_bytes bytes | Hex_text ustring

record new_record_input =
  ni_key :: hex_like
  ni_attempt :: hex_like
  ni_host_site :: "ustring option"
  ni_audience :: int
  ni_now :: "int option"

fun hexOf :: "(bytes \<Rightarrow> ustring) \<Rightarrow> hex_like \<Rightarrow> ustring" where
  "hexOf to_hex (Hex_text s) = to_lower s"
| "hexOf to_hex (Raw_bytes b) = to_hex b"

definition newCrossPostRecord :: "(bytes \<Rightarrow> ustring) \<Rightarrow> int \<Rightarrow> new_record_input \<Rightarrow> cross_post_record" where
  "newCrossPostRecord to_hex date_now inp =
     (let hostSite = (case ni_host_site inp of Some s \<Rightarrow> if s \<noteq> [] then Some s else None | None \<Rightarrow> None)
      in \<lparr>cp_key = hexOf to_hex (ni_key inp), cp_attempt = hexOf to_hex (ni_attempt inp),
          cp_host_site = hostSite, cp_audience = ni_audience inp, cp_state = Draft,
          cp_host = (if hostSite \<noteq> None then Side_pending else Side_not_required), cp_koinos = Side_pending,
          cp_host_ref = None, cp_tx = None, cp_post = None, cp_error = None,
          cp_updated = (case ni_now inp of Some n \<Rightarrow> n | None \<Rightarrow> date_now)\<rparr>)"

section \<open>Transitions\<close>

definition deriveState :: "cross_post_record \<Rightarrow> cross_post_state" where
  "deriveState record =
     (let host = cp_host record; koinos = cp_koinos record
      in if koinos = Side_unknown then Unknown_outcome
         else let hostDone = (host = Side_ok \<or> host = Side_not_required)
         in if hostDone \<and> koinos = Side_ok then Succeeded
         else if (hostDone \<and> koinos = Side_failed) \<or> (koinos = Side_ok \<and> host = Side_failed) then Partial
         else if host = Side_failed \<and> koinos = Side_failed then Failed
         else Submitting)"

definition conflict :: "cross_post_record \<Rightarrow> int \<Rightarrow> ustring \<Rightarrow> cross_post_record" where
  "conflict record at why = record\<lparr>cp_state := Reconcile_required, cp_error := Some why, cp_updated := at\<rparr>"

definition finish :: "cross_post_record \<Rightarrow> int \<Rightarrow> cross_post_record" where
  "finish record at = record\<lparr>cp_state := deriveState record, cp_updated := at\<rparr>"

definition found_post :: "cross_post_record \<Rightarrow> int \<Rightarrow> ustring \<Rightarrow> ustring option \<Rightarrow> bool \<Rightarrow> cross_post_record" where
  "found_post record at event_post txId succeeded =
     (let pid = to_lower event_post
      in if cp_post record \<noteq> None \<and> cp_post record \<noteq> Some pid
         then conflict record at (utf16 ''post id '' @ pid @ utf16 '' conflicts with '' @ the (cp_post record))
         else let next1 = record\<lparr>cp_koinos := Side_ok, cp_post := Some pid\<rparr>;
                  next2 = (case txId of Some t \<Rightarrow> next1\<lparr>cp_tx := Some t\<rparr> | None \<Rightarrow> next1);
                  next3 = (if succeeded then next2\<lparr>cp_error := None\<rparr> else next2)
              in finish next3 at)"

definition host_only :: "ustring" where
  "host_only = utf16 ''host result for a Koinos-only attempt''"

fun event_at :: "int \<Rightarrow> reconcile_event \<Rightarrow> int" where
  "event_at date_now (Retry at) = (case at of Some t \<Rightarrow> t | None \<Rightarrow> date_now)"
| "event_at date_now (Host_succeeded _ at) = (case at of Some t \<Rightarrow> t | None \<Rightarrow> date_now)"
| "event_at date_now (Host_failed _ at) = (case at of Some t \<Rightarrow> t | None \<Rightarrow> date_now)"
| "event_at date_now (Koinos_succeeded _ _ at) = (case at of Some t \<Rightarrow> t | None \<Rightarrow> date_now)"
| "event_at date_now (Koinos_failed _ at) = (case at of Some t \<Rightarrow> t | None \<Rightarrow> date_now)"
| "event_at date_now (Koinos_unknown _ at) = (case at of Some t \<Rightarrow> t | None \<Rightarrow> date_now)"
| "event_at date_now (Lookup_found _ _ at) = (case at of Some t \<Rightarrow> t | None \<Rightarrow> date_now)"
| "event_at date_now (Lookup_missing at) = (case at of Some t \<Rightarrow> t | None \<Rightarrow> date_now)"

fun handle :: "cross_post_record \<Rightarrow> int \<Rightarrow> reconcile_event \<Rightarrow> cross_post_record" where
  "handle record at (Retry _) =
     (if cp_state record = Succeeded then record
      else if cp_state record = Unknown_outcome
      then record\<lparr>cp_error := Some (utf16 ''lookup required before retry''), cp_updated := at\<rparr>
      else let next1 = record\<lparr>cp_updated := at, cp_error := None\<rparr>;
               next2 = (if cp_host next1 = Side_failed then next1\<lparr>cp_host := Side_pending\<rparr> else next1);
               next3 = (if cp_koinos next2 = Side_failed then next2\<lparr>cp_koinos := Side_pending\<rparr> else next2)
           in next3\<lparr>cp_state := Submitting\<rparr>)"
| "handle record at (Host_succeeded hostRef _) =
     (if cp_host record = Side_not_required then conflict record at host_only
      else if cp_host_ref record \<noteq> None \<and> cp_host_ref record \<noteq> Some hostRef
      then conflict record at (utf16 ''host ref '' @ hostRef @ utf16 '' conflicts with '' @ the (cp_host_ref record))
      else finish (record\<lparr>cp_host := Side_ok, cp_host_ref := Some hostRef\<rparr>) at)"
| "handle record at (Host_failed err _) =
     (if cp_host record = Side_not_required then conflict record at host_only
      else if cp_host record = Side_ok then record
      else finish (record\<lparr>cp_host := Side_failed, cp_error := Some err\<rparr>) at)"
| "handle record at (Koinos_succeeded txId pid _) = found_post record at pid (Some txId) True"
| "handle record at (Lookup_found pid txId _) = found_post record at pid txId False"
| "handle record at (Koinos_failed err _) =
     (if cp_koinos record = Side_ok then record
      else finish (record\<lparr>cp_koinos := Side_failed, cp_error := Some err\<rparr>) at)"
| "handle record at (Koinos_unknown err _) =
     (if cp_koinos record = Side_ok then record
      else let next1 = record\<lparr>cp_koinos := Side_unknown\<rparr>;
               next2 = (case err of Some e \<Rightarrow> next1\<lparr>cp_error := Some e\<rparr> | None \<Rightarrow> next1)
           in finish next2 at)"
| "handle record at (Lookup_missing _) =
     (if cp_koinos record = Side_ok
      then conflict record at (utf16 ''chain lookup found no post for an idempotency key recorded as succeeded'')
      else if cp_koinos record = Side_unknown
      then finish (record\<lparr>cp_koinos := Side_failed, cp_error := Some (utf16 ''not found on chain; safe to retry'')\<rparr>) at
      else record\<lparr>cp_updated := at\<rparr>)"

definition transition :: "int \<Rightarrow> cross_post_record \<Rightarrow> reconcile_event \<Rightarrow> cross_post_record" where
  "transition date_now record event =
     (let at = event_at date_now event
      in if cp_state record = Reconcile_required then record else handle record at event)"

text \<open>Which sides a retry publishes: Koinos, host.\<close>

definition retryPlan :: "cross_post_record \<Rightarrow> bool \<times> bool" where
  "retryPlan record =
     (let koinos = (cp_post record = None \<and> cp_koinos record \<noteq> Side_ok \<and> cp_koinos record \<noteq> Side_unknown);
          host = (cp_host record \<noteq> Side_not_required \<and> cp_host record \<noteq> Side_ok)
      in (koinos, host))"

section \<open>The Reconciler\<close>

text \<open>
  \<open>parseInt\<close> of the two characters of a byte, for hex digits; anything else is stored as 0. A key
  is always the hex text that \<open>hexOf\<close> made.
\<close>

definition hex_digit :: "u16 \<Rightarrow> nat option" where
  "hex_digit c =
     (if 0x30 \<le> c \<and> c \<le> 0x39 then Some (unat c - 0x30)
      else if 0x61 \<le> c \<and> c \<le> 0x66 then Some (unat c - 0x57)
      else if 0x41 \<le> c \<and> c \<le> 0x46 then Some (unat c - 0x37) else None)"

fun hexToBytes :: "ustring \<Rightarrow> bytes" where
  "hexToBytes (c # d # cs) =
     (case hex_digit c of None \<Rightarrow> 0
      | Some a \<Rightarrow> (case hex_digit d of None \<Rightarrow> of_nat a | Some b \<Rightarrow> of_nat (16 * a + b))) # hexToBytes cs"
| "hexToBytes _ = []"

text \<open>
  The options of a Reconciler over a world \<open>'w\<close>: the chain answers a key with nothing, with an absent
  value or with a post id; the clock is read from the world.
\<close>

record 'w reconciler =
  rc_chain :: "ustring \<Rightarrow> bytes \<Rightarrow> ('w, bytes option option) io"
  rc_indexer :: "(ustring \<Rightarrow> ustring \<Rightarrow> ('w, (ustring \<times> ustring option) option) io) option"
  rc_now :: "'w \<Rightarrow> int"
  rc_to_hex :: "bytes \<Rightarrow> ustring"

record 'w retry_actions =
  publishKoinos :: "('w, ustring \<times> hex_like) io option"
  publishHost :: "('w, ustring) io option"

text \<open>\<open>found?.value?.post_id\<close> when it is non-empty.\<close>

definition answered :: "bytes option option \<Rightarrow> bytes option" where
  "answered found = (case found of Some (Some pid) \<Rightarrow> if pid \<noteq> [] then Some pid else None | _ \<Rightarrow> None)"

definition lookup :: "'w reconciler \<Rightarrow> cross_post_record \<Rightarrow> ustring \<Rightarrow> ('w, cross_post_record) io" where
  "lookup rc record author w =
     (let key = hexToBytes (cp_key record); at = rc_now rc w
      in io_let (rc_chain rc author key) (\<lambda>found.
         case answered found of
           Some pid \<Rightarrow>
             (case rc_indexer rc of
                None \<Rightarrow> io_return (transition at record (Lookup_found (rc_to_hex rc pid) None (Some at)))
              | Some findByKey \<Rightarrow>
                  io_let (findByKey author (cp_key record)) (\<lambda>hit.
                  let txId = (case hit of Some (p, t) \<Rightarrow> if bytesEqual (hexToBytes p) pid then t else None | None \<Rightarrow> None)
                  in io_return (transition at record (Lookup_found (rc_to_hex rc pid) txId (Some at)))))
         | None \<Rightarrow>
             (case rc_indexer rc of
                None \<Rightarrow> io_return (transition at record (Lookup_missing (Some at)))
              | Some findByKey \<Rightarrow>
                  io_let (findByKey author (cp_key record)) (\<lambda>hit.
                  case hit of
                    Some (p, t) \<Rightarrow> io_return (transition at record (Lookup_found p t (Some at)))
                  | None \<Rightarrow> io_return (transition at record (Lookup_missing (Some at)))))) w)"

text \<open>The two halves of \<open>retry\<close> that publish, each when the plan says so.\<close>

definition retry_koinos :: "'w reconciler \<Rightarrow> ustring \<Rightarrow> 'w retry_actions \<Rightarrow> bool \<Rightarrow> cross_post_record \<Rightarrow>
    ('w, cross_post_record) io" where
  "retry_koinos rc author actions wanted current =
     (if \<not> wanted then io_return current
      else case publishKoinos actions of
        None \<Rightarrow> io_throw (Thrown (utf16 ''publishKoinos action required''))
      | Some publish \<Rightarrow>
          io_try publish
            (\<lambda>(txId, pid) w.
               (let at = rc_now rc w
                in io_return (transition at current (Koinos_succeeded txId (hexOf (rc_to_hex rc) pid) (Some at))) w))
            (\<lambda>error w.
               let message = error_message error; at = rc_now rc w
               in if matches_any [''duplicate idempotency key''] message
                  then lookup rc (transition at current (Koinos_failed message (Some at))) author w
                  else if matches_any [''timeout'', ''timed out'', ''deadline'', ''network''] message
                  then io_return (transition at current (Koinos_unknown (Some message) (Some at))) w
                  else io_return (transition at current (Koinos_failed message (Some at))) w))"

definition retry_host :: "'w reconciler \<Rightarrow> 'w retry_actions \<Rightarrow> bool \<Rightarrow> cross_post_record \<Rightarrow> ('w, cross_post_record) io" where
  "retry_host rc actions wanted current =
     (if \<not> wanted then io_return current
      else case publishHost actions of
        None \<Rightarrow> io_throw (Thrown (utf16 ''publishHost action required''))
      | Some publish \<Rightarrow>
          io_try publish
            (\<lambda>hostRef w. let at = rc_now rc w in io_return (transition at current (Host_succeeded hostRef (Some at))) w)
            (\<lambda>error w. let at = rc_now rc w in
               io_return (transition at current (Host_failed (error_message error) (Some at))) w))"

definition settled_state :: "cross_post_record \<Rightarrow> bool" where
  "settled_state record \<longleftrightarrow> cp_state record = Reconcile_required \<or> cp_state record = Succeeded"

definition retry :: "'w reconciler \<Rightarrow> cross_post_record \<Rightarrow> ustring \<Rightarrow> 'w retry_actions \<Rightarrow> ('w, cross_post_record) io" where
  "retry rc record author actions =
     (if settled_state record then io_return record
      else io_let (if cp_koinos record = Side_unknown then lookup rc record author else io_return record) (\<lambda>current.
        if settled_state current then io_return current
        else let plan = retryPlan current
             in (\<lambda>w. io_let (retry_koinos rc author actions (fst plan)
                        (let at = rc_now rc w in transition at current (Retry (Some at))))
                      (retry_host rc actions (snd plan)) w)))"

section \<open>What a record always satisfies\<close>

definition sides_ok :: "cross_post_record \<Rightarrow> bool" where
  "sides_ok r \<longleftrightarrow>
     (cp_koinos r = Side_ok \<longleftrightarrow> cp_post r \<noteq> None) \<and> (cp_host r = Side_ok \<longleftrightarrow> cp_host_ref r \<noteq> None) \<and>
     (cp_host r = Side_not_required \<longleftrightarrow> cp_host_site r = None) \<and> cp_koinos r \<noteq> Side_not_required \<and> cp_host r \<noteq> Side_unknown \<and>
     (\<forall>p. cp_post r = Some p \<longrightarrow> to_lower p = p)"

definition record_inv :: "cross_post_record \<Rightarrow> bool" where
  "record_inv r \<longleftrightarrow> sides_ok r \<and>
     (cp_state r = Reconcile_required \<or> cp_state r = deriveState r \<or> cp_state r = Draft \<and> deriveState r = Submitting)"

lemma derive_other_fields [simp]:
  "deriveState (r\<lparr>cp_state := s\<rparr>) = deriveState r" "deriveState (r\<lparr>cp_updated := n\<rparr>) = deriveState r"
  "deriveState (r\<lparr>cp_error := x\<rparr>) = deriveState r" "deriveState (r\<lparr>cp_tx := y\<rparr>) = deriveState r"
  by (simp_all add: deriveState_def)

lemma sides_other_fields [simp]:
  "sides_ok (r\<lparr>cp_state := s\<rparr>) = sides_ok r" "sides_ok (r\<lparr>cp_updated := n\<rparr>) = sides_ok r"
  "sides_ok (r\<lparr>cp_error := x\<rparr>) = sides_ok r" "sides_ok (r\<lparr>cp_tx := y\<rparr>) = sides_ok r"
  by (simp_all add: sides_ok_def)

lemma finish_inv: "sides_ok r \<Longrightarrow> record_inv (finish r at)"
  by (simp add: record_inv_def finish_def)

lemma conflict_inv: "record_inv r \<Longrightarrow> record_inv (conflict r at why)"
  by (simp add: record_inv_def conflict_def)

lemma new_record_inv: "record_inv (newCrossPostRecord h t inp)"
  by (auto simp: newCrossPostRecord_def record_inv_def sides_ok_def deriveState_def Let_def)

lemma found_post_inv:
  assumes "record_inv r"
  shows "record_inv (found_post r at p tx s)"
proof -
  have side: "sides_ok (r\<lparr>cp_koinos := Side_ok, cp_post := Some (to_lower p)\<rparr>)"
    using assms by (simp add: record_inv_def sides_ok_def)
  show ?thesis
    using conflict_inv [OF assms] finish_inv side by (simp add: found_post_def Let_def split: option.split)
qed

lemma retry_derives:
  assumes "record_inv r" "cp_state r \<notin> {Reconcile_required, Succeeded, Unknown_outcome}"
  shows "record_inv (handle r at (Retry x))" "cp_state (handle r at (Retry x)) = Submitting"
    "cp_koinos (handle r at (Retry x)) = (if cp_koinos r = Side_failed then Side_pending else cp_koinos r)"
    "cp_host (handle r at (Retry x)) = (if cp_host r = Side_failed then Side_pending else cp_host r)"
    "cp_post (handle r at (Retry x)) = cp_post r"
proof -
  show side: "cp_state (handle r at (Retry x)) = Submitting"
    "cp_koinos (handle r at (Retry x)) = (if cp_koinos r = Side_failed then Side_pending else cp_koinos r)"
    "cp_host (handle r at (Retry x)) = (if cp_host r = Side_failed then Side_pending else cp_host r)"
    "cp_post (handle r at (Retry x)) = cp_post r"
    using assms(2) by (auto simp: Let_def)
  have "sides_ok (handle r at (Retry x))"
    using assms by (auto simp: record_inv_def sides_ok_def Let_def)
  moreover have "deriveState (handle r at (Retry x)) = Submitting"
    using assms unfolding deriveState_def side
    by (cases "cp_koinos r"; cases "cp_host r") (auto simp: record_inv_def sides_ok_def deriveState_def)
  ultimately show "record_inv (handle r at (Retry x))"
    using side(1) by (simp add: record_inv_def)
qed

lemma handle_inv:
  assumes inv: "record_inv r" and s: "cp_state r \<noteq> Reconcile_required"
  shows "record_inv (handle r at e)"
proof (cases e)
  case (Retry x)
  show ?thesis
  proof (cases "cp_state r \<in> {Succeeded, Unknown_outcome}")
    case True
    with inv Retry show ?thesis by (auto simp: record_inv_def)
  next
    case False
    with s Retry show ?thesis using retry_derives(1) [OF inv] by auto
  qed
next
  case (Koinos_succeeded tx p t)
  with inv show ?thesis by (simp add: found_post_inv)
next
  case (Lookup_found p tx t)
  with inv show ?thesis by (simp add: found_post_inv)
next
  case (Host_succeeded h t)
  have "sides_ok (r\<lparr>cp_host := Side_ok, cp_host_ref := Some h\<rparr>)" if "cp_host r \<noteq> Side_not_required"
    using inv that by (auto simp: record_inv_def sides_ok_def)
  with Host_succeeded conflict_inv [OF inv] finish_inv show ?thesis by simp
next
  case (Host_failed err t)
  have "sides_ok (r\<lparr>cp_host := Side_failed\<rparr>)" if "cp_host r \<notin> {Side_not_required, Side_ok}"
    using inv that by (auto simp: record_inv_def sides_ok_def)
  with Host_failed conflict_inv [OF inv] finish_inv inv show ?thesis by simp
next
  case (Koinos_failed err t)
  have "sides_ok (r\<lparr>cp_koinos := Side_failed\<rparr>)" if "cp_koinos r \<noteq> Side_ok"
    using inv that by (auto simp: record_inv_def sides_ok_def)
  with Koinos_failed finish_inv inv show ?thesis by simp
next
  case (Koinos_unknown err t)
  have "sides_ok (r\<lparr>cp_koinos := Side_unknown\<rparr>)" if "cp_koinos r \<noteq> Side_ok"
    using inv that by (auto simp: record_inv_def sides_ok_def)
  with Koinos_unknown finish_inv inv show ?thesis by (simp add: Let_def split: option.split)
next
  case (Lookup_missing t)
  have "sides_ok (r\<lparr>cp_koinos := Side_failed\<rparr>)" if "cp_koinos r \<noteq> Side_ok"
    using inv that by (auto simp: record_inv_def sides_ok_def)
  moreover have "record_inv (r\<lparr>cp_updated := at\<rparr>)" using inv by (simp add: record_inv_def)
  ultimately show ?thesis using Lookup_missing conflict_inv [OF inv] finish_inv by simp
qed

lemma transition_inv: "record_inv r \<Longrightarrow> record_inv (transition t r e)"
  by (simp add: transition_def handle_inv)

lemma inv_post_known: "record_inv r \<Longrightarrow> cp_post r \<noteq> None \<longleftrightarrow> cp_koinos r = Side_ok"
  by (simp add: record_inv_def sides_ok_def)

lemma handle_post_kept:
  assumes "cp_post r = Some p" and "record_inv r"
  shows "cp_post (handle r at e) = Some p"
proof (cases e)
  case (Koinos_succeeded tx q t)
  with assms show ?thesis by (auto simp: found_post_def conflict_def finish_def Let_def)
next
  case (Lookup_found q tx t)
  with assms show ?thesis by (auto simp: found_post_def conflict_def finish_def Let_def split: option.split)
qed (use assms inv_post_known [OF assms(2)] in \<open>auto simp: conflict_def finish_def Let_def\<close>)

lemma transition_post_kept: "cp_post r = Some p \<Longrightarrow> record_inv r \<Longrightarrow> cp_post (transition t r e) = Some p"
  by (simp add: transition_def handle_post_kept)

section \<open>Reachable records\<close>

text \<open>Every record an application holds was made by \<open>newCrossPostRecord\<close> and changed by \<open>transition\<close>.\<close>

inductive reachable :: "(bytes \<Rightarrow> ustring) \<Rightarrow> cross_post_record \<Rightarrow> bool" for to_hex where
  fresh: "reachable to_hex (newCrossPostRecord to_hex t inp)"
| step: "reachable to_hex r \<Longrightarrow> reachable to_hex (transition t r e)"

lemma reachable_inv: "reachable to_hex r \<Longrightarrow> record_inv r"
  by (induction rule: reachable.induct) (simp_all add: new_record_inv transition_inv)

lemma reachable_events: "reachable to_hex r \<Longrightarrow> reachable to_hex (foldl (\<lambda>r (t, e). transition t r e) r es)"
  by (induction es arbitrary: r) (auto intro: step)

text \<open>
  The state shown to the user is the truth about the two sides. In every record an application
  can hold, the state is the one derived from the status of the two sides (a conflict and a draft
  nothing has happened to apart), the Koinos side is successful exactly when the post id is known,
  the host side exactly when its reference is.
\<close>

theorem record_state_is_derived:
  assumes "reachable to_hex r"
  shows "(cp_koinos r = Side_ok \<longleftrightarrow> cp_post r \<noteq> None) \<and> (cp_host r = Side_ok \<longleftrightarrow> cp_host_ref r \<noteq> None) \<and>
    (cp_state r = Reconcile_required \<or> cp_state r = deriveState r \<or> cp_state r = Draft \<and> deriveState r = Submitting)"
  using reachable_inv [OF assms] by (simp add: record_inv_def sides_ok_def)

text \<open>
  A known post id is final. Whatever events follow, in any order and number, the record keeps
  the same post id and no retry plan ever publishes on Koinos again; and a conflict is final too:
  a record that requires manual reconciliation never changes.
\<close>

theorem post_id_is_final:
  assumes "reachable to_hex r"
  shows "(cp_post r = Some p \<longrightarrow> cp_post (foldl (\<lambda>r (t, e). transition t r e) r es) = Some p \<and>
      \<not> fst (retryPlan (foldl (\<lambda>r (t, e). transition t r e) r es))) \<and>
    (cp_state r = Reconcile_required \<longrightarrow> foldl (\<lambda>r (t, e). transition t r e) r es = r)"
proof -
  have "cp_post r = Some p \<Longrightarrow> record_inv r \<Longrightarrow> cp_post (foldl (\<lambda>r (t, e). transition t r e) r es) = Some p"
    by (induction es arbitrary: r) (auto simp: transition_inv transition_post_kept)
  moreover have "cp_state r = Reconcile_required \<Longrightarrow> foldl (\<lambda>r (t, e). transition t r e) r es = r"
    by (induction es) (auto simp: transition_def)
  ultimately show ?thesis using reachable_inv [OF assms] by (auto simp: retryPlan_def Let_def)
qed

section \<open>Lookups\<close>

text \<open>A lookup is one transition: a post found when the chain answers with one.\<close>

lemma lookup_Inr:
  assumes "lookup rc r author w = (Inr r', w')"
  shows "\<exists>found w1 e. rc_chain rc author (hexToBytes (cp_key r)) w = (Inr found, w1) \<and> r' = transition (rc_now rc w) r e \<and>
    (case answered found of
       Some pid \<Rightarrow> \<exists>tx. e = Lookup_found (rc_to_hex rc pid) tx (Some (rc_now rc w))
     | None \<Rightarrow> e = Lookup_missing (Some (rc_now rc w)) \<or> (\<exists>p tx. e = Lookup_found p tx (Some (rc_now rc w))))"
proof -
  let ?t = "rc_now rc w"
  from assms obtain found w1 where c: "rc_chain rc author (hexToBytes (cp_key r)) w = (Inr found, w1)"
    by (auto simp: lookup_def Let_def)
  have "\<exists>e. r' = transition ?t r e \<and>
    (case answered found of
       Some pid \<Rightarrow> \<exists>tx. e = Lookup_found (rc_to_hex rc pid) tx (Some ?t)
     | None \<Rightarrow> e = Lookup_missing (Some ?t) \<or> (\<exists>p tx. e = Lookup_found p tx (Some ?t)))"
  proof (cases "answered found")
    case (Some pid)
    with assms c have "\<exists>tx. r' = transition ?t r (Lookup_found (rc_to_hex rc pid) tx (Some ?t))"
      by (cases "rc_indexer rc") (auto simp: lookup_def Let_def)
    with Some show ?thesis by auto
  next
    case None
    with assms c have "r' = transition ?t r (Lookup_missing (Some ?t)) \<or> (\<exists>p tx. r' = transition ?t r (Lookup_found p tx (Some ?t)))"
      by (cases "rc_indexer rc") (auto simp: lookup_def Let_def split: option.splits)
    with None show ?thesis by auto
  qed
  with c show ?thesis by blast
qed

lemma lookup_inv: "lookup rc r author w = (Inr r', w') \<Longrightarrow> record_inv r \<Longrightarrow> record_inv r'"
  by (drule lookup_Inr) (auto simp: transition_inv)

text \<open>On a record with an unknown outcome a found post is recorded; nothing found clears the unknown.\<close>

lemma unknown_facts:
  assumes "record_inv r" and "cp_koinos r = Side_unknown" and "cp_state r \<noteq> Reconcile_required"
  shows "cp_post (transition t r (Lookup_found p tx at)) = Some (to_lower p)"
    "cp_koinos (transition t r (Lookup_found p tx at)) = Side_ok"
    "cp_koinos (transition t r (Lookup_missing at)) = Side_failed"
    "cp_state (transition t r (Lookup_found p tx at)) \<noteq> Reconcile_required"
    "cp_state (transition t r (Lookup_missing at)) \<noteq> Reconcile_required"
proof -
  have none: "cp_post r = None" using assms(2) inv_post_known [OF assms(1)] by auto
  show "cp_post (transition t r (Lookup_found p tx at)) = Some (to_lower p)"
    "cp_koinos (transition t r (Lookup_found p tx at)) = Side_ok"
    "cp_koinos (transition t r (Lookup_missing at)) = Side_failed"
    "cp_state (transition t r (Lookup_found p tx at)) \<noteq> Reconcile_required"
    "cp_state (transition t r (Lookup_missing at)) \<noteq> Reconcile_required"
    using none assms(2,3)
    by (auto simp: transition_def found_post_def Let_def finish_def deriveState_def split: option.split)
qed

section \<open>Retries\<close>

lemma retry_same:
  assumes inv: "record_inv r"
    and "cp_post r \<noteq> None \<or> cp_koinos r = Side_unknown \<and>
      (\<exists>found w1 pid. rc_chain rc author (hexToBytes (cp_key r)) w = (Inr found, w1) \<and> answered found = Some pid)"
  shows "retry rc r author (acts\<lparr>publishKoinos := f\<rparr>) w = retry rc r author acts w"
proof -
  have host: "retry_host rc (acts\<lparr>publishKoinos := f\<rparr>) b = retry_host rc acts b" for b
    by (simp add: retry_host_def fun_eq_iff)
  have same: "retry_koinos rc author a (fst (retryPlan c)) x = io_return x" if "cp_koinos c = Side_ok" for a c x
    using that by (simp add: retry_koinos_def retryPlan_def Let_def)
  show ?thesis
  proof (cases "cp_koinos r = Side_unknown \<and> \<not> settled_state r")
    case False
    then have "cp_koinos r = Side_ok \<or> settled_state r"
      using assms(2) inv_post_known [OF inv] by auto
    with False show ?thesis by (auto simp: retry_def host same Let_def io_let_def)
  next
    case True
    then have unknown: "cp_koinos r = Side_unknown" "cp_state r \<noteq> Reconcile_required" by (auto simp: settled_state_def)
    have cont: "io_let (lookup rc r author) k w = io_let (lookup rc r author) k' w"
      if "\<And>c w'. lookup rc r author w = (Inr c, w') \<Longrightarrow> k c w' = k' c w'" for k k' :: "cross_post_record \<Rightarrow> ('a, cross_post_record) io"
      using that by (auto simp: io_let_def split: prod.split sum.split)
    have "cp_koinos c = Side_ok" if "lookup rc r author w = (Inr c, w')" for c w'
    proof -
      from assms(2) unknown inv_post_known [OF inv] obtain found w1 pid where
        "rc_chain rc author (hexToBytes (cp_key r)) w = (Inr found, w1)" "answered found = Some pid" by auto
      with lookup_Inr [OF that] show ?thesis using unknown_facts(2) [OF inv unknown] by auto
    qed
    with True show ?thesis by (auto simp: retry_def host same Let_def intro!: cont)
  qed
qed

text \<open>
  A post that exists is never published twice. When the post id of a record is known, or its
  outcome is unknown and the chain answers the lookup with a post, a retry never runs the action
  that publishes on Koinos: its result, in every world, is the same whatever that action would do.
\<close>

theorem retry_never_republishes:
  assumes "reachable to_hex r"
    and "cp_post r \<noteq> None \<or> cp_koinos r = Side_unknown \<and>
      (\<exists>found w1 pid. rc_chain rc author (hexToBytes (cp_key r)) w = (Inr found, w1) \<and> answered found = Some pid)"
  shows "retry rc r author (acts\<lparr>publishKoinos := f\<rparr>) w = retry rc r author acts w"
  using reachable_inv [OF assms(1)] assms(2) by (rule retry_same)

lemma looked_up:
  assumes inv: "record_inv r" and state: "cp_state r \<noteq> Reconcile_required"
    and "\<forall>a k w. \<exists>x w'. rc_chain rc a k w = (Inr x, w')"
    and "\<forall>g a k w. rc_indexer rc = Some g \<longrightarrow> (\<exists>x w'. g a k w = (Inr x, w'))"
  shows "\<exists>c w1. (if cp_koinos r = Side_unknown then lookup rc r author else io_return r) w = (Inr c, w1) \<and>
    record_inv c \<and> cp_state c \<noteq> Reconcile_required \<and> cp_koinos c \<noteq> Side_unknown"
proof (cases "cp_koinos r = Side_unknown")
  case True
  obtain found w1 where f: "rc_chain rc author (hexToBytes (cp_key r)) w = (Inr found, w1)" using assms(3) by blast
  have "\<exists>c w'. lookup rc r author w = (Inr c, w')"
  proof (cases "rc_indexer rc")
    case None
    with f show ?thesis by (cases "answered found") (auto simp: lookup_def Let_def io_let_def)
  next
    case (Some g)
    obtain hit w2 where "g author (cp_key r) w1 = (Inr hit, w2)" using assms(4) Some by blast
    with f Some show ?thesis
      by (cases "answered found"; cases hit) (auto simp: lookup_def Let_def io_let_def split: prod.split)
  qed
  then obtain c w' where c: "lookup rc r author w = (Inr c, w')" by blast
  with lookup_Inr [OF this] unknown_facts [OF inv True state] lookup_inv [OF c inv] True show ?thesis
    by (auto split: option.splits)
qed (use inv state in simp)

lemma publish_both:
  assumes inv: "record_inv c" and "cp_state c \<noteq> Reconcile_required" "cp_koinos c \<noteq> Side_unknown" and unsettled: "\<not> settled_state c"
    and pk: "publishKoinos acts = Some pk" "\<forall>w. \<exists>x w'. pk w = (Inr x, w')"
    and ph: "publishHost acts = Some ph" "\<forall>w. \<exists>x w'. ph w = (Inr x, w')"
  shows "\<exists>r' w'. io_let (retry_koinos rc author acts (fst (retryPlan c)) (transition t c (Retry (Some s))))
      (retry_host rc acts (snd (retryPlan c))) w1 = (Inr r', w') \<and> cp_state r' = Succeeded"
proof -
  define d where "d = transition t c (Retry (Some s))"
  have allowed: "cp_state c \<notin> {Reconcile_required, Succeeded, Unknown_outcome}"
    using assms(1-4) by (auto simp: record_inv_def settled_state_def deriveState_def Let_def split: if_splits)
  note after = retry_derives [OF inv allowed, of s "Some s"]
  have d: "d = handle c s (Retry (Some s))" using allowed by (simp add: d_def transition_def)
  have dinv: "record_inv d" "cp_state d \<noteq> Reconcile_required" using after(1,2) by (simp_all add: d)
  have kd: "cp_koinos d = (if fst (retryPlan c) then Side_pending else Side_ok)"
    using after(3) assms(3) inv by (cases "cp_koinos c") (auto simp: d retryPlan_def Let_def record_inv_def sides_ok_def)
  have hd: "if snd (retryPlan c) then cp_host d = Side_pending else cp_host d \<in> {Side_ok, Side_not_required}"
    using after(4) inv by (cases "cp_host c") (auto simp: d retryPlan_def Let_def record_inv_def sides_ok_def)
  have some: "fst (retryPlan c) \<or> snd (retryPlan c)"
    using allowed inv assms(3)
    by (cases "cp_koinos c"; cases "cp_host c") (auto simp: retryPlan_def Let_def record_inv_def sides_ok_def deriveState_def)
  obtain e w2 where e: "retry_koinos rc author acts (fst (retryPlan c)) d w1 = (Inr e, w2)"
    and ke: "cp_koinos e = Side_ok" "cp_host e = cp_host d" "cp_host_ref e = cp_host_ref d" "cp_state e \<noteq> Reconcile_required"
    and se: "fst (retryPlan c) \<Longrightarrow> cp_state e = deriveState e"
  proof (cases "fst (retryPlan c)")
    case False
    with kd dinv(2) show thesis by (intro that [of d w1]) (simp_all add: retry_koinos_def)
  next
    case True
    obtain x w2 where x: "pk w1 = (Inr x, w2)" using pk(2) by blast
    have none: "cp_post d = None" using kd True inv_post_known [OF dinv(1)] by simp
    let ?e = "transition (rc_now rc w2) d (Koinos_succeeded (fst x) (hexOf (rc_to_hex rc) (snd x)) (Some (rc_now rc w2)))"
    show thesis
    proof (rule that [of ?e w2])
      show "retry_koinos rc author acts (fst (retryPlan c)) d w1 = (Inr ?e, w2)"
        using True x by (simp add: retry_koinos_def pk(1) io_try_def Let_def split_beta)
    qed (use none dinv(2) in \<open>auto simp: transition_def found_post_def finish_def Let_def deriveState_def\<close>)
  qed
  show ?thesis
  proof (cases "snd (retryPlan c)")
    case False
    then have "fst (retryPlan c)" using some by blast
    then have "cp_state e = Succeeded" using se ke hd False by (auto simp: deriveState_def)
    with e False show ?thesis by (simp add: d_def [symmetric] io_let_def retry_host_def)
  next
    case True
    obtain x w3 where x: "ph w2 = (Inr x, w3)" using ph(2) by blast
    have "cp_host d = Side_pending" using hd True by simp
    moreover from this have "cp_host_ref d = None" using dinv(1) by (auto simp: record_inv_def sides_ok_def)
    ultimately have "cp_state (transition (rc_now rc w3) e (Host_succeeded x (Some (rc_now rc w3)))) = Succeeded"
      using ke by (simp add: transition_def finish_def deriveState_def)
    with e True x show ?thesis by (simp add: d_def [symmetric] io_let_def retry_host_def ph(1) io_try_def Let_def)
  qed
qed

lemma retry_succeeds:
  assumes inv: "record_inv r" and "cp_state r \<noteq> Reconcile_required"
    and "\<forall>a k w. \<exists>x w'. rc_chain rc a k w = (Inr x, w')"
    and "\<forall>g a k w. rc_indexer rc = Some g \<longrightarrow> (\<exists>x w'. g a k w = (Inr x, w'))"
    and "publishKoinos acts = Some pk" and "\<forall>w. \<exists>x w'. pk w = (Inr x, w')"
    and "publishHost acts = Some ph" and "\<forall>w. \<exists>x w'. ph w = (Inr x, w')"
  shows "\<exists>r' w'. retry rc r author acts w = (Inr r', w') \<and> cp_state r' = Succeeded"
proof (cases "settled_state r")
  case True
  with assms(2) show ?thesis by (simp add: retry_def settled_state_def)
next
  case False
  obtain c w1 where c: "(if cp_koinos r = Side_unknown then lookup rc r author else io_return r) w = (Inr c, w1)"
    and cinv: "record_inv c" "cp_state c \<noteq> Reconcile_required" "cp_koinos c \<noteq> Side_unknown"
    using looked_up [OF inv assms(2-4)] by blast
  have go: "retry rc r author acts w = (if settled_state c then (Inr c, w1)
      else io_let (retry_koinos rc author acts (fst (retryPlan c)) (transition (rc_now rc w1) c (Retry (Some (rc_now rc w1)))))
             (retry_host rc acts (snd (retryPlan c))) w1)"
    using False c by (simp add: retry_def io_let_def Let_def)
  show ?thesis
  proof (cases "settled_state c")
    case True
    with go cinv(2) show ?thesis by (simp add: settled_state_def)
  next
    case False
    with publish_both [OF cinv False assms(5-8)] go show ?thesis by simp
  qed
qed

text \<open>
  A retry finishes the job. From any record that does not require manual reconciliation, when
  the chain and the indexer answer and the two publishing actions return, one call of \<open>retry\<close>
  returns a record in the state \<open>succeeded\<close>: an unknown outcome is looked up, a missing side is
  published and a side that is done is left alone.
\<close>

theorem retry_completes:
  assumes "reachable to_hex r" and "cp_state r \<noteq> Reconcile_required"
    and "\<forall>a k w. \<exists>x w'. rc_chain rc a k w = (Inr x, w')"
    and "\<forall>g a k w. rc_indexer rc = Some g \<longrightarrow> (\<exists>x w'. g a k w = (Inr x, w'))"
    and "publishKoinos acts = Some pk" and "\<forall>w. \<exists>x w'. pk w = (Inr x, w')"
    and "publishHost acts = Some ph" and "\<forall>w. \<exists>x w'. ph w = (Inr x, w')"
  shows "\<exists>r' w'. retry rc r author acts w = (Inr r', w') \<and> cp_state r' = Succeeded"
  using reachable_inv [OF assms(1)] assms(2-) by (rule retry_succeeds)

text \<open>Once the post id is known the rest of a retry keeps it.\<close>

lemma retry_host_steps:
  "retry_host rc acts b c w = (Inr r', w') \<Longrightarrow> r' = c \<or> (\<exists>t e. r' = transition t c e)"
  by (auto simp: retry_host_def io_try_Inr Let_def split: if_splits option.splits)

lemma retry_known:
  assumes "record_inv c" and "cp_post c = Some p" and "\<not> fst (retryPlan c)"
    and "io_let (retry_koinos rc author acts (fst (retryPlan c)) (transition t c e)) (retry_host rc acts b) w = (Inr r', w')"
  shows "cp_post r' = Some p" "record_inv r'"
proof -
  from assms(3,4) have r: "retry_host rc acts b (transition t c e) w = (Inr r', w')"
    by (simp add: retry_koinos_def)
  note kept = transition_post_kept [OF assms(2,1)] and inv = transition_inv [OF assms(1)]
  from retry_host_steps [OF r] show "cp_post r' = Some p" using transition_post_kept [OF kept inv] kept by auto
  from retry_host_steps [OF r] show "record_inv r'" using transition_inv [OF inv] inv by auto
qed

section \<open>The properties at a concrete input\<close>

text \<open>
  A world that counts the calls made; the chain knows no post, publishing works. The record has
  lost the reply of its first submission.
\<close>

definition demo_reconciler :: "nat reconciler" where
  "demo_reconciler = \<lparr>rc_chain = (\<lambda>a k w. (Inr None, w)), rc_indexer = None, rc_now = int, rc_to_hex = map ucast\<rparr>"

definition demo_actions :: "nat retry_actions" where
  "demo_actions = \<lparr>publishKoinos = Some (\<lambda>w. (Inr (utf16 ''0x1'', Hex_text (utf16 ''AB'')), Suc w)),
     publishHost = Some (\<lambda>w. (Inr (utf16 ''fb:1''), Suc w))\<rparr>"

definition demo_draft :: cross_post_record where
  "demo_draft = newCrossPostRecord (map ucast) 0
     \<lparr>ni_key = Hex_text (utf16 ''0f''), ni_attempt = Hex_text (utf16 ''01''), ni_host_site = Some (utf16 ''facebook''),
      ni_audience = 1, ni_now = Some 1\<rparr>"

definition demo_lost :: cross_post_record where
  "demo_lost = transition 3 (transition 2 demo_draft (Retry None)) (Koinos_unknown None None)"

definition demo_known :: cross_post_record where
  "demo_known = transition 4 demo_lost (Lookup_found (utf16 ''AB'') None None)"

lemma demo_reachable: "reachable (map ucast) demo_draft" "reachable (map ucast) demo_lost" "reachable (map ucast) demo_known"
proof -
  show d: "reachable (map ucast) demo_draft" unfolding demo_draft_def by (rule fresh)
  then show l: "reachable (map ucast) demo_lost" unfolding demo_lost_def by (intro step)
  then show "reachable (map ucast) demo_known" unfolding demo_known_def by (rule step)
qed

lemma demo_record_facts:
  "cp_state demo_lost = Unknown_outcome" "cp_koinos demo_lost = Side_unknown" "cp_post demo_known = Some (utf16 ''ab'')"
  by (simp_all add: demo_known_def demo_lost_def demo_draft_def newCrossPostRecord_def transition_def finish_def
      deriveState_def found_post_def Let_def utf16_def to_lower_def lower_unit_def)

theorem record_state_is_derived_witness: "cp_post demo_known \<noteq> None \<and> cp_koinos demo_known = Side_ok"
  using record_state_is_derived [OF demo_reachable(3)] demo_record_facts(3) by simp

theorem post_id_is_final_witness:
  "cp_post (transition 9 demo_known (Koinos_failed [] None)) = Some (utf16 ''ab'')"
  using post_id_is_final [OF demo_reachable(3), of "utf16 ''ab''" "[(9, Koinos_failed [] None)]"] demo_record_facts(3)
  by simp

theorem retry_never_republishes_witness:
  "retry demo_reconciler demo_known (utf16 ''1abc'') (demo_actions\<lparr>publishKoinos := None\<rparr>) 0 =
   retry demo_reconciler demo_known (utf16 ''1abc'') demo_actions 0"
  by (rule retry_never_republishes [OF demo_reachable(3)]) (simp add: demo_record_facts(3))

theorem retry_completes_witness:
  "\<exists>r' w'. retry demo_reconciler demo_lost (utf16 ''1abc'') demo_actions 0 = (Inr r', w') \<and> cp_state r' = Succeeded"
  by (rule retry_completes [OF demo_reachable(2)])
    (auto simp: demo_record_facts demo_reconciler_def demo_actions_def)

end
