(* ===== verification/Exactly_Once.thy ===== *)
theory Exactly_Once
  imports Publications Reconcile
begin

text \<open>
  The client and the chain together: the Reconciler of the SDK reading the publications contract. A
  submission whose answer was lost is recovered, and the post exists exactly once.
\<close>

text \<open>
  The chain lookup of a Reconciler answered by the contract: \<open>addr\<close> is the address the client's
  text names. An entry without an id reads as an empty one.
\<close>

definition contract_answer :: "post_ref option \<Rightarrow> bytes option option" where
  "contract_answer ref = Some (case ref of None \<Rightarrow> None | Some r \<Rightarrow>
     Some (case ref_post_id r of None \<Rightarrow> [] | Some pid \<Rightarrow> pid))"

definition reads_contract :: "('w \<times> publications_state) reconciler \<Rightarrow> (ustring \<Rightarrow> bytes) \<Rightarrow> bool" where
  "reads_contract rc addr \<longleftrightarrow> (\<forall>author key s. rc_chain rc author key s =
     (Inr (contract_answer (get_post_by_idempotency_key (Some (addr author)) (Some key) (snd s))), s))"

lemma publish_args_id:
  "publish env args s = Inr (s', evs) \<Longrightarrow> \<exists>pid. pa_post_id args = Some pid \<and> length pid = 32"
  by (erule publish_cases) blast+

text \<open>
  C11: A lost reply is recovered. Suppose a publish under a key succeeded on the chain, but the
  client only knows that the outcome is unknown. However many transactions of anybody came after,
  a retry of the client's record asks the contract, ends with the very post id that was published,
  counts the Koinos side as done, and does not run the publishing action at all.
\<close>

theorem lost_reply_recovered:
  fixes rc :: "('w \<times> publications_state) reconciler"
  assumes "publish env args s = Inr (s', evs)" and "publications_inv (snd s)"
    and "pa_author args = Some (addr author)" and "pa_post_id args = Some pid"
    and "pa_idempotency_key args = Some (hexToBytes (cp_key r))" and "hexToBytes (cp_key r) \<noteq> []"
    and "reads_contract rc addr" and "reachable to_hex r" and "cp_koinos r = Side_unknown" and "cp_state r \<noteq> Reconcile_required"
    and "retry rc r author acts (run publications_exec s' ds) = (Inr r', w')"
  shows "cp_post r' = Some (to_lower (rc_to_hex rc pid)) \<and> cp_koinos r' = Side_ok \<and>
    retry rc r author (acts\<lparr>publishKoinos := f\<rparr>) (run publications_exec s' ds) = (Inr r', w')"
proof -
  let ?s = "run publications_exec s' ds" and ?k = "hexToBytes (cp_key r)"
  have "length pid = 32" using publish_args_id [OF assms(1)] assms(4) by simp
  then have pid: "pid \<noteq> []" by auto
  from published_key_bound [OF assms(1,5,6,2), of ds] assms(3,4) have
    "idempotency (snd ?s) (addr author @ ?k) = Some \<lparr>ref_post_id = Some pid\<rparr>" "addr author \<noteq> []" by auto
  moreover have reads: "rc_chain rc author ?k ?s =
      (Inr (contract_answer (get_post_by_idempotency_key (Some (addr author)) (Some ?k) (snd ?s))), ?s)"
    using assms(7) unfolding reads_contract_def by blast
  ultimately have chain: "rc_chain rc author ?k ?s = (Inr (Some (Some pid)), ?s)"
    using assms(6) reads by (simp add: get_post_by_idempotency_key_def idempotency_key_def contract_answer_def)
  then have ans: "answered (Some (Some pid)) = Some pid" using pid by (simp add: answered_def)
  have same: "retry rc r author (acts\<lparr>publishKoinos := f\<rparr>) ?s = retry rc r author acts ?s"
    using assms(9) chain ans by (intro retry_same [OF reachable_inv [OF assms(8)]]) blast
  note inv = reachable_inv [OF assms(8)]
  have "\<not> settled_state r" using inv assms(9,10) by (auto simp: settled_state_def record_inv_def deriveState_def)
  with assms(9,11) obtain c w1 where c: "lookup rc r author ?s = (Inr c, w1)"
    and rest: "settled_state c \<and> r' = c \<or>
      io_let (retry_koinos rc author acts (fst (retryPlan c)) (transition (rc_now rc w1) c (Retry (Some (rc_now rc w1)))))
        (retry_host rc acts (snd (retryPlan c))) w1 = (Inr r', w')"
    by (auto simp: retry_def Let_def split: if_splits)
  from lookup_Inr [OF c] chain ans obtain tx where
    ct: "c = transition (rc_now rc ?s) r (Lookup_found (rc_to_hex rc pid) tx (Some (rc_now rc ?s)))" by auto
  have cinv: "record_inv c" unfolding ct by (rule transition_inv [OF inv])
  have post: "cp_post c = Some (to_lower (rc_to_hex rc pid))" unfolding ct by (rule unknown_facts(1) [OF inv assms(9,10)])
  have "\<not> fst (retryPlan c)" using post by (simp add: retryPlan_def Let_def)
  note known = retry_known [OF cinv post this]
  from rest have "cp_post r' = Some (to_lower (rc_to_hex rc pid)) \<and> record_inv r'"
  proof (elim disjE conjE)
    assume "r' = c"
    with post cinv show ?thesis by simp
  next
    assume "io_let (retry_koinos rc author acts (fst (retryPlan c)) (transition (rc_now rc w1) c (Retry (Some (rc_now rc w1)))))
        (retry_host rc acts (snd (retryPlan c))) w1 = (Inr r', w')"
    from known [OF this] show ?thesis by simp
  qed
  then show ?thesis using same assms(11) inv_post_known by auto
qed

section \<open>The property at a concrete input\<close>

definition demo_reader :: "(unit \<times> publications_state) reconciler" where
  "demo_reader = \<lparr>rc_chain = (\<lambda>author key s. (Inr (contract_answer
       (get_post_by_idempotency_key (Some (sample_addr 1)) (Some key) (snd s))), s)),
     rc_indexer = None, rc_now = (\<lambda>_. 0), rc_to_hex = map ucast\<rparr>"

definition demo_reader_actions :: "(unit \<times> publications_state) retry_actions" where
  "demo_reader_actions = \<lparr>publishKoinos = Some (\<lambda>s. (Inr ([], Hex_text []), s)), publishHost = Some (\<lambda>s. (Inr [], s))\<rparr>"

definition demo_unanswered :: cross_post_record where
  "demo_unanswered = transition 2 (newCrossPostRecord (map ucast) 0
     \<lparr>ni_key = Hex_text (utf16 ''07''), ni_attempt = Hex_text (utf16 ''01''), ni_host_site = None,
      ni_audience = 0, ni_now = Some 1\<rparr>) (Koinos_unknown None None)"

lemma demo_unanswered_facts: "reachable (map ucast) demo_unanswered" "cp_koinos demo_unanswered = Side_unknown"
  "cp_state demo_unanswered = Unknown_outcome" "hexToBytes (cp_key demo_unanswered) = [7]"
  by (simp add: demo_unanswered_def reachable.intros)
    (simp_all add: demo_unanswered_def newCrossPostRecord_def transition_def finish_def deriveState_def Let_def
      utf16_def to_lower_def lower_unit_def hex_digit_def)

theorem lost_reply_recovered_witness:
  "\<exists>r' w'. retry demo_reader demo_unanswered [] demo_reader_actions (run publications_exec ((), demo_pub_state 0 20) demo_delete) =
     (Inr r', w') \<and> cp_post r' = Some (to_lower (map ucast (replicate 32 5 :: bytes)))"
proof -
  let ?s = "run publications_exec ((), demo_pub_state 0 20) demo_delete"
  have reads: "reads_contract demo_reader (\<lambda>_. sample_addr 1)" by (simp add: reads_contract_def demo_reader_def)
  obtain evs where p: "publish (open_env 20 :: unit env) demo_publish
      (run publications_exec ((), publications_empty) demo_pub_setup) = Inr (((), demo_pub_state 0 20), evs)"
    using demo_publish_tx by blast
  obtain r' w' where r: "retry demo_reader demo_unanswered [] demo_reader_actions ?s = (Inr r', w')"
    using retry_succeeds [OF reachable_inv [OF demo_unanswered_facts(1)], of demo_reader demo_reader_actions
        "\<lambda>s. (Inr ([], Hex_text []), s)" "\<lambda>s. (Inr [], s)" "[]" ?s]
    by (auto simp: demo_unanswered_facts demo_reader_def demo_reader_actions_def)
  have "cp_post r' = Some (to_lower (rc_to_hex demo_reader (replicate 32 5))) \<and> cp_koinos r' = Side_ok \<and>
      retry demo_reader demo_unanswered [] (demo_reader_actions\<lparr>publishKoinos := None\<rparr>) ?s = (Inr r', w')"
    by (rule lost_reply_recovered [OF p publications_run_inv _ _ _ _ reads demo_unanswered_facts(1,2) _ r])
      (simp_all add: demo_publish_def demo_unanswered_facts)
  then have "cp_post r' = Some (to_lower (map ucast (replicate 32 5 :: bytes)))" by (simp add: demo_reader_def)
  with r show ?thesis by blast
qed

end
