(* ===== verification/Json.thy ===== *)
theory Json
  imports Encoding "HOL-Library.Char_ord" "HOL-Library.List_Lexorder"
begin

text \<open>
  JSON values, their text as \<open>JSON.stringify\<close> writes it, and the canonical JSON of the SDK
  (\<open>packages/sdk/src/encoding.ts\<close>: \<open>canonicalJson\<close>, \<open>sortKeys\<close>). Member names are ASCII and not array
  indices, so an object keeps the order its members were added in.
\<close>

section \<open>Values\<close>

datatype json =
    J_null
  | J_bool bool
  | J_int int
  | J_real ustring \<comment> \<open>a number that is not an integer, by its text\<close>
  | J_str ustring
  | J_arr "json list"
  | J_obj "(string \<times> json) list"

definition str_of :: "json option \<Rightarrow> ustring option" where
  "str_of v = (case v of Some (J_str s) \<Rightarrow> Some s | _ \<Rightarrow> None)"

definition int_of :: "json option \<Rightarrow> int option" where
  "int_of v = (case v of Some (J_int n) \<Rightarrow> Some n | _ \<Rightarrow> None)"

lemma str_of_Some [simp]: "str_of v = Some s \<longleftrightarrow> v = Some (J_str s)"
  by (auto simp: str_of_def split: option.splits json.splits)

lemma int_of_Some [simp]: "int_of v = Some n \<longleftrightarrow> v = Some (J_int n)"
  by (auto simp: int_of_def split: option.splits json.splits)

section \<open>Numbers as text\<close>

fun nat_text :: "nat \<Rightarrow> ustring" where
  "nat_text n = (if n < 10 then [of_nat (0x30 + n)] else nat_text (n div 10) @ [of_nat (0x30 + n mod 10)])"

declare nat_text.simps [simp del]

text \<open>\<open>String(n)\<close>, \<open>n.toString()\<close> for an integer.\<close>

definition int_text :: "int \<Rightarrow> ustring" where
  "int_text n = (if n < 0 then 0x2d # nat_text (nat (- n)) else nat_text (nat n))"

lemma digit_unit: "n < 10 \<Longrightarrow> is_digit (of_nat (0x30 + n)) \<and> uint (of_nat (0x30 + n) :: u16) - 0x30 = int n"
proof -
  assume n: "n < 10"
  then have "unat (of_nat (0x30 + n) :: u16) = 0x30 + n" by (simp only: unat_of_nat) simp
  then show ?thesis using n by (simp add: is_digit_def word_le_nat_alt uint_nat del: of_nat_add)
qed

lemma digits_value_snoc: "digits_value (ds @ [d]) = digits_value ds * 10 + (uint d - 0x30)"
  by (simp add: digits_value_def)

lemma digits_nonneg: "list_all is_digit s \<Longrightarrow> 0 \<le> digits_value s"
proof (induction s rule: rev_induct)
  case (snoc d ds)
  then have "0x30 \<le> uint d" by (simp add: is_digit_def word_le_def)
  with snoc show ?case by (simp add: digits_value_snoc)
qed (simp add: digits_value_def)

lemma nat_text_digits: "nat_text n \<noteq> [] \<and> list_all is_digit (nat_text n) \<and> digits_value (nat_text n) = int n"
proof (induction n rule: nat_text.induct)
  case (1 n)
  show ?case
  proof (cases "n < 10")
    case True
    with digit_unit [OF True] show ?thesis
      by (subst (1 2 3) nat_text.simps) (simp add: digits_value_def del: of_nat_add)
  next
    case False
    have d: "n mod 10 < 10" by simp
    from 1 [OF False] have ih: "nat_text (n div 10) \<noteq> []" "list_all is_digit (nat_text (n div 10))"
      "digits_value (nat_text (n div 10)) = int (n div 10)" by simp_all
    have "int (n div 10) * 10 + int (n mod 10) = int n" by presburger
    with False ih digit_unit [OF d] show ?thesis
      by (subst (1 2 3) nat_text.simps) (simp add: digits_value_snoc del: of_nat_add)
  qed
qed

lemma digit_not_minus: "is_digit c \<Longrightarrow> c \<noteq> 0x2d"
  by (auto simp: is_digit_def)

lemma decimal_int_text [simp]: "decimal_text (int_text n) = Some n"
proof -
  have pos: "decimal_text (nat_text m) = Some (int m)" for m
  proof -
    note t = nat_text_digits [of m]
    then obtain c cs where cs: "nat_text m = c # cs" by (cases "nat_text m") auto
    then have "is_digit c" using t by simp
    with t cs show ?thesis by (simp add: digit_not_minus)
  qed
  show ?thesis
    using pos nat_text_digits [of "nat (- n)"] by (simp add: int_text_def)
qed

lemma int_text_inject [simp]: "int_text m = int_text n \<longleftrightarrow> m = n"
  using decimal_int_text [of m] decimal_int_text [of n] by (metis option.inject)

section \<open>\<open>JSON.stringify\<close>\<close>

definition hex_unit :: "nat \<Rightarrow> u16" where
  "hex_unit n = of_nat (if n < 10 then 0x30 + n else 0x57 + n)"

definition escape_hex :: "u16 \<Rightarrow> ustring" where
  "escape_hex c = (let n = unat c in
     utf16 [CHR 0x5C, CHR ''u''] @ [hex_unit (n div 4096), hex_unit (n div 256 mod 16), hex_unit (n div 16 mod 16), hex_unit (n mod 16)])"

definition escape_unit :: "u16 \<Rightarrow> ustring" where
  "escape_unit c =
     (if c = 0x22 \<or> c = 0x5c then [0x5c, c]
      else if c = 0x08 then [0x5c, 0x62] else if c = 0x0c then [0x5c, 0x66] else if c = 0x0a then [0x5c, 0x6e]
      else if c = 0x0d then [0x5c, 0x72] else if c = 0x09 then [0x5c, 0x74]
      else if c < 0x20 then escape_hex c else [c])"

text \<open>A pair of surrogates is kept, a lone one is escaped.\<close>

fun quote_units :: "ustring \<Rightarrow> ustring" where
  "quote_units [] = []"
| "quote_units (c # cs) =
     (if high_surrogate c then
        (case cs of
           [] \<Rightarrow> escape_hex c
         | d # ds \<Rightarrow> if low_surrogate d then c # d # quote_units ds else escape_hex c @ quote_units cs)
      else if low_surrogate c then escape_hex c @ quote_units cs
      else escape_unit c @ quote_units cs)"

definition quote :: "ustring \<Rightarrow> ustring" where
  "quote s = 0x22 # quote_units s @ [0x22]"

fun stringify :: "json \<Rightarrow> ustring"
  and stringify_rest :: "json list \<Rightarrow> ustring" \<comment> \<open>the elements after the first one\<close>
  and stringify_more :: "(string \<times> json) list \<Rightarrow> ustring" where
  "stringify J_null = utf16 ''null''"
| "stringify (J_bool b) = utf16 (if b then ''true'' else ''false'')"
| "stringify (J_int n) = int_text n"
| "stringify (J_real t) = t"
| "stringify (J_str s) = quote s"
| "stringify (J_arr []) = [0x5b, 0x5d]"
| "stringify (J_arr (x # xs)) = 0x5b # stringify x @ stringify_rest xs"
| "stringify (J_obj []) = [0x7b, 0x7d]"
| "stringify (J_obj ((k, v) # ms)) = 0x7b # quote (utf16 k) @ 0x3a # stringify v @ stringify_more ms"
| "stringify_rest [] = [0x5d]"
| "stringify_rest (x # xs) = 0x2c # stringify x @ stringify_rest xs"
| "stringify_more [] = [0x7d]"
| "stringify_more ((k, v) # ms) = 0x2c # quote (utf16 k) @ 0x3a # stringify v @ stringify_more ms"

section \<open>Canonical JSON\<close>

text \<open>\<open>sortKeys\<close>: members by name, recursively; absent members are not in the list to begin with.\<close>

fun sort_keys :: "json \<Rightarrow> json"
  and sort_elements :: "json list \<Rightarrow> json list"
  and sort_members :: "(string \<times> json) list \<Rightarrow> (string \<times> json) list" where
  "sort_keys (J_arr xs) = J_arr (sort_elements xs)"
| "sort_keys (J_obj ms) = J_obj (sort_key fst (sort_members ms))"
| "sort_keys v = v"
| "sort_elements [] = []"
| "sort_elements (x # xs) = sort_keys x # sort_elements xs"
| "sort_members [] = []"
| "sort_members ((k, v) # ms) = (k, sort_keys v) # sort_members ms"

definition canonicalJson :: "json \<Rightarrow> ustring" where
  "canonicalJson v = stringify (sort_keys v)"

end
