(* ===== verification/Sponsor_Policy.thy ===== *)
theory Sponsor_Policy
  imports Json "HOL-Library.Char_ord" "HOL-Library.Product_Lexorder"
begin

text \<open>
  The policy of the sponsor service and its validation of submitted transactions
  (\<open>apps/sponsor/src/policy.ts\<close>, \<open>apps/sponsor/src/validate.ts\<close>). The contract interfaces (ABIs), the
  decoding of call arguments and the transaction and signature functions of \<open>koilib\<close> are
  parameters. A refusal is its category; the texts of the messages are left out.
\<close>

section \<open>Policy\<close>

text \<open>A method of a contract interface: name, entry point, read-only.\<close>

type_synonym abi = "(string \<times> int \<times> bool) list"

record allowed_method =
  am_contract :: string
  am_address :: ustring
  am_method :: string
  am_entry :: int

definition SPONSORED_CONTRACTS :: "string list" where
  "SPONSORED_CONTRACTS = [''identity'', ''relationships'', ''publications'', ''communities'', ''messaging'']"

definition ADMIN_METHODS :: "string list" where
  "ADMIN_METHODS = [''set_identity_contract'', ''set_relationships_contract'', ''set_token_contract'', ''set_dependencies'',
     ''init'', ''set_reward_policy'', ''consume'']"

text \<open>The argument naming the acting account; \<open>None\<close> stands for \<open>null\<close> (anyone may call).\<close>

definition ACTOR_FIELDS :: "(string \<times> (string \<times> string option) list) list" where
  "ACTOR_FIELDS =
    [(''messaging'', [(''request_conversation'', Some ''actor''), (''accept_conversation'', Some ''actor''),
        (''close_conversation'', Some ''actor''), (''send_message'', Some ''sender'')]),
     (''token'', [(''support'', Some ''actor''), (''transfer'', Some ''from''), (''burn'', Some ''from'')]),
     (''identity'', [(''register'', Some ''account''), (''update_profile'', Some ''account''),
        (''rotate_encryption_key'', Some ''account''), (''authorize_device'', Some ''account''),
        (''revoke_device'', Some ''account''), (''set_recovery_policy'', Some ''account''),
        (''apply_recovery_policy'', Some ''account''), (''cancel_recovery_policy'', Some ''account''),
        (''propose_recovery'', Some ''guardian''), (''cancel_recovery'', Some ''account''), (''execute_recovery'', None)]),
     (''relationships'', [(''request_friend'', Some ''requester''), (''accept_friend'', Some ''approver''),
        (''remove_friend'', Some ''actor''), (''block'', Some ''actor''), (''unblock'', Some ''actor''),
        (''follow'', Some ''follower''), (''unfollow'', Some ''follower''), (''rotate_audience'', Some ''actor'')]),
     (''publications'', [(''publish'', Some ''author''), (''set_lifecycle'', Some ''author''), (''react'', Some ''actor''),
        (''distribute_keys'', Some ''author''), (''record_cross_post'', Some ''author'')]),
     (''communities'', [(''create_community'', Some ''creator''), (''set_role'', Some ''actor''), (''set_policy'', Some ''actor''),
        (''propose_owner_transfer'', Some ''owner''), (''cancel_owner_transfer'', Some ''owner''),
        (''execute_owner_transfer'', None), (''set_label'', Some ''actor'')]),
     (''sponsorship'', [(''set_sponsor'', Some ''sponsor''), (''deactivate_sponsor'', Some ''sponsor''),
        (''set_user_grant'', Some ''sponsor''), (''revoke_user_grant'', Some ''sponsor'')])]"

definition DEVICE_IS_SUBJECT :: "(string \<times> string) list" where
  "DEVICE_IS_SUBJECT = [(''identity'', ''authorize_device''), (''identity'', ''revoke_device'')]"

definition deviceMaySign :: "string \<Rightarrow> string \<Rightarrow> bool" where
  "deviceMaySign contract method \<longleftrightarrow> \<not> (contract, method) \<in> set DEVICE_IS_SUBJECT"

definition ACTOR_FIELD_PRIORITY :: "string list" where
  "ACTOR_FIELD_PRIORITY = [''account'', ''author'', ''actor'', ''requester'', ''approver'', ''follower'', ''creator'',
     ''owner'', ''sponsor'', ''guardian'']"

definition actorField :: "string \<Rightarrow> string \<Rightarrow> (string \<times> json) list \<Rightarrow> string option" where
  "actorField contract method args =
     (case Option.bind (map_of ACTOR_FIELDS contract) (\<lambda>methods. map_of methods method) of
        Some explicit \<Rightarrow> explicit
      | None \<Rightarrow> find (\<lambda>field. str_of (map_of args field) \<noteq> None) ACTOR_FIELD_PRIORITY)"

definition defaultAllowlist :: "(string \<Rightarrow> abi) \<Rightarrow> (string \<Rightarrow> ustring) \<Rightarrow> allowed_method list" where
  "defaultAllowlist abis address =
     concat (map (\<lambda>contract.
        map (\<lambda>(method, entry, ro). \<lparr>am_contract = contract, am_address = address contract, am_method = method, am_entry = entry\<rparr>)
          (filter (\<lambda>(method, entry, ro). \<not> (ro \<or> method \<in> set ADMIN_METHODS)) (abis contract)))
        SPONSORED_CONTRACTS) @
     (case map_of (abis ''token'') ''support'' of
        None \<Rightarrow> []
      | Some (entry, ro) \<Rightarrow> [\<lparr>am_contract = ''token'', am_address = address ''token'', am_method = ''support'', am_entry = entry\<rparr>])"

text \<open>
  The parsed entries \<open>contract:method\<close> of an override; \<open>None\<close> is a \<open>PolicyError\<close>. A later entry for a
  method replaces an earlier one in its place, as \<open>Map.set\<close> does.
\<close>

definition put_entry :: "allowed_method list \<Rightarrow> allowed_method \<Rightarrow> allowed_method list" where
  "put_entry out e =
     (if list_ex (\<lambda>x. am_contract x = am_contract e \<and> am_method x = am_method e) out
      then map (\<lambda>x. if am_contract x = am_contract e \<and> am_method x = am_method e then e else x) out
      else out @ [e])"

fun add_names :: "abi \<Rightarrow> string \<Rightarrow> ustring \<Rightarrow> string list \<Rightarrow> allowed_method list \<Rightarrow> allowed_method list option" where
  "add_names methods contract address [] out = Some out"
| "add_names methods contract address (name # names) out =
     (case map_of methods name of
        None \<Rightarrow> None
      | Some (entry, ro) \<Rightarrow>
          if ro then None
          else add_names methods contract address names
            (put_entry out \<lparr>am_contract = contract, am_address = address, am_method = name, am_entry = entry\<rparr>))"

fun add_entries :: "(string \<Rightarrow> abi) \<Rightarrow> string list \<Rightarrow> (string \<Rightarrow> ustring) \<Rightarrow> (string \<times> string) list \<Rightarrow> allowed_method list \<Rightarrow>
    allowed_method list option" where
  "add_entries abis names address [] out = Some out"
| "add_entries abis names address ((contract, method) # entries) out =
     (if contract \<notin> set names then None
      else let methods = abis contract;
               wanted = (if method = ''*''
                         then map fst (filter (\<lambda>(m, entry, ro). \<not> ro \<and> m \<notin> set ADMIN_METHODS) methods)
                         else [method])
           in case add_names methods contract (address contract) wanted out of
                None \<Rightarrow> None
              | Some out' \<Rightarrow> add_entries abis names address entries out')"

definition parseAllowlist :: "(string \<Rightarrow> abi) \<Rightarrow> string list \<Rightarrow> (string \<Rightarrow> ustring) \<Rightarrow> (string \<times> string) list \<Rightarrow>
    allowed_method list option" where
  "parseAllowlist abis names address entries =
     (if entries = [] then None else add_entries abis names address entries [])"

text \<open>
  \<open>Allowlist\<close>: the entries sorted by contract and method (the names are lower-case ASCII, on which
  the locale's order is that of the code units) and indexed by address and entry point; of two
  entries with the same index the later one stands.
\<close>

definition allowlist_entries :: "allowed_method list \<Rightarrow> allowed_method list" where
  "allowlist_entries es = sort_key (\<lambda>e. (am_contract e, am_method e)) es"

definition lookup_allowed :: "allowed_method list \<Rightarrow> ustring \<Rightarrow> int \<Rightarrow> allowed_method option" where
  "lookup_allowed es address entry =
     foldl (\<lambda>found e. if am_address e = address \<and> am_entry e = entry then Some e else found) None (allowlist_entries es)"

section \<open>Validation\<close>

datatype refusal_category =
    Quota_exceeded | Method_not_allowed | Too_large | Chain_mismatch | Invalid_signature
  | Invalid_transaction | Temporarily_unavailable

definition STATUS_FOR_CATEGORY :: "refusal_category \<Rightarrow> nat" where
  "STATUS_FOR_CATEGORY c = (case c of Quota_exceeded \<Rightarrow> 429 | Method_not_allowed \<Rightarrow> 403 | Too_large \<Rightarrow> 413
     | Chain_mismatch \<Rightarrow> 400 | Invalid_signature \<Rightarrow> 400 | Invalid_transaction \<Rightarrow> 400 | Temporarily_unavailable \<Rightarrow> 503)"

type_synonym 'a checked = "refusal_category + 'a"
type_synonym ('w, 'a) checked_io = "'w \<Rightarrow> 'a checked \<times> 'w"

definition demand :: "bool \<Rightarrow> refusal_category \<Rightarrow> 'a checked \<Rightarrow> 'a checked" where
  "demand c cat k = (if c then k else Inl cat)"

definition also_check :: "'a checked \<Rightarrow> ('a \<Rightarrow> 'b checked) \<Rightarrow> 'b checked" where
  "also_check m k = (case m of Inl e \<Rightarrow> Inl e | Inr x \<Rightarrow> k x)"

lemma demand_Inr [simp]: "demand c cat k = Inr r \<longleftrightarrow> c \<and> k = Inr r"
  by (simp add: demand_def)

lemma demand_True [simp]: "demand True cat k = k"
  by (simp add: demand_def)

lemma also_check_Inr [simp]: "also_check m k = Inr r \<longleftrightarrow> (\<exists>x. m = Inr x \<and> k x = Inr r)"
  by (auto simp: also_check_def split: sum.splits)

lemma also_check_of_Inr [simp]: "also_check (Inr x) k = k x"
  by (simp add: also_check_def)

record call_json =
  cj_contract :: ustring
  cj_entry :: int
  cj_args :: ustring

record decoded_operation =
  do_contract :: string
  do_method :: string
  do_entry :: int
  do_args :: "(string \<times> json) list"

record validated_operation =
  vo_index :: nat
  vo_contract :: string
  vo_method :: string
  vo_entry :: int
  vo_contract_id :: ustring
  vo_bytes :: nat
  vo_actor :: "ustring option"
  vo_operation :: call_json

record owner_check =
  oc_index :: nat
  oc_account :: ustring

text \<open>The rebuilt header of a transaction, and the transaction handed to the signature recovery.\<close>

record clean_header =
  ch_chain :: ustring
  ch_rc :: json
  ch_nonce :: ustring
  ch_merkle :: ustring
  ch_payer :: ustring
  ch_payee :: ustring

record signed_transaction =
  st_id :: ustring
  st_header :: clean_header
  st_operations :: "call_json list"
  st_signatures :: "ustring list"

record 'w validation_context =
  vc_sponsor :: ustring
  vc_chain :: ustring
  vc_codec :: codec
  vc_decode :: "call_json \<Rightarrow> decoded_operation option"
  vc_allowed :: "allowed_method list"
  vc_max_bytes :: nat
  vc_max_rc :: int
  vc_max_ops :: nat
  vc_owner_of :: "(ustring \<Rightarrow> ('w, ustring option) io) option"
  vc_merkle :: "clean_header \<Rightarrow> call_json list \<Rightarrow> ustring option js" \<comment> \<open>\<open>Transaction.prepareTransaction\<close>\<close>
  vc_tx_id :: "clean_header \<Rightarrow> ustring js"
  vc_recover :: "signed_transaction \<Rightarrow> ustring list js"

definition MAX_SIGNATURES :: nat where "MAX_SIGNATURES = 8"

text \<open>\<open>/^[A-Za-z0-9_-]+={0,2}$/\<close>\<close>

definition base64url_unit :: "u16 \<Rightarrow> bool" where
  "base64url_unit c \<longleftrightarrow> (0x41 \<le> c \<and> c \<le> 0x5a) \<or> (0x61 \<le> c \<and> c \<le> 0x7a) \<or> (0x30 \<le> c \<and> c \<le> 0x39) \<or> c = 0x5f \<or> c = 0x2d"

definition base64url_text :: "ustring \<Rightarrow> bool" where
  "base64url_text s \<longleftrightarrow>
     (let body = takeWhile base64url_unit s; rest = dropWhile base64url_unit s
      in body \<noteq> [] \<and> (rest = [] \<or> rest = [0x3d] \<or> rest = [0x3d, 0x3d]))"

definition argsLength :: "codec \<Rightarrow> json option \<Rightarrow> nat checked" where
  "argsLength cd args =
     (case args of
        None \<Rightarrow> Inr 0
      | Some J_null \<Rightarrow> Inr 0
      | Some (J_str s) \<Rightarrow>
          if s = [] then Inr 0
          else demand (base64url_text s) Invalid_transaction
            (case decode_base64url cd s of Inr b \<Rightarrow> Inr (length b) | Inl _ \<Rightarrow> Inl Invalid_transaction)
      | _ \<Rightarrow> Inl Invalid_transaction)"

text \<open>
  The body of the loop of \<open>inspectOperations\<close> for one operation: the validated operation and, when
  the actor is neither the payee nor a signing device, the owner lookup still to run.
\<close>

definition bind_actor :: "'w validation_context \<Rightarrow> ustring \<Rightarrow> nat \<Rightarrow> decoded_operation \<Rightarrow>
    (ustring option \<times> owner_check option) checked" where
  "bind_actor ctx payee index decoded =
     (case actorField (do_contract decoded) (do_method decoded) (do_args decoded) of
        None \<Rightarrow> Inr (None, None)
      | Some field \<Rightarrow>
          let device = (if deviceMaySign (do_contract decoded) (do_method decoded)
                        then (case str_of (map_of (do_args decoded) ''device'') of None \<Rightarrow> None | Some d \<Rightarrow> if d \<noteq> [] then Some d else None)
                        else None)
          in (case str_of (map_of (do_args decoded) field) of
                None \<Rightarrow> Inl Invalid_transaction
              | Some value \<Rightarrow>
                  demand (value \<noteq> []) Invalid_transaction
                   (if value = payee then Inr (Some value, None)
                    else if device = Some payee then Inr (device, None)
                    else if device = None \<and> vc_owner_of ctx \<noteq> None
                    then Inr (None, Some \<lparr>oc_index = index, oc_account = value\<rparr>)
                    else Inl Invalid_transaction)))"

definition inspect_call :: "'w validation_context \<Rightarrow> ustring \<Rightarrow> nat \<Rightarrow> (string \<times> json) list \<Rightarrow>
    (validated_operation \<times> owner_check option) checked" where
  "inspect_call ctx payee index call =
     (case str_of (map_of call ''contract_id'') of
        None \<Rightarrow> Inl Invalid_transaction
      | Some target \<Rightarrow>
     demand (isAddress (vc_codec ctx) target) Invalid_transaction
     (case int_of (map_of call ''entry_point'') of
        None \<Rightarrow> Inl Invalid_transaction
      | Some entry \<Rightarrow>
     demand (0 \<le> entry) Invalid_transaction
     (case lookup_allowed (vc_allowed ctx) target entry of
        None \<Rightarrow> Inl Method_not_allowed
      | Some allowed \<Rightarrow>
     also_check (argsLength (vc_codec ctx) (map_of call ''args'')) (\<lambda>bytes.
     demand (\<not> bytes > vc_max_bytes ctx) Too_large
     (let operation = \<lparr>cj_contract = target, cj_entry = entry,
            cj_args = (case str_of (map_of call ''args'') of None \<Rightarrow> [] | Some s \<Rightarrow> s)\<rparr>
      in case vc_decode ctx operation of
           None \<Rightarrow> Inl Invalid_transaction
         | Some decoded \<Rightarrow>
     demand (do_method decoded = am_method allowed \<and> do_contract decoded = am_contract allowed) Method_not_allowed
     (also_check (bind_actor ctx payee index decoded) (\<lambda>(actor, pending).
      Inr (\<lparr>vo_index = index, vo_contract = do_contract decoded, vo_method = do_method decoded,
             vo_entry = do_entry decoded, vo_contract_id = target, vo_bytes = bytes,
             vo_actor = actor, vo_operation = operation\<rparr>, pending))))))))"

definition inspect_one :: "'w validation_context \<Rightarrow> ustring \<Rightarrow> nat \<Rightarrow> json \<Rightarrow> (validated_operation \<times> owner_check option) checked" where
  "inspect_one ctx payee index raw =
     (case raw of
        J_obj members \<Rightarrow>
          (case members of
             [(key, J_obj call)] \<Rightarrow> demand (key = ''call_contract'') Method_not_allowed (inspect_call ctx payee index call)
           | _ \<Rightarrow> Inl Method_not_allowed)
      | _ \<Rightarrow> Inl Invalid_transaction)"

fun inspect_loop :: "'w validation_context \<Rightarrow> ustring \<Rightarrow> nat \<Rightarrow> json list \<Rightarrow>
    (validated_operation list \<times> owner_check list) checked" where
  "inspect_loop ctx payee index [] = Inr ([], [])"
| "inspect_loop ctx payee index (raw # rest) =
     also_check (inspect_one ctx payee index raw) (\<lambda>(op, check).
     also_check (inspect_loop ctx payee (Suc index) rest) (\<lambda>(ops, checks).
     Inr (op # ops, (case check of None \<Rightarrow> checks | Some c \<Rightarrow> c # checks))))"

definition inspectOperations :: "'w validation_context \<Rightarrow> json option \<Rightarrow> ustring \<Rightarrow>
    (validated_operation list \<times> owner_check list) checked" where
  "inspectOperations ctx operations payee =
     (case operations of
        Some (J_arr ops) \<Rightarrow>
          demand (ops \<noteq> []) Invalid_transaction
         (demand (\<not> length ops > vc_max_ops ctx) Too_large (inspect_loop ctx payee 0 ops))
      | _ \<Rightarrow> Inl Invalid_transaction)"

text \<open>\<open>resolveOwners\<close>: one lookup per account, remembered in \<open>owners\<close>; each binds its operation.\<close>

fun resolve_loop :: "'w validation_context \<Rightarrow> ustring \<Rightarrow> (ustring \<rightharpoonup> ustring option) \<Rightarrow> owner_check list \<Rightarrow>
    validated_operation list \<Rightarrow> ('w, validated_operation list) checked_io" where
  "resolve_loop ctx payee owners [] ops w = (Inr ops, w)"
| "resolve_loop ctx payee owners (c # cs) ops w =
     (let (answer, w1) = (case owners (oc_account c) of
            Some known \<Rightarrow> (Inr known, w)
          | None \<Rightarrow> (case vc_owner_of ctx of
                       None \<Rightarrow> (Inr None, w)
                     | Some ownerOf \<Rightarrow> ownerOf (oc_account c) w))
      in case answer of
           Inl e \<Rightarrow> (Inl Temporarily_unavailable, w1)
         | Inr owner \<Rightarrow>
             if owner \<noteq> Some payee then (Inl Invalid_transaction, w1)
             else resolve_loop ctx payee (owners(oc_account c \<mapsto> owner)) cs
               (if oc_index c < length ops
                then ops[oc_index c := (ops ! oc_index c)\<lparr>vo_actor := Some (oc_account c)\<rparr>] else ops) w1)"

definition validateOperations :: "'w validation_context \<Rightarrow> json option \<Rightarrow> ustring \<Rightarrow> ('w, validated_operation list) checked_io" where
  "validateOperations ctx operations payee w =
     (case inspectOperations ctx operations payee of
        Inl e \<Rightarrow> (Inl e, w)
      | Inr (ops, pending) \<Rightarrow> resolve_loop ctx payee Map.empty pending ops w)"

definition parseRcLimit :: "json option \<Rightarrow> int checked" where
  "parseRcLimit value =
     (case value of
        Some (J_int n) \<Rightarrow> if 0 \<le> n then Inr n else Inl Invalid_transaction
      | Some (J_str s) \<Rightarrow> if s \<noteq> [] \<and> list_all is_digit s then Inr (digits_value s) else Inl Invalid_transaction
      | _ \<Rightarrow> Inl Invalid_transaction)"

definition text_of :: "json option \<Rightarrow> ustring checked" where
  "text_of v = (case str_of v of None \<Rightarrow> Inl Invalid_transaction | Some s \<Rightarrow> if s \<noteq> [] then Inr s else Inl Invalid_transaction)"

fun signature_texts :: "json list \<Rightarrow> ustring list option" where
  "signature_texts [] = Some []"
| "signature_texts (J_str s # rest) =
     (if s = [] then None else map_option (\<lambda>ss. s # ss) (signature_texts rest))"
| "signature_texts (_ # rest) = None"

text \<open>The checks of a transaction that need no network: header, operations, identity, signatures.\<close>

definition check_header :: "'w validation_context \<Rightarrow> (string \<times> json) list \<Rightarrow> (ustring \<times> ustring \<times> ustring) checked" where
  "check_header ctx header =
     demand (map_of header ''chain_id'' = Some (J_str (vc_chain ctx))) Chain_mismatch
    (demand (map_of header ''payer'' = Some (J_str (vc_sponsor ctx))) Invalid_transaction
    (case str_of (map_of header ''payee'') of
       None \<Rightarrow> Inl Invalid_transaction
     | Some payee \<Rightarrow>
         demand (isAddress (vc_codec ctx) payee) Invalid_transaction
        (demand (payee \<noteq> vc_sponsor ctx) Invalid_transaction
        (also_check (text_of (map_of header ''nonce'')) (\<lambda>nonce.
         also_check (text_of (map_of header ''operation_merkle_root'')) (\<lambda>root.
         Inr (payee, nonce, root)))))))"

text \<open>The signatures: at most eight texts, one of which recovers to the payee and none to the sponsor.\<close>

definition check_signatures :: "'w validation_context \<Rightarrow> clean_header \<Rightarrow> call_json list \<Rightarrow> ustring \<Rightarrow> json option \<Rightarrow>
    (signed_transaction \<times> ustring list) checked" where
  "check_signatures ctx cleanHeader ops expectedId given =
     (case given of
        Some (J_arr sigs) \<Rightarrow>
          (case signature_texts sigs of
             None \<Rightarrow> Inl Invalid_signature
           | Some signatures \<Rightarrow>
               demand (signatures \<noteq> []) Invalid_signature
              (demand (\<not> length signatures > MAX_SIGNATURES) Invalid_transaction
              (let transaction = \<lparr>st_id = expectedId, st_header = cleanHeader, st_operations = ops, st_signatures = signatures\<rparr>
               in case vc_recover ctx transaction of
                    Inl e \<Rightarrow> Inl Invalid_signature
                  | Inr signers \<Rightarrow>
                      demand (ch_payee cleanHeader \<in> set signers) Invalid_signature
                     (demand (vc_sponsor ctx \<notin> set signers) Invalid_transaction (Inr (transaction, signers))))))
      | _ \<Rightarrow> Inl Invalid_signature)"

text \<open>The header and id against what they were recomputed from.\<close>

definition check_identity :: "'w validation_context \<Rightarrow> clean_header \<Rightarrow> call_json list \<Rightarrow> json option \<Rightarrow> ustring checked" where
  "check_identity ctx cleanHeader ops given_id =
     (case vc_merkle ctx cleanHeader ops of
        Inl e \<Rightarrow> Inl Invalid_transaction
      | Inr recomputed \<Rightarrow>
          demand (recomputed = Some (ch_merkle cleanHeader)) Invalid_signature
         (case vc_tx_id ctx cleanHeader of
            Inl e \<Rightarrow> Inl Invalid_transaction
          | Inr expectedId \<Rightarrow> demand (given_id = Some (J_str expectedId)) Invalid_signature (Inr expectedId)))"

definition check_transaction :: "'w validation_context \<Rightarrow> (string \<times> json) list \<Rightarrow>
    (signed_transaction \<times> ustring \<times> validated_operation list \<times> owner_check list \<times> ustring list) checked" where
  "check_transaction ctx inp =
     (case map_of inp ''header'' of
        Some (J_obj header) \<Rightarrow>
          also_check (check_header ctx header) (\<lambda>(payee, nonce, root).
          also_check (inspectOperations ctx (map_of inp ''operations'') payee) (\<lambda>(operations, pending).
          also_check (parseRcLimit (map_of header ''rc_limit'')) (\<lambda>rcLimit.
          demand (\<not> rcLimit > vc_max_rc ctx * int (length operations)) Too_large
         (let cleanHeader = \<lparr>ch_chain = vc_chain ctx, ch_rc = the (map_of header ''rc_limit''), ch_nonce = nonce, ch_merkle = root,
                ch_payer = vc_sponsor ctx, ch_payee = payee\<rparr>;
              ops = map vo_operation operations
          in also_check (check_identity ctx cleanHeader ops (map_of inp ''id'')) (\<lambda>expectedId.
             also_check (check_signatures ctx cleanHeader ops expectedId (map_of inp ''signatures'')) (\<lambda>(transaction, signers).
             Inr (transaction, payee, operations, pending, signers)))))))
      | _ \<Rightarrow> Inl Invalid_transaction)"

record validated_transaction =
  vt_transaction :: signed_transaction
  vt_payee :: ustring
  vt_operations :: "validated_operation list"
  vt_signers :: "ustring list"

definition validateTransaction :: "'w validation_context \<Rightarrow> json \<Rightarrow> ('w, validated_transaction) checked_io" where
  "validateTransaction ctx inp w =
     (case inp of
        J_obj members \<Rightarrow>
          (case check_transaction ctx members of
             Inl e \<Rightarrow> (Inl e, w)
           | Inr (transaction, payee, operations, pending, signers) \<Rightarrow>
               (case resolve_loop ctx payee Map.empty pending operations w of
                  (Inl e, w') \<Rightarrow> (Inl e, w')
                | (Inr ops, w') \<Rightarrow>
                    (Inr \<lparr>vt_transaction = transaction, vt_payee = payee, vt_operations = ops, vt_signers = signers\<rparr>, w')))
      | _ \<Rightarrow> (Inl Invalid_transaction, w))"

section \<open>What an accepted transaction satisfies\<close>

text \<open>The chain names the payee as the owner of an account.\<close>

definition owner_answers :: "'w validation_context \<Rightarrow> ustring \<Rightarrow> ustring \<Rightarrow> bool" where
  "owner_answers ctx payee account \<longleftrightarrow>
     (\<exists>ownerOf x y. vc_owner_of ctx = Some ownerOf \<and> ownerOf account x = (Inr (Some payee), y))"

text \<open>The account a decoded operation acts for is the payee, or the payee may act for it.\<close>

definition acts_as :: "'w validation_context \<Rightarrow> ustring \<Rightarrow> decoded_operation \<Rightarrow> bool" where
  "acts_as ctx payee decoded \<longleftrightarrow>
     (case actorField (do_contract decoded) (do_method decoded) (do_args decoded) of
        None \<Rightarrow> True
      | Some field \<Rightarrow> \<exists>v. map_of (do_args decoded) field = Some (J_str v) \<and> v \<noteq> [] \<and>
          (v = payee \<or>
           deviceMaySign (do_contract decoded) (do_method decoded) \<and> map_of (do_args decoded) ''device'' = Some (J_str payee) \<or>
           owner_answers ctx payee v))"

text \<open>Everything but the actor binding.\<close>

definition op_inspected :: "'w validation_context \<Rightarrow> validated_operation \<Rightarrow> decoded_operation \<Rightarrow> bool" where
  "op_inspected ctx op decoded \<longleftrightarrow>
     (\<exists>allowed. lookup_allowed (vc_allowed ctx) (vo_contract_id op) (cj_entry (vo_operation op)) = Some allowed \<and>
        am_contract allowed = vo_contract op \<and> am_method allowed = vo_method op) \<and>
     vo_bytes op \<le> vc_max_bytes ctx \<and> cj_contract (vo_operation op) = vo_contract_id op \<and>
     vc_decode ctx (vo_operation op) = Some decoded \<and> do_contract decoded = vo_contract op \<and> do_method decoded = vo_method op"

definition op_ok :: "'w validation_context \<Rightarrow> ustring \<Rightarrow> validated_operation \<Rightarrow> bool" where
  "op_ok ctx payee op \<longleftrightarrow> (\<exists>decoded. op_inspected ctx op decoded \<and> acts_as ctx payee decoded)"

lemma op_ok_actor: "op_ok ctx payee (op\<lparr>vo_actor := a\<rparr>) = op_ok ctx payee op"
  by (simp add: op_ok_def op_inspected_def)

lemma bind_actor_Inr:
  assumes "bind_actor ctx payee index decoded = Inr (actor, pending)"
  shows "case pending of
      None \<Rightarrow> acts_as ctx payee decoded
    | Some c \<Rightarrow> owner_answers ctx payee (oc_account c) \<longrightarrow> acts_as ctx payee decoded"
  using assms
  by (auto simp: bind_actor_def acts_as_def Let_def split: option.splits json.splits if_splits)

lemma inspect_call_Inr:
  assumes "inspect_call ctx payee index call = Inr (op, pending)"
  shows "\<exists>decoded. op_inspected ctx op decoded \<and> bind_actor ctx payee index decoded = Inr (vo_actor op, pending)"
  using assms
  by (auto simp: inspect_call_def op_inspected_def Let_def split: option.splits)

lemma inspect_one_Inr:
  assumes "inspect_one ctx payee index raw = Inr (op, pending)"
  shows "\<exists>decoded. op_inspected ctx op decoded \<and> bind_actor ctx payee index decoded = Inr (vo_actor op, pending)"
proof -
  from assms obtain call where "inspect_call ctx payee index call = Inr (op, pending)"
    by (auto simp: inspect_one_def split: json.splits list.splits)
  then show ?thesis by (rule inspect_call_Inr)
qed

lemma inspect_one_ok:
  assumes "inspect_one ctx payee index raw = Inr (op, pending)"
    and "\<And>c. pending = Some c \<Longrightarrow> owner_answers ctx payee (oc_account c)"
  shows "op_ok ctx payee op"
proof -
  from inspect_one_Inr [OF assms(1)] obtain decoded where d: "op_inspected ctx op decoded"
    and b: "bind_actor ctx payee index decoded = Inr (vo_actor op, pending)" by blast
  from bind_actor_Inr [OF b] assms(2) have "acts_as ctx payee decoded"
    by (auto split: option.splits)
  with d show ?thesis by (auto simp: op_ok_def)
qed

lemma inspect_loop_ok:
  assumes "inspect_loop ctx payee index raws = Inr (ops, checks)"
    and "\<And>c. c \<in> set checks \<Longrightarrow> owner_answers ctx payee (oc_account c)"
  shows "length ops = length raws" "\<forall>op \<in> set ops. op_ok ctx payee op"
proof -
  have "length ops = length raws \<and> (\<forall>op \<in> set ops. op_ok ctx payee op)"
    using assms
  proof (induction raws arbitrary: index ops checks)
    case (Cons raw raws)
    then obtain op pending ops' checks' where one: "inspect_one ctx payee index raw = Inr (op, pending)"
      and rest: "inspect_loop ctx payee (Suc index) raws = Inr (ops', checks')"
      and eq: "ops = op # ops'" "checks = (case pending of None \<Rightarrow> checks' | Some c \<Rightarrow> c # checks')"
      by auto
    have "op_ok ctx payee op" using Cons.prems(2) eq(2) by (intro inspect_one_ok [OF one]) auto
    moreover have "length ops' = length raws \<and> (\<forall>op \<in> set ops'. op_ok ctx payee op)"
      using Cons.prems(2) eq(2) by (intro Cons.IH [OF rest]) (auto split: option.splits)
    ultimately show ?case by (simp add: eq(1))
  qed simp
  then show "length ops = length raws" "\<forall>op \<in> set ops. op_ok ctx payee op" by blast+
qed

text \<open>The lookups change nothing but the actors, and when they pass every account answered the payee.\<close>

lemma resolve_loop_Inr:
  assumes "resolve_loop ctx payee owners cs ops w = (Inr ops', w')"
    and "\<And>a. owners a = Some (Some payee) \<Longrightarrow> owner_answers ctx payee a"
  shows "map (\<lambda>op. op\<lparr>vo_actor := None\<rparr>) ops' = map (\<lambda>op. op\<lparr>vo_actor := None\<rparr>) ops"
    "\<forall>c \<in> set cs. owner_answers ctx payee (oc_account c)"
proof -
  let ?strip = "map (\<lambda>op :: validated_operation. op\<lparr>vo_actor := None\<rparr>)"
  have "?strip ops' = ?strip ops \<and> (\<forall>c \<in> set cs. owner_answers ctx payee (oc_account c))"
    using assms
  proof (induction cs arbitrary: owners ops w)
    case (Cons c cs)
    define next_ops where "next_ops = (if oc_index c < length ops
       then ops[oc_index c := (ops ! oc_index c)\<lparr>vo_actor := Some (oc_account c)\<rparr>] else ops)"
    have strip: "?strip next_ops = ?strip ops"
      by (auto simp: next_ops_def nth_list_update intro!: nth_equalityI)
    from Cons.prems(1) obtain owner w1 where
      a: "(case owners (oc_account c) of Some known \<Rightarrow> (Inr known, w) | None \<Rightarrow>
            (case vc_owner_of ctx of None \<Rightarrow> (Inr None, w) | Some ownerOf \<Rightarrow> ownerOf (oc_account c) w)) = (Inr owner, w1)"
      and owner: "owner = Some payee"
      and rest: "resolve_loop ctx payee (owners(oc_account c \<mapsto> owner)) cs next_ops w1 = (Inr ops', w')"
      by (auto simp: Let_def next_ops_def split: prod.splits sum.splits if_splits)
    have here: "owner_answers ctx payee (oc_account c)"
      using a owner Cons.prems(2) by (auto simp: owner_answers_def split: option.splits)
    have "?strip ops' = ?strip next_ops \<and> (\<forall>c \<in> set cs. owner_answers ctx payee (oc_account c))"
      by (rule Cons.IH [OF rest]) (use here Cons.prems(2) in \<open>auto split: if_splits\<close>)
    with strip here show ?case by simp
  qed simp
  then show "?strip ops' = ?strip ops" "\<forall>c \<in> set cs. owner_answers ctx payee (oc_account c)" by blast+
qed

lemma strip_ok:
  assumes "map (\<lambda>op. op\<lparr>vo_actor := None\<rparr>) ops' = map (\<lambda>op. op\<lparr>vo_actor := None\<rparr>) ops"
    and "\<forall>op \<in> set ops. op_ok ctx payee op"
  shows "length ops' = length ops" "\<forall>op \<in> set ops'. op_ok ctx payee op" "map vo_operation ops' = map vo_operation ops"
proof -
  show len: "length ops' = length ops" using assms(1) by (metis length_map)
  have "\<forall>op \<in> set (map (\<lambda>op. op\<lparr>vo_actor := None\<rparr>) ops). op_ok ctx payee op" using assms(2) by (simp add: op_ok_actor)
  then show "\<forall>op \<in> set ops'. op_ok ctx payee op" unfolding assms(1) [symmetric] by (simp add: op_ok_actor)
  have "map vo_operation (map (\<lambda>op. op\<lparr>vo_actor := None\<rparr>) ops') = map vo_operation (map (\<lambda>op. op\<lparr>vo_actor := None\<rparr>) ops)"
    using assms(1) by simp
  then show "map vo_operation ops' = map vo_operation ops" by (simp add: comp_def)
qed

lemma resolved_ok:
  assumes "inspectOperations ctx operations payee = Inr (ops, pending)"
    and "resolve_loop ctx payee Map.empty pending ops w = (Inr out, w')"
  shows "out \<noteq> []" "length out \<le> vc_max_ops ctx" "\<forall>op \<in> set out. op_ok ctx payee op" "map vo_operation out = map vo_operation ops"
    "length out = length ops"
proof -
  note r = resolve_loop_Inr [OF assms(2)]
  from assms(1) obtain raws where raws: "raws \<noteq> []" "length raws \<le> vc_max_ops ctx" "inspect_loop ctx payee 0 raws = Inr (ops, pending)"
    by (auto simp: inspectOperations_def split: option.splits json.splits)
  note i = inspect_loop_ok [OF raws(3)]
  have ops: "length ops = length raws" "\<forall>op \<in> set ops. op_ok ctx payee op" using i r(2) by auto
  note s = strip_ok [OF r(1) ops(2)]
  show "out \<noteq> []" "length out \<le> vc_max_ops ctx" "\<forall>op \<in> set out. op_ok ctx payee op" "map vo_operation out = map vo_operation ops"
    "length out = length ops"
    using s ops(1) raws(1,2) by auto
qed

text \<open>
  What the sponsor agrees to pay for is inside its policy. When a list of operations is
  accepted for a payee it is not empty and not longer than the limit; every operation is on the
  allowlist under the contract and method its arguments were decoded for, its arguments fit the
  byte ceiling, and the account it acts for is the payee itself, or names the payee as the device
  signing for it (never where the device is the subject of the call), or is an identity whose
  current owner the chain says is the payee.
\<close>

theorem validated_operations_bound:
  assumes "validateOperations ctx operations payee w = (Inr out, w')"
  shows "out \<noteq> [] \<and> length out \<le> vc_max_ops ctx \<and> (\<forall>op \<in> set out. op_ok ctx payee op)"
proof -
  from assms obtain ops pending where "inspectOperations ctx operations payee = Inr (ops, pending)"
    "resolve_loop ctx payee Map.empty pending ops w = (Inr out, w')"
    by (auto simp: validateOperations_def split: sum.splits prod.splits)
  from resolved_ok [OF this] show ?thesis by blast
qed

lemma check_identity_Inr:
  "check_identity ctx h ops given_id = Inr i \<Longrightarrow>
     vc_merkle ctx h ops = Inr (Some (ch_merkle h)) \<and> vc_tx_id ctx h = Inr i \<and> given_id = Some (J_str i)"
  by (auto simp: check_identity_def split: sum.splits)

lemma check_signatures_Inr:
  "check_signatures ctx h ops i given = Inr (tx, signers) \<Longrightarrow>
     st_id tx = i \<and> st_header tx = h \<and> st_operations tx = ops \<and> st_signatures tx \<noteq> [] \<and> length (st_signatures tx) \<le> 8 \<and>
     vc_recover ctx tx = Inr signers \<and> ch_payee h \<in> set signers \<and> vc_sponsor ctx \<notin> set signers"
  by (auto simp: check_signatures_def Let_def MAX_SIGNATURES_def split: option.splits json.splits sum.splits)

lemma check_transaction_Inr:
  assumes "check_transaction ctx inp = Inr (tx, payee, operations, pending, signers)"
  shows "inspectOperations ctx (map_of inp ''operations'') payee = Inr (operations, pending)"
    "ch_payer (st_header tx) = vc_sponsor ctx" "ch_payee (st_header tx) = payee" "payee \<noteq> vc_sponsor ctx"
    "ch_chain (st_header tx) = vc_chain ctx" "vc_tx_id ctx (st_header tx) = Inr (st_id tx)"
    "st_operations tx = map vo_operation operations"
    "vc_merkle ctx (st_header tx) (st_operations tx) = Inr (Some (ch_merkle (st_header tx)))"
    "\<exists>n. parseRcLimit (Some (ch_rc (st_header tx))) = Inr n \<and> n \<le> vc_max_rc ctx * int (length operations)"
    "vc_recover ctx tx = Inr signers" "payee \<in> set signers" "vc_sponsor ctx \<notin> set signers"
    "st_signatures tx \<noteq> []" "length (st_signatures tx) \<le> 8"
proof -
  from assms obtain header nonce root rc where h: "map_of inp ''header'' = Some (J_obj header)"
    and hd: "check_header ctx header = Inr (payee, nonce, root)"
    and ops: "inspectOperations ctx (map_of inp ''operations'') payee = Inr (operations, pending)"
    and rc: "parseRcLimit (map_of header ''rc_limit'') = Inr rc" "rc \<le> vc_max_rc ctx * int (length operations)"
    and hdr: "st_header tx = \<lparr>ch_chain = vc_chain ctx, ch_rc = the (map_of header ''rc_limit''), ch_nonce = nonce, ch_merkle = root,
                ch_payer = vc_sponsor ctx, ch_payee = payee\<rparr>"
    and m: "vc_merkle ctx (st_header tx) (map vo_operation operations) = Inr (Some root)"
    and i: "vc_tx_id ctx (st_header tx) = Inr (st_id tx)"
    and s: "vc_recover ctx tx = Inr signers" "payee \<in> set signers" "vc_sponsor ctx \<notin> set signers"
      "st_signatures tx \<noteq> []" "length (st_signatures tx) \<le> 8" "st_operations tx = map vo_operation operations"
    by (fastforce simp: check_transaction_def Let_def dest!: check_identity_Inr check_signatures_Inr split: option.splits json.splits)
  have "\<exists>v. map_of header ''rc_limit'' = Some v" using rc(1) by (auto simp: parseRcLimit_def split: option.splits)
  with rc show "\<exists>n. parseRcLimit (Some (ch_rc (st_header tx))) = Inr n \<and> n \<le> vc_max_rc ctx * int (length operations)"
    by (auto simp: hdr)
  have "payee \<noteq> vc_sponsor ctx" using hd by (auto simp: check_header_def split: option.splits json.splits)
  then show "payee \<noteq> vc_sponsor ctx" .
  show "inspectOperations ctx (map_of inp ''operations'') payee = Inr (operations, pending)" by (fact ops)
  show "ch_payer (st_header tx) = vc_sponsor ctx" "ch_payee (st_header tx) = payee" "ch_chain (st_header tx) = vc_chain ctx"
    by (simp_all add: hdr)
  show "vc_tx_id ctx (st_header tx) = Inr (st_id tx)" "st_operations tx = map vo_operation operations"
    "vc_recover ctx tx = Inr signers" "payee \<in> set signers" "vc_sponsor ctx \<notin> set signers"
    "st_signatures tx \<noteq> []" "length (st_signatures tx) \<le> 8"
    by (fact i s)+
  show "vc_merkle ctx (st_header tx) (st_operations tx) = Inr (Some (ch_merkle (st_header tx)))"
    using m s(6) hdr by simp
qed

text \<open>
  C31: Only what the user signed is paid for, and only within the sponsor's limits. A transaction
  that validates names the sponsor as payer and somebody else as payee on the sponsor's chain, its
  merkle root and id are those of exactly the operations and header accepted, a signature of it
  recovers to the payee and none to the sponsor, its resource limit is at most the ceiling per
  operation times their number, and all its operations are acceptable for that payee.
\<close>

theorem validated_transaction_signed:
  assumes "validateTransaction ctx inp w = (Inr vt, w')"
  shows "ch_payer (st_header (vt_transaction vt)) = vc_sponsor ctx \<and> ch_payee (st_header (vt_transaction vt)) = vt_payee vt \<and>
    vt_payee vt \<noteq> vc_sponsor ctx \<and> ch_chain (st_header (vt_transaction vt)) = vc_chain ctx \<and>
    st_operations (vt_transaction vt) = map vo_operation (vt_operations vt) \<and>
    vc_merkle ctx (st_header (vt_transaction vt)) (st_operations (vt_transaction vt)) =
      Inr (Some (ch_merkle (st_header (vt_transaction vt)))) \<and>
    vc_tx_id ctx (st_header (vt_transaction vt)) = Inr (st_id (vt_transaction vt)) \<and>
    vc_recover ctx (vt_transaction vt) = Inr (vt_signers vt) \<and>
    vt_payee vt \<in> set (vt_signers vt) \<and> vc_sponsor ctx \<notin> set (vt_signers vt) \<and>
    (\<exists>n. parseRcLimit (Some (ch_rc (st_header (vt_transaction vt)))) = Inr n \<and>
       n \<le> vc_max_rc ctx * int (length (vt_operations vt))) \<and>
    (\<forall>op \<in> set (vt_operations vt). op_ok ctx (vt_payee vt) op)"
proof -
  from assms obtain members tx payee ops pending signers out where
    c: "check_transaction ctx members = Inr (tx, payee, ops, pending, signers)"
    and r: "resolve_loop ctx payee Map.empty pending ops w = (Inr out, w')"
    and vt: "vt = \<lparr>vt_transaction = tx, vt_payee = payee, vt_operations = out, vt_signers = signers\<rparr>"
    by (auto simp: validateTransaction_def split: json.splits sum.splits prod.splits)
  note f = check_transaction_Inr [OF c]
  note o = resolved_ok [OF f(1) r]
  show ?thesis unfolding vt using f(2-12) o(3-5) by simp
qed

text \<open>
  A forged request costs no call to the chain. Unless the request is a transaction that passed
  every check on its own bytes, with a signature that recovers to its payee, validating it leaves
  the world outside as it was: the owner lookups are never reached.
\<close>

theorem lookups_after_signature:
  assumes "validateTransaction ctx inp w = (res, w')" and "w' \<noteq> w"
  shows "\<exists>members tx payee ops pending signers. inp = J_obj members \<and>
    check_transaction ctx members = Inr (tx, payee, ops, pending, signers) \<and>
    vc_recover ctx tx = Inr signers \<and> payee \<in> set signers \<and> ch_payee (st_header tx) = payee \<and>
    vc_tx_id ctx (st_header tx) = Inr (st_id tx) \<and> pending \<noteq> []"
proof -
  from assms obtain members tx payee ops pending signers where
    m: "inp = J_obj members" "check_transaction ctx members = Inr (tx, payee, ops, pending, signers)"
    and r: "\<exists>res'. resolve_loop ctx payee Map.empty pending ops w = (res', w')"
    by (auto simp: validateTransaction_def split: json.splits sum.splits prod.splits)
  have "pending \<noteq> []" using r assms(2) by auto
  with m check_transaction_Inr [OF m(2)] show ?thesis by blast
qed

lemma lookup_foldl:
  "foldl (\<lambda>found e. if Q e then Some e else found) init es = Some m \<Longrightarrow> init = Some m \<or> m \<in> set es \<and> Q m"
  by (induction es arbitrary: init) (auto split: if_splits)

text \<open>
  The default policy funds no administration. Whatever the interfaces and addresses, an entry
  point the default allowlist accepts is that of a method which is not one of the administrative
  ones, of the contract at that address, and is either a writing method of one of the five social
  contracts or the token's \<open>support\<close>.
\<close>

theorem default_allowlist_safe:
  assumes "lookup_allowed (defaultAllowlist abis address) target entry = Some m"
  shows "target = address (am_contract m) \<and> entry = am_entry m \<and> am_method m \<notin> set ADMIN_METHODS \<and>
    (am_contract m \<in> set SPONSORED_CONTRACTS \<and> (am_method m, am_entry m, False) \<in> set (abis (am_contract m)) \<or>
     am_contract m = ''token'' \<and> am_method m = ''support'')"
proof -
  from assms have m: "m \<in> set (defaultAllowlist abis address)" "am_address m = target" "am_entry m = entry"
    using lookup_foldl [of "\<lambda>e. am_address e = target \<and> am_entry e = entry" None "allowlist_entries (defaultAllowlist abis address)" m]
    by (simp_all add: lookup_allowed_def) (simp add: allowlist_entries_def)
  show ?thesis
    using m by (auto simp: defaultAllowlist_def ADMIN_METHODS_def split: option.splits)
qed

section \<open>The properties at concrete inputs\<close>

text \<open>A follow of the account named by the text \<open>A\<close>, signed by it and paid by \<open>S\<close>.\<close>

definition demo_address :: "ustring \<Rightarrow> ustring" where
  "demo_address who = who @ replicate 24 49"

definition demo_context :: "nat validation_context" where
  "demo_context = \<lparr>vc_sponsor = demo_address [83], vc_chain = [67], vc_codec = \<lparr>decode_base58 = (\<lambda>s. Inr (map ucast s)),
       encode_base58 = map ucast, decode_base64url = (\<lambda>s. Inr (map ucast s)), noble_sha256 = id\<rparr>,
     vc_decode = (\<lambda>c. Some \<lparr>do_contract = ''relationships'', do_method = ''follow'', do_entry = 7,
       do_args = [(''follower'', J_str (demo_address [82])), (''device'', J_str [])]\<rparr>),
     vc_allowed = [\<lparr>am_contract = ''relationships'', am_address = demo_address [75], am_method = ''follow'', am_entry = 7\<rparr>],
     vc_max_bytes = 10, vc_max_rc = 100, vc_max_ops = 2,
     vc_owner_of = Some (\<lambda>a w. (Inr (Some (demo_address [65])), Suc w)),
     vc_merkle = (\<lambda>h ops. Inr (Some [77])), vc_tx_id = (\<lambda>h. Inr [73]), vc_recover = (\<lambda>tx. Inr [demo_address [65]])\<rparr>"

definition demo_operations :: json where
  "demo_operations = J_arr [J_obj [(''call_contract'', J_obj [(''contract_id'', J_str (demo_address [75])),
     (''entry_point'', J_int 7), (''args'', J_str [65])])]]"

definition demo_request :: json where
  "demo_request = J_obj [(''id'', J_str [73]),
     (''header'', J_obj [(''chain_id'', J_str [67]), (''payer'', J_str (demo_address [83])), (''payee'', J_str (demo_address [65])),
        (''nonce'', J_str [49]), (''operation_merkle_root'', J_str [77]), (''rc_limit'', J_int 50)]),
     (''operations'', demo_operations), (''signatures'', J_arr [J_str [88]])]"

definition demo_validated :: validated_operation where
  "demo_validated = \<lparr>vo_index = 0, vo_contract = ''relationships'', vo_method = ''follow'', vo_entry = 7,
     vo_contract_id = demo_address [75], vo_bytes = 1, vo_actor = None,
     vo_operation = \<lparr>cj_contract = demo_address [75], cj_entry = 7, cj_args = [65]\<rparr>\<rparr>"

lemma demo_address_simps [simp]: "demo_address [a] = demo_address [b] \<longleftrightarrow> a = b" "demo_address x \<noteq> []" "length (demo_address [a]) = 25"
  by (simp_all add: demo_address_def)

lemma demo_inspected:
  "inspectOperations demo_context (Some demo_operations) (demo_address [65]) =
     Inr ([demo_validated], [\<lparr>oc_index = 0, oc_account = demo_address [82]\<rparr>])"
  by (simp add: inspectOperations_def demo_operations_def inspect_one_def inspect_call_def demo_context_def str_of_def int_of_def
      isAddress_def LIMIT_addressBytes_def lookup_allowed_def allowlist_entries_def argsLength_def base64url_text_def
      base64url_unit_def bind_actor_def actorField_def ACTOR_FIELDS_def deviceMaySign_def DEVICE_IS_SUBJECT_def Let_def demo_validated_def)

lemma demo_resolved:
  "resolve_loop demo_context (demo_address [65]) Map.empty [\<lparr>oc_index = 0, oc_account = demo_address [82]\<rparr>] [demo_validated] 0 =
     (Inr [demo_validated\<lparr>vo_actor := Some (demo_address [82])\<rparr>], 1)"
  by (simp add: demo_context_def)

theorem validated_operations_bound_witness:
  "\<exists>out. validateOperations demo_context (Some demo_operations) (demo_address [65]) 0 = (Inr out, 1) \<and>
     out \<noteq> [] \<and> (\<forall>op \<in> set out. op_ok demo_context (demo_address [65]) op)"
proof -
  have v: "validateOperations demo_context (Some demo_operations) (demo_address [65]) 0 =
      (Inr [demo_validated\<lparr>vo_actor := Some (demo_address [82])\<rparr>], 1)"
    by (simp add: validateOperations_def demo_inspected demo_resolved del: resolve_loop.simps)
  from validated_operations_bound [OF v] v show ?thesis by blast
qed

lemma demo_checked: "\<exists>members r. demo_request = J_obj members \<and> check_transaction demo_context members =
    Inr (r, demo_address [65], [demo_validated], [\<lparr>oc_index = 0, oc_account = demo_address [82]\<rparr>], [demo_address [65]])"
proof -
  have ctx: "vc_sponsor demo_context = demo_address [83]" "vc_chain demo_context = [67]" "vc_max_rc demo_context = 100"
    "vc_merkle demo_context = (\<lambda>h ops. Inr (Some [77]))" "vc_tx_id demo_context = (\<lambda>h. Inr [73])"
    "vc_recover demo_context = (\<lambda>tx. Inr [demo_address [65]])" "isAddress (vc_codec demo_context) (demo_address [65])"
    by (simp_all add: demo_context_def isAddress_def LIMIT_addressBytes_def)
  show ?thesis
    unfolding demo_request_def
    by (simp add: check_transaction_def check_header_def check_identity_def check_signatures_def ctx demo_inspected text_of_def str_of_def
        parseRcLimit_def MAX_SIGNATURES_def Let_def)
qed

lemma demo_validation: "\<exists>vt. validateTransaction demo_context demo_request 0 = (Inr vt, 1)"
proof -
  obtain members r where m: "demo_request = J_obj members" and c: "check_transaction demo_context members =
      Inr (r, demo_address [65], [demo_validated], [\<lparr>oc_index = 0, oc_account = demo_address [82]\<rparr>], [demo_address [65]])"
    using demo_checked by blast
  show ?thesis unfolding validateTransaction_def m by (simp add: c demo_resolved del: resolve_loop.simps)
qed

theorem validated_transaction_signed_witness:
  "\<exists>vt. validateTransaction demo_context demo_request 0 = (Inr vt, 1) \<and> vt_payee vt \<in> set (vt_signers vt)"
proof -
  obtain vt where v: "validateTransaction demo_context demo_request 0 = (Inr vt, 1)" using demo_validation by blast
  from validated_transaction_signed [OF v] v show ?thesis by blast
qed

theorem lookups_after_signature_witness:
  "\<exists>members r. demo_request = J_obj members \<and> check_transaction demo_context members = Inr r"
proof -
  obtain vt where v: "validateTransaction demo_context demo_request 0 = (Inr vt, 1)" using demo_validation by blast
  have "(1 :: nat) \<noteq> 0" by simp
  from lookups_after_signature [OF v this] show ?thesis by blast
qed

definition demo_abis :: "string \<Rightarrow> abi" where
  "demo_abis contract = (if contract = ''identity'' then [(''register'', 1, False), (''init'', 2, False)] else [])"

theorem default_allowlist_safe_witness:
  "\<exists>m. lookup_allowed (defaultAllowlist demo_abis (\<lambda>_. [73])) [73] 1 = Some m \<and> am_method m \<notin> set ADMIN_METHODS"
proof -
  obtain m where m: "lookup_allowed (defaultAllowlist demo_abis (\<lambda>_. [73])) [73] 1 = Some m"
    by (simp add: lookup_allowed_def allowlist_entries_def defaultAllowlist_def SPONSORED_CONTRACTS_def demo_abis_def ADMIN_METHODS_def)
  from default_allowlist_safe [OF m] m show ?thesis by blast
qed

end
