(* ===== verification/Quota.thy ===== *)
theory Quota
  imports Encoding "HOL-Library.AList"
begin

text \<open>
  The quota store of the sponsor service (\<open>apps/sponsor/src/quota.ts\<close>): the usage table and the
  daily counters of the SQLite database, the burst windows in memory, and reservations, whose
  closures \<open>commit\<close> and \<open>release\<close> settle them once. A UTC day is its number since the epoch; the
  table is an association list, so that its rows can be counted.
\<close>

section \<open>State\<close>

record quota_limits =
  ql_daily :: nat
  ql_burst :: nat
  ql_window :: int \<comment> \<open>seconds\<close>

record usage_row =
  ur_ops :: nat
  ur_txs :: nat
  ur_reverted :: nat
  ur_rc :: int
  ur_updated :: int

text \<open>An entry of a burst window; the number stands for the identity of the object.\<close>

record burst_entry =
  be_id :: nat
  be_at :: int
  be_ops :: nat

text \<open>
  A reservation handed out: what its closures captured, and whether one of them has run
  (\<open>settled\<close> in the code is anything but \<open>Held\<close>).
\<close>

datatype fate = Held | Committed | Released

record reservation =
  rv_user :: ustring
  rv_ops :: nat
  rv_at :: int
  rv_entry :: burst_entry
  rv_fate :: fate

record quota_state =
  usage :: "((ustring \<times> int) \<times> usage_row) list"
  counters :: "int \<times> string \<rightharpoonup> int"
  bursts :: "ustring \<rightharpoonup> burst_entry list"
  reservations :: "reservation list"
  fresh_id :: nat

definition quota_empty :: quota_state where
  "quota_empty = \<lparr>usage = [], counters = Map.empty, bursts = Map.empty, reservations = [], fresh_id = 0\<rparr>"

record broadcast_usage =
  bu_rc :: "ustring option"
  bu_reverted :: bool

record quota_remaining =
  rem_daily :: nat
  rem_burst :: nat

datatype quota_decision =
    Allowed quota_remaining
  | Daily_exceeded int quota_remaining \<comment> \<open>with \<open>retryAfterSec\<close>\<close>
  | Burst_exceeded int quota_remaining

section \<open>Reading\<close>

definition utcDay :: "int \<Rightarrow> int" where
  "utcDay ms = ms div 86400000"

definition dailyOps :: "ustring \<Rightarrow> int \<Rightarrow> quota_state \<Rightarrow> nat" where
  "dailyOps user at st = (case map_of (usage st) (user, utcDay at) of None \<Rightarrow> 0 | Some row \<Rightarrow> ur_ops row)"

definition window_of :: "ustring \<Rightarrow> quota_state \<Rightarrow> burst_entry list" where
  "window_of user st = (case bursts st user of None \<Rightarrow> [] | Some w \<Rightarrow> w)"

definition set_window :: "ustring \<Rightarrow> burst_entry list \<Rightarrow> quota_state \<Rightarrow> quota_state" where
  "set_window user w st = st\<lparr>bursts := (bursts st)(user := (if w = [] then None else Some w))\<rparr>"

definition burstWindow :: "quota_limits \<Rightarrow> ustring \<Rightarrow> int \<Rightarrow> quota_state \<Rightarrow> burst_entry list \<times> quota_state" where
  "burstWindow limits user at st =
     (let cutoff = at - ql_window limits * 1000;
          kept = filter (\<lambda>entry. be_at entry > cutoff) (window_of user st)
      in (kept, set_window user kept st))"

definition burstOps :: "quota_limits \<Rightarrow> ustring \<Rightarrow> int \<Rightarrow> quota_state \<Rightarrow> nat \<times> quota_state" where
  "burstOps limits user at st =
     (let (kept, st') = burstWindow limits user at st in (foldl (\<lambda>sum entry. sum + be_ops entry) 0 kept, st'))"

definition ceil_div :: "int \<Rightarrow> int \<Rightarrow> int" where
  "ceil_div a b = - ((- a) div b)"

definition check :: "quota_limits \<Rightarrow> ustring \<Rightarrow> nat \<Rightarrow> int \<Rightarrow> quota_state \<Rightarrow> quota_decision \<times> quota_state" where
  "check limits user ops at st =
     (let daily = dailyOps user at st;
          (window, st1) = burstWindow limits user at st;
          burst = foldl (\<lambda>sum entry. sum + be_ops entry) 0 window;
          remaining = \<lparr>rem_daily = ql_daily limits - daily, rem_burst = ql_burst limits - burst\<rparr>
      in if daily + ops > ql_daily limits
         then let nextDay = (utcDay at + 1) * 86400000
              in (Daily_exceeded (max 1 (ceil_div (nextDay - at) 1000)) remaining, st1)
         else if burst + ops > ql_burst limits
         then let oldest = (case window of [] \<Rightarrow> at | e # _ \<Rightarrow> be_at e)
              in (Burst_exceeded (max 1 (ceil_div (oldest + ql_window limits * 1000 - at) 1000)) remaining, st1)
         else (Allowed remaining, st1))"

section \<open>Writing\<close>

text \<open>\<open>INSERT ... ON CONFLICT(user, day) DO UPDATE\<close>\<close>

definition upsert :: "ustring \<Rightarrow> int \<Rightarrow> usage_row \<Rightarrow> (usage_row \<Rightarrow> usage_row) \<Rightarrow> quota_state \<Rightarrow> quota_state" where
  "upsert user day row change st =
     st\<lparr>usage := AList.update (user, day)
          (case map_of (usage st) (user, day) of None \<Rightarrow> row | Some old \<Rightarrow> change old) (usage st)\<rparr>"

definition bump :: "int \<Rightarrow> string \<Rightarrow> int \<Rightarrow> quota_state \<Rightarrow> quota_state" where
  "bump day key n st =
     st\<lparr>counters := (counters st)((day, key) \<mapsto> (case counters st (day, key) of None \<Rightarrow> n | Some v \<Rightarrow> v + n))\<rparr>"

definition hold :: "ustring \<Rightarrow> nat \<Rightarrow> int \<Rightarrow> quota_state \<Rightarrow> burst_entry \<times> quota_state" where
  "hold user ops at st =
     (let day = utcDay at;
          st1 = upsert user day \<lparr>ur_ops = ops, ur_txs = 0, ur_reverted = 0, ur_rc = 0, ur_updated = at\<rparr>
                  (\<lambda>row. row\<lparr>ur_ops := ur_ops row + ops, ur_updated := at\<rparr>) st;
          entry = \<lparr>be_id = fresh_id st, be_at = at, be_ops = ops\<rparr>
      in (entry, (set_window user (window_of user st1 @ [entry]) st1)\<lparr>fresh_id := Suc (fresh_id st)\<rparr>))"

definition unhold :: "ustring \<Rightarrow> burst_entry \<Rightarrow> quota_state \<Rightarrow> quota_state" where
  "unhold user entry st =
     (let day = utcDay (be_at entry);
          t1 = (case map_of (usage st) (user, day) of
                  None \<Rightarrow> usage st
                | Some row \<Rightarrow> AList.update (user, day)
                    (row\<lparr>ur_ops := ur_ops row - be_ops entry, ur_updated := be_at entry\<rparr>) (usage st));
          t2 = filter (\<lambda>(k, row). \<not> (k = (user, day) \<and> ur_ops row = 0 \<and> ur_txs row = 0)) t1;
          st1 = st\<lparr>usage := t2\<rparr>
      in case bursts st1 user of
           None \<Rightarrow> st1
         | Some window \<Rightarrow> set_window user (remove1 entry window) st1)"

text \<open>\<open>Number(usage.rcUsed ?? "0")\<close> when that is a safe integer, for the decimal text of a receipt.\<close>

definition rc_number :: "ustring option \<Rightarrow> int" where
  "rc_number rc = (case rc of None \<Rightarrow> 0 | Some s \<Rightarrow>
     (case decimal_text s of None \<Rightarrow> 0 | Some n \<Rightarrow> if \<bar>n\<bar> \<le> 9007199254740991 then n else 0))"

definition settle :: "ustring \<Rightarrow> nat \<Rightarrow> broadcast_usage \<Rightarrow> int \<Rightarrow> quota_state \<Rightarrow> quota_state" where
  "settle user ops u at st =
     (let day = utcDay at;
          rc = rc_number (bu_rc u);
          reverted = (if bu_reverted u then 1 else 0);
          st1 = upsert user day \<lparr>ur_ops = 0, ur_txs = 1, ur_reverted = reverted, ur_rc = rc, ur_updated = at\<rparr>
                  (\<lambda>row. row\<lparr>ur_txs := ur_txs row + 1, ur_reverted := ur_reverted row + reverted,
                            ur_rc := ur_rc row + rc, ur_updated := at\<rparr>) st;
          st2 = bump day ''accepted'' 1 st1;
          st3 = bump day ''accepted_ops'' (int ops) st2;
          st4 = (if bu_reverted u then bump day ''reverted'' 1 st3 else st3)
      in if rc > 0 then bump day ''rc_used'' rc st4 else st4)"

text \<open>\<open>reserve\<close>: a decision, and the number of the reservation when it is granted.\<close>

definition reserve :: "quota_limits \<Rightarrow> ustring \<Rightarrow> nat \<Rightarrow> int \<Rightarrow> quota_state \<Rightarrow> (quota_decision \<times> nat option) \<times> quota_state" where
  "reserve limits user ops at st =
     (let (decision, st1) = check limits user ops at st
      in case decision of
           Allowed remaining \<Rightarrow>
             let (entry, st2) = hold user ops at st1;
                 left = \<lparr>rem_daily = rem_daily remaining - ops, rem_burst = rem_burst remaining - ops\<rparr>;
                 r = \<lparr>rv_user = user, rv_ops = ops, rv_at = at, rv_entry = entry, rv_fate = Held\<rparr>
             in ((Allowed left, Some (length (reservations st2))), st2\<lparr>reservations := reservations st2 @ [r]\<rparr>)
         | refused \<Rightarrow> ((refused, None), st1))"

definition with_fate :: "nat \<Rightarrow> fate \<Rightarrow> quota_state \<Rightarrow> quota_state" where
  "with_fate i f st = st\<lparr>reservations := (reservations st)[i := (reservations st ! i)\<lparr>rv_fate := f\<rparr>]\<rparr>"

definition commit :: "nat \<Rightarrow> broadcast_usage \<Rightarrow> quota_state \<Rightarrow> quota_state" where
  "commit i u st =
     (if i < length (reservations st) then
        let r = reservations st ! i
        in if rv_fate r \<noteq> Held then st
           else settle (rv_user r) (rv_ops r) u (rv_at r) (with_fate i Committed st)
      else st)"

definition release :: "nat \<Rightarrow> quota_state \<Rightarrow> quota_state" where
  "release i st =
     (if i < length (reservations st) then
        let r = reservations st ! i
        in if rv_fate r \<noteq> Held then st
           else unhold (rv_user r) (rv_entry r) (with_fate i Released st)
      else st)"

definition recordAccepted :: "ustring \<Rightarrow> nat \<Rightarrow> broadcast_usage \<Rightarrow> int \<Rightarrow> quota_state \<Rightarrow> quota_state" where
  "recordAccepted user ops u at st = settle user ops u at (snd (hold user ops at st))"

definition recordRefusal :: "string \<Rightarrow> int \<Rightarrow> quota_state \<Rightarrow> quota_state" where
  "recordRefusal category at st = bump (utcDay at) (''refused:'' @ category) 1 st"

section \<open>Utilization\<close>

definition SPONSOR_ERROR_CATEGORIES :: "string list" where
  "SPONSOR_ERROR_CATEGORIES = [''quota_exceeded'', ''method_not_allowed'', ''too_large'', ''chain_mismatch'',
     ''invalid_signature'', ''invalid_transaction'', ''temporarily_unavailable'']"

record day_utilization =
  du_day :: int
  du_accepted :: int
  du_accepted_ops :: int
  du_reverted :: int
  du_rc_used :: int
  du_refused :: "(string \<times> int) list"
  du_refused_total :: int
  du_users :: nat

definition counter :: "int \<Rightarrow> string \<Rightarrow> quota_state \<Rightarrow> int" where
  "counter day key st = (case counters st (day, key) of None \<Rightarrow> 0 | Some v \<Rightarrow> v)"

definition day_of :: "int \<Rightarrow> quota_state \<Rightarrow> day_utilization" where
  "day_of day st =
     (let refused = map (\<lambda>c. (c, counter day (''refused:'' @ c) st)) SPONSOR_ERROR_CATEGORIES
      in \<lparr>du_day = day, du_accepted = counter day ''accepted'' st, du_accepted_ops = counter day ''accepted_ops'' st,
          du_reverted = counter day ''reverted'' st, du_rc_used = counter day ''rc_used'' st,
          du_refused = refused, du_refused_total = sum_list (map snd refused),
          du_users = length (filter (\<lambda>((user, d), row). d = day) (usage st))\<rparr>)"

definition utilization :: "int \<Rightarrow> quota_state \<Rightarrow> day_utilization \<times> day_utilization" where
  "utilization at st = (day_of (utcDay at) st, day_of (utcDay (at - 86400000)) st)"

section \<open>Histories\<close>

datatype quota_call =
    Q_reserve ustring nat int
  | Q_commit nat broadcast_usage
  | Q_release nat
  | Q_check ustring nat int
  | Q_burst_ops ustring int
  | Q_refusal string int
  | Q_record_accepted ustring nat broadcast_usage int

fun quota_step :: "quota_limits \<Rightarrow> quota_call \<Rightarrow> quota_state \<Rightarrow> quota_state" where
  "quota_step limits (Q_reserve user ops at) st = snd (reserve limits user ops at st)"
| "quota_step limits (Q_commit i u) st = commit i u st"
| "quota_step limits (Q_release i) st = release i st"
| "quota_step limits (Q_check user ops at) st = snd (check limits user ops at st)"
| "quota_step limits (Q_burst_ops user at) st = snd (burstOps limits user at st)"
| "quota_step limits (Q_refusal category at) st = recordRefusal category at st"
| "quota_step limits (Q_record_accepted user ops u at) st = recordAccepted user ops u at st"

abbreviation quota_after :: "quota_limits \<Rightarrow> quota_call list \<Rightarrow> quota_state" where
  "quota_after limits cs \<equiv> fold (quota_step limits) cs quota_empty"

section \<open>What the operations do to the observations\<close>

definition used :: "ustring \<Rightarrow> int \<Rightarrow> quota_state \<Rightarrow> nat" where
  "used user day st = (case map_of (usage st) (user, day) of None \<Rightarrow> 0 | Some row \<Rightarrow> ur_ops row)"

lemma dailyOps_used: "dailyOps user at st = used user (utcDay at) st"
  by (simp add: dailyOps_def used_def)

lemma used_same: "usage st' = usage st \<Longrightarrow> used u d st' = used u d st"
  by (simp add: used_def)

lemma used_upsert:
  "used u d (upsert user day row change st) =
     (if u = user \<and> d = day then ur_ops (case map_of (usage st) (user, day) of None \<Rightarrow> row | Some old \<Rightarrow> change old)
      else used u d st)"
  by (auto simp: used_def upsert_def update_conv')

lemma upsert_fields [simp]:
  "counters (upsert user day row change st) = counters st" "bursts (upsert user day row change st) = bursts st"
  "reservations (upsert user day row change st) = reservations st" "fresh_id (upsert user day row change st) = fresh_id st"
  "distinct (map fst (usage st)) \<Longrightarrow> distinct (map fst (usage (upsert user day row change st)))"
  by (simp_all add: upsert_def distinct_update)

lemma set_window_fields [simp]:
  "counters (set_window user w st) = counters st" "usage (set_window user w st) = usage st"
  "reservations (set_window user w st) = reservations st" "fresh_id (set_window user w st) = fresh_id st"
  "window_of u (set_window user w st) = (if u = user then w else window_of u st)"
  by (simp_all add: set_window_def window_of_def)

lemma bump_fields [simp]:
  "usage (bump d k n st) = usage st" "bursts (bump d k n st) = bursts st" "reservations (bump d k n st) = reservations st"
  "fresh_id (bump d k n st) = fresh_id st" "counter d' k' (bump d k n st) = (if d' = d \<and> k' = k then counter d' k' st + n else counter d' k' st)"
  by (auto simp: bump_def counter_def split: option.split)

lemma with_fate_fields [simp]:
  "usage (with_fate i f st) = usage st" "bursts (with_fate i f st) = bursts st" "counters (with_fate i f st) = counters st"
  "fresh_id (with_fate i f st) = fresh_id st"
  "reservations (with_fate i f st) = (reservations st)[i := (reservations st ! i)\<lparr>rv_fate := f\<rparr>]"
  by (simp_all add: with_fate_def)

lemma same_windows: "bursts st' = bursts st \<Longrightarrow> window_of u st' = window_of u st"
  by (simp add: window_of_def)

lemma same_counter: "counters st' = counters st \<Longrightarrow> counter d k st' = counter d k st"
  by (simp add: counter_def)

lemma settle_fields:
  "bursts (settle user ops u at st) = bursts st" "reservations (settle user ops u at st) = reservations st"
  "fresh_id (settle user ops u at st) = fresh_id st" "used v d (settle user ops u at st) = used v d st"
  "distinct (map fst (usage st)) \<Longrightarrow> distinct (map fst (usage (settle user ops u at st)))"
  "counter d ''accepted'' (settle user ops u at st) = counter d ''accepted'' st + (if d = utcDay at then 1 else 0)"
  "counter d ''accepted_ops'' (settle user ops u at st) = counter d ''accepted_ops'' st + (if d = utcDay at then int ops else 0)"
proof -
  define rc where "rc = rc_number (bu_rc u)"
  define rev :: nat where "rev = (if bu_reverted u then 1 else 0)"
  define st1 where "st1 = upsert user (utcDay at) \<lparr>ur_ops = 0, ur_txs = 1, ur_reverted = rev, ur_rc = rc, ur_updated = at\<rparr>
                  (\<lambda>row. row\<lparr>ur_txs := ur_txs row + 1, ur_reverted := ur_reverted row + rev,
                            ur_rc := ur_rc row + rc, ur_updated := at\<rparr>) st"
  define st3 where "st3 = bump (utcDay at) ''accepted_ops'' (int ops) (bump (utcDay at) ''accepted'' 1 st1)"
  define st4 where "st4 = (if bu_reverted u then bump (utcDay at) ''reverted'' 1 st3 else st3)"
  have s: "settle user ops u at st = (if rc > 0 then bump (utcDay at) ''rc_used'' rc st4 else st4)"
    unfolding settle_def Let_def st4_def st3_def st1_def rc_def rev_def by simp
  have us: "usage (settle user ops u at st) = usage st1" by (simp add: s st4_def st3_def)
  show "bursts (settle user ops u at st) = bursts st" "reservations (settle user ops u at st) = reservations st"
    "fresh_id (settle user ops u at st) = fresh_id st"
    by (simp_all add: s st4_def st3_def st1_def)
  have "used v d st1 = used v d st" by (simp add: st1_def used_upsert) (simp add: used_def split: option.split)
  then show "used v d (settle user ops u at st) = used v d st" using used_same [OF us] by simp
  show "distinct (map fst (usage (settle user ops u at st)))" if "distinct (map fst (usage st))"
    using that unfolding us by (simp add: st1_def)
  have c: "counter d' k st1 = counter d' k st" for k d' by (rule same_counter) (simp add: st1_def)
  show "counter d ''accepted'' (settle user ops u at st) = counter d ''accepted'' st + (if d = utcDay at then 1 else 0)"
    "counter d ''accepted_ops'' (settle user ops u at st) = counter d ''accepted_ops'' st + (if d = utcDay at then int ops else 0)"
    by (simp_all add: s st4_def st3_def c)
qed

lemma hold_fields:
  "fst (hold user ops at st) = \<lparr>be_id = fresh_id st, be_at = at, be_ops = ops\<rparr>"
  "reservations (snd (hold user ops at st)) = reservations st" "fresh_id (snd (hold user ops at st)) = Suc (fresh_id st)"
  "counters (snd (hold user ops at st)) = counters st"
  "window_of u (snd (hold user ops at st)) =
     (if u = user then window_of user st @ [\<lparr>be_id = fresh_id st, be_at = at, be_ops = ops\<rparr>] else window_of u st)"
  "used u d (snd (hold user ops at st)) = used u d st + (if u = user \<and> d = utcDay at then ops else 0)"
  "distinct (map fst (usage st)) \<Longrightarrow> distinct (map fst (usage (snd (hold user ops at st))))"
proof -
  have w: "window_of u (x\<lparr>fresh_id := n\<rparr>) = window_of u x" "used u d (x\<lparr>fresh_id := n\<rparr>) = used u d x" for x n
    by (simp_all add: window_of_def used_def)
  have s: "used u d (set_window v ws x) = used u d x" for v ws x by (simp add: used_def)
  show "fst (hold user ops at st) = \<lparr>be_id = fresh_id st, be_at = at, be_ops = ops\<rparr>"
    "reservations (snd (hold user ops at st)) = reservations st" "fresh_id (snd (hold user ops at st)) = Suc (fresh_id st)"
    "counters (snd (hold user ops at st)) = counters st"
    "distinct (map fst (usage st)) \<Longrightarrow> distinct (map fst (usage (snd (hold user ops at st))))"
    by (simp_all add: hold_def Let_def)
  show "window_of u (snd (hold user ops at st)) =
     (if u = user then window_of user st @ [\<lparr>be_id = fresh_id st, be_at = at, be_ops = ops\<rparr>] else window_of u st)"
    by (simp add: hold_def Let_def w same_windows [OF upsert_fields(2)])
  show "used u d (snd (hold user ops at st)) = used u d st + (if u = user \<and> d = utcDay at then ops else 0)"
    by (simp add: hold_def Let_def w s used_upsert) (simp add: used_def split: option.split)
qed

lemma map_of_drop:
  "distinct (map fst t) \<Longrightarrow> map_of (filter (\<lambda>(k, row). \<not> (k = q \<and> P row)) t) =
     (map_of t)(q := (case map_of t q of None \<Rightarrow> None | Some row \<Rightarrow> if P row then None else Some row))"
proof (induction t)
  case (Cons x t)
  have "map_of t q = None" if "fst x = q" using Cons.prems that by (simp add: map_of_eq_None_iff)
  with Cons show ?case by (cases x) (auto simp: fun_eq_iff split: option.split)
qed auto

lemma unhold_fields:
  "reservations (unhold user e st) = reservations st" "fresh_id (unhold user e st) = fresh_id st"
  "counters (unhold user e st) = counters st"
  "window_of u (unhold user e st) = (if u = user then remove1 e (window_of user st) else window_of u st)"
  "distinct (map fst (usage st)) \<Longrightarrow> used u d (unhold user e st) =
     (if u = user \<and> d = utcDay (be_at e) then used u d st - be_ops e else used u d st)"
  "distinct (map fst (usage st)) \<Longrightarrow> distinct (map fst (usage (unhold user e st)))"
proof -
  define t1 where "t1 = (case map_of (usage st) (user, utcDay (be_at e)) of
                  None \<Rightarrow> usage st
                | Some row \<Rightarrow> AList.update (user, utcDay (be_at e))
                    (row\<lparr>ur_ops := ur_ops row - be_ops e, ur_updated := be_at e\<rparr>) (usage st))"
  define t2 where "t2 = filter (\<lambda>(k, row). \<not> (k = (user, utcDay (be_at e)) \<and> (ur_ops row = 0 \<and> ur_txs row = 0))) t1"
  have u: "unhold user e st = (case bursts st user of
           None \<Rightarrow> st\<lparr>usage := t2\<rparr>
         | Some window \<Rightarrow> set_window user (remove1 e window) (st\<lparr>usage := t2\<rparr>))"
    unfolding unhold_def Let_def t2_def t1_def by simp
  show "reservations (unhold user e st) = reservations st" "fresh_id (unhold user e st) = fresh_id st"
    "counters (unhold user e st) = counters st"
    by (simp_all add: u split: option.split)
  show "window_of u (unhold user e st) = (if u = user then remove1 e (window_of user st) else window_of u st)"
    by (auto simp: u window_of_def set_window_def split: option.split)
  have us: "usage (unhold user e st) = t2" by (simp add: u split: option.split)
  show dist: "distinct (map fst (usage (unhold user e st)))" if d: "distinct (map fst (usage st))"
    unfolding us t2_def t1_def using d
    by (auto simp: distinct_map_filter distinct_update split: option.split)
  show "used u d (unhold user e st) =
     (if u = user \<and> d = utcDay (be_at e) then used u d st - be_ops e else used u d st)" if d: "distinct (map fst (usage st))"
  proof -
    have "distinct (map fst t1)" using d by (simp add: t1_def distinct_update split: option.split)
    note m = map_of_drop [OF this, of "(user, utcDay (be_at e))" "\<lambda>row. ur_ops row = 0 \<and> ur_txs row = 0", folded t2_def]
    show ?thesis
      unfolding used_def us m by (auto simp: t1_def update_conv' split: option.split)
  qed
qed

lemma check_fields:
  assumes "check limits user ops at st = (dec, st')"
  shows "st' = snd (burstWindow limits user at st)"
    "dec = Allowed rem \<Longrightarrow> used user (utcDay at) st + ops \<le> ql_daily limits \<and>
       foldl (\<lambda>sum e. sum + be_ops e) 0 (fst (burstWindow limits user at st)) + ops \<le> ql_burst limits"
  using assms by (auto simp: check_def Let_def dailyOps_used split: prod.splits if_splits)

lemma prune_fields:
  "usage (snd (burstWindow limits user at st)) = usage st" "reservations (snd (burstWindow limits user at st)) = reservations st"
  "counters (snd (burstWindow limits user at st)) = counters st" "fresh_id (snd (burstWindow limits user at st)) = fresh_id st"
  "window_of u (snd (burstWindow limits user at st)) =
     (if u = user then filter (\<lambda>e. be_at e > at - ql_window limits * 1000) (window_of user st) else window_of u st)"
  "fst (burstWindow limits user at st) = filter (\<lambda>e. be_at e > at - ql_window limits * 1000) (window_of user st)"
  by (simp_all add: burstWindow_def Let_def)

section \<open>Daily quotas\<close>

definition counts_for :: "ustring \<Rightarrow> int \<Rightarrow> reservation \<Rightarrow> bool" where
  "counts_for user day r \<longleftrightarrow> rv_user r = user \<and> utcDay (rv_at r) = day \<and> rv_fate r \<noteq> Released"

text \<open>The operations a user holds on a day: the reservations that were not released.\<close>

definition held :: "ustring \<Rightarrow> int \<Rightarrow> quota_state \<Rightarrow> nat" where
  "held user day st = sum_list (map (\<lambda>r. if counts_for user day r then rv_ops r else 0) (reservations st))"

definition entry_ok :: "reservation \<Rightarrow> bool" where
  "entry_ok r \<longleftrightarrow> be_at (rv_entry r) = rv_at r \<and> be_ops (rv_entry r) = rv_ops r"

lemma entry_ok_fate [simp]: "entry_ok (r\<lparr>rv_fate := f\<rparr>) = entry_ok r"
  by (simp add: entry_ok_def)

lemma ball_update: "\<forall>x \<in> set xs. P x \<Longrightarrow> P y \<Longrightarrow> \<forall>x \<in> set (xs[i := y]). P x"
  by (auto dest!: set_update_subset_insert [THEN subsetD])

text \<open>The operations that \<open>recordAccepted\<close> charges to a user for a day, without a reservation and whatever the limit.\<close>

fun charge_of :: "ustring \<Rightarrow> int \<Rightarrow> quota_call \<Rightarrow> nat" where
  "charge_of user day (Q_record_accepted v ops u at) = (if v = user \<and> utcDay at = day then ops else 0)"
| "charge_of user day _ = 0"

definition direct_ops :: "ustring \<Rightarrow> int \<Rightarrow> quota_call list \<Rightarrow> nat" where
  "direct_ops user day cs = sum_list (map (charge_of user day) cs)"

text \<open>The invariant after direct charges \<open>D\<close>.\<close>

definition quota_inv :: "quota_limits \<Rightarrow> (ustring \<Rightarrow> int \<Rightarrow> nat) \<Rightarrow> quota_state \<Rightarrow> bool" where
  "quota_inv limits D st \<longleftrightarrow> distinct (map fst (usage st)) \<and>
     (\<forall>user day. used user day st = held user day st + D user day \<and> held user day st \<le> ql_daily limits) \<and>
     (\<forall>r \<in> set (reservations st). entry_ok r)"

lemma held_same: "reservations st' = reservations st \<Longrightarrow> held u d st' = held u d st"
  by (simp add: held_def)

lemma held_append: "reservations st' = reservations st @ [r] \<Longrightarrow>
    held u d st' = held u d st + (if counts_for u d r then rv_ops r else 0)"
  by (simp add: held_def)

lemma total_update:
  fixes f :: "reservation \<Rightarrow> nat"
  assumes "i < length rs"
  shows "sum_list (map f (rs[i := r])) + f (rs ! i) = sum_list (map f rs) + f r"
proof -
  have "f (rs ! i) \<le> sum_list (map f rs)"
    using assms by (metis elem_le_sum_list length_map nth_map)
  then show ?thesis using assms by (simp add: map_update sum_list_update)
qed

lemma held_update:
  assumes "i < length (reservations st)" and "reservations st' = (reservations st)[i := r']"
  shows "held u d st' + (if counts_for u d (reservations st ! i) then rv_ops (reservations st ! i) else 0) =
    held u d st + (if counts_for u d r' then rv_ops r' else 0)"
  using total_update [OF assms(1), of "\<lambda>r. if counts_for u d r then rv_ops r else 0"] assms(2) by (simp add: held_def)

fun direct_call :: "quota_call \<Rightarrow> bool" where
  "direct_call (Q_record_accepted _ _ _ _) = True"
| "direct_call _ = False"

lemma reserve_cases [consumes 1, case_names refused granted]:
  assumes "st' = snd (reserve limits user ops at st)"
  obtains (refused) "st' = snd (burstWindow limits user at st)"
  | (granted) st1 where "st1 = snd (burstWindow limits user at st)" "used user (utcDay at) st + ops \<le> ql_daily limits"
      "foldl (\<lambda>sum e. sum + be_ops e) 0 (fst (burstWindow limits user at st)) + ops \<le> ql_burst limits"
      "st' = (snd (hold user ops at st1))\<lparr>reservations := reservations st1 @
         [\<lparr>rv_user = user, rv_ops = ops, rv_at = at, rv_entry = fst (hold user ops at st1), rv_fate = Held\<rparr>]\<rparr>"
proof -
  obtain dec st1 where c: "check limits user ops at st = (dec, st1)" by fastforce
  note f = check_fields [OF c]
  show thesis
  proof (cases dec)
    case (Allowed rem)
    then have "st' = (snd (hold user ops at st1))\<lparr>reservations := reservations st1 @
         [\<lparr>rv_user = user, rv_ops = ops, rv_at = at, rv_entry = fst (hold user ops at st1), rv_fate = Held\<rparr>]\<rparr>"
      using assms c hold_fields(2) [of user ops at st1]
      by (cases "hold user ops at st1") (simp add: reserve_def)
    with f(2) [OF Allowed] f(1) show thesis by (intro granted [of st1]) simp_all
  next
    case (Daily_exceeded t rem)
    with assms c f(1) show thesis by (intro refused) (simp add: reserve_def)
  next
    case (Burst_exceeded t rem)
    with assms c f(1) show thesis by (intro refused) (simp add: reserve_def)
  qed
qed

lemma used_other [simp]: "used u d (x\<lparr>reservations := rs\<rparr>) = used u d x" by (simp add: used_def)
lemma held_other [simp]: "held u d (x\<lparr>reservations := rs\<rparr>) = sum_list (map (\<lambda>r. if counts_for u d r then rv_ops r else 0) rs)"
  by (simp add: held_def)

lemma quota_inv_same:
  "quota_inv limits D st \<Longrightarrow> usage st' = usage st \<Longrightarrow> reservations st' = reservations st \<Longrightarrow> quota_inv limits D st'"
  by (simp add: quota_inv_def used_def held_def)

lemma reserve_inv:
  assumes inv: "quota_inv limits D st"
  shows "quota_inv limits D (snd (reserve limits user ops at st))"
proof (cases rule: reserve_cases [OF refl, of limits user ops at st, case_names refused granted])
  case refused
  with inv show ?thesis by (simp add: quota_inv_same prune_fields)
next
  case (granted st1)
  have inv1: "quota_inv limits D st1" unfolding granted(1) using inv by (rule quota_inv_same) (simp_all add: prune_fields)
  have u1: "used user (utcDay at) st1 + ops \<le> ql_daily limits" using granted(1,2) by (simp add: used_def prune_fields)
  show ?thesis
    unfolding granted(4) quota_inv_def
  proof (intro conjI allI ballI)
    show "distinct (map fst (usage ((snd (hold user ops at st1))\<lparr>reservations := reservations st1 @
        [\<lparr>rv_user = user, rv_ops = ops, rv_at = at, rv_entry = fst (hold user ops at st1), rv_fate = Held\<rparr>]\<rparr>)))"
      using inv1 hold_fields(7) by (simp add: quota_inv_def)
  next
    fix r assume "r \<in> set (reservations ((snd (hold user ops at st1))\<lparr>reservations := reservations st1 @
        [\<lparr>rv_user = user, rv_ops = ops, rv_at = at, rv_entry = fst (hold user ops at st1), rv_fate = Held\<rparr>]\<rparr>))"
    then show "entry_ok r" using inv1 by (auto simp: quota_inv_def hold_fields(1) entry_ok_def)
  next
    fix u d
    let ?h = "sum_list (map (\<lambda>r. if counts_for u d r then rv_ops r else 0) (reservations st1))"
    have "used u d st1 = ?h + D u d" "?h \<le> ql_daily limits" using inv1 by (simp_all add: quota_inv_def held_def)
    then show "used u d ((snd (hold user ops at st1))\<lparr>reservations := reservations st1 @
        [\<lparr>rv_user = user, rv_ops = ops, rv_at = at, rv_entry = fst (hold user ops at st1), rv_fate = Held\<rparr>]\<rparr>) =
      held u d ((snd (hold user ops at st1))\<lparr>reservations := reservations st1 @
        [\<lparr>rv_user = user, rv_ops = ops, rv_at = at, rv_entry = fst (hold user ops at st1), rv_fate = Held\<rparr>]\<rparr>) + D u d"
      "held u d ((snd (hold user ops at st1))\<lparr>reservations := reservations st1 @
        [\<lparr>rv_user = user, rv_ops = ops, rv_at = at, rv_entry = fst (hold user ops at st1), rv_fate = Held\<rparr>]\<rparr>) \<le> ql_daily limits"
      using u1 by (auto simp: hold_fields(6) counts_for_def)
  qed
qed

lemma commit_inv:
  assumes inv: "quota_inv limits D st"
  shows "quota_inv limits D (commit i u st)"
proof (cases "i < length (reservations st) \<and> rv_fate (reservations st ! i) = Held")
  case True
  let ?r = "reservations st ! i"
  have c: "commit i u st = settle (rv_user ?r) (rv_ops ?r) u (rv_at ?r) (with_fate i Committed st)"
    using True by (simp add: commit_def Let_def)
  have rs: "reservations (commit i u st) = (reservations st)[i := ?r\<lparr>rv_fate := Committed\<rparr>]" by (simp add: c settle_fields)
  have h: "held v d (commit i u st) = held v d st" for v d
  proof -
    have "counts_for v d (?r\<lparr>rv_fate := Committed\<rparr>) = counts_for v d ?r" "rv_ops (?r\<lparr>rv_fate := Committed\<rparr>) = rv_ops ?r"
      using True by (simp_all add: counts_for_def)
    then show ?thesis using held_update [OF conjunct1 [OF True] rs, of v d] by (cases "counts_for v d ?r") simp_all
  qed
  have us: "used v d (commit i u st) = used v d st" for v d
    unfolding c settle_fields(4) by (rule used_same) simp
  have "\<forall>r \<in> set (reservations (commit i u st)). entry_ok r"
    unfolding rs using inv True by (intro ball_update) (simp_all add: quota_inv_def)
  moreover have "distinct (map fst (usage (commit i u st)))" unfolding c using inv by (intro settle_fields(5)) (simp add: quota_inv_def)
  ultimately show ?thesis using inv h us by (simp add: quota_inv_def)
next
  case False
  with inv show ?thesis by (auto simp: commit_def Let_def)
qed

lemma release_inv:
  assumes inv: "quota_inv limits D st"
  shows "quota_inv limits D (release i st)"
proof (cases "i < length (reservations st) \<and> rv_fate (reservations st ! i) = Held")
  case True
  let ?r = "reservations st ! i"
  have c: "release i st = unhold (rv_user ?r) (rv_entry ?r) (with_fate i Released st)"
    using True by (simp add: release_def Let_def)
  have e: "be_at (rv_entry ?r) = rv_at ?r" "be_ops (rv_entry ?r) = rv_ops ?r"
    using inv True by (simp_all add: quota_inv_def entry_ok_def)
  have dist: "distinct (map fst (usage (with_fate i Released st)))" using inv by (simp add: quota_inv_def)
  have rs: "reservations (release i st) = (reservations st)[i := ?r\<lparr>rv_fate := Released\<rparr>]" by (simp add: c unhold_fields)
  have h: "held v d (release i st) + (if counts_for v d ?r then rv_ops ?r else 0) = held v d st" for v d
  proof -
    have "\<not> counts_for v d (?r\<lparr>rv_fate := Released\<rparr>)" by (simp add: counts_for_def)
    then show ?thesis using held_update [OF conjunct1 [OF True] rs, of v d] by simp
  qed
  have us: "used v d (release i st) = (if counts_for v d ?r then used v d st - rv_ops ?r else used v d st)" for v d
    using True unhold_fields(5) [OF dist] e by (auto simp: c counts_for_def used_same [OF with_fate_fields(1)])
  have "\<forall>r \<in> set (reservations (release i st)). entry_ok r"
    unfolding rs using inv True by (intro ball_update) (simp_all add: quota_inv_def)
  moreover have "used v d (release i st) = held v d (release i st) + D v d \<and> held v d (release i st) \<le> ql_daily limits" for v d
  proof -
    have "used v d st = held v d st + D v d" "held v d st \<le> ql_daily limits" using inv by (simp_all add: quota_inv_def)
    with h [of v d] us [of v d] show ?thesis by (auto split: if_splits)
  qed
  moreover have "distinct (map fst (usage (release i st)))" unfolding c by (rule unhold_fields(6) [OF dist])
  ultimately show ?thesis by (simp add: quota_inv_def)
next
  case False
  with inv show ?thesis by (auto simp: release_def Let_def)
qed

lemma record_inv_direct:
  assumes inv: "quota_inv limits D st"
  shows "quota_inv limits (\<lambda>v d. D v d + charge_of v d (Q_record_accepted user ops u at)) (recordAccepted user ops u at st)"
  using inv unfolding quota_inv_def recordAccepted_def
  by (simp add: settle_fields hold_fields held_same [OF trans [OF settle_fields(2) hold_fields(2)]])

lemma quota_step_inv:
  assumes "quota_inv limits D st"
  shows "quota_inv limits (\<lambda>v d. D v d + charge_of v d c) (quota_step limits c st)"
proof (cases c)
  case (Q_check user ops at)
  obtain dec st1 where ch: "check limits user ops at st = (dec, st1)" by fastforce
  have "quota_inv limits D st1" using assms by (rule quota_inv_same) (simp_all add: check_fields(1) [OF ch] prune_fields)
  then show ?thesis by (simp add: Q_check ch)
next
  case (Q_burst_ops user at)
  have "quota_inv limits D (quota_step limits c st)"
    using assms by (rule quota_inv_same) (simp_all add: Q_burst_ops burstOps_def split_beta Let_def prune_fields)
  then show ?thesis by (simp add: Q_burst_ops)
next
  case (Q_refusal category at)
  have "quota_inv limits D (quota_step limits c st)" using assms by (rule quota_inv_same) (simp_all add: Q_refusal recordRefusal_def)
  then show ?thesis by (simp add: Q_refusal)
next
  case (Q_record_accepted user ops u at)
  then show ?thesis using record_inv_direct [OF assms] by simp
qed (use assms reserve_inv commit_inv release_inv in simp_all)

lemma quota_empty_inv: "quota_inv limits (\<lambda>v d. 0) quota_empty"
  by (simp add: quota_inv_def quota_empty_def used_def held_def)

lemma quota_after_inv: "quota_inv limits (\<lambda>v d. direct_ops v d cs) (quota_after limits cs)"
proof (induction cs rule: rev_induct)
  case Nil
  show ?case using quota_empty_inv by (simp add: direct_ops_def)
next
  case (snoc c cs)
  from quota_step_inv [OF this, of c] show ?case by (simp add: direct_ops_def)
qed

text \<open>
  C29: The daily quota holds, and it is exact. After any interleaving of quota calls, in any order and however
  often a closure is called, the operations charged to a user for a day are those of the user's reservations
  of that day that were not released and those that \<open>recordAccepted\<close> charged directly. The reservations
  never exceed the daily limit: concurrent requests cannot slip past it and a released reservation gives
  back exactly what it took. Only \<open>recordAccepted\<close>, which asks for no reservation, goes past the limit, by what it charged.
\<close>

theorem daily_quota_exact:
  shows "dailyOps user at (quota_after limits cs) =
      held user (utcDay at) (quota_after limits cs) + direct_ops user (utcDay at) cs \<and>
    held user (utcDay at) (quota_after limits cs) \<le> ql_daily limits \<and>
    dailyOps user at (quota_after limits cs) \<le> ql_daily limits + direct_ops user (utcDay at) cs"
  using quota_after_inv [of limits cs] by (simp add: quota_inv_def dailyOps_used)

section \<open>Utilization\<close>

definition committed_on :: "int \<Rightarrow> reservation \<Rightarrow> bool" where
  "committed_on day r \<longleftrightarrow> rv_fate r = Committed \<and> utcDay (rv_at r) = day"

definition tallied :: "quota_state \<Rightarrow> bool" where
  "tallied st \<longleftrightarrow> (\<forall>day.
     counter day ''accepted'' st = int (sum_list (map (\<lambda>r. if committed_on day r then 1 else 0) (reservations st))) \<and>
     counter day ''accepted_ops'' st = int (sum_list (map (\<lambda>r. if committed_on day r then rv_ops r else 0) (reservations st))))"

lemma tallied_same:
  "tallied st \<Longrightarrow> counters st' = counters st \<Longrightarrow> reservations st' = reservations st \<Longrightarrow> tallied st'"
  by (simp add: tallied_def counter_def)

lemma tallied_update:
  assumes "tallied st" and "counters st' = counters st" and "reservations st' = (reservations st)[i := r]"
    and "i < length (reservations st)" and "\<not> committed_on day r" "\<not> committed_on day (reservations st ! i)"
  shows "counter day ''accepted'' st' = int (sum_list (map (\<lambda>r. if committed_on day r then 1 else 0) (reservations st')))"
    "counter day ''accepted_ops'' st' = int (sum_list (map (\<lambda>r. if committed_on day r then rv_ops r else 0) (reservations st')))"
  using assms(1,2,5,6) total_update [OF assms(4), of "\<lambda>r. if committed_on day r then 1 else 0" r]
    total_update [OF assms(4), of "\<lambda>r. if committed_on day r then rv_ops r else 0" r]
  by (simp_all add: tallied_def assms(3) counter_def)

lemma commit_tallied:
  assumes inv: "tallied st"
  shows "tallied (commit i u st)"
proof (cases "i < length (reservations st) \<and> rv_fate (reservations st ! i) = Held")
  case True
  let ?r = "reservations st ! i" and ?n = "(reservations st ! i)\<lparr>rv_fate := Committed\<rparr>"
  have c: "commit i u st = settle (rv_user ?r) (rv_ops ?r) u (rv_at ?r) (with_fate i Committed st)"
    using True by (simp add: commit_def Let_def)
  have old: "\<not> committed_on day ?r" and new: "committed_on day ?n \<longleftrightarrow> day = utcDay (rv_at ?r)" "rv_ops ?n = rv_ops ?r" for day
    using True by (auto simp: committed_on_def)
  have wf: "counter day k (with_fate i Committed st) = counter day k st" for day k by (rule same_counter) simp
  have rs: "reservations (commit i u st) = (reservations st)[i := ?n]" by (simp add: c settle_fields)
  show ?thesis
    unfolding tallied_def
  proof (intro allI conjI)
    fix day
    show "counter day ''accepted'' (commit i u st) = int (sum_list (map (\<lambda>r. if committed_on day r then 1 else 0) (reservations (commit i u st))))"
      using inv total_update [OF conjunct1 [OF True], of "\<lambda>r. if committed_on day r then 1 else 0" ?n]
      unfolding rs by (simp add: c settle_fields(6) wf tallied_def old new(1))
    show "counter day ''accepted_ops'' (commit i u st) = int (sum_list (map (\<lambda>r. if committed_on day r then rv_ops r else 0) (reservations (commit i u st))))"
      using inv total_update [OF conjunct1 [OF True], of "\<lambda>r. if committed_on day r then rv_ops r else 0" ?n]
      unfolding rs by (simp add: c settle_fields(7) wf tallied_def old new split: if_splits)
  qed
next
  case False
  with inv show ?thesis by (auto simp: commit_def Let_def)
qed

lemma release_tallied:
  assumes inv: "tallied st"
  shows "tallied (release i st)"
proof (cases "i < length (reservations st) \<and> rv_fate (reservations st ! i) = Held")
  case True
  let ?r = "reservations st ! i"
  have c: "release i st = unhold (rv_user ?r) (rv_entry ?r) (with_fate i Released st)"
    using True by (simp add: release_def Let_def)
  have "counters (release i st) = counters st" "reservations (release i st) = (reservations st)[i := ?r\<lparr>rv_fate := Released\<rparr>]"
    by (simp_all add: c unhold_fields)
  from tallied_update [OF inv this] True show ?thesis by (simp add: tallied_def committed_on_def)
next
  case False
  with inv show ?thesis by (auto simp: release_def Let_def)
qed

lemma reserve_tallied:
  assumes inv: "tallied st"
  shows "tallied (snd (reserve limits user ops at st))"
proof (cases rule: reserve_cases [OF refl, of limits user ops at st, case_names refused granted])
  case refused
  with inv show ?thesis by (simp add: tallied_same prune_fields)
next
  case (granted st1)
  have inv1: "tallied st1" unfolding granted(1) using inv by (rule tallied_same) (simp_all add: prune_fields)
  have "counters (snd (reserve limits user ops at st)) = counters st1" unfolding granted(4) by (simp add: hold_fields(4))
  then have c: "counter day k (snd (reserve limits user ops at st)) = counter day k st1" for day k by (rule same_counter)
  show ?thesis
    using inv1 unfolding tallied_def c unfolding granted(4) by (simp add: committed_on_def)
qed

lemma tallied_step:
  assumes "tallied st" and "\<not> direct_call c"
  shows "tallied (quota_step limits c st)"
proof (cases c)
  case (Q_check user ops at)
  obtain dec st1 where ch: "check limits user ops at st = (dec, st1)" by fastforce
  show ?thesis using assms(1) by (rule tallied_same) (simp_all add: Q_check ch check_fields(1) [OF ch] prune_fields)
next
  case (Q_burst_ops user at)
  show ?thesis using assms(1)
    by (rule tallied_same) (simp_all add: Q_burst_ops burstOps_def split_beta Let_def prune_fields)
next
  case (Q_refusal category at)
  have "counter day ''accepted'' (recordRefusal category at st) = counter day ''accepted'' st"
    "counter day ''accepted_ops'' (recordRefusal category at st) = counter day ''accepted_ops'' st"
    "reservations (recordRefusal category at st) = reservations st" for day
    by (simp_all add: recordRefusal_def)
  with assms(1) show ?thesis by (simp add: Q_refusal tallied_def)
qed (use assms reserve_tallied commit_tallied release_tallied in simp_all)

text \<open>
  The public utilization figures are exact. After any interleaving of calls the day's count
  of accepted transactions is the number of reservations of that day that were committed, each
  counted once however often its closures ran, and the count of accepted operations is the sum of
  theirs.
\<close>

theorem utilization_exact:
  assumes "list_all (\<lambda>c. \<not> direct_call c) cs"
  shows "du_accepted (day_of day (quota_after limits cs)) =
      int (length (filter (committed_on day) (reservations (quota_after limits cs)))) \<and>
    du_accepted_ops (day_of day (quota_after limits cs)) =
      int (sum_list (map rv_ops (filter (committed_on day) (reservations (quota_after limits cs)))))"
proof -
  have "tallied (quota_after limits cs)"
    using assms
    by (induction cs rule: rev_induct) (simp_all add: tallied_step, simp add: tallied_def counter_def quota_empty_def)
  moreover have "sum_list (map (\<lambda>r. if P r then f r else 0) rs) = sum_list (map f (filter P rs))"
    for P and f :: "reservation \<Rightarrow> nat" and rs by (induction rs) simp_all
  moreover have "sum_list (map (\<lambda>r. 1 :: nat) rs) = length rs" for rs :: "reservation list" by (induction rs) simp_all
  ultimately show ?thesis by (simp add: tallied_def day_of_def Let_def)
qed

section \<open>Burst quotas\<close>

text \<open>
  The reservations of a user that were not released, later than a time; their windows hold exactly
  the entries of these for every time the pruning has not passed.
\<close>

definition live_since :: "ustring \<Rightarrow> int \<Rightarrow> quota_state \<Rightarrow> reservation list" where
  "live_since user c st = filter (\<lambda>r. rv_user r = user \<and> rv_fate r \<noteq> Released \<and> rv_at r > c) (reservations st)"

definition entries_inv :: "int \<Rightarrow> quota_state \<Rightarrow> bool" where
  "entries_inv T st \<longleftrightarrow> (\<forall>r \<in> set (reservations st). entry_ok r \<and> be_id (rv_entry r) < fresh_id st \<and> rv_at r \<le> T) \<and>
     distinct (map rv_entry (reservations st)) \<and>
     (\<forall>u. distinct (window_of u st) \<and> set (window_of u st) \<subseteq> rv_entry ` set (reservations st))"

definition windows_cover :: "int \<Rightarrow> quota_state \<Rightarrow> bool" where
  "windows_cover cutoff st \<longleftrightarrow> (\<forall>u c. cutoff \<le> c \<longrightarrow>
     filter (\<lambda>e. be_at e > c) (window_of u st) = map rv_entry (live_since u c st))"

definition within_burst :: "quota_limits \<Rightarrow> int \<Rightarrow> quota_state \<Rightarrow> bool" where
  "within_burst limits T st \<longleftrightarrow> (\<forall>u t. T \<le> t \<longrightarrow>
     sum_list (map rv_ops (live_since u (t - ql_window limits * 1000) st)) \<le> ql_burst limits)"

definition burst_inv :: "quota_limits \<Rightarrow> int \<Rightarrow> quota_state \<Rightarrow> bool" where
  "burst_inv limits T st \<longleftrightarrow> entries_inv T st \<and> windows_cover (T - ql_window limits * 1000) st \<and> within_burst limits T st"

lemma foldl_ops: "foldl (\<lambda>sum e. sum + be_ops e) n es = n + sum_list (map be_ops es)"
  by (induction es arbitrary: n) simp_all

lemma live_since_mono: "c \<le> c' \<Longrightarrow> sum_list (map rv_ops (live_since u c' st)) \<le> sum_list (map rv_ops (live_since u c st))"
proof -
  have "sum_list (map rv_ops (filter P rs)) \<le> sum_list (map rv_ops (filter Q rs))"
    if "\<And>r. P r \<Longrightarrow> Q r" for P Q and rs :: "reservation list"
    using that by (induction rs) (auto intro: trans_le_add2)
  then show "c \<le> c' \<Longrightarrow> ?thesis" unfolding live_since_def by (metis (mono_tags, lifting) le_less_trans)
qed

lemma burst_inv_time: "burst_inv limits T st \<Longrightarrow> T \<le> T' \<Longrightarrow> burst_inv limits T' st"
  unfolding burst_inv_def entries_inv_def windows_cover_def within_burst_def
  by (intro conjI; (elim conjE)?; fastforce)

lemma live_since_same: "reservations st' = reservations st \<Longrightarrow> live_since u c st' = live_since u c st"
  by (simp add: live_since_def)

text \<open>Pruning at a time not before the last one changes nothing that is still looked at.\<close>

lemma burst_inv_prune:
  assumes "burst_inv limits T st" and "T \<le> at"
  shows "burst_inv limits at (snd (burstWindow limits user at st))"
proof -
  have inv: "burst_inv limits at st" using assms by (rule burst_inv_time)
  let ?st = "snd (burstWindow limits user at st)"
  have live: "live_since u c ?st = live_since u c st" for u c by (rule live_since_same) (simp add: prune_fields)
  have "entries_inv at ?st" using inv unfolding burst_inv_def entries_inv_def prune_fields by auto
  moreover have "windows_cover (at - ql_window limits * 1000) ?st"
    unfolding windows_cover_def live
  proof (intro allI impI)
    fix u c assume c: "at - ql_window limits * 1000 \<le> c"
    have "filter (\<lambda>e. be_at e > c) (window_of u ?st) = filter (\<lambda>e. be_at e > c) (window_of u st)"
      using c by (auto simp: prune_fields intro: filter_cong)
    also have "\<dots> = map rv_entry (live_since u c st)" using inv c by (simp add: burst_inv_def windows_cover_def)
    finally show "filter (\<lambda>e. be_at e > c) (window_of u ?st) = map rv_entry (live_since u c st)" .
  qed
  moreover have "within_burst limits at ?st" using inv by (simp add: burst_inv_def within_burst_def live)
  ultimately show ?thesis by (simp add: burst_inv_def)
qed

lemma update_remove1:
  assumes "i < length xs" and "distinct (map f xs)" and "\<not> Q x" and "Q (xs ! i)"
  shows "map f (filter Q (xs[i := x])) = remove1 (f (xs ! i)) (map f (filter Q xs))"
proof -
  have xs: "xs = take i xs @ xs ! i # drop (Suc i) xs" using assms(1) by (rule id_take_nth_drop)
  have d: "distinct (map f (take i xs @ xs ! i # drop (Suc i) xs))" using assms(2) xs by simp
  then have "f (xs ! i) \<notin> set (map f (filter Q (take i xs)))" by auto
  then have "remove1 (f (xs ! i)) (map f (filter Q (take i xs @ xs ! i # drop (Suc i) xs))) =
      map f (filter Q (take i xs)) @ map f (filter Q (drop (Suc i) xs))"
    using assms(4) by (simp add: remove1_append)
  then show ?thesis using assms(3) xs by (simp add: upd_conv_take_nth_drop [OF assms(1)])
qed

lemma burst_inv_reserve:
  assumes "burst_inv limits T st" and "T \<le> at"
  shows "burst_inv limits at (snd (reserve limits user ops at st))"
proof (cases rule: reserve_cases [OF refl, of limits user ops at st, case_names refused granted])
  case refused
  with burst_inv_prune [OF assms] show ?thesis by simp
next
  case (granted st1)
  let ?W = "ql_window limits * 1000"
  let ?e = "\<lparr>be_id = fresh_id st1, be_at = at, be_ops = ops\<rparr>"
  let ?r = "\<lparr>rv_user = user, rv_ops = ops, rv_at = at, rv_entry = ?e, rv_fate = Held\<rparr>"
  let ?st = "snd (reserve limits user ops at st)"
  have inv1: "burst_inv limits at st1" unfolding granted(1) by (rule burst_inv_prune [OF assms])
  then have inv1s: "entries_inv at st1" "windows_cover (at - ?W) st1" "within_burst limits at st1"
    by (simp_all add: burst_inv_def)
  have rs: "reservations ?st = reservations st1 @ [?r]" "fresh_id ?st = Suc (fresh_id st1)"
    unfolding granted(4) by (simp_all add: hold_fields(1,3))
  have "window_of u ?st = window_of u (snd (hold user ops at st1))" for u
    unfolding granted(4) by (simp add: window_of_def)
  then have w: "window_of u ?st = (if u = user then window_of user st1 @ [?e] else window_of u st1)" for u
    by (simp add: hold_fields(5))
  have live: "live_since u c ?st = live_since u c st1 @ (if u = user \<and> at > c then [?r] else [])" for u c
    by (simp add: live_since_def rs)
  have ops: "map be_ops (map rv_entry (live_since user c st1)) = map rv_ops (live_since user c st1)" for c
    using inv1s(1) by (simp add: entries_inv_def live_since_def entry_ok_def)
  have "filter (\<lambda>e. be_at e > at - ?W) (window_of user st1) = map rv_entry (live_since user (at - ?W) st1)"
    using inv1s(2) by (simp add: windows_cover_def)
  moreover have "fst (burstWindow limits user at st) = filter (\<lambda>e. be_at e > at - ?W) (window_of user st1)"
    unfolding granted(1) by (simp add: prune_fields)
  ultimately have fits: "sum_list (map rv_ops (live_since user (at - ?W) st1)) + ops \<le> ql_burst limits"
    using granted(3) by (simp add: foldl_ops ops del: map_map)
  have "?e \<notin> rv_entry ` set (reservations st1)"
  proof
    assume "?e \<in> rv_entry ` set (reservations st1)"
    then obtain x where x: "x \<in> set (reservations st1)" "rv_entry x = ?e" by auto
    then have "be_id (rv_entry x) < fresh_id st1" using inv1s(1) unfolding entries_inv_def by blast
    with x(2) show False by simp
  qed
  note new = this
  have old: "\<forall>r \<in> set (reservations st1). entry_ok r \<and> be_id (rv_entry r) < fresh_id st1 \<and> rv_at r \<le> at"
    "distinct (map rv_entry (reservations st1))" "distinct (window_of u st1)"
    "set (window_of u st1) \<subseteq> rv_entry ` set (reservations st1)" for u
    using inv1s(1) by (simp_all add: entries_inv_def)
  have "entries_inv at ?st"
    unfolding entries_inv_def
  proof (intro conjI allI)
    show "\<forall>r \<in> set (reservations ?st). entry_ok r \<and> be_id (rv_entry r) < fresh_id ?st \<and> rv_at r \<le> at"
      using old(1) by (auto simp: rs entry_ok_def)
    show "distinct (map rv_entry (reservations ?st))" using old(2) new by (simp add: rs)
    show "distinct (window_of u ?st)" for u using old(3) [of u] old(4) [of u] new by (auto simp: w)
    show "set (window_of u ?st) \<subseteq> rv_entry ` set (reservations ?st)" for u using old(4) [of u] by (auto simp: w rs)
  qed
  moreover have "windows_cover (at - ?W) ?st"
    using inv1s(2) unfolding windows_cover_def w live by auto
  moreover have "within_burst limits at ?st"
    unfolding within_burst_def live
  proof (intro allI impI)
    fix u t assume t: "at \<le> t"
    show "sum_list (map rv_ops (live_since u (t - ?W) st1 @ (if u = user \<and> at > t - ?W then [?r] else []))) \<le> ql_burst limits"
    proof (cases "u = user \<and> at > t - ?W")
      case True
      have "sum_list (map rv_ops (live_since user (t - ?W) st1)) \<le> sum_list (map rv_ops (live_since user (at - ?W) st1))"
        using t by (intro live_since_mono) simp
      with True fits show ?thesis by simp
    next
      case False
      with inv1s(3) t show ?thesis by (auto simp: within_burst_def)
    qed
  qed
  ultimately show ?thesis by (simp add: burst_inv_def)
qed

lemma burst_inv_same:
  assumes "burst_inv limits T st" and "map rv_entry (reservations st') = map rv_entry (reservations st)"
    and "\<forall>r \<in> set (reservations st'). entry_ok r \<and> be_id (rv_entry r) < fresh_id st' \<and> rv_at r \<le> T"
    and "\<And>u. window_of u st' = window_of u st"
    and "\<And>u c. map rv_entry (live_since u c st') = map rv_entry (live_since u c st)"
    and "\<And>u c. map rv_ops (live_since u c st') = map rv_ops (live_since u c st)"
  shows "burst_inv limits T st'"
proof -
  have "rv_entry ` set (reservations st') = rv_entry ` set (reservations st)"
    using assms(2) by (metis list.set_map)
  with assms show ?thesis
    by (simp add: burst_inv_def entries_inv_def windows_cover_def within_burst_def)
qed

lemma filter_update_same:
  assumes "i < length xs" and "Q y = Q (xs ! i)" and "f y = f (xs ! i)"
  shows "map f (filter Q (xs[i := y])) = map f (filter Q xs)"
proof -
  have "xs = take i xs @ xs ! i # drop (Suc i) xs" using assms(1) by (rule id_take_nth_drop)
  then have "map f (filter Q xs) = map f (filter Q (take i xs @ xs ! i # drop (Suc i) xs))" by simp
  with assms(2,3) show ?thesis by (simp add: upd_conv_take_nth_drop [OF assms(1)])
qed

lemma burst_inv_commit:
  assumes inv: "burst_inv limits T st"
  shows "burst_inv limits T (commit i u st)"
proof (cases "i < length (reservations st) \<and> rv_fate (reservations st ! i) = Held")
  case True
  let ?r = "reservations st ! i" and ?c = "commit i u st"
  have c: "?c = settle (rv_user ?r) (rv_ops ?r) u (rv_at ?r) (with_fate i Committed st)"
    using True by (simp add: commit_def Let_def)
  have rs: "reservations ?c = (reservations st)[i := ?r\<lparr>rv_fate := Committed\<rparr>]" "fresh_id ?c = fresh_id st" "bursts ?c = bursts st"
    by (simp_all add: c settle_fields)
  have ok: "\<forall>r \<in> set (reservations st). entry_ok r \<and> be_id (rv_entry r) < fresh_id st \<and> rv_at r \<le> T"
    using inv by (simp add: burst_inv_def entries_inv_def)
  show ?thesis
  proof (rule burst_inv_same [OF inv])
    show "map rv_entry (reservations ?c) = map rv_entry (reservations st)"
      using filter_update_same [of i "reservations st" "\<lambda>_. True" "?r\<lparr>rv_fate := Committed\<rparr>" rv_entry] True by (simp add: rs)
    show "\<forall>r \<in> set (reservations ?c). entry_ok r \<and> be_id (rv_entry r) < fresh_id ?c \<and> rv_at r \<le> T"
      unfolding rs using ok True by (intro ball_update) simp_all
    show "window_of v ?c = window_of v st" for v using rs(3) by (rule same_windows)
    show "map rv_entry (live_since v x ?c) = map rv_entry (live_since v x st)" "map rv_ops (live_since v x ?c) = map rv_ops (live_since v x st)" for v x
      unfolding live_since_def rs using True by (intro filter_update_same; simp)+
  qed
next
  case False
  with inv show ?thesis by (auto simp: commit_def Let_def)
qed

lemma sum_update_le:
  assumes "i < length xs" and "\<not> Q y"
  shows "sum_list (map f (filter Q (xs[i := y]))) \<le> (sum_list (map f (filter Q xs)) :: nat)"
proof -
  have "xs = take i xs @ xs ! i # drop (Suc i) xs" using assms(1) by (rule id_take_nth_drop)
  then have "sum_list (map f (filter Q xs)) = sum_list (map f (filter Q (take i xs @ xs ! i # drop (Suc i) xs)))" by simp
  with assms(2) show ?thesis by (simp add: upd_conv_take_nth_drop [OF assms(1)])
qed

lemma burst_inv_release:
  assumes inv: "burst_inv limits T st"
  shows "burst_inv limits T (release i st)"
proof (cases "i < length (reservations st) \<and> rv_fate (reservations st ! i) = Held")
  case True
  let ?r = "reservations st ! i" and ?c = "release i st"
  have c: "?c = unhold (rv_user ?r) (rv_entry ?r) (with_fate i Released st)"
    using True by (simp add: release_def Let_def)
  have rs: "reservations ?c = (reservations st)[i := ?r\<lparr>rv_fate := Released\<rparr>]" "fresh_id ?c = fresh_id st"
    by (simp_all add: c unhold_fields)
  have w: "window_of v ?c = (if v = rv_user ?r then remove1 (rv_entry ?r) (window_of v st) else window_of v st)" for v
    unfolding c unhold_fields(4) by (simp add: window_of_def)
  have ok: "\<forall>r \<in> set (reservations st). entry_ok r \<and> be_id (rv_entry r) < fresh_id st \<and> rv_at r \<le> T"
    and dist: "distinct (map rv_entry (reservations st))"
    and ws: "\<And>v. distinct (window_of v st)" "\<And>v. set (window_of v st) \<subseteq> rv_entry ` set (reservations st)"
    and cover: "windows_cover (T - ql_window limits * 1000) st" and burst: "within_burst limits T st"
    using inv by (simp_all add: burst_inv_def entries_inv_def)
  have entries: "map rv_entry (reservations ?c) = map rv_entry (reservations st)"
    using filter_update_same [of i "reservations st" "\<lambda>_. True" "?r\<lparr>rv_fate := Released\<rparr>" rv_entry] True by (simp add: rs)
  have live: "live_since v x ?c = filter (\<lambda>r. rv_user r = v \<and> rv_fate r \<noteq> Released \<and> rv_at r > x) ((reservations st)[i := ?r\<lparr>rv_fate := Released\<rparr>])" for v x
    by (simp add: live_since_def rs)
  have at: "be_at (rv_entry ?r) = rv_at ?r" using ok True by (simp add: entry_ok_def)
  have e: "map rv_entry (live_since v x ?c) = (if v = rv_user ?r \<and> rv_at ?r > x
      then remove1 (rv_entry ?r) (map rv_entry (live_since v x st)) else map rv_entry (live_since v x st))" for v x
  proof (cases "v = rv_user ?r \<and> rv_at ?r > x")
    case live_here: True
    have "map rv_entry (live_since v x ?c) = remove1 (rv_entry ?r) (map rv_entry (live_since v x st))"
      unfolding live live_since_def [of v x st]
      by (rule update_remove1) (use True live_here dist in simp_all)
    with live_here show ?thesis by simp
  next
    case False
    have "map rv_entry (live_since v x ?c) = map rv_entry (live_since v x st)"
      unfolding live live_since_def [of v x st]
      by (rule filter_update_same) (use True False in auto)
    then show ?thesis by (simp only: False if_False)
  qed
  have "entries_inv T ?c"
    unfolding entries_inv_def
  proof (intro conjI allI)
    show "\<forall>r \<in> set (reservations ?c). entry_ok r \<and> be_id (rv_entry r) < fresh_id ?c \<and> rv_at r \<le> T"
      unfolding rs using ok True by (intro ball_update) simp_all
    show "distinct (map rv_entry (reservations ?c))" using dist entries by simp
    show "distinct (window_of v ?c)" for v using ws(1) by (simp add: w distinct_remove1)
    have same: "rv_entry ` set (reservations ?c) = rv_entry ` set (reservations st)" using entries by (metis list.set_map)
    have "set (window_of v ?c) \<subseteq> set (window_of v st)" for v by (simp add: w set_remove1_subset)
    from subset_trans [OF this ws(2)] show "set (window_of v ?c) \<subseteq> rv_entry ` set (reservations ?c)" for v unfolding same .
  qed
  moreover have "windows_cover (T - ql_window limits * 1000) ?c"
    unfolding windows_cover_def
  proof (intro allI impI)
    fix v x assume "T - ql_window limits * 1000 \<le> x"
    with cover have cv: "filter (\<lambda>e. be_at e > x) (window_of v st) = map rv_entry (live_since v x st)"
      unfolding windows_cover_def by blast
    show "filter (\<lambda>e. be_at e > x) (window_of v ?c) = map rv_entry (live_since v x ?c)"
    proof (cases "v = rv_user ?r")
      case same: True
      have "filter (\<lambda>e. be_at e > x) (window_of v ?c) = remove1 (rv_entry ?r) (filter (\<lambda>e. be_at e > x) (window_of v st))"
        unfolding w if_P [OF same] by (rule filter_remove1)
      moreover have "remove1 (rv_entry ?r) (filter (\<lambda>e. be_at e > x) (window_of v st)) = filter (\<lambda>e. be_at e > x) (window_of v st)"
        if "\<not> rv_at ?r > x" using that at by (intro remove1_idem) simp
      ultimately show ?thesis unfolding e cv using same by (cases "rv_at ?r > x") simp_all
    next
      case False
      then show ?thesis by (simp add: e w cv)
    qed
  qed
  moreover have "within_burst limits T ?c"
    unfolding within_burst_def
  proof (intro allI impI)
    fix v t assume "T \<le> t"
    then have "sum_list (map rv_ops (live_since v (t - ql_window limits * 1000) st)) \<le> ql_burst limits"
      using burst by (simp add: within_burst_def)
    moreover have "sum_list (map rv_ops (live_since v x ?c)) \<le> sum_list (map rv_ops (live_since v x st))" for x
      unfolding live live_since_def [of v x st] by (rule sum_update_le) (use True in simp_all)
    ultimately show "sum_list (map rv_ops (live_since v (t - ql_window limits * 1000) ?c)) \<le> ql_burst limits"
      using le_trans by blast
  qed
  ultimately show ?thesis by (simp add: burst_inv_def)
next
  case False
  with inv show ?thesis by (auto simp: release_def Let_def)
qed

text \<open>The times of the calls, in the order they were made.\<close>

fun call_time :: "quota_call \<Rightarrow> int option" where
  "call_time (Q_reserve _ _ at) = Some at"
| "call_time (Q_check _ _ at) = Some at"
| "call_time (Q_burst_ops _ at) = Some at"
| "call_time (Q_refusal _ at) = Some at"
| "call_time (Q_record_accepted _ _ _ at) = Some at"
| "call_time _ = None"

definition call_times :: "quota_call list \<Rightarrow> int list" where
  "call_times cs = List.map_filter call_time cs"

lemma burst_step_inv:
  assumes inv: "burst_inv limits T st" and d: "\<not> direct_call c" and t: "\<And>at. call_time c = Some at \<Longrightarrow> T \<le> at"
  shows "burst_inv limits (case call_time c of None \<Rightarrow> T | Some at \<Rightarrow> at) (quota_step limits c st)"
proof (cases c)
  case (Q_check user ops at)
  obtain dec st1 where ch: "check limits user ops at st = (dec, st1)" by fastforce
  from burst_inv_prune [OF inv t, of at user] show ?thesis by (simp add: Q_check ch check_fields(1) [OF ch])
next
  case (Q_burst_ops user at)
  from burst_inv_prune [OF inv t, of at user] show ?thesis by (simp add: Q_burst_ops burstOps_def split_beta Let_def)
next
  case (Q_refusal category at)
  have "burst_inv limits at st" using inv t [of at] by (rule burst_inv_time) (simp add: Q_refusal)
  then show ?thesis
    by (simp add: Q_refusal recordRefusal_def burst_inv_def entries_inv_def windows_cover_def within_burst_def
        live_since_def window_of_def)
qed (use inv d t burst_inv_reserve burst_inv_commit burst_inv_release in simp_all)

lemma burst_empty_inv: "burst_inv limits T quota_empty"
  by (simp add: burst_inv_def entries_inv_def windows_cover_def within_burst_def live_since_def window_of_def quota_empty_def)

lemma call_times_snoc: "call_times (cs @ [c]) = call_times cs @ (case call_time c of None \<Rightarrow> [] | Some at \<Rightarrow> [at])"
  by (simp add: call_times_def map_filter_def split: option.split)

lemma quota_after_burst:
  assumes "list_all (\<lambda>c. \<not> direct_call c) cs" and "sorted (call_times cs)" and "\<forall>t \<in> set (call_times cs). t \<le> T"
  shows "burst_inv limits T (quota_after limits cs)"
  using assms
proof (induction cs arbitrary: T rule: rev_induct)
  case Nil
  show ?case by (simp add: burst_empty_inv)
next
  case (snoc c cs)
  show ?case
  proof (cases "call_time c")
    case None
    have "burst_inv limits T (quota_after limits cs)"
      by (rule snoc.IH) (use snoc.prems None in \<open>simp_all add: call_times_snoc\<close>)
    from burst_step_inv [OF this, of c] None snoc.prems(1) show ?thesis by simp
  next
    case (Some at)
    have "burst_inv limits at (quota_after limits cs)"
      by (rule snoc.IH) (use snoc.prems Some in \<open>auto simp: call_times_snoc sorted_append\<close>)
    from burst_step_inv [OF this, of c] Some snoc.prems(1) have "burst_inv limits at (quota_after limits (cs @ [c]))" by simp
    then show ?thesis by (rule burst_inv_time) (use snoc.prems Some in \<open>simp add: call_times_snoc\<close>)
  qed
qed

text \<open>
  C30: The burst quota holds. When the clock does not run backwards, at any moment after the calls
  the operations of a user's unreleased reservations inside the burst window never exceed the
  limit, although the window is pruned, extended and cut by concurrent requests; the calls are all but \<open>recordAccepted\<close>.
\<close>

theorem burst_quota_bound:
  assumes "list_all (\<lambda>c. \<not> direct_call c) cs" and "sorted (call_times cs)" and "\<forall>t \<in> set (call_times cs). t \<le> at"
  shows "sum_list (map rv_ops (live_since user (at - ql_window limits * 1000) (quota_after limits cs))) \<le> ql_burst limits"
  using quota_after_burst [OF assms, of limits] by (simp add: burst_inv_def within_burst_def)

section \<open>The properties at concrete inputs\<close>

definition demo_limits :: quota_limits where
  "demo_limits = \<lparr>ql_daily = 5, ql_burst = 3, ql_window = 60\<rparr>"

text \<open>Two operations, then two more, which the burst window refuses, then the first is given back twice.\<close>

definition demo_calls :: "quota_call list" where
  "demo_calls = [Q_reserve [65] 2 1000, Q_reserve [65] 2 2000, Q_release 0, Q_release 0, Q_reserve [65] 3 3000]"

text \<open>And a direct charge past the limit.\<close>

abbreviation demo_charged :: "quota_call list" where
  "demo_charged \<equiv> demo_calls @ [Q_record_accepted [65] 9 \<lparr>bu_rc = None, bu_reverted = False\<rparr> 4000]"

theorem daily_quota_exact_witness:
  "dailyOps [65] 3000 (quota_after demo_limits demo_charged) = held [65] 0 (quota_after demo_limits demo_charged) + 9 \<and>
   held [65] 0 (quota_after demo_limits demo_charged) \<le> 5"
  using daily_quota_exact [of "[65]" 3000 demo_limits demo_charged]
  by (simp add: demo_calls_def utcDay_def direct_ops_def demo_limits_def)

theorem utilization_exact_witness:
  "du_accepted (day_of 0 (quota_after demo_limits demo_calls)) =
     int (length (filter (committed_on 0) (reservations (quota_after demo_limits demo_calls))))"
  using utilization_exact [of demo_calls 0 demo_limits] by (simp add: demo_calls_def)

theorem burst_quota_bound_witness:
  "sum_list (map rv_ops (live_since [65] (4000 - 60000) (quota_after demo_limits demo_calls))) \<le> 3"
proof -
  have "sorted (call_times demo_calls)" "\<forall>t \<in> set (call_times demo_calls). t \<le> 4000"
    by (simp_all add: demo_calls_def call_times_def map_filter_def)
  from burst_quota_bound [OF _ this, of "[65]" demo_limits] show ?thesis by (simp add: demo_calls_def demo_limits_def)
qed

end
