(* ===== verification/Sponsor_Service.thy ===== *)
theory Sponsor_Service
  imports Sponsor_Policy Quota
begin

text \<open>
  The request handlers of the sponsor service (\<open>apps/sponsor/src/server.ts\<close>) over the quota store and
  the validation. Requests interleave at every \<open>await\<close>: signing and broadcasting are actions on the
  whole world, quota store included, which other requests may change meanwhile.
\<close>

datatype service_state = Serving | Not_deployed | Invalid_deployment | No_key

text \<open>The world a request runs in: the quota store and everything else.\<close>

record 'o service_world =
  sw_quota :: quota_state
  sw_outside :: 'o

record receipt =
  rc_rc_used :: "ustring option"
  rc_reverted :: bool
  rc_rpc_error :: bool \<comment> \<open>the synthetic receipt of a timeout\<close>

text \<open>A failed broadcast: whether the error carried logs, and its text.\<close>

record send_failure =
  sf_logs :: bool
  sf_text :: ustring

record 'o sponsor_service =
  sv_state :: service_state
  sv_context :: "'o validation_context"
  sv_limits :: quota_limits
  sv_now :: "'o \<Rightarrow> int"
  sv_sign :: "signed_transaction \<Rightarrow> 'o service_world \<Rightarrow> ustring list js \<times> 'o service_world"
  sv_send :: "signed_transaction \<Rightarrow> 'o service_world \<Rightarrow> (send_failure + receipt) \<times> 'o service_world"
  sv_account_rc :: "'o \<Rightarrow> int js \<times> 'o"

definition category_key :: "refusal_category \<Rightarrow> string" where
  "category_key c = (case c of Quota_exceeded \<Rightarrow> ''quota_exceeded'' | Method_not_allowed \<Rightarrow> ''method_not_allowed''
     | Too_large \<Rightarrow> ''too_large'' | Chain_mismatch \<Rightarrow> ''chain_mismatch'' | Invalid_signature \<Rightarrow> ''invalid_signature''
     | Invalid_transaction \<Rightarrow> ''invalid_transaction'' | Temporarily_unavailable \<Rightarrow> ''temporarily_unavailable'')"

text \<open>\<open>/chain.?id/\<close>: the two words with at most one character between them.\<close>

definition chain_id_phrase :: "ustring \<Rightarrow> bool" where
  "chain_id_phrase s \<longleftrightarrow> list_ex (\<lambda>i. take 5 (drop i s) = utf16 ''chain'' \<and>
     (take 2 (drop (i + 5) s) = utf16 ''id'' \<or> take 2 (drop (i + 6) s) = utf16 ''id'')) [0..<length s]"

definition classifySendError :: "send_failure \<Rightarrow> refusal_category" where
  "classifySendError f =
     (if sf_logs f \<or> matches_any [''revert'', ''nonce'', ''authoriz'', ''signature'', ''rc_limit'', ''rc limit'', ''resource'',
           ''mana'', ''merkle'', ''duplicate'', ''already'', ''invalid'', ''failed to apply''] (sf_text f) \<or>
         chain_id_phrase (to_lower (sf_text f))
      then Invalid_transaction else Temporarily_unavailable)"

text \<open>What a request ends with; a transaction that reverted was broadcast and paid for.\<close>

datatype response =
    Sponsored signed_transaction "ustring list" receipt
  | Reverted receipt
  | Refused refusal_category

definition refuse :: "'o sponsor_service \<Rightarrow> refusal_category \<Rightarrow> 'o service_world \<Rightarrow> response \<times> 'o service_world" where
  "refuse sv category w =
     (Refused category, w\<lparr>sw_quota := recordRefusal (category_key category) (sv_now sv (sw_outside w)) (sw_quota w)\<rparr>)"

definition with_quota :: "(quota_state \<Rightarrow> quota_state) \<Rightarrow> 'o service_world \<Rightarrow> 'o service_world" where
  "with_quota f w = w\<lparr>sw_quota := f (sw_quota w)\<rparr>"

text \<open>Sign, broadcast and settle the reservation \<open>i\<close>.\<close>

definition broadcast :: "'o sponsor_service \<Rightarrow> signed_transaction \<Rightarrow> nat \<Rightarrow> 'o service_world \<Rightarrow> response \<times> 'o service_world" where
  "broadcast sv transaction i w =
     (case sv_sign sv transaction w of
        (Inl e, w1) \<Rightarrow> refuse sv Temporarily_unavailable (with_quota (release i) w1)
      | (Inr sigs, w1) \<Rightarrow>
          (case sv_send sv (transaction\<lparr>st_signatures := sigs\<rparr>) w1 of
             (Inl failure, w2) \<Rightarrow> refuse sv (classifySendError failure) (with_quota (release i) w2)
           | (Inr receipt, w2) \<Rightarrow>
               let w3 = with_quota (commit i \<lparr>bu_rc = rc_rc_used receipt, bu_reverted = rc_reverted receipt\<rparr>) w2
               in if rc_rpc_error receipt then (Sponsored transaction sigs receipt, w3)
                  else if rc_reverted receipt then (Reverted receipt, w3)
                  else (Sponsored transaction sigs receipt, w3)))"

definition sponsor :: "'o sponsor_service \<Rightarrow> json \<Rightarrow> 'o service_world \<Rightarrow> response \<times> 'o service_world" where
  "sponsor sv inp w =
     (if sv_state sv \<noteq> Serving then (Refused Temporarily_unavailable, w)
      else
        let at = sv_now sv (sw_outside w);
            (res, outside) = validateTransaction (sv_context sv) inp (sw_outside w);
            w1 = w\<lparr>sw_outside := outside\<rparr>
        in case res of
             Inl category \<Rightarrow> refuse sv category w1
           | Inr validated \<Rightarrow>
               let ((decision, reservation), quota) =
                     reserve (sv_limits sv) (vt_payee validated) (length (vt_operations validated)) at (sw_quota w1);
                   w2 = w1\<lparr>sw_quota := quota\<rparr>
               in case reservation of
                    None \<Rightarrow> refuse sv Quota_exceeded w2
                  | Some i \<Rightarrow> broadcast sv (vt_transaction validated) i w2)"

section \<open>A reservation is settled exactly once\<close>

text \<open>
  An action of the world leaves a reservation to the request that made it: its closures are known
  to nobody else.
\<close>

definition leaves_alone :: "nat \<Rightarrow> ('o service_world \<Rightarrow> 'a \<times> 'o service_world) \<Rightarrow> bool" where
  "leaves_alone i act \<longleftrightarrow> (\<forall>w r w'. act w = (r, w') \<longrightarrow> i < length (reservations (sw_quota w)) \<longrightarrow>
     i < length (reservations (sw_quota w')) \<and> reservations (sw_quota w') ! i = reservations (sw_quota w) ! i)"

text \<open>
  Whether the node takes the transaction: it is signed, sent with exactly these signatures, and the node
  answers with a receipt, be it one of a revert or the synthetic one of a timeout.
\<close>

definition node_takes :: "'o sponsor_service \<Rightarrow> signed_transaction \<Rightarrow> 'o service_world \<Rightarrow> bool" where
  "node_takes sv transaction w \<longleftrightarrow> (\<exists>sigs w1 receipt w2. sv_sign sv transaction w = (Inr sigs, w1) \<and>
     sv_send sv (transaction\<lparr>st_signatures := sigs\<rparr>) w1 = (Inr receipt, w2))"

lemma release_fate:
  assumes "i < length (reservations st)" and "rv_fate (reservations st ! i) = Held"
  shows "reservations (release i st) ! i = (reservations st ! i)\<lparr>rv_fate := Released\<rparr>" "i < length (reservations (release i st))"
  using assms by (simp_all add: release_def Let_def unhold_fields)

lemma commit_fate:
  assumes "i < length (reservations st)" and "rv_fate (reservations st ! i) = Held"
  shows "reservations (commit i u st) ! i = (reservations st ! i)\<lparr>rv_fate := Committed\<rparr>" "i < length (reservations (commit i u st))"
  using assms by (simp_all add: commit_def Let_def settle_fields)

lemma refuse_fields:
  "fst (refuse sv c w) = Refused c" "reservations (sw_quota (snd (refuse sv c w))) = reservations (sw_quota w)"
  by (simp_all add: refuse_def recordRefusal_def)

lemma broadcast_settles:
  assumes "i < length (reservations (sw_quota w))" and "rv_fate (reservations (sw_quota w) ! i) = Held"
    and "\<And>tx. leaves_alone i (sv_sign sv tx)" and "\<And>tx. leaves_alone i (sv_send sv tx)"
    and "broadcast sv tx i w = (res, w')"
  shows "reservations (sw_quota w') ! i = (reservations (sw_quota w) ! i)
    \<lparr>rv_fate := (if node_takes sv tx w then Committed else Released)\<rparr>"
    "(\<exists>c. res = Refused c) \<longleftrightarrow> \<not> node_takes sv tx w"
proof -
  have "reservations (sw_quota w') ! i = (reservations (sw_quota w) ! i)
      \<lparr>rv_fate := (if node_takes sv tx w then Committed else Released)\<rparr> \<and>
    ((\<exists>c. res = Refused c) \<longleftrightarrow> \<not> node_takes sv tx w)"
  proof -
    obtain r1 w1 where sign: "sv_sign sv tx w = (r1, w1)" by fastforce
    with assms(1,2) assms(3) [of tx] have a1: "i < length (reservations (sw_quota w1))" "rv_fate (reservations (sw_quota w1) ! i) = Held"
      "reservations (sw_quota w1) ! i = reservations (sw_quota w) ! i"
      by (auto simp: leaves_alone_def)
    show ?thesis
    proof (cases r1)
      case (Inl e)
      with assms(5) sign show ?thesis
        using release_fate [OF a1(1,2)]
        by (auto simp: node_takes_def broadcast_def refuse_def recordRefusal_def with_quota_def a1(3))
    next
      case (Inr sigs)
      obtain r2 w2 where send: "sv_send sv (tx\<lparr>st_signatures := sigs\<rparr>) w1 = (r2, w2)" by fastforce
      with a1 assms(4) [of "tx\<lparr>st_signatures := sigs\<rparr>"] have a2: "i < length (reservations (sw_quota w2))"
        "rv_fate (reservations (sw_quota w2) ! i) = Held" "reservations (sw_quota w2) ! i = reservations (sw_quota w) ! i"
        by (auto simp: leaves_alone_def)
      show ?thesis
      proof (cases r2)
        case Inl2: (Inl failure)
        with assms(5) sign send Inr show ?thesis
          using release_fate [OF a2(1,2)]
          by (auto simp: node_takes_def broadcast_def refuse_def recordRefusal_def with_quota_def a2(3))
      next
        case Inr2: (Inr receipt)
        with assms(5) sign send Inr show ?thesis
          using commit_fate [OF a2(1,2)]
          by (auto simp: node_takes_def broadcast_def with_quota_def Let_def a2(3) split: if_splits)
      qed
    qed
  qed
  then show "reservations (sw_quota w') ! i = (reservations (sw_quota w) ! i)
      \<lparr>rv_fate := (if node_takes sv tx w then Committed else Released)\<rparr>"
    "(\<exists>c. res = Refused c) \<longleftrightarrow> \<not> node_takes sv tx w" by blast+
qed

lemma reserve_granted:
  assumes "reserve limits user ops at st = ((dec, Some i), q)"
  shows "i = length (reservations st)"
    "\<exists>e. reservations q = reservations st @ [\<lparr>rv_user = user, rv_ops = ops, rv_at = at, rv_entry = e, rv_fate = Held\<rparr>]"
proof -
  obtain d st1 where c: "check limits user ops at st = (d, st1)" by fastforce
  have "reservations st1 = reservations st" using check_fields(1) [OF c] by (simp add: prune_fields)
  moreover have "i = length (reservations st1) \<and>
      (\<exists>e. reservations q = reservations st1 @ [\<lparr>rv_user = user, rv_ops = ops, rv_at = at, rv_entry = e, rv_fate = Held\<rparr>])"
    using assms c hold_fields(2) [of user ops at st1]
    by (cases d; cases "hold user ops at st1") (auto simp: reserve_def)
  ultimately show "i = length (reservations st)"
    "\<exists>e. reservations q = reservations st @ [\<lparr>rv_user = user, rv_ops = ops, rv_at = at, rv_entry = e, rv_fate = Held\<rparr>]"
    by simp_all
qed

text \<open>
  C28: The sponsor charges a user exactly for what the node took. When a request gets as far as a
  reservation, then whatever the other requests do while it waits, it ends with that reservation
  committed if the transaction it validated was signed, sent and answered with a receipt (of a revert, or
  the one of a timeout, included), and released if signing failed or the node refused it; for the payee and the
  number of operations it validated. It answers with a refusal exactly when it was not charged.
\<close>

theorem charged_iff_broadcast:
  assumes "sponsor sv inp w = (res, w')" and "sv_state sv = Serving"
    and "validateTransaction (sv_context sv) inp (sw_outside w) = (Inr vt, out)"
    and "reserve (sv_limits sv) (vt_payee vt) (length (vt_operations vt)) (sv_now sv (sw_outside w)) (sw_quota w) = ((dec, Some i), q)"
    and "\<forall>tx. leaves_alone i (sv_sign sv tx) \<and> leaves_alone i (sv_send sv tx)"
  shows "rv_user (reservations (sw_quota w') ! i) = vt_payee vt \<and>
    rv_ops (reservations (sw_quota w') ! i) = length (vt_operations vt) \<and>
    rv_fate (reservations (sw_quota w') ! i) =
      (if node_takes sv (vt_transaction vt) \<lparr>sw_quota = q, sw_outside = out\<rparr> then Committed else Released) \<and>
    ((\<exists>c. res = Refused c) \<longleftrightarrow> rv_fate (reservations (sw_quota w') ! i) = Released)"
proof -
  have b: "broadcast sv (vt_transaction vt) i \<lparr>sw_quota = q, sw_outside = out\<rparr> = (res, w')"
    using assms(1-4) by (cases w) (simp add: sponsor_def Let_def)
  have new: "i = length (reservations (sw_quota w))"
    "\<exists>e. reservations q = reservations (sw_quota w) @ [\<lparr>rv_user = vt_payee vt, rv_ops = length (vt_operations vt),
       rv_at = sv_now sv (sw_outside w), rv_entry = e, rv_fate = Held\<rparr>]"
    using reserve_granted [OF assms(4)] by auto
  then obtain e where q: "reservations q ! i = \<lparr>rv_user = vt_payee vt, rv_ops = length (vt_operations vt),
       rv_at = sv_now sv (sw_outside w), rv_entry = e, rv_fate = Held\<rparr>" "i < length (reservations q)" by auto
  have "reservations (sw_quota w') ! i = (reservations q ! i)
      \<lparr>rv_fate := (if node_takes sv (vt_transaction vt) \<lparr>sw_quota = q, sw_outside = out\<rparr> then Committed else Released)\<rparr>"
    "(\<exists>c. res = Refused c) \<longleftrightarrow> \<not> node_takes sv (vt_transaction vt) \<lparr>sw_quota = q, sw_outside = out\<rparr>"
    using broadcast_settles [OF _ _ _ _ b] q assms(5) by simp_all
  then show ?thesis by (simp add: q(1))
qed

section \<open>The properties at concrete inputs\<close>

text \<open>A service whose signer and node answer at once, and the request of the validation's example.\<close>

definition demo_service :: "nat sponsor_service" where
  "demo_service = \<lparr>sv_state = Serving, sv_context = demo_context, sv_limits = demo_limits, sv_now = (\<lambda>_. 1000),
     sv_sign = (\<lambda>tx w. (Inr [[88], [89]], w)),
     sv_send = (\<lambda>tx w. (Inr \<lparr>rc_rc_used = Some (utf16 ''7''), rc_reverted = False, rc_rpc_error = False\<rparr>, w)),
     sv_account_rc = (\<lambda>w. (Inr 10, w))\<rparr>"

definition demo_world :: "nat service_world" where
  "demo_world = \<lparr>sw_quota = quota_empty, sw_outside = 0\<rparr>"

theorem charged_iff_broadcast_witness:
  "\<exists>res w'. sponsor demo_service demo_request demo_world = (res, w') \<and>
     rv_fate (reservations (sw_quota w') ! 0) = Committed \<and> \<not> (\<exists>c. res = Refused c)"
proof -
  have inspected: "length (vt_operations vt) = 1" if "validateTransaction demo_context demo_request 0 = (Inr vt, 1)" for vt
  proof -
    obtain members r where m: "demo_request = J_obj members" and c: "check_transaction demo_context members =
        Inr (r, demo_address [65], [demo_validated], [\<lparr>oc_index = 0, oc_account = demo_address [82]\<rparr>], [demo_address [65]])"
      using demo_checked by blast
    from that show ?thesis unfolding validateTransaction_def m by (auto simp add: c demo_resolved simp del: resolve_loop.simps)
  qed
  obtain vt where v: "validateTransaction demo_context demo_request 0 = (Inr vt, 1)" using demo_validation by blast
  obtain res w' where s: "sponsor demo_service demo_request demo_world = (res, w')" by fastforce
  have v': "validateTransaction (sv_context demo_service) demo_request (sw_outside demo_world) = (Inr vt, 1)"
    using v by (simp add: demo_service_def demo_world_def)
  have "\<exists>dec q. reserve demo_limits (vt_payee vt) (length (vt_operations vt)) 1000 quota_empty = ((dec, Some 0), q)"
    by (simp add: inspected [OF v] reserve_def check_def dailyOps_def burstWindow_def window_of_def quota_empty_def demo_limits_def
        hold_def upsert_def set_window_def Let_def)
  then obtain dec q where r: "reserve (sv_limits demo_service) (vt_payee vt) (length (vt_operations vt))
      (sv_now demo_service (sw_outside demo_world)) (sw_quota demo_world) = ((dec, Some 0), q)"
    by (auto simp: demo_service_def demo_world_def)
  have alone: "\<forall>tx. leaves_alone 0 (sv_sign demo_service tx) \<and> leaves_alone 0 (sv_send demo_service tx)"
    by (simp add: demo_service_def leaves_alone_def)
  have "sv_state demo_service = Serving" by (simp add: demo_service_def)
  moreover have "node_takes demo_service tx x" for tx x by (auto simp: node_takes_def demo_service_def)
  ultimately have "rv_fate (reservations (sw_quota w') ! 0) = Committed \<and> ((\<exists>c. res = Refused c) \<longleftrightarrow> False)"
    using charged_iff_broadcast [OF s _ v' r alone] by simp
  with s show ?thesis by blast
qed

end
