(* ===== verification/Sponsor_Client.thy ===== *)
theory Sponsor_Client
  imports Sponsor_Service
begin

text \<open>
  The sponsor client of the SDK (\<open>packages/sdk/src/sponsor.ts\<close>): what it accepts from a sponsor over
  HTTP, and the pool that tries sponsors in order. Everything a sponsor sends is arbitrary JSON.
  Hashing, key recovery and the preparation of transactions belong to libraries and are parameters;
  the texts of error messages are left out.
\<close>

section \<open>JavaScript on JSON values\<close>

text \<open>\<open>v.k\<close>, which is undefined unless \<open>v\<close> is an object with that member.\<close>

definition attr :: "json option \<Rightarrow> string \<Rightarrow> json option" where
  "attr v k = (case v of Some (J_obj ms) \<Rightarrow> map_of ms k | _ \<Rightarrow> None)"

fun truthy :: "json option \<Rightarrow> bool" where
  "truthy None = False"
| "truthy (Some J_null) = False"
| "truthy (Some (J_bool b)) = b"
| "truthy (Some (J_int n)) = (n \<noteq> 0)"
| "truthy (Some (J_str s)) = (s \<noteq> [])"
| "truthy (Some v) = True"

text \<open>\<open>a === b\<close>: objects and arrays from different texts are different.\<close>

fun strict_eq :: "json option \<Rightarrow> json option \<Rightarrow> bool" where
  "strict_eq None None = True"
| "strict_eq (Some J_null) (Some J_null) = True"
| "strict_eq (Some (J_bool a)) (Some (J_bool b)) = (a = b)"
| "strict_eq (Some (J_int a)) (Some (J_int b)) = (a = b)"
| "strict_eq (Some (J_real a)) (Some (J_real b)) = (a = b)"
| "strict_eq (Some (J_str a)) (Some (J_str b)) = (a = b)"
| "strict_eq _ _ = False"

text \<open>\<open>v ?? w\<close>\<close>

definition or_value :: "json option \<Rightarrow> json \<Rightarrow> json" where
  "or_value v w = (case v of None \<Rightarrow> w | Some J_null \<Rightarrow> w | Some x \<Rightarrow> x)"

text \<open>\<open>typeof v === "object"\<close> of a value that is not null.\<close>

definition is_object :: "json option \<Rightarrow> bool" where
  "is_object v \<longleftrightarrow> (case v of Some (J_obj ms) \<Rightarrow> True | Some (J_arr xs) \<Rightarrow> True | _ \<Rightarrow> False)"

text \<open>\<open>v.length\<close> and \<open>v[i]\<close> of an array or a text; any other value counts as having no elements.\<close>

definition elements :: "json \<Rightarrow> json list" where
  "elements v = (case v of J_arr xs \<Rightarrow> xs | J_str s \<Rightarrow> map (\<lambda>c. J_str [c]) s | _ \<Rightarrow> [])"

text \<open>
  \<open>v.length\<close> as a number, \<open>None\<close> for the one that compares as false, and \<open>v[i]\<close>; an object may have members of these names.
  A length that is neither an integer nor the decimal text of one counts as no number.
\<close>

definition number_of :: "json \<Rightarrow> int option" where
  "number_of v = (case v of J_int n \<Rightarrow> Some n | J_bool b \<Rightarrow> Some (of_bool b) | J_null \<Rightarrow> Some 0
     | J_str s \<Rightarrow> if s = [] then Some 0 else decimal_text s | _ \<Rightarrow> None)"

definition length_of :: "json \<Rightarrow> int option" where
  "length_of v = (case v of J_arr xs \<Rightarrow> Some (int (length xs)) | J_str s \<Rightarrow> Some (int (length s))
     | J_obj ms \<Rightarrow> Option.bind (map_of ms ''length'') number_of | _ \<Rightarrow> None)"

definition item :: "json \<Rightarrow> nat \<Rightarrow> json option" where
  "item v i = (case v of J_obj ms \<Rightarrow> map_of ms (map (\<lambda>c. char_of (unat c)) (int_text (int i)))
     | _ \<Rightarrow> if i < length (elements v) then Some (elements v ! i) else None)"

definition compares :: "json \<Rightarrow> (int \<Rightarrow> bool) \<Rightarrow> bool" where
  "compares v P = (case length_of v of None \<Rightarrow> False | Some n \<Rightarrow> P n)"

section \<open>Errors and requests\<close>

datatype client_error =
    Sponsor_error refusal_category
  | Insufficient_mana ustring "(nat \<times> refusal_category) list"
  | Outcome_unknown json json
  | Transaction_reverted json json
  | Protocol_error
  | Other_error

type_synonym refusals = "(nat \<times> refusal_category) list" \<comment> \<open>position in the pool, category\<close>

text \<open>What \<open>JSON.parse\<close> makes of the text of a response.\<close>

datatype http_body = No_body | Not_json | Body_failed | Json_body json

record http_response =
  hp_status :: nat
  hp_body :: http_body

record client_codec =
  cc_codec :: codec
  cc_recover :: "bytes \<Rightarrow> bytes \<Rightarrow> ustring js" \<comment> \<open>\<open>Signer.recoverAddress\<close> of a hash and a signature\<close>
  cc_tx_id :: "json \<Rightarrow> json list \<Rightarrow> ustring option js" \<comment> \<open>\<open>Transaction.prepareTransaction(copy).id\<close>\<close>

record sponsor_client =
  sn_endpoint :: ustring
  sn_expected_chain :: "ustring option"

text \<open>The discovery documents that the clients of a pool have cached, next to the world outside.\<close>

record 'w client_world =
  cw_cache :: "nat \<rightharpoonup> json"
  cw_world :: 'w

type_synonym 'a client = "client_error + 'a"
type_synonym ('w, 'a) calling = "'w client_world \<Rightarrow> 'a client \<times> 'w client_world"
type_synonym 'w fetch = "ustring \<Rightarrow> string \<Rightarrow> json option \<Rightarrow> 'w \<Rightarrow> (unit + http_response) \<times> 'w"

definition give :: "'a \<Rightarrow> ('w, 'a) calling" where
  "give x s = (Inr x, s)"

definition give_up :: "client_error \<Rightarrow> ('w, 'a) calling" where
  "give_up e s = (Inl e, s)"

definition and_then :: "('w, 'a) calling \<Rightarrow> ('a \<Rightarrow> ('w, 'b) calling) \<Rightarrow> ('w, 'b) calling" where
  "and_then m k s = (case m s of (Inl e, s') \<Rightarrow> (Inl e, s') | (Inr x, s') \<Rightarrow> k x s')"

text \<open>A call into a library; what it throws is none of the errors of this package.\<close>

definition outside :: "('w, 'a) io \<Rightarrow> ('w, 'a) calling" where
  "outside m s = (case m (cw_world s) of (r, w) \<Rightarrow> (map_sum (\<lambda>_. Other_error) id r, s\<lparr>cw_world := w\<rparr>))"

section \<open>Requests\<close>

definition categoryForStatus :: "nat \<Rightarrow> refusal_category" where
  "categoryForStatus status =
     (if status = 429 then Quota_exceeded
      else if status = 413 then Too_large
      else if status = 403 then Method_not_allowed
      else if status \<ge> 500 \<or> status = 408 then Temporarily_unavailable
      else Invalid_transaction)"

definition category_of :: "json option \<Rightarrow> refusal_category option" where
  "category_of v = (case v of
       Some (J_str s) \<Rightarrow> find (\<lambda>c. utf16 (category_key c) = s)
         [Quota_exceeded, Method_not_allowed, Too_large, Chain_mismatch, Invalid_signature, Invalid_transaction, Temporarily_unavailable]
     | _ \<Rightarrow> None)"

definition read_response :: "http_response \<Rightarrow> json option client" where
  "read_response resp =
     (let good = (200 \<le> hp_status resp \<and> hp_status resp < 300);
          payload = (case hp_body resp of Json_body j \<Rightarrow> Some j | _ \<Rightarrow> None);
          errorBody = attr payload ''error''
      in if hp_body resp = Body_failed then Inl Other_error
         else if hp_body resp = Not_json \<and> good then Inl (Sponsor_error Temporarily_unavailable)
         else if \<not> good \<or> truthy errorBody
         then Inl (Sponsor_error (case category_of (attr errorBody ''category'') of Some c \<Rightarrow> c | None \<Rightarrow> categoryForStatus (hp_status resp)))
         else Inr payload)"

definition request :: "'w fetch \<Rightarrow> ustring \<Rightarrow> string \<Rightarrow> json option \<Rightarrow> ('w, json option) calling" where
  "request fetch endpoint path body s =
     (case fetch endpoint path body (cw_world s) of
        (Inl _, w) \<Rightarrow> (Inl (Sponsor_error Temporarily_unavailable), s\<lparr>cw_world := w\<rparr>)
      | (Inr resp, w) \<Rightarrow> (read_response resp, s\<lparr>cw_world := w\<rparr>))"

section \<open>Discovery\<close>

definition sponsorDiscoveryHash :: "client_codec \<Rightarrow> (string \<times> json) list \<Rightarrow> bytes" where
  "sponsorDiscoveryHash cc doc = noble_sha256 (cc_codec cc) (utf8 (canonicalJson (J_obj (filter (\<lambda>(k, v). k \<noteq> ''signature'') doc))))"

definition verifySponsorDiscovery :: "client_codec \<Rightarrow> (string \<times> json) list \<Rightarrow> bool" where
  "verifySponsorDiscovery cc doc =
     (case (map_of doc ''signature'', map_of doc ''sponsor'') of
        (Some (J_str signature), Some (J_str address)) \<Rightarrow>
          (case js_let (decode_base64url (cc_codec cc) signature) (cc_recover cc (sponsorDiscoveryHash cc doc)) of
             Inl e \<Rightarrow> False
           | Inr recovered \<Rightarrow> recovered = address)
      | _ \<Rightarrow> False)"

text \<open>An array has no member \<open>sponsor\<close>: of the objects only records can be documents.\<close>

definition check_discovery :: "client_codec \<Rightarrow> sponsor_client \<Rightarrow> json option \<Rightarrow> json client" where
  "check_discovery cc sc doc =
     (case doc of
        Some (J_obj ms) \<Rightarrow>
          if str_of (map_of ms ''sponsor'') = None then Inl (Sponsor_error Invalid_signature)
          else if \<not> verifySponsorDiscovery cc ms then Inl (Sponsor_error Invalid_signature)
          else if (case sn_expected_chain sc of None \<Rightarrow> False
                   | Some chain \<Rightarrow> chain \<noteq> [] \<and> \<not> strict_eq (attr (map_of ms ''network'') ''chainId'') (Some (J_str chain)))
          then Inl (Sponsor_error Chain_mismatch)
          else Inr (J_obj ms)
      | _ \<Rightarrow> Inl (Sponsor_error Invalid_signature))"

definition discover :: "client_codec \<Rightarrow> 'w fetch \<Rightarrow> nat \<Rightarrow> sponsor_client \<Rightarrow> bool \<Rightarrow> ('w, json) calling" where
  "discover cc fetch i sc force s =
     (case (if force then None else cw_cache s i) of
        Some doc \<Rightarrow> (Inr doc, s)
      | None \<Rightarrow>
          and_then (request fetch (sn_endpoint sc) ''/.well-known/osp-sponsor.json'' None) (\<lambda>doc s.
            case check_discovery cc sc doc of
              Inl e \<Rightarrow> (Inl e, s)
            | Inr d \<Rightarrow> (Inr d, s\<lparr>cw_cache := (cw_cache s)(i \<mapsto> d)\<rparr>)) s)"

section \<open>Verifying what a sponsor returns\<close>

definition recomputeTransactionId :: "client_codec \<Rightarrow> json option \<Rightarrow> ustring js" where
  "recomputeTransactionId cc transaction =
     (let header = attr transaction ''header''
      in if \<not> truthy header \<or> \<not> truthy (attr header ''chain_id'') \<or> attr header ''rc_limit'' = None \<or>
            attr header ''nonce'' = None \<or> \<not> truthy (attr header ''payer'')
         then Inl (Thrown (utf16 ''incomplete transaction header (chain_id, rc_limit, nonce and payer are required)''))
         else case or_value (attr transaction ''operations'') (J_arr []) of
           J_arr ops \<Rightarrow> js_let (cc_tx_id cc (the header) ops) (\<lambda>i.
             case i of Some t \<Rightarrow> if t = [] then Inl (Thrown (utf16 ''could not compute the transaction id'')) else Inr t
             | None \<Rightarrow> Inl (Thrown (utf16 ''could not compute the transaction id'')))
         | _ \<Rightarrow> Inl (Thrown (utf16 ''operations are not iterable'')))"

definition sameOperations :: "json option \<Rightarrow> json option \<Rightarrow> bool" where
  "sameOperations a b \<longleftrightarrow> canonicalJson (or_value a (J_arr [])) = canonicalJson (or_value b (J_arr []))"

definition signatures_kept :: "json option \<Rightarrow> json option \<Rightarrow> bool" where
  "signatures_kept mine returned \<longleftrightarrow>
     (let user = elements (or_value (attr mine ''signatures'') (J_arr []));
          given = or_value (attr returned ''signatures'') (J_arr [])
      in \<not> compares given (\<lambda>n. n < int (length user)) \<and>
         list_all (\<lambda>i. strict_eq (item given i) (Some (user ! i))) [0..<length user])"

definition verifySponsorResult :: "client_codec \<Rightarrow> json option \<Rightarrow> json option \<Rightarrow> json option \<Rightarrow> unit client" where
  "verifySponsorResult cc mine returned receipt =
     (let failed = Inl (Sponsor_error Invalid_transaction);
          header = attr returned ''header'';
          signedHeader = attr mine ''header''
      in if \<not> truthy (attr mine ''id'') then failed
         else if \<not> is_object returned \<or> \<not> truthy header then failed
         else if \<not> strict_eq (attr returned ''id'') (attr mine ''id'') then failed
         else if \<not> strict_eq (attr header ''payer'') (attr signedHeader ''payer'') then failed
         else if \<not> strict_eq (Some (or_value (attr header ''payee'') (J_str []))) (Some (or_value (attr signedHeader ''payee'') (J_str []))) then failed
         else if \<not> strict_eq (attr header ''chain_id'') (attr signedHeader ''chain_id'') then failed
         else if \<not> sameOperations (attr returned ''operations'') (attr mine ''operations'') then failed
         else case recomputeTransactionId cc returned of
           Inl e \<Rightarrow> failed
         | Inr recomputed \<Rightarrow>
             if \<not> strict_eq (Some (J_str recomputed)) (attr mine ''id'') then failed
             else if \<not> signatures_kept mine returned then failed
             else if \<not> is_object receipt then failed
             else if \<not> strict_eq (attr receipt ''id'') (attr mine ''id'') then failed
             else Inr ())"

section \<open>The endpoints of a sponsor\<close>

definition client_prepare :: "client_codec \<Rightarrow> 'w fetch \<Rightarrow> nat \<Rightarrow> sponsor_client \<Rightarrow> ustring \<Rightarrow> json list \<Rightarrow> ('w, json) calling" where
  "client_prepare cc fetch i sc payee operations =
     and_then (discover cc fetch i sc False) (\<lambda>discovery.
     and_then (request fetch (sn_endpoint sc) ''/v1/prepare'' (Some (J_obj [(''payee'', J_str payee), (''operations'', J_arr operations)]))) (\<lambda>body.
     let inner = attr body ''transaction'';
         transaction = (if inner = None \<or> inner = Some J_null then body else inner);
         invalid = give_up (Sponsor_error Invalid_transaction);
         header = attr transaction ''header'';
         expected = (case sn_expected_chain sc of Some c \<Rightarrow> Some (J_str c) | None \<Rightarrow> attr (attr (Some discovery) ''network'') ''chainId'')
     in if \<not> is_object transaction \<or> \<not> truthy header then invalid
        else if \<not> strict_eq (attr header ''payee'') (Some (J_str payee)) then invalid
        else if \<not> strict_eq (attr header ''payer'') (attr (Some discovery) ''sponsor'') then invalid
        else if truthy expected \<and> \<not> strict_eq (attr header ''chain_id'') expected then give_up (Sponsor_error Chain_mismatch)
        else if \<not> sameOperations (attr transaction ''operations'') (Some (J_arr operations)) then invalid
        else case recomputeTransactionId cc transaction of
          Inl e \<Rightarrow> invalid
        | Inr t \<Rightarrow>
            if attr transaction ''id'' \<noteq> None \<and> \<not> strict_eq (attr transaction ''id'') (Some (J_str t)) then invalid
            else if compares (or_value (attr transaction ''signatures'') (J_arr [])) (\<lambda>n. n > 0) then invalid
            else case transaction of
              Some (J_obj ms) \<Rightarrow> give (J_obj ((''id'', J_str t) # (''operations'', J_arr operations) #
                filter (\<lambda>(k, v). k \<noteq> ''id'' \<and> k \<noteq> ''operations'') ms))
            | _ \<Rightarrow> invalid))"

definition client_sponsor :: "client_codec \<Rightarrow> 'w fetch \<Rightarrow> sponsor_client \<Rightarrow> json \<Rightarrow> ('w, json \<times> json) calling" where
  "client_sponsor cc fetch sc transaction =
     and_then (request fetch (sn_endpoint sc) ''/v1/sponsor'' (Some (J_obj [(''transaction'', transaction)]))) (\<lambda>body.
     if \<not> truthy (attr body ''transaction'') \<or> \<not> truthy (attr body ''receipt'') then give_up (Sponsor_error Invalid_transaction)
     else case verifySponsorResult cc (Some transaction) (attr body ''transaction'') (attr body ''receipt'') of
       Inl e \<Rightarrow> give_up e
     | Inr _ \<Rightarrow> give (the (attr body ''transaction''), the (attr body ''receipt'')))"

section \<open>The pool\<close>

fun tryEach :: "(nat \<Rightarrow> sponsor_client \<Rightarrow> ('w, 'a) calling) \<Rightarrow> nat \<Rightarrow> sponsor_client list \<Rightarrow> refusals \<Rightarrow> ('w, 'a option \<times> refusals) calling" where
  "tryEach try1 i [] refusals s = (Inr (None, refusals), s)"
| "tryEach try1 i (sc # rest) refusals s =
     (case try1 i sc s of
        (Inr value, s') \<Rightarrow> (Inr (Some value, refusals), s')
      | (Inl (Sponsor_error category), s') \<Rightarrow> tryEach try1 (Suc i) rest (refusals @ [(i, category)]) s'
      | (Inl e, s') \<Rightarrow> (Inl e, s'))"

section \<open>What verification establishes\<close>

lemma strict_eq_Str [simp]: "strict_eq v (Some (J_str t)) \<longleftrightarrow> v = Some (J_str t)"
  by (cases v rule: option.exhaust, simp, rename_tac j, case_tac j) auto

lemma strict_eq_Str' [simp]: "strict_eq (Some (J_str t)) v \<longleftrightarrow> v = Some (J_str t)"
  by (cases v rule: option.exhaust, simp, rename_tac j, case_tac j) auto

lemma strict_eq_eq: "strict_eq v w \<Longrightarrow> v = w"
  by (induction v w rule: strict_eq.induct) auto

text \<open>The signatures of the user come first, so that an array of signatures extends that of the user.\<close>

definition keeps_signatures :: "json list \<Rightarrow> json \<Rightarrow> bool" where
  "keeps_signatures user given \<longleftrightarrow> (\<forall>i < length user. item given i = Some (user ! i)) \<and>
     (\<forall>xs. given = J_arr xs \<longrightarrow> (\<exists>more. xs = user @ more))"

text \<open>The returned copy is the transaction the user signed, and the receipt is for it.\<close>

definition faithful_copy :: "client_codec \<Rightarrow> json \<Rightarrow> json \<Rightarrow> json \<Rightarrow> bool" where
  "faithful_copy cc mine returned receipt \<longleftrightarrow>
     (\<exists>t. t \<noteq> [] \<and> attr (Some mine) ''id'' = Some (J_str t) \<and> attr (Some returned) ''id'' = Some (J_str t) \<and>
        attr (Some receipt) ''id'' = Some (J_str t) \<and> recomputeTransactionId cc (Some returned) = Inr t) \<and>
     (\<forall>k \<in> {''payer'', ''chain_id''}. attr (attr (Some returned) ''header'') k = attr (attr (Some mine) ''header'') k) \<and>
     or_value (attr (attr (Some returned) ''header'') ''payee'') (J_str []) = or_value (attr (attr (Some mine) ''header'') ''payee'') (J_str []) \<and>
     sameOperations (attr (Some returned) ''operations'') (attr (Some mine) ''operations'') \<and>
     keeps_signatures (elements (or_value (attr (Some mine) ''signatures'') (J_arr []))) (or_value (attr (Some returned) ''signatures'') (J_arr []))"

lemma recompute_nonempty: "recomputeTransactionId cc v = Inr t \<Longrightarrow> t \<noteq> []"
  by (auto simp: recomputeTransactionId_def Let_def split: if_splits json.splits option.splits)

lemma signatures_prefix:
  assumes "signatures_kept mine returned"
  shows "keeps_signatures (elements (or_value (attr mine ''signatures'') (J_arr []))) (or_value (attr returned ''signatures'') (J_arr []))"
proof -
  let ?given = "or_value (attr returned ''signatures'') (J_arr [])"
  let ?user = "elements (or_value (attr mine ''signatures'') (J_arr []))"
  have kept: "\<not> compares ?given (\<lambda>n. n < int (length ?user))" "\<forall>i < length ?user. item ?given i = Some (?user ! i)"
    using assms by (auto simp: signatures_kept_def Let_def list_all_iff dest: strict_eq_eq)
  have "\<exists>more. xs = ?user @ more" if xs: "?given = J_arr xs" for xs
  proof -
    have long: "length ?user \<le> length xs" using kept(1) by (simp add: xs compares_def length_of_def)
    have "xs ! i = ?user ! i" if "i < length ?user" for i
      using kept(2) that long by (auto simp: xs item_def elements_def)
    with long have "?user = take (length ?user) xs" by (intro nth_equalityI) simp_all
    then show ?thesis by (metis append_take_drop_id)
  qed
  with kept(2) show ?thesis by (simp add: keeps_signatures_def)
qed

lemma verified_copy:
  assumes "verifySponsorResult cc (Some mine) (Some returned) (Some receipt) = Inr ()"
  shows "faithful_copy cc mine returned receipt"
proof -
  from assms obtain t where t: "recomputeTransactionId cc (Some returned) = Inr t" "attr (Some mine) ''id'' = Some (J_str t)"
    by (auto simp: verifySponsorResult_def Let_def split: if_splits sum.splits)
  with assms have "attr (Some returned) ''id'' = Some (J_str t)" "attr (Some receipt) ''id'' = Some (J_str t)"
    and "\<forall>k \<in> {''payer'', ''chain_id''}. attr (attr (Some returned) ''header'') k = attr (attr (Some mine) ''header'') k"
    and "or_value (attr (attr (Some returned) ''header'') ''payee'') (J_str []) = or_value (attr (attr (Some mine) ''header'') ''payee'') (J_str [])"
    and "sameOperations (attr (Some returned) ''operations'') (attr (Some mine) ''operations'')"
    and "signatures_kept (Some mine) (Some returned)"
    by (auto simp: verifySponsorResult_def Let_def split: if_splits dest: strict_eq_eq)
  with t recompute_nonempty [OF t(1)] signatures_prefix show ?thesis unfolding faithful_copy_def by blast
qed

end
