(* ===== verification/Protocol_Client.thy ===== *)
theory Protocol_Client
  imports Sponsor_Client
begin

text \<open>
  Preparing, signing and submitting transactions (\<open>packages/sdk/src/client/protocolClient.ts\<close>): sponsors
  in order, then self-pay. The RPC node, the user and HTTP are parameters. The decoded events of
  the result and the wait for a block are left out.
\<close>

section \<open>Budgets\<close>

definition MAX_U64 :: int where "MAX_U64 = 0xffffffffffffffff"

definition validatedRcLimit :: "json \<Rightarrow> ustring \<Rightarrow> ustring client" where
  "validatedRcLimit value payer =
     (let limit = (case value of
          J_str s \<Rightarrow> if s \<noteq> [] \<and> list_all is_digit s then Some (digits_value s) else None
        | J_int n \<Rightarrow> if 0 \<le> n \<and> n \<le> 9007199254740991 then Some n else None
        | _ \<Rightarrow> None)
      in case limit of
           None \<Rightarrow> Inl Protocol_error
         | Some n \<Rightarrow> if n > MAX_U64 then Inl Protocol_error
             else if n = 0 then Inl (Insufficient_mana payer [])
             else Inr (int_text n))"

text \<open>\<open>BigInt(v)\<close>; of the texts, decimal integers and the empty text are numbers here.\<close>

definition big_int :: "json \<Rightarrow> int option" where
  "big_int v = (case v of J_int n \<Rightarrow> Some n | J_bool b \<Rightarrow> Some (of_bool b)
     | J_str s \<Rightarrow> if s = [] then Some 0 else decimal_text s | _ \<Rightarrow> None)"

definition sponsoredRcLimit :: "json \<Rightarrow> nat \<Rightarrow> ustring option" where
  "sponsoredRcLimit discovery operationCount =
     (let raw = attr (attr (Some discovery) ''policy'') ''maxRcPerOp''
      in if raw = None \<or> raw = Some J_null \<or> operationCount < 1 then None
         else case big_int (the raw) of
           None \<Rightarrow> None
         | Some perOp \<Rightarrow> if perOp \<le> 0 then None else Some (int_text (perOp * int operationCount)))"

section \<open>The client\<close>

record 'w rpc_node =
  rn_account_rc :: "ustring \<Rightarrow> ('w, json) io"
  rn_prepare :: "json \<Rightarrow> json list \<Rightarrow> ustring \<Rightarrow> ('w, json) io" \<comment> \<open>\<open>Transaction.prepareTransaction\<close> of header and operations\<close>
  rn_send :: "json \<Rightarrow> bool \<Rightarrow> ('w, json \<times> json) io"

record 'w user_signer =
  us_address :: ustring
  us_sign :: "json \<Rightarrow> ('w, json) io"

record 'w protocol_client =
  cl_chain :: ustring
  cl_node :: "'w rpc_node"
  cl_codec :: client_codec
  cl_fetch :: "'w fetch"
  cl_sponsors :: "sponsor_client list"

definition prepare :: "'w protocol_client \<Rightarrow> json list \<Rightarrow> ustring \<Rightarrow> ustring option \<Rightarrow> json option \<Rightarrow> ustring option \<Rightarrow> ('w, json) calling" where
  "prepare cl operations payee payer_given rcLimit nonce =
     (if operations = [] then give_up Protocol_error
      else let payer = (case payer_given of Some p \<Rightarrow> p | None \<Rightarrow> payee)
        in and_then (if rcLimit = None \<or> rcLimit = Some J_null then outside (rn_account_rc (cl_node cl) payer) else give (the rcLimit)) (\<lambda>value.
           case validatedRcLimit value payer of
             Inl e \<Rightarrow> give_up e
           | Inr limit \<Rightarrow>
               outside (rn_prepare (cl_node cl)
                 (J_obj ([(''chain_id'', J_str (cl_chain cl)), (''payer'', J_str payer)] @
                    (if payer \<noteq> payee then [(''payee'', J_str payee)] else []) @ [(''rc_limit'', J_str limit)] @
                    (case nonce of None \<Rightarrow> [] | Some n \<Rightarrow> [(''nonce'', J_str n)])))
                 operations payer)))"

definition sign :: "json \<Rightarrow> 'w user_signer \<Rightarrow> ('w, json) calling" where
  "sign transaction user =
     (if \<not> truthy (attr (Some transaction) ''id'') then give_up Protocol_error else outside (us_sign user transaction))"

definition receipt_unknown :: "json \<Rightarrow> bool" where
  "receipt_unknown receipt \<longleftrightarrow> attr (Some receipt) ''rpc_error'' \<noteq> None \<and> attr (Some receipt) ''rpc_error'' \<noteq> Some J_null"

definition assertReceipt :: "json \<Rightarrow> json \<Rightarrow> ('w, unit) calling" where
  "assertReceipt transaction receipt =
     (if receipt_unknown receipt then give_up (Outcome_unknown transaction receipt)
      else if truthy (attr (Some receipt) ''reverted'') then give_up (Transaction_reverted transaction receipt)
      else give ())"

definition client_broadcast :: "'w protocol_client \<Rightarrow> json \<Rightarrow> ('w, json \<times> json) calling" where
  "client_broadcast cl transaction =
     and_then (outside (rn_send (cl_node cl) transaction True)) (\<lambda>(sent, receipt).
     and_then (assertReceipt sent receipt) (\<lambda>_. give (sent, receipt)))"

record simulate_result =
  sm_receipt :: json
  sm_rc_used :: json
  sm_logs :: json
  sm_reverted :: bool

definition simulate :: "'w protocol_client \<Rightarrow> json \<Rightarrow> ('w, simulate_result) calling" where
  "simulate cl transaction =
     and_then (outside (rn_send (cl_node cl) transaction False)) (\<lambda>(sent, receipt).
     if receipt_unknown receipt then give_up (Outcome_unknown transaction receipt)
     else give \<lparr>sm_receipt = receipt, sm_rc_used = or_value (attr (Some receipt) ''rc_used'') (J_str (utf16 ''0'')),
       sm_logs = or_value (attr (Some receipt) ''logs'') (J_arr []), sm_reverted = truthy (attr (Some receipt) ''reverted'')\<rparr>)"

section \<open>Submitting\<close>

datatype sponsor_choice = Client_default | Self_pay | One_sponsor sponsor_client | Sponsor_pool "sponsor_client list"

definition pool_of :: "'w protocol_client \<Rightarrow> sponsor_choice \<Rightarrow> sponsor_client list" where
  "pool_of cl choice = (case choice of Client_default \<Rightarrow> cl_sponsors cl | Self_pay \<Rightarrow> [] | One_sponsor sc \<Rightarrow> [sc] | Sponsor_pool scs \<Rightarrow> scs)"

record submit_result =
  su_transaction :: json
  su_receipt :: json
  su_rc_used :: json
  su_sponsor :: "ustring option" \<comment> \<open>the sponsor's address when sponsored\<close>
  su_refusals :: refusals

definition attempt_sponsor :: "'w protocol_client \<Rightarrow> 'w user_signer \<Rightarrow> json list \<Rightarrow> json option \<Rightarrow> nat \<Rightarrow> sponsor_client \<Rightarrow>
    ('w, json \<times> json \<times> ustring) calling" where
  "attempt_sponsor cl user operations rcLimit i sc =
     and_then (discover (cl_codec cl) (cl_fetch cl) i sc False) (\<lambda>discovery.
     let chain = attr (attr (Some discovery) ''network'') ''chainId''
     in if truthy chain \<and> \<not> strict_eq chain (Some (J_str (cl_chain cl))) then give_up (Sponsor_error Chain_mismatch)
        else let limit = (if rcLimit = None \<or> rcLimit = Some J_null then map_option J_str (sponsoredRcLimit discovery (length operations)) else rcLimit);
                 address = (case attr (Some discovery) ''sponsor'' of Some (J_str a) \<Rightarrow> a | _ \<Rightarrow> [])
          in and_then (prepare cl operations (us_address user) (Some address) limit None) (\<lambda>prepared.
             and_then (sign prepared user) (\<lambda>mine.
             and_then (client_sponsor (cl_codec cl) (cl_fetch cl) sc mine) (\<lambda>(transaction, receipt).
             case verifySponsorResult (cl_codec cl) (Some mine) (Some transaction) (Some receipt) of
               Inl e \<Rightarrow> give_up e
             | Inr _ \<Rightarrow> give (transaction, receipt, address)))))"

definition submitted :: "json \<Rightarrow> json \<Rightarrow> ustring option \<Rightarrow> refusals \<Rightarrow> submit_result" where
  "submitted transaction receipt sponsor_address refs =
     \<lparr>su_transaction = transaction, su_receipt = receipt, su_rc_used = or_value (attr (Some receipt) ''rc_used'') (J_str (utf16 ''0'')),
      su_sponsor = sponsor_address, su_refusals = refs\<rparr>"

definition self_pay :: "'w protocol_client \<Rightarrow> 'w user_signer \<Rightarrow> json list \<Rightarrow> json option \<Rightarrow> refusals \<Rightarrow> ('w, submit_result) calling" where
  "self_pay cl user operations rcLimit refs s =
     (case prepare cl operations (us_address user) None rcLimit None s of
        (Inl (Insufficient_mana payer rs), s') \<Rightarrow> (Inl (Insufficient_mana payer (if refs = [] then rs else refs)), s')
      | (Inl e, s') \<Rightarrow> (Inl e, s')
      | (Inr prepared, s') \<Rightarrow>
          and_then (sign prepared user) (\<lambda>mine.
          and_then (client_broadcast cl mine) (\<lambda>(transaction, receipt).
          give (submitted transaction receipt None refs))) s')"

definition submit :: "'w protocol_client \<Rightarrow> 'w user_signer \<Rightarrow> json list \<Rightarrow> sponsor_choice \<Rightarrow> bool \<Rightarrow> json option \<Rightarrow> ('w, submit_result) calling" where
  "submit cl user operations choice selfPayFallback rcLimit =
     (let pool = pool_of cl choice
      in and_then (tryEach (attempt_sponsor cl user operations rcLimit) 0 pool []) (\<lambda>(found, refs).
         case found of
           Some (transaction, receipt, address) \<Rightarrow>
             and_then (assertReceipt transaction receipt) (\<lambda>_. give (submitted transaction receipt (Some address) refs))
         | None \<Rightarrow>
             if \<not> selfPayFallback \<and> pool \<noteq> [] then give_up (if refs = [] then Protocol_error else Sponsor_error (snd (last refs)))
             else self_pay cl user operations rcLimit refs))"

section \<open>Computations of the client\<close>

lemma give_eq [simp]: "give x s = (Inr x, s)"
  by (simp add: give_def)

lemma give_up_eq [simp]: "give_up e s = (Inl e, s)"
  by (simp add: give_up_def)

lemma and_then_Inr [simp]: "and_then m k s = (Inr y, s') \<longleftrightarrow> (\<exists>x s1. m s = (Inr x, s1) \<and> k x s1 = (Inr y, s'))"
  by (auto simp: and_then_def split: prod.splits sum.splits)

lemma outside_Inr [simp]: "outside m s = (Inr x, s') \<longleftrightarrow> (\<exists>w. m (cw_world s) = (Inr x, w) \<and> s' = s\<lparr>cw_world := w\<rparr>)"
proof (cases "m (cw_world s)")
  case (Pair r w)
  then show ?thesis by (cases r) (auto simp: outside_def)
qed

lemma client_if_Inr [simp]: "(if c then give_up e else m) s = (Inr x, s') \<longleftrightarrow> \<not> c \<and> m s = (Inr x, s')"
  by simp

lemma checked_give [simp]:
  "(case v of Inl e \<Rightarrow> give_up e | Inr _ \<Rightarrow> give x) s = (Inr y, s') \<longleftrightarrow> v = Inr () \<and> x = y \<and> s' = s"
  by (cases v) auto

text \<open>The discovery documents a client has cached are signed by the sponsor they name.\<close>

definition documents_ok :: "client_codec \<Rightarrow> 'w client_world \<Rightarrow> bool" where
  "documents_ok cc s \<longleftrightarrow> (\<forall>i doc. cw_cache s i = Some doc \<longrightarrow> (\<exists>ms. doc = J_obj ms \<and> verifySponsorDiscovery cc ms))"

text \<open>Computations that keep a property of the client's world.\<close>

definition keeps :: "('w client_world \<Rightarrow> bool) \<Rightarrow> ('w, 'a) calling \<Rightarrow> bool" where
  "keeps P m \<longleftrightarrow> (\<forall>s. P s \<longrightarrow> P (snd (m s)))"

named_theorems keeping \<open>computations that keep a property\<close>

lemma keeps_give [keeping]: "keeps P (give x)"
  by (simp add: keeps_def)

lemma keeps_give_up [keeping]: "keeps P (give_up e)"
  by (simp add: keeps_def)

lemma keeps_and_then [keeping]: "keeps P m \<Longrightarrow> (\<And>x. keeps P (k x)) \<Longrightarrow> keeps P (and_then m k)"
  by (auto simp: keeps_def and_then_def split: prod.splits sum.splits)

lemma keeps_if [keeping]: "keeps P m \<Longrightarrow> keeps P n \<Longrightarrow> keeps P (if c then m else n)"
  by simp

lemma keeps_sum [keeping]:
  "(\<And>e. keeps P (f e)) \<Longrightarrow> (\<And>x. keeps P (g x)) \<Longrightarrow> keeps P (case v of Inl e \<Rightarrow> f e | Inr x \<Rightarrow> g x)"
  by (cases v) simp_all

lemma keeps_prod [keeping]: "(\<And>x y. keeps P (f x y)) \<Longrightarrow> keeps P (case v of (x, y) \<Rightarrow> f x y)"
  by (cases v) simp

lemma keeps_option [keeping]: "keeps P f \<Longrightarrow> (\<And>x. keeps P (g x)) \<Longrightarrow> keeps P (case v of None \<Rightarrow> f | Some x \<Rightarrow> g x)"
  by (cases v) simp_all

lemma keeps_outside: "(\<And>s. P s \<Longrightarrow> P (s\<lparr>cw_world := snd (m (cw_world s))\<rparr>)) \<Longrightarrow> keeps P (outside m)"
  by (simp add: keeps_def outside_def split: prod.split) (metis snd_conv)

lemma keeps_request: "(\<And>s. P s \<Longrightarrow> P (s\<lparr>cw_world := snd (fetch endpoint path body (cw_world s))\<rparr>)) \<Longrightarrow>
    keeps P (request fetch endpoint path body)"
  by (simp add: keeps_def request_def split: prod.split sum.split) (metis snd_conv)

text \<open>
  What the outside world leaves as it is, the client's own code leaves as it is: the environment
  of a client and the laws it has to keep for a property of the client's world to be an invariant.
\<close>

locale client_invariant =
  fixes P :: "'w client_world \<Rightarrow> bool" and cl :: "'w protocol_client" and user :: "'w user_signer"
  assumes rc_keeps: "P s \<Longrightarrow> P (s\<lparr>cw_world := snd (rn_account_rc (cl_node cl) a (cw_world s))\<rparr>)"
    and prepare_keeps: "P s \<Longrightarrow> P (s\<lparr>cw_world := snd (rn_prepare (cl_node cl) h ops a (cw_world s))\<rparr>)"
    and sign_keeps: "P s \<Longrightarrow> P (s\<lparr>cw_world := snd (us_sign user t (cw_world s))\<rparr>)"
    and fetch_keeps: "P s \<Longrightarrow> P (s\<lparr>cw_world := snd (cl_fetch cl endpoint path body (cw_world s))\<rparr>)"
    and store_keeps: "P s \<Longrightarrow> check_discovery (cl_codec cl) sc doc = Inr d \<Longrightarrow> P (s\<lparr>cw_cache := (cw_cache s)(i \<mapsto> d)\<rparr>)"
begin

lemma discovering: "keeps P (discover (cl_codec cl) (cl_fetch cl) i sc force)"
proof -
  let ?store = "\<lambda>doc s. case check_discovery (cl_codec cl) sc doc of Inl e \<Rightarrow> (Inl e, s) | Inr d \<Rightarrow> (Inr d, s\<lparr>cw_cache := (cw_cache s)(i \<mapsto> d)\<rparr>)"
  have "keeps P (?store doc)" for doc
    by (cases "check_discovery (cl_codec cl) sc doc") (simp_all add: keeps_def store_keeps)
  then have asks: "keeps P (and_then (request (cl_fetch cl) (sn_endpoint sc) ''/.well-known/osp-sponsor.json'' None) ?store)"
    by (intro keeps_and_then keeps_request fetch_keeps)
  show ?thesis unfolding keeps_def
  proof (intro allI impI)
    fix s assume P: "P s"
    show "P (snd (discover (cl_codec cl) (cl_fetch cl) i sc force s))"
    proof (cases "if force then None else cw_cache s i")
      case None
      with asks P show ?thesis by (simp only: discover_def keeps_def option.case)
    qed (use P in \<open>simp add: discover_def\<close>)
  qed
qed

lemma preparing: "keeps P (prepare cl operations payee payer_given limit nonce)"
  unfolding prepare_def Let_def by (intro keeping keeps_outside rc_keeps prepare_keeps)

lemma signing: "keeps P (sign t user)"
  unfolding sign_def by (intro keeping keeps_outside sign_keeps)

lemma sponsoring: "keeps P (client_sponsor (cl_codec cl) (cl_fetch cl) sc t)"
  unfolding client_sponsor_def Let_def by (intro keeping keeps_request fetch_keeps)

lemma attempting: "keeps P (attempt_sponsor cl user operations limit i sc)"
  unfolding attempt_sponsor_def Let_def by (intro keeping discovering preparing signing sponsoring)

lemma trying: "keeps P (tryEach (attempt_sponsor cl user operations limit) i pool refs)"
  unfolding keeps_def
proof (intro allI impI)
  fix s assume "P s"
  then show "P (snd (tryEach (attempt_sponsor cl user operations limit) i pool refs s))"
  proof (induction pool arbitrary: i refs s)
    case (Cons sc pool)
    with attempting [of operations limit i sc] have "P (snd (attempt_sponsor cl user operations limit i sc s))"
      by (simp add: keeps_def)
    with Cons.IH show ?case by (auto split: prod.split sum.split client_error.split)
  qed simp
qed

lemma tried:
  assumes "tryEach (attempt_sponsor cl user operations limit) i pool refs s = (Inr (Some v, refs'), s')" and "P s"
  shows "\<exists>j sc s1 s2. attempt_sponsor cl user operations limit j sc s1 = (Inr v, s2) \<and> P s1"
  using assms
proof (induction pool arbitrary: i refs s)
  case (Cons sc pool)
  have kept: "P (snd (attempt_sponsor cl user operations limit i sc s))"
    using attempting Cons.prems(2) by (simp add: keeps_def)
  show ?case
  proof (cases "attempt_sponsor cl user operations limit i sc s")
    case (Pair r s1)
    with Cons kept show ?thesis by (auto split: sum.splits client_error.splits)
  qed
qed simp

end

lemma checked_document: "check_discovery cc sc v = Inr d \<Longrightarrow> \<exists>ms a. d = J_obj ms \<and> verifySponsorDiscovery cc ms \<and> map_of ms ''sponsor'' = Some (J_str a)"
  by (auto simp: check_discovery_def split: option.splits json.splits if_splits)

text \<open>Cached documents stay signed, whatever the outside world does.\<close>

interpretation documents: client_invariant "documents_ok (cl_codec cl)" cl user for cl user
  by unfold_locales (auto simp: documents_ok_def dest: checked_document)

lemma verified_names_sponsor: "verifySponsorDiscovery cc ms \<Longrightarrow> \<exists>a. map_of ms ''sponsor'' = Some (J_str a)"
proof (cases "map_of ms ''sponsor''")
  case (Some v)
  moreover assume "verifySponsorDiscovery cc ms"
  ultimately show ?thesis by (cases v) (simp_all add: verifySponsorDiscovery_def split: option.split_asm json.split_asm)
qed (simp add: verifySponsorDiscovery_def split: option.split_asm json.split_asm)

lemma discovered:
  assumes "discover cc fetch i sc force s = (Inr d, s')" and "documents_ok cc s"
  shows "\<exists>ms a. d = J_obj ms \<and> verifySponsorDiscovery cc ms \<and> map_of ms ''sponsor'' = Some (J_str a)"
proof (cases "if force then None else cw_cache s i")
  case None
  with assms(1) obtain doc s1 where "(case check_discovery cc sc doc of
      Inl e \<Rightarrow> (Inl e, s1) | Inr d \<Rightarrow> (Inr d, s1\<lparr>cw_cache := (cw_cache s1)(i \<mapsto> d)\<rparr>)) = (Inr d, s')"
    by (auto simp: discover_def)
  then have "check_discovery cc sc doc = Inr d" by (cases "check_discovery cc sc doc") auto
  then show ?thesis by (rule checked_document)
next
  case (Some doc)
  with assms have "d = doc" "cw_cache s i = Some doc" by (auto simp: discover_def split: if_splits)
  with assms(2) obtain ms where "d = J_obj ms" "verifySponsorDiscovery cc ms" by (auto simp: documents_ok_def)
  with verified_names_sponsor show ?thesis by blast
qed

section \<open>A sponsored result is what the user asked for\<close>

text \<open>What a call into a library may return.\<close>

definition may_answer :: "('w, 'a) io \<Rightarrow> 'a \<Rightarrow> bool" where
  "may_answer m x \<longleftrightarrow> (\<exists>w w'. m w = (Inr x, w'))"

lemma outside_answers: "outside m s = (Inr x, s') \<Longrightarrow> may_answer m x"
  by (auto simp: may_answer_def)

text \<open>
  koilib keeps the header fields and the operations it is given when it prepares a transaction,
  and a signer keeps header and operations.
\<close>

definition keeps_request :: "'w protocol_client \<Rightarrow> 'w user_signer \<Rightarrow> bool" where
  "keeps_request cl user \<longleftrightarrow>
     (\<forall>header ops payer t. may_answer (rn_prepare (cl_node cl) (J_obj header) ops payer) t \<longrightarrow>
        attr (Some t) ''operations'' = Some (J_arr ops) \<and>
        (\<forall>k v. map_of header k = Some v \<longrightarrow> attr (attr (Some t) ''header'') k = Some v)) \<and>
     (\<forall>t m. may_answer (us_sign user t) m \<longrightarrow>
        attr (Some m) ''operations'' = attr (Some t) ''operations'' \<and> attr (Some m) ''header'' = attr (Some t) ''header'')"

lemma validated_limit:
  assumes "validatedRcLimit v payer = Inr l"
  shows "\<exists>n. l = int_text n \<and> 0 < n \<and> n \<le> MAX_U64"
proof -
  from assms obtain n where n: "l = int_text n" "n \<le> MAX_U64" "n \<noteq> 0" "0 \<le> n"
    by (auto simp: validatedRcLimit_def Let_def digits_nonneg split: option.split_asm json.split_asm if_split_asm)
  then show ?thesis by (intro exI [of _ n]) simp
qed

lemma prepared:
  assumes "prepare cl operations payee (Some address) limit nonce s = (Inr t, s')"
  shows "\<exists>header n. may_answer (rn_prepare (cl_node cl) (J_obj header) operations address) t \<and>
     map_of header ''chain_id'' = Some (J_str (cl_chain cl)) \<and> map_of header ''payer'' = Some (J_str address) \<and>
     (address \<noteq> payee \<longrightarrow> map_of header ''payee'' = Some (J_str payee)) \<and>
     map_of header ''rc_limit'' = Some (J_str (int_text n)) \<and> 0 < n \<and> n \<le> MAX_U64"
proof -
  let ?header = "\<lambda>l. [(''chain_id'', J_str (cl_chain cl)), (''payer'', J_str address)] @
     (if address \<noteq> payee then [(''payee'', J_str payee)] else []) @ [(''rc_limit'', J_str l)] @
     (case nonce of None \<Rightarrow> [] | Some n \<Rightarrow> [(''nonce'', J_str n)])"
  let ?limit = "if limit = None \<or> limit = Some J_null then outside (rn_account_rc (cl_node cl) address) else give (the limit)"
  from assms obtain v s1 where "?limit s = (Inr v, s1)" and
    "(case validatedRcLimit v address of Inl e \<Rightarrow> give_up e
      | Inr l \<Rightarrow> outside (rn_prepare (cl_node cl) (J_obj (?header l)) operations address)) s1 = (Inr t, s')"
    unfolding prepare_def Let_def option.case client_if_Inr and_then_Inr by blast
  then obtain l where l: "validatedRcLimit v address = Inr l" and t: "may_answer (rn_prepare (cl_node cl) (J_obj (?header l)) operations address) t"
    by (cases "validatedRcLimit v address") (auto simp del: outside_Inr dest: outside_answers)
  from validated_limit [OF l] obtain n where "l = int_text n" "0 < n" "n \<le> MAX_U64" by blast
  with t show ?thesis by (intro exI [of _ "?header l"] exI [of _ n]) auto
qed

lemma attempted:
  assumes "attempt_sponsor cl user operations limit i sc s = (Inr (transaction, receipt, address), s')"
    and "documents_ok (cl_codec cl) s"
  shows "\<exists>ms t mine limit' s1 s2. verifySponsorDiscovery (cl_codec cl) ms \<and> map_of ms ''sponsor'' = Some (J_str address) \<and>
     prepare cl operations (us_address user) (Some address) limit' None s1 = (Inr t, s2) \<and>
     may_answer (us_sign user t) mine \<and> faithful_copy (cl_codec cl) mine transaction receipt"
proof -
  let ?address = "\<lambda>d. case attr (Some d) ''sponsor'' of Some (J_str a) \<Rightarrow> a | _ \<Rightarrow> []"
  let ?limit = "\<lambda>d. if limit = None \<or> limit = Some J_null then map_option J_str (sponsoredRcLimit d (length operations)) else limit"
  from assms(1) have "\<exists>d s1. discover (cl_codec cl) (cl_fetch cl) i sc False s = (Inr d, s1) \<and>
      (\<exists>t s2. prepare cl operations (us_address user) (Some (?address d)) (?limit d) None s1 = (Inr t, s2) \<and>
      (\<exists>mine s3. sign t user s2 = (Inr mine, s3) \<and>
      (\<exists>r s4. verifySponsorResult (cl_codec cl) (Some mine) (Some (fst r)) (Some (snd r)) = Inr () \<and>
         (fst r, snd r, ?address d) = (transaction, receipt, address))))"
    unfolding attempt_sponsor_def Let_def client_if_Inr and_then_Inr case_prod_beta checked_give by blast
  then obtain d s1 t s2 mine s3
    where d: "discover (cl_codec cl) (cl_fetch cl) i sc False s = (Inr d, s1)"
      and t: "prepare cl operations (us_address user) (Some (?address d)) (?limit d) None s1 = (Inr t, s2)"
      and mine: "sign t user s2 = (Inr mine, s3)"
      and copy: "verifySponsorResult (cl_codec cl) (Some mine) (Some transaction) (Some receipt) = Inr ()"
      and address: "address = ?address d"
    by auto
  from discovered [OF d assms(2)] obtain ms a where "d = J_obj ms" "verifySponsorDiscovery (cl_codec cl) ms" "map_of ms ''sponsor'' = Some (J_str a)"
    by blast
  moreover have "may_answer (us_sign user t) mine"
    using mine unfolding sign_def client_if_Inr by (blast dest: outside_answers)
  ultimately show ?thesis using t verified_copy [OF copy] address by (force simp: attr_def)
qed

lemma self_paid:
  assumes "self_pay cl user operations limit refs s = (Inr r, s')"
  shows "su_sponsor r = None"
proof (cases "prepare cl operations (us_address user) None limit None s")
  case (Pair x s1)
  with assms show ?thesis
    by (cases x) (auto simp: self_pay_def submitted_def case_prod_beta split: client_error.splits)
qed

lemma sponsored_submit:
  assumes "submit cl user operations choice fallback limit s = (Inr r, s')" and "su_sponsor r = Some address"
  shows "\<exists>refs s1. tryEach (attempt_sponsor cl user operations limit) 0 (pool_of cl choice) [] s =
       (Inr (Some (su_transaction r, su_receipt r, address), refs), s1) \<and>
     \<not> receipt_unknown (su_receipt r) \<and> \<not> truthy (attr (Some (su_receipt r)) ''reverted'')"
proof -
  from assms(1) obtain found refs s1 where tries: "tryEach (attempt_sponsor cl user operations limit) 0 (pool_of cl choice) [] s = (Inr (found, refs), s1)"
    and rest: "(case found of
           Some (transaction, receipt, address) \<Rightarrow>
             and_then (assertReceipt transaction receipt) (\<lambda>_. give (submitted transaction receipt (Some address) refs))
         | None \<Rightarrow>
             if \<not> fallback \<and> pool_of cl choice \<noteq> [] then give_up (if refs = [] then Protocol_error else Sponsor_error (snd (last refs)))
             else self_pay cl user operations limit refs) s1 = (Inr r, s')"
    by (auto simp: submit_def Let_def simp del: client_if_Inr)
  show ?thesis
  proof (cases found)
    case None
    with rest assms(2) self_paid show ?thesis by (fastforce split: if_splits)
  next
    case (Some v)
    then obtain t rc a where "found = Some (t, rc, a)" by (cases v) auto
    with rest tries assms(2) show ?thesis by (auto simp: assertReceipt_def submitted_def)
  qed
qed

lemma request_kept:
  assumes "keeps_request cl user" and "may_answer (rn_prepare (cl_node cl) (J_obj header) ops a) t" and "may_answer (us_sign user t) m"
  shows "attr (Some m) ''operations'' = Some (J_arr ops)"
    "map_of header k = Some v \<Longrightarrow> attr (attr (Some m) ''header'') k = Some v"
  using assms unfolding keeps_request_def by simp_all

text \<open>
  C16: A sponsored result is what the user asked for: when \<open>submit\<close> reports a sponsor's address, that sponsor
  signed its discovery document, and the returned transaction has the requested operations, chain, payer
  and payee and a Mana limit of 1 to 2^64 - 1, its id is the one the user signed, recomputed from the copy, the user's
  signatures are a prefix of its own, and the receipt is for it, known and not a revert. Nothing
  is assumed of the sponsor.
\<close>

theorem sponsored_as_requested:
  assumes "submit cl user operations choice fallback limit s = (Inr r, s')" and "su_sponsor r = Some address"
    and "documents_ok (cl_codec cl) s" and "keeps_request cl user"
  shows "\<exists>ms t mine n. verifySponsorDiscovery (cl_codec cl) ms \<and> map_of ms ''sponsor'' = Some (J_str address) \<and>
     may_answer (us_sign user t) mine \<and> faithful_copy (cl_codec cl) mine (su_transaction r) (su_receipt r) \<and>
     sameOperations (attr (Some (su_transaction r)) ''operations'') (Some (J_arr operations)) \<and>
     attr (attr (Some (su_transaction r)) ''header'') ''chain_id'' = Some (J_str (cl_chain cl)) \<and>
     attr (attr (Some (su_transaction r)) ''header'') ''payer'' = Some (J_str address) \<and>
     (address \<noteq> us_address user \<longrightarrow> or_value (attr (attr (Some (su_transaction r)) ''header'') ''payee'') (J_str []) = J_str (us_address user)) \<and>
     attr (attr (Some mine) ''header'') ''rc_limit'' = Some (J_str (int_text n)) \<and> 0 < n \<and> n \<le> MAX_U64 \<and>
     \<not> receipt_unknown (su_receipt r) \<and> \<not> truthy (attr (Some (su_receipt r)) ''reverted'')"
proof -
  from sponsored_submit [OF assms(1,2)] obtain refs s1 where
    tries: "tryEach (attempt_sponsor cl user operations limit) 0 (pool_of cl choice) [] s = (Inr (Some (su_transaction r, su_receipt r, address), refs), s1)"
    and receipt: "\<not> receipt_unknown (su_receipt r)" "\<not> truthy (attr (Some (su_receipt r)) ''reverted'')" by blast
  from documents.tried [OF tries assms(3)] obtain j sc s2 s3 where
    "attempt_sponsor cl user operations limit j sc s2 = (Inr (su_transaction r, su_receipt r, address), s3)" "documents_ok (cl_codec cl) s2"
    by blast
  from attempted [OF this] obtain ms t mine limit' s4 s5 where
    doc: "verifySponsorDiscovery (cl_codec cl) ms" "map_of ms ''sponsor'' = Some (J_str address)"
    and t: "prepare cl operations (us_address user) (Some address) limit' None s4 = (Inr t, s5)"
    and mine: "may_answer (us_sign user t) mine" "faithful_copy (cl_codec cl) mine (su_transaction r) (su_receipt r)" by blast
  from prepared [OF t] obtain header n where asked: "may_answer (rn_prepare (cl_node cl) (J_obj header) operations address) t"
    and header: "map_of header ''chain_id'' = Some (J_str (cl_chain cl))" "map_of header ''payer'' = Some (J_str address)"
      "address \<noteq> us_address user \<longrightarrow> map_of header ''payee'' = Some (J_str (us_address user))"
      "map_of header ''rc_limit'' = Some (J_str (int_text n))" and n: "0 < n" "n \<le> MAX_U64" by blast
  note kept = request_kept [OF assms(4) asked mine(1)]
  note copied = mine(2) [unfolded faithful_copy_def]
  have same: "sameOperations (attr (Some (su_transaction r)) ''operations'') (Some (J_arr operations))"
    "attr (attr (Some (su_transaction r)) ''header'') ''chain_id'' = Some (J_str (cl_chain cl))"
    "attr (attr (Some (su_transaction r)) ''header'') ''payer'' = Some (J_str address)"
    using copied kept(1) kept(2) [OF header(1)] kept(2) [OF header(2)] by simp_all
  moreover have payee: "address \<noteq> us_address user \<longrightarrow>
      or_value (attr (attr (Some (su_transaction r)) ''header'') ''payee'') (J_str []) = J_str (us_address user)"
    using copied header(3) kept(2) [of "''payee''"] by (simp add: or_value_def)
  show ?thesis
    by (intro exI [of _ ms] exI [of _ t] exI [of _ mine] exI [of _ n] conjI doc mine same payee kept(2) [OF header(4)] n receipt)
qed

section \<open>What the client itself broadcasts\<close>

text \<open>
  An account of the transactions that reached the node from this client: reading, preparing, signing
  and talking to sponsors leave it alone; a broadcast adds one.
\<close>

definition accounts_for :: "('w \<Rightarrow> json list) \<Rightarrow> 'w protocol_client \<Rightarrow> 'w user_signer \<Rightarrow> bool" where
  "accounts_for sends cl user \<longleftrightarrow>
     (\<forall>a w. sends (snd (rn_account_rc (cl_node cl) a w)) = sends w) \<and>
     (\<forall>h ops a w. sends (snd (rn_prepare (cl_node cl) h ops a w)) = sends w) \<and>
     (\<forall>t w. sends (snd (us_sign user t w)) = sends w) \<and>
     (\<forall>e p b w. sends (snd (cl_fetch cl e p b w)) = sends w) \<and>
     (\<forall>t w. sends (snd (rn_send (cl_node cl) t True w)) = sends w @ [t])"

lemma accounted: "accounts_for sends cl user \<Longrightarrow> client_invariant (\<lambda>s. sends (cw_world s) = ts) cl user"
  by (unfold_locales) (auto simp: accounts_for_def)

lemma refused_all:
  "tryEach try1 i pool refs s = (Inr (None, refs'), s') \<Longrightarrow> length refs' = length refs + length pool"
proof (induction pool arbitrary: i refs s)
  case (Cons sc pool)
  then show ?case by (cases "try1 i sc s") (auto split: sum.splits client_error.splits dest!: Cons.IH)
qed simp

lemma assert_state: "assertReceipt t receipt s = (x, s') \<Longrightarrow> s' = s"
  by (auto simp: assertReceipt_def split: if_splits)

lemma and_then_state: "snd (and_then m k s) = (case m s of (Inl e, s1) \<Rightarrow> s1 | (Inr x, s1) \<Rightarrow> snd (k x s1))"
  by (simp add: and_then_def split: prod.split sum.split)

lemma broadcast_sends:
  assumes "accounts_for sends cl user"
  shows "sends (cw_world (snd (client_broadcast cl t s))) = sends (cw_world s) @ [t]"
proof (cases "rn_send (cl_node cl) t True (cw_world s)")
  case (Pair r w)
  with assms have "sends w = sends (cw_world s) @ [t]" unfolding accounts_for_def by (metis snd_conv)
  with Pair show ?thesis
    by (cases r) (auto simp: client_broadcast_def and_then_state outside_def dest: assert_state split: prod.split sum.split)
qed

lemma self_pay_sends:
  assumes acc: "accounts_for sends cl user"
  shows "\<exists>own. sends (cw_world (snd (self_pay cl user operations limit refs s))) = sends (cw_world s) @ own \<and> length own \<le> 1"
proof -
  note quiet = client_invariant.preparing client_invariant.signing
  obtain x s1 where p: "prepare cl operations (us_address user) None limit None s = (x, s1)" by fastforce
  have s1: "sends (cw_world s1) = sends (cw_world s)"
    using quiet(1) [OF accounted [OF acc]] p unfolding keeps_def by (metis snd_conv)
  show ?thesis
  proof (cases x)
    case (Inl e)
    with p s1 show ?thesis by (cases e) (simp_all add: self_pay_def)
  next
    case (Inr t)
    obtain y s2 where g: "sign t user s1 = (y, s2)" by fastforce
    have s2: "sends (cw_world s2) = sends (cw_world s1)"
      using quiet(2) [OF accounted [OF acc]] g unfolding keeps_def by (metis snd_conv)
    show ?thesis
    proof (cases y)
      case (Inl e)
      with p Inr g s1 s2 show ?thesis by (simp add: self_pay_def and_then_state)
    next
      case (Inr mine)
      obtain z s3 where b: "client_broadcast cl mine s2 = (z, s3)" by fastforce
      have "sends (cw_world s3) = sends (cw_world s2) @ [mine]" using broadcast_sends [OF acc, of mine s2] b by simp
      with p g \<open>x = Inr t\<close> Inr b s1 s2 show ?thesis
        by (cases z) (auto simp: self_pay_def and_then_state)
    qed
  qed
qed

text \<open>
  C17: The client broadcasts at most one transaction of its own, and only after every sponsor of the
  pool refused and self-pay is allowed: once a sponsor's answer has been accepted, nothing is sent again, its
  receipt being unknown or a revert included.
\<close>

theorem submit_broadcasts_once:
  assumes "accounts_for sends cl user" and "submit cl user operations choice fallback limit s = (res, s')"
  shows "\<exists>own refs s1. sends (cw_world s') = sends (cw_world s) @ own \<and> length own \<le> 1 \<and>
     (own \<noteq> [] \<longrightarrow> tryEach (attempt_sponsor cl user operations limit) 0 (pool_of cl choice) [] s = (Inr (None, refs), s1) \<and>
        length refs = length (pool_of cl choice) \<and> (fallback \<or> pool_of cl choice = []) \<and> (\<forall>r. res = Inr r \<longrightarrow> su_sponsor r = None))"
proof -
  obtain x s1 where tries: "tryEach (attempt_sponsor cl user operations limit) 0 (pool_of cl choice) [] s = (x, s1)" by fastforce
  have s1: "sends (cw_world s1) = sends (cw_world s)"
    using client_invariant.trying [OF accounted [OF assms(1)]] tries unfolding keeps_def by (metis snd_conv)
  show ?thesis
  proof (cases x)
    case (Inl e)
    with assms(2) tries have "s' = s1" by (simp add: submit_def Let_def and_then_def)
    then show ?thesis using s1 by (intro exI [of _ "[]"]) simp
  next
    case (Inr v)
    obtain found refs where v: "v = (found, refs)" by fastforce
    show ?thesis
    proof (cases found)
      case (Some a)
      obtain t rc address where "a = (t, rc, address)" by (cases a) auto
      with assms(2) tries Inr v Some have "s' = s1" by (auto simp: submit_def Let_def and_then_def assertReceipt_def split: if_splits)
    then show ?thesis using s1 by (intro exI [of _ "[]"]) simp
    next
      case None
      show ?thesis
      proof (cases "fallback \<or> pool_of cl choice = []")
        case False
        with assms(2) tries Inr v None have "s' = s1" by (auto simp: submit_def Let_def and_then_def split: if_splits)
    then show ?thesis using s1 by (intro exI [of _ "[]"]) simp
      next
        case True
        with assms(2) tries Inr v None have pay: "self_pay cl user operations limit refs s1 = (res, s')"
          by (auto simp: submit_def Let_def and_then_def)
        with self_pay_sends [OF assms(1), of operations limit refs s1] s1 obtain own where
          "sends (cw_world s') = sends (cw_world s) @ own" "length own \<le> 1" by auto
        moreover have "res = Inr r \<longrightarrow> su_sponsor r = None" for r using pay self_paid by blast
        ultimately show ?thesis using tries Inr v None True refused_all [OF tries [unfolded Inr v None]]
          by (intro exI [of _ own] exI [of _ refs] exI [of _ s1]) simp
      qed
    qed
  qed
qed

section \<open>A small network\<close>

text \<open>
  The sponsor at \<open>greedy\<close> advertises a Mana limit of 2^64 per operation. The state is the list of the transactions that the client broadcast and the list of those that a sponsor broadcast. The sponsor at \<open>honest\<close> broadcasts what it is sent
  and answers; the answer of the one at any other endpoint is lost.
\<close>

type_synonym sent = "json list \<times> json list"

definition small_codec :: client_codec where
  "small_codec = \<lparr>cc_codec = \<lparr>decode_base58 = (\<lambda>s. Inr (map ucast s)), encode_base58 = map ucast,
       decode_base64url = (\<lambda>s. Inr (map ucast s)), noble_sha256 = id\<rparr>,
     cc_recover = (\<lambda>h sig. Inr [83]), cc_tx_id = (\<lambda>h ops. Inr (Some [84]))\<rparr>"

definition small_receipt :: json where
  "small_receipt = J_obj [(''id'', J_str [84]), (''rc_used'', J_str [51])]"

definition with_signature :: "ustring \<Rightarrow> json \<Rightarrow> json" where
  "with_signature sig t = (case t of J_obj ms \<Rightarrow> J_obj (ms @ [(''signatures'', J_arr [J_str sig])]) | v \<Rightarrow> v)"

definition with_nonce :: "json \<Rightarrow> json" where
  "with_nonce h = (case h of J_obj ms \<Rightarrow> J_obj (ms @ [(''nonce'', J_str [49])]) | v \<Rightarrow> v)"

definition small_fetch :: "sent fetch" where
  "small_fetch endpoint path body w =
     (if path = ''/.well-known/osp-sponsor.json'' then (Inr \<lparr>hp_status = 200, hp_body = Json_body (J_obj
          [(''sponsor'', J_str [83]), (''network'', J_obj [(''chainId'', J_str [67])]), (''policy'', J_obj [(''maxRcPerOp'', if endpoint = utf16 ''greedy'' then J_int 18446744073709551616 else J_str [55])]),
           (''signature'', J_str [65])])\<rparr>, w)
      else case attr body ''transaction'' of
        Some t \<Rightarrow> (if endpoint = utf16 ''honest'' then Inr \<lparr>hp_status = 200, hp_body = Json_body (J_obj [(''transaction'', t), (''receipt'', small_receipt)])\<rparr>
                   else Inl (), fst w, snd w @ [t])
      | None \<Rightarrow> (Inr \<lparr>hp_status = 400, hp_body = No_body\<rparr>, w))"

definition small_node :: "sent rpc_node" where
  "small_node = \<lparr>rn_account_rc = (\<lambda>a. io_return (J_str [57])),
     rn_prepare = (\<lambda>h ops a. io_return (J_obj [(''id'', J_str [84]), (''header'', with_nonce h), (''operations'', J_arr ops)])),
     rn_send = (\<lambda>t b w. (Inr (t, small_receipt), fst w @ [t], snd w))\<rparr>"

definition small_client :: "sent protocol_client" where
  "small_client = \<lparr>cl_chain = [67], cl_node = small_node, cl_codec = small_codec, cl_fetch = small_fetch, cl_sponsors = []\<rparr>"

definition small_user :: "sent user_signer" where
  "small_user = \<lparr>us_address = [85], us_sign = (\<lambda>t. io_return (with_signature [90] t))\<rparr>"

definition fresh_world :: "sent client_world" where
  "fresh_world = \<lparr>cw_cache = (\<lambda>i. None), cw_world = ([], [])\<rparr>"

lemmas small_defs = small_codec_def small_receipt_def with_nonce_def with_signature_def small_fetch_def small_node_def small_client_def small_user_def
  fresh_world_def

lemma small_keeps: "keeps_request small_client small_user"
  by (auto simp: keeps_request_def may_answer_def small_defs attr_def map_add_def split: json.splits option.splits)

lemma small_accounts: "accounts_for fst small_client small_user"
  by (auto simp: accounts_for_def small_defs split: option.split)

lemma small_documents: "documents_ok cc fresh_world"
  by (simp add: documents_ok_def fresh_world_def)

abbreviation small_submit :: "string \<Rightarrow> submit_result client \<times> sent client_world" where
  "small_submit endpoint \<equiv> submit small_client small_user [J_obj []]
     (One_sponsor \<lparr>sn_endpoint = utf16 endpoint, sn_expected_chain = None\<rparr>) True None fresh_world"

lemma honest_submit:
  "case small_submit ''honest'' of (Inr r, s') \<Rightarrow> su_sponsor r = Some [83] \<and> fst (cw_world s') = [] \<and> length (snd (cw_world s')) = 1 | _ \<Rightarrow> False"
  by code_simp

lemma lossy_submit: "case small_submit ''lossy'' of (Inr r, s') \<Rightarrow> length (fst (cw_world s')) = 1 | _ \<Rightarrow> False"
  by code_simp

theorem sponsored_as_requested_witness:
  "\<exists>r s'. small_submit ''honest'' = (Inr r, s') \<and> su_sponsor r = Some [83] \<and>
     sameOperations (attr (Some (su_transaction r)) ''operations'') (Some (J_arr [J_obj []])) \<and>
     attr (attr (Some (su_transaction r)) ''header'') ''payer'' = Some (J_str [83])"
proof -
  obtain x s' where run: "small_submit ''honest'' = (x, s')" by fastforce
  with honest_submit obtain r where r: "x = Inr r" "su_sponsor r = Some [83]" by (auto split: sum.splits)
  from sponsored_as_requested [OF run [unfolded r(1)] r(2) small_documents small_keeps] r run show ?thesis by blast
qed

theorem submit_broadcasts_once_witness:
  "\<exists>mine r s'. small_submit ''lossy'' = (Inr r, s') \<and> fst (cw_world s') = [mine] \<and> su_sponsor r = None"
proof -
  obtain x s' where run: "small_submit ''lossy'' = (x, s')" by fastforce
  with lossy_submit obtain r where r: "x = Inr r" "length (fst (cw_world s')) = 1" by (auto split: sum.splits)
  have start: "fst (cw_world fresh_world) = []" by (simp add: fresh_world_def)
  from submit_broadcasts_once [OF small_accounts run] start r obtain own where
    "fst (cw_world s') = own" "length own = 1" "su_sponsor r = None" by auto
  with run r show ?thesis by (auto simp: length_Suc_conv)
qed

section \<open>An answer that is lost\<close>

text \<open>
  A sponsor that broadcasts and whose answer is lost counts as one that refused: the client goes on and sends the
  same operations a second time, as the user's own transaction.
\<close>

theorem lost_answer_sends_twice:
  "case small_submit ''lossy'' of
     (Inr r, s') \<Rightarrow> su_sponsor r = None \<and> su_refusals r = [(0, Temporarily_unavailable)] \<and>
       map (\<lambda>t. attr (Some t) ''operations'') (fst (cw_world s')) = [Some (J_arr [J_obj []])] \<and>
       map (\<lambda>t. attr (Some t) ''operations'') (snd (cw_world s')) = [Some (J_arr [J_obj []])]
   | _ \<Rightarrow> False"
  by code_simp

text \<open>
  A sponsor whose signed policy asks for more Mana than 64 bits hold ends the submission: the error is none of those
  that let the pool go on, so neither the honest sponsor after it nor self-pay is tried.
\<close>

lemma excessive_limit: "n > MAX_U64 \<Longrightarrow> validatedRcLimit (J_str (int_text n)) payer = Inl Protocol_error"
  using nat_text_digits [of "nat n"] by (simp add: validatedRcLimit_def MAX_U64_def int_text_def)

abbreviation at_endpoint :: "string \<Rightarrow> sponsor_client" where
  "at_endpoint e \<equiv> \<lparr>sn_endpoint = utf16 e, sn_expected_chain = None\<rparr>"

lemma greedy_attempt:
  "\<exists>d. attempt_sponsor small_client small_user [J_obj []] None 0 (at_endpoint ''greedy'') fresh_world =
     (Inl Protocol_error, fresh_world\<lparr>cw_cache := (cw_cache fresh_world)(0 \<mapsto> d)\<rparr>)"
  using excessive_limit [of 18446744073709551616 "[83]"]
  by (simp add: Let_def attempt_sponsor_def and_then_def discover_def request_def small_defs read_response_def check_discovery_def verifySponsorDiscovery_def
    attr_def str_of_def sponsoredRcLimit_def big_int_def Protocol_Client.prepare_def MAX_U64_def category_of_def)
    (rule exI, rule refl)

theorem greedy_policy_ends_submission:
  "\<exists>s'. submit small_client small_user [J_obj []] (Sponsor_pool [at_endpoint ''greedy'', at_endpoint ''honest'']) True None fresh_world =
     (Inl Protocol_error, s') \<and> cw_world s' = ([], [])"
  using greedy_attempt by (auto simp: submit_def Let_def pool_of_def and_then_def fresh_world_def)

end
