(* ===== verification/Index_Tables.thy ===== *)
theory Index_Tables
  imports Json
begin

text \<open>
  The query tables of the indexer (\<open>apps/indexer/src/db.ts\<close>) and the values they are filled from
  (\<open>apps/indexer/src/projections.ts\<close>, \<open>apps/indexer/src/hash.ts\<close>). A table is a map from its primary key; the
  notifications, whose key is a counter, are a list. The encodings of \<open>koilib\<close>, the digest of
  Node and the decoding of protobuf messages are parameters.
\<close>

section \<open>Decoded values\<close>

text \<open>The object model of \<open>decode\<close>: an absent nested message is an absent member.\<close>

datatype proto_value =
    P_str ustring
  | P_bytes bytes
  | P_num int
  | P_bool bool
  | P_list "proto_value list"
  | P_obj "(string \<times> proto_value) list"

type_synonym proto_object = "(string \<times> proto_value) list"

record sealed_key =
  sk_recipient :: bytes
  sk_version :: int
  sk_sealed :: bytes \<comment> \<open>the other fields\<close>

record index_codec =
  ic_base64url :: "bytes \<Rightarrow> ustring"
  ic_base58 :: "bytes \<Rightarrow> ustring"
  ic_sha256 :: "bytes \<Rightarrow> bytes"
  ic_key_packages :: "bytes \<Rightarrow> (int \<times> sealed_key list) js" \<comment> \<open>\<open>decode\<close> of a \<open>key_package_set\<close>\<close>
  ic_sealed_key :: "sealed_key \<Rightarrow> bytes" \<comment> \<open>\<open>encode\<close> of a \<open>sealed_key\<close>\<close>

record log_event =
  le_height :: int
  le_block_id :: ustring
  le_block_time :: ustring
  le_tx :: nat
  le_seq :: nat
  le_tx_id :: ustring
  le_contract :: string
  le_name :: string
  le_data :: proto_object
  le_impacted :: "ustring list"

section \<open>Reading values\<close>

definition bytes_of :: "proto_value option \<Rightarrow> bytes" where
  "bytes_of v = (case v of Some (P_bytes b) \<Rightarrow> b | _ \<Rightarrow> [])"

definition b64 :: "index_codec \<Rightarrow> proto_value option \<Rightarrow> ustring" where
  "b64 ic v = (let b = bytes_of v in if b = [] then [] else ic_base64url ic b)"

definition str :: "proto_value option \<Rightarrow> ustring" where
  "str v = (case v of Some (P_str s) \<Rightarrow> s | _ \<Rightarrow> [])"

definition u64_text :: "proto_value option \<Rightarrow> ustring" where
  "u64_text v = (case v of
       Some (P_str s) \<Rightarrow> if s \<noteq> [] \<and> list_all is_digit s then s else utf16 ''0''
     | Some (P_num n) \<Rightarrow> if 0 \<le> n then int_text n else utf16 ''0''
     | _ \<Rightarrow> utf16 ''0'')"

text \<open>
  \<open>Number(value ?? 0) || 0\<close>; the schemas have integers, enums and booleans where a number is
  read, and of the texts only decimal integers are numbers here.
\<close>

definition num :: "proto_value option \<Rightarrow> int" where
  "num v = (case v of
       Some (P_num n) \<Rightarrow> n
     | Some (P_str s) \<Rightarrow> (case decimal_text s of Some n \<Rightarrow> n | None \<Rightarrow> 0)
     | Some (P_bool b) \<Rightarrow> of_bool b
     | _ \<Rightarrow> 0)"

definition bool_number :: "proto_value option \<Rightarrow> int" where
  "bool_number v = of_bool (v = Some (P_bool True))"

definition timestampOf :: "log_event \<Rightarrow> ustring" where
  "timestampOf ev = (case map_of (le_data ev) ''timestamp'' of Some (P_str own) \<Rightarrow> own | _ \<Rightarrow> le_block_time ev)"

definition text_less :: "ustring \<Rightarrow> ustring \<Rightarrow> bool" where
  "text_less x y \<longleftrightarrow> x < y"

definition pairKey :: "ustring \<Rightarrow> ustring \<Rightarrow> ustring \<times> ustring" where
  "pairKey x y = (if text_less x y then (x, y) else (y, x))"

text \<open>\<open>String(item)\<close> for the items of a repeated scalar field.\<close>

definition value_text :: "proto_value \<Rightarrow> ustring" where
  "value_text v = (case v of P_str s \<Rightarrow> s | P_num n \<Rightarrow> int_text n | P_bool b \<Rightarrow> utf16 (if b then ''true'' else ''false'') | _ \<Rightarrow> [])"

definition texts_of :: "proto_value option \<Rightarrow> ustring list" where
  "texts_of v = (case v of Some (P_list xs) \<Rightarrow> map value_text xs | _ \<Rightarrow> [])"

text \<open>\<open>toJsonValue\<close>: bytes as base64url, everything else unchanged.\<close>

fun toJsonValue :: "index_codec \<Rightarrow> proto_value \<Rightarrow> json"
  and json_elements :: "index_codec \<Rightarrow> proto_value list \<Rightarrow> json list"
  and json_members :: "index_codec \<Rightarrow> (string \<times> proto_value) list \<Rightarrow> (string \<times> json) list" where
  "toJsonValue ic (P_bytes b) = J_str (ic_base64url ic b)"
| "toJsonValue ic (P_list xs) = J_arr (json_elements ic xs)"
| "toJsonValue ic (P_obj ms) = J_obj (json_members ic ms)"
| "toJsonValue ic (P_str s) = J_str s"
| "toJsonValue ic (P_num n) = J_int n"
| "toJsonValue ic (P_bool b) = J_bool b"
| "json_elements ic [] = []"
| "json_elements ic (x # xs) = toJsonValue ic x # json_elements ic xs"
| "json_members ic [] = []"
| "json_members ic ((k, v) # ms) = (k, toJsonValue ic v) # json_members ic ms"

section \<open>Rows\<close>

record identity_row =
  ir_owner :: ustring
  ir_encryption_key :: bytes
  ir_key_version :: int
  ir_profile_hash :: ustring
  ir_profile_uri :: ustring
  ir_protocol_version :: int
  ir_device_epoch :: int
  ir_registered_at :: ustring
  ir_updated_at :: ustring
  ir_policy :: "ustring option"
  ir_pending_policy :: "ustring option"
  ir_pending_recovery :: "ustring option"

record device_row =
  dr_capabilities :: int
  dr_expires_at :: ustring
  dr_epoch :: int
  dr_revoked :: int
  dr_label :: ustring
  dr_authorized_at :: ustring
  dr_updated_at :: ustring

record relationship_row =
  lr_status :: int
  lr_requester :: ustring
  lr_nonce :: ustring
  lr_requested_at :: ustring
  lr_since :: ustring
  lr_updated_at :: ustring

record audience_row =
  ur_since :: ustring
  ur_reason :: ustring
  ur_height :: int

record post_row =
  pr_author :: ustring
  pr_sequence :: ustring
  pr_version :: int
  pr_content_hash :: ustring
  pr_previous :: ustring
  pr_audience :: int
  pr_audience_id :: ustring
  pr_epoch :: int
  pr_envelope :: bytes
  pr_media :: ustring
  pr_reply_to :: ustring
  pr_key :: ustring
  pr_protocol_version :: int
  pr_state :: int
  pr_state_reason :: ustring
  pr_replacement :: ustring
  pr_created_at :: ustring
  pr_updated_at :: ustring
  pr_tx_id :: ustring
  pr_height :: int
  pr_tx :: nat
  pr_seq :: nat

record post_version_row =
  vr_content_hash :: ustring
  vr_previous :: ustring
  vr_envelope :: bytes
  vr_media :: ustring
  vr_tx_id :: ustring
  vr_height :: int
  vr_timestamp :: ustring

record reaction_row =
  xr_timestamp :: ustring
  xr_height :: int
  xr_tx_id :: ustring

record key_package_row =
  kr_author :: ustring
  kr_audience_id :: ustring
  kr_epoch :: int
  kr_recipient :: ustring
  kr_key_version :: int
  kr_sealed :: bytes
  kr_tx_id :: ustring
  kr_timestamp :: ustring

record cross_post_row =
  cr_state :: int
  cr_external_ref :: ustring
  cr_post_id :: ustring
  cr_manifest_hash :: ustring
  cr_timestamp :: ustring
  cr_height :: int
  cr_tx_id :: ustring

record community_row =
  mr_owner :: ustring
  mr_name :: ustring
  mr_policy_hash :: ustring
  mr_policy_uri :: ustring
  mr_transfer_delay :: ustring
  mr_pending_owner :: ustring
  mr_effective_at :: ustring
  mr_created_at :: ustring
  mr_updated_at :: ustring

record role_row =
  or_role :: int
  or_scope :: ustring
  or_expires_at :: ustring
  or_granted_by :: ustring
  or_granted_at :: ustring

record label_row =
  br_community :: ustring
  br_post :: ustring
  br_label :: ustring
  br_reason :: ustring
  br_actor :: ustring
  br_timestamp :: ustring
  br_tx_id :: ustring

record sponsor_row =
  wr_endpoint :: ustring
  wr_policy_version :: int
  wr_active :: int
  wr_registered_at :: ustring
  wr_updated_at :: ustring

record grant_row =
  gr_daily_ops :: int
  gr_expires_at :: ustring
  gr_revoked :: int
  gr_updated_at :: ustring

record registry_row =
  er_abi_hash :: ustring
  er_status :: int
  er_effective_at :: ustring
  er_notes :: ustring
  er_updated_at :: ustring

record notification_row =
  nr_id :: nat
  nr_account :: ustring
  nr_kind :: string
  nr_actor :: ustring
  nr_post :: "ustring option"
  nr_community :: "ustring option"
  nr_data :: ustring
  nr_timestamp :: ustring
  nr_height :: int
  nr_tx :: nat
  nr_seq :: nat

record direct_message_row =
  hr_recipient :: ustring
  hr_sequence :: ustring
  hr_data :: ustring
  hr_envelope :: bytes
  hr_height :: int
  hr_tx_id :: ustring

record token_activity_row =
  yr_actor :: ustring
  yr_recipient :: ustring
  yr_kind :: string
  yr_data :: ustring
  yr_tx_id :: ustring

type_synonym position = "int \<times> nat \<times> nat" \<comment> \<open>height, transaction index, sequence\<close>

record tables =
  t_identities :: "ustring \<rightharpoonup> identity_row"
  t_devices :: "ustring \<times> ustring \<rightharpoonup> device_row"
  t_relationships :: "ustring \<times> ustring \<rightharpoonup> relationship_row"
  t_blocks :: "ustring \<times> ustring \<rightharpoonup> ustring"
  t_follows :: "ustring \<times> ustring \<rightharpoonup> ustring"
  t_audiences :: "ustring \<times> int \<rightharpoonup> audience_row"
  t_posts :: "ustring \<rightharpoonup> post_row"
  t_post_versions :: "ustring \<times> int \<rightharpoonup> post_version_row"
  t_reactions :: "ustring \<times> ustring \<times> int \<rightharpoonup> reaction_row"
  t_key_packages :: "position \<times> nat \<rightharpoonup> key_package_row"
  t_cross_posts :: "ustring \<times> ustring \<times> ustring \<rightharpoonup> cross_post_row"
  t_communities :: "ustring \<rightharpoonup> community_row"
  t_roles :: "ustring \<times> ustring \<rightharpoonup> role_row"
  t_labels :: "position \<rightharpoonup> label_row"
  t_sponsors :: "ustring \<rightharpoonup> sponsor_row"
  t_grants :: "ustring \<times> ustring \<rightharpoonup> grant_row"
  t_registry :: "ustring \<times> ustring \<times> int \<rightharpoonup> registry_row"
  t_notifications :: "notification_row list"
  t_conversations :: "ustring \<times> ustring \<rightharpoonup> ustring \<times> ustring"
  t_messages :: "ustring \<times> ustring \<rightharpoonup> direct_message_row"
  t_token_accounts :: "ustring \<rightharpoonup> ustring"
  t_token_activity :: "position \<rightharpoonup> token_activity_row"
  t_meta :: "string \<rightharpoonup> ustring" \<comment> \<open>the keys \<open>projection.*\<close>\<close>

definition no_tables :: tables where
  "no_tables = \<lparr>t_identities = Map.empty, t_devices = Map.empty, t_relationships = Map.empty, t_blocks = Map.empty,
     t_follows = Map.empty, t_audiences = Map.empty, t_posts = Map.empty, t_post_versions = Map.empty,
     t_reactions = Map.empty, t_key_packages = Map.empty, t_cross_posts = Map.empty, t_communities = Map.empty,
     t_roles = Map.empty, t_labels = Map.empty, t_sponsors = Map.empty, t_grants = Map.empty, t_registry = Map.empty,
     t_notifications = [], t_conversations = Map.empty, t_messages = Map.empty, t_token_accounts = Map.empty,
     t_token_activity = Map.empty, t_meta = Map.empty\<rparr>"

text \<open>\<open>UPDATE ... WHERE key = ?\<close> and \<open>INSERT ... ON CONFLICT DO NOTHING\<close>.\<close>

definition change_row :: "'k \<Rightarrow> ('r \<Rightarrow> 'r) \<Rightarrow> ('k \<rightharpoonup> 'r) \<Rightarrow> ('k \<rightharpoonup> 'r)" where
  "change_row k f m = (case m k of None \<Rightarrow> m | Some r \<Rightarrow> m(k \<mapsto> f r))"

definition insert_new :: "'k \<Rightarrow> 'r \<Rightarrow> ('k \<rightharpoonup> 'r) \<Rightarrow> ('k \<rightharpoonup> 'r)" where
  "insert_new k r m = (case m k of None \<Rightarrow> m(k \<mapsto> r) | Some _ \<Rightarrow> m)"

lemma change_row_at: "change_row k f m j = (if j = k then map_option f (m k) else m j)"
  by (simp add: change_row_def split: option.split)

definition pos_of :: "log_event \<Rightarrow> position" where
  "pos_of ev = (le_height ev, le_tx ev, le_seq ev)"

text \<open>The name and value of a decoded field.\<close>

abbreviation field :: "log_event \<Rightarrow> string \<Rightarrow> proto_value option" where
  "field ev k \<equiv> map_of (le_data ev) k"

section \<open>Notifications\<close>

definition nextNotificationId :: "tables \<Rightarrow> nat" where
  "nextNotificationId db = foldr (\<lambda>r m. max (nr_id r) m) (t_notifications db) 0 + 1"

definition notify :: "log_event \<Rightarrow> ustring \<Rightarrow> string \<Rightarrow> ustring \<Rightarrow> ustring option \<Rightarrow> ustring option \<Rightarrow>
    (string \<times> json) list \<Rightarrow> tables \<Rightarrow> tables" where
  "notify ev account kind actor post community details db =
     (if account = [] \<or> account = actor then db
      else db\<lparr>t_notifications := t_notifications db @ [\<lparr>nr_id = nextNotificationId db, nr_account = account, nr_kind = kind,
             nr_actor = actor, nr_post = post, nr_community = community, nr_data = stringify (J_obj details),
             nr_timestamp = timestampOf ev, nr_height = le_height ev, nr_tx = le_tx ev, nr_seq = le_seq ev\<rparr>]\<rparr>)"

end
