(* ===== verification/Projections.thy ===== *)
theory Projections
  imports Index_Tables
begin

text \<open>
  The projections of the indexer (\<open>apps/indexer/src/projections.ts\<close>): what each protocol event does to
  the query tables, one definition per contract and one per event where the code does more than
  a single statement.
\<close>

section \<open>Identity\<close>

definition recoveryPolicyJson :: "proto_value option \<Rightarrow> json option" where
  "recoveryPolicyJson policy =
     (case policy of
        Some (P_obj p) \<Rightarrow> Some (J_obj [(''guardians'', J_arr (map J_str (texts_of (map_of p ''guardians'')))),
          (''threshold'', J_int (num (map_of p ''threshold''))), (''delayMs'', J_str (u64_text (map_of p ''delay_ms'')))])
      | _ \<Rightarrow> None)"

definition registered_row :: "index_codec \<Rightarrow> log_event \<Rightarrow> identity_row" where
  "registered_row ic ev =
     \<lparr>ir_owner = str (field ev ''account''), ir_encryption_key = bytes_of (field ev ''encryption_key''),
      ir_key_version = num (field ev ''key_version''), ir_profile_hash = b64 ic (field ev ''profile_hash''),
      ir_profile_uri = str (field ev ''profile_uri''), ir_protocol_version = num (field ev ''protocol_version''),
      ir_device_epoch = 0, ir_registered_at = timestampOf ev, ir_updated_at = timestampOf ev,
      ir_policy = None, ir_pending_policy = None, ir_pending_recovery = None\<rparr>"

definition on_identity :: "log_event \<Rightarrow> (identity_row \<Rightarrow> identity_row) \<Rightarrow> tables \<Rightarrow> tables" where
  "on_identity ev f db = db\<lparr>t_identities := change_row (str (field ev ''account'')) (\<lambda>r. (f r)\<lparr>ir_updated_at := timestampOf ev\<rparr>) (t_identities db)\<rparr>"

definition device_authorized_row :: "log_event \<Rightarrow> device_row" where
  "device_authorized_row ev =
     \<lparr>dr_capabilities = num (field ev ''capabilities''), dr_expires_at = u64_text (field ev ''expires_at''),
      dr_epoch = num (field ev ''device_epoch''), dr_revoked = 0, dr_label = str (field ev ''label''),
      dr_authorized_at = timestampOf ev, dr_updated_at = timestampOf ev\<rparr>"

definition recovery_details :: "log_event \<Rightarrow> (string \<times> json) list" where
  "recovery_details ev =
     [(''newOwner'', J_str (str (field ev ''new_owner''))), (''guardian'', J_str (str (field ev ''guardian''))),
      (''approvals'', J_int (num (field ev ''approvals''))), (''threshold'', J_int (num (field ev ''threshold''))),
      (''effectiveAt'', J_str (u64_text (field ev ''effective_at''))), (''proposedAt'', J_str (timestampOf ev))]"

definition applyIdentity :: "index_codec \<Rightarrow> log_event \<Rightarrow> tables \<Rightarrow> tables" where
  "applyIdentity ic ev db =
     (let account = str (field ev ''account''); name = le_name ev; device = str (field ev ''device'')
      in if name = ''osp.identity.registered'' then db\<lparr>t_identities := (t_identities db)(account \<mapsto> registered_row ic ev)\<rparr>
         else if name = ''osp.identity.profile_updated'' then
           on_identity ev (\<lambda>r. r\<lparr>ir_profile_hash := b64 ic (field ev ''profile_hash''), ir_profile_uri := str (field ev ''profile_uri'')\<rparr>) db
         else if name = ''osp.identity.key_rotated'' then
           on_identity ev (\<lambda>r. r\<lparr>ir_encryption_key := bytes_of (field ev ''encryption_key''), ir_key_version := num (field ev ''key_version'')\<rparr>) db
         else if name = ''osp.identity.device_authorized'' then
           notify ev account ''device'' device None None
             [(''action'', J_str (utf16 ''authorized'')), (''device'', J_str device), (''capabilities'', J_int (num (field ev ''capabilities''))),
              (''expiresAt'', J_str (u64_text (field ev ''expires_at''))), (''label'', J_str (str (field ev ''label'')))]
             (db\<lparr>t_devices := (t_devices db)((account, device) \<mapsto> device_authorized_row ev)\<rparr>)
         else if name = ''osp.identity.device_revoked'' then
           notify ev account ''device'' device None None [(''action'', J_str (utf16 ''revoked'')), (''device'', J_str device)]
             (db\<lparr>t_devices := change_row (account, device) (\<lambda>r. r\<lparr>dr_revoked := 1, dr_updated_at := timestampOf ev\<rparr>) (t_devices db)\<rparr>)
         else if name = ''osp.identity.recovery_policy_proposed'' then
           on_identity ev (\<lambda>r. r\<lparr>ir_pending_policy := Some (stringify (J_obj
             [(''policy'', case recoveryPolicyJson (field ev ''policy'') of Some j \<Rightarrow> j | None \<Rightarrow> J_null),
              (''effectiveAt'', J_str (u64_text (field ev ''effective_at'')))]))\<rparr>) db
         else if name = ''osp.identity.recovery_policy_set'' then
           on_identity ev (\<lambda>r. r\<lparr>ir_policy := map_option stringify (recoveryPolicyJson (field ev ''policy'')), ir_pending_policy := None\<rparr>) db
         else if name = ''osp.identity.recovery_policy_cancelled'' then on_identity ev (\<lambda>r. r\<lparr>ir_pending_policy := None\<rparr>) db
         else if name = ''osp.identity.recovery_proposed'' then
           notify ev account ''recovery'' (str (field ev ''guardian'')) None None ((''action'', J_str (utf16 ''proposed'')) # recovery_details ev)
             (on_identity ev (\<lambda>r. r\<lparr>ir_pending_recovery := Some (stringify (J_obj (recovery_details ev)))\<rparr>) db)
         else if name = ''osp.identity.recovery_cancelled'' then on_identity ev (\<lambda>r. r\<lparr>ir_pending_recovery := None\<rparr>) db
         else if name = ''osp.identity.recovered'' then
           (let newOwner = str (field ev ''new_owner'')
            in notify ev account ''recovery'' newOwner None None
                 [(''action'', J_str (utf16 ''executed'')), (''previousOwner'', J_str (str (field ev ''previous_owner''))),
                  (''newOwner'', J_str newOwner), (''deviceEpoch'', J_int (num (field ev ''device_epoch'')))]
                 (on_identity ev (\<lambda>r. r\<lparr>ir_owner := newOwner, ir_device_epoch := num (field ev ''device_epoch''), ir_pending_recovery := None\<rparr>) db))
         else db)"

section \<open>Relationships\<close>

definition getRelationship :: "tables \<Rightarrow> ustring \<Rightarrow> ustring \<Rightarrow> relationship_row option" where
  "getRelationship db x y = t_relationships db (pairKey x y)"

definition upsertRelationship :: "ustring \<times> ustring \<Rightarrow> relationship_row \<Rightarrow> tables \<Rightarrow> tables" where
  "upsertRelationship key row db = db\<lparr>t_relationships := (t_relationships db)(key \<mapsto> row)\<rparr>"

definition friend_requested_rows :: "log_event \<Rightarrow> tables \<Rightarrow> tables" where
  "friend_requested_rows ev db =
     (let requester = str (field ev ''requester''); recipient = str (field ev ''recipient''); ts = timestampOf ev
      in notify ev recipient ''friend_request'' requester None None [(''nonce'', J_str (u64_text (field ev ''nonce'')))]
           (upsertRelationship (pairKey requester recipient)
              \<lparr>lr_status = 1, lr_requester = requester, lr_nonce = u64_text (field ev ''nonce''), lr_requested_at = ts,
               lr_since = utf16 ''0'', lr_updated_at = ts\<rparr> db))"

definition friend_accepted_rows :: "index_codec \<Rightarrow> log_event \<Rightarrow> tables \<Rightarrow> tables" where
  "friend_accepted_rows ic ev db =
     (let approver = str (field ev ''approver''); requester = str (field ev ''requester''); ts = timestampOf ev;
          key = pairKey approver requester; existing = getRelationship db (fst key) (snd key)
      in notify ev requester ''friend_accepted'' approver None None
           [(''nonce'', J_str (u64_text (field ev ''nonce''))), (''keyPackageRef'', J_str (b64 ic (field ev ''key_package_ref'')))]
           (upsertRelationship key
              \<lparr>lr_status = 2, lr_requester = requester, lr_nonce = u64_text (field ev ''nonce''),
               lr_requested_at = (case existing of Some r \<Rightarrow> lr_requested_at r | None \<Rightarrow> ts), lr_since = ts, lr_updated_at = ts\<rparr> db))"

definition friend_removed_rows :: "log_event \<Rightarrow> tables \<Rightarrow> tables" where
  "friend_removed_rows ev db =
     (let actor = str (field ev ''actor''); peer = str (field ev ''peer'');
          key = pairKey actor peer; existing = getRelationship db (fst key) (snd key)
      in upsertRelationship key
           \<lparr>lr_status = 3, lr_requester = (case existing of Some r \<Rightarrow> lr_requester r | None \<Rightarrow> []),
            lr_nonce = u64_text (field ev ''nonce''),
            lr_requested_at = (case existing of Some r \<Rightarrow> lr_requested_at r | None \<Rightarrow> utf16 ''0''),
            lr_since = (case existing of Some r \<Rightarrow> lr_since r | None \<Rightarrow> utf16 ''0''), lr_updated_at = timestampOf ev\<rparr> db)"

text \<open>\<open>(BigInt(existing.nonce) + 1n).toString()\<close>; the stored text is always decimal.\<close>

definition next_nonce :: "ustring \<Rightarrow> ustring" where
  "next_nonce s = int_text ((case decimal_text s of Some n \<Rightarrow> n | None \<Rightarrow> 0) + 1)"

definition blocked_rows :: "log_event \<Rightarrow> tables \<Rightarrow> tables" where
  "blocked_rows ev db =
     (let actor = str (field ev ''actor''); target = str (field ev ''target''); ts = timestampOf ev;
          db1 = db\<lparr>t_blocks := (t_blocks db)((actor, target) \<mapsto> ts)\<rparr>;
          db2 = (case getRelationship db1 actor target of
                   Some r \<Rightarrow> if lr_status r = 1 \<or> lr_status r = 2
                     then upsertRelationship (pairKey actor target) (r\<lparr>lr_status := 3, lr_nonce := next_nonce (lr_nonce r), lr_updated_at := ts\<rparr>) db1
                     else db1
                 | None \<Rightarrow> db1)
      in db2\<lparr>t_follows := (t_follows db2)((actor, target) := None, (target, actor) := None)\<rparr>)"

definition applyRelationships :: "index_codec \<Rightarrow> log_event \<Rightarrow> tables \<Rightarrow> tables" where
  "applyRelationships ic ev db =
     (let name = le_name ev; ts = timestampOf ev
      in if name = ''osp.relationships.friend_requested'' then friend_requested_rows ev db
         else if name = ''osp.relationships.friend_accepted'' then friend_accepted_rows ic ev db
         else if name = ''osp.relationships.friend_removed'' then friend_removed_rows ev db
         else if name = ''osp.relationships.blocked'' then blocked_rows ev db
         else if name = ''osp.relationships.unblocked'' then
           db\<lparr>t_blocks := (t_blocks db)((str (field ev ''actor''), str (field ev ''target'')) := None)\<rparr>
         else if name = ''osp.relationships.followed'' then
           db\<lparr>t_follows := (t_follows db)((str (field ev ''follower''), str (field ev ''target'')) \<mapsto> ts)\<rparr>
         else if name = ''osp.relationships.unfollowed'' then
           db\<lparr>t_follows := (t_follows db)((str (field ev ''follower''), str (field ev ''target'')) := None)\<rparr>
         else if name = ''osp.relationships.audience_rotated'' then
           db\<lparr>t_audiences := (t_audiences db)((str (field ev ''account''), num (field ev ''new_epoch'')) \<mapsto>
             \<lparr>ur_since = ts, ur_reason = str (field ev ''reason''), ur_height = le_height ev\<rparr>)\<rparr>
         else db)"

section \<open>Publications\<close>

definition mediaView :: "index_codec \<Rightarrow> proto_value option \<Rightarrow> json list" where
  "mediaView ic media = (case media of
       Some (P_list items) \<Rightarrow> map (\<lambda>item. let m = (case item of P_obj ms \<Rightarrow> ms | _ \<Rightarrow> []) in
         J_obj [(''contentHash'', J_str (b64 ic (map_of m ''content_hash''))), (''mime'', J_str (str (map_of m ''mime''))),
           (''size'', J_str (u64_text (map_of m ''size''))), (''locations'', J_arr (map J_str (texts_of (map_of m ''locations'')))),
           (''keyRef'', J_str (b64 ic (map_of m ''key_ref'')))]) items
     | _ \<Rightarrow> [])"

definition published_rows :: "index_codec \<Rightarrow> log_event \<Rightarrow> tables \<Rightarrow> tables" where
  "published_rows ic ev db =
     (let ts = timestampOf ev; author = str (field ev ''author''); postId = b64 ic (field ev ''post_id'');
          contentHash = b64 ic (field ev ''content_hash'');
          v = num (field ev ''version_number''); versionNumber = (if v = 0 then 1 else v);
          envelope = bytes_of (field ev ''envelope''); media = stringify (J_arr (mediaView ic (field ev ''media'')));
          existing = t_posts db postId;
          db1 = (case existing of
             None \<Rightarrow> db\<lparr>t_posts := (t_posts db)(postId \<mapsto>
               \<lparr>pr_author = author, pr_sequence = u64_text (field ev ''sequence''), pr_version = versionNumber,
                pr_content_hash = contentHash, pr_previous = b64 ic (field ev ''previous_version''), pr_audience = num (field ev ''audience''),
                pr_audience_id = b64 ic (field ev ''audience_id''), pr_epoch = num (field ev ''epoch''), pr_envelope = envelope,
                pr_media = media, pr_reply_to = b64 ic (field ev ''reply_to''), pr_key = b64 ic (field ev ''idempotency_key''),
                pr_protocol_version = num (field ev ''protocol_version''), pr_state = 0, pr_state_reason = [], pr_replacement = [],
                pr_created_at = ts, pr_updated_at = ts, pr_tx_id = le_tx_id ev, pr_height = le_height ev, pr_tx = le_tx ev, pr_seq = le_seq ev\<rparr>)\<rparr>
           | Some _ \<Rightarrow> db\<lparr>t_posts := change_row postId (\<lambda>r. r\<lparr>pr_version := versionNumber, pr_content_hash := contentHash,
               pr_previous := b64 ic (field ev ''previous_version''), pr_epoch := num (field ev ''epoch''), pr_envelope := envelope,
               pr_media := media, pr_updated_at := ts\<rparr>) (t_posts db)\<rparr>);
          db2 = db1\<lparr>t_post_versions := (t_post_versions db1)((postId, versionNumber) \<mapsto>
             \<lparr>vr_content_hash = contentHash, vr_previous = b64 ic (field ev ''previous_version''), vr_envelope = envelope, vr_media = media,
              vr_tx_id = le_tx_id ev, vr_height = le_height ev, vr_timestamp = ts\<rparr>)\<rparr>;
          replyTo = b64 ic (field ev ''reply_to'')
      in if existing = None \<and> replyTo \<noteq> []
         then (case t_posts db2 replyTo of
                 Some parent \<Rightarrow> notify ev (pr_author parent) ''reply'' author (Some replyTo) None [(''replyId'', J_str postId)] db2
               | None \<Rightarrow> db2)
         else db2)"

definition lifecycle_rows :: "index_codec \<Rightarrow> log_event \<Rightarrow> tables \<Rightarrow> tables" where
  "lifecycle_rows ic ev db =
     db\<lparr>t_posts := change_row (b64 ic (field ev ''post_id'')) (\<lambda>r. if pr_state r = 2 then r
          else r\<lparr>pr_state := num (field ev ''state''), pr_state_reason := str (field ev ''reason''),
                 pr_replacement := b64 ic (field ev ''replacement_id''), pr_updated_at := timestampOf ev\<rparr>) (t_posts db)\<rparr>"

definition reaction_rows :: "index_codec \<Rightarrow> log_event \<Rightarrow> tables \<Rightarrow> tables" where
  "reaction_rows ic ev db =
     (let actor = str (field ev ''actor''); postId = b64 ic (field ev ''post_id''); reaction = num (field ev ''reaction'')
      in if field ev ''removed'' = Some (P_bool True)
         then db\<lparr>t_reactions := (t_reactions db)((postId, actor, reaction) := None)\<rparr>
         else notify ev (str (field ev ''post_author'')) ''reaction'' actor (Some postId) None [(''reaction'', J_int reaction)]
           (db\<lparr>t_reactions := (t_reactions db)((postId, actor, reaction) \<mapsto>
              \<lparr>xr_timestamp = timestampOf ev, xr_height = le_height ev, xr_tx_id = le_tx_id ev\<rparr>)\<rparr>))"

definition KEY_PACKAGE_VERSION :: int where "KEY_PACKAGE_VERSION = 1"

definition parseKeyPackageSet :: "index_codec \<Rightarrow> bytes \<Rightarrow> sealed_key list js" where
  "parseKeyPackageSet ic b =
     js_let (ic_key_packages ic b) (\<lambda>(version, keys).
     if version \<noteq> KEY_PACKAGE_VERSION then Inl (Thrown (utf16 ''unsupported key package version '' @ int_text version)) else Inr keys)"

fun project_keys :: "index_codec \<Rightarrow> log_event \<Rightarrow> nat \<Rightarrow> sealed_key list \<Rightarrow> tables \<Rightarrow> tables" where
  "project_keys ic ev index [] db = db"
| "project_keys ic ev index (key # keys) db =
     project_keys ic ev (Suc index) keys
       (if length (sk_recipient key) \<noteq> 25 then db
        else let author = str (field ev ''author''); audienceId = b64 ic (field ev ''audience_id''); epoch = num (field ev ''epoch'');
                 recipient = ic_base58 ic (sk_recipient key)
             in notify ev recipient ''keys'' author None None [(''audienceId'', J_str audienceId), (''epoch'', J_int epoch)]
                  (db\<lparr>t_key_packages := insert_new (pos_of ev, index)
                     \<lparr>kr_author = author, kr_audience_id = audienceId, kr_epoch = epoch, kr_recipient = recipient,
                      kr_key_version = sk_version key, kr_sealed = ic_sealed_key ic key, kr_tx_id = le_tx_id ev,
                      kr_timestamp = timestampOf ev\<rparr> (t_key_packages db)\<rparr>))"

definition keys_distributed_rows :: "index_codec \<Rightarrow> log_event \<Rightarrow> tables \<Rightarrow> tables" where
  "keys_distributed_rows ic ev db =
     (case parseKeyPackageSet ic (bytes_of (field ev ''packages'')) of
        Inl _ \<Rightarrow> db
      | Inr keys \<Rightarrow> project_keys ic ev 0 keys db)"

definition applyPublications :: "index_codec \<Rightarrow> log_event \<Rightarrow> tables \<Rightarrow> tables" where
  "applyPublications ic ev db =
     (let name = le_name ev
      in if name = ''osp.publications.published'' then published_rows ic ev db
         else if name = ''osp.publications.lifecycle'' then lifecycle_rows ic ev db
         else if name = ''osp.publications.reaction'' then reaction_rows ic ev db
         else if name = ''osp.publications.keys_distributed'' then keys_distributed_rows ic ev db
         else if name = ''osp.publications.cross_post_outcome'' then
           db\<lparr>t_cross_posts := (t_cross_posts db)((str (field ev ''author''), b64 ic (field ev ''idempotency_key''), str (field ev ''adapter'')) \<mapsto>
             \<lparr>cr_state = num (field ev ''state''), cr_external_ref = str (field ev ''external_ref''), cr_post_id = b64 ic (field ev ''post_id''),
              cr_manifest_hash = b64 ic (field ev ''manifest_hash''), cr_timestamp = timestampOf ev, cr_height = le_height ev, cr_tx_id = le_tx_id ev\<rparr>)\<rparr>
         else db)"

section \<open>Communities\<close>

definition on_community :: "ustring \<Rightarrow> log_event \<Rightarrow> (community_row \<Rightarrow> community_row) \<Rightarrow> tables \<Rightarrow> tables" where
  "on_community i ev f db = db\<lparr>t_communities := change_row i (\<lambda>r. (f r)\<lparr>mr_updated_at := timestampOf ev\<rparr>) (t_communities db)\<rparr>"

definition role_set_rows :: "index_codec \<Rightarrow> log_event \<Rightarrow> tables \<Rightarrow> tables" where
  "role_set_rows ic ev db =
     (let communityId = b64 ic (field ev ''community_id''); subject = str (field ev ''subject''); actor = str (field ev ''actor'');
          role = num (field ev ''role'');
          db1 = (if role = 0 then db\<lparr>t_roles := (t_roles db)((communityId, subject) := None)\<rparr>
                 else db\<lparr>t_roles := (t_roles db)((communityId, subject) \<mapsto>
                   \<lparr>or_role = role, or_scope = b64 ic (field ev ''scope''), or_expires_at = u64_text (field ev ''expires_at''),
                    or_granted_by = actor, or_granted_at = timestampOf ev\<rparr>)\<rparr>)
      in notify ev subject ''role'' actor None (Some communityId)
           [(''role'', J_int role), (''scope'', J_str (b64 ic (field ev ''scope''))), (''expiresAt'', J_str (u64_text (field ev ''expires_at'')))]
           (on_community communityId ev id db1))"

definition label_set_rows :: "index_codec \<Rightarrow> log_event \<Rightarrow> tables \<Rightarrow> tables" where
  "label_set_rows ic ev db =
     (let communityId = b64 ic (field ev ''community_id''); postId = b64 ic (field ev ''post_id''); actor = str (field ev ''actor'');
          db1 = db\<lparr>t_labels := insert_new (pos_of ev) \<lparr>br_community = communityId, br_post = postId, br_label = str (field ev ''label''),
            br_reason = str (field ev ''reason''), br_actor = actor, br_timestamp = timestampOf ev, br_tx_id = le_tx_id ev\<rparr> (t_labels db)\<rparr>
      in case t_posts db1 postId of
           Some post \<Rightarrow> notify ev (pr_author post) ''label'' actor (Some postId) (Some communityId)
             [(''label'', J_str (str (field ev ''label''))), (''reason'', J_str (str (field ev ''reason'')))] db1
         | None \<Rightarrow> db1)"

definition applyCommunities :: "index_codec \<Rightarrow> log_event \<Rightarrow> tables \<Rightarrow> tables" where
  "applyCommunities ic ev db =
     (let name = le_name ev; ts = timestampOf ev; i = b64 ic (field ev ''community_id'')
      in if name = ''osp.communities.community_created'' then
           db\<lparr>t_communities := (t_communities db)(b64 ic (field ev ''id'') \<mapsto>
             \<lparr>mr_owner = str (field ev ''owner''), mr_name = str (field ev ''name''), mr_policy_hash = b64 ic (field ev ''policy_hash''),
              mr_policy_uri = str (field ev ''policy_uri''), mr_transfer_delay = u64_text (field ev ''transfer_delay_ms''),
              mr_pending_owner = [], mr_effective_at = utf16 ''0'', mr_created_at = ts, mr_updated_at = ts\<rparr>)\<rparr>
         else if name = ''osp.communities.role_set'' then role_set_rows ic ev db
         else if name = ''osp.communities.policy_set'' then
           on_community i ev (\<lambda>r. r\<lparr>mr_policy_hash := b64 ic (field ev ''policy_hash''), mr_policy_uri := str (field ev ''policy_uri'')\<rparr>) db
         else if name = ''osp.communities.owner_transfer_proposed'' then
           on_community i ev (\<lambda>r. r\<lparr>mr_pending_owner := str (field ev ''new_owner''), mr_effective_at := u64_text (field ev ''effective_at'')\<rparr>) db
         else if name = ''osp.communities.owner_transfer_cancelled'' then
           on_community i ev (\<lambda>r. r\<lparr>mr_pending_owner := [], mr_effective_at := utf16 ''0''\<rparr>) db
         else if name = ''osp.communities.owner_transferred'' then
           on_community i ev (\<lambda>r. r\<lparr>mr_owner := str (field ev ''new_owner''), mr_pending_owner := [], mr_effective_at := utf16 ''0''\<rparr>) db
         else if name = ''osp.communities.label_set'' then label_set_rows ic ev db
         else db)"

section \<open>Sponsorship and registry\<close>

definition applySponsorship :: "log_event \<Rightarrow> tables \<Rightarrow> tables" where
  "applySponsorship ev db =
     (let name = le_name ev; ts = timestampOf ev; sponsor = str (field ev ''sponsor''); user = str (field ev ''user'')
      in if name = ''osp.sponsorship.sponsor_set'' then
           db\<lparr>t_sponsors := (t_sponsors db)(sponsor \<mapsto>
             \<lparr>wr_endpoint = str (field ev ''endpoint''), wr_policy_version = num (field ev ''policy_version''), wr_active = bool_number (field ev ''active''),
              wr_registered_at = (case t_sponsors db sponsor of Some r \<Rightarrow> wr_registered_at r | None \<Rightarrow> ts), wr_updated_at = ts\<rparr>)\<rparr>
         else if name = ''osp.sponsorship.sponsor_deactivated'' then
           db\<lparr>t_sponsors := change_row sponsor (\<lambda>r. r\<lparr>wr_active := 0, wr_updated_at := ts\<rparr>) (t_sponsors db)\<rparr>
         else if name = ''osp.sponsorship.user_grant_set'' then
           db\<lparr>t_grants := (t_grants db)((sponsor, user) \<mapsto>
             \<lparr>gr_daily_ops = num (field ev ''daily_ops''), gr_expires_at = u64_text (field ev ''expires_at''), gr_revoked = 0, gr_updated_at = ts\<rparr>)\<rparr>
         else if name = ''osp.sponsorship.user_grant_revoked'' then
           db\<lparr>t_grants := change_row (sponsor, user) (\<lambda>r. r\<lparr>gr_revoked := 1, gr_updated_at := ts\<rparr>) (t_grants db)\<rparr>
         else db)"

definition upsert_entry :: "log_event \<Rightarrow> int \<Rightarrow> ustring \<Rightarrow> ustring \<Rightarrow> tables \<Rightarrow> tables" where
  "upsert_entry ev status effectiveAt abiHash db =
     (let key = (str (field ev ''name''), str (field ev ''address''), num (field ev ''version''))
      in db\<lparr>t_registry := (t_registry db)(key \<mapsto>
           (case t_registry db key of
              None \<Rightarrow> \<lparr>er_abi_hash = abiHash, er_status = status, er_effective_at = effectiveAt, er_notes = [], er_updated_at = timestampOf ev\<rparr>
            | Some r \<Rightarrow> r\<lparr>er_status := status, er_effective_at := effectiveAt,
                er_abi_hash := (if abiHash = [] then er_abi_hash r else abiHash), er_updated_at := timestampOf ev\<rparr>))\<rparr>)"

definition applyRegistry :: "index_codec \<Rightarrow> log_event \<Rightarrow> tables \<Rightarrow> tables" where
  "applyRegistry ic ev db =
     (let name = le_name ev; ts = timestampOf ev
      in if name = ''osp.registry.contract_proposed'' then
           upsert_entry ev 0 (u64_text (field ev ''effective_at'')) (b64 ic (field ev ''abi_hash'')) db
         else if name = ''osp.registry.contract_activated'' then upsert_entry ev 1 ts [] db
         else if name = ''osp.registry.contract_cancelled'' then
           db\<lparr>t_registry := (\<lambda>(n, a, v). case t_registry db (n, a, v) of
                Some r \<Rightarrow> if n = str (field ev ''name'') \<and> er_status r = 0 then None else Some r | None \<Rightarrow> None)\<rparr>
         else if name = ''osp.registry.contract_deprecated'' then upsert_entry ev 2 ts [] db
         else if name = ''osp.registry.admin_proposed'' then
           db\<lparr>t_meta := (t_meta db)(''projection.registry.pending_admin'' \<mapsto> stringify (J_obj
             [(''newAdmin'', J_str (str (field ev ''new_admin''))), (''effectiveAt'', J_str (u64_text (field ev ''effective_at'')))]))\<rparr>
         else if name = ''osp.registry.admin_changed'' then
           db\<lparr>t_meta := (t_meta db)(''projection.registry.admin'' \<mapsto> str (field ev ''new_admin''), ''projection.registry.pending_admin'' := None)\<rparr>
         else db)"

section \<open>Messaging, token and the dispatch\<close>

definition applyMessaging :: "index_codec \<Rightarrow> log_event \<Rightarrow> tables \<Rightarrow> tables" where
  "applyMessaging ic ev db =
     (case field ev ''value'' of
        Some (P_obj v) \<Rightarrow>
          (let json = stringify (toJsonValue ic (P_obj v))
           in if le_name ev = ''osp.messaging.conversation_changed'' then
                db\<lparr>t_conversations := (t_conversations db)((str (map_of v ''a''), str (map_of v ''b'')) \<mapsto> (json, str (map_of v ''updated_at'')))\<rparr>
              else if le_name ev = ''osp.messaging.message_sent'' then
                db\<lparr>t_messages := insert_new (str (map_of v ''sender''), b64 ic (map_of v ''message_id''))
                  \<lparr>hr_recipient = str (map_of v ''recipient''), hr_sequence = str (map_of v ''sequence''), hr_data = json,
                   hr_envelope = bytes_of (field ev ''envelope''), hr_height = le_height ev, hr_tx_id = le_tx_id ev\<rparr> (t_messages db)\<rparr>
              else db)
      | _ \<Rightarrow> db)"

text \<open>An account update without a value cannot be bound to the statement: it throws.\<close>

definition applyToken :: "index_codec \<Rightarrow> log_event \<Rightarrow> tables \<Rightarrow> tables option" where
  "applyToken ic ev db =
     (if le_name ev = ''osp.token.account_updated'' then
        (case field ev ''value'' of
           None \<Rightarrow> None
         | Some v \<Rightarrow> Some (db\<lparr>t_token_accounts := (t_token_accounts db)(str (field ev ''account'') \<mapsto> stringify (toJsonValue ic v))\<rparr>))
      else let first = (\<lambda>a b. if str (field ev a) = [] then str (field ev b) else str (field ev a))
           in Some (db\<lparr>t_token_activity := insert_new (pos_of ev)
                \<lparr>yr_actor = first ''actor'' ''from'', yr_recipient = first ''recipient'' ''to'', yr_kind = le_name ev,
                 yr_data = stringify (toJsonValue ic (P_obj (le_data ev))), yr_tx_id = le_tx_id ev\<rparr> (t_token_activity db)\<rparr>))"

definition applyEvent :: "index_codec \<Rightarrow> log_event \<Rightarrow> tables \<Rightarrow> tables option" where
  "applyEvent ic ev db =
     (let c = le_contract ev
      in if c = ''messaging'' then Some (applyMessaging ic ev db)
         else if c = ''token'' then applyToken ic ev db
         else if c = ''identity'' then Some (applyIdentity ic ev db)
         else if c = ''relationships'' then Some (applyRelationships ic ev db)
         else if c = ''publications'' then Some (applyPublications ic ev db)
         else if c = ''communities'' then Some (applyCommunities ic ev db)
         else if c = ''sponsorship'' then Some (applySponsorship ev db)
         else if c = ''registry'' then Some (applyRegistry ic ev db)
         else Some db)"

end
