(* ===== verification/Indexed.thy ===== *)
theory Indexed
  imports Projections
begin

text \<open>
  What it means that the indexer keeps a table for a contract: the interface between a contract,
  which emits events, and the projection of its events. A history of the contract's transactions
  leaves a log of emitted events; the indexer sees the log of all contracts interleaved.
\<close>

section \<open>Histories and their logs\<close>

text \<open>As \<open>run\<close>, together with the events of the transactions that went through.\<close>

fun run_log :: "('c \<Rightarrow> 's \<Rightarrow> ('s \<times> 'e list) result) \<Rightarrow> 's \<Rightarrow> 'c list \<Rightarrow> 's \<times> 'e list" where
  "run_log step s [] = (s, [])"
| "run_log step s (c # cs) =
     (case step c s of
        Inl e \<Rightarrow> run_log step s cs
      | Inr (s', evs) \<Rightarrow> (let (t, more) = run_log step s' cs in (t, evs @ more)))"

lemma run_log_run: "fst (run_log step s cs) = run (\<lambda>c s. map_sum id fst (step c s)) s cs"
proof (induction cs arbitrary: s)
  case (Cons c cs)
  show ?case
  proof (cases "step c s")
    case (Inr r)
    with Cons [of "fst r"] show ?thesis by (cases r; cases "run_log step (fst r) cs") simp
  qed (simp add: Cons)
qed simp

text \<open>The same step with the events so far at hand.\<close>

definition with_history :: "('c \<Rightarrow> 's \<Rightarrow> ('s \<times> 'e list) result) \<Rightarrow> 'c \<Rightarrow> 's \<times> 'e list \<Rightarrow> (('s \<times> 'e list) \<times> 'e list) result" where
  "with_history step c s = attempt (step c (fst s)) (\<lambda>(s', evs). Inr ((s', snd s @ evs), evs))"

lemma run_log_with_history:
  "run_log step s cs = (s', evs) \<Longrightarrow> run_log (with_history step) (s, h) cs = ((s', h @ evs), evs)"
proof (induction cs arbitrary: s h evs)
  case (Cons c cs)
  show ?case
  proof (cases "step c s")
    case (Inl e)
    with Cons show ?thesis by (simp add: with_history_def)
  next
    case (Inr r)
    obtain s1 evs1 where r: "r = (s1, evs1)" by (cases r) auto
    obtain t evs2 where two: "run_log step s1 cs = (t, evs2)" by (cases "run_log step s1 cs") auto
    from Cons.prems Inr r two have evs: "t = s'" "evs = evs1 @ evs2" by auto
    from Cons.IH [OF two [unfolded evs(1)], of "h @ evs1"] Inr r show ?thesis by (simp add: with_history_def evs(2))
  qed
qed simp

text \<open>The loop over a block's events and over the log: the first event that throws ends it.\<close>

fun apply_all :: "index_codec \<Rightarrow> log_event list \<Rightarrow> tables \<Rightarrow> tables option" where
  "apply_all ic [] db = Some db"
| "apply_all ic (ev # evs) db = (case applyEvent ic ev db of None \<Rightarrow> None | Some db' \<Rightarrow> apply_all ic evs db')"

lemma apply_all_append:
  "apply_all ic (xs @ ys) db = (case apply_all ic xs db of None \<Rightarrow> None | Some db' \<Rightarrow> apply_all ic ys db')"
  by (induction xs arbitrary: db) (auto split: option.splits)

section \<open>The interface\<close>

text \<open>
  \<open>view\<close> is the part of the tables that belongs to the contract: its own events change it as a
  function of itself, the events of the other contracts leave it alone, and one transaction's
  events take a view that mirrors the state before to one that mirrors the state after.
\<close>

locale indexed_contract =
  fixes ic :: index_codec
    and contract :: string
    and step :: "'c \<Rightarrow> 's \<Rightarrow> ('s \<times> 'e list) result"
    and inv :: "'s \<Rightarrow> bool"
    and logged :: "'e \<Rightarrow> log_event \<Rightarrow> bool"
    and project :: "log_event \<Rightarrow> tables \<Rightarrow> tables"
    and view :: "tables \<Rightarrow> 'v"
    and mirrors :: "'s \<Rightarrow> 'v \<Rightarrow> bool"
  assumes keeps: "inv s \<Longrightarrow> step c s = Inr (s', evs) \<Longrightarrow> inv s'"
    and own: "le_contract le = contract \<Longrightarrow> applyEvent ic le db = Some (project le db)"
    and own_view: "view db = view db' \<Longrightarrow> view (project le db) = view (project le db')"
    and other_view: "le_contract le \<noteq> contract \<Longrightarrow> applyEvent ic le db = Some db' \<Longrightarrow> view db' = view db"
    and simulates: "inv s \<Longrightarrow> mirrors s (view db) \<Longrightarrow> step c s = Inr (s', evs) \<Longrightarrow>
      list_all2 logged evs les \<Longrightarrow> mirrors s' (view (fold project les db))"
begin

lemma view_fold: "view db = view db' \<Longrightarrow> view (fold project les db) = view (fold project les db')"
proof (induction les arbitrary: db db')
  case (Cons le les)
  show ?case using Cons.IH [OF own_view [OF Cons.prems]] by simp
qed simp

lemma view_apply_all:
  "apply_all ic les db = Some db' \<Longrightarrow> view db' = view (fold project (filter (\<lambda>le. le_contract le = contract) les) db)"
proof (induction les arbitrary: db)
  case (Cons le les)
  from Cons.prems obtain db1 where one: "applyEvent ic le db = Some db1" and rest: "apply_all ic les db1 = Some db'"
    by (auto split: option.splits)
  show ?case
  proof (cases "le_contract le = contract")
    case True
    with own [of le db] one have "db1 = project le db" by simp
    with Cons.IH [OF rest] True show ?thesis by simp
  next
    case False
    then show ?thesis using Cons.IH [OF rest] view_fold [OF other_view [OF False one]] by simp
  qed
qed simp

lemma history:
  assumes "run_log step s cs = (s', evs)" and "inv s" and "mirrors s (view db)"
    and "list_all2 logged evs les"
  shows "mirrors s' (view (fold project les db))"
  using assms
proof (induction cs arbitrary: s evs les db)
  case (Cons c cs)
  show ?case
  proof (cases "step c s")
    case (Inr r)
    then obtain s1 evs1 where one: "step c s = Inr (s1, evs1)" by (cases r) auto
    with Cons.prems(1) obtain evs2 where two: "run_log step s1 cs = (s', evs2)" and evs: "evs = evs1 @ evs2"
      by (auto split: prod.splits)
    from Cons.prems(4) obtain les1 les2 where les: "les = les1 @ les2" "list_all2 logged evs1 les1" "list_all2 logged evs2 les2"
      by (auto simp: evs list_all2_append1)
    from simulates [OF Cons.prems(2,3) one les(2)] keeps [OF Cons.prems(2) one] Cons.IH [OF two _ _ les(3)]
    show ?thesis by (simp add: les(1))
  qed (use Cons in auto)
qed simp

lemma mirrored:
  assumes "run_log step s cs = (s', evs)" and "inv s" and "mirrors s (view db)"
    and "list_all2 logged evs (filter (\<lambda>le. le_contract le = contract) les)"
    and "apply_all ic les db = Some db'"
  shows "mirrors s' (view db')"
  using history [OF assms(1-4)] view_apply_all [OF assms(5)] by simp

end

section \<open>Which tables a projection writes\<close>

lemma notify_tables [simp]:
  "t_identities (notify ev a k x p c d db) = t_identities db" "t_devices (notify ev a k x p c d db) = t_devices db"
  "t_relationships (notify ev a k x p c d db) = t_relationships db" "t_blocks (notify ev a k x p c d db) = t_blocks db"
  "t_follows (notify ev a k x p c d db) = t_follows db" "t_audiences (notify ev a k x p c d db) = t_audiences db"
  "t_posts (notify ev a k x p c d db) = t_posts db" "t_post_versions (notify ev a k x p c d db) = t_post_versions db"
  "t_communities (notify ev a k x p c d db) = t_communities db" "t_roles (notify ev a k x p c d db) = t_roles db"
  "t_sponsors (notify ev a k x p c d db) = t_sponsors db" "t_grants (notify ev a k x p c d db) = t_grants db"
  "t_registry (notify ev a k x p c d db) = t_registry db" "t_meta (notify ev a k x p c d db) = t_meta db"
  "t_reactions (notify ev a k x p c d db) = t_reactions db" "t_labels (notify ev a k x p c d db) = t_labels db"
  by (simp_all add: notify_def)

abbreviation social_view :: "tables \<Rightarrow> _" where
  "social_view db \<equiv> (t_relationships db, t_blocks db, t_follows db, t_audiences db)"

abbreviation community_view :: "tables \<Rightarrow> _" where
  "community_view db \<equiv> (t_communities db, t_roles db)"

abbreviation sponsor_view :: "tables \<Rightarrow> _" where
  "sponsor_view db \<equiv> (t_sponsors db, t_grants db)"

lemma project_keys_views [simp]:
  "t_relationships (project_keys ic ev i keys db) = t_relationships db"
  "t_blocks (project_keys ic ev i keys db) = t_blocks db"
  "t_follows (project_keys ic ev i keys db) = t_follows db"
  "t_audiences (project_keys ic ev i keys db) = t_audiences db"
  "t_communities (project_keys ic ev i keys db) = t_communities db"
  "t_roles (project_keys ic ev i keys db) = t_roles db"
  "t_sponsors (project_keys ic ev i keys db) = t_sponsors db"
  "t_grants (project_keys ic ev i keys db) = t_grants db"
  by (induction keys arbitrary: i db) (simp_all add: Let_def)

abbreviation three_views :: "tables \<Rightarrow> _" where
  "three_views db \<equiv> (social_view db, community_view db, sponsor_view db)"

lemma identity_views: "three_views (applyIdentity ic ev db) = three_views db"
  by (simp add: applyIdentity_def on_identity_def Let_def)

lemma registry_views: "three_views (applyRegistry ic ev db) = three_views db"
  by (simp add: applyRegistry_def upsert_entry_def Let_def)

lemma messaging_views: "three_views (applyMessaging ic ev db) = three_views db"
  by (simp add: applyMessaging_def Let_def split: option.split proto_value.split)

lemma token_views: "applyToken ic ev db = Some db' \<Longrightarrow> three_views db' = three_views db"
  by (auto simp: applyToken_def Let_def split: if_splits option.splits)

lemma published_views: "three_views (published_rows ic ev db) = three_views db"
  unfolding published_rows_def Let_def by (cases "t_posts db (b64 ic (field ev ''post_id''))") (simp_all split: option.split)

lemma publication_views: "three_views (applyPublications ic ev db) = three_views db"
proof -
  have "three_views (lifecycle_rows ic ev db) = three_views db" by (simp add: lifecycle_rows_def)
  moreover have "three_views (reaction_rows ic ev db) = three_views db" by (simp add: reaction_rows_def Let_def)
  moreover have "three_views (keys_distributed_rows ic ev db) = three_views db"
    by (simp add: keys_distributed_rows_def split: sum.split)
  ultimately show ?thesis using published_views by (simp add: applyPublications_def Let_def)
qed

lemma relationship_views:
  "(community_view (applyRelationships ic ev db), sponsor_view (applyRelationships ic ev db)) = (community_view db, sponsor_view db)"
  by (simp add: applyRelationships_def friend_requested_rows_def friend_accepted_rows_def friend_removed_rows_def
      blocked_rows_def upsertRelationship_def Let_def split: option.split)

lemma communities_views:
  "(social_view (applyCommunities ic ev db), sponsor_view (applyCommunities ic ev db)) = (social_view db, sponsor_view db)"
  by (simp add: applyCommunities_def role_set_rows_def label_set_rows_def on_community_def Let_def split: option.split)

lemma sponsorship_views:
  "(social_view (applySponsorship ev db), community_view (applySponsorship ev db)) = (social_view db, community_view db)"
  by (simp add: applySponsorship_def Let_def)

lemmas event_views = identity_views registry_views messaging_views token_views publication_views
  relationship_views communities_views sponsorship_views

lemma other_views:
  assumes "applyEvent ic ev db = Some db'"
  shows "le_contract ev \<noteq> ''relationships'' \<Longrightarrow> social_view db' = social_view db"
    and "le_contract ev \<noteq> ''communities'' \<Longrightarrow> community_view db' = community_view db"
    and "le_contract ev \<noteq> ''sponsorship'' \<Longrightarrow> sponsor_view db' = sponsor_view db"
  using assms event_views by (auto simp: applyEvent_def Let_def split: if_splits)

section \<open>Values as the indexer decodes them\<close>

definition address_value :: "index_codec \<Rightarrow> bytes \<Rightarrow> proto_value" where
  "address_value ic a = P_str (ic_base58 ic a)"

definition u64_value :: "u64 \<Rightarrow> proto_value" where
  "u64_value n = P_str (int_text (uint n))"

definition u32_value :: "u32 \<Rightarrow> proto_value" where
  "u32_value n = P_num (uint n)"

text \<open>A bytes field that was not set decodes to no bytes.\<close>

definition bytes_value :: "bytes option \<Rightarrow> proto_value" where
  "bytes_value b = P_bytes (case b of Some x \<Rightarrow> x | None \<Rightarrow> [])"

lemma value_readings [simp]:
  "str (Some (address_value ic a)) = ic_base58 ic a"
  "str (Some (P_str s)) = s"
  "str (Some (u64_value n)) = int_text (uint n)"
  "u64_text (Some (u64_value n)) = int_text (uint n)"
  "num (Some (u32_value m)) = uint m"
proof -
  have "int_text (uint n) = nat_text (nat (uint n))" by (simp add: int_text_def)
  then show "u64_text (Some (u64_value n)) = int_text (uint n)"
    using nat_text_digits by (simp add: u64_text_def u64_value_def)
qed (simp_all add: str_def address_value_def u64_value_def u32_value_def num_def)

lemma timestamp_reading [simp]:
  "map_of (le_data ev) ''timestamp'' = Some (u64_value t) \<Longrightarrow> timestampOf ev = int_text (uint t)"
  by (simp add: timestampOf_def u64_value_def)

text \<open>Base58 is injective on addresses.\<close>

definition faithful :: "index_codec \<Rightarrow> bool" where
  "faithful ic \<longleftrightarrow> inj_on (ic_base58 ic) {a. length a = 25}"

lemma faithful_eq [simp]:
  "faithful ic \<Longrightarrow> length a = 25 \<Longrightarrow> length b = 25 \<Longrightarrow> ic_base58 ic a = ic_base58 ic b \<longleftrightarrow> a = b"
  by (auto simp: faithful_def inj_on_def)

text \<open>A concrete codec for the witnesses.\<close>

definition demo_codec :: index_codec where
  "demo_codec = \<lparr>ic_base64url = map ucast, ic_base58 = map ucast, ic_sha256 = id, ic_key_packages = (\<lambda>_. Inr (1, [])),
     ic_sealed_key = (\<lambda>_. [])\<rparr>"

lemma ucast_byte_inj: "inj (ucast :: byte \<Rightarrow> u16)"
  by (rule injI, transfer) simp

lemma demo_codec_inj: "inj_on (ic_base58 demo_codec) A"
  by (rule inj_onI) (simp add: demo_codec_def inj_map_eq_map [OF ucast_byte_inj])

end
