(* ===== verification/Mirror_Relationships.thy ===== *)
theory Mirror_Relationships
  imports Indexed Relationships
begin

text \<open>
  The relationship tables of the indexer mirror the relationships contract: after any history,
  however its events are interleaved with those of the other contracts, the rows the indexer
  serves say what the contract's own reads say.
\<close>

section \<open>The events as the indexer decodes them\<close>

fun relationships_object :: "index_codec \<Rightarrow> relationships_event \<Rightarrow> string \<times> proto_object" where
  "relationships_object ic (Friend_requested requester recipient nonce t) =
     (''osp.relationships.friend_requested'',
      [(''requester'', address_value ic requester), (''recipient'', address_value ic recipient),
       (''nonce'', u64_value nonce), (''timestamp'', u64_value t)])"
| "relationships_object ic (Friend_accepted approver requester nonce ref t) =
     (''osp.relationships.friend_accepted'',
      [(''approver'', address_value ic approver), (''requester'', address_value ic requester),
       (''nonce'', u64_value nonce), (''key_package_ref'', bytes_value ref), (''timestamp'', u64_value t)])"
| "relationships_object ic (Friend_removed actor peer nonce new_epoch t) =
     (''osp.relationships.friend_removed'',
      [(''actor'', address_value ic actor), (''peer'', address_value ic peer),
       (''nonce'', u64_value nonce), (''new_epoch'', u32_value new_epoch), (''timestamp'', u64_value t)])"
| "relationships_object ic (Blocked actor target new_epoch t) =
     (''osp.relationships.blocked'',
      [(''actor'', address_value ic actor), (''target'', address_value ic target),
       (''new_epoch'', u32_value new_epoch), (''timestamp'', u64_value t)])"
| "relationships_object ic (Unblocked actor target t) =
     (''osp.relationships.unblocked'',
      [(''actor'', address_value ic actor), (''target'', address_value ic target), (''timestamp'', u64_value t)])"
| "relationships_object ic (Followed follower target t) =
     (''osp.relationships.followed'',
      [(''follower'', address_value ic follower), (''target'', address_value ic target), (''timestamp'', u64_value t)])"
| "relationships_object ic (Unfollowed follower target t) =
     (''osp.relationships.unfollowed'',
      [(''follower'', address_value ic follower), (''target'', address_value ic target), (''timestamp'', u64_value t)])"
| "relationships_object ic (Audience_rotated account new_epoch why t) =
     (''osp.relationships.audience_rotated'',
      [(''account'', address_value ic account), (''new_epoch'', u32_value new_epoch),
       (''reason'', P_str (utf16 why)), (''timestamp'', u64_value t)])"

definition relationships_logged :: "index_codec \<Rightarrow> relationships_event emitted \<Rightarrow> log_event \<Rightarrow> bool" where
  "relationships_logged ic e le \<longleftrightarrow> le_contract le = ''relationships'' \<and>
     (le_name le, le_data le) = relationships_object ic (fst e) \<and> le_impacted le = map (ic_base58 ic) (snd e)"

section \<open>The correspondence\<close>

definition status_number :: "relationship_status \<Rightarrow> int" where
  "status_number s = (case s of Rel_none \<Rightarrow> 0 | Rel_pending \<Rightarrow> 1 | Rel_active \<Rightarrow> 2 | Rel_inactive \<Rightarrow> 3)"

text \<open>
  A row stands for a record. The indexer counts the nonce of a blocked pair on its own and without
  a bound, the contract in 64 bits.
\<close>

definition row_of_record :: "index_codec \<Rightarrow> relationship_record \<Rightarrow> relationship_row \<Rightarrow> bool" where
  "row_of_record ic r row \<longleftrightarrow> lr_status row = status_number (rr_status r) \<and>
     lr_requester row = ic_base58 ic (rr_requester r) \<and> lr_updated_at row = int_text (uint (rr_updated_at r)) \<and>
     (\<exists>n. lr_nonce row = int_text n \<and> 0 \<le> n \<and> of_int n = rr_nonce r)"

type_synonym relationship_tables =
  "(ustring \<times> ustring \<rightharpoonup> relationship_row) \<times> (ustring \<times> ustring \<rightharpoonup> ustring) \<times>
   (ustring \<times> ustring \<rightharpoonup> ustring) \<times> (ustring \<times> int \<rightharpoonup> audience_row)"

definition mirrors_edges :: "index_codec \<Rightarrow> relationships_state \<Rightarrow> (ustring \<times> ustring \<rightharpoonup> relationship_row) \<Rightarrow> bool" where
  "mirrors_edges ic st rows \<longleftrightarrow> (\<forall>a b. length a = 25 \<longrightarrow> length b = 25 \<longrightarrow>
     rel_option (row_of_record ic) (edges st (pair_key a b)) (rows (pairKey (ic_base58 ic a) (ic_base58 ic b))))"

definition mirrors_pairs :: "index_codec \<Rightarrow> (bytes \<Rightarrow> bytes \<Rightarrow> bool) \<Rightarrow> (ustring \<times> ustring \<rightharpoonup> ustring) \<Rightarrow> bool" where
  "mirrors_pairs ic P rows \<longleftrightarrow> (\<forall>a b. length a = 25 \<longrightarrow> length b = 25 \<longrightarrow>
     (rows (ic_base58 ic a, ic_base58 ic b) \<noteq> None) = P a b)"

definition mirrors_epochs :: "index_codec \<Rightarrow> (bytes \<Rightarrow> u32) \<Rightarrow> (ustring \<times> int \<rightharpoonup> audience_row) \<Rightarrow> bool" where
  "mirrors_epochs ic epoch rows \<longleftrightarrow> (\<forall>a e. length a = 25 \<longrightarrow>
     (rows (ic_base58 ic a, e) \<noteq> None) = (1 \<le> e \<and> e \<le> uint (epoch a)))"

definition mirrors_relationships :: "index_codec \<Rightarrow> relationships_state \<Rightarrow> relationship_tables \<Rightarrow> bool" where
  "mirrors_relationships ic st v \<longleftrightarrow> (case v of (rows, brows, frows, arows) \<Rightarrow>
     mirrors_edges ic st rows \<and> mirrors_pairs ic (\<lambda>a b. has_blocked a b st) brows \<and>
     mirrors_pairs ic (\<lambda>a b. is_following a b st) frows \<and> mirrors_epochs ic (\<lambda>a. audience_epoch a st) arows)"

section \<open>Keys\<close>

lemma pairKey_sets: "pairKey x y = pairKey u v \<longleftrightarrow> (x = u \<and> y = v) \<or> (x = v \<and> y = u)"
  by (auto simp: pairKey_def text_less_def)

lemma pairKey_swap: "pairKey x y = pairKey y x"
  by (simp add: pairKey_sets)

lemma same_pair:
  assumes "faithful ic" "length a = 25" "length b = 25" "length c = 25" "length d = 25"
  shows "pairKey (ic_base58 ic a) (ic_base58 ic b) = pairKey (ic_base58 ic c) (ic_base58 ic d) \<longleftrightarrow> pair_key a b = pair_key c d"
  using assms by (simp add: pairKey_sets pair_key_eq)

section \<open>How the tables follow each write\<close>

lemma mirrors_edges_put:
  assumes "faithful ic" and "mirrors_edges ic st rows" and "row_of_record ic r row"
    and "length a = 25" and "length b = 25" and "edges st' = (edges st)(pair_key a b \<mapsto> r)"
  shows "mirrors_edges ic st' (rows(pairKey (ic_base58 ic a) (ic_base58 ic b) \<mapsto> row))"
  using assms by (auto simp: mirrors_edges_def same_pair)

lemma mirrors_edges_same: "mirrors_edges ic st rows \<Longrightarrow> edges st' = edges st \<Longrightarrow> mirrors_edges ic st' rows"
  by (simp add: mirrors_edges_def)

lemma mirrors_edges_at:
  assumes "mirrors_edges ic st rows" and "length a = 25" and "length b = 25"
  shows "rel_option (row_of_record ic) (edges st (pair_key a b)) (rows (pairKey (ic_base58 ic a) (ic_base58 ic b)))"
  using assms by (simp add: mirrors_edges_def)

lemma mirrors_pairs_put:
  assumes "faithful ic" and "mirrors_pairs ic P rows" and "length a = 25" and "length b = 25"
    and "\<And>c d. Q c d = ((c = a \<and> d = b) \<or> P c d)"
  shows "mirrors_pairs ic Q (rows((ic_base58 ic a, ic_base58 ic b) \<mapsto> t))"
  using assms by (auto simp: mirrors_pairs_def)

lemma mirrors_pairs_drop:
  assumes "faithful ic" and "mirrors_pairs ic P rows" and "length a = 25" and "length b = 25"
    and "\<And>c d. length c = 25 \<Longrightarrow> length d = 25 \<Longrightarrow> Q c d = (\<not> (c = a \<and> d = b) \<and> P c d)"
  shows "mirrors_pairs ic Q (rows((ic_base58 ic a, ic_base58 ic b) := None))"
  using assms by (auto simp: mirrors_pairs_def)

lemma mirrors_epochs_put:
  assumes "faithful ic" and "mirrors_epochs ic E rows" and "length a = 25" and "unat x = Suc (unat (E a))"
  shows "mirrors_epochs ic (E(a := x)) (rows((ic_base58 ic a, uint x) \<mapsto> row))"
proof -
  have step: "uint x = uint (E a) + 1"
    using assms(4) by (metis int_ops(4) uint_nat add.commute of_nat_Suc)
  have pos: "0 \<le> uint (E a)" by simp
  show ?thesis
    unfolding mirrors_epochs_def
  proof (intro allI impI)
    fix c :: bytes and e :: int
    assume c: "length c = 25"
    show "((rows((ic_base58 ic a, uint x) \<mapsto> row)) (ic_base58 ic c, e) \<noteq> None) = (1 \<le> e \<and> e \<le> uint ((E(a := x)) c))"
    proof (cases "c = a")
      case True
      with assms(2,3) have "(rows (ic_base58 ic a, e) \<noteq> None) = (1 \<le> e \<and> e \<le> uint (E a))"
        by (simp add: mirrors_epochs_def)
      then show ?thesis using step pos True by auto
    next
      case False
      with assms c show ?thesis by (simp add: mirrors_epochs_def)
    qed
  qed
qed

section \<open>What each event does to the tables\<close>

lemma logged_fields:
  assumes "relationships_logged ic (e, addrs) le"
  shows "le_name le = fst (relationships_object ic e)" "le_data le = snd (relationships_object ic e)"
  using assms by (simp_all add: relationships_logged_def flip: fst_conv snd_conv) (metis fst_conv snd_conv)+

lemma after_friend_requested:
  assumes "relationships_logged ic (Friend_requested p q n t, is) le"
  shows "social_view (applyRelationships ic le db) = ((t_relationships db)(pairKey (ic_base58 ic p) (ic_base58 ic q) \<mapsto>
     \<lparr>lr_status = 1, lr_requester = ic_base58 ic p, lr_nonce = int_text (uint n), lr_requested_at = int_text (uint t),
      lr_since = utf16 ''0'', lr_updated_at = int_text (uint t)\<rparr>), t_blocks db, t_follows db, t_audiences db)"
  using logged_fields [OF assms]
  by (simp add: applyRelationships_def friend_requested_rows_def upsertRelationship_def Let_def)

lemma after_friend_accepted:
  assumes "relationships_logged ic (Friend_accepted q p n k t, is) le"
  shows "\<exists>asked. social_view (applyRelationships ic le db) = ((t_relationships db)(pairKey (ic_base58 ic q) (ic_base58 ic p) \<mapsto>
     \<lparr>lr_status = 2, lr_requester = ic_base58 ic p, lr_nonce = int_text (uint n), lr_requested_at = asked,
      lr_since = int_text (uint t), lr_updated_at = int_text (uint t)\<rparr>), t_blocks db, t_follows db, t_audiences db)"
  using logged_fields [OF assms]
  by (simp add: applyRelationships_def friend_accepted_rows_def upsertRelationship_def Let_def) blast

lemma after_friend_removed:
  assumes "relationships_logged ic (Friend_removed p q n e t, is) le"
    and "t_relationships db (pairKey (ic_base58 ic p) (ic_base58 ic q)) = Some row"
  shows "social_view (applyRelationships ic le db) = ((t_relationships db)(pairKey (ic_base58 ic p) (ic_base58 ic q) \<mapsto>
     row\<lparr>lr_status := 3, lr_nonce := int_text (uint n), lr_updated_at := int_text (uint t)\<rparr>), t_blocks db, t_follows db, t_audiences db)"
proof -
  have key: "pairKey (fst (pairKey x y)) (snd (pairKey x y)) = pairKey x y" for x y
    by (auto simp: pairKey_def text_less_def)
  show ?thesis
    using logged_fields [OF assms(1)] assms(2)
    by (cases row) (simp add: applyRelationships_def friend_removed_rows_def upsertRelationship_def getRelationship_def key Let_def)
qed

definition ended_row :: "ustring \<Rightarrow> relationship_row \<Rightarrow> relationship_row" where
  "ended_row ts r = (if lr_status r = 1 \<or> lr_status r = 2
     then r\<lparr>lr_status := 3, lr_nonce := next_nonce (lr_nonce r), lr_updated_at := ts\<rparr> else r)"

lemma after_blocked:
  assumes "relationships_logged ic (Blocked p q e t, is) le"
  shows "social_view (applyRelationships ic le db) =
     (change_row (pairKey (ic_base58 ic p) (ic_base58 ic q)) (ended_row (int_text (uint t))) (t_relationships db),
      (t_blocks db)((ic_base58 ic p, ic_base58 ic q) \<mapsto> int_text (uint t)),
      (t_follows db)((ic_base58 ic p, ic_base58 ic q) := None, (ic_base58 ic q, ic_base58 ic p) := None), t_audiences db)"
  using logged_fields [OF assms]
  by (auto simp: applyRelationships_def blocked_rows_def upsertRelationship_def getRelationship_def change_row_def
      ended_row_def Let_def fun_eq_iff split: option.splits)

lemma after_unblocked:
  assumes "relationships_logged ic (Unblocked p q t, is) le"
  shows "social_view (applyRelationships ic le db) =
     (t_relationships db, (t_blocks db)((ic_base58 ic p, ic_base58 ic q) := None), t_follows db, t_audiences db)"
  using logged_fields [OF assms] by (simp add: applyRelationships_def Let_def)

lemma after_followed:
  assumes "relationships_logged ic (Followed p q t, is) le"
  shows "social_view (applyRelationships ic le db) =
     (t_relationships db, t_blocks db, (t_follows db)((ic_base58 ic p, ic_base58 ic q) \<mapsto> int_text (uint t)), t_audiences db)"
  using logged_fields [OF assms] by (simp add: applyRelationships_def Let_def)

lemma after_unfollowed:
  assumes "relationships_logged ic (Unfollowed p q t, is) le"
  shows "social_view (applyRelationships ic le db) =
     (t_relationships db, t_blocks db, (t_follows db)((ic_base58 ic p, ic_base58 ic q) := None), t_audiences db)"
  using logged_fields [OF assms] by (simp add: applyRelationships_def Let_def)

lemma after_audience_rotated:
  assumes "relationships_logged ic (Audience_rotated p e why t, is) le"
  shows "\<exists>row. social_view (applyRelationships ic le db) =
     (t_relationships db, t_blocks db, t_follows db, (t_audiences db)((ic_base58 ic p, uint e) \<mapsto> row))"
  using logged_fields [OF assms] by (simp add: applyRelationships_def Let_def) blast


section \<open>Each operation\<close>

text \<open>One edge written, one event: the request and the acceptance.\<close>

lemma request_fields:
  assumes "request_friend env args s = Inr (s', evs)"
  obtains p q r where "length p = 25" "length q = 25" "rr_status r = Rel_pending" "rr_requester r = p" "rr_updated_at r = now env"
    "snd s' = (snd s)\<lparr>edges := (edges (snd s))(pair_key p q \<mapsto> r)\<rparr>"
    "evs = [(Friend_requested p q (rr_nonce r) (now env), [p, q])]"
proof -
  from assms obtain p q n where pq: "length p = 25" "length q = 25"
    and s': "snd s' = (snd s)\<lparr>edges := (edges (snd s))(pair_key p q \<mapsto> \<lparr>rr_a = if compare p q < 0 then p else q,
      rr_b = if compare p q < 0 then q else p, rr_status = Rel_pending, rr_requester = p, rr_nonce = n, rr_updated_at = now env\<rparr>)\<rparr>"
    and evs: "evs = [(Friend_requested p q n (now env), [p, q])]"
    by (auto simp: request_friend_def relationships_helper_defs split: if_splits)
  show thesis by (rule that [OF pq _ _ _ s']) (simp_all add: evs)
qed

lemma accept_fields:
  assumes "accept_friend env args st = Inr (st', evs)"
  obtains p q r k where "length p = 25" "length q = 25" "rr_status r = Rel_active" "rr_requester r = q" "rr_updated_at r = now env"
    "st' = st\<lparr>edges := (edges st)(pair_key p q \<mapsto> r)\<rparr>"
    "evs = [(Friend_accepted p q (rr_nonce r) k (now env), [p, q])]"
proof -
  from assms obtain p q r k where pq: "length p = 25" "length q = 25" "rr_requester r = q"
    and st': "st' = st\<lparr>edges := (edges st)(pair_key p q \<mapsto> r\<lparr>rr_status := Rel_active, rr_nonce := rr_nonce r + 1,
      rr_updated_at := now env\<rparr>)\<rparr>"
    and evs: "evs = [(Friend_accepted p q (rr_nonce r + 1) k (now env), [p, q])]"
    by (auto simp: accept_friend_def relationships_helper_defs split: if_splits)
  show thesis by (rule that [OF pq(1,2) _ _ _ st']) (simp_all add: evs pq)
qed

lemma row_of_new:
  assumes "rr_status r = s" "rr_requester r = p" "rr_updated_at r = t"
  shows "row_of_record ic r \<lparr>lr_status = status_number s, lr_requester = ic_base58 ic p, lr_nonce = int_text (uint (rr_nonce r)),
     lr_requested_at = x, lr_since = y, lr_updated_at = int_text (uint t)\<rparr>"
  using assms by (auto simp: row_of_record_def intro!: exI [of _ "uint (rr_nonce r)"])

lemma mirrors_put_edge:
  assumes "faithful ic" and "mirrors_relationships ic st (social_view db)" and "length p = 25" and "length q = 25"
    and "social_view db' = ((t_relationships db)(pairKey (ic_base58 ic p) (ic_base58 ic q) \<mapsto> row), t_blocks db, t_follows db, t_audiences db)"
    and "row_of_record ic r row"
  shows "mirrors_relationships ic (st\<lparr>edges := (edges st)(pair_key p q \<mapsto> r)\<rparr>) (social_view db')"
proof -
  have "mirrors_edges ic st (t_relationships db)" using assms(2) by (simp add: mirrors_relationships_def)
  from mirrors_edges_put [OF assms(1) this assms(6,3,4)] assms(2) show ?thesis
    unfolding assms(5) by (simp add: mirrors_relationships_def observe)
qed

text \<open>What the simulation has to show of an operation's own state, \<open>les\<close> being its decoded events.\<close>

definition followed_by_index :: "index_codec \<Rightarrow> relationships_state \<Rightarrow> relationships_event emitted list \<Rightarrow> relationships_state \<Rightarrow> bool" where
  "followed_by_index ic st evs st' \<longleftrightarrow> (\<forall>db les. mirrors_relationships ic st (social_view db) \<longrightarrow>
     list_all2 (relationships_logged ic) evs les \<longrightarrow>
     mirrors_relationships ic st' (social_view (fold (applyRelationships ic) les db)))"

lemma request_followed:
  assumes "faithful ic" and "request_friend env args s = Inr (s', evs)"
  shows "followed_by_index ic (snd s) evs (snd s')"
  using assms(2)
proof (rule request_fields)
  fix p q r
  assume len: "length p = 25" "length q = 25"
    and r: "rr_status r = Rel_pending" "rr_requester r = p" "rr_updated_at r = now env"
    and s': "snd s' = (snd s)\<lparr>edges := (edges (snd s))(pair_key p q \<mapsto> r)\<rparr>"
    and evs: "evs = [(Friend_requested p q (rr_nonce r) (now env), [p, q])]"
  note row = row_of_new [OF r, unfolded status_number_def, simplified]
  show ?thesis
    unfolding followed_by_index_def evs s'
    by (auto simp: list_all2_Cons1 intro!: mirrors_put_edge [OF assms(1) _ len after_friend_requested row])
qed

lemma accept_followed:
  assumes "faithful ic" and "accept_friend env args st = Inr (st', evs)"
  shows "followed_by_index ic st evs st'"
  using assms(2)
proof (rule accept_fields)
  fix p q r k
  assume len: "length p = 25" "length q = 25"
    and r: "rr_status r = Rel_active" "rr_requester r = q" "rr_updated_at r = now env"
    and st': "st' = st\<lparr>edges := (edges st)(pair_key p q \<mapsto> r)\<rparr>"
    and evs: "evs = [(Friend_accepted p q (rr_nonce r) k (now env), [p, q])]"
  note row = row_of_new [OF r, unfolded status_number_def, simplified]
  show ?thesis
    unfolding followed_by_index_def evs st'
  proof (intro allI impI)
    fix db les
    assume m: "mirrors_relationships ic st (social_view db)"
      and "list_all2 (relationships_logged ic) [(Friend_accepted p q (rr_nonce r) k (now env), [p, q])] les"
    then obtain le where les: "les = [le]" "relationships_logged ic (Friend_accepted p q (rr_nonce r) k (now env), [p, q]) le"
      by (auto simp: list_all2_Cons1)
    from after_friend_accepted [OF les(2), of db] obtain asked where
      v: "social_view (applyRelationships ic le db) = ((t_relationships db)(pairKey (ic_base58 ic p) (ic_base58 ic q) \<mapsto>
       \<lparr>lr_status = 2, lr_requester = ic_base58 ic q, lr_nonce = int_text (uint (rr_nonce r)), lr_requested_at = asked,
        lr_since = int_text (uint (now env)), lr_updated_at = int_text (uint (now env))\<rparr>), t_blocks db, t_follows db, t_audiences db)"
      by blast
    from mirrors_put_edge [OF assms(1) m len v row] show "mirrors_relationships ic (st\<lparr>edges := (edges st)(pair_key p q \<mapsto> r)\<rparr>)
        (social_view (fold (applyRelationships ic) les db))" by (simp add: les)
  qed
qed

lemma followed_append:
  assumes "followed_by_index ic st evs1 st1" and "followed_by_index ic st1 evs2 st2"
  shows "followed_by_index ic st (evs1 @ evs2) st2"
  unfolding followed_by_index_def
proof (intro allI impI)
  fix db les
  assume m: "mirrors_relationships ic st (social_view db)" and "list_all2 (relationships_logged ic) (evs1 @ evs2) les"
  then obtain les1 les2 where les: "les = les1 @ les2" "list_all2 (relationships_logged ic) evs1 les1"
      "list_all2 (relationships_logged ic) evs2 les2"
    by (auto simp: list_all2_append1)
  with assms m show "mirrors_relationships ic st2 (social_view (fold (applyRelationships ic) les db))"
    by (simp add: followed_by_index_def)
qed

lemma followed_one:
  assumes "\<And>db le. mirrors_relationships ic st (social_view db) \<Longrightarrow> relationships_logged ic ev le \<Longrightarrow>
    mirrors_relationships ic st' (social_view (applyRelationships ic le db))"
  shows "followed_by_index ic st [ev] st'"
  using assms by (auto simp: followed_by_index_def list_all2_Cons1)

lemma advance_followed:
  assumes "faithful ic" and "advance_epoch a t st = Inr (st', e)" and "length a = 25"
  shows "followed_by_index ic st [emit_audience_rotated a e why t'] st'"
proof (rule followed_one)
  fix db le
  assume m: "mirrors_relationships ic st (social_view db)" and "relationships_logged ic (emit_audience_rotated a e why t') le"
  then have "relationships_logged ic (Audience_rotated a e why t', [a]) le" by (simp add: emit_audience_rotated_def)
  from after_audience_rotated [OF this, of db] obtain row where
    v: "social_view (applyRelationships ic le db) =
     (t_relationships db, t_blocks db, t_follows db, (t_audiences db)((ic_base58 ic a, uint e) \<mapsto> row))" by blast
  note adv = advance_epoch_fields [OF assms(2)]
  have ep: "(\<lambda>c. audience_epoch c st') = (\<lambda>c. audience_epoch c st)(a := e)" using adv(5,6) by auto
  have up: "unat e = Suc (unat (audience_epoch a st))" using adv(4,6) by simp
  from m have ms: "mirrors_edges ic st (t_relationships db)" "mirrors_pairs ic (\<lambda>a b. has_blocked a b st) (t_blocks db)"
    "mirrors_pairs ic (\<lambda>a b. is_following a b st) (t_follows db)" "mirrors_epochs ic (\<lambda>a. audience_epoch a st) (t_audiences db)"
    by (simp_all add: mirrors_relationships_def)
  from mirrors_epochs_put [OF assms(1) ms(4) assms(3) up] ms(1-3)
  show "mirrors_relationships ic st' (social_view (applyRelationships ic le db))"
    unfolding v by (simp add: mirrors_relationships_def ep mirrors_edges_same [OF _ adv(1)])
      (simp add: observe_fields adv(2,3))
qed

lemma remove_followed:
  assumes "faithful ic" and "remove_friend env args st = Inr (st', evs)"
  shows "followed_by_index ic st evs st'"
proof -
  define t where "t = now env"
  from assms(2) obtain a b r st1 st2 e1 e2 where ab: "length a = 25" "length b = 25"
    and r: "edges st (pair_key a b) = Some r" "rr_status r = Rel_active"
    and st1: "st1 = st\<lparr>edges := (edges st)(pair_key a b \<mapsto> r\<lparr>rr_status := Rel_inactive, rr_nonce := rr_nonce r + 1, rr_updated_at := t\<rparr>)\<rparr>"
    and st2: "advance_epoch a t st1 = Inr (st2, e1)" and st3: "advance_epoch b t st2 = Inr (st', e2)"
    and evs: "evs = [(Friend_removed a b (rr_nonce r + 1) e1 t, [a, b])] @ [emit_audience_rotated a e1 REASON_FRIEND_REMOVED t] @
       [emit_audience_rotated b e2 REASON_FRIEND_REMOVED t]"
    by (auto simp: remove_friend_def Let_def t_def)
  have "followed_by_index ic st [(Friend_removed a b (rr_nonce r + 1) e1 t, [a, b])] st1"
  proof (rule followed_one)
    fix db le
    assume m: "mirrors_relationships ic st (social_view db)" and le: "relationships_logged ic (Friend_removed a b (rr_nonce r + 1) e1 t, [a, b]) le"
    from m have "mirrors_edges ic st (t_relationships db)" by (simp add: mirrors_relationships_def)
    from mirrors_edges_at [OF this ab] r obtain row where
      row: "t_relationships db (pairKey (ic_base58 ic a) (ic_base58 ic b)) = Some row" "row_of_record ic r row"
      by (auto simp: option_rel_Some1)
    have "row_of_record ic (r\<lparr>rr_status := Rel_inactive, rr_nonce := rr_nonce r + 1, rr_updated_at := t\<rparr>)
      (row\<lparr>lr_status := 3, lr_nonce := int_text (uint (rr_nonce r + 1)), lr_updated_at := int_text (uint t)\<rparr>)"
      using row(2) by (auto simp: row_of_record_def status_number_def intro!: exI [of _ "uint (rr_nonce r + 1)"])
    with mirrors_put_edge [OF assms(1) m ab after_friend_removed [OF le row(1)]]
    show "mirrors_relationships ic st1 (social_view (applyRelationships ic le db))" unfolding st1 .
  qed
  with advance_followed [OF assms(1) st2 ab(1)] advance_followed [OF assms(1) st3 ab(2)]
  show ?thesis unfolding evs by (intro followed_append)
qed

lemma ended_row_of:
  assumes "row_of_record ic r row"
  shows "row_of_record ic (if rr_status r = Rel_pending \<or> rr_status r = Rel_active
     then r\<lparr>rr_status := Rel_inactive, rr_nonce := rr_nonce r + 1, rr_updated_at := t\<rparr> else r) (ended_row (int_text (uint t)) row)"
proof -
  from assms obtain n where n: "lr_nonce row = int_text n" "0 \<le> n" "of_int n = rr_nonce r"
    and st: "lr_status row = status_number (rr_status r)"
    by (auto simp: row_of_record_def)
  have "next_nonce (lr_nonce row) = int_text (n + 1)" by (simp add: next_nonce_def n(1))
  with n st assms show ?thesis
    by (cases "rr_status r") (auto simp: row_of_record_def ended_row_def status_number_def intro!: exI [of _ "n + 1"])
qed

lemma mirrors_end_edge:
  assumes "faithful ic" and "mirrors_edges ic st rows" and "length a = 25" and "length b = 25"
  shows "mirrors_edges ic (end_edge (pair_key a b) t st)
    (change_row (pairKey (ic_base58 ic a) (ic_base58 ic b)) (ended_row (int_text (uint t))) rows)"
  unfolding mirrors_edges_def
proof (intro allI impI)
  fix c d :: bytes
  assume cd: "length c = 25" "length d = 25"
  note at = mirrors_edges_at [OF assms(2) cd] and same = same_pair [OF assms(1) cd assms(3,4)]
  show "rel_option (row_of_record ic) (edges (end_edge (pair_key a b) t st) (pair_key c d))
    (change_row (pairKey (ic_base58 ic a) (ic_base58 ic b)) (ended_row (int_text (uint t))) rows
       (pairKey (ic_base58 ic c) (ic_base58 ic d)))"
  proof (cases "pair_key c d = pair_key a b")
    case True
    with at same show ?thesis
      by (cases "edges st (pair_key a b)")
        (auto simp: change_row_at end_edge_fields option_rel_Some1 dest: ended_row_of [where t = t] split: if_splits)
  next
    case False
    with at same show ?thesis by (auto simp: change_row_at end_edge_fields split: option.split)
  qed
qed

lemma block_followed:
  assumes "faithful ic" and "block env args st = Inr (st', evs)"
  shows "followed_by_index ic st evs st'"
proof -
  define t where "t = now env"
  from assms(2) obtain a b st4 st5 e1 where ab: "length a = 25" "length b = 25"
    and st4: "st4 = (let st2 = end_edge (pair_key a b) t (st\<lparr>blocks := (blocks st)(directed_key a b \<mapsto> \<lparr>blk_blocked = True, blk_updated_at = t\<rparr>)\<rparr>)
        in st2\<lparr>follows := (follows st)(directed_key a b := None, directed_key b a := None)\<rparr>)"
    and st5: "advance_epoch a t st4 = Inr (st5, e1)"
    and rest: "st' = st5 \<and> evs = [(Blocked a b e1 t, [a, b])] @ [emit_audience_rotated a e1 REASON_BLOCKED t] \<or>
      (\<exists>e2. advance_epoch b t st5 = Inr (st', e2) \<and> evs = [(Blocked a b e1 t, [a, b])] @
         [emit_audience_rotated a e1 REASON_BLOCKED t] @ [emit_audience_rotated b e2 REASON_BLOCKED t])"
    unfolding block_def Let_def t_def by (auto simp: end_edge_fields split: option.splits if_splits)
  have fields: "edges st4 = edges (end_edge (pair_key a b) t st)"
    "follows st4 = (follows st)(directed_key a b := None, directed_key b a := None)"
    "blocks st4 = (blocks st)(directed_key a b \<mapsto> \<lparr>blk_blocked = True, blk_updated_at = t\<rparr>)"
    "\<And>c. audience_epoch c st4 = audience_epoch c st"
    by (simp_all add: st4 Let_def end_edge_fields observe_fields split: option.split)
  have "followed_by_index ic st [(Blocked a b e1 t, [a, b])] st4"
  proof (rule followed_one)
    fix db le
    assume m: "mirrors_relationships ic st (social_view db)" and le: "relationships_logged ic (Blocked a b e1 t, [a, b]) le"
    note v = after_blocked [OF le, of db]
    from m have ms: "mirrors_edges ic st (t_relationships db)" "mirrors_pairs ic (\<lambda>a b. has_blocked a b st) (t_blocks db)"
      "mirrors_pairs ic (\<lambda>a b. is_following a b st) (t_follows db)" "mirrors_epochs ic (\<lambda>a. audience_epoch a st) (t_audiences db)"
      by (simp_all add: mirrors_relationships_def)
    note e = mirrors_edges_same [OF mirrors_end_edge [OF assms(1) ms(1) ab, of t] fields(1)]
    have bl: "mirrors_pairs ic (\<lambda>a b. has_blocked a b st4) ((t_blocks db)((ic_base58 ic a, ic_base58 ic b) \<mapsto> int_text (uint t)))"
      using assms(1) ms(2) ab
      by (auto simp: mirrors_pairs_def observe_fields(3) fields(3) directed_key_eq)
    have fo: "mirrors_pairs ic (\<lambda>a b. is_following a b st4)
        ((t_follows db)((ic_base58 ic a, ic_base58 ic b) := None, (ic_base58 ic b, ic_base58 ic a) := None))"
      using assms(1) ms(3) ab
      by (auto simp: mirrors_pairs_def observe_fields(2) fields(2) directed_key_eq)
    from e bl fo ms(4) show "mirrors_relationships ic st4 (social_view (applyRelationships ic le db))"
      unfolding v by (simp add: mirrors_relationships_def fields(4))
  qed
  note one = this and two = advance_followed [OF assms(1) st5 ab(1)]
  from rest show ?thesis
  proof
    assume "st' = st5 \<and> evs = [(Blocked a b e1 t, [a, b])] @ [emit_audience_rotated a e1 REASON_BLOCKED t]"
    then show ?thesis using followed_append [OF one two] by simp
  next
    assume "\<exists>e2. advance_epoch b t st5 = Inr (st', e2) \<and> evs = [(Blocked a b e1 t, [a, b])] @
         [emit_audience_rotated a e1 REASON_BLOCKED t] @ [emit_audience_rotated b e2 REASON_BLOCKED t]"
    then obtain e2 where st6: "advance_epoch b t st5 = Inr (st', e2)" and evs: "evs = [(Blocked a b e1 t, [a, b])] @
         [emit_audience_rotated a e1 REASON_BLOCKED t] @ [emit_audience_rotated b e2 REASON_BLOCKED t]" by blast
    show ?thesis unfolding evs
      by (intro followed_append [OF one] followed_append [OF two] advance_followed [OF assms(1) st6 ab(2)])
  qed
qed

lemma mirrors_put_block:
  assumes "faithful ic" and "mirrors_relationships ic st (social_view db)" and "length p = 25" and "length q = 25"
    and "social_view db' = (t_relationships db, (t_blocks db)((ic_base58 ic p, ic_base58 ic q) := row), t_follows db, t_audiences db)"
    and "(row \<noteq> None) = (case v of None \<Rightarrow> False | Some r \<Rightarrow> blk_blocked r)"
  shows "mirrors_relationships ic (st\<lparr>blocks := (blocks st)(directed_key p q := v)\<rparr>) (social_view db')"
  using assms unfolding assms(5)
  by (auto simp: mirrors_relationships_def observe mirrors_edges_def mirrors_pairs_def directed_key_eq)

lemma mirrors_put_follow:
  assumes "faithful ic" and "mirrors_relationships ic st (social_view db)" and "length p = 25" and "length q = 25"
    and "social_view db' = (t_relationships db, t_blocks db, (t_follows db)((ic_base58 ic p, ic_base58 ic q) := row), t_audiences db)"
    and "(row \<noteq> None) = (case v of None \<Rightarrow> False | Some r \<Rightarrow> fol_active r)"
  shows "mirrors_relationships ic (st\<lparr>follows := (follows st)(directed_key p q := v)\<rparr>) (social_view db')"
  using assms unfolding assms(5)
  by (auto simp: mirrors_relationships_def observe mirrors_edges_def mirrors_pairs_def directed_key_eq)

lemma unblock_followed:
  assumes "faithful ic" and "unblock env args st = Inr (st', evs)"
  shows "followed_by_index ic st evs st'"
  using assms(2) by (auto simp: unblock_def Let_def intro!: followed_one mirrors_put_block [OF assms(1) _ _ _ after_unblocked])

lemma unfollow_followed:
  assumes "faithful ic" and "unfollow env args st = Inr (st', evs)"
  shows "followed_by_index ic st evs st'"
  using assms(2) by (auto simp: unfollow_def Let_def intro!: followed_one mirrors_put_follow [OF assms(1) _ _ _ after_unfollowed])

lemma follow_followed:
  assumes "faithful ic" and "follow env args s = Inr (s', evs)"
  shows "followed_by_index ic (snd s) evs (snd s')"
  using assms(2) by (auto simp: follow_def relationships_helper_defs intro!: followed_one mirrors_put_follow [OF assms(1) _ _ _ after_followed])

lemma rotate_followed:
  assumes "faithful ic" and "rotate_audience env args st = Inr (st', evs)"
  shows "followed_by_index ic st evs st'"
  using assms(2) by (auto simp: rotate_audience_def Let_def intro: advance_followed [OF assms(1)])

lemma config_followed:
  "rel_set_token_contract env a st = Inr (st', evs) \<Longrightarrow> followed_by_index ic st evs st'"
  "rel_set_identity_contract env a st = Inr (st', evs) \<Longrightarrow> followed_by_index ic st evs st'"
  by (auto simp: rel_set_token_contract_def rel_set_identity_contract_def followed_by_index_def mirrors_relationships_def
      mirrors_edges_def observe)

lemma relationships_followed:
  assumes "faithful ic" and "relationships_step env call s = Inr (s', evs)"
  shows "followed_by_index ic (snd s) evs (snd s')"
  using assms(2)
  by (cases call) (auto intro: request_followed [OF assms(1)] accept_followed [OF assms(1)] remove_followed [OF assms(1)]
    block_followed [OF assms(1)] unblock_followed [OF assms(1)] follow_followed [OF assms(1)]
    unfollow_followed [OF assms(1)] rotate_followed [OF assms(1)] config_followed)

section \<open>The mirror\<close>

lemma blocked_own_view:
  assumes "social_view db = social_view db'"
  shows "social_view (blocked_rows ev db) = social_view (blocked_rows ev db')"
  using assms
  by (cases "t_relationships db' (pairKey (str (field ev ''actor'')) (str (field ev ''target'')))")
    (simp_all add: blocked_rows_def upsertRelationship_def getRelationship_def Let_def)

lemma relationships_own_view:
  assumes "social_view db = social_view db'"
  shows "social_view (applyRelationships ic le db) = social_view (applyRelationships ic le db')"
  using assms blocked_own_view [OF assms, of le]
  by (simp add: applyRelationships_def friend_requested_rows_def friend_accepted_rows_def friend_removed_rows_def
      upsertRelationship_def getRelationship_def Let_def)

interpretation relationships_index: indexed_contract ic "''relationships''" "\<lambda>tx. relationships_step (fst tx) (snd tx)"
    "\<lambda>_. faithful ic" "relationships_logged ic" "applyRelationships ic" social_view "\<lambda>s. mirrors_relationships ic (snd s)"
  for ic
proof unfold_locales
  fix s c s' evs les and db :: tables
  assume "faithful ic" and m: "mirrors_relationships ic (snd s) (social_view db)"
    and "relationships_step (fst c) (snd c) s = Inr (s', evs)" and les: "list_all2 (relationships_logged ic) evs les"
  from relationships_followed [OF this(1,3)] m les
  show "mirrors_relationships ic (snd s') (social_view (fold (applyRelationships ic) les db))"
    by (simp add: followed_by_index_def)
qed (assumption | erule relationships_own_view | erule (1) other_views(1) | simp add: applyEvent_def)+

lemma mirrors_relationships_empty: "mirrors_relationships ic relationships_empty (social_view no_tables)"
  by (simp add: mirrors_relationships_def no_tables_def relationships_empty_def mirrors_edges_def mirrors_pairs_def
      mirrors_epochs_def observe_fields)

text \<open>
  C5: The indexer mirrors the relationships contract: decode the events of any history of its
  transactions, interleave them with the events of the other contracts in any way, and apply them
  to empty tables. Then exactly the pairs with a record have a row, with the record's status,
  requester and time and with its nonce (modulo the contract's 64 bits); the block and follow rows
  are those \<open>is_blocked\<close> and \<open>get_follow\<close> report; and an account has an audience row for each epoch
  from one to its current one.
\<close>

theorem index_mirrors_relationships:
  assumes "inj_on (ic_base58 ic) {a. length a = 25}"
    and "run_log (\<lambda>tx. relationships_step (fst tx) (snd tx)) (w, relationships_empty) cs = ((w', st), evs)"
    and "list_all2 (relationships_logged ic) evs (filter (\<lambda>le. le_contract le = ''relationships'') les)"
    and "apply_all ic les no_tables = Some db"
  shows "mirrors_relationships ic st (social_view db)"
  using relationships_index.mirrored [OF assms(2) _ _ assms(3,4)] assms(1) mirrors_relationships_empty
  by (simp add: faithful_def)

lemma mirrored_block:
  "mirrors_relationships ic st (social_view db) \<Longrightarrow> length a = 25 \<Longrightarrow> length b = 25 \<Longrightarrow>
     (t_blocks db (ic_base58 ic a, ic_base58 ic b) \<noteq> None) = has_blocked a b st"
  by (simp add: mirrors_relationships_def mirrors_pairs_def)

section \<open>A history in which two friends fall out\<close>

definition place_event :: "index_codec \<Rightarrow> int \<Rightarrow> relationships_event emitted \<Rightarrow> log_event" where
  "place_event ic height e = \<lparr>le_height = height, le_block_id = [], le_block_time = [], le_tx = 0, le_seq = 0, le_tx_id = [],
     le_contract = ''relationships'', le_name = fst (relationships_object ic (fst e)), le_data = snd (relationships_object ic (fst e)),
     le_impacted = map (ic_base58 ic) (snd e)\<rparr>"

lemma placed_logged: "list_all2 (relationships_logged ic) evs (map (place_event ic h) evs)"
  by (induction evs) (simp_all add: relationships_logged_def place_event_def)

lemma placed_own [simp]: "filter (\<lambda>le. le_contract le = ''relationships'') (map (place_event ic h) evs) = map (place_event ic h) evs"
  by (simp add: filter_id_conv place_event_def)

lemma placed_apply: "apply_all ic (map (place_event ic h) evs) db = Some (fold (applyRelationships ic) (map (place_event ic h) evs) db)"
  by (induction evs arbitrary: db) (simp_all add: applyEvent_def place_event_def)

theorem index_mirrors_relationships_witness:
  "\<exists>st db. st = rel_after () (demo_friends @ demo_block) \<and> has_blocked (sample_addr 1) (sample_addr 2) st \<and>
     mirrors_relationships demo_codec st (social_view db) \<and>
     t_blocks db (ic_base58 demo_codec (sample_addr 1), ic_base58 demo_codec (sample_addr 2)) \<noteq> None"
proof -
  let ?step = "\<lambda>tx. relationships_step (fst tx) (snd tx)"
  define r where "r = run_log ?step ((), relationships_empty) (demo_friends @ demo_block)"
  define st where "st = snd (fst r)"
  define db where "db = fold (applyRelationships demo_codec) (map (place_event demo_codec 7) (snd r)) no_tables"
  have run: "run_log ?step ((), relationships_empty) (demo_friends @ demo_block) = (((), st), snd r)"
    by (simp add: r_def st_def prod_eq_iff)
  have st: "st = rel_after () (demo_friends @ demo_block)"
    unfolding st_def r_def run_log_run relationships_exec_def [abs_def] ..
  have "list_all2 (relationships_logged demo_codec) (snd r)
      (filter (\<lambda>le. le_contract le = ''relationships'') (map (place_event demo_codec 7) (snd r)))"
    by (simp add: placed_logged)
  from index_mirrors_relationships [OF demo_codec_inj run this placed_apply]
  have m: "mirrors_relationships demo_codec st (social_view db)" unfolding db_def .
  from mirrored_block [OF m length_sample_addr length_sample_addr] st m demo_states(3) show ?thesis by blast
qed

end
