(* ===== verification/Mirror_Communities.thy ===== *)
theory Mirror_Communities
  imports Indexed Communities
begin

text \<open>
  The community tables of the indexer against the communities contract: the community rows say what
  the contract stores, the role rows hold every stored role, and the only rows too many are
  those of accounts that became owner: the contract drops an account's stored role when it
  becomes owner, the indexer keeps the row.
\<close>

section \<open>The events as the indexer decodes them\<close>

definition text_value :: "ustring option \<Rightarrow> proto_value" where
  "text_value s = P_str (case s of Some x \<Rightarrow> x | None \<Rightarrow> [])"

fun communities_object :: "index_codec \<Rightarrow> communities_event \<Rightarrow> string \<times> proto_object" where
  "communities_object ic (Community_created i owner name hash uri delay t) =
     (''osp.communities.community_created'',
      [(''id'', P_bytes i), (''owner'', address_value ic owner), (''name'', P_str name), (''policy_hash'', bytes_value hash),
       (''policy_uri'', text_value uri), (''transfer_delay_ms'', u64_value delay), (''timestamp'', u64_value t)])"
| "communities_object ic (Role_set i actor subject role scope expires t) =
     (''osp.communities.role_set'',
      [(''community_id'', P_bytes i), (''actor'', address_value ic actor), (''subject'', address_value ic subject),
       (''role'', P_num role), (''scope'', bytes_value scope), (''expires_at'', u64_value expires), (''timestamp'', u64_value t)])"
| "communities_object ic (Policy_set i actor hash uri t) =
     (''osp.communities.policy_set'',
      [(''community_id'', P_bytes i), (''actor'', address_value ic actor), (''policy_hash'', bytes_value hash),
       (''policy_uri'', text_value uri), (''timestamp'', u64_value t)])"
| "communities_object ic (Owner_transfer_proposed i owner new_owner effective_at) =
     (''osp.communities.owner_transfer_proposed'',
      [(''community_id'', P_bytes i), (''owner'', address_value ic owner), (''new_owner'', address_value ic new_owner),
       (''effective_at'', u64_value effective_at)])"
| "communities_object ic (Owner_transfer_cancelled i t) =
     (''osp.communities.owner_transfer_cancelled'', [(''community_id'', P_bytes i), (''timestamp'', u64_value t)])"
| "communities_object ic (Owner_transferred i previous_owner new_owner t) =
     (''osp.communities.owner_transferred'',
      [(''community_id'', P_bytes i), (''previous_owner'', address_value ic previous_owner),
       (''new_owner'', address_value ic new_owner), (''timestamp'', u64_value t)])"
| "communities_object ic (Label_set i actor post label why t) =
     (''osp.communities.label_set'',
      [(''community_id'', P_bytes i), (''actor'', address_value ic actor), (''post_id'', P_bytes post), (''label'', P_str label),
       (''reason'', text_value why), (''timestamp'', u64_value t)])"

definition communities_logged :: "index_codec \<Rightarrow> communities_event emitted \<Rightarrow> log_event \<Rightarrow> bool" where
  "communities_logged ic e le \<longleftrightarrow> le_contract le = ''communities'' \<and>
     (le_name le, le_data le) = communities_object ic (fst e) \<and> le_impacted le = map (ic_base58 ic) (snd e)"

section \<open>The correspondence\<close>

text \<open>The row of a community but for the time of its last change, which role changes set too.\<close>

definition row_of_community :: "index_codec \<Rightarrow> community_record \<Rightarrow> community_row \<Rightarrow> bool" where
  "row_of_community ic c r \<longleftrightarrow> mr_owner r = ic_base58 ic (com_owner c) \<and> mr_name r = com_name c \<and>
     mr_policy_hash r = b64 ic (Some (bytes_value (com_policy_hash c))) \<and> mr_policy_uri r = str (Some (text_value (com_policy_uri c))) \<and>
     mr_transfer_delay r = int_text (uint (com_transfer_delay_ms c)) \<and>
     mr_pending_owner r = (case com_pending_owner c of Some p \<Rightarrow> ic_base58 ic p | None \<Rightarrow> []) \<and>
     mr_effective_at r = int_text (uint (com_transfer_effective_at c)) \<and> mr_created_at r = int_text (uint (com_created_at c))"

definition row_of_role :: "index_codec \<Rightarrow> role_record \<Rightarrow> role_row" where
  "row_of_role ic r = \<lparr>or_role = role_role r, or_scope = b64 ic (Some (bytes_value (role_scope r))),
     or_expires_at = int_text (uint (role_expires_at r)), or_granted_by = ic_base58 ic (role_granted_by r),
     or_granted_at = int_text (uint (role_granted_at r))\<rparr>"

definition community_id_ok :: "bytes \<Rightarrow> bool" where
  "community_id_ok i \<longleftrightarrow> i \<noteq> [] \<and> length i \<le> ID_MAX_LENGTH"

definition promoted :: "bytes \<Rightarrow> bytes \<Rightarrow> communities_event emitted list \<Rightarrow> bool" where
  "promoted i a evs \<longleftrightarrow> (\<exists>e \<in> set evs. \<exists>p t. fst e = Owner_transferred i p a t)"

type_synonym community_tables = "(ustring \<rightharpoonup> community_row) \<times> (ustring \<times> ustring \<rightharpoonup> role_row)"

definition mirrors_community_rows :: "index_codec \<Rightarrow> (bytes \<rightharpoonup> community_record) \<Rightarrow> (ustring \<rightharpoonup> community_row) \<Rightarrow> bool" where
  "mirrors_community_rows ic m rows \<longleftrightarrow> (\<forall>i. community_id_ok i \<longrightarrow>
     rel_option (row_of_community ic) (m i) (rows (ic_base64url ic i)))"

definition mirrors_role_rows :: "index_codec \<Rightarrow> (bytes \<rightharpoonup> role_record) \<Rightarrow> communities_event emitted list \<Rightarrow>
    (ustring \<times> ustring \<rightharpoonup> role_row) \<Rightarrow> bool" where
  "mirrors_role_rows ic m evs rows \<longleftrightarrow> (\<forall>i a. community_id_ok i \<longrightarrow> length a = 25 \<longrightarrow>
     (\<forall>r. m (role_key i a) = Some r \<longrightarrow> rows (ic_base64url ic i, ic_base58 ic a) = Some (row_of_role ic r)) \<and>
     (m (role_key i a) = None \<longrightarrow> rows (ic_base64url ic i, ic_base58 ic a) = None \<or> promoted i a evs))"

definition mirrors_communities :: "index_codec \<Rightarrow> communities_state \<times> communities_event emitted list \<Rightarrow> community_tables \<Rightarrow> bool" where
  "mirrors_communities ic s v \<longleftrightarrow> mirrors_community_rows ic (com_communities (fst s)) (fst v) \<and>
     mirrors_role_rows ic (com_roles (fst s)) (snd s) (snd v)"

definition faithful_ids :: "index_codec \<Rightarrow> bool" where
  "faithful_ids ic \<longleftrightarrow> faithful ic \<and> inj (ic_base64url ic)"

lemma faithful_ids_eq [simp]:
  "faithful_ids ic \<Longrightarrow> ic_base64url ic i = ic_base64url ic j \<longleftrightarrow> i = j"
  "faithful_ids ic \<Longrightarrow> length a = 25 \<Longrightarrow> length b = 25 \<Longrightarrow> ic_base58 ic a = ic_base58 ic b \<longleftrightarrow> a = b"
  by (auto simp: faithful_ids_def inj_eq)

lemma role_key_eq: "length a = 25 \<Longrightarrow> length b = 25 \<Longrightarrow> role_key i a = role_key j b \<longleftrightarrow> i = j \<and> a = b"
  by (simp add: role_key_def)

lemma id_reading [simp]: "community_id_ok i \<Longrightarrow> b64 ic (Some (P_bytes i)) = ic_base64url ic i"
  by (simp add: b64_def bytes_of_def community_id_ok_def Let_def)

lemma zero_text: "utf16 ''0'' = int_text 0"
  by (simp add: int_text_def utf16_def nat_text.simps of_char_def)

lemma number_reading [simp]: "num (Some (P_num n)) = n"
  by (simp add: num_def)

section \<open>What each event does to the tables\<close>

lemma community_logged_fields:
  assumes "communities_logged ic (e, addrs) le"
  shows "le_name le = fst (communities_object ic e)" "le_data le = snd (communities_object ic e)"
  using assms by (simp_all add: communities_logged_def) (metis fst_conv snd_conv)+

lemma mirrors_community_put:
  assumes "faithful_ids ic" and "mirrors_community_rows ic m rows" and "community_id_ok i"
    and "row_of_community ic c row"
  shows "mirrors_community_rows ic (m(i \<mapsto> c)) (rows(ic_base64url ic i \<mapsto> row))"
  using assms by (auto simp: mirrors_community_rows_def)

lemma mirrors_community_change:
  assumes "faithful_ids ic" and "mirrors_community_rows ic m rows" and "community_id_ok i" and "m i = Some c0"
    and "\<And>r. row_of_community ic c0 r \<Longrightarrow> row_of_community ic c (f r)"
  shows "mirrors_community_rows ic (m(i \<mapsto> c)) (change_row (ic_base64url ic i) f rows)"
proof -
  from assms(2,3,4) obtain r where r: "rows (ic_base64url ic i) = Some r" "row_of_community ic c0 r"
    unfolding mirrors_community_rows_def by (metis option_rel_Some1)
  from mirrors_community_put [OF assms(1-3) assms(5) [OF r(2)]] r(1) show ?thesis by (simp add: change_row_def)
qed

lemma mirrors_role_put:
  assumes "faithful_ids ic" and "mirrors_role_rows ic m evs rows" and "community_id_ok i" and "length a = 25"
    and "row = map_option (row_of_role ic) r"
  shows "mirrors_role_rows ic (m(role_key i a := r)) evs (rows((ic_base64url ic i, ic_base58 ic a) := row))"
  unfolding mirrors_role_rows_def
proof (intro allI impI)
  fix j b
  assume jb: "community_id_ok j" "length (b::bytes) = 25"
  let ?m = "m(role_key i a := r)" and ?rows = "rows((ic_base64url ic i, ic_base58 ic a) := row)"
  show "(\<forall>r. ?m (role_key j b) = Some r \<longrightarrow> ?rows (ic_base64url ic j, ic_base58 ic b) = Some (row_of_role ic r)) \<and>
     (?m (role_key j b) = None \<longrightarrow> ?rows (ic_base64url ic j, ic_base58 ic b) = None \<or> promoted j b evs)"
  proof (cases "j = i \<and> b = a")
    case True
    with assms(5) show ?thesis by simp
  next
    case False
    with assms(1,4) jb have "role_key j b \<noteq> role_key i a" "(ic_base64url ic j, ic_base58 ic b) \<noteq> (ic_base64url ic i, ic_base58 ic a)"
      by (auto simp: role_key_eq)
    with assms(2) jb show ?thesis by (simp add: mirrors_role_rows_def del: prod.inject)
  qed
qed

lemma promoted_append [simp]: "promoted i a (evs @ evs2) \<longleftrightarrow> promoted i a evs \<or> promoted i a evs2"
  by (auto simp: promoted_def)

lemma mirrors_role_more: "mirrors_role_rows ic m evs rows \<Longrightarrow> mirrors_role_rows ic m (evs @ evs2) rows"
  unfolding mirrors_role_rows_def promoted_append by blast

lemma mirrors_role_promoted:
  assumes "mirrors_role_rows ic m evs rows" and "length a = 25" and "promoted i a evs2"
  shows "mirrors_role_rows ic (m(role_key i a := None)) (evs @ evs2) rows"
  using assms unfolding mirrors_role_rows_def promoted_append by (simp add: role_key_eq) blast

section \<open>Each operation\<close>

definition community_followed :: "index_codec \<Rightarrow> communities_state \<Rightarrow> communities_event emitted list \<Rightarrow> communities_state \<Rightarrow> bool" where
  "community_followed ic st evs st' \<longleftrightarrow> (\<forall>db les h. mirrors_communities ic (st, h) (community_view db) \<longrightarrow>
     list_all2 (communities_logged ic) evs les \<longrightarrow>
     mirrors_communities ic (st', h @ evs) (community_view (fold (applyCommunities ic) les db)))"

lemma community_followed_one:
  assumes "\<And>db le h. mirrors_community_rows ic (com_communities st) (t_communities db) \<Longrightarrow>
      mirrors_role_rows ic (com_roles st) h (t_roles db) \<Longrightarrow>
      le_name le = fst (communities_object ic (fst ev)) \<Longrightarrow> le_data le = snd (communities_object ic (fst ev)) \<Longrightarrow>
      mirrors_community_rows ic (com_communities st') (t_communities (applyCommunities ic le db)) \<and>
      mirrors_role_rows ic (com_roles st') (h @ [ev]) (t_roles (applyCommunities ic le db))"
  shows "community_followed ic st [ev] st'"
  unfolding community_followed_def
proof (intro allI impI)
  fix db les h
  assume m: "mirrors_communities ic (st, h) (community_view db)" and "list_all2 (communities_logged ic) [ev] les"
  then obtain le where les: "les = [le]" and "communities_logged ic ev le" by (auto simp: list_all2_Cons1)
  with community_logged_fields [of ic "fst ev" "snd ev" le] assms [of db h le] m
  show "mirrors_communities ic (st', h @ [ev]) (community_view (fold (applyCommunities ic) les db))"
    by (simp add: mirrors_communities_def)
qed

lemma create_followed:
  assumes ic: "faithful_ids ic" and "create_community env args st = Inr (st', evs)"
  shows "community_followed ic st evs st'"
proof -
  from assms(2) obtain i owner name hash uri delay where i: "community_id_ok i"
    and st': "st' = st\<lparr>com_communities := (com_communities st)(i \<mapsto> \<lparr>com_id = i, com_owner = owner, com_name = name,
       com_policy_hash = hash, com_policy_uri = uri, com_transfer_delay_ms = delay,
       com_pending_owner = None, com_transfer_effective_at = 0, com_created_at = now env, com_updated_at = now env\<rparr>)\<rparr>"
    and evs: "evs = [(Community_created i owner name hash uri delay (now env), [owner])]"
    by (auto simp: create_community_def communities_helper_defs community_id_ok_def)
  show ?thesis
    unfolding evs
    by (rule community_followed_one)
      (auto simp: st' applyCommunities_def Let_def row_of_community_def zero_text i
        intro!: mirrors_role_more mirrors_community_put [OF ic])
qed

lemma row_touched [simp]: "row_of_community ic c (r\<lparr>mr_updated_at := t\<rparr>) = row_of_community ic c r"
  by (simp add: row_of_community_def)

lemma role_followed:
  assumes ic: "faithful_ids ic" and "set_role env args st = Inr (st', evs)"
  shows "community_followed ic st evs st'"
proof -
  from assms(2) obtain i actor subject role scope expires where i: "community_id_ok i" "length subject = 25"
    and st': "st' = (if role = ROLE_none then st\<lparr>com_roles := (com_roles st)(role_key i subject := None)\<rparr>
       else st\<lparr>com_roles := (com_roles st)(role_key i subject \<mapsto> \<lparr>role_role = role, role_scope = scope, role_expires_at = expires,
         role_granted_by = actor, role_granted_at = now env\<rparr>)\<rparr>)"
    and evs: "evs = [(Role_set i actor subject role scope expires (now env), [actor, subject])]"
    unfolding set_role_def require_community_id_def Let_def by (auto simp: community_id_ok_def)
  show ?thesis
    unfolding evs
  proof (rule community_followed_one)
    fix db :: tables and le :: log_event and h
    assume m: "mirrors_community_rows ic (com_communities st) (t_communities db)" "mirrors_role_rows ic (com_roles st) h (t_roles db)"
      and le: "le_name le = fst (communities_object ic (fst (Role_set i actor subject role scope expires (now env), [actor, subject])))"
        "le_data le = snd (communities_object ic (fst (Role_set i actor subject role scope expires (now env), [actor, subject])))"
    have c: "mirrors_community_rows ic (com_communities st) (change_row (ic_base64url ic i) (\<lambda>r. r\<lparr>mr_updated_at := t\<rparr>) (t_communities db))" for t
      using m(1) ic by (auto simp: mirrors_community_rows_def change_row_at option.rel_map)
    have "mirrors_role_rows ic (com_roles st') h (t_roles (applyCommunities ic le db))"
      unfolding st' using le i
      by (auto simp: applyCommunities_def role_set_rows_def on_community_def Let_def ROLE_none_def row_of_role_def
          intro!: mirrors_role_put [OF ic m(2)])
    moreover have "mirrors_community_rows ic (com_communities st') (t_communities (applyCommunities ic le db))"
      unfolding st' using le i c by (simp add: applyCommunities_def role_set_rows_def on_community_def Let_def)
    ultimately show "mirrors_community_rows ic (com_communities st') (t_communities (applyCommunities ic le db)) \<and>
      mirrors_role_rows ic (com_roles st') (h @ [(Role_set i actor subject role scope expires (now env), [actor, subject])])
        (t_roles (applyCommunities ic le db))" by (simp add: mirrors_role_more)
  qed
qed

text \<open>The operations that change a community's record and no role.\<close>

lemma record_followed:
  fixes ev :: "communities_event emitted"
  assumes ic: "faithful_ids ic" and i: "community_id_ok i" and c0: "com_communities st i = Some c0"
    and change: "\<And>le (db :: tables). le_name le = fst (communities_object ic (fst ev)) \<Longrightarrow> le_data le = snd (communities_object ic (fst ev)) \<Longrightarrow>
        t_communities (applyCommunities ic le db) = change_row (ic_base64url ic i) (f le) (t_communities db) \<and>
        t_roles (applyCommunities ic le db) = t_roles db \<and> (\<forall>r. row_of_community ic c0 r \<longrightarrow> row_of_community ic c (f le r))"
  shows "community_followed ic st [ev] (st\<lparr>com_communities := (com_communities st)(i \<mapsto> c)\<rparr>)"
proof (rule community_followed_one)
  fix db :: tables and le :: log_event and h
  assume m: "mirrors_community_rows ic (com_communities st) (t_communities db)" "mirrors_role_rows ic (com_roles st) h (t_roles db)"
    and "le_name le = fst (communities_object ic (fst ev))" "le_data le = snd (communities_object ic (fst ev))"
  note f = change [OF this(3,4), of db]
  from f mirrors_community_change [OF ic m(1) i c0, of c "f le"] mirrors_role_more [OF m(2)]
  show "mirrors_community_rows ic (com_communities (st\<lparr>com_communities := (com_communities st)(i \<mapsto> c)\<rparr>)) (t_communities (applyCommunities ic le db)) \<and>
     mirrors_role_rows ic (com_roles (st\<lparr>com_communities := (com_communities st)(i \<mapsto> c)\<rparr>)) (h @ [ev]) (t_roles (applyCommunities ic le db))"
    by simp
qed

lemma policy_followed:
  assumes ic: "faithful_ids ic" and "set_policy env args st = Inr (st', evs)"
  shows "community_followed ic st evs st'"
  using assms(2)
  by (auto simp: set_policy_def communities_helper_defs community_id_ok_def [symmetric] applyCommunities_def on_community_def
      row_of_community_def intro!: record_followed [OF ic, where f = "\<lambda>le r. r\<lparr>mr_policy_hash := b64 ic (field le ''policy_hash''),
      mr_policy_uri := str (field le ''policy_uri''), mr_updated_at := timestampOf le\<rparr>"])

lemma propose_followed:
  assumes ic: "faithful_ids ic" and "propose_owner_transfer env args st = Inr (st', evs)"
  shows "community_followed ic st evs st'"
  using assms(2)
  by (auto simp: propose_owner_transfer_def communities_helper_defs community_id_ok_def [symmetric] applyCommunities_def on_community_def
      row_of_community_def intro!: record_followed [OF ic, where f = "\<lambda>le r. r\<lparr>mr_pending_owner := str (field le ''new_owner''),
      mr_effective_at := u64_text (field le ''effective_at''), mr_updated_at := timestampOf le\<rparr>"])

lemma cancel_followed:
  assumes ic: "faithful_ids ic" and "cancel_owner_transfer env args st = Inr (st', evs)"
  shows "community_followed ic st evs st'"
  using assms(2)
  by (auto simp: cancel_owner_transfer_def communities_helper_defs community_id_ok_def [symmetric] applyCommunities_def on_community_def
      row_of_community_def zero_text intro!: record_followed [OF ic, where f = "\<lambda>le r. r\<lparr>mr_pending_owner := [],
      mr_effective_at := int_text 0, mr_updated_at := timestampOf le\<rparr>"])

lemma execute_followed:
  assumes ic: "faithful_ids ic" and inv: "communities_inv st" and "execute_owner_transfer env a st = Inr (st', evs)"
  shows "community_followed ic st evs st'"
proof -
  from assms(3) obtain i c0 p where i: "community_id_ok i" and c0: "com_communities st i = Some c0" and p: "com_pending_owner c0 = Some p"
    and st': "st' = st\<lparr>com_communities := (com_communities st)(i \<mapsto> c0\<lparr>com_owner := p, com_pending_owner := None,
        com_transfer_effective_at := 0, com_updated_at := now env\<rparr>), com_roles := (com_roles st)(role_key i p := None)\<rparr>"
    and evs: "evs = [(Owner_transferred i (com_owner c0) p (now env), [com_owner c0, p])]"
    by (auto simp: execute_owner_transfer_def require_community_id_def Let_def community_id_ok_def)
  have len: "length p = 25" using inv c0 p by (rule community_pending_address)
  show ?thesis
    unfolding evs
  proof (rule community_followed_one)
    fix db :: tables and le :: log_event and h
    assume m: "mirrors_community_rows ic (com_communities st) (t_communities db)" "mirrors_role_rows ic (com_roles st) h (t_roles db)"
      and le: "le_name le = fst (communities_object ic (fst (Owner_transferred i (com_owner c0) p (now env), [com_owner c0, p])))"
        "le_data le = snd (communities_object ic (fst (Owner_transferred i (com_owner c0) p (now env), [com_owner c0, p])))"
    have "promoted i p [(Owner_transferred i (com_owner c0) p (now env), [com_owner c0, p])]" by (simp add: promoted_def)
    note r = mirrors_role_promoted [OF m(2) len this]
    have "mirrors_community_rows ic (com_communities st') (t_communities (applyCommunities ic le db))"
      unfolding st' using le i
      by (auto simp: applyCommunities_def on_community_def Let_def zero_text row_of_community_def
          intro!: mirrors_community_change [OF ic m(1) i c0])
    with r le i show "mirrors_community_rows ic (com_communities st') (t_communities (applyCommunities ic le db)) \<and>
      mirrors_role_rows ic (com_roles st') (h @ [(Owner_transferred i (com_owner c0) p (now env), [com_owner c0, p])])
        (t_roles (applyCommunities ic le db))"
      by (simp add: st' applyCommunities_def on_community_def Let_def)
  qed
qed

lemma label_followed:
  assumes "set_label env args st = Inr (st', evs)"
  shows "community_followed ic st evs st'"
proof -
  from assms obtain i actor post label why where st': "st' = st" and evs: "evs = [(Label_set i actor post label why (now env), [actor])]"
    by (auto simp: set_label_def Let_def)
  show ?thesis
    unfolding evs st'
    by (rule community_followed_one)
      (auto simp: applyCommunities_def label_set_rows_def Let_def mirrors_role_more split: option.split)
qed

lemma setting_followed: "com_set_identity_contract env a st = Inr (st', evs) \<Longrightarrow> community_followed ic st evs st'"
  by (auto simp: com_set_identity_contract_def community_followed_def mirrors_communities_def)

lemma communities_followed:
  assumes "faithful_ids ic" and "communities_inv st" and "communities_step env call st = Inr (st', evs)"
  shows "community_followed ic st evs st'"
  using assms(3)
  by (cases call) (auto intro: create_followed [OF assms(1)] role_followed [OF assms(1)] policy_followed [OF assms(1)]
    propose_followed [OF assms(1)] cancel_followed [OF assms(1)] execute_followed [OF assms(1,2)] label_followed setting_followed)

section \<open>The mirror\<close>

lemma communities_own_view:
  assumes "community_view db = community_view db'"
  shows "community_view (applyCommunities ic le db) = community_view (applyCommunities ic le db')"
proof -
  have "t_communities (label_set_rows ic le d) = t_communities d" "t_roles (label_set_rows ic le d) = t_roles d" for d
    by (simp_all add: label_set_rows_def Let_def split: option.split)
  with assms show ?thesis
    by (simp add: applyCommunities_def role_set_rows_def on_community_def Let_def)
qed

abbreviation communities_log_step :: "'w env \<times> communities_call \<Rightarrow> communities_state \<Rightarrow> communities_outcome" where
  "communities_log_step tx \<equiv> communities_step (fst tx) (snd tx)"

interpretation communities_index: indexed_contract ic "''communities''" "with_history communities_log_step"
    "\<lambda>s. faithful_ids ic \<and> communities_inv (fst s)" "communities_logged ic" "applyCommunities ic" community_view "mirrors_communities ic"
  for ic
proof unfold_locales
  fix s c s' evs and db :: tables
  assume inv: "faithful_ids ic \<and> communities_inv (fst s)" and "with_history communities_log_step c s = Inr (s', evs)"
  then obtain st' where one: "communities_step (fst c) (snd c) (fst s) = Inr (st', evs)" and s': "s' = (st', snd s @ evs)"
    by (auto simp: with_history_def)
  have "communities_exec c (fst s) = Inr st'" using one by (simp add: communities_exec_def)
  with inv show "faithful_ids ic \<and> communities_inv (fst s')" by (auto simp: s' intro: communities_exec_inv)
  fix les
  assume "mirrors_communities ic s (community_view db)" and "list_all2 (communities_logged ic) evs les"
  with communities_followed [OF _ _ one] inv show "mirrors_communities ic s' (community_view (fold (applyCommunities ic) les db))"
    by (cases s) (simp add: s' community_followed_def)
qed (assumption | erule communities_own_view | erule (1) other_views(2) | simp add: applyEvent_def)+

text \<open>
  C26: The indexer mirrors the communities contract but for one thing: exactly the stored communities have a
  row, with the stored owner, name, policy, delay and pending transfer; every stored role has its
  row, unchanged; and a role row without a stored role belongs to an account that a completed transfer
  made owner of the community.
\<close>

theorem index_mirrors_communities:
  assumes "inj_on (ic_base58 ic) {a. length a = 25}" and "inj (ic_base64url ic)"
    and "run_log (\<lambda>tx. communities_step (fst tx) (snd tx)) communities_empty cs = (st, evs)"
    and "list_all2 (communities_logged ic) evs (filter (\<lambda>le. le_contract le = ''communities'') les)"
    and "apply_all ic les no_tables = Some db"
  shows "mirrors_communities ic (st, evs) (community_view db)"
proof -
  have "mirrors_communities ic (communities_empty, []) (community_view no_tables)"
    by (simp add: mirrors_communities_def mirrors_community_rows_def mirrors_role_rows_def communities_empty_def no_tables_def)
  with communities_index.mirrored [OF run_log_with_history [OF assms(3), of "[]"] _ _ _ assms(5)] assms(1,2,4) communities_empty_inv
  show ?thesis by (simp add: faithful_ids_def faithful_def)
qed

section \<open>A community that changes hands twice\<close>

definition place_community_event :: "index_codec \<Rightarrow> communities_event emitted \<Rightarrow> log_event" where
  "place_community_event ic e = \<lparr>le_height = 7, le_block_id = [], le_block_time = [], le_tx = 0, le_seq = 0, le_tx_id = [],
     le_contract = ''communities'', le_name = fst (communities_object ic (fst e)), le_data = snd (communities_object ic (fst e)),
     le_impacted = map (ic_base58 ic) (snd e)\<rparr>"

lemma place_community_logged:
  "list_all2 (communities_logged ic) evs (filter (\<lambda>le. le_contract le = ''communities'') (map (place_community_event ic) evs))"
  by (induction evs) (simp_all add: communities_logged_def place_community_event_def)

lemma place_community_apply:
  "apply_all ic (map (place_community_event ic) evs) db = Some (fold (applyCommunities ic) (map (place_community_event ic) evs) db)"
  by (induction evs arbitrary: db) (simp_all add: applyEvent_def place_community_event_def)

text \<open>
  Account 1 makes account 2 an admin and hands the community to it; account 2 hands it on to account 3.
\<close>

definition demo_handovers :: "(unit env \<times> communities_call) list" where
  "demo_handovers = demo_community_txs @
     [(open_env 30, Call_set_role \<lparr>sr_community_id = Some [9], sr_actor = Some (sample_addr 1), sr_subject = Some (sample_addr 2),
         sr_role = 4, sr_scope = None, sr_expires_at = 0, sr_device = None\<rparr>),
      (open_env 40, Call_propose_owner_transfer \<lparr>po_community_id = Some [9], po_owner = Some (sample_addr 1), po_new_owner = Some (sample_addr 2)\<rparr>),
      (open_env 540, Call_execute_owner_transfer (Some [9])),
      (open_env 550, Call_propose_owner_transfer \<lparr>po_community_id = Some [9], po_owner = Some (sample_addr 2), po_new_owner = Some (sample_addr 3)\<rparr>),
      (open_env 1050, Call_execute_owner_transfer (Some [9]))]"

definition demo_handover_log :: "communities_event emitted list" where
  "demo_handover_log =
     [(Community_created [9] (sample_addr 1) [65] None None 500 20, [sample_addr 1]),
      (Role_set [9] (sample_addr 1) (sample_addr 2) 4 None 0 30, [sample_addr 1, sample_addr 2]),
      (Owner_transfer_proposed [9] (sample_addr 1) (sample_addr 2) 540, [sample_addr 1, sample_addr 2]),
      (Owner_transferred [9] (sample_addr 1) (sample_addr 2) 540, [sample_addr 1, sample_addr 2]),
      (Owner_transfer_proposed [9] (sample_addr 2) (sample_addr 3) 1050, [sample_addr 2, sample_addr 3]),
      (Owner_transferred [9] (sample_addr 2) (sample_addr 3) 1050, [sample_addr 2, sample_addr 3])]"

lemma demo_handovers_run:
  "run_log communities_log_step communities_empty demo_handovers =
     (\<lparr>com_communities = [[9] \<mapsto> demo_community 3 None 0 1050], com_roles = Map.empty, com_config = Some (Some (sample_addr 100))\<rparr>,
      demo_handover_log)"
  by (simp add: demo_handovers_def demo_community_txs_def communities_empty_def communities_eval demo_community_def demo_handover_log_def)

lemma demo_codec_ids: "inj (ic_base64url demo_codec)"
  using demo_codec_inj [of UNIV] by (simp add: demo_codec_def)

theorem index_mirrors_communities_witness:
  "\<exists>db. apply_all demo_codec (map (place_community_event demo_codec) demo_handover_log) no_tables = Some db \<and>
     (\<exists>row. t_communities db (ic_base64url demo_codec [9]) = Some row \<and> mr_owner row = ic_base58 demo_codec (sample_addr 3))"
proof -
  note index_mirrors_communities [OF demo_codec_inj demo_codec_ids demo_handovers_run place_community_logged place_community_apply]
  then have "mirrors_community_rows demo_codec [[9] \<mapsto> demo_community 3 None 0 1050]
      (t_communities (fold (applyCommunities demo_codec) (map (place_community_event demo_codec) demo_handover_log) no_tables))"
    by (simp add: mirrors_communities_def)
  then have "rel_option (row_of_community demo_codec) (Some (demo_community 3 None 0 1050)) (t_communities
      (fold (applyCommunities demo_codec) (map (place_community_event demo_codec) demo_handover_log) no_tables) (ic_base64url demo_codec [9]))"
    unfolding mirrors_community_rows_def by (drule_tac x = "[9]" in spec) (simp add: community_id_ok_def ID_MAX_LENGTH_def)
  then show ?thesis
    by (auto simp: place_community_apply option_rel_Some1 row_of_community_def demo_community_def)
qed

text \<open>
  The one thing is real: account 2 has no role on chain any more, and the indexer still lists it as
  an admin without expiry.
\<close>

theorem former_owner_still_listed:
  "\<exists>st db. run_log communities_log_step communities_empty demo_handovers = (st, demo_handover_log) \<and>
     get_role (Some [9]) (Some (sample_addr 2)) st = None \<and>
     apply_all demo_codec (map (place_community_event demo_codec) demo_handover_log) no_tables = Some db \<and>
     map_option (\<lambda>r. (or_role r, or_expires_at r)) (t_roles db (ic_base64url demo_codec [9], ic_base58 demo_codec (sample_addr 2))) =
       Some (4, utf16 ''0'')"
proof (intro exI conjI)
  show "run_log communities_log_step communities_empty demo_handovers =
     (\<lparr>com_communities = [[9] \<mapsto> demo_community 3 None 0 1050], com_roles = Map.empty, com_config = Some (Some (sample_addr 100))\<rparr>,
      demo_handover_log)" by (rule demo_handovers_run)
  show "apply_all demo_codec (map (place_community_event demo_codec) demo_handover_log) no_tables =
      Some (fold (applyCommunities demo_codec) (map (place_community_event demo_codec) demo_handover_log) no_tables)"
    by (rule place_community_apply)
  have id: "community_id_ok [9]" by (simp add: community_id_ok_def ID_MAX_LENGTH_def)
  show "map_option (\<lambda>r. (or_role r, or_expires_at r)) (t_roles (fold (applyCommunities demo_codec)
      (map (place_community_event demo_codec) demo_handover_log) no_tables) (ic_base64url demo_codec [9], ic_base58 demo_codec (sample_addr 2))) =
    Some (4, utf16 ''0'')"
    using id
    by (simp add: demo_handover_log_def place_community_event_def applyCommunities_def role_set_rows_def on_community_def Let_def zero_text)
qed (simp add: get_role_def)

end
