(* ===== verification/Mirror_Sponsorship.thy ===== *)
theory Mirror_Sponsorship
  imports Indexed Sponsorship
begin

text \<open>
  The sponsor and grant tables of the indexer are the state of the sponsorship contract: a row for
  each record and grant, with the same values.
\<close>

section \<open>The events as the indexer decodes them\<close>

fun sponsorship_object :: "index_codec \<Rightarrow> sponsorship_event \<Rightarrow> string \<times> proto_object" where
  "sponsorship_object ic (Sponsor_set sponsor endpoint version active t) =
     (''osp.sponsorship.sponsor_set'',
      [(''sponsor'', address_value ic sponsor), (''endpoint'', P_str endpoint), (''policy_version'', u32_value version),
       (''active'', P_bool active), (''timestamp'', u64_value t)])"
| "sponsorship_object ic (Sponsor_deactivated sponsor t) =
     (''osp.sponsorship.sponsor_deactivated'', [(''sponsor'', address_value ic sponsor), (''timestamp'', u64_value t)])"
| "sponsorship_object ic (User_grant_set sponsor user daily expires t) =
     (''osp.sponsorship.user_grant_set'',
      [(''sponsor'', address_value ic sponsor), (''user'', address_value ic user), (''daily_ops'', u32_value daily),
       (''expires_at'', u64_value expires), (''timestamp'', u64_value t)])"
| "sponsorship_object ic (User_grant_revoked sponsor user t) =
     (''osp.sponsorship.user_grant_revoked'',
      [(''sponsor'', address_value ic sponsor), (''user'', address_value ic user), (''timestamp'', u64_value t)])"

definition sponsorship_logged :: "index_codec \<Rightarrow> sponsorship_event emitted \<Rightarrow> log_event \<Rightarrow> bool" where
  "sponsorship_logged ic e le \<longleftrightarrow> le_contract le = ''sponsorship'' \<and>
     (le_name le, le_data le) = sponsorship_object ic (fst e) \<and> le_impacted le = map (ic_base58 ic) (snd e)"

section \<open>The correspondence\<close>

definition row_of_sponsor :: "sponsor_record \<Rightarrow> sponsor_row" where
  "row_of_sponsor r = \<lparr>wr_endpoint = sr_endpoint r, wr_policy_version = uint (sr_policy_version r), wr_active = of_bool (sr_active r),
     wr_registered_at = int_text (uint (sr_registered_at r)), wr_updated_at = int_text (uint (sr_updated_at r))\<rparr>"

definition row_of_grant :: "user_grant \<Rightarrow> grant_row" where
  "row_of_grant g = \<lparr>gr_daily_ops = uint (ug_daily_ops g), gr_expires_at = int_text (uint (ug_expires_at g)),
     gr_revoked = of_bool (ug_revoked g), gr_updated_at = int_text (uint (ug_updated_at g))\<rparr>"

type_synonym sponsor_tables = "(ustring \<rightharpoonup> sponsor_row) \<times> (ustring \<times> ustring \<rightharpoonup> grant_row)"

definition mirrors_sponsorship :: "index_codec \<Rightarrow> sponsorship_state \<Rightarrow> sponsor_tables \<Rightarrow> bool" where
  "mirrors_sponsorship ic st v \<longleftrightarrow>
     (\<forall>a. length a = 25 \<longrightarrow> fst v (ic_base58 ic a) = map_option row_of_sponsor (sponsors st a)) \<and>
     (\<forall>a b. length a = 25 \<longrightarrow> length b = 25 \<longrightarrow>
        snd v (ic_base58 ic a, ic_base58 ic b) = map_option row_of_grant (grants st (grant_key a b)))"

lemma grant_key_eq: "length a = 25 \<Longrightarrow> length c = 25 \<Longrightarrow> grant_key a b = grant_key c d \<longleftrightarrow> a = c \<and> b = d"
  by (simp add: grant_key_def)

lemma mirrors_put_sponsor:
  assumes "faithful ic" and "mirrors_sponsorship ic st (rows, grows)" and "length a = 25" and "row = row_of_sponsor r"
  shows "mirrors_sponsorship ic (st\<lparr>sponsors := (sponsors st)(a \<mapsto> r)\<rparr>) (rows(ic_base58 ic a \<mapsto> row), grows)"
  using assms by (auto simp: mirrors_sponsorship_def)

lemma mirrors_put_grant:
  assumes "faithful ic" and "mirrors_sponsorship ic st (rows, grows)" and "length a = 25" and "length b = 25" and "row = row_of_grant g"
  shows "mirrors_sponsorship ic (st\<lparr>grants := (grants st)(grant_key a b \<mapsto> g)\<rparr>) (rows, grows((ic_base58 ic a, ic_base58 ic b) \<mapsto> row))"
  using assms by (auto simp: mirrors_sponsorship_def grant_key_eq)

lemma mirrors_sponsorshipD:
  "mirrors_sponsorship ic st (rows, grows) \<Longrightarrow> length a = 25 \<Longrightarrow> rows (ic_base58 ic a) = map_option row_of_sponsor (sponsors st a)"
  "mirrors_sponsorship ic st (rows, grows) \<Longrightarrow> length a = 25 \<Longrightarrow> length b = 25 \<Longrightarrow>
     grows (ic_base58 ic a, ic_base58 ic b) = map_option row_of_grant (grants st (grant_key a b))"
  by (simp_all add: mirrors_sponsorship_def)

section \<open>Each operation\<close>

lemma sponsorship_logged_fields:
  assumes "sponsorship_logged ic (e, addrs) le"
  shows "le_name le = fst (sponsorship_object ic e) \<and> le_data le = snd (sponsorship_object ic e)"
  using assms by (simp add: sponsorship_logged_def) (metis fst_conv snd_conv)

lemma text_reading [simp]: "bool_number (Some (P_bool b)) = of_bool b"
  by (simp add: bool_number_def)

lemma sponsorship_followed:
  assumes ic: "faithful ic" and step: "sponsorship_step env call st = Inr (st', evs)"
    and m: "mirrors_sponsorship ic st (sponsor_view db)" and les: "list_all2 (sponsorship_logged ic) evs les"
  shows "mirrors_sponsorship ic st' (sponsor_view (fold applySponsorship les db))"
proof (cases call)
  case (Call_set_sponsor args)
  with step les show ?thesis
    by (auto simp: set_sponsor_def Let_def list_all2_Cons1 applySponsorship_def row_of_sponsor_def
        mirrors_sponsorshipD(1) [OF m] dest!: sponsorship_logged_fields intro!: mirrors_put_sponsor [OF ic m]
        simp del: require_string_Inr split: option.split)
next
  case (Call_deactivate_sponsor a)
  with step les show ?thesis
    by (auto simp: deactivate_sponsor_def require_sponsor_record_def Let_def list_all2_Cons1 applySponsorship_def change_row_def row_of_sponsor_def
        mirrors_sponsorshipD(1) [OF m] dest!: sponsorship_logged_fields intro!: mirrors_put_sponsor [OF ic m])
next
  case (Call_set_user_grant args)
  with step les show ?thesis
    by (auto simp: set_user_grant_def Let_def list_all2_Cons1 applySponsorship_def row_of_grant_def
        dest!: sponsorship_logged_fields intro!: mirrors_put_grant [OF ic m])
next
  case (Call_revoke_user_grant args)
  with step les show ?thesis
    by (auto simp: revoke_user_grant_def Let_def list_all2_Cons1 applySponsorship_def change_row_def row_of_grant_def
        mirrors_sponsorshipD(2) [OF m] dest!: sponsorship_logged_fields intro!: mirrors_put_grant [OF ic m])
qed

section \<open>The mirror\<close>

interpretation sponsorship_index: indexed_contract ic "''sponsorship''" "\<lambda>tx. sponsorship_step (fst tx) (snd tx)"
    "\<lambda>_. faithful ic" "sponsorship_logged ic" applySponsorship sponsor_view "mirrors_sponsorship ic"
  for ic
proof unfold_locales
  fix s c s' evs les and db :: tables
  assume "faithful ic" and "mirrors_sponsorship ic s (sponsor_view db)"
    and "sponsorship_step (fst c) (snd c) s = Inr (s', evs)" and "list_all2 (sponsorship_logged ic) evs les"
  from sponsorship_followed [OF this(1,3,2,4)] show "mirrors_sponsorship ic s' (sponsor_view (fold applySponsorship les db))" .
next
  fix le and db db' :: tables
  assume "sponsor_view db = sponsor_view db'"
  then show "sponsor_view (applySponsorship le db) = sponsor_view (applySponsorship le db')"
    by (simp add: applySponsorship_def Let_def)
qed (assumption | erule (1) other_views(3) | simp add: applyEvent_def)+

text \<open>
  C38: The indexer is an exact copy of the sponsorship contract: after any history, the sponsor rows and the
  grant rows are the stored records and grants, value by value.
\<close>

theorem index_mirrors_sponsorship:
  assumes "inj_on (ic_base58 ic) {a. length a = 25}"
    and "run_log (\<lambda>tx. sponsorship_step (fst tx) (snd tx)) sponsorship_empty cs = (st, evs)"
    and "list_all2 (sponsorship_logged ic) evs (filter (\<lambda>le. le_contract le = ''sponsorship'') les)"
    and "apply_all ic les no_tables = Some db"
    and "length a = 25" and "length b = 25"
  shows "t_sponsors db (ic_base58 ic a) = map_option row_of_sponsor (get_sponsor (Some a) st) \<and>
     t_grants db (ic_base58 ic a, ic_base58 ic b) = map_option row_of_grant (get_user_grant (Some a) (Some b) st)"
proof -
  have "mirrors_sponsorship ic sponsorship_empty (sponsor_view no_tables)"
    by (simp add: mirrors_sponsorship_def sponsorship_empty_def no_tables_def)
  with sponsorship_index.mirrored [OF assms(2) _ _ assms(3,4)] assms(1)
  have "mirrors_sponsorship ic st (sponsor_view db)" by (simp add: faithful_def)
  moreover have "a \<noteq> []" "b \<noteq> []" using assms(5,6) by auto
  ultimately show ?thesis using assms(5,6) by (simp add: mirrors_sponsorship_def get_sponsor_def get_user_grant_def)
qed

section \<open>Witness\<close>

definition demo_sponsoring :: "(unit env \<times> sponsorship_call) list" where
  "demo_sponsoring = [(sample_env 10, Call_set_sponsor demo_sponsor), (sample_env 20, Call_set_user_grant demo_grant)]"

definition place_sponsorship_event :: "index_codec \<Rightarrow> sponsorship_event emitted \<Rightarrow> log_event" where
  "place_sponsorship_event ic e = \<lparr>le_height = 7, le_block_id = [], le_block_time = [], le_tx = 0, le_seq = 0, le_tx_id = [],
     le_contract = ''sponsorship'', le_name = fst (sponsorship_object ic (fst e)), le_data = snd (sponsorship_object ic (fst e)),
     le_impacted = map (ic_base58 ic) (snd e)\<rparr>"

lemma place_sponsorship_logged:
  "list_all2 (sponsorship_logged ic) evs (filter (\<lambda>le. le_contract le = ''sponsorship'') (map (place_sponsorship_event ic) evs))"
  by (induction evs) (simp_all add: sponsorship_logged_def place_sponsorship_event_def)

lemma place_sponsorship_apply:
  "apply_all ic (map (place_sponsorship_event ic) evs) db = Some (fold applySponsorship (map (place_sponsorship_event ic) evs) db)"
  by (induction evs arbitrary: db) (simp_all add: applyEvent_def place_sponsorship_event_def)

theorem index_mirrors_sponsorship_witness:
  "\<exists>db :: tables. t_grants db (ic_base58 demo_codec (sample_addr 3), ic_base58 demo_codec (sample_addr 4)) =
     Some \<lparr>gr_daily_ops = 5, gr_expires_at = int_text 0, gr_revoked = 0, gr_updated_at = int_text 20\<rparr>"
proof -
  obtain st evs where run: "run_log (\<lambda>tx. sponsorship_step (fst tx) (snd tx)) sponsorship_empty demo_sponsoring = (st, evs)"
    and g: "get_user_grant (Some (sample_addr 3)) (Some (sample_addr 4)) st = Some \<lparr>ug_sponsor = sample_addr 3, ug_user = sample_addr 4,
       ug_daily_ops = 5, ug_expires_at = 0, ug_revoked = False, ug_updated_at = 20\<rparr>"
    by (simp add: demo_sponsoring_def set_sponsor_def set_user_grant_def demo_sponsor_def demo_grant_def Let_def require_string_def
        MAX_BYTES_PER_OP_def require_sponsor_record_def get_user_grant_def sponsorship_empty_def validate_allowed_def validate_endpoint_def
        starts_with_def HTTPS_PREFIX_def utf16_def MAX_ENDPOINT_LENGTH_def MAX_POLICY_URI_LENGTH_def)
  from index_mirrors_sponsorship [OF demo_codec_inj run place_sponsorship_logged place_sponsorship_apply length_sample_addr [of 3] length_sample_addr [of 4]]
  show ?thesis using g by (simp add: row_of_grant_def) blast
qed

end
