(* ===== verification/Json_Text.thy ===== *)
theory Json_Text
  imports Json
begin

text \<open>
  Reading back the texts \<open>JSON.stringify\<close> wrote: string literals and arrays of strings. Every
  string survives, lone surrogates and control characters included.
\<close>

section \<open>String literals\<close>

definition hex_value :: "u16 \<Rightarrow> nat option" where
  "hex_value c = (if 0x30 \<le> c \<and> c \<le> 0x39 then Some (unat c - 0x30)
     else if 0x61 \<le> c \<and> c \<le> 0x66 then Some (unat c - 0x57)
     else if 0x41 \<le> c \<and> c \<le> 0x46 then Some (unat c - 0x37) else None)"

fun hex_four :: "ustring \<Rightarrow> (u16 \<times> ustring) option" where
  "hex_four (a # b # c # d # rest) =
     (case (hex_value a, hex_value b, hex_value c, hex_value d) of
        (Some w, Some x, Some y, Some z) \<Rightarrow> Some (of_nat (w * 4096 + x * 256 + y * 16 + z), rest)
      | _ \<Rightarrow> None)"
| "hex_four _ = None"

definition unescape :: "u16 \<Rightarrow> u16 option" where
  "unescape c = (if c = 0x22 \<or> c = 0x5c \<or> c = 0x2f then Some c
     else if c = 0x62 then Some 0x08 else if c = 0x66 then Some 0x0c else if c = 0x6e then Some 0x0a
     else if c = 0x72 then Some 0x0d else if c = 0x74 then Some 0x09 else None)"

text \<open>The characters up to the closing quote, and what follows it.\<close>

function unquote :: "ustring \<Rightarrow> (ustring \<times> ustring) option" where
  "unquote [] = None"
| "unquote (c # cs) =
     (if c = 0x22 then Some ([], cs)
      else if c = 0x5c then
        (case cs of
           [] \<Rightarrow> None
         | d # ds \<Rightarrow>
             if d = 0x75
             then (case hex_four ds of
                     None \<Rightarrow> None
                   | Some (u, rest) \<Rightarrow> if length rest < length ds then map_option (apfst (Cons u)) (unquote rest) else None)
             else (case unescape d of None \<Rightarrow> None | Some u \<Rightarrow> map_option (apfst (Cons u)) (unquote ds)))
      else if c < 0x20 then None
      else map_option (apfst (Cons c)) (unquote cs))"
  by pat_completeness auto
termination by (relation "measure length") auto

lemma hex_four_shorter: "hex_four ds = Some (u, rest) \<Longrightarrow> length rest < length ds"
  by (induction ds rule: hex_four.induct) (auto split: option.splits)

lemma hex_unit_digit: "n < 16 \<Longrightarrow> hex_value (hex_unit n) = Some n"
proof -
  assume "n < 16"
  then have "n \<in> set [0..<16]" by simp
  then show ?thesis by (simp add: upt_rec numeral_2_eq_2) (elim disjE; simp add: hex_unit_def hex_value_def)
qed

lemma hex_parts: "(n div 4096) * 4096 + (n div 256 mod 16) * 256 + (n div 16 mod 16) * 16 + n mod 16 = n" for n :: nat
proof -
  have sum: "q * 16 + r = b \<Longrightarrow> b * 16 + s = a \<Longrightarrow> a * 16 + t = m \<Longrightarrow> q * 4096 + r * 256 + s * 16 + t = m"
    for q r s t a b m :: nat by simp
  have "n div 256 = n div 16 div 16" "n div 4096 = n div 16 div 16 div 16"
    by (simp_all add: div_mult2_eq [symmetric])
  then show ?thesis by (simp only:) (rule sum [OF div_mult_mod_eq div_mult_mod_eq div_mult_mod_eq])
qed

lemma unquote_escape_hex: "unquote (escape_hex c @ rest) = map_option (apfst (Cons c)) (unquote rest)"
proof -
  have "unat c div 4096 < 16" using unsigned_less [where ?'a = nat, of c] by simp
  moreover have "(of_nat (unat c div 4096 * 4096 + unat c div 256 mod 16 * 256 + unat c div 16 mod 16 * 16 + unat c mod 16) :: u16) = c"
    unfolding hex_parts by simp
  ultimately show ?thesis
    by (simp add: escape_hex_def Let_def utf16_def hex_unit_digit)
qed

lemma unquote_plain: "c \<noteq> 0x22 \<Longrightarrow> c \<noteq> 0x5c \<Longrightarrow> \<not> c < 0x20 \<Longrightarrow> unquote (c # rest) = map_option (apfst (Cons c)) (unquote rest)"
  by simp

lemma unquote_escape_unit: "unquote (escape_unit c @ rest) = map_option (apfst (Cons c)) (unquote rest)"
proof (cases "c \<in> {0x22, 0x5c, 0x08, 0x0c, 0x0a, 0x0d, 0x09}")
  case True
  then show ?thesis by (elim insertE) (simp_all add: escape_unit_def unescape_def)
next
  case False
  then show ?thesis by (cases "c < 0x20") (simp_all add: escape_unit_def unquote_escape_hex unquote_plain del: unquote.simps)
qed

lemma surrogate_plain: "high_surrogate c \<or> low_surrogate c \<Longrightarrow> c \<noteq> 0x22 \<and> c \<noteq> 0x5c \<and> \<not> c < 0x20"
  by (auto simp: high_surrogate_def low_surrogate_def word_le_nat_alt word_less_nat_alt)

lemma unquote_quote_units: "unquote (quote_units s @ 0x22 # rest) = Some (s, rest)"
proof (induction s rule: quote_units.induct)
  case (2 c cs)
  show ?case
  proof (cases "high_surrogate c")
    case True
    note plain = surrogate_plain [OF disjI1 [OF True]]
    show ?thesis
    proof (cases cs)
      case Nil
      with True show ?thesis by (simp add: unquote_escape_hex del: unquote.simps(2)) simp
    next
      case (Cons d ds)
      show ?thesis
      proof (cases "low_surrogate d")
        case True
        with 2(1) [OF \<open>high_surrogate c\<close> Cons] Cons \<open>high_surrogate c\<close> plain surrogate_plain [OF disjI2 [OF True]]
        show ?thesis by simp
      next
        case False
        with 2(2) [OF \<open>high_surrogate c\<close> Cons] Cons \<open>high_surrogate c\<close>
        show ?thesis by (simp add: unquote_escape_hex del: unquote.simps quote_units.simps(2)) (simp add: unquote_escape_hex del: unquote.simps)
      qed
    qed
  next
    case False
    with 2(3,4) show ?thesis
      by (cases "low_surrogate c") (simp_all add: unquote_escape_hex unquote_escape_unit del: unquote.simps)
  qed
qed simp

section \<open>Arrays of strings\<close>

lemma unquote_shorter: "unquote cs = Some (s, rest) \<Longrightarrow> length rest < length cs"
proof (induction cs arbitrary: s rule: unquote.induct)
  case (2 c cs)
  show ?case
  proof (cases "c = 0x22 \<or> c = 0x5c")
    case False
    with 2(4) 2(3) show ?thesis by (fastforce split: if_splits)
  next
    case True
    with 2 show ?thesis by (fastforce split: list.splits option.splits if_splits)
  qed
qed simp

function string_items :: "ustring \<Rightarrow> ustring list option" where
  "string_items [] = None"
| "string_items (c # cs) =
     (if c \<noteq> 0x22 then None
      else case unquote cs of
        Some (s, d # rest) \<Rightarrow>
          if d = 0x5d then (if rest = [] then Some [s] else None)
          else if d = 0x2c then map_option (Cons s) (string_items rest) else None
      | _ \<Rightarrow> None)"
  by pat_completeness auto
termination by (relation "measure length") (auto dest: unquote_shorter)

definition json_strings :: "ustring \<Rightarrow> ustring list option" where
  "json_strings t = (if t = [0x5b, 0x5d] then Some [] else case t of [] \<Rightarrow> None | c # cs \<Rightarrow> if c = 0x5b then string_items cs else None)"

lemma string_items_stringify:
  "string_items (stringify (J_str x) @ stringify_rest (map J_str xs)) = Some (x # xs)"
proof (induction xs arbitrary: x)
  case Nil
  show ?case by (simp add: quote_def unquote_quote_units)
next
  case (Cons y ys)
  show ?case using Cons [of y] by (simp add: quote_def unquote_quote_units)
qed

lemma json_strings_stringify: "json_strings (stringify (J_arr (map J_str xs))) = Some xs"
proof (cases xs)
  case (Cons y ys)
  with string_items_stringify [of y ys] show ?thesis by (simp add: json_strings_def quote_def)
qed (simp add: json_strings_def)

end
