(* ===== verification/Event_Log.thy ===== *)
theory Event_Log
  imports Indexed Json_Text "HOL-Library.Product_Lexorder"
begin

text \<open>
  The authoritative log of the indexer: decoding (\<open>apps/indexer/src/decode.ts\<close>, \<open>packages/sdk/src/events.ts\<close>),
  the state hash (\<open>apps/indexer/src/hash.ts\<close>), one block applied in one database transaction, the replay
  of the log and the rollback (\<open>apps/indexer/src/sync.ts\<close>, \<open>projections.ts\<close>, \<open>db.ts\<close>). The second part
  shows that a database is a function of its blocks, whatever was rolled back on the way.
\<close>

section \<open>Decoding\<close>

text \<open>The descriptor of a message type: field name, repeated or not, and what the field holds.\<close>

datatype proto_type = No_more_fields | Field string bool proto_kind proto_type
  and proto_kind = Kind_scalar | Kind_enum | Kind_message proto_type

definition object_of :: "proto_value option \<Rightarrow> proto_object option" where
  "object_of v = (case v of Some (P_obj ms) \<Rightarrow> Some ms | _ \<Rightarrow> None)"

definition items_of :: "proto_value option \<Rightarrow> proto_value list" where
  "items_of v = (case v of Some (P_list xs) \<Rightarrow> xs | _ \<Rightarrow> [])"

text \<open>\<open>obj[name] = v\<close>\<close>

fun set_member :: "string \<Rightarrow> 'v \<Rightarrow> (string \<times> 'v) list \<Rightarrow> (string \<times> 'v) list" where
  "set_member k v [] = [(k, v)]"
| "set_member k v ((k', v') # ms) = (if k' = k then (k, v) # ms else (k', v') # set_member k v ms)"

text \<open>\<open>child.forEach((item, i) => fix(rawItems[i], item))\<close> on the objects among the items.\<close>

fun fix_items :: "(proto_object option \<Rightarrow> proto_object \<Rightarrow> proto_object) \<Rightarrow> proto_value list \<Rightarrow> proto_value list \<Rightarrow> proto_value list" where
  "fix_items fix1 raws [] = []"
| "fix_items fix1 raws (item # items) =
     (case item of
        P_obj o1 \<Rightarrow> P_obj (fix1 (case raws of [] \<Rightarrow> None | r # _ \<Rightarrow> object_of (Some r)) o1)
      | v \<Rightarrow> v) # fix_items fix1 (tl raws) items"

text \<open>
  Enum fields that are not on the wire become 0, in nested messages too; \<open>message\<close> is the decoded
  wire message, whose own properties are the fields that were present.
\<close>

primrec fixEnumDefaults :: "proto_type \<Rightarrow> proto_object option \<Rightarrow> proto_object \<Rightarrow> proto_object"
  and fix_field :: "proto_kind \<Rightarrow> string \<Rightarrow> bool \<Rightarrow> proto_object option \<Rightarrow> proto_object \<Rightarrow> proto_object" where
  "fixEnumDefaults No_more_fields message obj = obj"
| "fixEnumDefaults (Field name repeated kind fs) message obj =
     fixEnumDefaults fs message (fix_field kind name repeated message obj)"
| "fix_field Kind_scalar name repeated message obj = obj"
| "fix_field Kind_enum name repeated message obj =
     (if \<not> repeated \<and> (case message of None \<Rightarrow> True | Some m \<Rightarrow> map_of m name = None)
      then set_member name (P_num 0) obj else obj)"
| "fix_field (Kind_message t) name repeated message obj =
     (let raw = (case message of None \<Rightarrow> None | Some m \<Rightarrow> map_of m name)
      in if repeated
         then (case map_of obj name of
                 Some (P_list items) \<Rightarrow> set_member name (P_list (fix_items (fixEnumDefaults t) (items_of raw) items)) obj
               | _ \<Rightarrow> obj)
         else (case map_of obj name of
                 Some (P_obj o1) \<Rightarrow> set_member name (P_obj (fixEnumDefaults t (object_of raw) o1)) obj
               | _ \<Rightarrow> obj))"

text \<open>
  What the indexer knows of the protocol's events: the table of event names (generated from the
  schemas), the deployed addresses, and the decoding of base64url and protobuf.
\<close>

record event_source =
  es_types :: "string \<Rightarrow> string option" \<comment> \<open>the contract an event name belongs to\<close>
  es_address :: "string \<Rightarrow> ustring" \<comment> \<open>\<open>deployment.contracts[contract].address\<close>\<close>
  es_bytes :: "ustring \<Rightarrow> bytes js" \<comment> \<open>\<open>fromBase64url\<close>\<close>
  es_decode :: "string \<Rightarrow> bytes \<Rightarrow> proto_object js" \<comment> \<open>\<open>decode\<close> at the event's message type\<close>
  es_type :: "string \<Rightarrow> proto_type"
  es_wire :: "string \<Rightarrow> bytes \<Rightarrow> proto_object js" \<comment> \<open>\<open>type.decode\<close>: the fields that are on the wire\<close>

text \<open>\<open>decodeEvent\<close> without a deployment and its source check; an \<open>EncodingError\<close> means no event.\<close>

definition decodeEvent_data :: "event_source \<Rightarrow> string \<Rightarrow> bytes js \<Rightarrow> proto_object option js" where
  "decodeEvent_data es name data =
     (if es_types es name = None then Inr None
      else case js_let data (es_decode es name) of
        Inl (Encoding_error m) \<Rightarrow> Inr None
      | Inl e \<Rightarrow> Inl e
      | Inr obj \<Rightarrow> Inr (Some obj))"

definition decodeEvent :: "event_source \<Rightarrow> ustring \<Rightarrow> string \<Rightarrow> bytes js \<Rightarrow> (string \<times> proto_object) option js" where
  "decodeEvent es source name data =
     (case es_types es name of
        None \<Rightarrow> Inr None
      | Some contract \<Rightarrow>
          if es_address es contract \<noteq> source then Inr None
          else js_let (decodeEvent_data es name data) (\<lambda>d. Inr (map_option (Pair contract) d)))"

definition with_enum_defaults :: "event_source \<Rightarrow> string \<Rightarrow> ustring \<Rightarrow> proto_object \<Rightarrow> proto_object js" where
  "with_enum_defaults es name raw obj =
     js_let (es_bytes es raw) (\<lambda>b. js_let (es_wire es name b) (\<lambda>wire. Inr (fixEnumDefaults (es_type es name) (Some wire) obj)))"

definition decodeProtocolEvent :: "event_source \<Rightarrow> ustring \<Rightarrow> string \<Rightarrow> ustring \<Rightarrow> (string \<times> proto_object) option js" where
  "decodeProtocolEvent es source name raw =
     js_let (decodeEvent es source name (es_bytes es raw)) (\<lambda>decoded.
     case decoded of
       None \<Rightarrow> Inr None
     | Some (contract, obj) \<Rightarrow> js_let (with_enum_defaults es name raw obj) (\<lambda>data. Inr (Some (contract, data))))"

definition decodeEventDataFixed :: "event_source \<Rightarrow> string \<Rightarrow> ustring \<Rightarrow> proto_object option js" where
  "decodeEventDataFixed es name raw =
     (if es_types es name = None then Inr None
      else js_let (es_bytes es raw) (\<lambda>b.
           js_let (decodeEvent_data es name (Inr b)) (\<lambda>decoded.
           case decoded of
             None \<Rightarrow> Inr None
           | Some obj \<Rightarrow> js_let (with_enum_defaults es name raw obj) (\<lambda>data. Inr (Some data)))))"

text \<open>What was decoded from a block is decoded from the log again.\<close>

lemma decoded_again:
  "decodeProtocolEvent es source name raw = Inr (Some (contract, data)) \<Longrightarrow>
     decodeEventDataFixed es name raw = Inr (Some data) \<and> es_types es name = Some contract \<and> es_address es contract = source"
  by (auto simp: decodeProtocolEvent_def decodeEvent_def decodeEventDataFixed_def decodeEvent_data_def js_let_def with_enum_defaults_def
      split: option.splits sum.splits js_error.splits if_splits)

section \<open>Blocks, log rows and checkpoints\<close>

record chain_event =
  ce_contract :: string
  ce_name :: string
  ce_data :: proto_object
  ce_impacted :: "ustring list"
  ce_tx :: nat
  ce_seq :: nat
  ce_tx_id :: ustring
  ce_raw :: ustring

record chain_block =
  cb_height :: int
  cb_id :: ustring
  cb_previous :: ustring
  cb_timestamp :: ustring
  cb_events :: "chain_event list"

record event_log_row =
  rw_height :: int
  rw_tx :: nat
  rw_seq :: nat
  rw_block_id :: ustring
  rw_block_timestamp :: ustring
  rw_tx_id :: ustring
  rw_contract :: string
  rw_name :: string
  rw_data :: ustring
  rw_data_json :: ustring
  rw_impacted_json :: ustring

record checkpoint_row =
  cp_height :: int
  cp_block_id :: ustring
  cp_previous_id :: ustring
  cp_timestamp :: ustring
  cp_state_hash :: ustring
  cp_event_count :: nat

text \<open>Tables are lists of rows in the order of insertion; a query orders them.\<close>

record index_db =
  db_checkpoints :: "checkpoint_row list"
  db_log :: "event_log_row list"
  db_tables :: tables

definition empty_db :: index_db where
  "empty_db = \<lparr>db_checkpoints = [], db_log = [], db_tables = no_tables\<rparr>"

definition lastCheckpoint :: "index_db \<Rightarrow> checkpoint_row option" where
  "lastCheckpoint db = (case sort_key (\<lambda>c. - cp_height c) (db_checkpoints db) of [] \<Rightarrow> None | c # _ \<Rightarrow> Some c)"

definition checkpointAt :: "index_db \<Rightarrow> int \<Rightarrow> checkpoint_row option" where
  "checkpointAt db h = find (\<lambda>c. cp_height c = h) (db_checkpoints db)"

definition row_pos :: "event_log_row \<Rightarrow> int \<times> int \<times> int" where
  "row_pos r = (rw_height r, int (rw_tx r), int (rw_seq r))"

section \<open>The state hash\<close>

definition event_view :: "index_codec \<Rightarrow> chain_block \<Rightarrow> chain_event \<Rightarrow> json" where
  "event_view ic b e = J_obj [(''height'', J_str (int_text (cb_height b))), (''blockId'', J_str (cb_id b)), (''txIndex'', J_int (int (ce_tx e))),
     (''txId'', J_str (ce_tx_id e)), (''sequence'', J_int (int (ce_seq e))), (''contract'', J_str (utf16 (ce_contract e))),
     (''name'', J_str (utf16 (ce_name e))), (''data'', toJsonValue ic (P_obj (ce_data e))), (''impacted'', J_arr (map J_str (ce_impacted e)))]"

definition eventViews :: "index_codec \<Rightarrow> chain_block \<Rightarrow> json list" where
  "eventViews ic b = map (event_view ic b) (cb_events b)"

text \<open>\<open>Buffer.from(hex, "hex")\<close> stops at the first pair that is not hexadecimal.\<close>

fun hex_pairs :: "ustring \<Rightarrow> bytes" where
  "hex_pairs (a # b # rest) =
     (case (hex_value a, hex_value b) of (Some x, Some y) \<Rightarrow> of_nat (16 * x + y) # hex_pairs rest | _ \<Rightarrow> [])"
| "hex_pairs _ = []"

definition hexToBytes :: "ustring \<Rightarrow> bytes" where
  "hexToBytes hex = hex_pairs (if take 2 hex = utf16 ''0x'' then drop 2 hex else hex)"

definition hex_text :: "bytes \<Rightarrow> ustring" where
  "hex_text b = concat (map (\<lambda>x. [hex_unit (unat x div 16), hex_unit (unat x mod 16)]) b)"

definition computeStateHash :: "index_codec \<Rightarrow> ustring option \<Rightarrow> json list \<Rightarrow> ustring" where
  "computeStateHash ic previous events =
     hex_text (ic_sha256 ic ((case previous of Some p \<Rightarrow> if p = [] then [] else hexToBytes p | None \<Rightarrow> []) @ utf8 (canonicalJson (J_arr events))))"

section \<open>Applying a block\<close>

definition log_row :: "index_codec \<Rightarrow> chain_block \<Rightarrow> chain_event \<Rightarrow> event_log_row" where
  "log_row ic b e = \<lparr>rw_height = cb_height b, rw_tx = ce_tx e, rw_seq = ce_seq e, rw_block_id = cb_id b, rw_block_timestamp = cb_timestamp b,
     rw_tx_id = ce_tx_id e, rw_contract = ce_contract e, rw_name = ce_name e, rw_data = ce_raw e,
     rw_data_json = stringify (toJsonValue ic (P_obj (ce_data e))), rw_impacted_json = stringify (J_arr (map J_str (ce_impacted e)))\<rparr>"

definition block_log_event :: "chain_block \<Rightarrow> chain_event \<Rightarrow> log_event" where
  "block_log_event b e = \<lparr>le_height = cb_height b, le_block_id = cb_id b, le_block_time = cb_timestamp b, le_tx = ce_tx e, le_seq = ce_seq e,
     le_tx_id = ce_tx_id e, le_contract = ce_contract e, le_name = ce_name e, le_data = ce_data e, le_impacted = ce_impacted e\<rparr>"

text \<open>\<open>INSERT\<close> refuses a row whose primary key is taken.\<close>

definition insert_row :: "event_log_row \<Rightarrow> event_log_row list \<Rightarrow> event_log_row list js" where
  "insert_row r rows = (if row_pos r \<in> set (map row_pos rows)
     then Inl (Thrown (utf16 ''UNIQUE constraint failed: event_log.height, event_log.tx_index, event_log.sequence''))
     else Inr (rows @ [r]))"

text \<open>\<open>applyEvent\<close> as a statement that may throw.\<close>

definition apply_event_js :: "index_codec \<Rightarrow> log_event \<Rightarrow> tables \<Rightarrow> tables js" where
  "apply_event_js ic ev tabs = (case applyEvent ic ev tabs of
       None \<Rightarrow> Inl (Thrown (utf16 ''Provided value cannot be bound to SQLite parameter'')) | Some tabs' \<Rightarrow> Inr tabs')"

fun apply_events :: "index_codec \<Rightarrow> chain_block \<Rightarrow> chain_event list \<Rightarrow> event_log_row list \<times> tables \<Rightarrow> (event_log_row list \<times> tables) js" where
  "apply_events ic b [] s = Inr s"
| "apply_events ic b (e # es) (rows, tabs) =
     js_let (insert_row (log_row ic b e) rows) (\<lambda>rows'.
     js_let (apply_event_js ic (block_log_event b e) tabs) (\<lambda>tabs'.
     apply_events ic b es (rows', tabs')))"

definition sync_error :: "ustring \<Rightarrow> 'a js" where
  "sync_error m = Inl (Thrown m)"

text \<open>One database transaction: an error leaves the database as it was.\<close>

definition applyBlock :: "index_codec \<Rightarrow> int \<Rightarrow> chain_block \<Rightarrow> index_db \<Rightarrow> (checkpoint_row \<times> index_db) js" where
  "applyBlock ic startHeight b db =
     (let previous = lastCheckpoint db;
          expected = (case previous of Some c \<Rightarrow> cp_height c + 1 | None \<Rightarrow> startHeight)
      in if cb_height b \<noteq> expected
         then sync_error (utf16 ''cannot apply block '' @ int_text (cb_height b) @ utf16 '': expected height '' @ int_text expected)
         else if (case previous of Some c \<Rightarrow> cb_previous b \<noteq> [] \<and> cp_block_id c \<noteq> cb_previous b | None \<Rightarrow> False)
         then sync_error (utf16 ''block '' @ int_text (cb_height b) @ utf16 '' does not extend the stored block at '' @
           (case previous of Some c \<Rightarrow> int_text (cp_height c) | None \<Rightarrow> []) @ utf16 '' (fork)'')
         else js_let (apply_events ic b (cb_events b) (db_log db, db_tables db)) (\<lambda>(rows, tabs).
           let row = \<lparr>cp_height = cb_height b, cp_block_id = cb_id b, cp_previous_id = cb_previous b, cp_timestamp = cb_timestamp b,
                 cp_state_hash = computeStateHash ic (map_option cp_state_hash previous) (eventViews ic b),
                 cp_event_count = length (cb_events b)\<rparr>
           in Inr (row, \<lparr>db_checkpoints = db_checkpoints db @ [row], db_log = rows, db_tables = tabs\<rparr>)))"

section \<open>Replay and rollback\<close>

definition logEventFromRow :: "event_source \<Rightarrow> event_log_row \<Rightarrow> log_event option js" where
  "logEventFromRow es r =
     js_let (decodeEventDataFixed es (rw_name r) (rw_data r)) (\<lambda>data.
     Inr (map_option (\<lambda>d. \<lparr>le_height = rw_height r, le_block_id = rw_block_id r, le_block_time = rw_block_timestamp r, le_tx = rw_tx r,
       le_seq = rw_seq r, le_tx_id = rw_tx_id r, le_contract = rw_contract r, le_name = rw_name r, le_data = d,
       le_impacted = (case json_strings (rw_impacted_json r) of Some xs \<Rightarrow> xs | None \<Rightarrow> [])\<rparr>) data))"

fun apply_rows :: "index_codec \<Rightarrow> event_source \<Rightarrow> event_log_row list \<Rightarrow> tables \<times> nat \<Rightarrow> (tables \<times> nat) js" where
  "apply_rows ic es [] s = Inr s"
| "apply_rows ic es (r # rs) (tabs, applied) =
     js_let (logEventFromRow es r) (\<lambda>ev.
     case ev of
       None \<Rightarrow> apply_rows ic es rs (tabs, applied)
     | Some e \<Rightarrow> js_let (apply_event_js ic e tabs) (\<lambda>tabs'. apply_rows ic es rs (tabs', applied + 1)))"

text \<open>\<open>SELECT ... WHERE (height, tx_index, sequence) > cursor ORDER BY ... LIMIT 1000\<close>\<close>

definition REPLAY_PAGE :: nat where "REPLAY_PAGE = 1000"

definition rows_after :: "int \<times> int \<times> int \<Rightarrow> event_log_row list \<Rightarrow> event_log_row list" where
  "rows_after cursor rows = take REPLAY_PAGE (sort_key row_pos (filter (\<lambda>r. cursor < row_pos r) rows))"

text \<open>Every page moves the cursor past at least one row.\<close>

lemma page_last:
  assumes "rows_after cursor rows \<noteq> []"
  shows "last (rows_after cursor rows) \<in> set rows" "cursor < row_pos (last (rows_after cursor rows))"
proof -
  have "last (rows_after cursor rows) \<in> set (rows_after cursor rows)" using assms by simp
  then have "last (rows_after cursor rows) \<in> set (filter (\<lambda>r. cursor < row_pos r) rows)"
    unfolding rows_after_def by (metis in_set_takeD set_sort)
  then show "last (rows_after cursor rows) \<in> set rows" "cursor < row_pos (last (rows_after cursor rows))" by simp_all
qed

function replay_from :: "index_codec \<Rightarrow> event_source \<Rightarrow> event_log_row list \<Rightarrow> int \<times> int \<times> int \<Rightarrow> tables \<times> nat \<Rightarrow> (tables \<times> nat) js" where
  "replay_from ic es rows cursor s =
     (let page = rows_after cursor rows
      in if page = [] then Inr s
         else js_let (apply_rows ic es page s) (\<lambda>s'. replay_from ic es rows (row_pos (last page)) s'))"
  by pat_completeness auto

termination
proof (relation "measure (\<lambda>(ic, es, rows, cursor, s). length (filter (\<lambda>r. cursor < row_pos r) rows))")
  fix ic es rows cursor s page s'
  assume "page = rows_after cursor rows" "page \<noteq> []"
  then have last: "last page \<in> set rows" "cursor < row_pos (last page)" by (simp_all add: page_last)
  have "filter (\<lambda>r. row_pos (last page) < row_pos r) rows = filter (\<lambda>r. row_pos (last page) < row_pos r) (filter (\<lambda>r. cursor < row_pos r) rows)"
    using last(2) by (auto simp: filter_filter intro!: filter_cong)
  also have "length \<dots> < length (filter (\<lambda>r. cursor < row_pos r) rows)"
    using last by (intro length_filter_less [of "last page"]) auto
  finally show "((ic, es, rows, row_pos (last page), s'), (ic, es, rows, cursor, s)) \<in>
      measure (\<lambda>(ic, es, rows, cursor, s). length (filter (\<lambda>r. cursor < row_pos r) rows))" by simp
qed simp

declare replay_from.simps [simp del]

definition replayProjections :: "index_codec \<Rightarrow> event_source \<Rightarrow> event_log_row list \<Rightarrow> (tables \<times> nat) js" where
  "replayProjections ic es rows = replay_from ic es rows (- 1, - 1, - 1) (no_tables, 0)"

definition rollbackTo :: "index_codec \<Rightarrow> event_source \<Rightarrow> int \<Rightarrow> index_db \<Rightarrow> (nat \<times> index_db) js" where
  "rollbackTo ic es height db =
     (let rows = filter (\<lambda>r. \<not> height < rw_height r) (db_log db)
      in js_let (replayProjections ic es rows) (\<lambda>(tabs, applied).
         Inr (applied, \<lparr>db_checkpoints = filter (\<lambda>c. \<not> height < cp_height c) (db_checkpoints db), db_log = rows, db_tables = tabs\<rparr>)))"

section \<open>Paging\<close>

lemma apply_rows_append:
  "apply_rows ic es (xs @ ys) s = js_let (apply_rows ic es xs s) (apply_rows ic es ys)"
proof (induction xs arbitrary: s)
  case (Cons x xs)
  then show ?case
    by (cases s) (auto simp: js_let_def split: sum.split option.split)
qed simp

lemma strictly_sorted_drop:
  fixes f :: "'r \<Rightarrow> 'k::linorder"
  assumes "sorted_wrt (\<lambda>x y. f x < f y) xs" and "take n xs \<noteq> []"
  shows "filter (\<lambda>x. f (last (take n xs)) < f x) xs = drop n xs"
proof -
  let ?l = "last (take n xs)"
  have split: "sorted_wrt (\<lambda>x y. f x < f y) (take n xs @ drop n xs)" using assms(1) by simp
  have "f x \<le> f ?l" if x: "x \<in> set (take n xs)" for x
  proof -
    have "take n xs = butlast (take n xs) @ [?l]" using assms(2) by simp
    with split have "\<forall>x \<in> set (butlast (take n xs)). f x < f ?l" by (metis sorted_wrt_append list.set_intros(1))
    moreover have "x \<in> set (butlast (take n xs)) \<or> x = ?l"
      using x \<open>take n xs = butlast (take n xs) @ [?l]\<close> by (metis Un_iff set_append set_ConsD empty_iff list.set(1))
    ultimately show ?thesis by (auto simp: less_imp_le)
  qed
  then have "filter (\<lambda>x. f ?l < f x) (take n xs) = []" by (simp add: filter_empty_conv not_less)
  moreover have "\<forall>x \<in> set (take n xs). \<forall>y \<in> set (drop n xs). f x < f y"
    using split unfolding sorted_wrt_append by blast
  then have "filter (\<lambda>x. f ?l < f x) (drop n xs) = drop n xs"
    using last_in_set [OF assms(2)] by (auto simp: filter_id_conv)
  ultimately show ?thesis by (metis append_Nil append_take_drop_id filter_append)
qed

lemma sort_key_strict:
  fixes f :: "'r \<Rightarrow> 'k::linorder"
  assumes "distinct (map f xs)"
  shows "sorted_wrt (\<lambda>x y. f x < f y) (sort_key f xs)"
proof -
  have "sorted (map f (sort_key f xs))" "distinct (map f (sort_key f xs))"
    using assms by (simp_all add: distinct_map)
  then have "sorted_wrt (<) (map f (sort_key f xs))" by (simp add: strict_sorted_iff)
  then show ?thesis by (simp add: sorted_wrt_map)
qed

lemma replay_from_sorted:
  assumes "distinct (map row_pos rows)"
  shows "replay_from ic es rows cursor s = apply_rows ic es (sort_key row_pos (filter (\<lambda>r. cursor < row_pos r) rows)) s"
  using assms
proof (induction ic es rows cursor s rule: replay_from.induct)
  case (1 ic es rows cursor s)
  define xs where "xs = sort_key row_pos (filter (\<lambda>r. cursor < row_pos r) rows)"
  have page: "rows_after cursor rows = take REPLAY_PAGE xs" by (simp add: rows_after_def xs_def)
  show ?case
  proof (cases "take REPLAY_PAGE xs = []")
    case True
    then have "xs = []" by (auto simp: REPLAY_PAGE_def)
    then show ?thesis by (subst replay_from.simps) (simp add: page xs_def)
  next
    case False
    let ?l = "last (take REPLAY_PAGE xs)"
    have strict: "sorted_wrt (\<lambda>x y. row_pos x < row_pos y) xs"
      unfolding xs_def using "1.prems" by (intro sort_key_strict) (simp add: distinct_map_filter)
    have l: "cursor < row_pos ?l" using page_last(2) [of cursor rows] False by (simp add: page)
    have "filter (\<lambda>r. row_pos ?l < row_pos r) rows = filter (\<lambda>r. row_pos ?l < row_pos r) (filter (\<lambda>r. cursor < row_pos r) rows)"
      using l by (auto simp: filter_filter intro!: filter_cong)
    then have rest: "sort_key row_pos (filter (\<lambda>r. row_pos ?l < row_pos r) rows) = drop REPLAY_PAGE xs"
      using strictly_sorted_drop [OF strict False] by (simp add: filter_sort [symmetric] xs_def)
    have "replay_from ic es rows cursor s = js_let (apply_rows ic es (take REPLAY_PAGE xs) s) (replay_from ic es rows (row_pos ?l))"
      using False by (subst replay_from.simps) (simp add: page Let_def)
    also have "\<dots> = js_let (apply_rows ic es (take REPLAY_PAGE xs) s) (apply_rows ic es (drop REPLAY_PAGE xs))"
      using "1.IH" [OF _ _ "1.prems", of "take REPLAY_PAGE xs"] False
      by (simp add: js_let_def page rest split: sum.split)
    also have "\<dots> = apply_rows ic es xs s" by (simp flip: apply_rows_append)
    finally show ?thesis by (simp add: xs_def)
  qed
qed

lemma replay_one_pass:
  assumes "distinct (map row_pos rows)" and "\<forall>r \<in> set rows. 0 \<le> rw_height r"
  shows "replayProjections ic es rows = apply_rows ic es (sort_key row_pos rows) (no_tables, 0)"
proof -
  have "filter (\<lambda>r. (- 1, - 1, - 1) < row_pos r) rows = rows"
    using assms(2) by (auto simp: filter_id_conv row_pos_def)
  then show ?thesis by (simp add: replayProjections_def replay_from_sorted [OF assms(1)])
qed

text \<open>
  C37: The paged replay ends and is one pass over the log in canonical order: with the primary key
  (no two rows at one position) and heights from 0 on, no row is skipped or applied twice at a
  page boundary, however many pages there are.
\<close>

theorem replay_is_one_pass:
  assumes "distinct (map row_pos rows)" and "\<forall>r \<in> set rows. 0 \<le> rw_height r"
  shows "replayProjections ic es rows = apply_rows ic es (sort_key row_pos rows) (no_tables, 0)"
  using assms by (rule replay_one_pass)

section \<open>A database is a function of its blocks\<close>

text \<open>Indexing blocks one after the other.\<close>

fun index_from :: "index_codec \<Rightarrow> int \<Rightarrow> chain_block list \<Rightarrow> index_db \<Rightarrow> index_db js" where
  "index_from ic start [] db = Inr db"
| "index_from ic start (b # bs) db = js_let (applyBlock ic start b db) (\<lambda>(row, db'). index_from ic start bs db')"

definition index_of :: "index_codec \<Rightarrow> int \<Rightarrow> chain_block list \<Rightarrow> index_db js" where
  "index_of ic start bs = index_from ic start bs empty_db"

text \<open>
  What parsing gives of a block: its events decode from their raw data, and stand in the order of
  transactions and of positions within a receipt.
\<close>

definition block_ok :: "event_source \<Rightarrow> chain_block \<Rightarrow> bool" where
  "block_ok es b \<longleftrightarrow> sorted_wrt (<) (map (\<lambda>e. (ce_tx e, ce_seq e)) (cb_events b)) \<and>
     (\<forall>e \<in> set (cb_events b). decodeEventDataFixed es (ce_name e) (ce_raw e) = Inr (Some (ce_data e)))"

lemma index_from_append:
  "index_from ic start (bs @ cs) db = js_let (index_from ic start bs db) (index_from ic start cs)"
proof (induction bs arbitrary: db)
  case (Cons b bs)
  then show ?case by (auto simp: js_let_def split: sum.split)
qed simp

lemma index_of_snoc:
  "index_of ic start (bs @ [b]) = Inr db' \<longleftrightarrow> (\<exists>db row. index_of ic start bs = Inr db \<and> applyBlock ic start b db = Inr (row, db'))"
  by (auto simp: index_of_def index_from_append)

lemma apply_events_Inr:
  "apply_events ic b es (rows, tabs) = Inr (rows', tabs') \<Longrightarrow>
     rows' = rows @ map (log_row ic b) es \<and> apply_all ic (map (block_log_event b) es) tabs = Some tabs'"
proof (induction es arbitrary: rows tabs)
  case (Cons e es)
  from Cons.prems obtain tabs1 where "applyEvent ic (block_log_event b e) tabs = Some tabs1"
    and "apply_events ic b es (rows @ [log_row ic b e], tabs1) = Inr (rows', tabs')"
    by (auto simp: insert_row_def apply_event_js_def split: if_splits option.splits)
  with Cons.IH [OF this(2)] show ?case by simp
qed simp

lemma applyBlock_Inr:
  assumes "applyBlock ic start b db = Inr (row, db')"
  obtains rows tabs where "cb_height b = (case lastCheckpoint db of Some c \<Rightarrow> cp_height c + 1 | None \<Rightarrow> start)"
    "\<And>c. lastCheckpoint db = Some c \<Longrightarrow> cb_previous b = [] \<or> cb_previous b = cp_block_id c"
    "apply_events ic b (cb_events b) (db_log db, db_tables db) = Inr (rows, tabs)"
    "row = \<lparr>cp_height = cb_height b, cp_block_id = cb_id b, cp_previous_id = cb_previous b, cp_timestamp = cb_timestamp b,
        cp_state_hash = computeStateHash ic (map_option cp_state_hash (lastCheckpoint db)) (eventViews ic b),
        cp_event_count = length (cb_events b)\<rparr>"
    "db' = \<lparr>db_checkpoints = db_checkpoints db @ [row], db_log = rows, db_tables = tabs\<rparr>"
  using assms by (auto simp: applyBlock_def sync_error_def Let_def split: if_splits option.splits)

lemma last_checkpoint_last:
  assumes "sorted_wrt (<) (map cp_height (db_checkpoints db))"
  shows "lastCheckpoint db = (if db_checkpoints db = [] then None else Some (last (db_checkpoints db)))"
proof -
  let ?cs = "db_checkpoints db"
  have "sort_key (\<lambda>c. - cp_height c) ?cs = rev ?cs"
  proof (rule sort_key_inj_key_eq)
    have "distinct (map cp_height ?cs)" using assms by (rule strict_sorted_iff [THEN iffD1, THEN conjunct2])
    then show "inj_on (\<lambda>c. - cp_height c) (set ?cs)" by (auto simp: distinct_map inj_on_def)
    have "sorted_wrt (\<lambda>x y. cp_height x < cp_height y) ?cs" using assms by (simp add: sorted_wrt_map)
    then have "sorted_wrt (\<lambda>y x. cp_height x < cp_height y) (rev ?cs)" by (simp add: sorted_wrt_rev)
    then show "sorted (map (\<lambda>c. - cp_height c) (rev ?cs))"
      by (auto simp: sorted_wrt_map elim: sorted_wrt_mono_rel [rotated])
  qed simp
  then show ?thesis by (simp add: lastCheckpoint_def hd_rev split: list.split)
qed

text \<open>The parts of the database that are read off its blocks.\<close>

lemma index_of_parts:
  assumes "index_of ic start bs = Inr db"
  shows "map cp_height (db_checkpoints db) = map cb_height bs" "map cb_height bs = map (\<lambda>i. start + int i) [0..<length bs]"
    "map cp_block_id (db_checkpoints db) = map cb_id bs" "db_log db = concat (map (\<lambda>b. map (log_row ic b) (cb_events b)) bs)"
    "apply_all ic (concat (map (\<lambda>b. map (block_log_event b) (cb_events b)) bs)) no_tables = Some (db_tables db)"
proof -
  have "map cp_height (db_checkpoints db) = map cb_height bs \<and> map cb_height bs = map (\<lambda>i. start + int i) [0..<length bs] \<and>
    map cp_block_id (db_checkpoints db) = map cb_id bs \<and> db_log db = concat (map (\<lambda>b. map (log_row ic b) (cb_events b)) bs) \<and>
    apply_all ic (concat (map (\<lambda>b. map (block_log_event b) (cb_events b)) bs)) no_tables = Some (db_tables db)"
    using assms
  proof (induction bs arbitrary: db rule: rev_induct)
    case Nil
    then show ?case by (auto simp: index_of_def empty_db_def)
  next
    case (snoc b bs)
    then obtain db1 row where one: "index_of ic start bs = Inr db1" and two: "applyBlock ic start b db1 = Inr (row, db)"
      by (auto simp: index_of_snoc)
    note ih = snoc.IH [OF one]
    have h: "sorted_wrt (<) (map cp_height (db_checkpoints db1))" using ih by (simp add: sorted_wrt_map sorted_wrt_upt)
    have len: "length (db_checkpoints db1) = length bs" using ih by (metis length_map)
    have "last (map cb_height bs) = start + int (length bs) - 1" if "bs \<noteq> []" using ih that by (simp add: last_map of_nat_diff Suc_le_eq)
    then have expected: "cp_height (last (db_checkpoints db1)) = start + int (length bs) - 1" if "bs \<noteq> []"
      using ih that len by (metis last_map length_0_conv)
    from two obtain rows tabs where height: "cb_height b = (case lastCheckpoint db1 of Some c \<Rightarrow> cp_height c + 1 | None \<Rightarrow> start)"
      and "apply_events ic b (cb_events b) (db_log db1, db_tables db1) = Inr (rows, tabs)"
      and "cp_height row = cb_height b" "cp_block_id row = cb_id b" "db = \<lparr>db_checkpoints = db_checkpoints db1 @ [row], db_log = rows, db_tables = tabs\<rparr>"
      by (rule applyBlock_Inr) simp
    moreover have "cb_height b = start + int (length bs)"
      using height expected last_checkpoint_last [OF h] len by (cases "bs = []") auto
    ultimately show ?case
      using ih apply_events_Inr [of ic b "cb_events b"] by (auto simp: apply_all_append)
  qed
  then show "map cp_height (db_checkpoints db) = map cb_height bs" "map cb_height bs = map (\<lambda>i. start + int i) [0..<length bs]"
    "map cp_block_id (db_checkpoints db) = map cb_id bs" "db_log db = concat (map (\<lambda>b. map (log_row ic b) (cb_events b)) bs)"
    "apply_all ic (concat (map (\<lambda>b. map (block_log_event b) (cb_events b)) bs)) no_tables = Some (db_tables db)"
    by blast+
qed

lemma sorted_concat_rows:
  assumes "sorted_wrt (<) (map cb_height bs)" and "\<forall>b \<in> set bs. block_ok es b"
  shows "sorted_wrt (<) (map row_pos (concat (map (\<lambda>b. map (log_row ic b) (cb_events b)) bs)))"
  using assms
proof (induction bs)
  case (Cons b bs)
  have "sorted_wrt (<) (map row_pos (map (log_row ic b) (cb_events b)))"
    using Cons.prems(2) by (auto simp: block_ok_def sorted_wrt_map row_pos_def log_row_def elim: sorted_wrt_mono_rel [rotated])
  moreover have "\<forall>x \<in> set (map (log_row ic b) (cb_events b)). \<forall>y \<in> set (concat (map (\<lambda>b. map (log_row ic b) (cb_events b)) bs)). row_pos x < row_pos y"
    using Cons.prems(1) by (auto simp: row_pos_def log_row_def)
  ultimately show ?case using Cons by (auto simp: sorted_wrt_append)
qed simp

lemma row_read_back:
  assumes "decodeEventDataFixed es (ce_name e) (ce_raw e) = Inr (Some (ce_data e))"
  shows "logEventFromRow es (log_row ic b e) = Inr (Some (block_log_event b e))"
  using assms by (simp add: logEventFromRow_def log_row_def block_log_event_def json_strings_stringify del: stringify.simps)

lemma apply_rows_block:
  assumes "\<forall>e \<in> set es'. decodeEventDataFixed es (ce_name e) (ce_raw e) = Inr (Some (ce_data e))"
    and "apply_all ic (map (block_log_event b) es') tabs = Some tabs'"
  shows "apply_rows ic es (map (log_row ic b) es') (tabs, n) = Inr (tabs', n + length es')"
  using assms
proof (induction es' arbitrary: tabs n)
  case (Cons e es')
  from Cons.prems(2) obtain tabs1 where "applyEvent ic (block_log_event b e) tabs = Some tabs1"
    and rest: "apply_all ic (map (block_log_event b) es') tabs1 = Some tabs'" by (auto split: option.splits)
  with Cons.IH [OF _ rest] Cons.prems(1) show ?case by (simp add: row_read_back apply_event_js_def)
qed simp

lemma apply_rows_blocks:
  assumes "\<forall>b \<in> set bs. block_ok es b"
    and "apply_all ic (concat (map (\<lambda>b. map (block_log_event b) (cb_events b)) bs)) tabs = Some tabs'"
  shows "apply_rows ic es (concat (map (\<lambda>b. map (log_row ic b) (cb_events b)) bs)) (tabs, n) =
    Inr (tabs', n + length (concat (map cb_events bs)))"
  using assms
proof (induction bs arbitrary: tabs n)
  case (Cons b bs)
  from Cons.prems(2) obtain tabs1 where one: "apply_all ic (map (block_log_event b) (cb_events b)) tabs = Some tabs1"
    and rest: "apply_all ic (concat (map (\<lambda>b. map (block_log_event b) (cb_events b)) bs)) tabs1 = Some tabs'"
    by (auto simp: apply_all_append split: option.splits)
  have "\<forall>e \<in> set (cb_events b). decodeEventDataFixed es (ce_name e) (ce_raw e) = Inr (Some (ce_data e))"
    using Cons.prems(1) by (simp add: block_ok_def)
  from apply_rows_block [OF this one] Cons.IH [OF _ rest] Cons.prems(1) show ?case
    by (simp add: apply_rows_append add.assoc)
qed simp

text \<open>The replay of an indexed log gives its tables back.\<close>

lemma replay_indexed:
  assumes "index_of ic start bs = Inr db" and "0 \<le> start" and "\<forall>b \<in> set bs. block_ok es b"
  shows "replayProjections ic es (db_log db) = Inr (db_tables db, length (db_log db))"
proof -
  note parts = index_of_parts [OF assms(1)]
  have heights: "sorted_wrt (<) (map cb_height bs)" unfolding parts(2) by (simp add: sorted_wrt_map sorted_wrt_upt)
  have strict: "sorted_wrt (<) (map row_pos (db_log db))"
    unfolding parts(4) by (rule sorted_concat_rows [OF heights assms(3)])
  then have "distinct (map row_pos (db_log db))" and "sorted (map row_pos (db_log db))"
    by (simp_all add: strict_sorted_iff)
  moreover have "\<forall>r \<in> set (db_log db). 0 \<le> rw_height r"
  proof
    fix r
    assume "r \<in> set (db_log db)"
    then obtain b where "b \<in> set bs" "rw_height r = cb_height b" by (auto simp: parts(4) log_row_def)
    moreover from this have "cb_height b \<in> set (map (\<lambda>i. start + int i) [0..<length bs])" by (metis parts(2) image_eqI set_map)
    ultimately show "0 \<le> rw_height r" using assms(2) by auto
  qed
  ultimately have "replayProjections ic es (db_log db) = apply_rows ic es (db_log db) (no_tables, 0)"
    using replay_from_sorted by (simp add: replay_one_pass sort_key_id_if_sorted)
  also have "\<dots> = Inr (db_tables db, length (db_log db))"
    unfolding parts(4) using apply_rows_blocks [OF assms(3) parts(5), of 0] by (simp add: length_concat comp_def)
  finally show ?thesis .
qed

lemma index_from_extends:
  assumes "index_from ic start cs db1 = Inr db"
  shows "\<exists>rows. db_checkpoints db = db_checkpoints db1 @ rows \<and> map cp_height rows = map cb_height cs"
  using assms
proof (induction cs arbitrary: db1)
  case (Cons c cs)
  from Cons.prems obtain row db2 where "applyBlock ic start c db1 = Inr (row, db2)" and rest: "index_from ic start cs db2 = Inr db"
    by auto
  then have "db_checkpoints db2 = db_checkpoints db1 @ [row]" "cp_height row = cb_height c" by (auto elim: applyBlock_Inr)
  with Cons.IH [OF rest] show ?case by auto
qed auto

lemma ascending_split:
  fixes f :: "'r \<Rightarrow> 'k::linorder"
  assumes "sorted_wrt (<) (map f xs)"
  shows "xs = filter (\<lambda>x. f x \<le> h) xs @ filter (\<lambda>x. h < f x) xs"
  using assms
proof (induction xs)
  case (Cons x xs)
  show ?case
  proof (cases "f x \<le> h")
    case False
    with Cons.prems have "\<forall>y \<in> set (x # xs). h < f y" by auto
    then show ?thesis by (simp add: filter_id_conv filter_empty_conv not_le)
  qed (use Cons in auto)
qed simp

lemma rollback_prefix:
  assumes "index_of ic start bs = Inr db" and "0 \<le> start" and "\<forall>b \<in> set bs. block_ok es b"
  shows "\<exists>db' n. rollbackTo ic es h db = Inr (n, db') \<and> index_of ic start (filter (\<lambda>b. cb_height b \<le> h) bs) = Inr db'"
proof -
  let ?low = "filter (\<lambda>b. cb_height b \<le> h) bs" and ?high = "filter (\<lambda>b. h < cb_height b) bs"
  note parts = index_of_parts [OF assms(1)]
  have heights: "sorted_wrt (<) (map cb_height bs)" unfolding parts(2) by (simp add: sorted_wrt_map sorted_wrt_upt)
  have split: "bs = ?low @ ?high" using heights by (rule ascending_split)
  from assms(1) obtain db1 where low: "index_of ic start ?low = Inr db1" and high: "index_from ic start ?high db1 = Inr db"
    by (subst (asm) split) (auto simp: index_of_def index_from_append)
  note parts1 = index_of_parts [OF low]
  obtain rows where cps: "db_checkpoints db = db_checkpoints db1 @ rows" "map cp_height rows = map cb_height ?high"
    using index_from_extends [OF high] by blast
  have "\<forall>c \<in> set (db_checkpoints db1). \<not> h < cp_height c"
  proof
    fix c
    assume "c \<in> set (db_checkpoints db1)"
    then have "cp_height c \<in> set (map cb_height ?low)" by (metis parts1(1) image_eqI set_map)
    then show "\<not> h < cp_height c" by auto
  qed
  moreover have "\<forall>c \<in> set rows. h < cp_height c"
  proof
    fix c
    assume "c \<in> set rows"
    then have "cp_height c \<in> set (map cb_height ?high)" by (metis cps(2) image_eqI set_map)
    then show "h < cp_height c" by auto
  qed
  ultimately have f1: "filter (\<lambda>c. \<not> h < cp_height c) (db_checkpoints db) = db_checkpoints db1"
    by (simp add: cps(1) filter_id_conv filter_empty_conv)
  have rows_filter: "filter (\<lambda>r. \<not> h < rw_height r) (concat (map (\<lambda>b. map (log_row ic b) (cb_events b)) cs)) =
      concat (map (\<lambda>b. map (log_row ic b) (cb_events b)) (filter (\<lambda>b. cb_height b \<le> h) cs))" for cs
    by (induction cs) (simp_all add: log_row_def comp_def not_less)
  have f2: "filter (\<lambda>r. \<not> h < rw_height r) (db_log db) = db_log db1"
    by (simp add: parts(4) parts1(4) rows_filter)
  have "replayProjections ic es (db_log db1) = Inr (db_tables db1, length (db_log db1))"
    using replay_indexed [OF low assms(2)] assms(3) by simp
  with low show ?thesis by (simp add: rollbackTo_def f1 f2 Let_def)
qed

text \<open>
  C14: A rollback forgets blocks and nothing else: rolling a database back to a height (drop log rows
  and checkpoints, empty the tables, replay the log in pages) never fails and gives exactly the
  database that indexing only the blocks up to that height gives.
\<close>

theorem rollback_is_prefix:
  assumes "index_of ic start bs = Inr db" and "0 \<le> start" and "\<forall>b \<in> set bs. block_ok es b"
  shows "\<exists>db' n. rollbackTo ic es h db = Inr (n, db') \<and> index_of ic start (filter (\<lambda>b. cb_height b \<le> h) bs) = Inr db'"
  using assms by (rule rollback_prefix)

section \<open>A small log\<close>

text \<open>An event source that knows one event without fields, and blocks with one such event each.\<close>

definition plain_events :: event_source where
  "plain_events = \<lparr>es_types = (\<lambda>_. Some ''other''), es_address = (\<lambda>_. []), es_bytes = (\<lambda>_. Inr []), es_decode = (\<lambda>_ _. Inr []),
     es_type = (\<lambda>_. No_more_fields), es_wire = (\<lambda>_ _. Inr [])\<rparr>"

definition plain_block :: "int \<Rightarrow> u16 \<Rightarrow> u16 \<Rightarrow> chain_block" where
  "plain_block height i previous = \<lparr>cb_height = height, cb_id = [i], cb_previous = [previous], cb_timestamp = [],
     cb_events = [\<lparr>ce_contract = ''other'', ce_name = ''other.event'', ce_data = [], ce_impacted = [], ce_tx = 0, ce_seq = 0,
       ce_tx_id = [i], ce_raw = []\<rparr>]\<rparr>"

lemma plain_block_ok: "block_ok plain_events (plain_block h i p)"
  by (simp add: block_ok_def plain_block_def decodeEventDataFixed_def decodeEvent_data_def with_enum_defaults_def plain_events_def)

definition plain_rows :: "event_log_row list" where
  "plain_rows = map (\<lambda>b. log_row demo_codec b (hd (cb_events b))) [plain_block 2 66 65, plain_block 1 65 64]"

theorem replay_is_one_pass_witness:
  "replayProjections demo_codec plain_events plain_rows = apply_rows demo_codec plain_events (sort_key row_pos plain_rows) (no_tables, 0)"
  by (rule replay_is_one_pass) (simp_all add: plain_rows_def plain_block_def log_row_def row_pos_def)

lemma plain_indexed: "\<exists>db. index_of demo_codec 1 [plain_block 1 65 64, plain_block 2 66 65] = Inr db"
  by (simp add: index_of_def applyBlock_def plain_block_def empty_db_def lastCheckpoint_def Let_def insert_row_def row_pos_def
      log_row_def apply_event_js_def applyEvent_def block_log_event_def)

theorem rollback_is_prefix_witness:
  "\<exists>db db' n. index_of demo_codec 1 [plain_block 1 65 64, plain_block 2 66 65] = Inr db \<and>
     rollbackTo demo_codec plain_events 1 db = Inr (n, db') \<and> index_of demo_codec 1 [plain_block 1 65 64] = Inr db'"
proof -
  obtain db where db: "index_of demo_codec 1 [plain_block 1 65 64, plain_block 2 66 65] = Inr db" using plain_indexed by blast
  with rollback_is_prefix [OF db, of plain_events 1] show ?thesis
    by (auto simp: plain_block_ok) (simp add: plain_block_def)
qed

end
