(* ===== verification/Syncer.thy ===== *)
theory Syncer
  imports Event_Log
begin

text \<open>
  The sync loop of the indexer (\<open>apps/indexer/src/sync.ts\<close>) over a chain source
  (\<open>apps/indexer/src/chain.ts\<close>): fetching blocks, applying them, detecting forks and rolling back. The RPC
  provider is a parameter; whatever it answers, the database stays the index of some blocks.
\<close>

section \<open>What the node answers\<close>

record event_json =
  ej_source :: ustring
  ej_name :: string
  ej_data :: "ustring option"
  ej_impacted :: "ustring list option"

record receipt_json =
  rj_id :: "ustring option"
  rj_reverted :: bool
  rj_events :: "event_json list option"

record header_json =
  hj_height :: "ustring option"
  hj_previous :: "ustring option"
  hj_timestamp :: "ustring option"

record block_json =
  bj_id :: "ustring option"
  bj_header :: "header_json option"

record block_item =
  bi_block_id :: "ustring option"
  bi_block_height :: "ustring option"
  bi_block :: "block_json option"
  bi_receipts :: "receipt_json list option"

record head_info =
  hi_height :: "ustring option" \<comment> \<open>\<open>head_topology.height\<close>\<close>
  hi_id :: ustring
  hi_lib :: "ustring option"
  hi_time :: "ustring option"

record 'w provider =
  pv_head_info :: "('w, head_info) io"
  pv_blocks :: "int \<Rightarrow> int \<Rightarrow> ustring \<Rightarrow> ('w, block_item list) io"
  pv_chain_id :: "('w, ustring) io"

section \<open>The chain source\<close>

text \<open>
  \<open>Number(text)\<close> for a text the node may send: a decimal integer or nothing; every other text counts as
  not a number.
\<close>

definition js_number :: "ustring option \<Rightarrow> int option" where
  "js_number t = (case t of None \<Rightarrow> None | Some s \<Rightarrow> if s = [] then Some 0 else decimal_text s)"

definition or_else :: "'a option \<Rightarrow> 'a option \<Rightarrow> 'a option" where
  "or_else x y = (case x of None \<Rightarrow> y | Some _ \<Rightarrow> x)"

definition or_empty :: "ustring option \<Rightarrow> ustring" where
  "or_empty x = (case x of None \<Rightarrow> [] | Some s \<Rightarrow> s)"

fun parse_events :: "event_source \<Rightarrow> nat \<Rightarrow> ustring \<Rightarrow> nat \<Rightarrow> event_json list \<Rightarrow> chain_event list js" where
  "parse_events es txIndex txId sequence [] = Inr []"
| "parse_events es txIndex txId sequence (e # rest) =
     js_let (decodeProtocolEvent es (ej_source e) (ej_name e) (or_empty (ej_data e))) (\<lambda>decoded.
     js_let (parse_events es txIndex txId (sequence + 1) rest) (\<lambda>events.
     Inr (case decoded of
            None \<Rightarrow> events
          | Some (contract, data) \<Rightarrow> \<lparr>ce_contract = contract, ce_name = ej_name e, ce_data = data,
              ce_impacted = (case ej_impacted e of None \<Rightarrow> [] | Some xs \<Rightarrow> xs), ce_tx = txIndex, ce_seq = sequence,
              ce_tx_id = txId, ce_raw = or_empty (ej_data e)\<rparr> # events)))"

fun parse_receipts :: "event_source \<Rightarrow> nat \<Rightarrow> receipt_json list \<Rightarrow> chain_event list js" where
  "parse_receipts es txIndex [] = Inr []"
| "parse_receipts es txIndex (r # rest) =
     js_let (if rj_reverted r then Inr []
             else parse_events es txIndex (or_empty (rj_id r)) 0 (case rj_events r of None \<Rightarrow> [] | Some evs \<Rightarrow> evs)) (\<lambda>events.
     js_let (parse_receipts es (txIndex + 1) rest) (\<lambda>more_events. Inr (events @ more_events)))"

definition chain_error :: "ustring \<Rightarrow> 'a js" where
  "chain_error m = Inl (Thrown m)"

definition parseBlockItem :: "event_source \<Rightarrow> block_item \<Rightarrow> chain_block js" where
  "parseBlockItem es item =
     (let header = (case bi_block item of None \<Rightarrow> None | Some b \<Rightarrow> bj_header b);
          height_text = or_else (bi_block_height item) (case header of None \<Rightarrow> None | Some h \<Rightarrow> hj_height h)
      in case js_number height_text of
        None \<Rightarrow> chain_error (utf16 ''block item without a valid height: '' @
          (case bi_block_height item of None \<Rightarrow> utf16 ''undefined'' | Some t \<Rightarrow> quote t))
      | Some height \<Rightarrow>
          if height < 0 then chain_error (utf16 ''block item without a valid height: '' @
            (case bi_block_height item of None \<Rightarrow> utf16 ''undefined'' | Some t \<Rightarrow> quote t))
          else let i = or_empty (or_else (bi_block_id item) (case bi_block item of None \<Rightarrow> None | Some b \<Rightarrow> bj_id b))
          in if i = [] then chain_error (utf16 ''block '' @ int_text height @ utf16 '' has no id'')
          else case header of
            None \<Rightarrow> chain_error (utf16 ''block '' @ int_text height @ utf16 '' was returned without its header (returnBlock must be true)'')
          | Some h \<Rightarrow>
              js_let (parse_receipts es 0 (case bi_receipts item of None \<Rightarrow> [] | Some rs \<Rightarrow> rs)) (\<lambda>events.
              Inr \<lparr>cb_height = height, cb_id = i, cb_previous = or_empty (hj_previous h),
                   cb_timestamp = (case hj_timestamp h of None \<Rightarrow> utf16 ''0'' | Some t \<Rightarrow> t), cb_events = events\<rparr>))"

fun parse_items :: "event_source \<Rightarrow> block_item list \<Rightarrow> chain_block list js" where
  "parse_items es [] = Inr []"
| "parse_items es (i # is) = js_let (parseBlockItem es i) (\<lambda>b. js_let (parse_items es is) (\<lambda>bs. Inr (b # bs)))"

record chain_head =
  hd_height :: int
  hd_id :: ustring
  hd_lib :: "int option" \<comment> \<open>\<open>None\<close> when it is not a finite number\<close>
  hd_time :: ustring

record 'w chain_source =
  cs_head :: "('w, chain_head) io"
  cs_blocks :: "int \<Rightarrow> int \<Rightarrow> ustring \<Rightarrow> ('w, chain_block list) io"
  cs_chain_id :: "('w, ustring) io"

definition getHead :: "'w provider \<Rightarrow> ('w, chain_head) io" where
  "getHead pv = io_let (pv_head_info pv) (\<lambda>info.
     case js_number (hi_height info) of
       None \<Rightarrow> io_throw (Thrown (utf16 ''chain.get_head_info returned no head height''))
     | Some height \<Rightarrow> io_return \<lparr>hd_height = height, hd_id = hi_id info,
         hd_lib = (case hi_lib info of None \<Rightarrow> Some 0 | Some t \<Rightarrow> js_number (Some t)),
         hd_time = (case hi_time info of None \<Rightarrow> utf16 ''0'' | Some t \<Rightarrow> t)\<rparr>)"

definition getBlocks :: "'w provider \<Rightarrow> event_source \<Rightarrow> int \<Rightarrow> int \<Rightarrow> ustring \<Rightarrow> ('w, chain_block list) io" where
  "getBlocks pv es fromHeight amount headId =
     (if amount \<le> 0 then io_return []
      else io_let (pv_blocks pv fromHeight amount headId) (\<lambda>items w.
        (js_let (parse_items es items) (\<lambda>bs.
           Inr (sort_key cb_height (filter (\<lambda>b. fromHeight \<le> cb_height b \<and> cb_height b < fromHeight + amount) bs))), w)))"

definition KoinosChain :: "'w provider \<Rightarrow> event_source \<Rightarrow> 'w chain_source" where
  "KoinosChain pv es = \<lparr>cs_head = getHead pv, cs_blocks = getBlocks pv es, cs_chain_id = pv_chain_id pv\<rparr>"

section \<open>The syncer\<close>

record sync_options =
  so_startHeight :: int
  so_chainId :: "ustring option"
  so_batchSize :: int
  so_reversibleWindow :: "int option"

text \<open>The constructor: heights start at 1 or later, a batch has at least one block.\<close>

definition new_options :: "int \<Rightarrow> ustring option \<Rightarrow> int option \<Rightarrow> int option \<Rightarrow> sync_options" where
  "new_options startHeight chainId batchSize window = \<lparr>so_startHeight = max 1 startHeight, so_chainId = chainId,
     so_batchSize = max 1 (case batchSize of None \<Rightarrow> 50 | Some n \<Rightarrow> n), so_reversibleWindow = window\<rparr>"

record syncer =
  sy_db :: index_db
  sy_chainIdVerified :: bool
  sy_shrunkHead :: "chain_head option"
  sy_head :: "chain_head option"
  sy_rpcChainId :: "ustring option"
  sy_chainIdMatch :: "bool option"
  sy_lastError :: "ustring option"
  sy_rollbacks :: nat
  sy_blocksApplied :: nat
  sy_stalledSteps :: nat
  sy_syncing :: bool

record sync_result =
  rs_applied :: nat
  rs_caughtUp :: bool
  rs_stalled :: bool
  rs_rolledBack :: "(int \<times> int) option" \<comment> \<open>from, to\<close>

text \<open>The syncer's own state next to the world its chain source lives in.\<close>

type_synonym ('w, 'a) syncing = "(syncer \<times> 'w, 'a) io"

definition ask :: "('w, 'a) io \<Rightarrow> ('w, 'a) syncing" where
  "ask m s = (case m (snd s) of (r, w) \<Rightarrow> (r, (fst s, w)))"

definition change :: "(syncer \<Rightarrow> syncer) \<Rightarrow> ('w, unit) syncing" where
  "change f s = (Inr (), (f (fst s), snd s))"

definition look :: "(syncer \<Rightarrow> ('w, 'a) syncing) \<Rightarrow> ('w, 'a) syncing" where
  "look k s = k (fst s) s"

definition finalHeight :: "sync_options \<Rightarrow> chain_head \<Rightarrow> int" where
  "finalHeight opts head =
     (let lib = (case hd_lib head of Some n \<Rightarrow> n | None \<Rightarrow> 0)
      in case so_reversibleWindow opts of None \<Rightarrow> lib | Some window \<Rightarrow> max lib (hd_height head - window))"

definition verifyChainId :: "sync_options \<Rightarrow> 'w chain_source \<Rightarrow> ('w, unit) syncing" where
  "verifyChainId opts chain = look (\<lambda>sy.
     if sy_chainIdVerified sy then io_return ()
     else io_let (ask (cs_chain_id chain)) (\<lambda>rpcChainId.
       io_let (change (\<lambda>sy. sy\<lparr>sy_rpcChainId := Some rpcChainId\<rparr>)) (\<lambda>_.
       case so_chainId opts of
         None \<Rightarrow> change (\<lambda>sy. sy\<lparr>sy_chainIdVerified := True\<rparr>)
       | Some expected \<Rightarrow>
           io_let (change (\<lambda>sy. sy\<lparr>sy_chainIdMatch := Some (rpcChainId = expected)\<rparr>)) (\<lambda>_.
           if rpcChainId \<noteq> expected
           then io_throw (Thrown (utf16 ''chain id mismatch: the node reports '' @ rpcChainId @
             utf16 '' but the deployment manifest expects '' @ expected @ utf16 ''; refusing to index''))
           else change (\<lambda>sy. sy\<lparr>sy_chainIdVerified := True\<rparr>)))))"

text \<open>\<open>rollbackTo\<close> on the syncer's database.\<close>

definition roll_db :: "index_codec \<Rightarrow> event_source \<Rightarrow> int \<Rightarrow> ('w, unit) syncing" where
  "roll_db ic es height = look (\<lambda>sy.
     case rollbackTo ic es height (sy_db sy) of
       Inl e \<Rightarrow> io_throw e
     | Inr (replayed, db) \<Rightarrow> change (\<lambda>sy. sy\<lparr>sy_db := db, sy_rollbacks := sy_rollbacks sy + 1\<rparr>))"

definition sync_rollback :: "index_codec \<Rightarrow> event_source \<Rightarrow> sync_options \<Rightarrow> 'w chain_source \<Rightarrow> chain_head \<Rightarrow> int \<Rightarrow> ('w, int) syncing" where
  "sync_rollback ic es opts chain head forkHeight =
     (let floor = so_startHeight opts - 1;
          to = max (min (finalHeight opts head) (forkHeight - 1)) floor
      in if to \<ge> forkHeight
         then io_throw (Thrown (utf16 ''fork at height '' @ int_text forkHeight @ utf16 '' is not above the final height '' @ int_text to @
           utf16 ''; refusing to roll back''))
         else look (\<lambda>sy.
           let roll = io_let (roll_db ic es to) (\<lambda>_. io_return to)
           in case (if to > floor then checkpointAt (sy_db sy) to else None) of
             None \<Rightarrow> roll
           | Some ours \<Rightarrow>
               io_let (ask (cs_blocks chain to 1 (hd_id head))) (\<lambda>bs.
               let refuse = (\<lambda>canonical. io_throw (Thrown (utf16 ''fork below the final height '' @ int_text to @ utf16 '' (stored '' @
                     cp_block_id ours @ utf16 '', canonical '' @ canonical @ utf16 ''); refusing to roll back'')))
               in case bs of
                 [] \<Rightarrow> refuse (utf16 ''unknown'')
               | canonical # _ \<Rightarrow> if cb_id canonical \<noteq> cp_block_id ours then refuse (cb_id canonical) else roll)))"

definition finish :: "sync_result \<Rightarrow> ('w, sync_result) syncing" where
  "finish result = io_let (change (\<lambda>sy. sy\<lparr>sy_stalledSteps := (if rs_stalled result then sy_stalledSteps sy + 1 else 0),
     sy_lastError := None\<rparr>)) (\<lambda>_. io_return result)"

text \<open>
  The loop over the fetched blocks: a gap ends it, a block that does not extend its stored parent rolls
  back (the result), any other is applied.
\<close>

fun apply_blocks :: "index_codec \<Rightarrow> event_source \<Rightarrow> sync_options \<Rightarrow> 'w chain_source \<Rightarrow> chain_head \<Rightarrow> chain_block list \<Rightarrow> nat \<Rightarrow> int \<Rightarrow>
    ('w, sync_result + nat \<times> int) syncing" where
  "apply_blocks ic es opts chain head [] applied expected = io_return (Inr (applied, expected))"
| "apply_blocks ic es opts chain head (b # bs) applied expected =
     (if cb_height b \<noteq> expected then io_return (Inr (applied, expected))
      else look (\<lambda>sy.
        let extend = (case applyBlock ic (so_startHeight opts) b (sy_db sy) of
              Inl e \<Rightarrow> io_throw e
            | Inr (row, db) \<Rightarrow> io_let (change (\<lambda>sy. sy\<lparr>sy_db := db, sy_blocksApplied := sy_blocksApplied sy + 1\<rparr>)) (\<lambda>_.
                apply_blocks ic es opts chain head bs (applied + 1) (expected + 1)))
        in case checkpointAt (sy_db sy) (cb_height b - 1) of
          None \<Rightarrow> extend
        | Some parent \<Rightarrow>
            if cb_previous b \<noteq> [] \<and> cp_block_id parent \<noteq> cb_previous b
            then io_let (sync_rollback ic es opts chain head (cb_height b)) (\<lambda>to.
              io_return (Inl \<lparr>rs_applied = applied, rs_caughtUp = False, rs_stalled = False, rs_rolledBack = Some (cp_height parent, to)\<rparr>))
            else extend))"

definition caught_up :: "bool \<Rightarrow> (int \<times> int) option \<Rightarrow> sync_result" where
  "caught_up c r = \<lparr>rs_applied = 0, rs_caughtUp = c, rs_stalled = False, rs_rolledBack = r\<rparr>"

definition reconcileTip :: "index_codec \<Rightarrow> event_source \<Rightarrow> sync_options \<Rightarrow> 'w chain_source \<Rightarrow> chain_head \<Rightarrow> checkpoint_row \<Rightarrow>
    ('w, sync_result) syncing" where
  "reconcileTip ic es opts chain head tip =
     (let floor = so_startHeight opts - 1
      in io_let (if cp_height tip = hd_height head then io_return (Some (hd_id head))
                 else io_let (ask (cs_blocks chain (hd_height head) 1 (hd_id head))) (\<lambda>bs.
                   io_return (case bs of [] \<Rightarrow> None | b # _ \<Rightarrow> Some (cb_id b)))) (\<lambda>canonicalId.
         look (\<lambda>sy.
         let ours = (if hd_height head > floor then checkpointAt (sy_db sy) (hd_height head) else None)
         in if (case (canonicalId, ours) of (Some c, Some o1) \<Rightarrow> c \<noteq> [] \<and> cp_block_id o1 \<noteq> c | _ \<Rightarrow> False)
            then io_let (change (\<lambda>sy. sy\<lparr>sy_shrunkHead := None\<rparr>)) (\<lambda>_.
                 io_let (sync_rollback ic es opts chain head (hd_height head)) (\<lambda>to.
                 io_return (caught_up False (Some (cp_height tip, to)))))
            else if cp_height tip = hd_height head
            then io_let (change (\<lambda>sy. sy\<lparr>sy_shrunkHead := None\<rparr>)) (\<lambda>_. io_return (caught_up True None))
            else if sy_shrunkHead sy = None
            then io_let (change (\<lambda>sy. sy\<lparr>sy_shrunkHead := Some head\<rparr>)) (\<lambda>_. io_return (caught_up True None))
            else let to = max (hd_height head) floor
              in io_let (roll_db ic es to) (\<lambda>_.
                 io_let (change (\<lambda>sy. sy\<lparr>sy_shrunkHead := None\<rparr>)) (\<lambda>_.
                 io_return (caught_up True (Some (cp_height tip, to))))))))"

definition fetch_and_apply :: "index_codec \<Rightarrow> event_source \<Rightarrow> sync_options \<Rightarrow> 'w chain_source \<Rightarrow> chain_head \<Rightarrow> checkpoint_row option \<Rightarrow>
    ('w, sync_result) syncing" where
  "fetch_and_apply ic es opts chain head tip =
     io_let (change (\<lambda>sy. sy\<lparr>sy_shrunkHead := None\<rparr>)) (\<lambda>_.
     let start = (case tip of Some c \<Rightarrow> cp_height c + 1 | None \<Rightarrow> so_startHeight opts);
         amount = min (so_batchSize opts) (hd_height head - start + 1)
     in io_let (ask (cs_blocks chain start amount (hd_id head))) (\<lambda>bs.
        io_let (apply_blocks ic es opts chain head bs 0 start) (\<lambda>outcome.
        case outcome of
          Inl result \<Rightarrow> finish result
        | Inr (applied, expected) \<Rightarrow>
            let caughtUp = (expected > hd_height head)
            in finish \<lparr>rs_applied = applied, rs_caughtUp = caughtUp, rs_stalled = (\<not> caughtUp \<and> applied = 0), rs_rolledBack = None\<rparr>)))"

definition step_body :: "index_codec \<Rightarrow> event_source \<Rightarrow> sync_options \<Rightarrow> 'w chain_source \<Rightarrow> ('w, sync_result) syncing" where
  "step_body ic es opts chain =
     io_let (verifyChainId opts chain) (\<lambda>_.
     io_let (ask (cs_head chain)) (\<lambda>head.
     io_let (change (\<lambda>sy. sy\<lparr>sy_head := Some head\<rparr>)) (\<lambda>_.
     look (\<lambda>sy.
       case lastCheckpoint (sy_db sy) of
         Some tip \<Rightarrow>
           if cp_height tip \<ge> hd_height head
           then io_let (reconcileTip ic es opts chain head tip) finish
           else fetch_and_apply ic es opts chain head (Some tip)
       | None \<Rightarrow> fetch_and_apply ic es opts chain head None))))"

text \<open>\<open>try { ... } catch (error) { lastError; throw } finally { syncing = false }\<close>\<close>

definition syncOnce :: "index_codec \<Rightarrow> event_source \<Rightarrow> sync_options \<Rightarrow> 'w chain_source \<Rightarrow> ('w, sync_result) syncing" where
  "syncOnce ic es opts chain s =
     (case step_body ic es opts chain ((fst s)\<lparr>sy_syncing := True\<rparr>, snd s) of
        (Inr r, (sy, w)) \<Rightarrow> (Inr r, (sy\<lparr>sy_syncing := False\<rparr>, w))
      | (Inl e, (sy, w)) \<Rightarrow> (Inl e, (sy\<lparr>sy_lastError := Some (error_message e), sy_syncing := False\<rparr>, w)))"

fun sync_rounds :: "index_codec \<Rightarrow> event_source \<Rightarrow> sync_options \<Rightarrow> 'w chain_source \<Rightarrow> nat \<Rightarrow> sync_result \<Rightarrow> ('w, sync_result) syncing" where
  "sync_rounds ic es opts chain 0 result = io_throw (Thrown (utf16 ''syncToHead did not catch up''))"
| "sync_rounds ic es opts chain (Suc n) result =
     io_let (syncOnce ic es opts chain) (\<lambda>r.
     let result' = \<lparr>rs_applied = rs_applied result + rs_applied r, rs_caughtUp = rs_caughtUp r, rs_stalled = rs_stalled r,
           rs_rolledBack = or_else (rs_rolledBack r) (rs_rolledBack result)\<rparr>
     in if rs_caughtUp r \<or> rs_stalled r then io_return result' else sync_rounds ic es opts chain n result')"

definition syncToHead :: "index_codec \<Rightarrow> event_source \<Rightarrow> sync_options \<Rightarrow> 'w chain_source \<Rightarrow> nat option \<Rightarrow> ('w, sync_result) syncing" where
  "syncToHead ic es opts chain maxRounds = sync_rounds ic es opts chain (case maxRounds of None \<Rightarrow> 10000 | Some n \<Rightarrow> n)
     \<lparr>rs_applied = 0, rs_caughtUp = False, rs_stalled = False, rs_rolledBack = None\<rparr>"

section \<open>Reasoning about a computation\<close>

text \<open>
  From a syncer with \<open>P\<close>, \<open>m\<close> ends in one with \<open>Q\<close> of its value, or throws in one with \<open>E\<close>, whatever the world
  answers.
\<close>

definition triple :: "(syncer \<Rightarrow> bool) \<Rightarrow> ('w, 'a) syncing \<Rightarrow> ('a \<Rightarrow> syncer \<Rightarrow> bool) \<Rightarrow> (syncer \<Rightarrow> bool) \<Rightarrow> bool" where
  "triple P m Q E \<longleftrightarrow> (\<forall>s r s'. P (fst s) \<longrightarrow> m s = (r, s') \<longrightarrow> (case r of Inr x \<Rightarrow> Q x (fst s') | Inl e \<Rightarrow> E (fst s')))"

definition possible :: "('w, 'a) io \<Rightarrow> 'a \<Rightarrow> bool" where
  "possible m x \<longleftrightarrow> (\<exists>w w'. m w = (Inr x, w'))"

named_theorems triples \<open>one rule per construct, the precondition kept\<close>

lemma triple_return [triples]: "(\<And>sy. P sy \<Longrightarrow> Q x sy) \<Longrightarrow> triple P (io_return x) Q E"
  by (auto simp: triple_def)

lemma triple_throw [triples]: "(\<And>sy. P sy \<Longrightarrow> E sy) \<Longrightarrow> triple P (io_throw e) Q E"
  by (auto simp: triple_def)

lemma triple_if [triples]: "(c \<Longrightarrow> triple P a Q E) \<Longrightarrow> (\<not> c \<Longrightarrow> triple P b Q E) \<Longrightarrow> triple P (if c then a else b) Q E"
  by simp

lemma triple_ask [triples]:
  "(\<And>sy. P sy \<Longrightarrow> E sy) \<Longrightarrow> (\<And>x. possible m x \<Longrightarrow> triple P (k x) Q E) \<Longrightarrow> triple P (io_let (ask m) k) Q E"
  by (fastforce simp: triple_def ask_def possible_def io_let_def split: prod.splits sum.splits)

lemma triple_change [triples]:
  "(\<And>sy. P sy \<Longrightarrow> P (f sy)) \<Longrightarrow> triple P (k ()) Q E \<Longrightarrow> triple P (io_let (change f) k) Q E"
  by (fastforce simp: triple_def change_def io_let_def)

lemma triple_look [triples]: "(\<And>sy. P sy \<Longrightarrow> triple P (k sy) Q E) \<Longrightarrow> triple P (look k) Q E"
  by (auto simp: triple_def look_def)

lemma triple_last_change: "(\<And>sy. P sy \<Longrightarrow> Q () (f sy)) \<Longrightarrow> triple P (change f) Q E"
  by (auto simp: triple_def change_def)

lemma triple_current: "(\<And>sy. P sy \<Longrightarrow> triple (\<lambda>sy'. sy' = sy) (k sy) Q E) \<Longrightarrow> triple P (look k) Q E"
  by (auto simp: triple_def look_def)

lemma triple_let: "triple P m R E \<Longrightarrow> (\<And>x. triple (R x) (k x) Q E) \<Longrightarrow> triple P (io_let m k) Q E"
  by (fastforce simp: triple_def io_let_def split: prod.splits sum.splits)

lemma triple_let_case [triples]:
  "triple P (if c then io_let (io_return x) k else io_let m k) Q E \<Longrightarrow> triple P (io_let (if c then io_return x else m) k) Q E"
  by (simp split: if_splits)

lemma triple_let_let [triples]: "triple P (io_let m (\<lambda>x. io_let (k x) l)) Q E \<Longrightarrow> triple P (io_let (io_let m k) l) Q E"
  by (simp add: triple_def io_let_def split: prod.splits sum.splits)

lemma triple_option [triples]:
  "(x = None \<Longrightarrow> triple P a Q E) \<Longrightarrow> (\<And>y. x = Some y \<Longrightarrow> triple P (f y) Q E) \<Longrightarrow>
     triple P (case x of None \<Rightarrow> a | Some y \<Rightarrow> f y) Q E"
  by (cases x) simp_all

lemma triple_list [triples]:
  "(x = [] \<Longrightarrow> triple P a Q E) \<Longrightarrow> (\<And>y ys. x = y # ys \<Longrightarrow> triple P (f y ys) Q E) \<Longrightarrow>
     triple P (case x of [] \<Rightarrow> a | y # ys \<Rightarrow> f y ys) Q E"
  by (cases x) simp_all

lemma triple_sum [triples]:
  "(\<And>e. x = Inl e \<Longrightarrow> triple P (f e) Q E) \<Longrightarrow> (\<And>y. x = Inr y \<Longrightarrow> triple P (g y) Q E) \<Longrightarrow>
     triple P (case x of Inl e \<Rightarrow> f e | Inr y \<Rightarrow> g y) Q E"
  by (cases x) simp_all

lemma triple_prod [triples]: "(\<And>y z. x = (y, z) \<Longrightarrow> triple P (f y z) Q E) \<Longrightarrow> triple P (case x of (y, z) \<Rightarrow> f y z) Q E"
  by (cases x) simp

lemma triple_let_return [triples]: "triple P (k x) Q E \<Longrightarrow> triple P (io_let (io_return x) k) Q E"
  by (simp add: triple_def io_let_def)

lemma triple_weaken: "triple P' m Q E \<Longrightarrow> (\<And>sy. P sy \<Longrightarrow> P' sy) \<Longrightarrow> triple P m Q E"
  unfolding triple_def by blast

section \<open>The database stays the index of some blocks\<close>

text \<open>
  \<open>db\<close> indexes a sequence of parsed blocks, and it still holds every checkpoint and log row that \<open>db0\<close> had
  at or below height \<open>k\<close>.
\<close>

definition indexes :: "index_codec \<Rightarrow> event_source \<Rightarrow> sync_options \<Rightarrow> index_db \<Rightarrow> bool" where
  "indexes ic es opts db \<longleftrightarrow> (\<exists>bs. index_of ic (so_startHeight opts) bs = Inr db \<and> (\<forall>b \<in> set bs. block_ok es b))"

definition retains :: "int \<Rightarrow> index_db \<Rightarrow> index_db \<Rightarrow> bool" where
  "retains k db0 db \<longleftrightarrow> (\<forall>c \<in> set (db_checkpoints db0). cp_height c \<le> k \<longrightarrow> c \<in> set (db_checkpoints db)) \<and>
     (\<forall>r \<in> set (db_log db0). rw_height r \<le> k \<longrightarrow> r \<in> set (db_log db))"

definition sound :: "index_codec \<Rightarrow> event_source \<Rightarrow> sync_options \<Rightarrow> int set \<Rightarrow> index_db \<Rightarrow> syncer \<Rightarrow> bool" where
  "sound ic es opts ks db0 sy \<longleftrightarrow> indexes ic es opts (sy_db sy) \<and> (\<forall>k \<in> ks. retains k db0 (sy_db sy))"

lemma sound_same_db: "sy_db sy' = sy_db sy \<Longrightarrow> sound ic es opts ks db0 sy' = sound ic es opts ks db0 sy"
  by (simp add: sound_def)

lemma sound_fields [simp]:
  "sound ic es opts ks db0 (sy\<lparr>sy_chainIdVerified := a\<rparr>) = sound ic es opts ks db0 sy"
  "sound ic es opts ks db0 (sy\<lparr>sy_shrunkHead := b\<rparr>) = sound ic es opts ks db0 sy"
  "sound ic es opts ks db0 (sy\<lparr>sy_head := b\<rparr>) = sound ic es opts ks db0 sy"
  "sound ic es opts ks db0 (sy\<lparr>sy_rpcChainId := c\<rparr>) = sound ic es opts ks db0 sy"
  "sound ic es opts ks db0 (sy\<lparr>sy_chainIdMatch := d\<rparr>) = sound ic es opts ks db0 sy"
  "sound ic es opts ks db0 (sy\<lparr>sy_lastError := e\<rparr>) = sound ic es opts ks db0 sy"
  "sound ic es opts ks db0 (sy\<lparr>sy_stalledSteps := n, sy_lastError := e\<rparr>) = sound ic es opts ks db0 sy"
  "sound ic es opts ks db0 (sy\<lparr>sy_lastError := e, sy_syncing := f\<rparr>) = sound ic es opts ks db0 sy"
  "sound ic es opts ks db0 (sy\<lparr>sy_syncing := f\<rparr>) = sound ic es opts ks db0 sy"
  by (simp_all add: sound_def)

lemma indexes_apply:
  assumes "indexes ic es opts db" and "applyBlock ic (so_startHeight opts) b db = Inr (row, db')" and "block_ok es b"
  shows "indexes ic es opts db'"
proof -
  from assms(1) obtain bs where "index_of ic (so_startHeight opts) bs = Inr db" "\<forall>b \<in> set bs. block_ok es b"
    by (auto simp: indexes_def)
  with assms(2,3) have "index_of ic (so_startHeight opts) (bs @ [b]) = Inr db'" "\<forall>c \<in> set (bs @ [b]). block_ok es c"
    by (auto simp: index_of_snoc)
  then show ?thesis unfolding indexes_def by blast
qed

lemma apply_keeps_rows:
  assumes "applyBlock ic start b db = Inr (row, db')"
  shows "set (db_checkpoints db) \<subseteq> set (db_checkpoints db')" "set (db_log db) \<subseteq> set (db_log db')"
    "db_checkpoints db' = db_checkpoints db @ [row]" "cp_height row = cb_height b"
  using assms by (auto elim!: applyBlock_Inr dest!: apply_events_Inr)

lemma retains_apply: "retains k db0 db \<Longrightarrow> applyBlock ic start b db = Inr (row, db') \<Longrightarrow> retains k db0 db'"
  using apply_keeps_rows unfolding retains_def by blast

lemma indexes_roll:
  assumes "indexes ic es opts db" and "0 \<le> so_startHeight opts" and "rollbackTo ic es h db = Inr (n, db')"
  shows "indexes ic es opts db'"
proof -
  from assms(1) obtain bs where bs: "index_of ic (so_startHeight opts) bs = Inr db" "\<forall>b \<in> set bs. block_ok es b"
    by (auto simp: indexes_def)
  from rollback_prefix [OF bs(1) assms(2) bs(2), of h] assms(3)
  have "index_of ic (so_startHeight opts) (filter (\<lambda>b. cb_height b \<le> h) bs) = Inr db'" by auto
  moreover have "\<forall>b \<in> set (filter (\<lambda>b. cb_height b \<le> h) bs). block_ok es b" using bs(2) by simp
  ultimately show ?thesis unfolding indexes_def by blast
qed

lemma roll_rows:
  assumes "rollbackTo ic es h db = Inr (n, db')"
  shows "db_checkpoints db' = filter (\<lambda>c. \<not> h < cp_height c) (db_checkpoints db)" "db_log db' = filter (\<lambda>r. \<not> h < rw_height r) (db_log db)"
  using assms by (auto simp: rollbackTo_def Let_def)

text \<open>Every log row belongs to a checkpoint.\<close>

lemma log_below_checkpoints:
  assumes "indexes ic es opts db" and "\<forall>c \<in> set (db_checkpoints db). cp_height c \<le> h" and "r \<in> set (db_log db)"
  shows "rw_height r \<le> h"
proof -
  from assms(1) obtain bs where bs: "index_of ic (so_startHeight opts) bs = Inr db" by (auto simp: indexes_def)
  note parts = index_of_parts [OF bs]
  from assms(3) obtain b where "b \<in> set bs" "rw_height r = cb_height b" by (auto simp: parts(4) log_row_def)
  moreover from this have "cb_height b \<in> set (map cp_height (db_checkpoints db))" by (simp add: parts(1))
  ultimately show ?thesis using assms(2) by auto
qed

lemma retains_roll:
  assumes "retains k db0 db" and "indexes ic es opts db" and "rollbackTo ic es h db = Inr (n, db')"
    and "k \<le> h \<or> (\<forall>c \<in> set (db_checkpoints db). cp_height c \<le> h)"
  shows "retains k db0 db'"
  using assms(4)
proof
  assume "k \<le> h"
  with assms(1) show ?thesis by (auto simp: retains_def roll_rows [OF assms(3)])
next
  assume all: "\<forall>c \<in> set (db_checkpoints db). cp_height c \<le> h"
  with assms(1) log_below_checkpoints [OF assms(2) all] show ?thesis
    by (fastforce simp: retains_def roll_rows [OF assms(3)])
qed

text \<open>What a rollback to a height needs to be harmless.\<close>

definition above :: "int set \<Rightarrow> int \<Rightarrow> syncer \<Rightarrow> bool" where
  "above ks to sy \<longleftrightarrow> (\<forall>k \<in> ks. k \<le> to) \<or> (\<forall>c \<in> set (db_checkpoints (sy_db sy)). cp_height c \<le> to)"

lemma above_fields [simp]:
  "above ks to (sy\<lparr>sy_shrunkHead := b\<rparr>) = above ks to sy"
  by (simp add: above_def)

section \<open>The interface of a chain source\<close>

text \<open>Whatever it is asked, a source answers with blocks as parsing gives them.\<close>

locale block_source =
  fixes chain :: "'w chain_source" and es :: event_source and ic :: index_codec and opts :: sync_options
  assumes served_ok: "cs_blocks chain from_height n i w = (Inr bs, w') \<Longrightarrow> \<forall>b \<in> set bs. block_ok es b"
    and start_ok: "0 \<le> so_startHeight opts"
begin

lemma possible_blocks: "possible (cs_blocks chain from_height n i) bs \<Longrightarrow> b \<in> set bs \<Longrightarrow> block_ok es b"
  using served_ok by (fastforce simp: possible_def)

abbreviation kept :: "int set \<Rightarrow> index_db \<Rightarrow> syncer \<Rightarrow> bool" where
  "kept ks db0 \<equiv> sound ic es opts ks db0"

lemma verify_sound: "triple (kept ks db0) (verifyChainId opts chain) (\<lambda>_. kept ks db0) (kept ks db0)"
  unfolding verifyChainId_def
  by (intro triples triple_last_change) simp_all

lemma roll_db_sound: "triple (\<lambda>sy. kept ks db0 sy \<and> above ks to sy) (roll_db ic es to) (\<lambda>_. kept ks db0) (kept ks db0)"
  unfolding roll_db_def
proof (rule triple_current, intro triples triple_last_change)
  fix sy sy' r n db
  assume sy: "kept ks db0 sy \<and> above ks to sy" "sy' = sy" and "rollbackTo ic es to (sy_db sy) = Inr r" "r = (n, db)"
  then have roll: "rollbackTo ic es to (sy_db sy) = Inr (n, db)" by simp
  have "indexes ic es opts db" using sy indexes_roll [OF _ start_ok roll] by (simp add: sound_def)
  moreover have "\<forall>k \<in> ks. retains k db0 db" using sy retains_roll [OF _ _ roll] by (auto simp: sound_def above_def)
  ultimately show "kept ks db0 (sy'\<lparr>sy_db := db, sy_rollbacks := sy_rollbacks sy' + 1\<rparr>)" by (simp add: sound_def)
qed simp

lemma sync_rollback_sound:
  assumes "to = max (min (finalHeight opts head) (fork - 1)) (so_startHeight opts - 1)"
  shows "triple (\<lambda>sy. kept ks db0 sy \<and> above ks to sy) (sync_rollback ic es opts chain head fork) (\<lambda>_. kept ks db0) (kept ks db0)"
proof -
  have roll: "triple (\<lambda>sy. kept ks db0 sy \<and> above ks to sy) (io_let (roll_db ic es to) (\<lambda>_. io_return to)) (\<lambda>_. kept ks db0) (kept ks db0)"
    by (rule triple_let [OF roll_db_sound], rule triple_return)
  show ?thesis
    unfolding sync_rollback_def assms [symmetric] Let_def
    by (intro triples roll) simp_all
qed

definition below :: "int \<Rightarrow> syncer \<Rightarrow> bool" where
  "below h sy \<longleftrightarrow> (\<forall>c \<in> set (db_checkpoints (sy_db sy)). cp_height c < h)"

lemma below_last:
  assumes "lastCheckpoint (sy_db sy) = Some c"
  shows "below (cp_height c + 1) sy"
proof -
  let ?cs = "sort_key (\<lambda>c. - cp_height c) (db_checkpoints (sy_db sy))"
  have "sorted (map (\<lambda>c. - cp_height c) ?cs)" "set ?cs = set (db_checkpoints (sy_db sy))" by simp_all
  moreover obtain cs where "?cs = c # cs" using assms unfolding lastCheckpoint_def by (cases ?cs) simp_all
  ultimately have "sorted (map (\<lambda>c. - cp_height c) (c # cs))" "set (c # cs) = set (db_checkpoints (sy_db sy))" by simp_all
  then show ?thesis unfolding below_def by fastforce
qed

lemma apply_blocks_sound:
  assumes "\<forall>k \<in> ks. k \<le> finalHeight opts head" and "\<forall>b \<in> set bs. block_ok es b"
  shows "triple (\<lambda>sy. kept ks db0 sy \<and> below expected sy) (apply_blocks ic es opts chain head bs applied expected) (\<lambda>_. kept ks db0) (kept ks db0)"
  using assms(2)
proof (induction bs arbitrary: applied expected)
  case Nil
  show ?case unfolding apply_blocks.simps by (intro triples) simp
next
  case (Cons b bs)
  have ih: "triple (\<lambda>sy. kept ks db0 sy \<and> below (expected + 1) sy) (apply_blocks ic es opts chain head bs (applied + 1) (expected + 1))
      (\<lambda>_. kept ks db0) (kept ks db0)" using Cons by simp
  have extend: "triple (\<lambda>sy'. sy' = sy) (case applyBlock ic (so_startHeight opts) b (sy_db sy) of
              Inl e \<Rightarrow> io_throw e
            | Inr (row, db) \<Rightarrow> io_let (change (\<lambda>sy. sy\<lparr>sy_db := db, sy_blocksApplied := sy_blocksApplied sy + 1\<rparr>)) (\<lambda>_.
                apply_blocks ic es opts chain head bs (applied + 1) (expected + 1))) (\<lambda>_. kept ks db0) (kept ks db0)"
    if sy: "kept ks db0 sy \<and> below expected sy" and b: "cb_height b = expected" for sy
  proof (intro triple_sum triple_prod triple_throw)
    fix r row db
    assume "applyBlock ic (so_startHeight opts) b (sy_db sy) = Inr r" "r = (row, db)"
    then have app: "applyBlock ic (so_startHeight opts) b (sy_db sy) = Inr (row, db)" by simp
    have "indexes ic es opts db" "\<forall>k \<in> ks. retains k db0 db"
      using sy Cons.prems indexes_apply [OF _ app] retains_apply [OF _ app] by (auto simp: sound_def)
    moreover have "\<forall>c \<in> set (db_checkpoints db). cp_height c < expected + 1"
      using apply_keeps_rows(3,4) [OF app] sy b by (fastforce simp: below_def)
    ultimately have "kept ks db0 (sy\<lparr>sy_db := db, sy_blocksApplied := n\<rparr>) \<and> below (expected + 1) (sy\<lparr>sy_db := db, sy_blocksApplied := n\<rparr>)" for n
      by (simp add: sound_def below_def)
    then show "triple (\<lambda>sy'. sy' = sy) (io_let (change (\<lambda>sy. sy\<lparr>sy_db := db, sy_blocksApplied := sy_blocksApplied sy + 1\<rparr>)) (\<lambda>_.
                apply_blocks ic es opts chain head bs (applied + 1) (expected + 1))) (\<lambda>_. kept ks db0) (kept ks db0)"
      by (intro triple_let [where R = "\<lambda>_ sy. kept ks db0 sy \<and> below (expected + 1) sy"] triple_last_change) (simp, rule ih)
  qed (use sy in simp)
  show ?case
    unfolding apply_blocks.simps Let_def
  proof (intro triple_if triple_return triple_current)
    fix sy
    assume nb: "\<not> cb_height b \<noteq> expected" and sy: "kept ks db0 sy \<and> below expected sy"
    then have b: "cb_height b = expected" by simp
    define to where "to = max (min (finalHeight opts head) (cb_height b - 1)) (so_startHeight opts - 1)"
    have "above ks to sy"
      using assms(1) sy b by (fastforce simp: above_def to_def below_def)
    then have roll: "triple (\<lambda>sy'. sy' = sy) (sync_rollback ic es opts chain head (cb_height b)) (\<lambda>_. kept ks db0) (kept ks db0)"
      using sy by (intro triple_weaken [OF sync_rollback_sound [OF to_def]]) auto
    note extend = extend [OF sy b]
    show "triple (\<lambda>sy'. sy' = sy) (case checkpointAt (sy_db sy) (cb_height b - 1) of
          None \<Rightarrow> (case applyBlock ic (so_startHeight opts) b (sy_db sy) of
              Inl e \<Rightarrow> io_throw e
            | Inr (row, db) \<Rightarrow> io_let (change (\<lambda>sy. sy\<lparr>sy_db := db, sy_blocksApplied := sy_blocksApplied sy + 1\<rparr>)) (\<lambda>_.
                apply_blocks ic es opts chain head bs (applied + 1) (expected + 1)))
        | Some parent \<Rightarrow>
            if cb_previous b \<noteq> [] \<and> cp_block_id parent \<noteq> cb_previous b
            then io_let (sync_rollback ic es opts chain head (cb_height b)) (\<lambda>to.
              io_return (Inl \<lparr>rs_applied = applied, rs_caughtUp = False, rs_stalled = False, rs_rolledBack = Some (cp_height parent, to)\<rparr>))
            else (case applyBlock ic (so_startHeight opts) b (sy_db sy) of
              Inl e \<Rightarrow> io_throw e
            | Inr (row, db) \<Rightarrow> io_let (change (\<lambda>sy. sy\<lparr>sy_db := db, sy_blocksApplied := sy_blocksApplied sy + 1\<rparr>)) (\<lambda>_.
                apply_blocks ic es opts chain head bs (applied + 1) (expected + 1)))) (\<lambda>_. kept ks db0) (kept ks db0)"
      by (intro triple_option triple_if extend triple_let [OF roll] triple_return) simp_all
  qed simp
qed

lemma finish_sound: "triple (kept ks db0) (finish r) (\<lambda>_. kept ks db0) (kept ks db0)"
  unfolding finish_def by (intro triples) (simp_all add: sound_def)

lemma fetch_sound:
  assumes "\<forall>k \<in> ks. k \<le> finalHeight opts head"
  shows "triple (\<lambda>sy. kept ks db0 sy \<and> lastCheckpoint (sy_db sy) = tip) (fetch_and_apply ic es opts chain head tip) (\<lambda>_. kept ks db0) (kept ks db0)"
  unfolding fetch_and_apply_def Let_def
proof (intro triple_change triple_ask)
  fix bs
  let ?start = "case tip of Some c \<Rightarrow> cp_height c + 1 | None \<Rightarrow> so_startHeight opts"
  assume "possible (cs_blocks chain ?start (min (so_batchSize opts) (hd_height head - ?start + 1)) (hd_id head)) bs"
  then have ok: "\<forall>b \<in> set bs. block_ok es b" using possible_blocks by blast
  have "below ?start sy" if "lastCheckpoint (sy_db sy) = tip" for sy
  proof (cases tip)
    case None
    with that have "db_checkpoints (sy_db sy) = []"
      unfolding lastCheckpoint_def by (cases "sort_key (\<lambda>c. - cp_height c) (db_checkpoints (sy_db sy))") (simp_all, metis length_sort length_0_conv)
    then show ?thesis by (simp add: below_def)
  next
    case (Some c)
    with that below_last show ?thesis by simp
  qed
  then have "triple (\<lambda>sy. kept ks db0 sy \<and> lastCheckpoint (sy_db sy) = tip) (apply_blocks ic es opts chain head bs 0 ?start)
      (\<lambda>_. kept ks db0) (kept ks db0)"
    by (intro triple_weaken [OF apply_blocks_sound [OF assms ok]]) simp
  then show "triple (\<lambda>sy. kept ks db0 sy \<and> lastCheckpoint (sy_db sy) = tip)
     (io_let (apply_blocks ic es opts chain head bs 0 ?start) (\<lambda>outcome.
        case outcome of
          Inl result \<Rightarrow> finish result
        | Inr (applied, expected) \<Rightarrow>
            finish \<lparr>rs_applied = applied, rs_caughtUp = hd_height head < expected,
              rs_stalled = \<not> hd_height head < expected \<and> applied = 0, rs_rolledBack = None\<rparr>)) (\<lambda>_. kept ks db0) (kept ks db0)"
    by (rule triple_let) (intro triple_sum triple_prod finish_sound)
qed (simp_all add: sound_def)

lemma reconcile_sound:
  assumes "\<forall>k \<in> ks. k \<le> finalHeight opts head" and "\<forall>k \<in> ks. k < hd_height head"
  shows "triple (kept ks db0) (reconcileTip ic es opts chain head tip) (\<lambda>_. kept ks db0) (kept ks db0)"
proof -
  define to where "to = max (min (finalHeight opts head) (hd_height head - 1)) (so_startHeight opts - 1)"
  have "\<forall>k \<in> ks. k \<le> to" "\<forall>k \<in> ks. k \<le> max (hd_height head) (so_startHeight opts - 1)"
    using assms unfolding to_def by fastforce+
  then have "above ks to sy" "above ks (max (hd_height head) (so_startHeight opts - 1)) sy" for sy
    by (simp_all add: above_def)
  then have roll: "triple (kept ks db0) (sync_rollback ic es opts chain head (hd_height head)) (\<lambda>_. kept ks db0) (kept ks db0)"
    and trunc: "triple (kept ks db0) (roll_db ic es (max (hd_height head) (so_startHeight opts - 1))) (\<lambda>_. kept ks db0) (kept ks db0)"
    by (auto intro: triple_weaken [OF sync_rollback_sound [OF to_def]] triple_weaken [OF roll_db_sound])
  show ?thesis
    unfolding reconcileTip_def Let_def
    by (intro triples triple_let [OF roll] triple_let [OF trunc]) simp_all
qed

text \<open>The assumption on the heads a source reports.\<close>

definition heads_above :: "int set \<Rightarrow> bool" where
  "heads_above ks \<longleftrightarrow> (\<forall>head. possible (cs_head chain) head \<longrightarrow>
     (\<forall>k \<in> ks. k \<le> finalHeight opts head \<and> k < hd_height head))"

lemma syncOnce_sound:
  assumes "heads_above ks"
  shows "triple (kept ks db0) (syncOnce ic es opts chain) (\<lambda>_. kept ks db0) (kept ks db0)"
proof -
  have "triple (kept ks db0) (step_body ic es opts chain) (\<lambda>_. kept ks db0) (kept ks db0)"
    unfolding step_body_def
  proof (intro triple_let [OF verify_sound] triple_ask triple_change triple_current)
    fix head sy
    assume "possible (cs_head chain) head" and sy: "kept ks db0 sy"
    with assms have k: "\<forall>k \<in> ks. k \<le> finalHeight opts head" "\<forall>k \<in> ks. k < hd_height head" by (auto simp: heads_above_def)
    have fetch: "triple (\<lambda>sy'. sy' = sy) (fetch_and_apply ic es opts chain head tip) (\<lambda>_. kept ks db0) (kept ks db0)"
      if "lastCheckpoint (sy_db sy) = tip" for tip
      using sy that by (intro triple_weaken [OF fetch_sound [OF k(1)]]) simp
    have reconcile: "triple (\<lambda>sy'. sy' = sy) (io_let (reconcileTip ic es opts chain head tip) finish) (\<lambda>_. kept ks db0) (kept ks db0)" for tip
      using sy by (intro triple_let [OF triple_weaken [OF reconcile_sound [OF k]]] finish_sound) simp
    show "triple (\<lambda>sy'. sy' = sy) (case lastCheckpoint (sy_db sy) of
         Some tip \<Rightarrow> if cp_height tip \<ge> hd_height head then io_let (reconcileTip ic es opts chain head tip) finish
           else fetch_and_apply ic es opts chain head (Some tip)
       | None \<Rightarrow> fetch_and_apply ic es opts chain head None) (\<lambda>_. kept ks db0) (kept ks db0)"
      by (intro triple_option triple_if fetch reconcile)
  qed simp_all
  note body = this
  show ?thesis
    unfolding triple_def
  proof (intro allI impI)
    fix s r s'
    assume "kept ks db0 (fst s)" and eq: "syncOnce ic es opts chain s = (r, s')"
    then have before: "kept ks db0 ((fst s)\<lparr>sy_syncing := True\<rparr>)" by simp
    obtain r1 sy w where one: "step_body ic es opts chain ((fst s)\<lparr>sy_syncing := True\<rparr>, snd s) = (r1, (sy, w))"
      by (metis prod_cases3)
    from body [unfolded triple_def, rule_format, OF _ one] before have "kept ks db0 sy" by (cases r1) simp_all
    with eq one show "case r of Inl e \<Rightarrow> kept ks db0 (fst s') | Inr x \<Rightarrow> kept ks db0 (fst s')"
      by (cases r1) (auto simp: syncOnce_def)
  qed
qed

end

text \<open>Any number of steps, those that throw included.\<close>

fun sync_steps :: "index_codec \<Rightarrow> event_source \<Rightarrow> sync_options \<Rightarrow> 'w chain_source \<Rightarrow> nat \<Rightarrow> syncer \<times> 'w \<Rightarrow> syncer \<times> 'w" where
  "sync_steps ic es opts chain 0 s = s"
| "sync_steps ic es opts chain (Suc n) s = sync_steps ic es opts chain n (snd (syncOnce ic es opts chain s))"

context block_source
begin

lemma sync_steps_sound:
  assumes "heads_above ks" and "kept ks db0 (fst s)"
  shows "kept ks db0 (fst (sync_steps ic es opts chain n s))"
  using assms(2)
proof (induction n arbitrary: s)
  case (Suc n)
  obtain r s' where one: "syncOnce ic es opts chain s = (r, s')" by (metis surj_pair)
  from syncOnce_sound [OF assms(1), unfolded triple_def, rule_format, OF Suc.prems one]
  have "kept ks db0 (fst s')" by (cases r) simp_all
  with Suc.IH one show ?case by simp
qed simp

end

section \<open>The source of the indexer\<close>

lemma parse_events_ok:
  "parse_events es tx i n evs = Inr ces \<Longrightarrow> (\<forall>e \<in> set ces. ce_tx e = tx \<and> n \<le> ce_seq e \<and>
     decodeEventDataFixed es (ce_name e) (ce_raw e) = Inr (Some (ce_data e))) \<and> sorted_wrt (<) (map ce_seq ces)"
proof (induction evs arbitrary: n ces)
  case (Cons e evs)
  from Cons.prems obtain d more_events where d: "decodeProtocolEvent es (ej_source e) (ej_name e) (or_empty (ej_data e)) = Inr d"
    and rest: "parse_events es tx i (n + 1) evs = Inr more_events"
    and ces: "ces = (case d of None \<Rightarrow> more_events | Some (contract, data) \<Rightarrow> \<lparr>ce_contract = contract, ce_name = ej_name e, ce_data = data,
              ce_impacted = (case ej_impacted e of None \<Rightarrow> [] | Some xs \<Rightarrow> xs), ce_tx = tx, ce_seq = n,
              ce_tx_id = i, ce_raw = or_empty (ej_data e)\<rparr> # more_events)"
    by auto
  note ih = Cons.IH [OF rest]
  show ?case
  proof (cases d)
    case None
    with ih ces show ?thesis by (auto simp: Suc_le_eq)
  next
    case (Some p)
    obtain contract data where p: "p = (contract, data)" by (cases p) auto
    with d Some have "decodeEventDataFixed es (ej_name e) (or_empty (ej_data e)) = Inr (Some data)" by (auto dest: decoded_again)
    with ih ces Some p show ?thesis by (auto simp: Suc_le_eq)
  qed
qed simp

lemma parse_receipts_ok:
  "parse_receipts es n rs = Inr ces \<Longrightarrow> (\<forall>e \<in> set ces. n \<le> ce_tx e \<and>
     decodeEventDataFixed es (ce_name e) (ce_raw e) = Inr (Some (ce_data e))) \<and> sorted_wrt (<) (map (\<lambda>e. (ce_tx e, ce_seq e)) ces)"
proof (induction rs arbitrary: n ces)
  case (Cons r rs)
  from Cons.prems obtain a b where a: "(if rj_reverted r then Inr [] else parse_events es n (or_empty (rj_id r)) 0
        (case rj_events r of None \<Rightarrow> [] | Some evs \<Rightarrow> evs)) = Inr a"
    and rest: "parse_receipts es (n + 1) rs = Inr b" and ces: "ces = a @ b" by auto
  have "(\<forall>e \<in> set a. ce_tx e = n \<and> decodeEventDataFixed es (ce_name e) (ce_raw e) = Inr (Some (ce_data e))) \<and> sorted_wrt (<) (map ce_seq a)"
    using a by (auto split: if_splits dest: parse_events_ok)
  moreover from this have "sorted_wrt (<) (map (\<lambda>e. (ce_tx e, ce_seq e)) a)"
    by (auto simp: sorted_wrt_map elim!: sorted_wrt_mono_rel [rotated])
  ultimately show ?case using Cons.IH [OF rest] by (fastforce simp: ces sorted_wrt_append)
qed simp

lemma parseBlockItem_ok: "parseBlockItem es item = Inr b \<Longrightarrow> block_ok es b"
  by (auto simp: parseBlockItem_def chain_error_def Let_def block_ok_def dest: parse_receipts_ok split: option.splits if_splits)

lemma parse_items_ok: "parse_items es is = Inr bs \<Longrightarrow> \<forall>b \<in> set bs. block_ok es b"
  by (induction "is" arbitrary: bs) (auto dest: parseBlockItem_ok)

lemma getBlocks_ok:
  assumes "getBlocks pv es from_height n i w = (Inr bs, w')"
  shows "\<forall>b \<in> set bs. block_ok es b"
proof (cases "n \<le> 0")
  case False
  with assms obtain items w1 where "js_let (parse_items es items) (\<lambda>bs.
      Inr (sort_key cb_height (filter (\<lambda>b. from_height \<le> cb_height b \<and> cb_height b < from_height + n) bs))) = (Inr bs :: chain_block list js)"
    by (auto simp: getBlocks_def)
  then show ?thesis by (auto dest: parse_items_ok)
qed (use assms in \<open>simp add: getBlocks_def\<close>)

interpretation koinos: block_source "KoinosChain pv es" es ic "new_options start i batch window" for pv es ic start i batch window
  by unfold_locales (auto simp: KoinosChain_def new_options_def dest: getBlocks_ok)

definition new_syncer :: "index_db \<Rightarrow> syncer" where
  "new_syncer db = \<lparr>sy_db = db, sy_chainIdVerified = False, sy_shrunkHead = None, sy_head = None, sy_rpcChainId = None,
     sy_chainIdMatch = None, sy_lastError = None, sy_rollbacks = 0, sy_blocksApplied = 0, sy_stalledSteps = 0, sy_syncing = False\<rparr>"

lemma index_of_empty [simp]: "index_of ic start [] = Inr empty_db"
  by (simp add: index_of_def)

text \<open>
  C6: Whatever the node answers (forks, gaps, wrong heights, heads that move back, errors) and however
  often the loop runs, the database of an indexer that started empty is the one that indexing some
  sequence of parsed blocks from scratch gives: log, checkpoints, state hashes and query tables
  are a function of the blocks, and no rollback leaves a trace.
\<close>

theorem database_is_index_of_blocks:
  "\<exists>bs. index_of ic (max 1 start) bs =
       Inr (sy_db (fst (sync_steps ic es (new_options start i batch window) (KoinosChain pv es) n (new_syncer empty_db, w)))) \<and>
     list_all (block_ok es) bs"
proof -
  let ?opts = "new_options start i batch window"
  have "indexes ic es ?opts empty_db" unfolding indexes_def by (intro exI [of _ "[]"]) simp
  then have "sound ic es ?opts {} empty_db (fst (new_syncer empty_db, w))" by (simp add: sound_def new_syncer_def)
  from koinos.sync_steps_sound [OF _ this] have "indexes ic es ?opts
      (sy_db (fst (sync_steps ic es ?opts (KoinosChain pv es) n (new_syncer empty_db, w))))"
    by (simp add: koinos.heads_above_def sound_def)
  then show ?thesis by (simp add: indexes_def new_options_def list_all_iff)
qed

text \<open>
  C15: Final blocks are never dropped: while every head the node reports is above height \<open>k\<close> and gives \<open>k\<close> as
  final, each checkpoint and each log row at or below \<open>k\<close> survives any number of steps, those
  that throw included.
\<close>

theorem final_blocks_survive:
  assumes "\<forall>head. possible (getHead pv) head \<longrightarrow>
       k \<le> finalHeight (new_options start i batch window) head \<and> k < hd_height head"
    and "indexes ic es (new_options start i batch window) (sy_db sy)"
    and "sy' = fst (sync_steps ic es (new_options start i batch window) (KoinosChain pv es) n (sy, w))"
  shows "(\<forall>c \<in> set (db_checkpoints (sy_db sy)). cp_height c \<le> k \<longrightarrow> c \<in> set (db_checkpoints (sy_db sy'))) \<and>
    (\<forall>r \<in> set (db_log (sy_db sy)). rw_height r \<le> k \<longrightarrow> r \<in> set (db_log (sy_db sy')))"
proof -
  let ?opts = "new_options start i batch window"
  have "sound ic es ?opts {k} (sy_db sy) (fst (sy, w))" using assms(2) by (simp add: sound_def retains_def)
  moreover have "cs_head (KoinosChain pv es) = getHead pv" by (simp add: KoinosChain_def)
  then have "block_source.heads_above (KoinosChain pv es) ?opts {k}" using assms(1) by (simp add: koinos.heads_above_def)
  ultimately have "sound ic es ?opts {k} (sy_db sy) sy'" unfolding assms(3) by (intro koinos.sync_steps_sound)
  then show ?thesis by (simp add: sound_def retains_def)
qed

definition quiet_node :: "unit provider" where
  "quiet_node = \<lparr>pv_head_info = io_return \<lparr>hi_height = Some (utf16 ''9''), hi_id = [67], hi_lib = Some (utf16 ''4''), hi_time = None\<rparr>,
     pv_blocks = (\<lambda>f n i. io_return []), pv_chain_id = io_return []\<rparr>"

lemma quiet_height: "js_number (Some (utf16 ''9'')) = Some 9" "js_number (Some (utf16 ''4'')) = Some 4"
  by code_simp+

theorem final_blocks_survive_witness:
  "\<exists>db. index_of demo_codec 1 [plain_block 1 65 64, plain_block 2 66 65] = Inr db \<and>
     (\<forall>c \<in> set (db_checkpoints db). cp_height c \<le> 4 \<longrightarrow> c \<in> set (db_checkpoints (sy_db (fst
        (sync_steps demo_codec plain_events (new_options 1 None None None) (KoinosChain quiet_node plain_events) 3 (new_syncer db, ()))))))"
proof -
  obtain db where db: "index_of demo_codec 1 [plain_block 1 65 64, plain_block 2 66 65] = Inr db" using plain_indexed by blast
  have "indexes demo_codec plain_events (new_options 1 None None None) (sy_db (new_syncer db))"
    unfolding indexes_def
    by (rule exI [of _ "[plain_block 1 65 64, plain_block 2 66 65]"]) (simp add: db new_syncer_def new_options_def plain_block_ok)
  moreover have "\<forall>head. possible (getHead quiet_node) head \<longrightarrow>
      4 \<le> finalHeight (new_options 1 None None None) head \<and> 4 < hd_height head"
    by (auto simp: possible_def getHead_def quiet_node_def io_let_def quiet_height finalHeight_def new_options_def)
  ultimately show ?thesis
    using final_blocks_survive [of quiet_node 4 1 None None None demo_codec plain_events "new_syncer db" _ 3 "()"] db
    by (auto simp: new_syncer_def)
qed

section \<open>A node of another network\<close>

text \<open>A step over a node of another network.\<close>

lemma wrong_chain_step:
  assumes other: "\<forall>x. possible (cs_chain_id chain) x \<longrightarrow> so_chainId opts \<noteq> Some x" and "so_chainId opts \<noteq> None"
    and "\<not> sy_chainIdVerified (fst s)"
  shows "\<exists>e s'. syncOnce ic es opts chain s = (Inl e, s') \<and> sy_db (fst s') = sy_db (fst s) \<and> \<not> sy_chainIdVerified (fst s') \<and>
    sy_lastError (fst s') = Some (error_message e)"
proof -
  obtain expected where expected: "so_chainId opts = Some expected" using assms(2) by auto
  obtain r w where one: "cs_chain_id chain (snd s) = (r, w)" by fastforce
  show ?thesis
  proof (cases r)
    case (Inl e)
    with assms(3) one show ?thesis
      by (simp add: syncOnce_def step_body_def verifyChainId_def look_def ask_def io_let_def)
  next
    case (Inr x)
    with one have "possible (cs_chain_id chain) x" by (auto simp: possible_def)
    with other expected have "x \<noteq> expected" by auto
    with Inr one expected assms(3) show ?thesis
      by (simp add: syncOnce_def step_body_def verifyChainId_def look_def ask_def io_let_def change_def)
  qed
qed

lemma wrong_chain_steps:
  assumes "\<forall>x. possible (cs_chain_id chain) x \<longrightarrow> so_chainId opts \<noteq> Some x" and "so_chainId opts \<noteq> None"
    and "\<not> sy_chainIdVerified (fst s)"
  shows "sy_db (fst (sync_steps ic es opts chain n s)) = sy_db (fst s) \<and>
    \<not> sy_chainIdVerified (fst (sync_steps ic es opts chain n s))"
  using assms(3)
proof (induction n arbitrary: s)
  case (Suc n)
  from wrong_chain_step [OF assms(1,2) Suc.prems] obtain e s' where
    "syncOnce ic es opts chain s = (Inl e, s')" "sy_db (fst s') = sy_db (fst s)" "\<not> sy_chainIdVerified (fst s')" by blast
  with Suc.IH [of s'] show ?case by simp
qed simp

text \<open>
  C39: A node of another network indexes nothing: before the chain id has been verified once, and while
  the node never reports the expected one, every step throws and records the error, and log, checkpoints and
  tables stay as they were, however often the loop runs. (Once verified, the id is not asked for again.)
\<close>

theorem wrong_network_indexes_nothing:
  assumes "\<forall>x. possible (pv_chain_id pv) x \<longrightarrow> x \<noteq> expected" and "\<not> sy_chainIdVerified sy"
  shows "sy_db (fst (sync_steps ic es (new_options start (Some expected) batch window) (KoinosChain pv es) n (sy, w))) = sy_db sy \<and>
    (\<exists>e s'. syncOnce ic es (new_options start (Some expected) batch window) (KoinosChain pv es)
        (sync_steps ic es (new_options start (Some expected) batch window) (KoinosChain pv es) n (sy, w)) = (Inl e, s') \<and>
      sy_lastError (fst s') = Some (error_message e) \<and> sy_db (fst s') = sy_db sy)"
proof -
  let ?opts = "new_options start (Some expected) batch window"
  have other: "\<forall>x. possible (cs_chain_id (KoinosChain pv es)) x \<longrightarrow> so_chainId ?opts \<noteq> Some x" "so_chainId ?opts \<noteq> None"
    using assms(1) by (auto simp: KoinosChain_def new_options_def)
  have "\<not> sy_chainIdVerified (fst (sy, w))" using assms(2) by simp
  note kept = wrong_chain_steps [OF other this, of ic es n]
  from wrong_chain_step [OF other conjunct2 [OF kept], of ic es] kept show ?thesis by auto
qed

theorem wrong_network_indexes_nothing_witness:
  "sy_db (fst (sync_steps demo_codec plain_events (new_options 1 (Some [65]) None None) (KoinosChain quiet_node plain_events) 7
     (new_syncer empty_db, ()))) = empty_db"
proof -
  have "\<forall>x. possible (pv_chain_id quiet_node) x \<longrightarrow> x \<noteq> [65]" by (simp add: possible_def quiet_node_def)
  from wrong_network_indexes_nothing [OF this, of "new_syncer empty_db"] show ?thesis by (simp add: new_syncer_def)
qed

section \<open>A fork at the final height\<close>

text \<open>
  \<open>sync_rollback\<close> is meant to refuse a fork that is not above the final height. Its first test can not fail
  for a fork at an indexed height, because the target is always below the fork.
\<close>

lemma rollback_test_idle:
  "so_startHeight opts \<le> fork \<Longrightarrow> max (min (finalHeight opts head) (fork - 1)) (so_startHeight opts - 1) < fork"
  by linarith

definition demo_checkpoint :: "int \<Rightarrow> u16 \<Rightarrow> checkpoint_row" where
  "demo_checkpoint h i = \<lparr>cp_height = h, cp_block_id = [i], cp_previous_id = [], cp_timestamp = [], cp_state_hash = [], cp_event_count = 0\<rparr>"

definition demo_index :: index_db where
  "demo_index = \<lparr>db_checkpoints = [demo_checkpoint 1 65, demo_checkpoint 2 66], db_log = [], db_tables = no_tables\<rparr>"

definition demo_head :: chain_head where
  "demo_head = \<lparr>hd_height = 2, hd_id = [67], hd_lib = Some 2, hd_time = []\<rparr>"

definition demo_source :: "unit chain_source" where
  "demo_source = \<lparr>cs_head = io_return demo_head,
     cs_blocks = (\<lambda>f n i. io_return (filter (\<lambda>b. f \<le> cb_height b \<and> cb_height b < f + n)
       [\<lparr>cb_height = 1, cb_id = [65], cb_previous = [64], cb_timestamp = [], cb_events = []\<rparr>,
        \<lparr>cb_height = 2, cb_id = [67], cb_previous = [65], cb_timestamp = [], cb_events = []\<rparr>])),
     cs_chain_id = io_return []\<rparr>"

lemma replay_nothing: "replayProjections ic es [] = Inr (no_tables, 0)"
  by (simp add: replayProjections_def, subst replay_from.simps) (simp add: rows_after_def)

text \<open>The node's head is at height 2, which is also its last irreversible height; its block there is another one.\<close>

theorem fork_at_final_height_rolled_back:
  "finalHeight (new_options 1 None None None) demo_head = 2 \<and>
   (case syncOnce ic es (new_options 1 None None None) demo_source (new_syncer demo_index, ()) of
      (r, sy, w) \<Rightarrow> r = Inr (caught_up False (Some (2, 1))) \<and> db_checkpoints (sy_db sy) = [demo_checkpoint 1 65])"
  by (simp add: finalHeight_def new_options_def demo_head_def demo_source_def demo_index_def demo_checkpoint_def new_syncer_def
      syncOnce_def step_body_def verifyChainId_def look_def ask_def change_def io_let_def lastCheckpoint_def checkpointAt_def
      reconcileTip_def sync_rollback_def roll_db_def rollbackTo_def replay_nothing finish_def caught_up_def Let_def)

end
