(* ===== verification/Sync_Progress.thy ===== *)
theory Sync_Progress
  imports Syncer
begin

text \<open>
  Progress of the sync loop: over a node that serves one chain, an indexer whose blocks at or below the
  final height are that chain's reaches the head, whatever fork it was on, and ends with the
  database that indexing the chain from scratch gives.
\<close>

section \<open>Computations that return\<close>

definition returns :: "(syncer \<Rightarrow> bool) \<Rightarrow> ('w, 'a) syncing \<Rightarrow> ('a \<Rightarrow> syncer \<Rightarrow> bool) \<Rightarrow> bool" where
  "returns P m Q \<longleftrightarrow> (\<forall>s. P (fst s) \<longrightarrow> (\<exists>x s'. m s = (Inr x, s') \<and> Q x (fst s')))"

text \<open>In every world \<open>m\<close> answers \<open>v\<close>.\<close>

definition answers :: "('w, 'a) io \<Rightarrow> 'a \<Rightarrow> bool" where
  "answers m v \<longleftrightarrow> (\<forall>w. \<exists>w'. m w = (Inr v, w'))"

lemma returns_return: "(\<And>sy. P sy \<Longrightarrow> Q x sy) \<Longrightarrow> returns P (io_return x) Q"
  by (auto simp: returns_def)

lemma returns_ask: "answers m v \<Longrightarrow> returns P (k v) Q \<Longrightarrow> returns P (io_let (ask m) k) Q"
  unfolding returns_def
proof (intro allI impI)
  fix s :: "syncer \<times> 'a"
  assume m: "answers m v" and k: "\<forall>s. P (fst s) \<longrightarrow> (\<exists>x s'. k v s = (Inr x, s') \<and> Q x (fst s'))" and "P (fst s)"
  obtain w' where "m (snd s) = (Inr v, w')" using m by (auto simp: answers_def)
  moreover obtain x s' where "k v (fst s, w') = (Inr x, s')" "Q x (fst s')" using k \<open>P (fst s)\<close> by (metis fst_conv)
  ultimately show "\<exists>x s'. io_let (ask m) k s = (Inr x, s') \<and> Q x (fst s')"
    by (simp add: io_let_def ask_def)
qed

lemma returns_change: "(\<And>sy. P sy \<Longrightarrow> P' (f sy)) \<Longrightarrow> returns P' (k ()) Q \<Longrightarrow> returns P (io_let (change f) k) Q"
  by (fastforce simp: returns_def change_def io_let_def)

lemma returns_last_change: "(\<And>sy. P sy \<Longrightarrow> Q () (f sy)) \<Longrightarrow> returns P (change f) Q"
  by (auto simp: returns_def change_def)

lemma returns_look: "(\<And>sy. P sy \<Longrightarrow> returns (\<lambda>sy'. sy' = sy) (k sy) Q) \<Longrightarrow> returns P (look k) Q"
  by (auto simp: returns_def look_def)

lemma returns_let: "returns P m R \<Longrightarrow> (\<And>x. returns (R x) (k x) Q) \<Longrightarrow> returns P (io_let m k) Q"
  unfolding returns_def
proof (intro allI impI)
  fix s :: "syncer \<times> 'a"
  assume m: "\<forall>s. P (fst s) \<longrightarrow> (\<exists>x s'. m s = (Inr x, s') \<and> R x (fst s'))" and "P (fst s)"
    and k: "\<And>x. \<forall>s. R x (fst s) \<longrightarrow> (\<exists>y s'. k x s = (Inr y, s') \<and> Q y (fst s'))"
  then obtain x s' where "m s = (Inr x, s')" "R x (fst s')" by blast
  moreover from this k obtain y s'' where "k x s' = (Inr y, s'')" "Q y (fst s'')" by blast
  ultimately show "\<exists>y s'. io_let m k s = (Inr y, s') \<and> Q y (fst s')" by (simp add: io_let_def)
qed

lemma returns_weaken: "returns P' m Q' \<Longrightarrow> (\<And>sy. P sy \<Longrightarrow> P' sy) \<Longrightarrow> (\<And>x sy. Q' x sy \<Longrightarrow> Q x sy) \<Longrightarrow> returns P m Q"
  unfolding returns_def by blast

lemma returns_let_return: "returns P (io_let (io_return x) k) Q = returns P (k x) Q"
  by (simp add: returns_def io_let_def)

lemma returns_pure: "(c \<Longrightarrow> returns P m Q) \<Longrightarrow> returns (\<lambda>sy. P sy \<and> c) m Q"
  by (auto simp: returns_def)

lemma finish_returns: "returns (\<lambda>sy. P (sy_db sy)) (finish r) (\<lambda>r' sy. r' = r \<and> P (sy_db sy))"
  unfolding finish_def by (rule returns_change [where P' = "\<lambda>sy. P (sy_db sy)"], simp, rule returns_return) simp

section \<open>An honest node\<close>

text \<open>Block ids are digests: a stored block with the id of a block of the chain is that block.\<close>

definition same_ids :: "chain_block list \<Rightarrow> chain_block list \<Rightarrow> bool" where
  "same_ids canon bs \<longleftrightarrow> (\<forall>b \<in> set bs. \<forall>c \<in> set canon. cb_id b = cb_id c \<longrightarrow> b = c)"

text \<open>What an indexer may hold: at most as many blocks as the chain has, the chain's own up to the final height.\<close>

definition recoverable :: "event_source \<Rightarrow> sync_options \<Rightarrow> chain_head \<Rightarrow> chain_block list \<Rightarrow> chain_block list \<Rightarrow> bool" where
  "recoverable es opts head canon bs \<longleftrightarrow> same_ids canon bs \<and> (\<forall>b \<in> set bs. block_ok es b) \<and> length bs \<le> length canon \<and>
     (\<forall>i < length bs. so_startHeight opts + int i \<le> finalHeight opts head \<longrightarrow> cb_id (bs ! i) = cb_id (canon ! i))"

locale honest_source =
  fixes chain :: "'w chain_source" and es :: event_source and ic :: index_codec and opts :: sync_options
    and head :: chain_head and canon :: "chain_block list" and dbc :: index_db and rpc_id :: ustring
  assumes answers_head: "answers (cs_head chain) head"
    and answers_blocks: "answers (cs_blocks chain f n i) (filter (\<lambda>b. f \<le> cb_height b \<and> cb_height b < f + n) canon)"
    and answers_id: "answers (cs_chain_id chain) rpc_id" and same_chain: "so_chainId opts = None \<or> so_chainId opts = Some rpc_id"
    and indexed: "index_of ic (so_startHeight opts) canon = Inr dbc" and parsed: "\<forall>b \<in> set canon. block_ok es b"
    and linked: "\<forall>b \<in> set canon. cb_previous b \<noteq> [] \<and> cb_id b \<noteq> []"
    and tip: "canon \<noteq> []" "hd_height head = cb_height (last canon)" "hd_id head = cb_id (last canon)"
    and final_below: "finalHeight opts head < hd_height head"
    and start: "0 \<le> so_startHeight opts" and batch: "1 \<le> so_batchSize opts"
begin

abbreviation "first_height \<equiv> so_startHeight opts"

lemma canon_height: "i < length canon \<Longrightarrow> cb_height (canon ! i) = first_height + int i"
proof -
  assume i: "i < length canon"
  have "map cb_height canon ! i = map (\<lambda>i. first_height + int i) [0..<length canon] ! i"
    by (simp only: index_of_parts(2) [OF indexed])
  with i show ?thesis by simp
qed

lemma head_height: "hd_height head = first_height + int (length canon) - 1"
  using canon_height [of "length canon - 1"] tip by (simp add: last_conv_nth of_nat_diff Suc_le_eq)

lemma index_at:
  assumes "index_of ic first_height bs = Inr db"
  shows "length (db_checkpoints db) = length bs"
    and "i < length bs \<Longrightarrow> cp_height (db_checkpoints db ! i) = first_height + int i \<and> cp_block_id (db_checkpoints db ! i) = cb_id (bs ! i)"
proof -
  note parts = index_of_parts [OF assms]
  show len: "length (db_checkpoints db) = length bs" using parts(1) by (metis length_map)
  assume i: "i < length bs"
  have "map cp_height (db_checkpoints db) ! i = map (\<lambda>i. first_height + int i) [0..<length bs] ! i"
    "map cp_block_id (db_checkpoints db) ! i = map cb_id bs ! i" by (simp_all only: parts(1,2,3))
  with i len show "cp_height (db_checkpoints db ! i) = first_height + int i \<and> cp_block_id (db_checkpoints db ! i) = cb_id (bs ! i)"
    by simp
qed

lemma checkpoint_found:
  assumes "index_of ic first_height bs = Inr db"
  shows "checkpointAt db h = (if first_height \<le> h \<and> h < first_height + int (length bs)
     then Some (db_checkpoints db ! nat (h - first_height)) else None)"
proof (cases "first_height \<le> h \<and> h < first_height + int (length bs)")
  case True
  let ?i = "nat (h - first_height)"
  have i: "?i < length (db_checkpoints db)" "cp_height (db_checkpoints db ! ?i) = h"
    using True index_at [OF assms] by auto
  have "\<not> cp_height (db_checkpoints db ! j) = h" if "j < ?i" for j
    using that i(1) index_at(2) [OF assms, of j] index_at(1) [OF assms] by auto
  with True i show ?thesis by (auto simp: checkpointAt_def find_Some_iff)
next
  case False
  have "cp_height c \<noteq> h" if "c \<in> set (db_checkpoints db)" for c
    using that False index_at [OF assms] by (auto simp: in_set_conv_nth)
  with False show ?thesis by (auto simp: checkpointAt_def find_None_iff)
qed

lemma last_found:
  assumes "index_of ic first_height bs = Inr db"
  shows "lastCheckpoint db = (if bs = [] then None else Some (db_checkpoints db ! (length bs - 1)))"
    and "bs \<noteq> [] \<Longrightarrow> cp_height (db_checkpoints db ! (length bs - 1)) = first_height + int (length bs) - 1"
proof -
  note parts = index_of_parts [OF assms]
  have "sorted_wrt (<) (map cp_height (db_checkpoints db))" unfolding parts(1,2) by (simp add: sorted_wrt_map sorted_wrt_upt)
  from last_checkpoint_last [OF this] index_at(1) [OF assms]
  show "lastCheckpoint db = (if bs = [] then None else Some (db_checkpoints db ! (length bs - 1)))"
    by (auto simp: last_conv_nth)
  assume "bs \<noteq> []"
  then show "cp_height (db_checkpoints db ! (length bs - 1)) = first_height + int (length bs) - 1"
    using index_at(2) [OF assms, of "length bs - 1"] by (simp add: of_nat_diff Suc_le_eq)
qed

text \<open>The next block of the chain extends the database of the ones before.\<close>

lemma apply_next:
  assumes "n < length canon" and "index_of ic first_height (take n canon) = Inr db"
  obtains row db' where "applyBlock ic first_height (canon ! n) db = Inr (row, db')"
    "index_of ic first_height (take (Suc n) canon) = Inr db'"
proof -
  have "index_of ic first_height (take (Suc n) canon @ drop (Suc n) canon) = Inr dbc" by (simp add: indexed)
  then obtain db' where "index_of ic first_height (take (Suc n) canon) = Inr db'"
    by (auto simp: index_of_def index_from_append simp del: append_take_drop_id)
  moreover from this have "index_of ic first_height (take n canon @ [canon ! n]) = Inr db'"
    using assms(1) by (simp add: take_Suc_conv_app_nth)
  ultimately show thesis using that assms(2) by (auto simp: index_of_snoc)
qed

lemma canon_link:
  assumes "Suc n < length canon"
  shows "cb_previous (canon ! Suc n) = cb_id (canon ! n)"
proof -
  have "index_of ic first_height (take (Suc n) canon @ drop (Suc n) canon) = Inr dbc" by (simp add: indexed)
  then obtain db where db: "index_of ic first_height (take (Suc n) canon) = Inr db"
    by (auto simp: index_of_def index_from_append simp del: append_take_drop_id)
  obtain row db' where "applyBlock ic first_height (canon ! Suc n) db = Inr (row, db')" by (rule apply_next [OF assms db])
  moreover have "lastCheckpoint db = Some (db_checkpoints db ! n)" using last_found(1) [OF db] assms by auto
  moreover have "cp_block_id (db_checkpoints db ! n) = cb_id (canon ! n)" using index_at(2) [OF db, of n] assms by simp
  moreover have "cb_previous (canon ! Suc n) \<noteq> []" using linked assms by simp
  ultimately show ?thesis by (auto elim!: applyBlock_Inr)
qed

section \<open>Steps on the chain\<close>

lemma served:
  assumes "n \<le> length canon"
  shows "filter (\<lambda>b. first_height + int n \<le> cb_height b \<and> cb_height b < first_height + int n + int m) canon = take m (drop n canon)"
proof -
  let ?P = "\<lambda>b. first_height + int n \<le> cb_height b \<and> cb_height b < first_height + int n + int m"
  have split: "canon = take n canon @ take m (drop n canon) @ drop m (drop n canon)"
    by (metis append_take_drop_id)
  have "filter ?P (take n canon) = []"
    using assms by (auto simp: filter_empty_conv in_set_conv_nth canon_height)
  moreover have "filter ?P (take m (drop n canon)) = take m (drop n canon)"
    using assms by (auto simp: filter_id_conv in_set_conv_nth canon_height)
  moreover have "filter ?P (drop m (drop n canon)) = []"
    using assms by (auto simp: filter_empty_conv in_set_conv_nth canon_height)
  ultimately show ?thesis by (subst split) (simp only: filter_append append_Nil append_Nil2)
qed

lemma apply_served:
  assumes "n + m \<le> length canon" and "index_of ic first_height (take n canon) = Inr db"
  shows "returns (\<lambda>sy. sy_db sy = db) (apply_blocks ic es opts chain head (take m (drop n canon)) applied (first_height + int n))
    (\<lambda>r sy. index_of ic first_height (take (n + m) canon) = Inr (sy_db sy) \<and> r = Inr (applied + m, first_height + int (n + m)))"
  using assms
proof (induction m arbitrary: n db applied)
  case 0
  then show ?case by (auto simp: returns_def)
next
  case (Suc m)
  then have n: "n < length canon" by simp
  obtain row db' where app: "applyBlock ic first_height (canon ! n) db = Inr (row, db')"
    and db': "index_of ic first_height (take (Suc n) canon) = Inr db'" by (rule apply_next [OF n Suc.prems(2)])
  have "cb_previous (canon ! n) = cp_block_id parent" if "checkpointAt db (cb_height (canon ! n) - 1) = Some parent" for parent
  proof (cases n)
    case 0
    with that checkpoint_found [OF Suc.prems(2)] canon_height [OF n] show ?thesis by simp
  next
    case (Suc i)
    then have "parent = db_checkpoints db ! i"
      using that checkpoint_found [OF Suc.prems(2)] canon_height [OF n] n by (simp split: if_splits)
    with index_at(2) [OF Suc.prems(2), of i] canon_link [of i] Suc n show ?thesis by simp
  qed
  then have link: "\<not> (cb_previous (canon ! n) \<noteq> [] \<and> cp_block_id parent \<noteq> cb_previous (canon ! n))"
    if "checkpointAt db (cb_height (canon ! n) - 1) = Some parent" for parent
    using that by auto
  have rest: "returns (\<lambda>sy. sy_db sy = db') (apply_blocks ic es opts chain head (take m (drop (Suc n) canon)) (applied + 1) (first_height + int n + 1))
    (\<lambda>r sy. index_of ic first_height (take (n + Suc m) canon) = Inr (sy_db sy) \<and> r = Inr (applied + Suc m, first_height + int (n + Suc m)))"
    using Suc.IH [OF _ db', of "applied + 1"] Suc.prems(1) by (simp add: algebra_simps)
  have split: "take (Suc m) (drop n canon) = canon ! n # take m (drop (Suc n) canon)"
    using n by (simp add: Cons_nth_drop_Suc [symmetric])
  show ?case
    unfolding split apply_blocks.simps Let_def
  proof (simp only: canon_height [OF n] not_True_eq_False simp_thms if_False, rule returns_look)
    fix sy :: syncer
    assume sy: "sy_db sy = db"
    have extend: "returns (\<lambda>sy'. sy' = sy) (case applyBlock ic first_height (canon ! n) (sy_db sy) of
              Inl e \<Rightarrow> io_throw e
            | Inr (row, db) \<Rightarrow> io_let (change (\<lambda>sy. sy\<lparr>sy_db := db, sy_blocksApplied := sy_blocksApplied sy + 1\<rparr>)) (\<lambda>_.
                apply_blocks ic es opts chain head (take m (drop (Suc n) canon)) (applied + 1) (first_height + int n + 1)))
       (\<lambda>r sy. index_of ic first_height (take (n + Suc m) canon) = Inr (sy_db sy) \<and> r = Inr (applied + Suc m, first_height + int (n + Suc m)))"
      unfolding sy app by (simp, rule returns_change [where P' = "\<lambda>sy. sy_db sy = db'"]) (simp, use rest in simp)
    show "returns (\<lambda>sy'. sy' = sy) (case checkpointAt (sy_db sy) (first_height + int n - 1) of
          None \<Rightarrow> (case applyBlock ic first_height (canon ! n) (sy_db sy) of
              Inl e \<Rightarrow> io_throw e
            | Inr (row, db) \<Rightarrow> io_let (change (\<lambda>sy. sy\<lparr>sy_db := db, sy_blocksApplied := sy_blocksApplied sy + 1\<rparr>)) (\<lambda>_.
                apply_blocks ic es opts chain head (take m (drop (Suc n) canon)) (applied + 1) (first_height + int n + 1)))
        | Some parent \<Rightarrow>
            if cb_previous (canon ! n) \<noteq> [] \<and> cp_block_id parent \<noteq> cb_previous (canon ! n)
            then io_let (sync_rollback ic es opts chain head (first_height + int n)) (\<lambda>to.
              io_return (Inl \<lparr>rs_applied = applied, rs_caughtUp = False, rs_stalled = False, rs_rolledBack = Some (cp_height parent, to)\<rparr>))
            else (case applyBlock ic first_height (canon ! n) (sy_db sy) of
              Inl e \<Rightarrow> io_throw e
            | Inr (row, db) \<Rightarrow> io_let (change (\<lambda>sy. sy\<lparr>sy_db := db, sy_blocksApplied := sy_blocksApplied sy + 1\<rparr>)) (\<lambda>_.
                apply_blocks ic es opts chain head (take m (drop (Suc n) canon)) (applied + 1) (first_height + int n + 1))))
       (\<lambda>r sy. index_of ic first_height (take (n + Suc m) canon) = Inr (sy_db sy) \<and> r = Inr (applied + Suc m, first_height + int (n + Suc m)))"
      using link extend sy canon_height [OF n] by (auto split: option.split)
  qed
qed

lemma verify_returns: "returns (\<lambda>sy. sy_db sy = db) (verifyChainId opts chain) (\<lambda>_ sy. sy_db sy = db)"
proof -
  have "returns (\<lambda>sy. sy_db sy = db) (io_let (ask (cs_chain_id chain)) (\<lambda>rpcChainId.
       io_let (change (\<lambda>sy. sy\<lparr>sy_rpcChainId := Some rpcChainId\<rparr>)) (\<lambda>_.
       case so_chainId opts of
         None \<Rightarrow> change (\<lambda>sy. sy\<lparr>sy_chainIdVerified := True\<rparr>)
       | Some expected \<Rightarrow>
           io_let (change (\<lambda>sy. sy\<lparr>sy_chainIdMatch := Some (rpcChainId = expected)\<rparr>)) (\<lambda>_.
           if rpcChainId \<noteq> expected
           then io_throw (Thrown (utf16 ''chain id mismatch: the node reports '' @ rpcChainId @
             utf16 '' but the deployment manifest expects '' @ expected @ utf16 ''; refusing to index''))
           else change (\<lambda>sy. sy\<lparr>sy_chainIdVerified := True\<rparr>))))) (\<lambda>_ sy. sy_db sy = db)"
  proof (intro returns_ask [OF answers_id] returns_change [where P' = "\<lambda>sy. sy_db sy = db"])
    show "returns (\<lambda>sy. sy_db sy = db) (case so_chainId opts of
         None \<Rightarrow> change (\<lambda>sy. sy\<lparr>sy_chainIdVerified := True\<rparr>)
       | Some expected \<Rightarrow>
           io_let (change (\<lambda>sy. sy\<lparr>sy_chainIdMatch := Some (rpc_id = expected)\<rparr>)) (\<lambda>_.
           if rpc_id \<noteq> expected
           then io_throw (Thrown (utf16 ''chain id mismatch: the node reports '' @ rpc_id @
             utf16 '' but the deployment manifest expects '' @ expected @ utf16 ''; refusing to index''))
           else change (\<lambda>sy. sy\<lparr>sy_chainIdVerified := True\<rparr>))) (\<lambda>_ sy. sy_db sy = db)"
      using same_chain
      by (auto intro!: returns_last_change returns_change [where P' = "\<lambda>sy. sy_db sy = db"])
  qed simp
  then show ?thesis
    unfolding verifyChainId_def
    by (intro returns_look) (auto intro: returns_return returns_weaken)
qed

text \<open>The step of an indexer whose tip is a block of the chain below the head.\<close>

definition batch_of :: nat where "batch_of = nat (so_batchSize opts)"

lemma fetch_returns:
  assumes "n < length canon" and "index_of ic first_height (take n canon) = Inr db"
    and "start_height = first_height + int n"
    and "start_height = (case t of Some c \<Rightarrow> cp_height c + 1 | None \<Rightarrow> first_height)"
  shows "returns (\<lambda>sy. sy_db sy = db) (fetch_and_apply ic es opts chain head t)
    (\<lambda>r sy. index_of ic first_height (take (n + batch_of) canon) = Inr (sy_db sy) \<and> \<not> rs_stalled r \<and>
      (rs_caughtUp r \<longleftrightarrow> length canon \<le> n + batch_of))"
proof -
  define m where "m = min batch_of (length canon - n)"
  have amount: "min (so_batchSize opts) (hd_height head - start_height + 1) = int m"
    using assms(1,3) batch by (simp add: m_def head_height batch_of_def of_nat_diff min_def nat_le_iff)
  have m: "0 < m" "n + m \<le> length canon" using assms(1) batch by (auto simp: m_def batch_of_def)
  have taken: "take (n + m) canon = take (n + batch_of) canon"
    using assms(1) by (auto simp: m_def min_def)
  have up: "hd_height head < first_height + (int n + int m) \<longleftrightarrow> length canon \<le> n + batch_of"
    using assms(1) by (auto simp: m_def head_height)
  have blocks: "filter (\<lambda>b. start_height \<le> cb_height b \<and> cb_height b < start_height + int m) canon = take m (drop n canon)"
    using served [of n m] assms(1,3) by simp
  note app = apply_served [OF m(2) assms(2), of 0]
  show ?thesis
    unfolding fetch_and_apply_def Let_def assms(4) [symmetric] amount
    by (rule returns_change [where P' = "\<lambda>sy. sy_db sy = db"], simp, rule returns_ask [OF answers_blocks])
      (unfold blocks, rule returns_let [OF app [folded assms(3)]], rule returns_pure, use m(1) in \<open>simp add: up taken,
        intro returns_weaken [OF finish_returns [where P = "\<lambda>db. index_of ic first_height (take (n + batch_of) canon) = Inr db"]]\<close>, auto)
qed

text \<open>Where the stored blocks agree with the chain.\<close>

lemma stored_link:
  assumes "index_of ic first_height bs = Inr db" and "Suc i < length bs" and "cb_previous (bs ! Suc i) \<noteq> []"
  shows "cb_previous (bs ! Suc i) = cb_id (bs ! i)"
proof -
  have "index_of ic first_height (take (Suc (Suc i)) bs @ drop (Suc (Suc i)) bs) = Inr db" by (simp add: assms(1))
  then obtain db2 where "index_of ic first_height (take (Suc (Suc i)) bs) = Inr db2"
    by (auto simp: index_of_def index_from_append simp del: append_take_drop_id)
  moreover have "take (Suc (Suc i)) bs = take (Suc i) bs @ [bs ! Suc i]" using assms(2) by (simp add: take_Suc_conv_app_nth)
  ultimately obtain db1 row where db1: "index_of ic first_height (take (Suc i) bs) = Inr db1"
    and app: "applyBlock ic first_height (bs ! Suc i) db1 = Inr (row, db2)" by (auto simp: index_of_snoc)
  have "lastCheckpoint db1 = Some (db_checkpoints db1 ! i)" using last_found(1) [OF db1] assms(2) by auto
  moreover have "cp_block_id (db_checkpoints db1 ! i) = cb_id (bs ! i)" using index_at(2) [OF db1, of i] assms(2) by simp
  ultimately show ?thesis using app assms(3) by (auto elim!: applyBlock_Inr)
qed

lemma agree_down:
  assumes "index_of ic first_height bs = Inr db" and "same_ids canon bs"
    and "i < length bs" and "i < length canon" and "bs ! i = canon ! i" and "j \<le> i"
  shows "bs ! j = canon ! j"
  using assms(3-6)
proof (induction i)
  case (Suc i)
  show ?case
  proof (cases "j = Suc i")
    case False
    have "cb_id (bs ! i) = cb_id (canon ! i)"
      using stored_link [OF assms(1), of i] canon_link [of i] Suc.prems linked by (metis nth_mem)
    with assms(2) Suc.prems have "bs ! i = canon ! i" unfolding same_ids_def by (meson Suc_lessD nth_mem)
    with Suc False show ?thesis by simp
  qed (use Suc in simp)
qed simp

lemma agree_take:
  assumes "index_of ic first_height bs = Inr db" and "same_ids canon bs" and "0 < n" and "n \<le> length bs" and "n \<le> length canon"
    and "cb_id (bs ! (n - 1)) = cb_id (canon ! (n - 1))"
  shows "take n bs = take n canon"
proof (rule nth_equalityI)
  have "n - 1 < length bs" "n - 1 < length canon" using assms(3-5) by auto
  with assms(2,6) have "bs ! (n - 1) = canon ! (n - 1)" unfolding same_ids_def by (meson nth_mem)
  then show "take n bs ! i = take n canon ! i" if "i < length (take n bs)" for i
    using agree_down [OF assms(1,2), of "n - 1" i] that assms(3-5) by simp
qed (use assms in simp)

lemma filter_low:
  assumes "index_of ic first_height bs = Inr db" and "\<And>i. first_height + int i \<le> h \<longleftrightarrow> i < n"
  shows "filter (\<lambda>b. cb_height b \<le> h) bs = take n bs"
proof -
  have height: "cb_height (bs ! i) \<le> h \<longleftrightarrow> i < n" if "i < length bs" for i
  proof -
    have "map cb_height bs ! i = map (\<lambda>i. first_height + int i) [0..<length bs] ! i"
      by (simp only: index_of_parts(2) [OF assms(1)])
    with that have "cb_height (bs ! i) = first_height + int i" by simp
    then show ?thesis by (simp only: assms(2))
  qed
  have "cb_height b \<le> h" if "b \<in> set (take n bs)" for b
    using that height by (auto simp: in_set_conv_nth)
  moreover have "\<not> cb_height b \<le> h" if b: "b \<in> set (drop n bs)" for b
  proof -
    from b obtain i where "i < length bs - n" "b = bs ! (n + i)" by (auto simp: in_set_conv_nth)
    with height [of "n + i"] show ?thesis by simp
  qed
  ultimately have "filter (\<lambda>b. cb_height b \<le> h) (take n bs @ drop n bs) = take n bs"
    unfolding filter_append by (simp add: filter_id_conv filter_empty_conv del: append_take_drop_id)
  then show ?thesis by simp
qed

definition on_chain :: "nat \<Rightarrow> index_db \<Rightarrow> bool" where
  "on_chain n db \<longleftrightarrow> n \<le> length canon \<and> index_of ic first_height (take n canon) = Inr db"

definition final_blocks :: nat where
  "final_blocks = nat (finalHeight opts head + 1 - first_height)"

lemma rollback_returns:
  assumes "index_of ic first_height bs = Inr db" and "recoverable es opts head canon bs"
    and "finalHeight opts head < fork" and "first_height \<le> fork" and "final_blocks < length bs"
  shows "returns (\<lambda>sy. sy_db sy = db) (sync_rollback ic es opts chain head fork) (\<lambda>_ sy. on_chain final_blocks (sy_db sy))"
proof -
  define to where "to = max (min (finalHeight opts head) (fork - 1)) (first_height - 1)"
  have to: "to = max (finalHeight opts head) (first_height - 1)" "to < fork" using assms(3,4) by (auto simp: to_def)
  have small: "final_blocks \<le> length canon" using assms(2,5) by (simp add: recoverable_def)
  have same: "take final_blocks bs = take final_blocks canon"
  proof (cases "final_blocks = 0")
    case False
    then have "int (final_blocks - 1) = finalHeight opts head - first_height" by (auto simp: final_blocks_def)
    then have "cb_id (bs ! (final_blocks - 1)) = cb_id (canon ! (final_blocks - 1))"
      using assms(2,5) False by (simp add: recoverable_def)
    then show ?thesis using assms(2,5) small False by (intro agree_take [OF assms(1)]) (auto simp: recoverable_def)
  qed simp
  have "filter (\<lambda>b. cb_height b \<le> to) bs = take final_blocks bs"
    by (rule filter_low [OF assms(1)]) (auto simp: to(1) final_blocks_def)
  moreover obtain db' n where "rollbackTo ic es to db = Inr (n, db')"
    "index_of ic first_height (filter (\<lambda>b. cb_height b \<le> to) bs) = Inr db'"
    using rollback_prefix [OF assms(1) start, of es to] assms(2) by (auto simp: recoverable_def)
  ultimately have db': "rollbackTo ic es to db = Inr (n, db')" "on_chain final_blocks db'"
    using small by (simp_all add: same on_chain_def)
  have roll: "returns (\<lambda>sy'. sy' = sy) (io_let (roll_db ic es to) (\<lambda>_. io_return to)) (\<lambda>_ sy. on_chain final_blocks (sy_db sy))"
    if "sy_db sy = db" for sy
    unfolding roll_db_def
    by (rule returns_let [where R = "\<lambda>_ sy. on_chain final_blocks (sy_db sy)"])
      (auto simp: db' that intro!: returns_look returns_last_change returns_return)
  have canonical: "\<exists>c cs. filter (\<lambda>b. to \<le> cb_height b \<and> cb_height b < to + 1) canon = c # cs \<and> cb_id c = cp_block_id ours"
    if "checkpointAt db to = Some ours" "first_height \<le> to" for ours
  proof -
    have n: "to = first_height + int (final_blocks - 1)" "final_blocks - 1 < length bs" "0 < final_blocks"
      using that(2) assms(5) to(1) by (auto simp: final_blocks_def)
    have "ours = db_checkpoints db ! (final_blocks - 1)" using that n(1,2) by (simp add: checkpoint_found [OF assms(1)])
    then have "cp_block_id ours = cb_id (take final_blocks bs ! (final_blocks - 1))"
      using index_at(2) [OF assms(1), of "final_blocks - 1"] n by simp
    also have "\<dots> = cb_id (canon ! (final_blocks - 1))" unfolding same using n(3) by simp
    finally have id: "cp_block_id ours = cb_id (canon ! (final_blocks - 1))" .
    have "take 1 (drop (final_blocks - 1) canon) = [canon ! (final_blocks - 1)]"
      using small n(3) by (simp add: Cons_nth_drop_Suc [symmetric])
    then show ?thesis using served [of "final_blocks - 1" 1] small n(1) id by simp
  qed
  have checked: "returns (\<lambda>sy'. sy' = sy) (io_let (ask (cs_blocks chain to 1 (hd_id head))) (\<lambda>bs. case bs of
        [] \<Rightarrow> io_throw (e (utf16 ''unknown''))
      | c # _ \<Rightarrow> if cb_id c \<noteq> cp_block_id ours then io_throw (e (cb_id c)) else io_let (roll_db ic es to) (\<lambda>_. io_return to)))
      (\<lambda>_ sy. on_chain final_blocks (sy_db sy))"
    if "sy_db sy = db" "checkpointAt db to = Some ours" "first_height \<le> to" for sy ours e
    by (rule returns_ask [OF answers_blocks]) (use canonical [OF that(2,3)] roll [OF that(1)] in auto)
  show ?thesis
    unfolding sync_rollback_def Let_def to_def [symmetric]
    using to(2) by (auto intro!: returns_look roll checked split: option.split)
qed

section \<open>One step\<close>

text \<open>A step on the chain, and a step from a fork.\<close>

definition step_goal :: "nat \<Rightarrow> sync_result \<Rightarrow> index_db \<Rightarrow> bool" where
  "step_goal n r db \<longleftrightarrow> \<not> rs_stalled r \<and> (if length canon \<le> n + batch_of then rs_caughtUp r \<and> db = dbc
     else \<not> rs_caughtUp r \<and> on_chain (n + batch_of) db)"

definition fork_goal :: "sync_result \<Rightarrow> index_db \<Rightarrow> bool" where
  "fork_goal r db \<longleftrightarrow> \<not> rs_stalled r \<and> \<not> rs_caughtUp r \<and> on_chain final_blocks db"

lemma step_below_head:
  assumes "on_chain n db" and "n < length canon"
    and "first_height + int n = (case t of Some c \<Rightarrow> cp_height c + 1 | None \<Rightarrow> first_height)"
  shows "returns (\<lambda>sy. sy_db sy = db) (fetch_and_apply ic es opts chain head t) (\<lambda>r sy. step_goal n r (sy_db sy))"
proof -
  have "index_of ic first_height (take n canon) = Inr db" using assms(1) by (simp add: on_chain_def)
  from fetch_returns [OF assms(2) this refl assms(3)] show ?thesis
    by (rule returns_weaken) (auto simp: step_goal_def on_chain_def indexed)
qed

lemma step_at_head:
  assumes "on_chain (length canon) db" and "lastCheckpoint db = Some t"
  shows "returns (\<lambda>sy. sy_db sy = db) (reconcileTip ic es opts chain head t) (\<lambda>r sy. step_goal (length canon) r (sy_db sy))"
proof -
  have db: "index_of ic first_height canon = Inr db" using assms(1) by (simp add: on_chain_def)
  with indexed have [simp]: "db = dbc" by simp
  have "t = db_checkpoints db ! (length canon - 1)" using assms(2) last_found(1) [OF db] tip(1) by simp
  with index_at(2) [OF db, of "length canon - 1"] tip
  have t: "cp_height t = hd_height head" "cp_block_id t = hd_id head"
    by (simp_all add: head_height of_nat_diff Suc_le_eq last_conv_nth)
  have "checkpointAt db (hd_height head) = Some t"
    using checkpoint_found [OF db] tip(1) \<open>t = _\<close> by (simp add: head_height nat_diff_distrib Suc_le_eq)
  then show ?thesis
    unfolding reconcileTip_def Let_def
    by (auto simp: t io_let_def returns_def look_def change_def caught_up_def step_goal_def)
qed

text \<open>The first height at which a fork shows is above the final height.\<close>

lemma fork_above_final:
  assumes "index_of ic first_height bs = Inr db" and "recoverable es opts head canon bs" and "bs \<noteq> take (length bs) canon"
  shows "finalHeight opts head < first_height + int (length bs) - 1" "final_blocks < length bs" "bs \<noteq> []"
    "cb_id (bs ! (length bs - 1)) \<noteq> cb_id (canon ! (length bs - 1))"
proof -
  show ne: "bs \<noteq> []" using assms(3) by auto
  show tip: "cb_id (bs ! (length bs - 1)) \<noteq> cb_id (canon ! (length bs - 1))"
    using agree_take [OF assms(1), of "length bs"] assms(2,3) ne by (auto simp: recoverable_def)
  have "\<not> first_height + int (length bs - 1) \<le> finalHeight opts head"
    using tip assms(2) ne by (auto simp: recoverable_def)
  moreover have "int (length bs - 1) = int (length bs) - 1" using ne by (simp add: of_nat_diff Suc_le_eq)
  ultimately show "finalHeight opts head < first_height + int (length bs) - 1" by simp
  moreover have "0 < length bs" using ne by simp
  ultimately show "final_blocks < length bs" unfolding final_blocks_def by arith
qed

lemma step_from_fork_below:
  assumes "index_of ic first_height bs = Inr db" and "recoverable es opts head canon bs" and "bs \<noteq> take (length bs) canon"
    and "length bs < length canon" and "lastCheckpoint db = Some t"
  shows "returns (\<lambda>sy. sy_db sy = db) (fetch_and_apply ic es opts chain head (Some t)) (\<lambda>r sy. fork_goal r (sy_db sy))"
proof -
  let ?n = "length bs" and ?next = "canon ! length bs"
  note fork = fork_above_final [OF assms(1-3)]
  have t: "cp_height t = first_height + int ?n - 1" "cp_block_id t = cb_id (bs ! (?n - 1))"
    using last_found [OF assms(1)] index_at(2) [OF assms(1), of "?n - 1"] assms(5) fork(3) by auto
  define m where "m = min batch_of (length canon - ?n)"
  have amount: "min (so_batchSize opts) (hd_height head - (cp_height t + 1) + 1) = int m"
    using assms(4) batch t by (simp add: m_def head_height batch_of_def of_nat_diff min_def nat_le_iff)
  have "0 < m" using assms(4) batch by (auto simp: m_def batch_of_def)
  then obtain rest where "take m (drop ?n canon) = ?next # rest"
    using assms(4) by (cases m) (auto simp: Cons_nth_drop_Suc [symmetric])
  then have blocks: "filter (\<lambda>b. cp_height t + 1 \<le> cb_height b \<and> cb_height b < cp_height t + 1 + int m) canon = ?next # rest"
    using served [of ?n m] assms(4) t(1) by simp
  have next_height: "cb_height ?next = cp_height t + 1" using canon_height [OF assms(4)] t(1) by simp
  have parent: "checkpointAt db (cb_height ?next - 1) = Some t"
    using checkpoint_found [OF assms(1)] last_found(1) [OF assms(1)] assms(5) fork(3) t(1) next_height
    by (simp add: nat_diff_distrib Suc_le_eq)
  have "cb_previous ?next = cb_id (canon ! (?n - 1))" using canon_link [of "?n - 1"] assms(4) fork(3) by simp
  then have differs: "cb_previous ?next \<noteq> [] \<and> cp_block_id t \<noteq> cb_previous ?next"
    using linked assms(4) fork(4) t(2) by auto
  have roll: "returns (\<lambda>sy. sy_db sy = db) (sync_rollback ic es opts chain head (cb_height ?next)) (\<lambda>_ sy. on_chain final_blocks (sy_db sy))"
    by (rule rollback_returns [OF assms(1,2)]) (use fork next_height t(1) in auto)
  show ?thesis
    unfolding fetch_and_apply_def Let_def option.case amount
  proof (rule returns_change [where P' = "\<lambda>sy. sy_db sy = db"], simp, rule returns_ask [OF answers_blocks], unfold blocks,
      rule returns_let [where R = "\<lambda>r sy. on_chain final_blocks (sy_db sy) \<and> (\<exists>res. r = Inl res \<and> \<not> rs_caughtUp res \<and> \<not> rs_stalled res)"])
    show "returns (\<lambda>sy. sy_db sy = db) (apply_blocks ic es opts chain head (?next # rest) 0 (cp_height t + 1))
      (\<lambda>r sy. on_chain final_blocks (sy_db sy) \<and> (\<exists>res. r = Inl res \<and> \<not> rs_caughtUp res \<and> \<not> rs_stalled res))"
      unfolding apply_blocks.simps Let_def next_height [symmetric]
      by (simp, intro returns_look)
        (simp add: parent differs, rule returns_let [where R = "\<lambda>_ sy. on_chain final_blocks (sy_db sy)"],
          rule returns_weaken [OF roll], auto intro: returns_return)
  next
    fix x :: "sync_result + nat \<times> int"
    show "returns (\<lambda>sy. on_chain final_blocks (sy_db sy) \<and> (\<exists>res. x = Inl res \<and> \<not> rs_caughtUp res \<and> \<not> rs_stalled res))
        (case x of Inl result \<Rightarrow> finish result
         | Inr (applied, expected) \<Rightarrow> finish \<lparr>rs_applied = applied, rs_caughtUp = hd_height head < expected,
              rs_stalled = \<not> hd_height head < expected \<and> applied = 0, rs_rolledBack = None\<rparr>) (\<lambda>r sy. fork_goal r (sy_db sy))"
      by (rule returns_pure, elim exE conjE, simp)
        (rule returns_weaken [OF finish_returns [where P = "on_chain final_blocks"]], auto simp: fork_goal_def)
  qed
qed

lemma step_from_fork_at_head:
  assumes "index_of ic first_height bs = Inr db" and "recoverable es opts head canon bs" and "bs \<noteq> take (length bs) canon"
    and "length bs = length canon" and "lastCheckpoint db = Some t"
  shows "returns (\<lambda>sy. sy_db sy = db) (reconcileTip ic es opts chain head t) (\<lambda>r sy. fork_goal r (sy_db sy))"
proof -
  note fork = fork_above_final [OF assms(1-3)]
  have t: "cp_height t = hd_height head" "cp_block_id t \<noteq> hd_id head"
    using last_found [OF assms(1)] index_at(2) [OF assms(1), of "length bs - 1"] assms(4,5) fork(3,4) tip
    by (auto simp: head_height last_conv_nth)
  have "checkpointAt db (hd_height head) = Some t"
    using checkpoint_found [OF assms(1)] last_found(1) [OF assms(1)] assms(4,5) fork(3) tip(1)
    by (simp add: head_height nat_diff_distrib Suc_le_eq)
  moreover have "hd_id head \<noteq> []" using linked tip by simp
  moreover have "so_startHeight opts - 1 < hd_height head" using tip(1) by (simp add: head_height Suc_le_eq)
  moreover have "returns (\<lambda>sy. sy_db sy = db) (sync_rollback ic es opts chain head (hd_height head)) (\<lambda>_ sy. on_chain final_blocks (sy_db sy))"
    by (rule rollback_returns [OF assms(1,2)]) (use fork final_below tip(1) in \<open>auto simp: head_height Suc_le_eq\<close>)
  note roll = this
  moreover have "returns (\<lambda>sy. sy_db sy = db) (io_let (sync_rollback ic es opts chain head (hd_height head)) (\<lambda>to.
      io_return (caught_up False (Some (hd_height head, to))))) (\<lambda>r sy. fork_goal r (sy_db sy))"
    by (rule returns_let [OF roll], rule returns_return) (simp add: fork_goal_def caught_up_def)
  note rolled = this
  ultimately show ?thesis
    unfolding reconcileTip_def Let_def
    by (simp add: t returns_let_return, intro returns_look)
      (simp add: t, intro returns_change [where P' = "\<lambda>sy. sy_db sy = db"], simp, rule rolled)
qed

text \<open>\<open>syncOnce\<close> is \<open>step_body\<close> with the flags around it.\<close>

lemma syncOnce_returns:
  assumes "\<And>t. lastCheckpoint db = t \<Longrightarrow> returns (\<lambda>sy. sy_db sy = db) (case t of
         Some tip \<Rightarrow> if cp_height tip \<ge> hd_height head then io_let (reconcileTip ic es opts chain head tip) finish
           else fetch_and_apply ic es opts chain head (Some tip)
       | None \<Rightarrow> fetch_and_apply ic es opts chain head None) (\<lambda>r sy. Q r (sy_db sy))"
  shows "returns (\<lambda>sy. sy_db sy = db) (syncOnce ic es opts chain) (\<lambda>r sy. Q r (sy_db sy))"
proof -
  have body: "returns (\<lambda>sy. sy_db sy = db) (step_body ic es opts chain) (\<lambda>r sy. Q r (sy_db sy))"
    unfolding step_body_def
    by (intro returns_let [OF verify_returns] returns_ask [OF answers_head] returns_change [where P' = "\<lambda>sy. sy_db sy = db"] returns_look)
      (auto intro!: returns_weaken [OF assms])
  show ?thesis
    unfolding returns_def
  proof (intro allI impI)
    fix s :: "syncer \<times> 'w"
    assume "sy_db (fst s) = db"
    then obtain x s' where "step_body ic es opts chain ((fst s)\<lparr>sy_syncing := True\<rparr>, snd s) = (Inr x, s')" "Q x (sy_db (fst s'))"
      using body [unfolded returns_def, rule_format, of "((fst s)\<lparr>sy_syncing := True\<rparr>, snd s)"] by auto
    then show "\<exists>x s'. syncOnce ic es opts chain s = (Inr x, s') \<and> Q x (sy_db (fst s'))"
      by (cases s') (auto simp: syncOnce_def)
  qed
qed

lemma finish_after: "returns P m (\<lambda>r sy. Q r (sy_db sy)) \<Longrightarrow> returns P (io_let m finish) (\<lambda>r sy. Q r (sy_db sy))"
  by (rule returns_let, assumption, rule returns_weaken [OF finish_returns]) auto

lemma step_on_chain:
  assumes "on_chain n db"
  shows "returns (\<lambda>sy. sy_db sy = db) (syncOnce ic es opts chain) (\<lambda>r sy. step_goal n r (sy_db sy))"
proof (rule syncOnce_returns)
  fix t
  assume t: "lastCheckpoint db = t"
  have db: "n \<le> length canon" "index_of ic first_height (take n canon) = Inr db" using assms by (auto simp: on_chain_def)
  note last = last_found [OF db(2)]
  show "returns (\<lambda>sy. sy_db sy = db) (case t of
         Some tip \<Rightarrow> if cp_height tip \<ge> hd_height head then io_let (reconcileTip ic es opts chain head tip) finish
           else fetch_and_apply ic es opts chain head (Some tip)
       | None \<Rightarrow> fetch_and_apply ic es opts chain head None) (\<lambda>r sy. step_goal n r (sy_db sy))"
  proof (cases "n = 0")
    case True
    with last(1) t have "t = None" by simp
    with True step_below_head [OF assms, of None] tip(1) show ?thesis by simp
  next
    case False
    with last t db(1) tip(1) obtain c where c: "t = Some c" "cp_height c = first_height + int n - 1" by auto
    show ?thesis
    proof (cases "n = length canon")
      case True
      with step_at_head assms t c show ?thesis by (auto simp: head_height intro!: finish_after)
    next
      case below: False
      with step_below_head [OF assms, of t] db(1) c show ?thesis by (simp add: head_height)
    qed
  qed
qed

lemma step_from_fork:
  assumes "index_of ic first_height bs = Inr db" and "recoverable es opts head canon bs" and "bs \<noteq> take (length bs) canon"
  shows "returns (\<lambda>sy. sy_db sy = db) (syncOnce ic es opts chain) (\<lambda>r sy. fork_goal r (sy_db sy))"
proof (rule syncOnce_returns)
  fix t
  assume t: "lastCheckpoint db = t"
  note last = last_found [OF assms(1)]
  have "bs \<noteq> []" using fork_above_final [OF assms] by simp
  with last t obtain c where c: "t = Some c" "cp_height c = first_height + int (length bs) - 1" by auto
  have "length bs \<le> length canon" using assms(2) by (simp add: recoverable_def)
  then show "returns (\<lambda>sy. sy_db sy = db) (case t of
         Some tip \<Rightarrow> if cp_height tip \<ge> hd_height head then io_let (reconcileTip ic es opts chain head tip) finish
           else fetch_and_apply ic es opts chain head (Some tip)
       | None \<Rightarrow> fetch_and_apply ic es opts chain head None) (\<lambda>r sy. fork_goal r (sy_db sy))"
    using step_from_fork_below [OF assms] step_from_fork_at_head [OF assms] t c
    by (auto simp: head_height intro!: finish_after)
qed

section \<open>To the head\<close>

lemma rounds_on_chain:
  assumes "on_chain n db" and "length canon < n + k"
  shows "returns (\<lambda>sy. sy_db sy = db) (sync_rounds ic es opts chain k r) (\<lambda>r sy. rs_caughtUp r \<and> sy_db sy = dbc)"
  using assms
proof (induction k arbitrary: n db r)
  case (Suc k)
  show ?case
    unfolding sync_rounds.simps Let_def
  proof (rule returns_let [OF step_on_chain [OF Suc.prems(1)]])
    fix x
    show "returns (\<lambda>sy. step_goal n x (sy_db sy)) (if rs_caughtUp x \<or> rs_stalled x
        then io_return \<lparr>rs_applied = rs_applied r + rs_applied x, rs_caughtUp = rs_caughtUp x, rs_stalled = rs_stalled x,
           rs_rolledBack = or_else (rs_rolledBack x) (rs_rolledBack r)\<rparr>
        else sync_rounds ic es opts chain k \<lparr>rs_applied = rs_applied r + rs_applied x, rs_caughtUp = rs_caughtUp x, rs_stalled = rs_stalled x,
           rs_rolledBack = or_else (rs_rolledBack x) (rs_rolledBack r)\<rparr>) (\<lambda>r sy. rs_caughtUp r \<and> sy_db sy = dbc)"
    proof (cases "length canon \<le> n + batch_of")
      case True
      then show ?thesis by (auto simp: step_goal_def returns_def)
    next
      case False
      have "returns (\<lambda>sy. sy_db sy = db1) (sync_rounds ic es opts chain k r') (\<lambda>r sy. rs_caughtUp r \<and> sy_db sy = dbc)"
        if "on_chain (n + batch_of) db1" for db1 r'
        using that Suc.prems(2) batch by (intro Suc.IH) (auto simp: batch_of_def)
      with False show ?thesis by (auto simp: step_goal_def returns_def)
    qed
  qed
qed (use assms in \<open>simp add: on_chain_def\<close>)

lemma reaches_head:
  assumes "index_of ic first_height bs = Inr db" and "recoverable es opts head canon bs" and "length canon + 2 \<le> k"
  shows "returns (\<lambda>sy. sy_db sy = db) (sync_rounds ic es opts chain k r) (\<lambda>r sy. rs_caughtUp r \<and> sy_db sy = dbc)"
proof (cases "bs = take (length bs) canon")
  case True
  with assms have "on_chain (length bs) db" by (simp add: on_chain_def recoverable_def)
  with assms(3) show ?thesis by (intro rounds_on_chain) simp_all
next
  case False
  obtain j where k: "k = Suc j" "length canon < j" using assms(3) by (cases k) auto
  have rest: "returns (\<lambda>sy. sy_db sy = db1) (sync_rounds ic es opts chain j r') (\<lambda>r sy. rs_caughtUp r \<and> sy_db sy = dbc)"
    if "on_chain final_blocks db1" for db1 r'
    using that k(2) by (intro rounds_on_chain) simp_all
  show ?thesis
    unfolding k(1) sync_rounds.simps Let_def
    by (rule returns_let [OF step_from_fork [OF assms(1,2) False]])
      (use rest in \<open>fastforce simp: fork_goal_def returns_def\<close>)
qed

end

section \<open>Over the indexer's own chain source\<close>

text \<open>
  A node that serves the chain \<open>canon\<close>: it reports \<open>head\<close>, which is the last block and above its final
  height, and answers every request for blocks with items that parse to the requested range.
\<close>

definition node_serves :: "'w provider \<Rightarrow> event_source \<Rightarrow> sync_options \<Rightarrow> chain_head \<Rightarrow> chain_block list \<Rightarrow> ustring \<Rightarrow> bool" where
  "node_serves pv es opts head canon rpc_id \<longleftrightarrow>
     answers (getHead pv) head \<and> answers (pv_chain_id pv) rpc_id \<and> (so_chainId opts = None \<or> so_chainId opts = Some rpc_id) \<and>
     (\<forall>f n i. 0 < n \<longrightarrow> (\<exists>items. answers (pv_blocks pv f n i) items \<and>
        parse_items es items = Inr (filter (\<lambda>b. f \<le> cb_height b \<and> cb_height b < f + n) canon))) \<and>
     (\<forall>b \<in> set canon. cb_previous b \<noteq> [] \<and> cb_id b \<noteq> []) \<and>
     canon \<noteq> [] \<and> hd_height head = cb_height (last canon) \<and> hd_id head = cb_id (last canon) \<and>
     finalHeight opts head < hd_height head"

lemma node_is_honest:
  assumes serves: "node_serves pv es (new_options start i batch window) head canon rpc_id"
    and index: "index_of ic (max 1 start) canon = Inr dbc"
  shows "honest_source (KoinosChain pv es) es ic (new_options start i batch window) head canon dbc rpc_id"
proof
  let ?opts = "new_options start i batch window"
  note node = serves [unfolded node_serves_def]
  note heights = index_of_parts(2) [OF index]
  have "sorted (map cb_height canon)" unfolding heights by (simp add: sorted_wrt_map sorted_wrt_upt)
  then have ascending: "sorted (map cb_height (filter P canon))" for P by (rule sorted_filter)
  have range: "answers (getBlocks pv es f n h) (filter (\<lambda>b. f \<le> cb_height b \<and> cb_height b < f + n) canon)" for f n h
  proof (cases "0 < n")
    case True
    with node obtain items where "answers (pv_blocks pv f n h) items"
      "parse_items es items = Inr (filter (\<lambda>b. f \<le> cb_height b \<and> cb_height b < f + n) canon)" by blast
    moreover from this have parsed: "js_let (parse_items es items) (\<lambda>bs.
        Inr (sort_key cb_height (filter (\<lambda>b. f \<le> cb_height b \<and> cb_height b < f + n) bs))) =
      Inr (filter (\<lambda>b. f \<le> cb_height b \<and> cb_height b < f + n) canon)"
      using ascending by (simp add: sort_key_id_if_sorted)
    have "answers (io_let m (\<lambda>items w. (js_let (parse_items es items) (\<lambda>bs.
          Inr (sort_key cb_height (filter (\<lambda>b. f \<le> cb_height b \<and> cb_height b < f + n) bs))), w)))
        (filter (\<lambda>b. f \<le> cb_height b \<and> cb_height b < f + n) canon)" if m: "answers m items" for m :: "('w, block_item list) io"
      unfolding answers_def
    proof
      fix w
      obtain w' where "m w = (Inr items, w')" using m by (auto simp: answers_def)
      then show "\<exists>w'. io_let m (\<lambda>items w. (js_let (parse_items es items) (\<lambda>bs.
          Inr (sort_key cb_height (filter (\<lambda>b. f \<le> cb_height b \<and> cb_height b < f + n) bs))), w)) w =
        (Inr (filter (\<lambda>b. f \<le> cb_height b \<and> cb_height b < f + n) canon), w')" by (simp add: io_let_def parsed)
    qed
    ultimately show ?thesis using True by (simp add: getBlocks_def)
  next
    case False
    then have "filter (\<lambda>b. f \<le> cb_height b \<and> cb_height b < f + n) canon = []" by (auto simp: filter_empty_conv)
    with False show ?thesis by (simp add: answers_def getBlocks_def)
  qed
  then show "answers (cs_blocks (KoinosChain pv es) f n h) (filter (\<lambda>b. f \<le> cb_height b \<and> cb_height b < f + n) canon)" for f n h
    by (simp add: KoinosChain_def)
  show "\<forall>b \<in> set canon. block_ok es b"
  proof
    fix b
    assume b: "b \<in> set canon"
    from node obtain items where "parse_items es items = Inr (filter (\<lambda>c. cb_height b \<le> cb_height c \<and> cb_height c < cb_height b + 1) canon)"
      by (metis zero_less_one)
    from parse_items_ok [OF this] b show "block_ok es b" by simp
  qed
  show "index_of ic (so_startHeight ?opts) canon = Inr dbc" using index by (simp add: new_options_def)
  show "0 \<le> so_startHeight ?opts" "1 \<le> so_batchSize ?opts" by (simp_all add: new_options_def)
qed (use serves in \<open>simp_all add: node_serves_def KoinosChain_def\<close>)

text \<open>A node with three blocks and no protocol events.\<close>

definition item_at :: "string \<Rightarrow> u16 \<Rightarrow> u16 \<Rightarrow> block_item" where
  "item_at height i previous = \<lparr>bi_block_id = Some [i], bi_block_height = Some (utf16 height),
     bi_block = Some \<lparr>bj_id = None, bj_header = Some \<lparr>hj_height = None, hj_previous = Some [previous], hj_timestamp = None\<rparr>\<rparr>,
     bi_receipts = None\<rparr>"

definition block_at :: "int \<Rightarrow> u16 \<Rightarrow> u16 \<Rightarrow> chain_block" where
  "block_at height i previous = \<lparr>cb_height = height, cb_id = [i], cb_previous = [previous], cb_timestamp = utf16 ''0'', cb_events = []\<rparr>"

definition no_events :: event_source where
  "no_events = \<lparr>es_types = (\<lambda>_. None), es_address = (\<lambda>_. []), es_bytes = (\<lambda>_. Inr []), es_decode = (\<lambda>_ _. Inr []),
     es_type = (\<lambda>_. No_more_fields), es_wire = (\<lambda>_ _. Inr [])\<rparr>"

definition demo_node :: "unit provider" where
  "demo_node = \<lparr>pv_head_info = io_return \<lparr>hi_height = Some (utf16 ''3''), hi_id = [67], hi_lib = Some (utf16 ''1''), hi_time = None\<rparr>,
     pv_blocks = (\<lambda>f n i. io_return (map snd (filter (\<lambda>(h, item). f \<le> h \<and> h < f + n)
       [(1, item_at ''1'' 65 64), (2, item_at ''2'' 66 65), (3, item_at ''3'' 67 66)]))),
     pv_chain_id = io_return []\<rparr>"

definition demo_canon :: "chain_block list" where
  "demo_canon = [block_at 1 65 64, block_at 2 66 65, block_at 3 67 66]"

definition demo_top :: chain_head where
  "demo_top = \<lparr>hd_height = 3, hd_id = [67], hd_lib = Some 1, hd_time = utf16 ''0''\<rparr>"

definition indexed_db :: "index_codec \<Rightarrow> chain_block list \<Rightarrow> index_db" where
  "indexed_db ic bs = (case index_of ic 1 bs of Inr db \<Rightarrow> db | Inl e \<Rightarrow> empty_db)"

lemma height_texts:
  "js_number (Some (utf16 ''1'')) = Some 1" "js_number (Some (utf16 ''2'')) = Some 2" "js_number (Some (utf16 ''3'')) = Some 3"
  by code_simp+

lemma item_parses:
  "parseBlockItem es (item_at ''1'' i p) = Inr (block_at 1 i p)"
  "parseBlockItem es (item_at ''2'' i p) = Inr (block_at 2 i p)"
  "parseBlockItem es (item_at ''3'' i p) = Inr (block_at 3 i p)"
  by (simp_all add: parseBlockItem_def item_at_def block_at_def height_texts or_else_def or_empty_def)

lemma demo_node_serves: "node_serves demo_node no_events (new_options 1 None None None) demo_top demo_canon []"
proof -
  have "\<exists>items. answers (pv_blocks demo_node f n i) items \<and>
        parse_items no_events items = Inr (filter (\<lambda>b. f \<le> cb_height b \<and> cb_height b < f + n) demo_canon)" for f n i
    by (intro exI [of _ "map snd (filter (\<lambda>(h, item). f \<le> h \<and> h < f + n)
       [(1, item_at ''1'' 65 64), (2, item_at ''2'' 66 65), (3, item_at ''3'' 67 66)])"])
      (simp add: answers_def demo_node_def demo_canon_def item_parses block_at_def)
  moreover have "answers (getHead demo_node) demo_top"
    by (simp add: answers_def getHead_def demo_node_def demo_top_def io_let_def height_texts)
  ultimately show ?thesis
    by (simp add: node_serves_def answers_def demo_node_def demo_canon_def demo_top_def block_at_def new_options_def finalHeight_def)
qed

lemma demo_indexed:
  "index_of ic 1 demo_canon = Inr (indexed_db ic demo_canon)"
  "index_of ic 1 [block_at 1 65 64, block_at 2 90 65] = Inr (indexed_db ic [block_at 1 65 64, block_at 2 90 65])"
  by (simp_all add: indexed_db_def index_of_def demo_canon_def block_at_def applyBlock_def empty_db_def lastCheckpoint_def Let_def)

text \<open>The laws hold for the indexer's chain source over this node.\<close>

interpretation demo_chain: honest_source "KoinosChain demo_node no_events" no_events ic "new_options 1 None None None"
    demo_top demo_canon "indexed_db ic demo_canon" "[]" for ic
  by (rule node_is_honest [OF demo_node_serves]) (simp add: demo_indexed)

text \<open>
  C7: An honest node brings every indexer to its head: when the node serves a chain whose final blocks the
  indexer has (anything above, blocks of other forks included) and is at least as long as the index, \<open>syncToHead\<close> does not throw, rolls back
  what is not on the chain, catches up within two rounds more than the chain has blocks, and leaves
  exactly the database that indexing that chain from scratch gives.
\<close>

theorem sync_reaches_head:
  assumes "node_serves pv es (new_options start i batch window) head canon rpc_id"
    and "index_of ic (max 1 start) canon = Inr dbc"
    and "index_of ic (max 1 start) bs = Inr (sy_db sy)"
    and "recoverable es (new_options start i batch window) head canon bs"
    and "length canon + 2 \<le> rounds"
  shows "\<exists>r sy' w'. syncToHead ic es (new_options start i batch window) (KoinosChain pv es) (Some rounds) (sy, w) = (Inr r, (sy', w')) \<and>
    rs_caughtUp r \<and> sy_db sy' = dbc"
proof -
  let ?opts = "new_options start i batch window"
  have "honest_source (KoinosChain pv es) es ic ?opts head canon dbc rpc_id" using assms(1,2) by (rule node_is_honest)
  moreover have "index_of ic (so_startHeight ?opts) bs = Inr (sy_db sy)" using assms(3) by (simp add: new_options_def)
  ultimately have "returns (\<lambda>s. sy_db s = sy_db sy) (sync_rounds ic es ?opts (KoinosChain pv es) rounds r)
      (\<lambda>r s. rs_caughtUp r \<and> sy_db s = dbc)" for r
    using assms(4,5) by (rule honest_source.reaches_head)
  then have "returns (\<lambda>s. sy_db s = sy_db sy) (syncToHead ic es ?opts (KoinosChain pv es) (Some rounds))
      (\<lambda>r s. rs_caughtUp r \<and> sy_db s = dbc)" by (simp add: syncToHead_def)
  then show ?thesis by (fastforce simp: returns_def)
qed

theorem sync_reaches_head_witness:
  "\<exists>r sy' w'. syncToHead demo_codec no_events (new_options 1 None None None) (KoinosChain demo_node no_events) (Some 5)
      (new_syncer (indexed_db demo_codec [block_at 1 65 64, block_at 2 90 65]), ()) = (Inr r, (sy', w')) \<and>
    rs_caughtUp r \<and> sy_db sy' = indexed_db demo_codec demo_canon"
proof (rule sync_reaches_head [OF demo_node_serves])
  show "recoverable no_events (new_options 1 None None None) demo_top demo_canon [block_at 1 65 64, block_at 2 90 65]"
    by (auto simp: recoverable_def same_ids_def block_ok_def demo_canon_def block_at_def demo_top_def new_options_def
      finalHeight_def less_Suc_eq)
qed (simp_all add: demo_indexed new_syncer_def, simp add: demo_canon_def)

end
