(* ===== verification/Table_Types.thy ===== *)
theory Table_Types
  imports Indexed
begin

text \<open>
  What the rows of the query tables look like, whatever events a chain ever logged: malformed events,
  events in an order no contract would emit them in, and events of any contract.
\<close>

section \<open>Well-formed tables\<close>

definition decimal :: "ustring \<Rightarrow> bool" where
  "decimal s \<longleftrightarrow> s \<noteq> [] \<and> list_all is_digit s"

text \<open>A pair is stored under its sorted key; its nonce is a text that \<open>BigInt\<close> reads.\<close>

definition pair_row_ok :: "ustring \<times> ustring \<Rightarrow> relationship_row \<Rightarrow> bool" where
  "pair_row_ok k r \<longleftrightarrow> k = pairKey (fst k) (snd k) \<and> lr_status r \<in> {1, 2, 3} \<and> decimal (lr_nonce r)"

text \<open>The current version of a post is among its versions, with the same content.\<close>

definition shows_version :: "post_row \<Rightarrow> post_version_row \<Rightarrow> bool" where
  "shows_version r v \<longleftrightarrow> vr_content_hash v = pr_content_hash r \<and> vr_previous v = pr_previous r \<and>
     vr_envelope v = pr_envelope r \<and> vr_media v = pr_media r"

definition versions_ok :: "(ustring \<rightharpoonup> post_row) \<Rightarrow> (ustring \<times> int \<rightharpoonup> post_version_row) \<Rightarrow> bool" where
  "versions_ok posts versions \<longleftrightarrow> (\<forall>p r. posts p = Some r \<longrightarrow> pr_version r \<noteq> 0 \<and>
     (\<exists>v. versions (p, pr_version r) = Some v \<and> shows_version r v))"

text \<open>Notifications are numbered from 1 in the order of their insertion; nobody is told of an own action.\<close>

definition notes_ok :: "notification_row list \<Rightarrow> bool" where
  "notes_ok ns \<longleftrightarrow> map nr_id ns = [1..<Suc (length ns)] \<and> (\<forall>n \<in> set ns. nr_account n \<noteq> [] \<and> nr_account n \<noteq> nr_actor n)"

definition rows_ok :: "('k \<Rightarrow> 'r \<Rightarrow> bool) \<Rightarrow> ('k \<rightharpoonup> 'r) \<Rightarrow> bool" where
  "rows_ok good m \<longleftrightarrow> (\<forall>k r. m k = Some r \<longrightarrow> good k r)"

definition tables_ok :: "tables \<Rightarrow> bool" where
  "tables_ok db \<longleftrightarrow>
     rows_ok pair_row_ok (t_relationships db) \<and>
     rows_ok (\<lambda>_ r. dr_revoked r \<in> {0, 1}) (t_devices db) \<and>
     rows_ok (\<lambda>_ r. wr_active r \<in> {0, 1}) (t_sponsors db) \<and>
     rows_ok (\<lambda>_ r. gr_revoked r \<in> {0, 1}) (t_grants db) \<and>
     rows_ok (\<lambda>_ r. or_role r \<noteq> 0) (t_roles db) \<and>
     rows_ok (\<lambda>_ r. er_status r \<in> {0, 1, 2}) (t_registry db) \<and>
     versions_ok (t_posts db) (t_post_versions db) \<and>
     notes_ok (t_notifications db)"

section \<open>Statements keep rows well formed\<close>

named_theorems rows_intros \<open>how one statement changes a table\<close>

lemma rows_update [rows_intros]: "rows_ok good m \<Longrightarrow> good k r \<Longrightarrow> rows_ok good (m(k \<mapsto> r))"
  by (simp add: rows_ok_def)

lemma rows_delete [rows_intros]: "rows_ok good m \<Longrightarrow> rows_ok good (m(k := None))"
  by (simp add: rows_ok_def)

lemma rows_change [rows_intros]: "rows_ok good m \<Longrightarrow> (\<And>r. good k r \<Longrightarrow> good k (f r)) \<Longrightarrow> rows_ok good (change_row k f m)"
  by (auto simp: rows_ok_def change_row_at split: if_splits)

lemma rows_filter [rows_intros]:
  "rows_ok good m \<Longrightarrow> rows_ok good (\<lambda>(n, a, v). case m (n, a, v) of Some r \<Rightarrow> if P n r then None else Some r | None \<Rightarrow> None)"
  by (auto simp: rows_ok_def split: option.splits if_splits)

lemma rows_at: "rows_ok good m \<Longrightarrow> m k = Some r \<Longrightarrow> good k r"
  by (simp add: rows_ok_def)

lemma pairKey_idem [simp]: "pairKey (fst (pairKey x y)) (snd (pairKey x y)) = pairKey x y"
  by (auto simp: pairKey_def text_less_def)

lemma decimal_u64_text [simp]: "decimal (u64_text v)"
  using nat_text_digits by (auto simp: u64_text_def decimal_def int_text_def utf16_def is_digit_def split: option.split proto_value.split)

lemma decimal_next_nonce [simp]: "decimal s \<Longrightarrow> decimal (next_nonce s)"
proof -
  assume s: "decimal s"
  then have "decimal_text s = Some (digits_value s)"
    by (cases s) (auto simp: decimal_def dest: digit_not_minus)
  moreover have "0 \<le> digits_value s" using s digits_nonneg by (simp add: decimal_def)
  ultimately show ?thesis
    using nat_text_digits by (simp add: next_nonce_def int_text_def decimal_def)
qed

lemma max_id: "foldr (\<lambda>r m. max (nr_id r) m) ns b = foldr max (map nr_id ns) b"
  by (induction ns) simp_all

lemma next_id:
  assumes "notes_ok ns"
  shows "foldr (\<lambda>r m. max (nr_id r) m) ns 0 = length ns"
proof -
  have "foldr max [1..<Suc n] b = max n b" for n b :: nat
    by (induction n arbitrary: b) simp_all
  with assms show ?thesis by (simp add: notes_ok_def max_id del: upt_Suc)
qed

lemma notify_ok [rows_intros]: "tables_ok db \<Longrightarrow> tables_ok (notify ev a k x p c d db)"
  by (auto simp: tables_ok_def notify_def notes_ok_def nextNotificationId_def next_id)

section \<open>Every projection keeps the tables well formed\<close>

lemma tables_ok_other [simp]:
  "tables_ok (db\<lparr>t_blocks := a\<rparr>) = tables_ok db" "tables_ok (db\<lparr>t_follows := a\<rparr>) = tables_ok db"
  "tables_ok (db\<lparr>t_key_packages := b\<rparr>) = tables_ok db" "tables_ok (db\<lparr>t_reactions := c\<rparr>) = tables_ok db"
  "tables_ok (db\<lparr>t_cross_posts := d\<rparr>) = tables_ok db" "tables_ok (db\<lparr>t_labels := e\<rparr>) = tables_ok db"
  "tables_ok (db\<lparr>t_audiences := f\<rparr>) = tables_ok db" "tables_ok (db\<lparr>t_communities := g\<rparr>) = tables_ok db"
  "tables_ok (db\<lparr>t_identities := h\<rparr>) = tables_ok db" "tables_ok (db\<lparr>t_meta := i\<rparr>) = tables_ok db"
  by (simp_all add: tables_ok_def)

lemma on_identity_ok [rows_intros]: "tables_ok db \<Longrightarrow> tables_ok (on_identity ev f db)"
  by (simp add: tables_ok_def on_identity_def)

lemma on_community_ok [rows_intros]: "tables_ok db \<Longrightarrow> tables_ok (on_community i ev f db)"
  by (simp add: tables_ok_def on_community_def)

lemma upsert_pair_ok:
  assumes "tables_ok db" and "lr_status r \<in> {1, 2, 3}" and "decimal (lr_nonce r)"
  shows "tables_ok (upsertRelationship (pairKey x y) r db)"
  using assms by (auto simp: tables_ok_def upsertRelationship_def pair_row_ok_def intro!: rows_update)

lemma identity_rows_ok: "tables_ok db \<Longrightarrow> tables_ok (applyIdentity ic ev db)"
  unfolding applyIdentity_def Let_def
  by (auto intro!: rows_intros simp: device_authorized_row_def) (auto simp: tables_ok_def intro!: rows_intros)

lemma pair_found: "tables_ok db \<Longrightarrow> getRelationship db x y = Some r \<Longrightarrow> decimal (lr_nonce r)"
  by (auto simp: tables_ok_def getRelationship_def pair_row_ok_def dest: rows_at)

lemma blocked_ok: "tables_ok db \<Longrightarrow> tables_ok (blocked_rows ev db)"
  unfolding blocked_rows_def Let_def
  by (auto intro!: upsert_pair_ok dest: pair_found [rotated] split: option.split)

lemma relationships_ok: "tables_ok db \<Longrightarrow> tables_ok (applyRelationships ic ev db)"
  unfolding applyRelationships_def friend_requested_rows_def friend_accepted_rows_def friend_removed_rows_def Let_def
  by (auto intro!: notify_ok upsert_pair_ok blocked_ok)

lemma versions_publish:
  assumes "versions_ok posts versions" and "pr_version r \<noteq> 0" and "shows_version r v" 
  shows "versions_ok (posts(p \<mapsto> r)) (versions((p, pr_version r) \<mapsto> v))"
  using assms by (auto simp: versions_ok_def)

lemma publish_row_ok:
  assumes "tables_ok db" and "pr_version r = n" and "n \<noteq> 0" and "shows_version r v"
  shows "tables_ok (db\<lparr>t_posts := (t_posts db)(p \<mapsto> r), t_post_versions := (t_post_versions db)((p, n) \<mapsto> v)\<rparr>)"
  using assms by (auto simp: tables_ok_def versions_publish)

lemma published_ok:
  assumes "tables_ok db"
  shows "tables_ok (published_rows ic ev db)"
proof -
  define p where "p = b64 ic (field ev ''post_id'')"
  define n where "n = (if num (field ev ''version_number'') = 0 then 1 else num (field ev ''version_number''))"
  have n: "n \<noteq> 0" by (simp add: n_def)
  show ?thesis
  proof (cases "t_posts db p")
    case None
    then show ?thesis
      unfolding published_rows_def Let_def p_def [symmetric] n_def [symmetric]
      using n by (auto simp: shows_version_def intro!: publish_row_ok assms notify_ok split: option.split)
  next
    case (Some r)
    then show ?thesis
      unfolding published_rows_def Let_def p_def [symmetric] n_def [symmetric] change_row_def
      using n by (auto simp: shows_version_def intro!: publish_row_ok assms)
  qed
qed

lemma lifecycle_ok: "tables_ok db \<Longrightarrow> tables_ok (lifecycle_rows ic ev db)"
  by (auto simp: tables_ok_def lifecycle_rows_def versions_ok_def change_row_at shows_version_def split: if_splits)

lemma keys_ok: "tables_ok db \<Longrightarrow> tables_ok (project_keys ic ev i keys db)"
  by (induction keys arbitrary: i db) (simp_all add: Let_def notify_ok)

lemma publications_ok: "tables_ok db \<Longrightarrow> tables_ok (applyPublications ic ev db)"
  unfolding applyPublications_def Let_def reaction_rows_def keys_distributed_rows_def
  by (auto intro!: published_ok lifecycle_ok keys_ok notify_ok split: sum.split)

lemma communities_ok: "tables_ok db \<Longrightarrow> tables_ok (applyCommunities ic ev db)"
  unfolding applyCommunities_def role_set_rows_def label_set_rows_def Let_def
  by (auto intro!: rows_intros split: option.split) (auto simp: tables_ok_def intro!: rows_intros)

lemma sponsorship_ok: "tables_ok db \<Longrightarrow> tables_ok (applySponsorship ev db)"
  unfolding applySponsorship_def Let_def
  by (auto simp: tables_ok_def bool_number_def intro!: rows_intros)

lemma registry_ok: "tables_ok db \<Longrightarrow> tables_ok (applyRegistry ic ev db)"
  unfolding applyRegistry_def upsert_entry_def Let_def
  by (auto simp: tables_ok_def intro!: rows_update rows_intros split: option.split)

lemma messaging_ok: "tables_ok db \<Longrightarrow> tables_ok (applyMessaging ic ev db)"
  by (auto simp: applyMessaging_def tables_ok_def Let_def split: option.split proto_value.split)

lemma token_ok: "tables_ok db \<Longrightarrow> applyToken ic ev db = Some db' \<Longrightarrow> tables_ok db'"
  by (auto simp: applyToken_def tables_ok_def Let_def split: if_splits option.splits)

lemma apply_event_ok: "tables_ok db \<Longrightarrow> applyEvent ic ev db = Some db' \<Longrightarrow> tables_ok db'"
  by (auto simp: applyEvent_def Let_def identity_rows_ok relationships_ok publications_ok communities_ok sponsorship_ok registry_ok
      messaging_ok dest: token_ok split: if_splits)

lemma no_tables_ok: "tables_ok no_tables"
  by (simp add: tables_ok_def no_tables_def rows_ok_def versions_ok_def notes_ok_def)

lemma apply_all_ok: "tables_ok db \<Longrightarrow> apply_all ic evs db = Some db' \<Longrightarrow> tables_ok db'"
  by (induction evs arbitrary: db) (auto split: option.splits dest: apply_event_ok)

text \<open>
  C32: Whatever events the log holds, malformed ones and ones that no contract would emit in that order
  included, the query tables are well typed: pairs under their sorted key with a status the API
  knows and a nonce that \<open>BigInt\<close> reads, flags that are 0 or 1, no row for the role 0, every post
  shown at a version that is among its versions with the same content, and notifications
  numbered without a gap and never addressed to the actor.
\<close>

theorem query_tables_typed:
  assumes "apply_all ic evs no_tables = Some db"
  shows "tables_ok db"
  using apply_all_ok [OF no_tables_ok assms] .

definition request_event :: log_event where
  "request_event = \<lparr>le_height = 7, le_block_id = [], le_block_time = utf16 ''9'', le_tx = 0, le_seq = 0, le_tx_id = [],
     le_contract = ''relationships'', le_name = ''osp.relationships.friend_requested'',
     le_data = [(''requester'', P_str (utf16 ''b'')), (''recipient'', P_str (utf16 ''a'')), (''nonce'', P_str (utf16 ''x''))],
     le_impacted = []\<rparr>"

theorem query_tables_typed_witness:
  "\<exists>db. apply_all demo_codec [request_event, request_event\<lparr>le_name := ''osp.relationships.unknown''\<rparr>] no_tables = Some db \<and> tables_ok db \<and>
     t_relationships db (utf16 ''a'', utf16 ''b'') \<noteq> None \<and> length (t_notifications db) = 1"
proof -
  obtain db where db: "apply_all demo_codec [request_event, request_event\<lparr>le_name := ''osp.relationships.unknown''\<rparr>] no_tables = Some db"
    by (simp add: request_event_def applyEvent_def Let_def)
  moreover from db have "t_relationships db (utf16 ''a'', utf16 ''b'') \<noteq> None \<and> length (t_notifications db) = 1"
    by (auto simp: request_event_def applyEvent_def applyRelationships_def friend_requested_rows_def upsertRelationship_def
        notify_def pairKey_def text_less_def utf16_def str_def no_tables_def Let_def)
  ultimately show ?thesis using query_tables_typed [OF db] by blast
qed

end
