(* ===== verification/Json_Injective.thy ===== *)
theory Json_Injective
  imports Json_Text
begin

text \<open>
  The canonical text of a JSON value (\<open>packages/sdk/src/encoding.ts\<close>) and its UTF-8 bytes determine the
  value up to the order of its members. Texts are prefix-free, so the argument composes over
  arrays and objects; lone surrogates, which UTF-8 cannot tell apart, are escaped by \<open>JSON.stringify\<close>.
\<close>

section \<open>The text of a value determines the value\<close>

text \<open>Values whose numbers are integers: what the projection of protobuf messages produces.\<close>

fun real_free :: "json \<Rightarrow> bool"
  and real_free_elements :: "json list \<Rightarrow> bool"
  and real_free_members :: "(string \<times> json) list \<Rightarrow> bool" where
  "real_free (J_real t) = False"
| "real_free (J_arr xs) = real_free_elements xs"
| "real_free (J_obj ms) = real_free_members ms"
| "real_free v = True"
| "real_free_elements [] = True"
| "real_free_elements (x # xs) = (real_free x \<and> real_free_elements xs)"
| "real_free_members [] = True"
| "real_free_members ((k, v) # ms) = (real_free v \<and> real_free_members ms)"

lemma real_free_elements_iff: "real_free_elements xs \<longleftrightarrow> list_all real_free xs"
  by (induction xs) auto

lemma real_free_members_iff: "real_free_members ms \<longleftrightarrow> list_all (\<lambda>m. real_free (snd m)) ms"
  by (induction ms) auto

text \<open>What may follow a value inside a text.\<close>

definition ended :: "ustring \<Rightarrow> bool" where
  "ended r \<longleftrightarrow> r = [] \<or> hd r = 0x2c \<or> hd r = 0x5d \<or> hd r = 0x7d"

lemma ended_Nil [simp]: "ended []" and ended_Cons [simp]: "ended (c # r) \<longleftrightarrow> c = 0x2c \<or> c = 0x5d \<or> c = 0x7d"
  by (simp_all add: ended_def)

lemma ended_rest [simp]: "ended (stringify_rest xs @ r)"
  by (cases xs) simp_all

lemma ended_more [simp]: "ended (stringify_more ms @ r)"
  by (cases ms) auto

definition in_number :: "u16 \<Rightarrow> bool" where "in_number c \<longleftrightarrow> c = 0x2d \<or> is_digit c"

lemma int_text_units: "int_text n \<noteq> [] \<and> list_all in_number (int_text n)"
  using nat_text_digits [of "nat n"] nat_text_digits [of "nat (- n)"]
  by (auto simp: int_text_def in_number_def list_all_iff)

lemma int_text_first: obtains c cs where "int_text n = c # cs" "in_number c"
  using int_text_units [of n] by (cases "int_text n") auto

lemma not_in_number [simp]: "\<not> in_number 0x2c" "\<not> in_number 0x5d" "\<not> in_number 0x7d" "\<not> in_number 0x22" "\<not> in_number 0x5b" "\<not> in_number 0x7b"
  "\<not> in_number 0x6e" "\<not> in_number 0x74" "\<not> in_number 0x66"
  by (simp_all add: in_number_def is_digit_def)

lemma int_text_split:
  assumes "int_text m @ r = int_text n @ s" and "ended r" and "ended s"
  shows "m = n \<and> r = s"
proof -
  have "takeWhile in_number (int_text k @ t) = int_text k" if "ended t" for k t
    using int_text_units [of k] that by (cases t) (auto simp: takeWhile_append2 list_all_iff)
  with assms have "int_text m = int_text n" by metis
  with assms(1) show ?thesis by simp
qed

lemma quote_split: "quote a @ r = quote b @ s \<Longrightarrow> a = b \<and> r = s"
proof -
  assume "quote a @ r = quote b @ s"
  then have "unquote (quote_units a @ 0x22 # r) = unquote (quote_units b @ 0x22 # s)" by (simp add: quote_def)
  then show ?thesis by (simp add: unquote_quote_units)
qed

lemma utf16_inject [simp]: "utf16 a = utf16 b \<longleftrightarrow> a = b"
proof -
  have "inj (of_char :: char \<Rightarrow> u16)"
  proof (rule injI)
    fix x y :: char assume "(of_char x :: u16) = of_char y"
    then have "(of_nat (of_char x) :: u16) = of_nat (of_char y)" by (simp only: of_nat_of_char)
    moreover have "(of_char z :: nat) < 2 ^ 16" for z by (rule less_trans [OF nat_of_char_less_256]) simp
    ultimately have "(of_char x :: nat) = of_char y" by (simp add: word_of_nat_eq_iff take_bit_nat_eq_self_iff [THEN iffD2])
    then show "x = y" by simp
  qed
  then show ?thesis by (simp add: utf16_def inj_map_eq_map)
qed

text \<open>The first unit of a text tells what kind of value it is.\<close>

definition first_unit :: "json \<Rightarrow> u16 \<Rightarrow> bool" where
  "first_unit v c \<longleftrightarrow> (case v of J_null \<Rightarrow> c = 0x6e | J_bool b \<Rightarrow> c = (if b then 0x74 else 0x66) | J_int n \<Rightarrow> in_number c
     | J_str s \<Rightarrow> c = 0x22 | J_arr xs \<Rightarrow> c = 0x5b | J_obj ms \<Rightarrow> c = 0x7b | J_real t \<Rightarrow> False)"

lemma stringify_first:
  assumes "real_free v" obtains c cs where "stringify v = c # cs" "first_unit v c"
proof (cases v)
  case (J_int n)
  then show ?thesis using that by (cases rule: int_text_first [of n]) (auto simp: first_unit_def)
next
  case (J_bool b)
  then show ?thesis using that by (cases b) (auto simp: first_unit_def utf16_def of_char_def)
next
  case (J_arr xs)
  then show ?thesis using that by (cases xs) (auto simp: first_unit_def)
next
  case (J_obj ms)
  then show ?thesis using that by (cases ms) (auto simp: first_unit_def)
qed (use assms that in \<open>auto simp: first_unit_def utf16_def quote_def of_char_def split: if_splits\<close>)

lemma same_kind:
  assumes "real_free v" "real_free w" "stringify v @ r = stringify w @ s"
  obtains c where "first_unit v c" "first_unit w c"
  using assms stringify_first [OF assms(1)] stringify_first [OF assms(2)] by (metis append_Cons list.inject)

lemma not_closing: "real_free v \<Longrightarrow> stringify v @ r \<noteq> 0x5d # s" "real_free v \<Longrightarrow> 0x5d # s \<noteq> stringify v @ r"
  by (erule stringify_first, auto simp: first_unit_def split: json.splits if_splits)+

lemma stringify_prefix:
  "real_free v \<Longrightarrow> real_free w \<Longrightarrow> stringify v @ r = stringify w @ s \<Longrightarrow> ended r \<Longrightarrow> ended s \<Longrightarrow> v = w \<and> r = s"
  "real_free_elements xs \<Longrightarrow> real_free_elements ys \<Longrightarrow> stringify_rest xs @ r = stringify_rest ys @ s \<Longrightarrow> xs = ys \<and> r = s"
  "real_free_members ms \<Longrightarrow> real_free_members ns \<Longrightarrow> stringify_more ms @ r = stringify_more ns @ s \<Longrightarrow> ms = ns \<and> r = s"
proof (induction v and xs and ms arbitrary: w r s and ys r s and ns r s rule: stringify_stringify_rest_stringify_more.induct)
  case 1
  then show ?case by (cases rule: same_kind [OF 1(1,2,3)]) (cases w; simp add: first_unit_def split: if_splits)
next
  case (2 b)
  then show ?case by (cases rule: same_kind [OF 2(1,2,3)]) (cases w; cases b; simp add: first_unit_def utf16_def split: if_splits)
next
  case (3 n)
  from 3(1-3) show ?case
  proof (cases rule: same_kind)
    case (1 c)
    then obtain m where "w = J_int m" by (cases w) (auto simp: first_unit_def split: if_splits)
    with 3 show ?thesis using int_text_split [of n r m s] by simp
  qed
next
  case (4 t)
  then show ?case by simp
next
  case (5 t)
  from 5(1-3) show ?case
  proof (cases rule: same_kind)
    case (1 c)
    then obtain u where "w = J_str u" by (cases w) (auto simp: first_unit_def split: if_splits)
    with 5 show ?thesis using quote_split [of t r u s] by simp
  qed
next
  case 6
  from 6(1-3) show ?case
  proof (cases rule: same_kind)
    case (1 c)
    then obtain ys where "w = J_arr ys" by (cases w) (auto simp: first_unit_def split: if_splits)
    with 6 show ?thesis by (cases ys) (auto simp: not_closing)
  qed
next
  case (7 x xs)
  from 7(3,4,5) show ?case
  proof (cases rule: same_kind)
    case (1 c)
    then obtain ys where w: "w = J_arr ys" by (cases w) (auto simp: first_unit_def split: if_splits)
    with 7(3-5) obtain y zs where ys: "ys = y # zs" by (cases ys) (auto simp: not_closing)
    with 7(3-5) w have free: "real_free x" "real_free y" "real_free_elements xs" "real_free_elements zs"
      and texts: "stringify x @ stringify_rest xs @ r = stringify y @ stringify_rest zs @ s" by simp_all
    from 7(1) [OF free(1,2) texts] have "x = y" and rest: "stringify_rest xs @ r = stringify_rest zs @ s" by simp_all
    with 7(2) [OF free(3,4) rest] w ys show ?thesis by simp
  qed
next
  case 8
  from 8(1-3) show ?case
  proof (cases rule: same_kind)
    case (1 c)
    then obtain ms where w: "w = J_obj ms" by (cases w) (auto simp: first_unit_def split: if_splits)
    with 8 show ?thesis by (cases ms) (auto simp: quote_def)
  qed
next
  case (9 k v ms)
  from 9(3,4,5) show ?case
  proof (cases rule: same_kind)
    case (1 c)
    then obtain ns where w: "w = J_obj ns" by (cases w) (auto simp: first_unit_def split: if_splits)
    with 9(3-5) obtain k' v' ns' where ns: "ns = (k', v') # ns'" by (cases ns) (auto simp: quote_def)
    with 9(3-5) w have free: "real_free v" "real_free v'" "real_free_members ms" "real_free_members ns'"
      and texts: "quote (utf16 k) @ 0x3a # stringify v @ stringify_more ms @ r = quote (utf16 k') @ 0x3a # stringify v' @ stringify_more ns' @ s"
      by simp_all
    from quote_split [OF texts] have k: "k = k'" and vals: "stringify v @ stringify_more ms @ r = stringify v' @ stringify_more ns' @ s" by simp_all
    from 9(1) [OF free(1,2) vals] have "v = v'" and rest: "stringify_more ms @ r = stringify_more ns' @ s" by simp_all
    with 9(2) [OF free(3,4) rest] w ns k show ?thesis by simp
  qed
next
  case 10
  then show ?case by (cases ys) auto
next
  case (11 x xs)
  show ?case
  proof (cases ys)
    case Nil
    with 11(5) show ?thesis by simp
  next
    case (Cons y zs)
    with 11(3-5) have free: "real_free x" "real_free y" "real_free_elements xs" "real_free_elements zs"
      and texts: "stringify x @ stringify_rest xs @ r = stringify y @ stringify_rest zs @ s" by simp_all
    from 11(1) [OF free(1,2) texts] have "x = y" and rest: "stringify_rest xs @ r = stringify_rest zs @ s" by simp_all
    with 11(2) [OF free(3,4) rest] Cons show ?thesis by simp
  qed
next
  case 12
  then show ?case by (cases ns) auto
next
  case (13 k v ms)
  show ?case
  proof (cases ns)
    case Nil
    with 13(5) show ?thesis by simp
  next
    case (Cons n ns')
    obtain k' v' where n: "n = (k', v')" by fastforce
    with Cons 13(3-5) have free: "real_free v" "real_free v'" "real_free_members ms" "real_free_members ns'"
      and texts: "quote (utf16 k) @ 0x3a # stringify v @ stringify_more ms @ r = quote (utf16 k') @ 0x3a # stringify v' @ stringify_more ns' @ s"
      by simp_all
    from quote_split [OF texts] have k: "k = k'" and vals: "stringify v @ stringify_more ms @ r = stringify v' @ stringify_more ns' @ s" by simp_all
    from 13(1) [OF free(1,2) vals] have "v = v'" and rest: "stringify_more ms @ r = stringify_more ns' @ s" by simp_all
    with 13(2) [OF free(3,4) rest] Cons n k show ?thesis by simp
  qed
qed

section \<open>Texts without lone surrogates\<close>

fun well_paired :: "ustring \<Rightarrow> bool" where
  "well_paired [] = True"
| "well_paired (c # cs) =
     (if high_surrogate c then (case cs of [] \<Rightarrow> False | d # ds \<Rightarrow> low_surrogate d \<and> well_paired ds)
      else \<not> low_surrogate c \<and> well_paired cs)"

lemma well_paired_append: "well_paired a \<Longrightarrow> well_paired (a @ b) = well_paired b"
proof (induction a rule: well_paired.induct)
  case (2 c cs)
  then show ?case by (cases cs) (auto split: if_split_asm)
qed simp

lemma plain_unit: "c < 0xd800 \<Longrightarrow> \<not> high_surrogate c \<and> \<not> low_surrogate c"
  by (auto simp: high_surrogate_def low_surrogate_def word_le_nat_alt word_less_nat_alt)

lemma plain_paired: "list_all (\<lambda>c. c < 0xd800) a \<Longrightarrow> well_paired a"
  by (induction a) (auto simp: plain_unit)

lemma hex_unit_plain: "n < 16 \<Longrightarrow> hex_unit n < 0xd800"
proof -
  assume "n < 16"
  then have "n \<in> set [0..<16]" by simp
  then show ?thesis by (simp add: upt_rec numeral_2_eq_2) (elim disjE; simp add: hex_unit_def)
qed

lemma escape_hex_paired: "well_paired (escape_hex c)"
proof -
  have "unat c div 4096 < 16" using unsigned_less [where ?'a = nat, of c] by simp
  then show ?thesis by (intro plain_paired) (simp add: escape_hex_def Let_def utf16_def of_char_def hex_unit_plain)
qed

lemma escape_unit_paired: "\<not> high_surrogate c \<Longrightarrow> \<not> low_surrogate c \<Longrightarrow> well_paired (escape_unit c)"
  by (auto simp: escape_unit_def escape_hex_paired plain_unit)

lemma quote_units_paired: "well_paired (quote_units s)"
proof (induction s rule: quote_units.induct)
  case (2 c cs)
  note more = escape_hex_paired escape_unit_paired well_paired_append
  show ?case
  proof (cases "high_surrogate c")
    case True
    show ?thesis
    proof (cases cs)
      case Nil
      with True show ?thesis by (simp add: more)
    next
      case (Cons d ds)
      show ?thesis
      proof (cases "low_surrogate d")
        case low: True
        with 2(1) [OF True Cons low] True Cons show ?thesis by simp
      next
        case False
        with 2(2) [OF True Cons False] True Cons show ?thesis by (simp only: quote_units.simps list.case if_True if_False more)
      qed
    qed
  next
    case high: False
    show ?thesis
    proof (cases "low_surrogate c")
      case True
      with 2(3) [OF high True] high show ?thesis by (simp only: quote_units.simps if_True if_False more)
    next
      case False
      with 2(4) [OF high False] high well_paired_append [OF escape_unit_paired [OF high False], of "quote_units cs"] show ?thesis
        by (simp only: quote_units.simps if_False)
    qed
  qed
qed simp

lemma quote_paired: "well_paired (quote s)"
  by (simp add: quote_def plain_unit well_paired_append quote_units_paired)

lemma utf16_text_paired: "well_paired (utf16 ''null'')" "well_paired (utf16 ''true'')" "well_paired (utf16 ''false'')"
  by (simp_all add: utf16_def of_char_def plain_unit)

lemma int_text_paired: "well_paired (int_text n)"
  using int_text_units [of n] by (intro plain_paired) (auto simp: list_all_iff in_number_def is_digit_def word_le_nat_alt word_less_nat_alt)

lemma stringify_paired:
  "real_free v \<Longrightarrow> well_paired (stringify v)"
  "real_free_elements xs \<Longrightarrow> well_paired (stringify_rest xs)"
  "real_free_members ms \<Longrightarrow> well_paired (stringify_more ms)"
  by (induction v and xs and ms rule: stringify_stringify_rest_stringify_more.induct)
    (simp_all add: utf16_text_paired int_text_paired quote_paired well_paired_append plain_unit)

section \<open>UTF-8 of such texts determines them\<close>

text \<open>The text that well-formed UTF-8 encodes.\<close>

fun from_utf8 :: "bytes \<Rightarrow> ustring" where
  "from_utf8 [] = []"
| "from_utf8 (b # bs) =
     (if b < 0x80 then ucast b # from_utf8 bs
      else if b < 0xe0 then (case bs of x # r \<Rightarrow> of_nat ((unat b - 0xc0) * 64 + (unat x - 0x80)) # from_utf8 r | _ \<Rightarrow> [])
      else if b < 0xf0 then (case bs of x # y # r \<Rightarrow>
          of_nat ((unat b - 0xe0) * 4096 + (unat x - 0x80) * 64 + (unat y - 0x80)) # from_utf8 r | _ \<Rightarrow> [])
      else (case bs of x # y # z # r \<Rightarrow>
          let n = (unat b - 0xf0) * 262144 + (unat x - 0x80) * 4096 + (unat y - 0x80) * 64 + (unat z - 0x80) - 0x10000
          in of_nat (0xd800 + n div 0x400) # of_nat (0xdc00 + n mod 0x400) # from_utf8 r | _ \<Rightarrow> []))"

lemma small_byte: "n < 256 \<Longrightarrow> unat (of_nat n :: byte) = n"
  by (simp add: unat_of_nat)

lemma from_two: "unat b = 0xc0 + i \<Longrightarrow> i < 32 \<Longrightarrow> unat x = 0x80 + j \<Longrightarrow> from_utf8 (b # x # r) = of_nat (i * 64 + j) # from_utf8 r"
  by (simp add: word_less_nat_alt)

lemma from_three: "unat b = 0xe0 + i \<Longrightarrow> i < 16 \<Longrightarrow> unat x = 0x80 + j \<Longrightarrow> unat y = 0x80 + k \<Longrightarrow>
    from_utf8 (b # x # y # r) = of_nat (i * 4096 + j * 64 + k) # from_utf8 r"
  by (simp add: word_less_nat_alt)

lemma from_four: "unat b = 0xf0 + i \<Longrightarrow> unat x = 0x80 + j \<Longrightarrow> unat y = 0x80 + k \<Longrightarrow> unat z = 0x80 + l \<Longrightarrow>
    i * 262144 + j * 4096 + k * 64 + l = 0x10000 + n \<Longrightarrow>
    from_utf8 (b # x # y # z # r) = of_nat (0xd800 + n div 0x400) # of_nat (0xdc00 + n mod 0x400) # from_utf8 r"
  by (simp add: word_less_nat_alt Let_def)

lemma base_64: "n div 4096 * 4096 + n div 64 mod 64 * 64 + n mod 64 = n" for n :: nat
proof -
  have "q * 64 + b = p \<Longrightarrow> p * 64 + c = n \<Longrightarrow> q * 4096 + b * 64 + c = n" for q b p c :: nat by simp
  from this [OF div_mult_mod_eq div_mult_mod_eq] show ?thesis by (simp add: div_mult2_eq [symmetric])
qed

lemma base_64_four: "n div 262144 * 262144 + n div 4096 mod 64 * 4096 + n div 64 mod 64 * 64 + n mod 64 = n" for n :: nat
proof -
  have "q * 4096 + b * 64 + c = p \<Longrightarrow> p * 64 + d = n \<Longrightarrow> q * 262144 + b * 4096 + c * 64 + d = n" for q b c d p :: nat by simp
  from this [OF base_64 div_mult_mod_eq] show ?thesis by (simp add: div_mult2_eq [symmetric])
qed

lemma from_utf8_two:
  assumes "0x80 \<le> n" "n < 0x800" shows "from_utf8 (utf8_two n @ r) = of_nat n # from_utf8 r"
proof -
  have n: "n div 64 < 32" "n mod 64 < 64" using assms by auto
  have "from_utf8 (utf8_two n @ r) = of_nat (n div 64 * 64 + n mod 64) # from_utf8 r"
    unfolding utf8_two_def append.simps by (rule from_two; (rule small_byte)?; use n in simp)
  then show ?thesis by simp
qed

lemma from_utf8_three:
  assumes "n < 0x10000" shows "from_utf8 (utf8_three n @ r) = of_nat n # from_utf8 r"
proof -
  have n: "n div 4096 < 16" "n div 64 mod 64 < 64" "n mod 64 < 64" using assms by auto
  have "from_utf8 (utf8_three n @ r) = of_nat (n div 4096 * 4096 + n div 64 mod 64 * 64 + n mod 64) # from_utf8 r"
    unfolding utf8_three_def append.simps by (rule from_three; (rule small_byte)?; use n in simp)
  then show ?thesis by (simp only: base_64)
qed

lemma from_utf8_four:
  assumes "n < 0x100000" shows "from_utf8 (utf8_four (0x10000 + n) @ r) = of_nat (0xd800 + n div 0x400) # of_nat (0xdc00 + n mod 0x400) # from_utf8 r"
proof -
  let ?m = "0x10000 + n"
  have m: "?m div 262144 < 5" "?m div 4096 mod 64 < 64" "?m div 64 mod 64 < 64" "?m mod 64 < 64" using assms by auto
  show ?thesis
    unfolding utf8_four_def append.simps
    by (rule from_four; (rule small_byte)?; (rule base_64_four)?; use m in linarith)
qed

lemma from_utf8_ascii: "c < 0x80 \<Longrightarrow> from_utf8 (ucast c # r) = c # from_utf8 r" for c :: u16
proof -
  assume c: "c < 0x80"
  then have u: "unat (ucast c :: byte) = unat c" by (simp add: unsigned_ucast_eq take_bit_nat_eq_self word_less_nat_alt)
  then have "(ucast (ucast c :: byte) :: u16) = c" by (simp add: word_unat_eq_iff unsigned_ucast_eq unsigned_take_bit_eq)
  with u c show ?thesis by (simp add: word_less_nat_alt)
qed

lemma surrogate_units:
  assumes "high_surrogate c" "low_surrogate d"
  shows "(unat c - 0xd800) * 0x400 + (unat d - 0xdc00) < 0x100000"
    "of_nat (0xd800 + ((unat c - 0xd800) * 0x400 + (unat d - 0xdc00)) div 0x400) = c"
    "of_nat (0xdc00 + ((unat c - 0xd800) * 0x400 + (unat d - 0xdc00)) mod 0x400) = d"
proof -
  have c: "0xd800 \<le> unat c" "unat c < 0xdc00" and d: "0xdc00 \<le> unat d" "unat d < 0xe000"
    using assms by (simp_all add: high_surrogate_def low_surrogate_def word_le_nat_alt word_less_nat_alt)
  from c(1) d(1) obtain i j where i: "unat c = 0xd800 + i" and j: "unat d = 0xdc00 + j" by (metis nat_le_iff_add)
  with c d have less: "i < 0x400" "j < 0x400" by simp_all
  show "(unat c - 0xd800) * 0x400 + (unat d - 0xdc00) < 0x100000" using i j less by simp
  have "0xd800 + ((unat c - 0xd800) * 0x400 + (unat d - 0xdc00)) div 0x400 = unat c"
    "0xdc00 + ((unat c - 0xd800) * 0x400 + (unat d - 0xdc00)) mod 0x400 = unat d" using i j less by simp_all
  then show "of_nat (0xd800 + ((unat c - 0xd800) * 0x400 + (unat d - 0xdc00)) div 0x400) = c"
    "of_nat (0xdc00 + ((unat c - 0xd800) * 0x400 + (unat d - 0xdc00)) mod 0x400) = d" by (simp_all only: of_nat_unat ucast_id)
qed

lemma from_utf8_utf8: "well_paired s \<Longrightarrow> from_utf8 (utf8 s) = s"
proof (induction s rule: utf8.induct)
  case (2 c cs)
  consider "c < 0x80" | "\<not> c < 0x80" "c < 0x800" | "\<not> c < 0x800" "high_surrogate c" | "\<not> c < 0x800" "\<not> high_surrogate c" "\<not> low_surrogate c"
    using 2(7) by (auto split: if_splits)
  then show ?case
  proof cases
    case 1
    with 2(7) have "well_paired cs" by (auto simp: plain_unit word_less_nat_alt split: if_splits)
    with 2(1) 1 from_utf8_ascii [OF 1] show ?thesis by (simp del: from_utf8.simps)
  next
    case 2
    then have "\<not> high_surrogate c \<and> \<not> low_surrogate c" by (intro plain_unit) (simp add: word_less_nat_alt)
    with "2.prems" have "well_paired cs" by simp
    moreover have "from_utf8 (utf8_two (unat c) @ utf8 cs) = c # from_utf8 (utf8 cs)"
      using 2 by (subst from_utf8_two) (simp_all add: word_less_nat_alt)
    ultimately show ?thesis using "2.IH"(2) 2 by (simp del: from_utf8.simps)
  next
    case 3
    with "2.prems" obtain d ds where cs: "cs = d # ds" "low_surrogate d" "well_paired ds" by (auto split: list.splits)
    with surrogate_units [OF 3(2) cs(2)] have
      "from_utf8 (utf8_four (0x10000 + ((unat c - 0xd800) * 0x400 + (unat d - 0xdc00))) @ utf8 ds) = c # d # from_utf8 (utf8 ds)"
      by (subst from_utf8_four) (simp_all only:)
    moreover have "\<not> c < 0x80" using 3 by (simp add: word_less_nat_alt)
    ultimately show ?thesis using "2.IH"(3) 3 cs by (simp add: add.assoc del: from_utf8.simps)
  next
    case 4
    with "2.prems" have "well_paired cs" by simp
    moreover have "from_utf8 (utf8_three (unat c) @ utf8 cs) = c # from_utf8 (utf8 cs)"
      using unsigned_less [where ?'a = nat, of c] by (subst from_utf8_three) simp_all
    moreover have "\<not> c < 0x80" using 4 by (simp add: word_less_nat_alt)
    ultimately show ?thesis using "2.IH"(6) 4 by (simp del: from_utf8.simps)
  qed
qed simp

lemma utf8_inject: "well_paired a \<Longrightarrow> well_paired b \<Longrightarrow> utf8 a = utf8 b \<Longrightarrow> a = b"
  by (metis from_utf8_utf8)

section \<open>Canonical JSON\<close>

lemma sort_keys_real_free:
  "real_free v \<Longrightarrow> real_free (sort_keys v)"
  "real_free_elements xs \<Longrightarrow> real_free_elements (sort_elements xs)"
  "real_free_members ms \<Longrightarrow> real_free_members (sort_members ms)"
  by (induction v and xs and ms rule: sort_keys_sort_elements_sort_members.induct)
    (simp_all add: real_free_members_iff list_all_iff)

text \<open>The bytes of the canonical text determine a value up to the order of its members.\<close>

lemma canonical_bytes_inject:
  assumes "real_free v" "real_free w" "utf8 (canonicalJson v) = utf8 (canonicalJson w)"
  shows "sort_keys v = sort_keys w"
proof -
  note free = assms(1,2) [THEN sort_keys_real_free(1)]
  from assms(3) free [THEN stringify_paired(1)] have "stringify (sort_keys v) = stringify (sort_keys w)"
    unfolding canonicalJson_def by (intro utf8_inject)
  with stringify_prefix(1) [OF free, of "[]" "[]"] show ?thesis by simp
qed

end
