(* ===== verification/State_Hash.thy ===== *)
theory State_Hash
  imports Event_Log Json_Injective
begin

text \<open>
  What the state hash of the indexer (\<open>apps/indexer/src/hash.ts\<close>, the hashing of \<open>applyBlock\<close> in \<open>sync.ts\<close>)
  says about the blocks behind it. The hash function is a parameter.
\<close>

section \<open>What the hashes are computed from\<close>

definition hash_input :: "index_codec \<Rightarrow> ustring option \<Rightarrow> chain_block \<Rightarrow> bytes" where
  "hash_input ic previous b =
     (case previous of Some p \<Rightarrow> if p = [] then [] else hexToBytes p | None \<Rightarrow> []) @ utf8 (canonicalJson (J_arr (eventViews ic b)))"

lemma computeStateHash_input: "computeStateHash ic previous (eventViews ic b) = hex_text (ic_sha256 ic (hash_input ic previous b))"
  by (simp add: computeStateHash_def hash_input_def)

text \<open>The state hash after the last of a list of blocks, and the inputs of all of them.\<close>

fun hash_after :: "index_codec \<Rightarrow> chain_block list \<Rightarrow> ustring option \<Rightarrow> ustring option" where
  "hash_after ic [] previous = previous"
| "hash_after ic (b # bs) previous = hash_after ic bs (Some (hex_text (ic_sha256 ic (hash_input ic previous b))))"

fun hash_inputs :: "index_codec \<Rightarrow> chain_block list \<Rightarrow> ustring option \<Rightarrow> bytes list" where
  "hash_inputs ic [] previous = []"
| "hash_inputs ic (b # bs) previous =
     hash_input ic previous b # hash_inputs ic bs (Some (hex_text (ic_sha256 ic (hash_input ic previous b))))"

lemma hash_after_append: "hash_after ic (bs @ cs) p = hash_after ic cs (hash_after ic bs p)"
  by (induction bs arbitrary: p) simp_all

lemma hash_inputs_append: "hash_inputs ic (bs @ cs) p = hash_inputs ic bs p @ hash_inputs ic cs (hash_after ic bs p)"
  by (induction bs arbitrary: p) simp_all

lemma index_sorted: "index_of ic start bs = Inr db \<Longrightarrow> sorted_wrt (<) (map cp_height (db_checkpoints db))"
  by (simp only: index_of_parts(1,2)) (simp add: sorted_wrt_map sorted_wrt_upt)

lemma index_hash:
  assumes "index_of ic start bs = Inr db"
  shows "map_option cp_state_hash (lastCheckpoint db) = hash_after ic bs None"
  using assms
proof (induction bs arbitrary: db rule: rev_induct)
  case Nil
  then show ?case by (auto simp: index_of_def empty_db_def lastCheckpoint_def)
next
  case (snoc b bs)
  then obtain db1 row where one: "index_of ic start bs = Inr db1" and two: "applyBlock ic start b db1 = Inr (row, db)"
    by (auto simp: index_of_snoc)
  from two obtain rows tabs where row: "cp_state_hash row = computeStateHash ic (map_option cp_state_hash (lastCheckpoint db1)) (eventViews ic b)"
    "db = \<lparr>db_checkpoints = db_checkpoints db1 @ [row], db_log = rows, db_tables = tabs\<rparr>"
    by (rule applyBlock_Inr) simp
  from last_checkpoint_last [OF index_sorted [OF snoc.prems]] row have "lastCheckpoint db = Some row" by simp
  with row(1) snoc.IH [OF one] show ?case by (simp add: hash_after_append computeStateHash_input)
qed

lemma index_height:
  assumes "index_of ic start bs = Inr db" and "lastCheckpoint db = Some c"
  shows "bs \<noteq> []" "cp_height c = start + int (length bs) - 1"
proof -
  note parts = index_of_parts [OF assms(1)]
  have len: "length (db_checkpoints db) = length bs" using parts(1) by (metis length_map)
  from last_checkpoint_last [OF index_sorted [OF assms(1)]] assms(2) have c: "db_checkpoints db \<noteq> []" "c = last (db_checkpoints db)" by (auto split: if_splits)
  with len show ne: "bs \<noteq> []" by auto
  have "cp_height c = last (map cp_height (db_checkpoints db))" using c by (simp add: last_map)
  also have "\<dots> = last (map (\<lambda>i. start + int i) [0..<length bs])" unfolding parts(1,2) by simp
  also have "\<dots> = start + int (length bs) - 1" using ne by (simp add: last_map of_nat_diff Suc_le_eq)
  finally show "cp_height c = start + int (length bs) - 1" .
qed

section \<open>Hexadecimal texts\<close>

lemma hex_pairs_text: "hex_pairs (hex_text b) = b"
proof (induction b)
  case (Cons x xs)
  have x: "unat x < 256" using unsigned_less [where ?'a = nat, of x] by simp
  then have "unat x div 16 < 16" by simp
  moreover have "(of_nat (16 * (unat x div 16) + unat x mod 16) :: byte) = x"
    by (simp only: mult_div_mod_eq of_nat_unat ucast_id)
  ultimately show ?case using Cons by (simp add: hex_text_def hex_unit_digit del: of_nat_add of_nat_mult)
qed (simp add: hex_text_def)

lemma hex_unit_not_x: "n < 16 \<Longrightarrow> hex_unit n \<noteq> 0x78"
  using hex_unit_digit [of n] by (auto simp: hex_value_def)

lemma hexToBytes_text: "hexToBytes (hex_text b) = b"
proof (cases b)
  case (Cons x xs)
  have "take 2 (hex_text b) \<noteq> utf16 ''0x''"
    using Cons hex_unit_not_x [of "unat x mod 16"] by (simp add: hex_text_def utf16_def of_char_def numeral_2_eq_2)
  then show ?thesis by (simp add: hexToBytes_def hex_pairs_text)
qed (simp add: hexToBytes_def hex_text_def utf16_def)

lemma hex_text_inject: "hex_text a = hex_text b \<Longrightarrow> a = b"
  by (metis hex_pairs_text)

lemma hex_text_Nil: "hex_text b = [] \<longleftrightarrow> b = []"
  by (cases b) (simp_all add: hex_text_def)

section \<open>Events in canonical form\<close>

text \<open>Events that enter the hash in the same way: everything but the raw bytes, and data up to the order of members.\<close>

definition same_event :: "index_codec \<Rightarrow> chain_event \<Rightarrow> chain_event \<Rightarrow> bool" where
  "same_event ic e e' \<longleftrightarrow> ce_tx e = ce_tx e' \<and> ce_tx_id e = ce_tx_id e' \<and> ce_seq e = ce_seq e' \<and> ce_contract e = ce_contract e' \<and>
     ce_name e = ce_name e' \<and> ce_impacted e = ce_impacted e' \<and>
     sort_keys (toJsonValue ic (P_obj (ce_data e))) = sort_keys (toJsonValue ic (P_obj (ce_data e')))"

definition same_block :: "index_codec \<Rightarrow> chain_block \<Rightarrow> chain_block \<Rightarrow> bool" where
  "same_block ic b b' \<longleftrightarrow> list_all2 (same_event ic) (cb_events b) (cb_events b') \<and>
     (cb_events b \<noteq> [] \<longrightarrow> cb_height b = cb_height b' \<and> cb_id b = cb_id b')"

lemma json_real_free: "real_free (toJsonValue ic v)" "real_free_elements (json_elements ic xs)" "real_free_members (json_members ic ms)"
  by (induction v and xs and ms rule: toJsonValue_json_elements_json_members.induct) simp_all

lemma texts_real_free: "real_free_elements (map J_str xs)"
  by (induction xs) simp_all

lemma event_view_real_free: "real_free (event_view ic b e)"
  by (simp add: event_view_def json_real_free texts_real_free del: toJsonValue.simps)

lemma views_real_free: "real_free (J_arr (eventViews ic b))"
  by (simp add: eventViews_def real_free_elements_iff list_all_iff event_view_real_free)

lemma sort_elements_map: "sort_elements xs = map sort_keys xs"
  by (induction xs) simp_all

lemma sorted_view:
  "sort_keys (event_view ic b e) = J_obj [(''blockId'', J_str (cb_id b)), (''contract'', J_str (utf16 (ce_contract e))),
     (''data'', sort_keys (toJsonValue ic (P_obj (ce_data e)))), (''height'', J_str (int_text (cb_height b))),
     (''impacted'', J_arr (map J_str (ce_impacted e))), (''name'', J_str (utf16 (ce_name e))), (''sequence'', J_int (int (ce_seq e))),
     (''txId'', J_str (ce_tx_id e)), (''txIndex'', J_int (int (ce_tx e)))]"
  by (simp add: event_view_def sort_elements_map del: toJsonValue.simps)

lemma view_inject:
  "sort_keys (event_view ic b e) = sort_keys (event_view ic b' e') \<longleftrightarrow>
     same_event ic e e' \<and> cb_height b = cb_height b' \<and> cb_id b = cb_id b'"
proof -
  have "inj J_str" by (simp add: inj_def)
  then show ?thesis unfolding sorted_view same_event_def by (auto simp: inj_map_eq_map)
qed

lemma views_inject:
  assumes "sort_keys (J_arr (eventViews ic b)) = sort_keys (J_arr (eventViews ic b'))"
  shows "same_block ic b b'"
proof -
  have "list_all2 (=) (map sort_keys (eventViews ic b)) (map sort_keys (eventViews ic b'))"
    using assms by (simp add: sort_elements_map list.rel_eq)
  then have "list_all2 (\<lambda>e e'. same_event ic e e' \<and> cb_height b = cb_height b' \<and> cb_id b = cb_id b') (cb_events b) (cb_events b')"
    by (simp add: eventViews_def list.rel_map view_inject)
  then show ?thesis by (cases "cb_events b") (auto simp: same_block_def list_all2_Cons1 elim: list_all2_mono)
qed

section \<open>Equal hashes, equal histories\<close>

lemma append_same_length: "length a = length c \<Longrightarrow> a @ b = c @ d \<longleftrightarrow> a = c \<and> b = d"
  by simp

lemma equal_inputs:
  assumes "hash_input ic p b = hash_input ic p' b'" and "rel_option (\<lambda>x y. \<exists>u v. x = hex_text u \<and> y = hex_text v \<and> length u = 32 \<and> length v = 32) p p'"
  shows "p = p' \<and> same_block ic b b'"
proof -
  have same: "same_block ic b b'" if "utf8 (canonicalJson (J_arr (eventViews ic b))) = utf8 (canonicalJson (J_arr (eventViews ic b')))"
    by (rule views_inject [OF canonical_bytes_inject [OF views_real_free views_real_free that]])
  show ?thesis
  proof (cases p)
    case None
    with assms same show ?thesis by (auto simp: hash_input_def)
  next
    case (Some x)
    with assms(2) obtain u v where uv: "p = Some (hex_text u)" "p' = Some (hex_text v)" "length u = 32" "length v = 32"
      by (auto simp: option_rel_Some1)
    then have "u \<noteq> []" "v \<noteq> []" by auto
    with uv have "u @ utf8 (canonicalJson (J_arr (eventViews ic b))) = v @ utf8 (canonicalJson (J_arr (eventViews ic b')))"
      using assms(1) by (auto simp: hash_input_def hexToBytes_text hex_text_Nil)
    with uv same show ?thesis by simp
  qed
qed

lemma hash_after_text:
  assumes "\<forall>x. length (ic_sha256 ic x) = 32"
  shows "bs = [] \<or> (\<exists>u. hash_after ic bs None = Some (hex_text u) \<and> length u = 32)"
  using assms by (cases bs rule: rev_cases) (auto simp: hash_after_append)

lemma equal_histories:
  assumes "length bs = length bs'" and "\<forall>x. length (ic_sha256 ic x) = 32"
    and "inj_on (ic_sha256 ic) (set (hash_inputs ic bs None) \<union> set (hash_inputs ic bs' None))"
    and "hash_after ic bs None = hash_after ic bs' None"
  shows "list_all2 (same_block ic) bs bs'"
  using assms(1,3,4)
proof (induction bs arbitrary: bs' rule: rev_induct)
  case (snoc b bs)
  then obtain bs2 b2 where bs': "bs' = bs2 @ [b2]" by (cases bs' rule: rev_cases) auto
  with snoc.prems(1) have len: "length bs = length bs2" by simp
  let ?p = "hash_after ic bs None" and ?p2 = "hash_after ic bs2 None"
  have "hex_text (ic_sha256 ic (hash_input ic ?p b)) = hex_text (ic_sha256 ic (hash_input ic ?p2 b2))"
    using snoc.prems(3) by (simp add: bs' hash_after_append)
  then have "ic_sha256 ic (hash_input ic ?p b) = ic_sha256 ic (hash_input ic ?p2 b2)" by (rule hex_text_inject)
  from inj_onD [OF snoc.prems(2) this] have input: "hash_input ic ?p b = hash_input ic ?p2 b2"
    by (simp add: bs' hash_inputs_append)
  have "rel_option (\<lambda>x y. \<exists>u v. x = hex_text u \<and> y = hex_text v \<and> length u = 32 \<and> length v = 32) ?p ?p2"
  proof (cases "bs = []")
    case True
    with len show ?thesis by simp
  next
    case False
    with len have "bs2 \<noteq> []" by auto
    with False hash_after_text [OF assms(2), of bs] hash_after_text [OF assms(2), of bs2] obtain u v
      where "?p = Some (hex_text u)" "length u = 32" "?p2 = Some (hex_text v)" "length v = 32" by blast
    then show ?thesis by (simp, blast)
  qed
  from equal_inputs [OF input this] have same: "?p = ?p2" "same_block ic b b2" by simp_all
  moreover have "inj_on (ic_sha256 ic) (set (hash_inputs ic bs None) \<union> set (hash_inputs ic bs2 None))"
    using snoc.prems(2) unfolding bs' hash_inputs_append by (rule inj_on_subset) auto
  from snoc.IH [OF len this same(1)] same(2) bs' show ?case by (simp add: list_all2_appendI)
qed simp

text \<open>
  C8: The state hash commits to the whole history: two indexers that report the same state hash at the same
  height have applied events with the same JSON views, block for block and in the same order, the data equal up to the
  order of members, and every block that has events has the same id and height in both; unless two of the inputs
  hashed on the way collide. (The id of a block without events is not hashed.)
\<close>

theorem state_hash_commits:
  assumes "index_of ic start bs = Inr db" and "index_of ic start bs' = Inr db'"
    and "lastCheckpoint db = Some c" and "lastCheckpoint db' = Some c'"
    and "cp_height c = cp_height c'" and "cp_state_hash c = cp_state_hash c'"
    and "inj_on (ic_sha256 ic) (set (hash_inputs ic bs None) \<union> set (hash_inputs ic bs' None))"
    and "\<forall>x. length (ic_sha256 ic x) = 32"
  shows "list_all2 (same_block ic) bs bs'"
proof (rule equal_histories [OF _ assms(8,7)])
  show "length bs = length bs'"
    using index_height(2) [OF assms(1,3)] index_height(2) [OF assms(2,4)] assms(5) by simp
  show "hash_after ic bs None = hash_after ic bs' None"
    using index_hash [OF assms(1)] index_hash [OF assms(2)] assms(3,4,6) by simp
qed

definition short_codec :: index_codec where
  "short_codec = demo_codec\<lparr>ic_sha256 := \<lambda>x. take 32 (rev x @ replicate 32 0)\<rparr>"

abbreviation two_blocks :: "chain_block list" where
  "two_blocks \<equiv> [plain_block 1 65 64, plain_block 2 66 65]"

text \<open>The same blocks with the clock of another node.\<close>

abbreviation other_clock :: "chain_block list" where
  "other_clock \<equiv> map (cb_timestamp_update (\<lambda>t. [49])) two_blocks"

lemma two_indexed: "\<exists>db. index_of short_codec 1 two_blocks = Inr db" "\<exists>db. index_of short_codec 1 other_clock = Inr db"
  by (simp_all add: index_of_def applyBlock_def plain_block_def empty_db_def lastCheckpoint_def Let_def insert_row_def row_pos_def
      log_row_def apply_event_js_def applyEvent_def block_log_event_def)

lemma two_inputs: "hash_inputs short_codec other_clock None = hash_inputs short_codec two_blocks None"
  "hash_after short_codec other_clock None = hash_after short_codec two_blocks None"
  by (simp_all add: hash_input_def eventViews_def event_view_def plain_block_def)

lemma two_distinct: "inj_on (ic_sha256 short_codec) (set (hash_inputs short_codec two_blocks None))"
  by code_simp

theorem state_hash_commits_witness:
  "\<exists>db db' c c'. index_of short_codec 1 two_blocks = Inr db \<and> index_of short_codec 1 other_clock = Inr db' \<and>
     lastCheckpoint db = Some c \<and> lastCheckpoint db' = Some c' \<and> cp_state_hash c = cp_state_hash c' \<and>
     list_all2 (same_block short_codec) two_blocks other_clock"
proof -
  from two_indexed obtain db db' where run: "index_of short_codec 1 two_blocks = Inr db" "index_of short_codec 1 other_clock = Inr db'" by blast
  have "map_option cp_state_hash (lastCheckpoint db) = map_option cp_state_hash (lastCheckpoint db')"
    using run [THEN index_hash] by (simp only: two_inputs)
  moreover have "lastCheckpoint db \<noteq> None" using index_hash [OF run(1)] by auto
  ultimately obtain c c' where c: "lastCheckpoint db = Some c" "lastCheckpoint db' = Some c'" "cp_state_hash c = cp_state_hash c'"
    by (cases "lastCheckpoint db"; cases "lastCheckpoint db'") auto
  have "cp_height c = cp_height c'" using index_height(2) [OF run(1) c(1)] index_height(2) [OF run(2) c(2)] by simp
  moreover have "inj_on (ic_sha256 short_codec) (set (hash_inputs short_codec two_blocks None) \<union> set (hash_inputs short_codec other_clock None))"
    using two_distinct by (simp only: two_inputs Un_absorb)
  moreover have "\<forall>x. length (ic_sha256 short_codec x) = 32" by (auto simp: short_codec_def min_def)
  ultimately have "list_all2 (same_block short_codec) two_blocks other_clock"
    using state_hash_commits [OF run c(1,2)] c(3) by blast
  with run c show ?thesis by blast
qed

end
