(* ===== verification/Cross_Post.thy ===== *)
theory Cross_Post
  imports Identifiers Reconcile Sponsor_Service
begin

text \<open>
  The cross-post queue of the browser extension (\<open>apps/extension/src/background/crosspost.ts\<close>, the actions of
  \<open>shared/queue.ts\<close>, the error classes of \<open>background/publish.ts\<close>): one persisted record per aid, driven by the
  transitions and the Reconciler of the SDK. The file in the browser's storage is kept with all its earlier
  versions, since the browser may stop the extension after any of them. Accounts, publishing, lookups and
  proofs are calls into the world outside. The parsing of URLs belongs to the browser.
\<close>

section \<open>Records\<close>

datatype adapter = Facebook | Generic | Sidepanel

record proof_ref =
  pf_manifest :: ustring
  pf_tx :: ustring
  pf_recorded :: int
  pf_outcome :: int

text \<open>\<open>StoredCrossPost\<close> extends the record of the SDK, here its first field.\<close>

record stored_cross_post =
  sp_base :: cross_post_record
  sp_adapter :: adapter
  sp_author :: "ustring option"
  sp_text :: "ustring option"
  sp_url :: "ustring option"
  sp_host_submitted :: bool
  sp_title :: "ustring option"
  sp_created :: int
  sp_content_hash :: "ustring option"
  sp_version :: "int option"
  sp_sequence :: "ustring option"
  sp_epoch :: "int option"
  sp_expected_post :: "ustring option"
  sp_pending_tx :: "ustring option"
  sp_proof :: "proof_ref option"
  sp_proof_error :: "ustring option"

type_synonym cross_post_file = "stored_cross_post list"

abbreviation sp_attempt :: "stored_cross_post \<Rightarrow> ustring" where
  "sp_attempt r \<equiv> cp_attempt (sp_base r)"

abbreviation sp_state :: "stored_cross_post \<Rightarrow> cross_post_state" where
  "sp_state r \<equiv> cp_state (sp_base r)"

abbreviation sp_koinos :: "stored_cross_post \<Rightarrow> side_status" where
  "sp_koinos r \<equiv> cp_koinos (sp_base r)"

abbreviation sp_host :: "stored_cross_post \<Rightarrow> side_status" where
  "sp_host r \<equiv> cp_host (sp_base r)"

definition baseRecord :: "stored_cross_post \<Rightarrow> cross_post_record" where
  "baseRecord record = sp_base record"

definition merge :: "stored_cross_post \<Rightarrow> cross_post_record \<Rightarrow> stored_cross_post" where
  "merge record next1 = record\<lparr>sp_base := next1\<lparr>cp_host_site :=
     (case cp_host_site next1 of None \<Rightarrow> cp_host_site (sp_base record) | Some h \<Rightarrow> Some h)\<rparr>\<rparr>"

section \<open>Why a submission failed\<close>

record publish_attempt =
  at_post :: ustring
  at_content_hash :: ustring
  at_sequence :: ustring
  at_epoch :: int
  at_tx :: "ustring option"

record publish_outcome =
  out_attempt :: publish_attempt
  out_tx :: ustring

datatype error_class = Class_unknown | Class_reverted | Class_sponsor refusal_category | Class_other

text \<open>An error of publishing; \<open>PublishAttemptError\<close> wraps the cause and carries the attempt.\<close>

record publish_error =
  pe_class :: error_class
  pe_message :: ustring
  pe_attempt :: "publish_attempt option"

datatype failure_kind = Kind_unknown | Kind_duplicate | Kind_failed

record submit_failure =
  sf_kind :: failure_kind
  sf_message :: ustring
  sf_attempt :: "publish_attempt option"

definition TRANSPORT_RE :: "string list" where
  "TRANSPORT_RE = [''timeout'', ''timed out'', ''deadline'', ''network'', ''failed to fetch'', ''aborted'', ''econnreset'', ''socket'']"

definition classify :: "error_class \<Rightarrow> ustring \<Rightarrow> bool \<Rightarrow> failure_kind \<times> ustring" where
  "classify c message submitted =
     (if c = Class_unknown then (Kind_unknown, message)
      else if c = Class_reverted
      then if matches_any [''duplicate idempotency key''] message then (Kind_duplicate, message) else (Kind_failed, message)
      else if matches_any [''duplicate idempotency key''] message then (Kind_duplicate, message)
      else case c of
          Class_sponsor category \<Rightarrow> (Kind_failed, utf16 ''Sponsor refused ('' @ utf16 (category_key category) @ utf16 ''): '' @ message)
        | _ \<Rightarrow> if submitted \<and> matches_any TRANSPORT_RE message then (Kind_unknown, message) else (Kind_failed, message))"

definition classifySubmitError :: "publish_error \<Rightarrow> submit_failure" where
  "classifySubmitError err =
     (let (kind, message) = classify (pe_class err) (pe_message err) (pe_attempt err \<noteq> None)
      in \<lparr>sf_kind = kind, sf_message = message, sf_attempt = pe_attempt err\<rparr>)"

section \<open>Actions of the queue\<close>

datatype queue_action = Act_confirm | Act_retry | Act_reconcile | Act_mark_posted | Act_mark_failed | Act_record_proof | Act_discard

definition STALE_SUBMITTING_MS :: int where "STALE_SUBMITTING_MS = 120000"
definition MAX_RECORDS :: nat where "MAX_RECORDS = 200"

definition needsProof :: "stored_cross_post \<Rightarrow> bool" where
  "needsProof r \<longleftrightarrow> sp_adapter r = Facebook \<and> sp_host r \<noteq> Side_not_required \<and> sp_koinos r = Side_ok \<and>
     (cp_post (sp_base r) \<noteq> None \<and> cp_post (sp_base r) \<noteq> Some []) \<and> (sp_host r = Side_ok \<or> sp_host r = Side_failed) \<and> sp_proof r = None"

text \<open>The actions and the attention flag of \<open>explain\<close>; its texts are left out.\<close>

definition explain :: "stored_cross_post \<Rightarrow> int \<Rightarrow> queue_action list \<times> bool" where
  "explain r t =
     (let proofAction = (if needsProof r then [Act_record_proof] else [])
      in case sp_state r of
           Draft \<Rightarrow> ([Act_confirm, Act_discard], True)
         | Submitting \<Rightarrow>
             if sp_koinos r = Side_ok \<and> sp_host r = Side_pending then ([Act_mark_posted, Act_mark_failed], True)
             else if sp_koinos r = Side_failed \<and> sp_host r = Side_pending then ([Act_retry, Act_mark_posted, Act_mark_failed, Act_discard], True)
             else let stale = t - cp_updated (sp_base r) > STALE_SUBMITTING_MS in (if stale then [Act_reconcile] else [], stale)
         | Succeeded \<Rightarrow> (proofAction, False)
         | Partial \<Rightarrow>
             if sp_koinos r = Side_ok then (proofAction, proofAction \<noteq> [])
             else ([Act_retry, Act_discard], True)
         | Unknown_outcome \<Rightarrow> ([Act_reconcile], True)
         | Failed \<Rightarrow> ([Act_retry, Act_discard], True)
         | Reconcile_required \<Rightarrow> ([Act_discard], True))"

definition needsAttention :: "stored_cross_post \<Rightarrow> int \<Rightarrow> bool" where
  "needsAttention r t = snd (explain r t)"

text \<open>Whether a link to the host post is refused; \<open>new URL\<close> gives protocol and host name, or throws.\<close>

definition hostRefProblem :: "(ustring \<Rightarrow> (ustring \<times> ustring) option) \<Rightarrow> stored_cross_post \<Rightarrow> ustring option \<Rightarrow> bool" where
  "hostRefProblem parse_url r hostRef =
     (case hostRef of
        None \<Rightarrow> True
      | Some link \<Rightarrow>
          if link = [] \<or> length link > 2048 then True
          else case parse_url link of
            None \<Rightarrow> True
          | Some (protocol, hostname) \<Rightarrow>
              (protocol \<noteq> utf16 ''https:'' \<and> protocol \<noteq> utf16 ''http:'') \<or>
              (cp_host_site (sp_base r) = Some (utf16 ''facebook'') \<and>
               \<not> (hostname = utf16 ''facebook.com'' \<or> suffix (utf16 ''.facebook.com'') hostname)))"

section \<open>The orchestrator\<close>

record proof_result =
  pr_manifest :: ustring
  pr_tx :: ustring
  pr_outcome :: int
  pr_koinos_tx :: ustring

record 'w queue_deps =
  qd_now :: "'w \<Rightarrow> int"
  qd_account :: "('w, ustring option) io"
  qd_publish :: "stored_cross_post \<Rightarrow> 'w \<Rightarrow> (publish_error + publish_outcome) \<times> 'w"
  qd_chain :: "ustring \<Rightarrow> bytes \<Rightarrow> ('w, bytes option option) io"
  qd_indexer :: "(ustring \<Rightarrow> stored_cross_post \<Rightarrow> ('w, (ustring \<times> ustring option) option) io) option"
  qd_proof :: "(stored_cross_post \<Rightarrow> ('w, proof_result) io) option"
  qd_store :: "('w, unit) io" \<comment> \<open>whether \<open>storage.set\<close> succeeds\<close>
  qd_changed :: "cross_post_file \<Rightarrow> ('w, unit) io"
  qd_codec :: codec
  qd_to_hex :: "bytes \<Rightarrow> ustring"
  qd_parse_url :: "ustring \<Rightarrow> (ustring \<times> ustring) option"

text \<open>All versions of the file, the current one first.\<close>

record 'w queue_world =
  qw_files :: "cross_post_file list"
  qw_out :: 'w

type_synonym ('w, 'a) queueing = "('w queue_world, 'a) io"

definition calls :: "('w, 'a) io \<Rightarrow> ('w, 'a) queueing" where
  "calls m s = (case m (qw_out s) of (r, w) \<Rightarrow> (r, s\<lparr>qw_out := w\<rparr>))"

definition at_now :: "'w queue_deps \<Rightarrow> (int \<Rightarrow> ('w, 'a) queueing) \<Rightarrow> ('w, 'a) queueing" where
  "at_now qd k s = k (qd_now qd (qw_out s)) s"

definition cross_error :: "string \<Rightarrow> ('w, 'a) queueing" where
  "cross_error m = io_throw (Thrown (utf16 m))"

definition load_queue :: "('w, cross_post_file) queueing" where
  "load_queue s = (Inr (case qw_files s of [] \<Rightarrow> [] | F # _ \<Rightarrow> F), s)"

text \<open>Beyond the limit the oldest finished records are dropped.\<close>

definition kept_records :: "cross_post_file \<Rightarrow> cross_post_file" where
  "kept_records records =
     (if length records > MAX_RECORDS
      then let finished = sort_key (\<lambda>r. cp_updated (sp_base r)) (filter (\<lambda>r. sp_state r = Succeeded) records);
               drop = map sp_attempt (take (length records - MAX_RECORDS) finished)
           in filter (\<lambda>r. sp_attempt r \<notin> set drop) records
      else records)"

definition write_file :: "cross_post_file \<Rightarrow> ('w, unit) queueing" where
  "write_file records s = (Inr (), s\<lparr>qw_files := records # qw_files s\<rparr>)"

definition save_queue :: "'w queue_deps \<Rightarrow> cross_post_file \<Rightarrow> ('w, cross_post_file) queueing" where
  "save_queue qd records =
     (let kept = kept_records records
      in io_let (calls (qd_store qd)) (\<lambda>_. io_let (write_file kept) (\<lambda>_.
         io_let (calls (qd_changed qd kept)) (\<lambda>_. io_return kept))))"

definition find_attempt :: "ustring \<Rightarrow> cross_post_file \<Rightarrow> stored_cross_post option" where
  "find_attempt aid records = find (\<lambda>r. sp_attempt r = aid) records"

fun replace_first :: "stored_cross_post \<Rightarrow> cross_post_file \<Rightarrow> cross_post_file" where
  "replace_first record [] = []"
| "replace_first record (r # rs) = (if sp_attempt r = sp_attempt record then record # rs else r # replace_first record rs)"

text \<open>The file is the object in memory, which \<open>save_queue\<close> has pruned; the record comes back as it went in.\<close>

definition update :: "'w queue_deps \<Rightarrow> cross_post_file \<Rightarrow> stored_cross_post \<Rightarrow> ('w, cross_post_file) queueing" where
  "update qd records record =
     save_queue qd (if find_attempt (sp_attempt record) records \<noteq> None then replace_first record records else record # records)"

definition queue_list :: "('w, cross_post_file) queueing" where
  "queue_list = io_let load_queue (\<lambda>records. io_return (sort_key (\<lambda>r. - sp_created r) records))"

definition queue_get :: "ustring \<Rightarrow> ('w, stored_cross_post option) queueing" where
  "queue_get aid = io_let load_queue (\<lambda>records. io_return (find_attempt aid records))"

section \<open>Keys\<close>

definition fromHex :: "ustring \<Rightarrow> bytes js" where
  "fromHex hex =
     (let clean = (if take 2 hex = utf16 ''0x'' \<or> take 2 hex = utf16 ''0X'' then drop 2 hex else hex)
      in if clean = [] then Inr []
         else if odd (length clean) \<or> \<not> list_all (\<lambda>c. hex_digit c \<noteq> None) clean then Inl (Encoding_error (utf16 ''invalid hex string''))
         else Inr (hexToBytes clean))"

definition attempt_key :: "'w queue_deps \<Rightarrow> ustring \<Rightarrow> ustring \<Rightarrow> ustring js" where
  "attempt_key qd account aid =
     js_let (fromHex aid) (\<lambda>a. js_let (sdk_idempotencyKey (qd_codec qd) (Address_text account) a) (\<lambda>k. Inr (qd_to_hex qd k)))"

definition lift_js :: "'a js \<Rightarrow> ('w, 'a) queueing" where
  "lift_js x s = (x, s)"

section \<open>Drafts\<close>

record fresh_input =
  fi_attempt :: ustring
  fi_adapter :: adapter
  fi_host_site :: "ustring option"
  fi_audience :: int
  fi_text :: ustring
  fi_url :: "ustring option"
  fi_title :: "ustring option"
  fi_host_submitted :: bool

definition non_empty :: "ustring option \<Rightarrow> ustring option" where
  "non_empty v = (case v of Some s \<Rightarrow> if s = [] then None else Some s | None \<Rightarrow> None)"

definition fresh :: "'w queue_deps \<Rightarrow> fresh_input \<Rightarrow> ('w, stored_cross_post) queueing" where
  "fresh qd inp =
     io_let (calls (qd_account qd)) (\<lambda>account.
     io_let (case non_empty account of None \<Rightarrow> io_return [] | Some a \<Rightarrow> lift_js (attempt_key qd a (fi_attempt inp))) (\<lambda>key.
     at_now qd (\<lambda>t. io_return
       \<lparr>sp_base = newCrossPostRecord (qd_to_hex qd) t \<lparr>ni_key = Hex_text key, ni_attempt = Hex_text (fi_attempt inp),
          ni_host_site = fi_host_site inp, ni_audience = fi_audience inp, ni_now = Some t\<rparr>,
        sp_adapter = fi_adapter inp, sp_author = non_empty account, sp_text = Some (fi_text inp), sp_url = non_empty (fi_url inp),
        sp_host_submitted = fi_host_submitted inp, sp_title = non_empty (fi_title inp), sp_created = t,
        sp_content_hash = None, sp_version = None, sp_sequence = None, sp_epoch = None, sp_expected_post = None, sp_pending_tx = None,
        sp_proof = None, sp_proof_error = None\<rparr>)))"

definition add_draft :: "'w queue_deps \<Rightarrow> fresh_input \<Rightarrow> ('w, stored_cross_post) queueing" where
  "add_draft qd inp =
     io_let load_queue (\<lambda>records.
     case find_attempt (fi_attempt inp) records of
       Some existing \<Rightarrow> io_return existing
     | None \<Rightarrow> io_let (fresh qd inp) (\<lambda>record. io_let (update qd records record) (\<lambda>_. io_return record)))"

definition propose :: "'w queue_deps \<Rightarrow> ustring \<Rightarrow> ustring \<Rightarrow> ustring \<Rightarrow> bool \<Rightarrow> ('w, stored_cross_post) queueing" where
  "propose qd aid txt url submitted =
     add_draft qd \<lparr>fi_attempt = aid, fi_adapter = Facebook, fi_host_site = Some (utf16 ''facebook''), fi_audience = 0,
       fi_text = txt, fi_url = Some url, fi_title = None, fi_host_submitted = submitted\<rparr>"

record create_payload =
  pl_text :: ustring
  pl_audience :: int
  pl_generic :: bool \<comment> \<open>the adapter is \<open>generic\<close>, otherwise \<open>sidepanel\<close>\<close>
  pl_url :: "ustring option"
  pl_title :: "ustring option"

definition create :: "'w queue_deps \<Rightarrow> create_payload \<Rightarrow> ustring \<Rightarrow> ('w, stored_cross_post) queueing" where
  "create qd payload aid =
     add_draft qd \<lparr>fi_attempt = aid, fi_adapter = (if pl_generic payload then Generic else Sidepanel), fi_host_site = None,
       fi_audience = pl_audience payload, fi_text = pl_text payload, fi_url = pl_url payload, fi_title = pl_title payload,
       fi_host_submitted = False\<rparr>"

section \<open>Publishing\<close>

definition queue_reconciler :: "'w queue_deps \<Rightarrow> stored_cross_post \<Rightarrow> 'w reconciler" where
  "queue_reconciler qd record = \<lparr>rc_chain = qd_chain qd,
     rc_indexer = map_option (\<lambda>look author key. look author record) (qd_indexer qd), rc_now = qd_now qd, rc_to_hex = qd_to_hex qd\<rparr>"

definition adoptPendingTx :: "stored_cross_post \<Rightarrow> cross_post_record \<Rightarrow> cross_post_record" where
  "adoptPendingTx stored current =
     (case non_empty (sp_pending_tx stored) of
        Some tx \<Rightarrow>
          if cp_koinos current = Side_ok \<and> cp_tx current = None \<and> non_empty (sp_expected_post stored) \<noteq> None \<and>
             cp_post current = sp_expected_post stored
          then current\<lparr>cp_tx := Some tx\<rparr> else current
      | None \<Rightarrow> current)"

definition maybeProof :: "'w queue_deps \<Rightarrow> cross_post_file \<Rightarrow> stored_cross_post \<Rightarrow> ('w, stored_cross_post) queueing" where
  "maybeProof qd records record =
     (case qd_proof qd of
        None \<Rightarrow> io_return record
      | Some prove \<Rightarrow>
          if \<not> needsProof record then io_return record
          else io_let (io_try (calls (prove record)) (\<lambda>p. io_return (Inr p)) (\<lambda>e. io_return (Inl e))) (\<lambda>answer.
            case answer of
              Inr p \<Rightarrow> at_now qd (\<lambda>t.
                let next1 = record\<lparr>sp_base := (if cp_tx (sp_base record) = None \<and> pr_koinos_tx p \<noteq> []
                                               then (sp_base record)\<lparr>cp_tx := Some (pr_koinos_tx p)\<rparr> else sp_base record),
                      sp_proof := Some \<lparr>pf_manifest = pr_manifest p, pf_tx = pr_tx p, pf_recorded = t, pf_outcome = pr_outcome p\<rparr>,
                      sp_proof_error := None\<rparr>
                in io_let (update qd records next1) (\<lambda>_. io_return next1))
            | Inl e \<Rightarrow>
                let next1 = record\<lparr>sp_proof_error := Some (error_message e)\<rparr>
                in io_let (update qd records next1) (\<lambda>_. io_return next1)))"

definition with_attempt :: "stored_cross_post \<Rightarrow> publish_attempt \<Rightarrow> ustring option \<Rightarrow> stored_cross_post" where
  "with_attempt record a pending = record\<lparr>sp_content_hash := Some (at_content_hash a), sp_version := Some 1,
     sp_sequence := Some (at_sequence a), sp_epoch := Some (at_epoch a), sp_expected_post := Some (at_post a),
     sp_pending_tx := (case pending of Some t \<Rightarrow> Some t | None \<Rightarrow> sp_pending_tx record)\<rparr>"

text \<open>What one call to \<open>publishKoinos\<close> makes of the record: the record with its attempt, the new
  state, and whether a pending transaction id was noted.\<close>

definition publish_once :: "'w queue_deps \<Rightarrow> stored_cross_post \<Rightarrow> ('w, stored_cross_post \<times> cross_post_record \<times> bool) queueing" where
  "publish_once qd record s =
     (case qd_publish qd record (qw_out s) of
        (Inr outcome, w) \<Rightarrow>
          (Inr (with_attempt record (out_attempt outcome) None,
             transition (qd_now qd w) (baseRecord record)
               (Koinos_succeeded (out_tx outcome) (at_post (out_attempt outcome)) (Some (qd_now qd w))), False), s\<lparr>qw_out := w\<rparr>)
      | (Inl err, w) \<Rightarrow>
          let failure = classifySubmitError err; s' = s\<lparr>qw_out := w\<rparr>; t = qd_now qd w;
              pending = (case sf_attempt failure of None \<Rightarrow> None
                         | Some a \<Rightarrow> if sf_kind failure = Kind_unknown then non_empty (at_tx a) else None);
              known = (case sf_attempt failure of None \<Rightarrow> record | Some a \<Rightarrow> with_attempt record a pending)
          in case sf_kind failure of
               Kind_unknown \<Rightarrow> (Inr (known, transition t (baseRecord record) (Koinos_unknown (Some (sf_message failure)) (Some t)), pending \<noteq> None), s')
             | Kind_duplicate \<Rightarrow>
                 io_let (calls (lookup (queue_reconciler qd known)
                     (transition t (baseRecord record) (Koinos_failed (sf_message failure) (Some t)))
                     (case sp_author record of Some a \<Rightarrow> a | None \<Rightarrow> [])))
                   (\<lambda>current. io_return (known, adoptPendingTx known current, False)) s'
             | Kind_failed \<Rightarrow> (Inr (known, transition t (baseRecord record) (Koinos_failed (sf_message failure) (Some t)), False), s'))"

definition drop_draft :: "bool \<Rightarrow> stored_cross_post \<Rightarrow> stored_cross_post" where
  "drop_draft noted r = (if sp_koinos r = Side_ok then r\<lparr>sp_text := None, sp_pending_tx := None\<rparr>
     else if \<not> noted then r\<lparr>sp_pending_tx := None\<rparr> else r)"

definition cross_publish :: "'w queue_deps \<Rightarrow> cross_post_file \<Rightarrow> stored_cross_post \<Rightarrow> ('w, stored_cross_post) queueing" where
  "cross_publish qd records record =
     io_let (publish_once qd record) (\<lambda>(known, current, noted).
     let next1 = drop_draft noted (merge known current)
     in io_let (update qd records next1) (\<lambda>records'. maybeProof qd records' next1))"

text \<open>The last part of \<open>confirm\<close>, for the account that is unlocked.\<close>

definition confirm_as :: "'w queue_deps \<Rightarrow> cross_post_file \<Rightarrow> stored_cross_post \<Rightarrow> ustring \<Rightarrow> int option \<Rightarrow> ('w, stored_cross_post) queueing" where
  "confirm_as qd records record a audience =
     io_let (lift_js (attempt_key qd a (sp_attempt record))) (\<lambda>key. at_now qd (\<lambda>t.
       let base = (sp_base record)\<lparr>cp_audience := (case audience of Some x \<Rightarrow> x | None \<Rightarrow> cp_audience (sp_base record)), cp_key := key\<rparr>;
           prepared = record\<lparr>sp_author := Some a, sp_base := base\<rparr>;
           prepared' = merge prepared (transition t base (Retry (Some t)))
       in io_let (update qd records prepared') (\<lambda>records'. cross_publish qd records' prepared')))"

definition confirm :: "'w queue_deps \<Rightarrow> ustring \<Rightarrow> int option \<Rightarrow> ('w, stored_cross_post) queueing" where
  "confirm qd aid audience =
     io_let load_queue (\<lambda>records.
     case find_attempt aid records of
       None \<Rightarrow> cross_error ''Unknown attempt.''
     | Some record \<Rightarrow>
         if sp_state record \<noteq> Draft then cross_error ''use retry or reconcile instead.''
         else io_let (calls (qd_account qd)) (\<lambda>account.
           case non_empty account of
             None \<Rightarrow> cross_error ''Unlock your account first.''
           | Some a \<Rightarrow>
               if non_empty (sp_author record) \<noteq> None \<and> sp_author record \<noteq> Some a then cross_error ''This draft belongs to another account.''
               else confirm_as qd records record a audience))"

definition settle_found :: "stored_cross_post \<Rightarrow> cross_post_record \<Rightarrow> stored_cross_post" where
  "settle_found record current = (let r = merge record current in if sp_koinos r = Side_ok then r\<lparr>sp_text := None, sp_pending_tx := None\<rparr> else r)"

definition look_up :: "'w queue_deps \<Rightarrow> stored_cross_post \<Rightarrow> cross_post_record \<Rightarrow> ustring \<Rightarrow> ('w, cross_post_record) queueing" where
  "look_up qd record current account =
     io_let (calls (lookup (queue_reconciler qd record) current account)) (\<lambda>found. io_return (adoptPendingTx record found))"

definition update_and_prove :: "'w queue_deps \<Rightarrow> cross_post_file \<Rightarrow> stored_cross_post \<Rightarrow> ('w, stored_cross_post) queueing" where
  "update_and_prove qd records record = io_let (update qd records record) (\<lambda>records'. maybeProof qd records' record)"

text \<open>The second half of \<open>retry\<close>, once an unknown outcome has been looked up.\<close>

definition send_again :: "'w queue_deps \<Rightarrow> cross_post_file \<Rightarrow> stored_cross_post \<Rightarrow> cross_post_record \<Rightarrow> ('w, stored_cross_post) queueing" where
  "send_again qd records record current =
     at_now qd (\<lambda>t.
       let prepared = merge record (transition t current (Retry (Some t)))
       in io_let (update qd records prepared) (\<lambda>records'.
          if fst (retryPlan current)
          then if non_empty (sp_text prepared) = None then cross_error ''The draft text is gone; discard this attempt and post again.''
               else cross_publish qd records' prepared
          else io_return prepared))"

text \<open>The part of \<open>retry\<close> that follows its checks: an unknown outcome is looked up first.\<close>

definition retry_as :: "'w queue_deps \<Rightarrow> cross_post_file \<Rightarrow> stored_cross_post \<Rightarrow> ustring \<Rightarrow> ('w, stored_cross_post) queueing" where
  "retry_as qd records record a =
     (if sp_koinos record = Side_unknown
      then io_let (look_up qd record (baseRecord record) a) (\<lambda>current.
        if cp_koinos current = Side_ok \<or> cp_state current = Reconcile_required
        then update_and_prove qd records (settle_found record current)
        else send_again qd records record current)
      else send_again qd records record (baseRecord record))"

definition retry_attempt :: "'w queue_deps \<Rightarrow> ustring \<Rightarrow> ('w, stored_cross_post) queueing" where
  "retry_attempt qd aid =
     io_let load_queue (\<lambda>records.
     case find_attempt aid records of
       None \<Rightarrow> cross_error ''Unknown attempt.''
     | Some record \<Rightarrow> at_now qd (\<lambda>t.
         if Act_retry \<notin> set (fst (explain record t)) \<and> sp_state record \<noteq> Unknown_outcome then cross_error ''Retry is not available.''
         else io_let (calls (qd_account qd)) (\<lambda>account.
           case non_empty account of
             None \<Rightarrow> cross_error ''Unlock your account first.''
           | Some a \<Rightarrow>
               if non_empty (sp_author record) \<noteq> None \<and> sp_author record \<noteq> Some a then cross_error ''This attempt belongs to another account.''
               else retry_as qd records record a)))"

section \<open>Looking up, reporting, discarding\<close>

definition is_stale :: "stored_cross_post \<Rightarrow> int \<Rightarrow> bool" where
  "is_stale r t \<longleftrightarrow> sp_state r = Submitting \<and> t - cp_updated (sp_base r) > STALE_SUBMITTING_MS \<and> sp_koinos r = Side_pending"

definition reconcile_attempt :: "'w queue_deps \<Rightarrow> ustring \<Rightarrow> ('w, stored_cross_post) queueing" where
  "reconcile_attempt qd aid =
     io_let load_queue (\<lambda>records.
     case find_attempt aid records of
       None \<Rightarrow> cross_error ''Unknown attempt.''
     | Some record \<Rightarrow>
         io_let (case sp_author record of Some a \<Rightarrow> io_return (Some a) | None \<Rightarrow> calls (qd_account qd)) (\<lambda>account.
         case non_empty account of
           None \<Rightarrow> cross_error ''Unlock your account first.''
         | Some a \<Rightarrow>
             io_let (if cp_key (sp_base record) \<noteq> [] then io_return (cp_key (sp_base record)) else lift_js (attempt_key qd a (sp_attempt record))) (\<lambda>key.
             at_now qd (\<lambda>t.
               let base = (sp_base record)\<lparr>cp_key := key\<rparr>;
                   current = (if is_stale record t
                              then transition t base (Koinos_unknown (Some (utf16 ''interrupted before the node answered'')) (Some t)) else base)
               in if cp_state current = Draft then io_return record
                  else io_let (look_up qd record current a) (\<lambda>found.
                    update_and_prove qd records (settle_found (record\<lparr>sp_author := Some a, sp_base := (sp_base record)\<lparr>cp_key := cp_key found\<rparr>\<rparr>) found))))))"

definition markHost :: "'w queue_deps \<Rightarrow> ustring \<Rightarrow> bool \<Rightarrow> ustring option \<Rightarrow> ('w, stored_cross_post) queueing" where
  "markHost qd aid posted detail =
     io_let load_queue (\<lambda>records.
     case find_attempt aid records of
       None \<Rightarrow> cross_error ''Unknown attempt.''
     | Some record \<Rightarrow>
         if sp_host record = Side_not_required then cross_error ''This attempt has no host side.''
         else if sp_state record = Draft then cross_error ''Confirm the attempt first.''
         else if posted \<and> hostRefProblem (qd_parse_url qd) record detail then cross_error ''The host post link is refused.''
         else at_now qd (\<lambda>t.
           let event = (if posted then Host_succeeded (case detail of Some d \<Rightarrow> d | None \<Rightarrow> []) (Some t)
                        else Host_failed (case non_empty detail of Some d \<Rightarrow> d | None \<Rightarrow> utf16 ''The host did not publish the post.'') (Some t))
           in update_and_prove qd records (merge record (transition t (baseRecord record) event))))"

definition queue_proof :: "'w queue_deps \<Rightarrow> ustring \<Rightarrow> ('w, stored_cross_post) queueing" where
  "queue_proof qd aid =
     io_let load_queue (\<lambda>records.
     case find_attempt aid records of
       None \<Rightarrow> cross_error ''Unknown attempt.''
     | Some record \<Rightarrow>
         if \<not> needsProof record then cross_error ''Nothing to record for this attempt.''
         else if qd_proof qd = None then cross_error ''Proof recording is not available.''
         else maybeProof qd records record)"

definition discard :: "'w queue_deps \<Rightarrow> ustring \<Rightarrow> ('w, unit) queueing" where
  "discard qd aid =
     io_let load_queue (\<lambda>records.
     case find_attempt aid records of
       None \<Rightarrow> io_return ()
     | Some record \<Rightarrow> at_now qd (\<lambda>t.
         if sp_state record = Submitting \<and> sp_koinos record = Side_pending \<and> t - cp_updated (sp_base record) \<le> STALE_SUBMITTING_MS
         then cross_error ''Wait for the submission to finish.''
         else io_let (save_queue qd (filter (\<lambda>r. sp_attempt r \<noteq> aid) records)) (\<lambda>_. io_return ())))"

fun sweep_records :: "'w queue_deps \<Rightarrow> cross_post_file \<Rightarrow> ('w, unit) queueing" where
  "sweep_records qd [] = io_return ()"
| "sweep_records qd (r # rs) =
     io_let (at_now qd (\<lambda>t.
        if sp_state r = Unknown_outcome \<or> is_stale r t
        then io_try (reconcile_attempt qd (sp_attempt r)) (\<lambda>_. io_return ()) (\<lambda>_. io_return ())
        else io_return ())) (\<lambda>_. sweep_records qd rs)"

definition sweep :: "'w queue_deps \<Rightarrow> ('w, unit) queueing" where
  "sweep qd = io_let queue_list (sweep_records qd)"

end
