(* ===== verification/Cross_Rules.thy ===== *)
theory Cross_Rules
  imports Cross_Post
begin

text \<open>
  The invariant of stored cross-posts and a small calculus for what an operation of the queue writes: every
  version of the file has good records, so that a stop after any write leaves a good file.
\<close>

section \<open>Writing to the file\<close>

text \<open>Files of records that each satisfy \<open>G\<close>, one record per attempt.\<close>

definition file_ok :: "(stored_cross_post \<Rightarrow> bool) \<Rightarrow> cross_post_file \<Rightarrow> bool" where
  "file_ok G F \<longleftrightarrow> distinct (map sp_attempt F) \<and> list_all G F"

text \<open>A computation keeps \<open>I\<close>, and its value, if it returns one, satisfies \<open>Q\<close>.\<close>

definition keeps :: "('s \<Rightarrow> bool) \<Rightarrow> ('s, 'a) io \<Rightarrow> ('a \<Rightarrow> bool) \<Rightarrow> bool" where
  "keeps I m Q \<longleftrightarrow> (\<forall>s. I s \<longrightarrow> I (snd (m s)) \<and> (\<forall>x. fst (m s) = Inr x \<longrightarrow> Q x))"

named_theorems writing \<open>rules for what a computation keeps\<close>

lemma writes_return [writing]: "Q x \<Longrightarrow> keeps I (io_return x) Q"
  by (simp add: keeps_def)

lemma writes_throw [writing]: "keeps I (io_throw e) Q"
  by (simp add: keeps_def)

lemma writes_error [writing]: "keeps I (cross_error m) Q"
  by (simp add: cross_error_def writes_throw)

lemma writes_lift [writing]: "(\<And>x. v = Inr x \<Longrightarrow> Q x) \<Longrightarrow> keeps I (lift_js v) Q"
  by (simp add: keeps_def lift_js_def)

lemma writes_let:
  assumes "keeps I m P" and "\<And>x. P x \<Longrightarrow> keeps I (k x) Q"
  shows "keeps I (io_let m k) Q"
  unfolding keeps_def
proof (intro allI impI)
  fix s assume s: "I s"
  obtain r s1 where m: "m s = (r, s1)" by fastforce
  from assms(1) s m have one: "I s1" "\<And>x. r = Inr x \<Longrightarrow> P x"
    by (auto simp: keeps_def dest!: spec [of _ s])
  show "I (snd (io_let m k s)) \<and> (\<forall>x. fst (io_let m k s) = Inr x \<longrightarrow> Q x)"
  proof (cases r)
    case (Inl e)
    with m one show ?thesis by (simp add: io_let_def)
  next
    case (Inr x)
    with assms(2) [OF one(2) [OF Inr]] one(1) m show ?thesis by (simp add: io_let_def keeps_def)
  qed
qed

lemma writes_try:
  assumes "keeps I m P" and "\<And>x. P x \<Longrightarrow> keeps I (k x) Q" and "\<And>e. keeps I (h e) Q"
  shows "keeps I (io_try m k h) Q"
  unfolding keeps_def
proof (intro allI impI)
  fix s assume s: "I s"
  obtain r s1 where m: "m s = (r, s1)" by fastforce
  from assms(1) s m have one: "I s1" "\<And>x. r = Inr x \<Longrightarrow> P x"
    by (auto simp: keeps_def dest!: spec [of _ s])
  show "I (snd (io_try m k h s)) \<and> (\<forall>x. fst (io_try m k h s) = Inr x \<longrightarrow> Q x)"
  proof (cases r)
    case (Inl e)
    with m one assms(3) [of e] show ?thesis by (simp add: io_try_def keeps_def)
  next
    case (Inr x)
    with assms(2) [OF one(2) [OF Inr]] one(1) m show ?thesis by (simp add: io_try_def keeps_def)
  qed
qed

lemma writes_now [writing]: "(\<And>t. keeps I (k t) Q) \<Longrightarrow> keeps I (at_now qd k) Q"
  by (simp add: keeps_def at_now_def)

lemma writes_if [writing]: "(c \<Longrightarrow> keeps I m Q) \<Longrightarrow> (\<not> c \<Longrightarrow> keeps I n Q) \<Longrightarrow> keeps I (if c then m else n) Q"
  by simp

lemma writes_option [writing]:
  "(v = None \<Longrightarrow> keeps I f Q) \<Longrightarrow> (\<And>x. v = Some x \<Longrightarrow> keeps I (g x) Q) \<Longrightarrow> keeps I (case v of None \<Rightarrow> f | Some x \<Rightarrow> g x) Q"
  by (cases v) simp_all

lemma writes_sum [writing]:
  "(\<And>e. v = Inl e \<Longrightarrow> keeps I (f e) Q) \<Longrightarrow> (\<And>x. v = Inr x \<Longrightarrow> keeps I (g x) Q) \<Longrightarrow>
    keeps I (case v of Inl e \<Rightarrow> f e | Inr x \<Rightarrow> g x) Q"
  by (cases v) simp_all

lemma writes_weaken: "keeps I m P \<Longrightarrow> (\<And>x. P x \<Longrightarrow> Q x) \<Longrightarrow> keeps I m Q"
  by (simp add: keeps_def)

text \<open>Every version of the file is one of good records.\<close>

abbreviation writes_ok :: "(stored_cross_post \<Rightarrow> bool) \<Rightarrow> ('w, 'a) queueing \<Rightarrow> ('a \<Rightarrow> bool) \<Rightarrow> bool" where
  "writes_ok G \<equiv> keeps (\<lambda>s. list_all (file_ok G) (qw_files s))"

lemma writes_calls [writing]: "(\<And>x. Q x) \<Longrightarrow> writes_ok G (calls m) Q"
  by (simp add: keeps_def calls_def split: prod.split)

lemma kept_ok: "file_ok G F \<Longrightarrow> file_ok G (kept_records F)"
  by (auto simp: file_ok_def kept_records_def Let_def list_all_iff distinct_map_filter)

lemma writes_save: "file_ok G F \<Longrightarrow> writes_ok G (save_queue qd F) (file_ok G)"
  unfolding save_queue_def Let_def
  by (intro writes_let [where P = "\<lambda>_. True"] writing TrueI kept_ok) (simp add: keeps_def write_file_def kept_ok)

lemma find_attempt_Some: "find_attempt a F = Some r \<Longrightarrow> r \<in> set F \<and> sp_attempt r = a"
  by (auto simp: find_attempt_def find_Some_iff in_set_conv_nth)

lemma find_attempt_None: "find_attempt a F = None \<longleftrightarrow> a \<notin> sp_attempt ` set F"
  by (auto simp: find_attempt_def find_None_iff)

lemma replace_attempts: "map sp_attempt (replace_first r F) = map sp_attempt F"
  by (induction F) auto

lemma replace_all: "list_all G F \<Longrightarrow> G r \<Longrightarrow> list_all G (replace_first r F)"
  by (induction F) auto

lemma replace_ok: "file_ok G F \<Longrightarrow> G r \<Longrightarrow> file_ok G (replace_first r F)"
  by (simp only: file_ok_def replace_attempts replace_all)

lemma writes_update: "file_ok G F \<Longrightarrow> G r \<Longrightarrow> writes_ok G (update qd F r) (file_ok G)"
  unfolding update_def
  by (intro writes_save) (simp add: replace_ok, auto simp: file_ok_def find_attempt_None)

section \<open>What a stored record always satisfies\<close>

text \<open>
  Beside the invariant of the SDK: a confirmed record has its author and the key of author and attempt; the
  draft text and a pending transaction id are gone once the post exists; only such records have a proof.
\<close>

definition stored_ok :: "'w queue_deps \<Rightarrow> stored_cross_post \<Rightarrow> bool" where
  "stored_ok qd r \<longleftrightarrow> record_inv (sp_base r) \<and> to_lower (sp_attempt r) = sp_attempt r \<and>
     (sp_state r = Draft \<longrightarrow> sp_koinos r = Side_pending) \<and>
     (sp_state r \<noteq> Draft \<longrightarrow> (\<exists>a. a \<noteq> [] \<and> sp_author r = Some a \<and> attempt_key qd a (sp_attempt r) = Inr (cp_key (sp_base r)))) \<and>
     (sp_koinos r = Side_ok \<longrightarrow> sp_text r = None \<and> sp_pending_tx r = None) \<and>
     (sp_proof r \<noteq> None \<longrightarrow> sp_koinos r = Side_ok \<and> sp_adapter r = Facebook)"

text \<open>No post id that a file had is changed.\<close>

definition kept_from :: "cross_post_file \<Rightarrow> stored_cross_post \<Rightarrow> bool" where
  "kept_from F r \<longleftrightarrow> (\<forall>r0 \<in> set F. sp_attempt r0 = sp_attempt r \<longrightarrow>
     (\<forall>p. cp_post (sp_base r0) = Some p \<longrightarrow> cp_post (sp_base r) = Some p))"

definition good :: "'w queue_deps \<Rightarrow> cross_post_file \<Rightarrow> stored_cross_post \<Rightarrow> bool" where
  "good qd F r \<longleftrightarrow> stored_ok qd r \<and> kept_from F r"

text \<open>What transitions do to a record.\<close>

definition leads :: "cross_post_record \<Rightarrow> cross_post_record \<Rightarrow> bool" where
  "leads b c \<longleftrightarrow> record_inv c \<and> cp_key c = cp_key b \<and> cp_attempt c = cp_attempt b \<and> cp_host_site c = cp_host_site b \<and>
     (cp_state b \<noteq> Draft \<longrightarrow> cp_state c \<noteq> Draft) \<and> (\<forall>p. cp_post b = Some p \<longrightarrow> cp_post c = Some p) \<and> (cp_koinos b = Side_ok \<longrightarrow> cp_koinos c = Side_ok)"

lemma leads_refl: "record_inv b \<Longrightarrow> leads b b"
  by (simp add: leads_def)

lemma leads_inv: "leads b c \<Longrightarrow> record_inv c"
  by (simp add: leads_def)

lemma leads_trans: "leads a b \<Longrightarrow> leads b c \<Longrightarrow> leads a c"
  by (simp add: leads_def)

lemma derive_not_draft [simp]: "deriveState r \<noteq> Draft"
  by (simp add: deriveState_def Let_def)

lemma transition_fields:
  "cp_key (transition t r e) = cp_key r" "cp_attempt (transition t r e) = cp_attempt r" "cp_host_site (transition t r e) = cp_host_site r"
  "cp_state r \<noteq> Draft \<Longrightarrow> cp_state (transition t r e) \<noteq> Draft"
  by (cases e; simp add: transition_def Let_def found_post_def conflict_def finish_def split: option.split)+

lemma transition_leads:
  assumes "record_inv r"
  shows "leads r (transition t r e)"
proof -
  have inv: "record_inv (transition t r e)" by (rule transition_inv [OF assms])
  have post: "cp_post r = Some p \<longrightarrow> cp_post (transition t r e) = Some p" for p
    using transition_post_kept [OF _ assms] by blast
  moreover have "cp_koinos r = Side_ok \<longrightarrow> cp_koinos (transition t r e) = Side_ok"
    using post inv_post_known [OF assms] inv_post_known [OF inv] by (metis option.exhaust option.distinct(1))
  ultimately show ?thesis using inv by (simp add: leads_def transition_fields)
qed

lemma lookup_leads: "lookup rc r author w = (Inr r', w') \<Longrightarrow> record_inv r \<Longrightarrow> leads r r'"
  by (drule lookup_Inr) (auto simp: transition_leads)

lemma tx_leads: "leads b c \<Longrightarrow> leads b (c\<lparr>cp_tx := x\<rparr>)"
  by (simp add: leads_def record_inv_def)

lemma adopt_leads: "leads b c \<Longrightarrow> leads b (adoptPendingTx r c)"
  by (simp add: adoptPendingTx_def tx_leads split: option.split)

lemma merge_leads: "leads (sp_base r) c \<Longrightarrow> merge r c = r\<lparr>sp_base := c\<rparr>"
  by (auto simp: merge_def leads_def split: option.split)

lemma host_koinos: "cp_koinos (transition t r (Host_succeeded h x)) = cp_koinos r" "cp_koinos (transition t r (Host_failed h x)) = cp_koinos r"
  by (simp_all add: transition_def conflict_def finish_def Let_def)

lemma retry_koinos_ok: "cp_koinos (transition t r (Retry x)) = Side_ok \<longleftrightarrow> cp_koinos r = Side_ok"
  by (auto simp: transition_def Let_def)

text \<open>A record that moved on from a stored one is again fit to be stored.\<close>

lemma good_moved:
  assumes "good qd F r" and "sp_state r \<noteq> Draft" and "leads (sp_base r) (sp_base r')"
    and "sp_author r' = sp_author r" and "sp_proof r' \<noteq> None \<longrightarrow> sp_proof r \<noteq> None \<or> sp_koinos r' = Side_ok \<and> sp_adapter r = Facebook"
    and "sp_koinos r' = Side_ok \<longrightarrow> sp_text r' = None \<and> sp_pending_tx r' = None" and "sp_adapter r' = sp_adapter r"
  shows "good qd F r' \<and> sp_state r' \<noteq> Draft"
  using assms by (auto simp: good_def stored_ok_def leads_def kept_from_def)

section \<open>The operations\<close>

abbreviation keeps_file :: "'w queue_deps \<Rightarrow> cross_post_file \<Rightarrow> ('w, 'a) queueing \<Rightarrow> bool" where
  "keeps_file qd F m \<equiv> writes_ok (good qd F) m (\<lambda>_. True)"

lemma update_then:
  assumes "file_ok G F" and "G r" and "\<And>F'. file_ok G F' \<Longrightarrow> writes_ok G (k F') Q"
  shows "writes_ok G (io_let (update qd F r) k) Q"
  using writes_let [OF writes_update [OF assms(1,2)] assms(3)] .

lemma moved_on: "good qd F r \<Longrightarrow> sp_state r \<noteq> Draft \<Longrightarrow> leads (sp_base r) (sp_base r)"
  by (simp add: good_def stored_ok_def leads_refl)

definition with_proof :: "stored_cross_post \<Rightarrow> proof_result \<Rightarrow> int \<Rightarrow> stored_cross_post" where
  "with_proof record p t = record\<lparr>sp_base := (if cp_tx (sp_base record) = None \<and> pr_koinos_tx p \<noteq> []
       then (sp_base record)\<lparr>cp_tx := Some (pr_koinos_tx p)\<rparr> else sp_base record),
     sp_proof := Some \<lparr>pf_manifest = pr_manifest p, pf_tx = pr_tx p, pf_recorded = t, pf_outcome = pr_outcome p\<rparr>,
     sp_proof_error := None\<rparr>"

lemma with_proof_good:
  assumes r: "good qd F r" "sp_state r \<noteq> Draft" and "needsProof r"
  shows "good qd F (with_proof r p t)"
proof -
  have "leads (sp_base r) (sp_base (with_proof r p t))"
    using moved_on [OF r] tx_leads [OF moved_on [OF r]] by (simp add: with_proof_def)
  moreover have "sp_koinos r = Side_ok" "sp_adapter r = Facebook" using assms(3) by (simp_all add: needsProof_def)
  moreover have "sp_text r = None" "sp_pending_tx r = None" using r calculation(2) by (simp_all add: good_def stored_ok_def)
  ultimately show ?thesis
    using good_moved [OF r, of "with_proof r p t"] by (simp add: with_proof_def)
qed

lemma proof_error_good: "good qd F r \<Longrightarrow> good qd F (r\<lparr>sp_proof_error := x\<rparr>)"
  by (simp add: good_def stored_ok_def kept_from_def)

lemma maybeProof_writes:
  assumes F: "file_ok (good qd F0) F" and r: "good qd F0 r" "sp_state r \<noteq> Draft"
  shows "keeps_file qd F0 (maybeProof qd F r)"
proof -
  have attempt: "writes_ok (good qd F0) (io_try (calls (prove r)) (\<lambda>p. io_return (Inr p)) (\<lambda>e. io_return (Inl e))) (\<lambda>_. True)"
    for prove :: "stored_cross_post \<Rightarrow> ('a, proof_result) io"
    by (intro writes_try [where P = "\<lambda>_. True"] writing TrueI)
  show ?thesis
    unfolding maybeProof_def Let_def with_proof_def [symmetric]
    by (intro writes_option writes_if writes_return writes_let [OF attempt] writes_sum writes_now TrueI
        update_then [OF F] with_proof_good [OF r] proof_error_good r(1)) simp
qed

lemma prove_after_update:
  assumes "file_ok (good qd F0) F" and "good qd F0 r" and "sp_state r \<noteq> Draft"
  shows "keeps_file qd F0 (update_and_prove qd F r)"
  unfolding update_and_prove_def using assms by (intro update_then maybeProof_writes)

text \<open>The result of one publication leads on from the record that was sent.\<close>

lemma publish_once_leads:
  assumes "good qd F0 r" and "sp_state r \<noteq> Draft"
  shows "writes_ok G (publish_once qd r) (\<lambda>(known, current, noted). leads (sp_base r) current \<and> sp_base known = sp_base r \<and>
     sp_author known = sp_author r \<and> sp_proof known = sp_proof r \<and> sp_adapter known = sp_adapter r)"
proof -
  have inv: "record_inv (sp_base r)" using assms(1) by (simp add: good_def stored_ok_def)
  note lead = transition_leads [OF inv]
  show ?thesis unfolding keeps_def
  proof (intro allI impI)
    fix s :: "'a queue_world" assume s: "list_all (file_ok G) (qw_files s)"
    obtain x w where p: "qd_publish qd r (qw_out s) = (x, w)" by fastforce
    show "list_all (file_ok G) (qw_files (snd (publish_once qd r s))) \<and>
      (\<forall>y. fst (publish_once qd r s) = Inr y \<longrightarrow> (case y of (known, current, noted) \<Rightarrow> leads (sp_base r) current \<and> sp_base known = sp_base r \<and>
         sp_author known = sp_author r \<and> sp_proof known = sp_proof r \<and> sp_adapter known = sp_adapter r))"
    proof (cases x)
      case (Inr outcome)
      with p s lead show ?thesis by (simp add: publish_once_def baseRecord_def with_attempt_def)
    next
      case (Inl err)
      have attempt: "sp_base (case at of None \<Rightarrow> r | Some a \<Rightarrow> with_attempt r a pending) = sp_base r \<and>
          sp_author (case at of None \<Rightarrow> r | Some a \<Rightarrow> with_attempt r a pending) = sp_author r \<and>
          sp_proof (case at of None \<Rightarrow> r | Some a \<Rightarrow> with_attempt r a pending) = sp_proof r \<and>
          sp_adapter (case at of None \<Rightarrow> r | Some a \<Rightarrow> with_attempt r a pending) = sp_adapter r" for at pending
        by (simp add: with_attempt_def split: option.split)
      have looked: "leads (sp_base r) (adoptPendingTx known c)" if "lookup rc (transition t (sp_base r) e) a w1 = (Inr c, w2)" for rc t e a w1 c w2 known
        using leads_trans [OF lead lookup_leads [OF that transition_inv [OF inv]]] by (rule adopt_leads)
      show ?thesis
      proof (cases "sf_kind (classifySubmitError err)")
        case Kind_duplicate
        with p s Inl attempt looked show ?thesis
          by (auto simp: publish_once_def Let_def baseRecord_def calls_def io_let_def split: prod.split sum.split)
      qed (use p s Inl attempt lead in \<open>simp_all add: publish_once_def Let_def baseRecord_def\<close>)
    qed
  qed
qed

lemma cross_publish_writes:
  assumes "file_ok (good qd F0) F" and r: "good qd F0 r" and s: "sp_state r \<noteq> Draft"
  shows "keeps_file qd F0 (cross_publish qd F r)"
  unfolding cross_publish_def Let_def
proof (rule writes_let [OF publish_once_leads [OF r s]])
  fix x :: "stored_cross_post \<times> cross_post_record \<times> bool"
  obtain known current noted where x: "x = (known, current, noted)" by (cases x) auto
  assume "case x of (known, current, noted) \<Rightarrow> leads (sp_base r) current \<and> sp_base known = sp_base r \<and>
     sp_author known = sp_author r \<and> sp_proof known = sp_proof r \<and> sp_adapter known = sp_adapter r"
  with x have lead: "leads (sp_base r) current" "sp_base known = sp_base r" "sp_author known = sp_author r" "sp_proof known = sp_proof r" "sp_adapter known = sp_adapter r"
    by simp_all
  have "good qd F0 (drop_draft noted (merge known current)) \<and> sp_state (drop_draft noted (merge known current)) \<noteq> Draft"
    using lead merge_leads [of known current] by (intro good_moved [OF r s]) (auto simp: drop_draft_def)
  then show "keeps_file qd F0 (case x of (known, current, noted) \<Rightarrow>
      io_let (update qd F (drop_draft noted (merge known current))) (\<lambda>records'. maybeProof qd records' (drop_draft noted (merge known current))))"
    using assms(1) unfolding x case_prod_conv by (intro update_then maybeProof_writes) simp_all
qed

lemma good_start: "file_ok (stored_ok qd) F \<Longrightarrow> file_ok (good qd F) F"
  by (auto simp: file_ok_def good_def kept_from_def list_all_iff distinct_map inj_on_def)

lemma start_record: "file_ok G F \<Longrightarrow> find_attempt a F = Some r \<Longrightarrow> G r"
  by (auto simp: file_ok_def list_all_iff dest: find_attempt_Some)

lemma writes_load: "writes_ok G load_queue (file_ok G)"
  by (auto simp: keeps_def load_queue_def file_ok_def split: list.splits)

lemma fresh_good:
  assumes "find_attempt (fi_attempt inp) F = None" and "to_lower (fi_attempt inp) = fi_attempt inp"
  shows "writes_ok G (fresh qd inp) (\<lambda>r. good qd F r)"
  using assms find_attempt_None [of "fi_attempt inp" F]
  unfolding fresh_def
  by (intro writes_let [where P = "\<lambda>_. True"] writes_calls writes_option writes_return writes_lift writes_now TrueI)
    (auto simp: good_def stored_ok_def kept_from_def new_record_inv, (force simp: newCrossPostRecord_def Let_def)+)

lemma add_draft_writes:
  assumes F: "file_ok (stored_ok qd) F" and lower: "to_lower (fi_attempt inp) = fi_attempt inp"
  shows "keeps_file qd F (case find_attempt (fi_attempt inp) F of
       Some existing \<Rightarrow> io_return existing
     | None \<Rightarrow> io_let (fresh qd inp) (\<lambda>record. io_let (update qd F record) (\<lambda>_. io_return record)))"
  by (intro writes_option writes_return TrueI writes_let [OF fresh_good [OF _ lower]] update_then [OF good_start [OF F]])

lemma settle_good:
  assumes r: "good qd F r" "sp_state r \<noteq> Draft" and "leads (sp_base r) c"
  shows "good qd F (settle_found r c) \<and> sp_state (settle_found r c) \<noteq> Draft"
  using assms(3) merge_leads [OF assms(3)] by (intro good_moved [OF r]) (auto simp: settle_found_def Let_def)

lemma look_up_writes:
  assumes "leads b c" and "record_inv c"
  shows "writes_ok G (look_up qd r c a) (leads b)"
proof -
  have "writes_ok G (calls (lookup (queue_reconciler qd r) c a)) (\<lambda>c'. leads c c')"
    unfolding keeps_def calls_def using lookup_leads [OF _ assms(2)] by (auto split: prod.split) 
  then show ?thesis
    unfolding look_up_def
    by (rule writes_let) (rule writes_return, rule adopt_leads, rule leads_trans [OF assms(1)])
qed

lemma send_again_writes:
  assumes F: "file_ok (good qd F0) F" and r: "good qd F0 r" "sp_state r \<noteq> Draft" and lead: "leads (sp_base r) c"
    and "cp_koinos c = Side_ok \<Longrightarrow> sp_koinos r = Side_ok"
  shows "keeps_file qd F0 (send_again qd F r c)"
proof -
  have next1: "good qd F0 (merge r (transition t c (Retry x))) \<and> sp_state (merge r (transition t c (Retry x))) \<noteq> Draft" for t x
  proof -
    have "leads (sp_base r) (transition t c (Retry x))"
      using lead transition_leads [of c] by (auto simp: leads_def intro: leads_trans)
    then show ?thesis
      using assms(5) r merge_leads [of r "transition t c (Retry x)"] by (intro good_moved [OF r]) (auto simp: retry_koinos_ok good_def stored_ok_def)
  qed
  show ?thesis unfolding send_again_def Let_def
    using next1 by (intro writes_now update_then [OF F] writes_if writes_error writes_return cross_publish_writes TrueI) simp_all
qed

text \<open>\<open>load_queue\<close> is the first step of every operation: it gives the current file.\<close>

lemma load_first: "io_let load_queue k \<lparr>qw_files = F # Fs, qw_out = w\<rparr> = k F \<lparr>qw_files = F # Fs, qw_out = w\<rparr>"
  by (simp add: io_let_def load_queue_def)

lemma after_lookup_writes:
  assumes F: "file_ok (good qd F0) F" and r: "good qd F0 r" "sp_state r \<noteq> Draft" and lead: "leads (sp_base r) c"
  shows "keeps_file qd F0 (if cp_koinos c = Side_ok \<or> cp_state c = Reconcile_required
     then update_and_prove qd F (settle_found r c) else send_again qd F r c)"
  using settle_good [OF r lead] by (intro writes_if prove_after_update [OF F] send_again_writes [OF F r lead]) simp_all

lemma retry_writes:
  assumes F: "file_ok (good qd F0) F" and found: "find_attempt aid F = Some r"
    and allowed: "Act_retry \<in> set (fst (explain r t)) \<or> sp_state r = Unknown_outcome"
  shows "keeps_file qd F0 (if sp_koinos r = Side_unknown
       then io_let (look_up qd r (baseRecord r) a) (\<lambda>current.
         if cp_koinos current = Side_ok \<or> cp_state current = Reconcile_required
         then update_and_prove qd F (settle_found r current) else send_again qd F r current)
       else send_again qd F r (baseRecord r))"
proof -
  note r = start_record [OF F found]
  have inv: "record_inv (sp_base r)" using r by (simp add: good_def stored_ok_def)
  note lead = leads_refl [OF inv]
  have draft: "sp_state r \<noteq> Draft" using allowed by (auto simp: explain_def)
  show ?thesis unfolding baseRecord_def
    by (rule writes_if) (rule writes_let [OF look_up_writes [OF lead inv]], rule after_lookup_writes [OF F r draft], assumption,
      rule send_again_writes [OF F r draft lead])
qed

lemma confirm_good:
  assumes r: "good qd F0 r" and "sp_state r = Draft" and "attempt_key qd a (sp_attempt r) = Inr key" and "a \<noteq> []"
    and p: "p = r\<lparr>sp_author := Some a, sp_base := (sp_base r)\<lparr>cp_audience := x, cp_key := key\<rparr>\<rparr>"
  shows "good qd F0 (merge p (transition t (sp_base p) (Retry y))) \<and> sp_state (merge p (transition t (sp_base p) (Retry y))) \<noteq> Draft"
proof -
  have base: "record_inv (sp_base r)" "sp_koinos r = Side_pending" using assms(1,2) by (simp_all add: good_def stored_ok_def)
  then have inv: "record_inv (sp_base p)"
    by (simp add: p record_inv_def sides_ok_def deriveState_def)
  have "sp_state p = Draft" using assms(2) by (simp add: p)
  then have "cp_state (transition t (sp_base p) (Retry y)) = Submitting" by (simp add: transition_def Let_def)
  moreover have "cp_koinos (transition t (sp_base p) (Retry y)) \<noteq> Side_ok" using base(2) by (simp add: retry_koinos_ok p)
  ultimately show ?thesis
    using transition_leads [OF inv, of t "Retry y"] merge_leads [OF transition_leads [OF inv]] assms
    by (auto simp: good_def stored_ok_def kept_from_def leads_def p)
qed

lemma confirm_writes:
  assumes F: "file_ok (good qd F0) F" and found: "find_attempt aid F = Some r" and "sp_state r = Draft" and "a \<noteq> []"
  shows "keeps_file qd F0 (io_let (lift_js (attempt_key qd a (sp_attempt r))) (\<lambda>key. at_now qd (\<lambda>t.
       let base = (sp_base r)\<lparr>cp_audience := (case audience of Some x \<Rightarrow> x | None \<Rightarrow> cp_audience (sp_base r)), cp_key := key\<rparr>;
           prepared = r\<lparr>sp_author := Some a, sp_base := base\<rparr>;
           prepared' = merge prepared (transition t base (Retry (Some t)))
       in io_let (update qd F prepared') (\<lambda>records'. cross_publish qd records' prepared'))))"
proof (rule writes_let [of _ _ "\<lambda>key. attempt_key qd a (sp_attempt r) = Inr key"])
  show "writes_ok (good qd F0) (lift_js (attempt_key qd a (sp_attempt r))) (\<lambda>key. attempt_key qd a (sp_attempt r) = Inr key)"
    by (rule writes_lift)
next
  fix key assume key: "attempt_key qd a (sp_attempt r) = Inr key"
  let ?base = "(sp_base r)\<lparr>cp_audience := (case audience of Some x \<Rightarrow> x | None \<Rightarrow> cp_audience (sp_base r)), cp_key := key\<rparr>"
  let ?p = "r\<lparr>sp_author := Some a, sp_base := ?base\<rparr>"
  have p: "good qd F0 (merge ?p (transition t ?base (Retry y)))" "sp_state (merge ?p (transition t ?base (Retry y))) \<noteq> Draft" for t y
    using confirm_good [OF start_record [OF F found] assms(3) key assms(4) refl, of _ t y] by simp_all
  show "keeps_file qd F0 (at_now qd (\<lambda>t.
       let base = ?base; prepared = r\<lparr>sp_author := Some a, sp_base := base\<rparr>;
           prepared' = merge prepared (transition t base (Retry (Some t)))
       in io_let (update qd F prepared') (\<lambda>records'. cross_publish qd records' prepared')))"
    unfolding Let_def using p F by (intro writes_now update_then cross_publish_writes) simp_all
qed

lemma reconcile_writes:
  assumes F: "file_ok (good qd F0) F" and found: "find_attempt aid F = Some r" and author: "sp_author r = None \<or> sp_author r = Some a" and "a \<noteq> []"
  shows "keeps_file qd F0 (io_let (if cp_key (sp_base r) \<noteq> [] then io_return (cp_key (sp_base r)) else lift_js (attempt_key qd a (sp_attempt r))) (\<lambda>key.
            at_now qd (\<lambda>t.
               let base = (sp_base r)\<lparr>cp_key := key\<rparr>;
                   current = (if is_stale r t
                              then transition t base (Koinos_unknown (Some (utf16 ''interrupted before the node answered'')) (Some t)) else base)
               in if cp_state current = Draft then io_return r
                  else io_let (look_up qd r current a) (\<lambda>found.
                    update_and_prove qd F (settle_found (r\<lparr>sp_author := Some a, sp_base := (sp_base r)\<lparr>cp_key := cp_key found\<rparr>\<rparr>) found)))))"
proof -
  note r = start_record [OF F found]
  have inv: "record_inv (sp_base r)" using r by (simp add: good_def stored_ok_def)
  show ?thesis
  proof (cases "sp_state r = Draft")
    case True
    then have "\<not> is_stale r t" for t by (simp add: is_stale_def)
    with True show ?thesis
      by (intro writes_let [where P = "\<lambda>_. True"] writes_now writes_if writes_return writes_lift TrueI) (simp add: Let_def writes_return)
  next
    case False
    with r have key: "sp_author r = Some a" "attempt_key qd a (sp_attempt r) = Inr (cp_key (sp_base r))"
      using author by (auto simp: good_def stored_ok_def)
    then have same: "r\<lparr>sp_author := Some a\<rparr> = r" "(sp_base r)\<lparr>cp_key := cp_key (sp_base r)\<rparr> = sp_base r" by simp_all
    have lead: "leads (sp_base r) (if is_stale r t then transition t (sp_base r) e else sp_base r)" for t e
      by (simp add: leads_refl [OF inv] transition_leads [OF inv])
    have settled: "good qd F0 (settle_found (r\<lparr>sp_base := (sp_base r)\<lparr>cp_key := cp_key c\<rparr>\<rparr>) c) \<and>
        sp_state (settle_found (r\<lparr>sp_base := (sp_base r)\<lparr>cp_key := cp_key c\<rparr>\<rparr>) c) \<noteq> Draft" if "leads (sp_base r) c" for c
      using settle_good [OF r False that] that same by (simp add: leads_def)
    show ?thesis
    proof (rule writes_let [of _ _ "\<lambda>k. k = cp_key (sp_base r)"])
      show "writes_ok (good qd F0) (if cp_key (sp_base r) \<noteq> [] then io_return (cp_key (sp_base r)) else lift_js (attempt_key qd a (sp_attempt r)))
          (\<lambda>k. k = cp_key (sp_base r))"
        using key(2) by (intro writes_if writes_return writes_lift) simp_all
    next
      fix k assume k: "k = cp_key (sp_base r)"
      show "keeps_file qd F0 (at_now qd (\<lambda>t.
               let base = (sp_base r)\<lparr>cp_key := k\<rparr>;
                   current = (if is_stale r t
                              then transition t base (Koinos_unknown (Some (utf16 ''interrupted before the node answered'')) (Some t)) else base)
               in if cp_state current = Draft then io_return r
                  else io_let (look_up qd r current a) (\<lambda>found.
                    update_and_prove qd F (settle_found (r\<lparr>sp_author := Some a, sp_base := (sp_base r)\<lparr>cp_key := cp_key found\<rparr>\<rparr>) found))))"
        unfolding k same Let_def
        by (rule writes_now, rule writes_if, intro writes_return TrueI,
            rule writes_let [OF look_up_writes [OF lead leads_inv [OF lead]]],
            rule prove_after_update [OF F settled [THEN conjunct1] settled [THEN conjunct2]]; assumption)
    qed
  qed
qed

end
