(* ===== verification/Cross_Safety.thy ===== *)
theory Cross_Safety
  imports Cross_Rules
begin

text \<open>
  Every operation of the cross-post queue keeps the invariant, and the files that the storage may hold,
  operations interrupted after any write included.
\<close>

section \<open>Whole operations\<close>

lemma non_empty_Some: "non_empty v = Some a \<Longrightarrow> v = Some a \<and> a \<noteq> []"
  by (auto simp: non_empty_def split: option.splits if_splits)

text \<open>An operation loads the file and looks the attempt up in it.\<close>

lemma writes_found:
  assumes "\<And>F. file_ok G F \<Longrightarrow> find_attempt aid F = None \<Longrightarrow> writes_ok G (f F) Q"
    and "\<And>F r. file_ok G F \<Longrightarrow> find_attempt aid F = Some r \<Longrightarrow> writes_ok G (g F r) Q"
  shows "writes_ok G (io_let load_queue (\<lambda>F. case find_attempt aid F of None \<Rightarrow> f F | Some r \<Rightarrow> g F r)) Q"
  by (intro writes_let [OF writes_load] writes_option assms)

text \<open>Whatever the account is, the operation needs one.\<close>

lemma writes_account:
  assumes "writes_ok G m (\<lambda>v. \<forall>a. v = Some a \<longrightarrow> P a)" and "\<And>a. a \<noteq> [] \<Longrightarrow> P a \<Longrightarrow> writes_ok G (k a) Q"
  shows "writes_ok G (io_let m (\<lambda>v. case non_empty v of None \<Rightarrow> cross_error e | Some a \<Rightarrow> k a)) Q"
  using non_empty_Some by (intro writes_let [OF assms(1)] writes_option writes_error assms(2)) blast+

lemma confirm_keeps: "keeps_file qd F0 (confirm qd aid audience)"
  unfolding confirm_def confirm_as_def
  by (intro writes_found writes_error writes_if writes_account [where P = "\<lambda>_. True"] writes_calls confirm_writes) simp_all

lemma retry_keeps: "keeps_file qd F0 (retry_attempt qd aid)"
  unfolding retry_attempt_def retry_as_def
proof (rule writes_found, rule writes_error, rule writes_now, rule writes_if, rule writes_error)
  fix F r t assume F: "file_ok (good qd F0) F" and found: "find_attempt aid F = Some r"
    and allowed: "\<not> (Act_retry \<notin> set (fst (explain r t)) \<and> sp_state r \<noteq> Unknown_outcome)"
  from allowed have "Act_retry \<in> set (fst (explain r t)) \<or> sp_state r = Unknown_outcome" by blast
  note all = retry_writes [OF F found this]
  show "keeps_file qd F0 (io_let (calls (qd_account qd)) (\<lambda>account. case non_empty account of
       None \<Rightarrow> cross_error ''Unlock your account first.''
     | Some a \<Rightarrow> if non_empty (sp_author r) \<noteq> None \<and> sp_author r \<noteq> Some a then cross_error ''This attempt belongs to another account.''
         else if sp_koinos r = Side_unknown
         then io_let (look_up qd r (baseRecord r) a) (\<lambda>current.
           if cp_koinos current = Side_ok \<or> cp_state current = Reconcile_required
           then update_and_prove qd F (settle_found r current) else send_again qd F r current)
         else send_again qd F r (baseRecord r)))"
    by (rule writes_account [where P = "\<lambda>_. True"], rule writes_calls, simp, rule writes_if, rule writes_error, rule all)
qed

lemma reconcile_keeps: "keeps_file qd F0 (reconcile_attempt qd aid)"
  unfolding reconcile_attempt_def
proof (intro writes_found writes_error)
  fix F r assume F: "file_ok (good qd F0) F" and found: "find_attempt aid F = Some r"
  show "keeps_file qd F0 (io_let (case sp_author r of Some a \<Rightarrow> io_return (Some a) | None \<Rightarrow> calls (qd_account qd)) (\<lambda>account.
         case non_empty account of
           None \<Rightarrow> cross_error ''Unlock your account first.''
         | Some a \<Rightarrow>
             io_let (if cp_key (sp_base r) \<noteq> [] then io_return (cp_key (sp_base r)) else lift_js (attempt_key qd a (sp_attempt r))) (\<lambda>key.
             at_now qd (\<lambda>t.
               let base = (sp_base r)\<lparr>cp_key := key\<rparr>;
                   current = (if is_stale r t
                              then transition t base (Koinos_unknown (Some (utf16 ''interrupted before the node answered'')) (Some t)) else base)
               in if cp_state current = Draft then io_return r
                  else io_let (look_up qd r current a) (\<lambda>found.
                    update_and_prove qd F (settle_found (r\<lparr>sp_author := Some a, sp_base := (sp_base r)\<lparr>cp_key := cp_key found\<rparr>\<rparr>) found))))))"
    by (intro writes_account [where P = "\<lambda>a. sp_author r = None \<or> sp_author r = Some a"] reconcile_writes [OF F found])
      (auto intro: writes_return writes_calls split: option.split)
qed

lemma mark_keeps: "keeps_file qd F0 (markHost qd aid posted detail)"
  unfolding markHost_def Let_def
proof (intro writes_found writes_error writes_if writes_now)
  fix F r t assume F: "file_ok (good qd F0) F" and found: "find_attempt aid F = Some r" and draft: "sp_state r \<noteq> Draft"
  note r = start_record [OF F found]
  let ?e = "if posted then Host_succeeded (case detail of None \<Rightarrow> [] | Some d \<Rightarrow> d) (Some t)
            else Host_failed (case non_empty detail of None \<Rightarrow> utf16 ''The host did not publish the post.'' | Some d \<Rightarrow> d) (Some t)"
  have lead: "leads (sp_base r) (transition t (sp_base r) ?e)"
    using r by (simp add: good_def stored_ok_def transition_leads)
  have "good qd F0 (merge r (transition t (sp_base r) ?e)) \<and> sp_state (merge r (transition t (sp_base r) ?e)) \<noteq> Draft"
    using lead r merge_leads [OF lead] by (intro good_moved [OF r draft]) (auto simp: host_koinos good_def stored_ok_def)
  then show "keeps_file qd F0 (update_and_prove qd F (merge r (transition t (baseRecord r) ?e)))"
    unfolding baseRecord_def by (intro prove_after_update [OF F]) simp_all
qed

lemma proof_keeps: "keeps_file qd F0 (queue_proof qd aid)"
  unfolding queue_proof_def
proof (intro writes_found writes_error writes_if)
  fix F r assume F: "file_ok (good qd F0) F" and found: "find_attempt aid F = Some r" and "\<not> \<not> needsProof r"
  moreover have "sp_state r \<noteq> Draft"
    using start_record [OF F found] calculation(3) by (auto simp: needsProof_def good_def stored_ok_def)
  ultimately show "keeps_file qd F0 (maybeProof qd F r)"
    by (intro maybeProof_writes start_record [OF F found])
qed

lemma discard_keeps: "keeps_file qd F0 (discard qd aid)"
  unfolding discard_def
  by (intro writes_found writes_error writes_if writes_return writes_now TrueI writes_let [OF writes_save])
    (auto simp: file_ok_def list_all_iff distinct_map_filter)

lemma sweep_keeps: "keeps_file qd F0 (sweep qd)"
proof -
  have one: "keeps_file qd F0 (sweep_records qd rs)" for rs
    by (induction rs; unfold sweep_records.simps)
      (intro writes_return TrueI writes_let [where P = "\<lambda>_. True"] writes_now writes_if writes_try [OF reconcile_keeps]; assumption?)+
  show ?thesis unfolding sweep_def queue_list_def
    by (intro writes_let [where P = "\<lambda>_. True"] writes_weaken [OF writes_load] writes_return TrueI one)
qed

lemma draft_keeps:
  assumes "file_ok (stored_ok qd) F" and "to_lower (fi_attempt inp) = fi_attempt inp"
  shows "list_all (file_ok (good qd F)) (qw_files (snd (add_draft qd inp \<lparr>qw_files = [F], qw_out = w\<rparr>)))"
  using add_draft_writes [OF assms] good_start [OF assms(1)] unfolding add_draft_def load_first keeps_def by simp

section \<open>Reachable files\<close>

text \<open>The messages of the extension, with the attempt id that the background draws for a new draft.\<close>

datatype queue_op = Propose ustring ustring ustring bool | Create create_payload ustring | Confirm ustring "int option"
  | Retry_attempt ustring | Reconcile ustring | Mark_host ustring bool "ustring option" | Record_proof ustring | Discard ustring | Sweep

definition as_unit :: "('w, 'a) queueing \<Rightarrow> ('w, unit) queueing" where
  "as_unit m = io_let m (\<lambda>_. io_return ())"

fun run_op :: "'w queue_deps \<Rightarrow> queue_op \<Rightarrow> ('w, unit) queueing" where
  "run_op qd (Propose aid txt url submitted) = as_unit (propose qd aid txt url submitted)"
| "run_op qd (Create payload aid) = as_unit (create qd payload aid)"
| "run_op qd (Confirm aid audience) = as_unit (confirm qd aid audience)"
| "run_op qd (Retry_attempt aid) = as_unit (retry_attempt qd aid)"
| "run_op qd (Reconcile aid) = as_unit (reconcile_attempt qd aid)"
| "run_op qd (Mark_host aid posted detail) = as_unit (markHost qd aid posted detail)"
| "run_op qd (Record_proof aid) = as_unit (queue_proof qd aid)"
| "run_op qd (Discard aid) = discard qd aid"
| "run_op qd Sweep = sweep qd"

text \<open>Attempt ids are written in small letters, as \<open>toHex\<close> writes them.\<close>

fun queue_op_ok :: "queue_op \<Rightarrow> bool" where
  "queue_op_ok (Propose aid _ _ _) = (to_lower aid = aid)"
| "queue_op_ok (Create _ aid) = (to_lower aid = aid)"
| "queue_op_ok _ = True"

text \<open>The files that the storage may hold: an operation may be stopped after any of its writes.\<close>

inductive stored_file :: "'w queue_deps \<Rightarrow> cross_post_file \<Rightarrow> bool" for qd where
  Empty: "stored_file qd []"
| Step: "stored_file qd F \<Longrightarrow> queue_op_ok x \<Longrightarrow> F' \<in> set (qw_files (snd (run_op qd x \<lparr>qw_files = [F], qw_out = w\<rparr>))) \<Longrightarrow> stored_file qd F'"

lemma unit_files: "qw_files (snd (as_unit m s)) = qw_files (snd (m s))"
  by (simp add: as_unit_def io_let_def split: prod.split sum.split)

lemma op_keeps:
  assumes "file_ok (stored_ok qd) F" and "queue_op_ok x"
  shows "list_all (file_ok (good qd F)) (qw_files (snd (run_op qd x \<lparr>qw_files = [F], qw_out = w\<rparr>)))"
proof -
  have run: "keeps_file qd F m \<Longrightarrow> list_all (file_ok (good qd F)) (qw_files (snd (m \<lparr>qw_files = [F], qw_out = w\<rparr>)))"
    for m :: "('a, 'b) queueing"
    using good_start [OF assms(1)] by (simp add: keeps_def)
  show ?thesis
    using assms draft_keeps [OF assms(1)] run [OF confirm_keeps] run [OF retry_keeps] run [OF reconcile_keeps] run [OF mark_keeps]
      run [OF proof_keeps] run [OF discard_keeps] run [OF sweep_keeps]
    by (cases x) (simp_all add: unit_files propose_def create_def)
qed

end
