(* ===== verification/Cross_Publish.thy ===== *)
theory Cross_Publish
  imports Cross_Safety
begin

text \<open>
  What the operations of the cross-post queue publish, proved in a locale for worlds that log publications.
\<close>

section \<open>What an operation publishes\<close>

text \<open>The publications seen by the world outside, the last one first, do not change, or one that satisfies \<open>P\<close> is added.\<close>

abbreviation quiet :: "('w \<Rightarrow> stored_cross_post list) \<Rightarrow> stored_cross_post list \<Rightarrow> ('w, 'a) queueing \<Rightarrow> ('a \<Rightarrow> bool) \<Rightarrow> bool" where
  "quiet log L \<equiv> keeps (\<lambda>s. log (qw_out s) = L)"

definition sends :: "('w \<Rightarrow> stored_cross_post list) \<Rightarrow> stored_cross_post list \<Rightarrow> (stored_cross_post \<Rightarrow> bool) \<Rightarrow> ('w, 'a) queueing \<Rightarrow> bool" where
  "sends log L P m \<longleftrightarrow> (\<forall>s. log (qw_out s) = L \<longrightarrow>
     log (qw_out (snd (m s))) = L \<or> (\<exists>r. P r \<and> log (qw_out (snd (m s))) = r # L))"

named_theorems sending \<open>rules for what a computation publishes\<close>

lemma sends_quiet: "quiet log L m Q \<Longrightarrow> sends log L P m"
  by (simp add: keeps_def sends_def)

lemma sends_error [sending]: "sends log L P (cross_error e)"
  by (rule sends_quiet [OF writes_error])

lemma sends_let:
  assumes "quiet log L m Q" and "\<And>x. Q x \<Longrightarrow> sends log L P (k x)"
  shows "sends log L P (io_let m k)"
  unfolding sends_def
proof (intro allI impI)
  fix s :: "'a queue_world" assume s: "log (qw_out s) = L"
  obtain r s1 where m: "m s = (r, s1)" by fastforce
  from assms(1) s m have one: "log (qw_out s1) = L" "\<And>x. r = Inr x \<Longrightarrow> Q x"
    by (auto simp: keeps_def dest!: spec [of _ s])
  show "log (qw_out (snd (io_let m k s))) = L \<or> (\<exists>r. P r \<and> log (qw_out (snd (io_let m k s))) = r # L)"
  proof (cases r)
    case (Inl e)
    with m one show ?thesis by (simp add: io_let_def)
  next
    case (Inr x)
    with assms(2) [OF one(2) [OF Inr]] one(1) m show ?thesis by (simp add: io_let_def sends_def)
  qed
qed

lemma sends_then:
  assumes "sends log L P m" and "\<And>L' x. quiet log L' (k x) (\<lambda>_. True)"
  shows "sends log L P (io_let m k)"
proof -
  have "log (qw_out (snd (io_let m k s))) = log (qw_out (snd (m s)))" for s
    using assms(2) by (auto simp: io_let_def keeps_def split: prod.split sum.split)
  with assms(1) show ?thesis by (simp add: sends_def)
qed

lemma sends_now [sending]: "(\<And>t. sends log L P (k t)) \<Longrightarrow> sends log L P (at_now qd k)"
  by (simp add: sends_def at_now_def)

lemma sends_if [sending]: "(c \<Longrightarrow> sends log L P m) \<Longrightarrow> (\<not> c \<Longrightarrow> sends log L P n) \<Longrightarrow> sends log L P (if c then m else n)"
  by simp

lemma sends_option [sending]:
  "(v = None \<Longrightarrow> sends log L P f) \<Longrightarrow> (\<And>x. v = Some x \<Longrightarrow> sends log L P (g x)) \<Longrightarrow> sends log L P (case v of None \<Rightarrow> f | Some x \<Rightarrow> g x)"
  by (cases v) simp_all

lemma look_up_as_call:
  "io_let (look_up qd r c a) k = io_let (calls (lookup (queue_reconciler qd r) c a)) (\<lambda>d. k (adoptPendingTx r d))"
  by (simp add: look_up_def io_let_def io_return_def fun_eq_iff split: prod.split sum.split)

text \<open>The same from one state, where the answers of the world on the way are known.\<close>

definition sends_at :: "('w \<Rightarrow> stored_cross_post list) \<Rightarrow> stored_cross_post list \<Rightarrow> (stored_cross_post \<Rightarrow> bool) \<Rightarrow> ('w, 'a) queueing \<Rightarrow> 'w queue_world \<Rightarrow> bool" where
  "sends_at log L P m s \<longleftrightarrow> log (qw_out (snd (m s))) = L \<or> (\<exists>r. P r \<and> log (qw_out (snd (m s))) = r # L)"

lemma load_at: "sends_at log L P (io_let load_queue k) \<lparr>qw_files = [F], qw_out = w\<rparr> =
    sends_at log L P (k F) \<lparr>qw_files = [F], qw_out = w\<rparr>"
  by (simp add: sends_at_def load_first)

lemma sends_atI: "sends log L P m \<Longrightarrow> log (qw_out s) = L \<Longrightarrow> sends_at log L P m s"
  by (simp add: sends_def sends_at_def)

lemma sends_at_error: "log (qw_out s) = L \<Longrightarrow> sends_at log L P (cross_error e) s"
  by (rule sends_atI [OF sends_error])

lemma sends_at_now: "sends_at log L P (k (qd_now qd (qw_out s))) s \<Longrightarrow> sends_at log L P (at_now qd k) s"
  by (simp add: sends_at_def at_now_def)

lemma sends_at_if:
  "(c \<Longrightarrow> sends_at log L P m s) \<Longrightarrow> (\<not> c \<Longrightarrow> sends_at log L P n s) \<Longrightarrow> sends_at log L P (if c then m else n) s"
  by simp

lemma sends_at_option:
  "(v = None \<Longrightarrow> sends_at log L P f s) \<Longrightarrow> (\<And>x. v = Some x \<Longrightarrow> sends_at log L P (g x) s) \<Longrightarrow>
   sends_at log L P (case v of None \<Rightarrow> f | Some x \<Rightarrow> g x) s"
  by (cases v) simp_all

lemma sends_at_calls:
  assumes "log (snd (m w)) = log w" and "log w = L"
    and "\<And>x. m w = (Inr x, snd (m w)) \<Longrightarrow> log (snd (m w)) = L \<Longrightarrow> sends_at log L P (k x) \<lparr>qw_files = Fs, qw_out = snd (m w)\<rparr>"
  shows "sends_at log L P (io_let (calls m) k) \<lparr>qw_files = Fs, qw_out = w\<rparr>"
proof -
  obtain x w1 where m: "m w = (x, w1)" by fastforce
  show ?thesis
  proof (cases x)
    case (Inl e)
    with m assms(1,2) show ?thesis by (simp add: sends_at_def io_let_def calls_def)
  next
    case (Inr y)
    from assms(3) [of y] m Inr assms(1,2) show ?thesis by (simp add: sends_at_def io_let_def calls_def)
  qed
qed

text \<open>Before a retry publishes, it makes the record one that is being submitted.\<close>

lemma retry_submits:
  assumes "record_inv c" and "cp_state c \<noteq> Reconcile_required" and "cp_koinos c = Side_failed \<or> cp_state c = Draft \<and> cp_koinos c = Side_pending"
  shows "cp_state (transition t c (Retry x)) = Submitting \<and> cp_koinos (transition t c (Retry x)) = Side_pending"
  using assms by (auto simp: transition_def Let_def record_inv_def deriveState_def split: if_splits)

text \<open>What a lookup of an unknown outcome says: a post found, or none, which makes the outcome failed.\<close>

lemma looked_up_sides:
  assumes "cp_koinos b = Side_unknown" and "cp_state b \<noteq> Reconcile_required"
  shows "cp_koinos (transition t b (Lookup_found p x y)) \<in> {Side_ok, Side_unknown}"
    and "cp_koinos (transition t b (Lookup_missing y)) = Side_failed"
  using assms by (cases x; cases "cp_post b"; simp add: transition_def Let_def found_post_def conflict_def finish_def)+

lemma lookup_decides:
  assumes "lookup rc b a w = (Inr c, w')" and "cp_koinos b = Side_unknown" and "cp_state b \<noteq> Reconcile_required"
  shows "cp_koinos c \<in> {Side_failed, Side_ok, Side_unknown}"
  using lookup_Inr [OF assms(1)] looked_up_sides [OF assms(2,3)] by (fastforce split: option.splits)

lemma adopt_sides: "cp_koinos (adoptPendingTx r c) = cp_koinos c" "cp_state (adoptPendingTx r c) = cp_state c" "cp_post (adoptPendingTx r c) = cp_post c"
    "record_inv (adoptPendingTx r c) = record_inv c" "cp_attempt (adoptPendingTx r c) = cp_attempt c"
  by (auto simp: adoptPendingTx_def record_inv_def sides_ok_def deriveState_def Let_def split: option.split)

lemma merge_sides: "cp_koinos (sp_base (merge r c)) = cp_koinos c" "cp_state (sp_base (merge r c)) = cp_state c" "sp_attempt (merge r c) = cp_attempt c"
  by (simp_all add: merge_def)

text \<open>
  What an operation may publish, on the file and in the world it starts from: the record \<open>r\<close> is the record \<open>r0\<close> of
  the attempt the operation names, without a post and with the same text, now being submitted for the
  account that is unlocked.
\<close>

definition publishes_for :: "'w queue_deps \<Rightarrow> cross_post_file \<Rightarrow> 'w \<Rightarrow> ustring \<Rightarrow> ustring \<Rightarrow> stored_cross_post \<Rightarrow> stored_cross_post \<Rightarrow> bool" where
  "publishes_for qd F w aid a r0 r \<longleftrightarrow> find_attempt aid F = Some r0 \<and> cp_post (sp_base r0) = None \<and>
     (\<exists>account. fst (qd_account qd w) = Inr account \<and> non_empty account = Some a) \<and>
     sp_attempt r = aid \<and> sp_author r = Some a \<and> sp_text r = sp_text r0 \<and> sp_state r = Submitting \<and> sp_koinos r = Side_pending"

text \<open>
  A confirmation publishes a draft. A retry publishes an attempt that is known to have failed, or one of unknown
  outcome for which the lookup of this very operation, for the unlocked account, has shown that there is no post. No other operation publishes.
\<close>

fun may_publish :: "'w queue_deps \<Rightarrow> cross_post_file \<Rightarrow> 'w \<Rightarrow> queue_op \<Rightarrow> stored_cross_post \<Rightarrow> bool" where
  "may_publish qd F w (Confirm aid audience) r \<longleftrightarrow> (\<exists>a r0. publishes_for qd F w aid a r0 r \<and> sp_state r0 = Draft)"
| "may_publish qd F w (Retry_attempt aid) r \<longleftrightarrow> (\<exists>a r0. publishes_for qd F w aid a r0 r \<and> sp_state r0 \<noteq> Draft \<and>
     (sp_koinos r0 = Side_failed \<or>
      sp_koinos r0 = Side_unknown \<and>
        (\<exists>c w'. lookup (queue_reconciler qd r0) (sp_base r0) a (snd (qd_account qd w)) = (Inr c, w') \<and> cp_koinos c = Side_failed)))"
| "may_publish qd F w _ r \<longleftrightarrow> False"

lemma retry_publishes:
  assumes found: "find_attempt aid F = Some r" and "cp_post (sp_base r) = None"
    and account: "fst (qd_account qd w) = Inr account" "non_empty account = Some a" and "sp_author r = Some a"
    and c: "leads (sp_base r) c" "cp_koinos c = Side_failed" "cp_state c \<noteq> Reconcile_required"
  shows "publishes_for qd F w aid a r (merge r (transition t c (Retry x)))"
proof -
  have "sp_attempt r = aid" using found by (simp add: find_attempt_Some)
  moreover have "leads (sp_base r) (transition t c (Retry x))"
    using c(1) by (blast intro: leads_trans transition_leads leads_inv)
  ultimately show ?thesis
    using retry_submits [of c t x] c assms(2,5) found account
    by (auto simp: publishes_for_def merge_leads transition_fields leads_def)
qed

section \<open>A world that logs publications\<close>

locale publish_log =
  fixes qd :: "'w queue_deps" and log :: "'w \<Rightarrow> stored_cross_post list"
  assumes account_silent: "log (snd (qd_account qd w)) = log w"
    and chain_silent: "log (snd (qd_chain qd a k w)) = log w"
    and indexer_silent: "qd_indexer qd = Some look \<Longrightarrow> log (snd (look key r w)) = log w"
    and proof_silent: "qd_proof qd = Some prove \<Longrightarrow> log (snd (prove r w)) = log w"
    and store_silent: "log (snd (qd_store qd w)) = log w"
    and changed_silent: "log (snd (qd_changed qd F w)) = log w"
    and publish_logged: "log (snd (qd_publish qd r w)) = r # log w"
begin

lemma calls_quiet: "(\<And>w. log (snd (m w)) = log w) \<Longrightarrow> (\<And>x w w'. m w = (Inr x, w') \<Longrightarrow> Q x) \<Longrightarrow> quiet log L (calls m) Q"
  by (auto simp: keeps_def calls_def split: prod.split)
    (metis snd_conv)+

lemma lookup_silent: "log (snd (lookup (queue_reconciler qd r) c a w)) = log w"
proof -
  obtain v w1 where v: "qd_chain qd a (hexToBytes (cp_key c)) w = (v, w1)" by fastforce
  have w1: "log w1 = log w" using chain_silent [of a "hexToBytes (cp_key c)" w] v by simp
  have look: "log (snd (look k r w2)) = log w2" if "qd_indexer qd = Some look" for look k w2 by (rule indexer_silent [OF that])
  show ?thesis
    using v w1 look by (auto simp: lookup_def queue_reconciler_def io_let_def Let_def split: sum.split option.split prod.split)
      (metis snd_conv)+
qed

lemma save_quiet: "quiet log L (save_queue qd F) (\<lambda>_. True)"
  unfolding save_queue_def Let_def
  by (intro writes_let [where P = "\<lambda>_. True"] writes_return TrueI calls_quiet store_silent changed_silent)
    (simp add: keeps_def write_file_def)

lemma update_quiet: "quiet log L (update qd F r) (\<lambda>_. True)"
  unfolding update_def by (rule save_quiet)

lemma proof_quiet: "quiet log L (maybeProof qd F r) (\<lambda>_. True)"
  unfolding maybeProof_def Let_def
  by (intro writes_option writes_if writes_return TrueI writes_let [where P = "\<lambda>_. True"] writes_try [where P = "\<lambda>_. True"]
      writes_sum writes_now calls_quiet proof_silent update_quiet)

lemma update_and_prove_quiet: "quiet log L (update_and_prove qd F r) (\<lambda>_. True)"
  unfolding update_and_prove_def by (rule writes_let [OF update_quiet proof_quiet])

lemma look_up_quiet:
  "quiet log L (look_up qd r c a) (\<lambda>d. \<exists>w d0 w'. lookup (queue_reconciler qd r) c a w = (Inr d0, w') \<and> d = adoptPendingTx r d0)"
  unfolding look_up_def
  by (rule writes_let [OF calls_quiet [where Q = "\<lambda>d0. \<exists>w w'. lookup (queue_reconciler qd r) c a w = (Inr d0, w')", OF lookup_silent]])
    (blast intro: writes_return)+

lemma publish_sends: "P r \<Longrightarrow> sends log L P (cross_publish qd F r)"
proof -
  assume r: "P r"
  have once: "log (qw_out (snd (publish_once qd r s))) = r # log (qw_out s)" for s
  proof -
    obtain x w where p: "qd_publish qd r (qw_out s) = (x, w)" by fastforce
    then have w: "log w = r # log (qw_out s)" using publish_logged [of r "qw_out s"] by simp
    have looked: "log (qw_out (snd (io_let (calls (lookup (queue_reconciler qd k) c a)) (\<lambda>d. io_return (f d)) (s\<lparr>qw_out := w\<rparr>)))) = log w"
      for k c a and f :: "cross_post_record \<Rightarrow> stored_cross_post \<times> cross_post_record \<times> bool"
    proof -
      obtain d w2 where d: "lookup (queue_reconciler qd k) c a w = (d, w2)" by fastforce
      then have "log w2 = log w" using lookup_silent [of k c a w] by simp
      with d show ?thesis by (cases d) (simp_all add: io_let_def calls_def)
    qed
    show ?thesis using p w looked by (auto simp: publish_once_def Let_def split: sum.split failure_kind.split)
  qed
  have "sends log L P (publish_once qd r)" using r once by (auto simp: sends_def)
  then show "sends log L P (cross_publish qd F r)"
    unfolding cross_publish_def Let_def
    by (rule sends_then) (auto intro!: writes_let [OF update_quiet] proof_quiet split: prod.split)
qed

lemma send_again_sends:
  assumes "\<And>t. fst (retryPlan c) \<Longrightarrow> P (merge r (transition t c (Retry (Some t))))"
  shows "sends log L P (send_again qd F r c)"
  unfolding send_again_def Let_def
  by (intro sends_now sends_let [OF update_quiet] sends_if sends_error publish_sends assms sends_quiet [OF writes_return])

lemma reconcile_quiet: "quiet log L (reconcile_attempt qd aid) (\<lambda>_. True)"
proof -
  have all: "quiet log L m (\<lambda>_. True)" if "quiet log L m Q" for m :: "('w, 'x) queueing" and Q
    using that by (rule writes_weaken) simp
  show ?thesis unfolding reconcile_attempt_def Let_def load_queue_def [abs_def]
    by (intro writes_let [where P = "\<lambda>_. True"] writes_option writes_error writes_return writes_now writes_if writes_lift TrueI
        calls_quiet account_silent all [OF look_up_quiet] update_and_prove_quiet) (simp add: keeps_def)
qed

lemma load_quiet: "quiet log L load_queue (\<lambda>_. True)"
  by (simp add: keeps_def load_queue_def)

lemma quiet_operations:
  "quiet log L (add_draft qd inp) (\<lambda>_. True)" "quiet log L (markHost qd aid posted detail) (\<lambda>_. True)"
  "quiet log L (queue_proof qd aid) (\<lambda>_. True)" "quiet log L (discard qd aid) (\<lambda>_. True)"
  unfolding add_draft_def fresh_def markHost_def queue_proof_def discard_def Let_def
  by (intro writes_let [where P = "\<lambda>_. True"] load_quiet writes_option writes_error writes_return writes_now writes_if writes_lift TrueI
        calls_quiet account_silent update_and_prove_quiet update_quiet proof_quiet save_quiet)+

lemma sweep_quiet: "quiet log L (sweep qd) (\<lambda>_. True)"
proof -
  have "quiet log L (sweep_records qd rs) (\<lambda>_. True)" for rs
    by (induction rs; unfold sweep_records.simps)
      (intro writes_return TrueI writes_let [where P = "\<lambda>_. True"] writes_now writes_if writes_try [OF reconcile_quiet]; assumption?)+
  then show ?thesis unfolding sweep_def queue_list_def
    by (intro writes_let [where P = "\<lambda>_. True"] load_quiet writes_return TrueI)
qed

text \<open>The two operations that publish, on a file of records that satisfy the invariant.\<close>

lemma confirm_as_sends:
  assumes ok: "stored_ok qd r" and found: "find_attempt aid F = Some r" and draft: "sp_state r = Draft"
    and account: "fst (qd_account qd w) = Inr account" "non_empty account = Some a"
  shows "sends log L (may_publish qd F w (Confirm aid audience)) (confirm_as qd F r a audience)"
  unfolding confirm_as_def Let_def
proof (intro sends_let [OF writes_lift [where Q = "\<lambda>_. True", OF TrueI]] sends_now sends_let [OF update_quiet] publish_sends)
  fix key t
  let ?b = "(sp_base r)\<lparr>cp_audience := (case audience of None \<Rightarrow> cp_audience (sp_base r) | Some x \<Rightarrow> x), cp_key := key\<rparr>"
  have base: "record_inv (sp_base r)" "sp_koinos r = Side_pending" using ok draft by (simp_all add: stored_ok_def)
  then have b: "record_inv ?b" by (simp add: record_inv_def sides_ok_def deriveState_def)
  have "cp_post (sp_base r) = None" using inv_post_known [OF base(1)] base(2) by (cases "cp_post (sp_base r)") simp_all
  with retry_submits [OF b, of t "Some t"] base draft found find_attempt_Some [OF found] account
  have "publishes_for qd F w aid a r (merge (r\<lparr>sp_author := Some a, sp_base := ?b\<rparr>) (transition t ?b (Retry (Some t))))"
    by (auto simp: publishes_for_def merge_def transition_fields)
  with draft show "may_publish qd F w (Confirm aid audience) (merge (r\<lparr>sp_author := Some a, sp_base := ?b\<rparr>) (transition t ?b (Retry (Some t))))"
    by auto
qed

lemma confirm_sends:
  assumes F: "file_ok (stored_ok qd) F" and L: "log w = L"
  shows "sends_at log L (may_publish qd F w (Confirm aid audience)) (confirm qd aid audience) \<lparr>qw_files = [F], qw_out = w\<rparr>"
  unfolding confirm_def load_at
proof (rule sends_at_option, rule sends_at_error, simp add: L, rule sends_at_if, rule sends_at_error, simp add: L,
    rule sends_at_calls [where m = "qd_account qd" and log = log, OF account_silent L], rule sends_at_option, rule sends_at_error, simp, rule sends_at_if, rule sends_at_error, simp)
  fix r account a
  assume found: "find_attempt aid F = Some r" and draft: "\<not> sp_state r \<noteq> Draft"
    and account: "qd_account qd w = (Inr account, snd (qd_account qd w))" "non_empty account = Some a"
    and silent: "log (snd (qd_account qd w)) = L"
  have "fst (qd_account qd w) = Inr account" by (subst account(1)) simp
  then show "sends_at log L (may_publish qd F w (Confirm aid audience)) (confirm_as qd F r a audience) \<lparr>qw_files = [F], qw_out = snd (qd_account qd w)\<rparr>"
    using confirm_as_sends [OF start_record [OF F found] found] draft account(2) silent by (intro sends_atI) simp_all
qed

lemma retry_as_sends:
  assumes ok: "stored_ok qd r" and found: "find_attempt aid F = Some r" and log: "log (snd (qd_account qd w)) = L"
    and allowed: "Act_retry \<in> set (fst (explain r t)) \<or> sp_state r = Unknown_outcome"
    and account: "fst (qd_account qd w) = Inr account" "non_empty account = Some a"
    and mine: "non_empty (sp_author r) = None \<or> sp_author r = Some a"
  shows "sends_at log L (may_publish qd F w (Retry_attempt aid)) (retry_as qd F r a) \<lparr>qw_files = [F], qw_out = snd (qd_account qd w)\<rparr>"
proof -
  let ?P = "may_publish qd F w (Retry_attempt aid)" and ?w = "snd (qd_account qd w)"
  have inv: "record_inv (sp_base r)" using ok by (simp add: stored_ok_def)
  have state: "sp_state r \<noteq> Reconcile_required" "sp_state r \<noteq> Draft" using allowed by (auto simp: explain_def)
  then have author: "sp_author r = Some a" using ok mine by (auto simp: stored_ok_def non_empty_def)
  show ?thesis
  proof (cases "sp_koinos r = Side_unknown")
    case unknown: True
    then have post: "cp_post (sp_base r) = None" using inv_post_known [OF inv] by (cases "cp_post (sp_base r)") simp_all
    have "sends_at log L ?P (io_let (look_up qd r (sp_base r) a) (\<lambda>current.
        if cp_koinos current = Side_ok \<or> cp_state current = Reconcile_required
        then update_and_prove qd F (settle_found r current) else send_again qd F r current)) \<lparr>qw_files = [F], qw_out = ?w\<rparr>"
      unfolding look_up_as_call
    proof (rule sends_at_calls [where m = "lookup (queue_reconciler qd r) (sp_base r) a" and log = log, OF lookup_silent log])
      fix d assume d: "lookup (queue_reconciler qd r) (sp_base r) a ?w = (Inr d, snd (lookup (queue_reconciler qd r) (sp_base r) a ?w))"
        and quiet: "log (snd (lookup (queue_reconciler qd r) (sp_base r) a ?w)) = L"
      let ?c = "adoptPendingTx r d"
      have "sends log L ?P (if cp_koinos ?c = Side_ok \<or> cp_state ?c = Reconcile_required
          then update_and_prove qd F (settle_found r ?c) else send_again qd F r ?c)"
      proof (rule sends_if, rule sends_quiet [OF update_and_prove_quiet], rule send_again_sends)
        fix t2 assume open1: "\<not> (cp_koinos ?c = Side_ok \<or> cp_state ?c = Reconcile_required)" and plan: "fst (retryPlan ?c)"
        have failed: "cp_koinos d = Side_failed"
          using lookup_decides [OF d unknown state(1)] open1 plan by (auto simp: adopt_sides retryPlan_def)
        have "leads (sp_base r) ?c" by (rule adopt_leads [OF lookup_leads [OF d inv]])
        then have "publishes_for qd F w aid a r (merge r (transition t2 ?c (Retry (Some t2))))"
          using open1 failed by (intro retry_publishes [OF found post account author]) (auto simp: adopt_sides)
        with state(2) unknown d failed show "?P (merge r (transition t2 ?c (Retry (Some t2))))" by auto
      qed
      then show "sends_at log L ?P (if cp_koinos ?c = Side_ok \<or> cp_state ?c = Reconcile_required
          then update_and_prove qd F (settle_found r ?c) else send_again qd F r ?c)
          \<lparr>qw_files = [F], qw_out = snd (lookup (queue_reconciler qd r) (sp_base r) a ?w)\<rparr>"
        using quiet by (intro sends_atI) simp_all
    qed
    with unknown show ?thesis by (simp add: retry_as_def baseRecord_def)
  next
    case known: False
    have "sends log L ?P (send_again qd F r (sp_base r))"
    proof (rule send_again_sends)
      fix t2 assume plan: "fst (retryPlan (sp_base r))"
      then have post: "cp_post (sp_base r) = None" by (simp add: retryPlan_def)
      have failed: "sp_koinos r = Side_failed"
        using allowed known inv state plan
        by (auto simp: explain_def record_inv_def deriveState_def Let_def retryPlan_def split: cross_post_state.splits if_splits)
      have "publishes_for qd F w aid a r (merge r (transition t2 (sp_base r) (Retry (Some t2))))"
        by (intro retry_publishes [OF found post account author] leads_refl inv failed state)
      with state(2) failed show "?P (merge r (transition t2 (sp_base r) (Retry (Some t2))))" by auto
    qed
    with known log show ?thesis by (intro sends_atI) (simp_all add: retry_as_def baseRecord_def)
  qed
qed

lemma retry_sends:
  assumes F: "file_ok (stored_ok qd) F" and L: "log w = L"
  shows "sends_at log L (may_publish qd F w (Retry_attempt aid)) (retry_attempt qd aid) \<lparr>qw_files = [F], qw_out = w\<rparr>"
  unfolding retry_attempt_def load_at
proof (rule sends_at_option, rule sends_at_error, simp add: L, rule sends_at_now, rule sends_at_if, rule sends_at_error, simp add: L,
    rule sends_at_calls [where m = "qd_account qd" and log = log, OF account_silent L], rule sends_at_option, rule sends_at_error, simp, rule sends_at_if, rule sends_at_error, simp)
  fix r account a
  assume found: "find_attempt aid F = Some r"
    and allowed: "\<not> (Act_retry \<notin> set (fst (explain r (qd_now qd (qw_out \<lparr>qw_files = [F], qw_out = w\<rparr>)))) \<and> sp_state r \<noteq> Unknown_outcome)"
    and account: "qd_account qd w = (Inr account, snd (qd_account qd w))" "non_empty account = Some a"
    and silent: "log (snd (qd_account qd w)) = L"
    and mine: "\<not> (non_empty (sp_author r) \<noteq> None \<and> sp_author r \<noteq> Some a)"
  have acc: "fst (qd_account qd w) = Inr account" by (subst account(1)) simp
  have may: "Act_retry \<in> set (fst (explain r (qd_now qd (qw_out \<lparr>qw_files = [F], qw_out = w\<rparr>)))) \<or> sp_state r = Unknown_outcome"
    "non_empty (sp_author r) = None \<or> sp_author r = Some a"
    using allowed mine by blast+
  show "sends_at log L (may_publish qd F w (Retry_attempt aid)) (retry_as qd F r a) \<lparr>qw_files = [F], qw_out = snd (qd_account qd w)\<rparr>"
    by (rule retry_as_sends [OF start_record [OF F found] found silent may(1) acc account(2) may(2)])
qed

lemma operation_sends:
  assumes "file_ok (stored_ok qd) F" and "log w = L"
  shows "sends_at log L (may_publish qd F w x) (run_op qd x) \<lparr>qw_files = [F], qw_out = w\<rparr>"
proof -
  have unit: "sends_at log L P (as_unit m) s = sends_at log L P m s" for m :: "('w, 'a) queueing" and s and P
    by (simp add: sends_at_def as_unit_def io_let_def split: prod.split sum.split)
  have one: "sends_at log L P m \<lparr>qw_files = [F], qw_out = w\<rparr>" if "quiet log L m (\<lambda>_. True)" for m :: "('w, 'a) queueing" and P
    using that assms(2) by (simp add: keeps_def sends_at_def)
  show ?thesis
    by (cases x) (simp_all only: run_op.simps unit propose_def create_def,
      simp_all only: one quiet_operations reconcile_quiet sweep_quiet confirm_sends [OF assms] retry_sends [OF assms])
qed

end

end
