(* ===== verification/Cross_Queue.thy ===== *)
theory Cross_Queue
  imports Cross_Publish
begin

text \<open>
  The properties of the cross-post queue of the extension, and the deps with a log of publications, on which
  the locale is interpreted.
\<close>

section \<open>The world that logs publications\<close>

definition with_log :: "('w, 'a) io \<Rightarrow> ('w \<times> stored_cross_post list, 'a) io" where
  "with_log m s = (case m (fst s) of (r, w) \<Rightarrow> (r, (w, snd s)))"

definition logging :: "'w queue_deps \<Rightarrow> ('w \<times> stored_cross_post list) queue_deps" where
  "logging qd = \<lparr>qd_now = (\<lambda>s. qd_now qd (fst s)), qd_account = with_log (qd_account qd),
     qd_publish = (\<lambda>r s. case qd_publish qd r (fst s) of (x, w) \<Rightarrow> (x, (w, r # snd s))),
     qd_chain = (\<lambda>a k. with_log (qd_chain qd a k)), qd_indexer = map_option (\<lambda>look k r. with_log (look k r)) (qd_indexer qd),
     qd_proof = map_option (\<lambda>prove r. with_log (prove r)) (qd_proof qd), qd_store = with_log (qd_store qd),
     qd_changed = (\<lambda>F. with_log (qd_changed qd F)), qd_codec = qd_codec qd, qd_to_hex = qd_to_hex qd, qd_parse_url = qd_parse_url qd\<rparr>"

lemma with_log_silent: "snd (snd (with_log m s)) = snd s"
  by (simp add: with_log_def split: prod.split)

interpretation published: publish_log "logging qd" snd
  by unfold_locales (auto simp: logging_def with_log_silent split: prod.split)

section \<open>Every stored file\<close>

inductive_cases stored_fileE: "stored_file qd F"

fun_cases propose_okE: "queue_op_ok (Propose aid txt url submitted)"

lemma good_stored: "file_ok (good qd F) F' \<Longrightarrow> file_ok (stored_ok qd) F'"
  by (auto simp: file_ok_def good_def list_all_iff)

lemma stored_file_ok: "stored_file qd F \<Longrightarrow> file_ok (stored_ok qd) F"
proof (induction rule: stored_file.induct)
  case Empty
  show ?case by (simp add: file_ok_def)
next
  case (Step F x F' w)
  from op_keeps [OF Step.IH Step.hyps(2), of w] Step.hyps(3) show ?case
    by (auto simp: list_all_iff intro: good_stored)
qed

lemma stored_next: "stored_file qd F \<Longrightarrow> queue_op_ok x \<Longrightarrow> F' \<in> set (qw_files (snd (run_op qd x \<lparr>qw_files = [F], qw_out = w\<rparr>))) \<Longrightarrow>
    file_ok (good qd F) F'"
  using op_keeps [OF stored_file_ok] by (fastforce simp: list_all_iff)

section \<open>Properties\<close>

text \<open>
  C13: Whatever the extension does and wherever the browser stops it, the stored queue has one record per attempt, and
  every record satisfies its invariant: the state is the one its two sides give, a confirmed attempt has its
  author and the idempotency key of author and attempt, an attempt with a post has no draft text any more.
\<close>

theorem queue_invariant:
  assumes "stored_file qd F"
  shows "file_ok (stored_ok qd) F"
  using stored_file_ok [OF assms] .

text \<open>
  An operation of the queue, complete or interrupted, never changes the post id of a published attempt.
\<close>

theorem published_stays_published:
  assumes "stored_file qd F" and "queue_op_ok x" and "F' \<in> set (qw_files (snd (run_op qd x \<lparr>qw_files = [F], qw_out = w\<rparr>)))"
    and "find_attempt aid F = Some r" and "find_attempt aid F' = Some r'" and "cp_post (sp_base r) = Some p"
  shows "cp_post (sp_base r') = Some p"
  using start_record [OF stored_next [OF assms(1-3)] assms(5)] assms(4-6)
  by (auto simp: good_def kept_from_def dest!: find_attempt_Some)

text \<open>
  C12: One operation publishes at most one record, and only when that cannot be a second publication as far as
  anyone can know. A confirmation publishes the draft it names. A retry publishes the attempt it names,
  and only if that is known to have failed, or has an unknown outcome and the lookup of this retry, for the unlocked
  account, has just shown that there is no post. The record has the text of the draft and the unlocked
  account as its author. No other operation publishes anything.
\<close>

theorem publish_only_when_safe:
  assumes "stored_file (logging qd) F"
  shows "snd (qw_out (snd (run_op (logging qd) x \<lparr>qw_files = [F], qw_out = (w, L)\<rparr>))) \<in>
    insert L {r # L | r. may_publish (logging qd) F (w, L) x r}"
  using published.operation_sends [OF stored_file_ok [OF assms], of "(w, L)" L x] by (auto simp: sends_at_def)

section \<open>The properties at a concrete input\<close>

definition demo_attempt :: ustring where
  "demo_attempt = utf16 ''00000000000000000000000000000001''"

definition demo_queue :: "unit queue_deps" where
  "demo_queue = \<lparr>qd_now = (\<lambda>_. 7), qd_account = (\<lambda>w. (Inr (Some (utf16 ''a'')), w)),
     qd_publish = (\<lambda>_ w. (Inr \<lparr>out_attempt = \<lparr>at_post = [5], at_content_hash = [6], at_sequence = utf16 ''1'', at_epoch = 0, at_tx = None\<rparr>, out_tx = [9]\<rparr>, w)),
     qd_chain = (\<lambda>_ _ w. (Inr None, w)), qd_indexer = None, qd_proof = None, qd_store = (\<lambda>w. (Inr (), w)), qd_changed = (\<lambda>_ w. (Inr (), w)),
     qd_codec = demo_codec\<lparr>decode_base58 := (\<lambda>_. Inr (replicate 25 1))\<rparr>, qd_to_hex = map ucast, qd_parse_url = (\<lambda>_. None)\<rparr>"

definition demo_propose :: queue_op where
  "demo_propose = Propose demo_attempt (utf16 ''hello'') (utf16 ''https://facebook.com'') False"

definition file_after :: "'w queue_deps \<Rightarrow> 'w \<Rightarrow> cross_post_file \<Rightarrow> queue_op \<Rightarrow> cross_post_file" where
  "file_after qd w F x = (case qw_files (snd (run_op qd x \<lparr>qw_files = [F], qw_out = w\<rparr>)) of [] \<Rightarrow> F | F' # _ \<Rightarrow> F')"

lemma stored_after: "stored_file qd F \<Longrightarrow> queue_op_ok x \<Longrightarrow> stored_file qd (file_after qd w F x)"
  by (auto simp: file_after_def split: list.split intro: stored_file.Step [of qd F x _ w])

definition demo_drafts :: cross_post_file where
  "demo_drafts = file_after (logging demo_queue) ((), []) [] demo_propose"

definition demo_published :: cross_post_file where
  "demo_published = file_after (logging demo_queue) ((), []) demo_drafts (Confirm demo_attempt None)"

lemma demo_files: "stored_file (logging demo_queue) demo_drafts" "stored_file (logging demo_queue) demo_published"
proof -
  have "queue_op_ok demo_propose" by code_simp
  then show "stored_file (logging demo_queue) demo_drafts" unfolding demo_drafts_def by (intro stored_after stored_file.Empty)
  then show "stored_file (logging demo_queue) demo_published" unfolding demo_published_def by (rule stored_after) simp
qed

theorem queue_invariant_witness:
  "file_ok (stored_ok (logging demo_queue)) demo_published \<and> map sp_state demo_published = [Submitting] \<and>
     map (\<lambda>r. cp_post (sp_base r)) demo_published = [Some [5]]"
proof -
  have "map sp_state demo_published = [Submitting]" "map (\<lambda>r. cp_post (sp_base r)) demo_published = [Some [5]]" by code_simp+
  with queue_invariant [OF demo_files(2)] show ?thesis by simp
qed

theorem published_stays_published_witness:
  "\<exists>r. find_attempt demo_attempt (file_after (logging demo_queue) ((), []) demo_published (Mark_host demo_attempt False None)) = Some r \<and>
     sp_state r = Partial \<and> cp_post (sp_base r) = Some [5]"
proof -
  let ?s = "snd (run_op (logging demo_queue) (Mark_host demo_attempt False None) \<lparr>qw_files = [demo_published], qw_out = ((), [])\<rparr>)"
  have versions: "length (qw_files ?s) = 2" by code_simp
  then have F': "file_after (logging demo_queue) ((), []) demo_published (Mark_host demo_attempt False None) \<in> set (qw_files ?s)"
    by (auto simp: file_after_def split: list.split)
  have "map_option (\<lambda>r. cp_post (sp_base r)) (find_attempt demo_attempt demo_published) = Some (Some [5])" by code_simp
  then obtain r where r: "find_attempt demo_attempt demo_published = Some r" "cp_post (sp_base r) = Some [5]" by auto
  have "map_option sp_state (find_attempt demo_attempt (file_after (logging demo_queue) ((), []) demo_published (Mark_host demo_attempt False None))) = Some Partial"
    by code_simp
  then obtain r' where r': "find_attempt demo_attempt (file_after (logging demo_queue) ((), []) demo_published (Mark_host demo_attempt False None)) = Some r'"
    "sp_state r' = Partial" by auto
  from published_stays_published [OF demo_files(2) _ F' r(1) r'(1) r(2)] r' show ?thesis by simp
qed

theorem publish_only_when_safe_witness:
  "\<exists>r. snd (qw_out (snd (run_op (logging demo_queue) (Confirm demo_attempt None) \<lparr>qw_files = [demo_drafts], qw_out = ((), [])\<rparr>))) = [r] \<and>
     may_publish (logging demo_queue) demo_drafts ((), []) (Confirm demo_attempt None) r"
proof -
  have "length (snd (qw_out (snd (run_op (logging demo_queue) (Confirm demo_attempt None) \<lparr>qw_files = [demo_drafts], qw_out = ((), [])\<rparr>)))) = 1"
    by code_simp
  with publish_only_when_safe [OF demo_files(1), of "Confirm demo_attempt None" "()" "[]"] show ?thesis by auto
qed

end
