(* ===== verification/Ext_Publish.thy ===== *)
theory Ext_Publish
  imports Cross_Post Protocol_Client Relationships Identity
begin

text \<open>
  What the extension writes to the chain (\<open>apps/extension/src/background/publish.ts\<close>): who pays, to whom a
  friends-only post is encrypted, the publication itself, and what it shows of the device's authority. The reads of
  the chain, the indexer, the key store, encryption and the wrappers that encode operations are parameters.
\<close>

section \<open>Payment\<close>

datatype payment_preference = Sponsor_then_self | Self_only | Sponsor_only

record 'w payment_context =
  pc_client :: "'w protocol_client"
  pc_device :: "'w user_signer"
  pc_owner :: "'w user_signer option"
  pc_payment :: payment_preference
  pc_sponsor_urls :: "ustring list"

datatype 'w payment_plan = Plan_sponsored bool | Plan_self "'w user_signer"

definition paymentPlan :: "'w payment_context \<Rightarrow> 'w payment_plan client" where
  "paymentPlan ctx =
     (let owner = pc_owner ctx; self = (case owner of None \<Rightarrow> Inl Other_error | Some o1 \<Rightarrow> Inr (Plan_self o1))
      in if pc_payment ctx = Self_only then self
         else if pc_sponsor_urls ctx = [] then if pc_payment ctx = Sponsor_only then Inl Other_error else self
         else Inr (Plan_sponsored (pc_payment ctx = Sponsor_then_self \<and> owner \<noteq> None)))"

definition selfPayWithOwner :: "json list \<Rightarrow> 'w payment_context \<Rightarrow> 'w user_signer \<Rightarrow> ('w, submit_result) calling" where
  "selfPayWithOwner operations ctx owner =
     and_then (prepare (pc_client ctx) operations (us_address (pc_device ctx)) (Some (us_address owner)) None None) (\<lambda>prepared.
     and_then (sign prepared (pc_device ctx)) (\<lambda>once.
     and_then (sign once owner) (\<lambda>twice.
     and_then (client_broadcast (pc_client ctx) twice) (\<lambda>(transaction, receipt).
     give (submitted transaction receipt None [])))))"

definition submitOperations :: "json list \<Rightarrow> 'w payment_context \<Rightarrow> ('w, submit_result) calling" where
  "submitOperations operations ctx s =
     (case paymentPlan ctx of
        Inl e \<Rightarrow> (Inl e, s)
      | Inr (Plan_self payer) \<Rightarrow> selfPayWithOwner operations ctx payer s
      | Inr (Plan_sponsored fallback) \<Rightarrow>
          (case submit (pc_client ctx) (pc_device ctx) operations Client_default False None s of
             (Inl (Sponsor_error category), s') \<Rightarrow>
               (case (fallback, pc_owner ctx) of
                  (True, Some owner) \<Rightarrow> selfPayWithOwner operations ctx owner s'
                | _ \<Rightarrow> (Inl (Sponsor_error category), s'))
           | answer \<Rightarrow> answer))"

section \<open>Reads of the chain\<close>

record relationship_view =
  rv_a :: ustring
  rv_b :: ustring
  rv_state :: relationship_status

record identity_view =
  iv_encryption_key :: "bytes option"
  iv_key_version :: int
  iv_device_epoch :: int

record device_view =
  dv_capabilities :: u32
  dv_expires_at :: ustring
  dv_device_epoch :: int
  dv_is_revoked :: bool

record 'w chain_reads =
  rd_relationship :: "ustring \<Rightarrow> ustring \<Rightarrow> ('w, relationship_view option) io"
  rd_identity :: "ustring \<Rightarrow> ('w, identity_view option) io"
  rd_device :: "ustring \<Rightarrow> ustring \<Rightarrow> ('w, device_view option) io"
  rd_sequence :: "ustring \<Rightarrow> ('w, ustring option) io"
  rd_epoch :: "ustring \<Rightarrow> ('w, int option) io"

section \<open>Recipients of a friends key\<close>

record recipient =
  rp_address :: ustring
  rp_key :: bytes
  rp_version :: int

text \<open>The loop over the candidates that the indexer suggests; \<open>None\<close> stands for a candidate without an account.\<close>

fun confirm_friends :: "'w chain_reads \<Rightarrow> codec \<Rightarrow> ustring \<Rightarrow> ustring list \<Rightarrow> ustring option list \<Rightarrow> ('w, recipient list) calling" where
  "confirm_friends reads cd me seen [] = give []"
| "confirm_friends reads cd me seen (None # cs) = confirm_friends reads cd me seen cs"
| "confirm_friends reads cd me seen (Some friend # cs) =
     (if friend \<in> set seen \<or> \<not> isAddress cd friend then confirm_friends reads cd me seen cs
      else and_then (outside (rd_relationship reads me friend)) (\<lambda>relationship.
        if (case relationship of None \<Rightarrow> True
            | Some r \<Rightarrow> rv_state r \<noteq> Rel_active \<or> \<not> (rv_a r = me \<and> rv_b r = friend) \<and> \<not> (rv_a r = friend \<and> rv_b r = me))
        then confirm_friends reads cd me (friend # seen) cs
        else and_then (outside (rd_identity reads friend)) (\<lambda>identity.
          case Option.bind identity (\<lambda>i. map_option (Pair i) (iv_encryption_key i)) of
            None \<Rightarrow> confirm_friends reads cd me (friend # seen) cs
          | Some (i, key) \<Rightarrow>
              if length key \<noteq> 32 then confirm_friends reads cd me (friend # seen) cs
              else and_then (confirm_friends reads cd me (friend # seen) cs) (\<lambda>rest.
                give (\<lparr>rp_address = friend, rp_key = key, rp_version = (if iv_key_version i = 0 then 1 else iv_key_version i)\<rparr> # rest)))))"

definition verifiedFriendRecipients :: "'w chain_reads \<Rightarrow> codec \<Rightarrow> ('w, ustring option list) io \<Rightarrow> recipient \<Rightarrow> ('w, recipient list) calling" where
  "verifiedFriendRecipients reads cd graph me =
     and_then (outside graph) (\<lambda>candidates.
     and_then (confirm_friends reads cd (rp_address me) [rp_address me] candidates) (\<lambda>rest. give (me # rest)))"

section \<open>The friends epoch key\<close>

datatype key_lookup = Key_found bytes | Key_missing | Key_unavailable

record epoch_plan =
  ep_epoch :: int
  ep_key :: bytes
  ep_operations :: "json list"
  ep_created :: bool

record publish_call =
  pu_post :: bytes
  pu_sequence :: ustring
  pu_audience :: int
  pu_epoch :: int
  pu_envelope :: bytes
  pu_hash :: bytes
  pu_key :: bytes

record 'w publish_deps =
  pd_reads :: "'w chain_reads"
  pd_codec :: codec
  pd_chain_id :: ustring
  pd_me :: recipient
  pd_device_address :: ustring
  pd_graph :: "('w, ustring option list) io"
  pd_lookup :: "int \<Rightarrow> ('w, key_lookup) io" \<comment> \<open>\<open>KeyStore.lookup\<close> of the friends audience at an epoch\<close>
  pd_remember :: "int \<Rightarrow> bytes \<Rightarrow> ('w, unit) io"
  pd_new_key :: "('w, bytes) io"
  pd_packages :: "int \<Rightarrow> bytes \<Rightarrow> recipient list \<Rightarrow> ('w, bytes list) io" \<comment> \<open>\<open>buildKeyPackageSets\<close>\<close>
  pd_rotate :: "('w, json) io" \<comment> \<open>the operations as their wrappers encode them\<close>
  pd_distribute :: "int \<Rightarrow> bytes \<Rightarrow> ('w, json) io"
  pd_publish :: "publish_call \<Rightarrow> ('w, json) io"
  pd_encrypt :: "ustring \<Rightarrow> ustring option \<Rightarrow> int \<Rightarrow> (int \<times> bytes) option \<Rightarrow> ('w, bytes) io"
  pd_to_hex :: "bytes \<Rightarrow> ustring"
  pd_message :: "client_error \<Rightarrow> ustring"

fun distribute_all :: "'w publish_deps \<Rightarrow> int \<Rightarrow> bytes list \<Rightarrow> ('w, json list) calling" where
  "distribute_all pd epoch [] = give []"
| "distribute_all pd epoch (set1 # sets) =
     and_then (outside (pd_distribute pd epoch set1)) (\<lambda>op. and_then (distribute_all pd epoch sets) (\<lambda>ops. give (op # ops)))"

definition friendsEpochKey :: "'w publish_deps \<Rightarrow> ('w, epoch_plan) calling" where
  "friendsEpochKey pd =
     and_then (outside (rd_epoch (pd_reads pd) (rp_address (pd_me pd)))) (\<lambda>known.
     let epoch = (case known of Some e \<Rightarrow> e | None \<Rightarrow> 0)
     in and_then (outside (pd_lookup pd epoch)) (\<lambda>found.
        case found of
          Key_found key \<Rightarrow> give \<lparr>ep_epoch = epoch, ep_key = key, ep_operations = [], ep_created = False\<rparr>
        | Key_unavailable \<Rightarrow> give_up Other_error
        | Key_missing \<Rightarrow>
            and_then (verifiedFriendRecipients (pd_reads pd) (pd_codec pd) (pd_graph pd) (pd_me pd)) (\<lambda>recipients.
            and_then (outside (pd_new_key pd)) (\<lambda>key.
            and_then (outside (pd_packages pd (epoch + 1) key recipients)) (\<lambda>sets.
            and_then (outside (pd_rotate pd)) (\<lambda>rotate.
            and_then (distribute_all pd (epoch + 1) sets) (\<lambda>ops.
            give \<lparr>ep_epoch = epoch + 1, ep_key = key, ep_operations = rotate # ops, ep_created = True\<rparr>)))))))"

section \<open>Publishing\<close>

record publish_input =
  pb_text :: ustring
  pb_audience :: int
  pb_attempt :: ustring
  pb_external_ref :: "ustring option"

definition error_class_of :: "client_error \<Rightarrow> error_class" where
  "error_class_of e = (case e of Outcome_unknown _ _ \<Rightarrow> Class_unknown | Transaction_reverted _ _ \<Rightarrow> Class_reverted
     | Sponsor_error c \<Rightarrow> Class_sponsor c | _ \<Rightarrow> Class_other)"

definition failed_transaction :: "client_error \<Rightarrow> ustring option" where
  "failed_transaction e = (case e of
       Outcome_unknown t _ \<Rightarrow> non_empty (str_of (attr (Some t) ''id''))
     | Transaction_reverted t _ \<Rightarrow> non_empty (str_of (attr (Some t) ''id''))
     | _ \<Rightarrow> None)"

text \<open>What \<open>publishPost\<close> does before it submits: the operations, the attempt and the plan of the friends key.\<close>

definition build_post :: "'w publish_deps \<Rightarrow> 'w payment_context \<Rightarrow> publish_input \<Rightarrow> ('w, json list \<times> publish_attempt \<times> epoch_plan option) calling" where
  "build_post pd ctx inp =
     (if pb_audience inp \<noteq> 0 \<and> pb_audience inp \<noteq> 1 then give_up Other_error
      else case paymentPlan ctx of
        Inl e \<Rightarrow> give_up e
      | Inr _ \<Rightarrow>
     and_then (outside (rd_sequence (pd_reads pd) (rp_address (pd_me pd)))) (\<lambda>next1.
     let given = (case next1 of Some t \<Rightarrow> t | None \<Rightarrow> utf16 ''1'');
         sequence = (if given = [] \<or> \<not> list_all is_digit given \<or> given = utf16 ''0'' then utf16 ''1'' else given)
     in and_then (if pb_audience inp = 1 then and_then (friendsEpochKey pd) (\<lambda>p. give (Some p)) else give None) (\<lambda>plan.
        let epoch = (case plan of Some p \<Rightarrow> ep_epoch p | None \<Rightarrow> 0)
        in and_then (outside (pd_encrypt pd (pb_text inp) (pb_external_ref inp) (pb_audience inp)
             (map_option (\<lambda>p. (ep_epoch p, ep_key p)) plan))) (\<lambda>envelope.
           let hash = contentHash (pd_codec pd) envelope
           in case js_let (postId (pd_codec pd) \<lparr>pi_chain = Chain_text (pd_chain_id pd), pi_version = None,
                    pi_author = Address_text (rp_address (pd_me pd)), pi_sequence = Js_text sequence, pi_content_hash = hash\<rparr>)
                (\<lambda>post. js_let (fromHex (pb_attempt inp)) (\<lambda>aid.
                 js_let (sdk_idempotencyKey (pd_codec pd) (Address_text (rp_address (pd_me pd))) aid) (\<lambda>key. Inr (post, key)))) of
                Inl e \<Rightarrow> give_up Other_error
              | Inr (post, key) \<Rightarrow>
                  and_then (outside (pd_publish pd \<lparr>pu_post = post, pu_sequence = sequence, pu_audience = pb_audience inp, pu_epoch = epoch,
                      pu_envelope = envelope, pu_hash = hash, pu_key = key\<rparr>)) (\<lambda>op.
                  give ((case plan of Some p \<Rightarrow> ep_operations p | None \<Rightarrow> []) @ [op],
                    \<lparr>at_post = pd_to_hex pd post, at_content_hash = pd_to_hex pd hash, at_sequence = sequence, at_epoch = epoch, at_tx = None\<rparr>,
                    plan))))))"

definition publishPost :: "'w publish_deps \<Rightarrow> 'w payment_context \<Rightarrow> publish_input \<Rightarrow> 'w client_world \<Rightarrow> (publish_error + publish_outcome) \<times> 'w client_world" where
  "publishPost pd ctx inp s =
     (let plain = (\<lambda>e. \<lparr>pe_class = error_class_of e, pe_message = pd_message pd e, pe_attempt = None\<rparr>)
      in case build_post pd ctx inp s of
        (Inl e, s1) \<Rightarrow> (Inl (plain e), s1)
      | (Inr (operations, att, plan), s1) \<Rightarrow>
          (case submitOperations operations ctx s1 of
             (Inl e, s2) \<Rightarrow> (Inl \<lparr>pe_class = error_class_of e, pe_message = pd_message pd e,
                pe_attempt = Some (att\<lparr>at_tx := failed_transaction e\<rparr>)\<rparr>, s2)
           | (Inr r, s2) \<Rightarrow>
               let outcome = \<lparr>out_attempt = att, out_tx = (case str_of (attr (Some (su_transaction r)) ''id'') of Some t \<Rightarrow> t | None \<Rightarrow> [])\<rparr>
               in case plan of
                    Some p \<Rightarrow> if ep_created p then (case outside (pd_remember pd (ep_epoch p) (ep_key p)) s2 of
                          (Inl e, s3) \<Rightarrow> (Inl (plain e), s3)
                        | (Inr _, s3) \<Rightarrow> (Inr outcome, s3))
                      else (Inr outcome, s2)
                  | None \<Rightarrow> (Inr outcome, s2)))"

section \<open>The authority of the device\<close>

record device_status =
  ds_registered :: bool
  ds_authorized :: bool
  ds_checks :: "(bool \<times> bool \<times> bool) option" \<comment> \<open>revoked, expired, of an older epoch\<close>

definition lookupDeviceStatus :: "'w chain_reads \<Rightarrow> ustring \<Rightarrow> ustring option \<Rightarrow> int \<Rightarrow> ('w, device_status) calling" where
  "lookupDeviceStatus reads account device t =
     and_then (outside (rd_identity reads account)) (\<lambda>identity.
     case identity of
       None \<Rightarrow> give \<lparr>ds_registered = False, ds_authorized = False, ds_checks = None\<rparr>
     | Some i \<Rightarrow>
         (case non_empty device of
            None \<Rightarrow> give \<lparr>ds_registered = True, ds_authorized = False, ds_checks = None\<rparr>
          | Some d \<Rightarrow>
              and_then (outside (rd_device reads account d)) (\<lambda>found.
              case found of
                None \<Rightarrow> give \<lparr>ds_registered = True, ds_authorized = False, ds_checks = None\<rparr>
              | Some v \<Rightarrow>
                  (case big_int (J_str (dv_expires_at v)) of
                     None \<Rightarrow> give_up Other_error
                   | Some expires \<Rightarrow>
                       let expired = expires \<le> t; epochMismatch = dv_device_epoch v \<noteq> iv_device_epoch i; canPublish = dv_capabilities v AND 1 \<noteq> 0
                       in give \<lparr>ds_registered = True,
                            ds_authorized = (\<not> expired \<and> \<not> epochMismatch \<and> \<not> dv_is_revoked v \<and> canPublish),
                            ds_checks = Some (dv_is_revoked v, expired, epochMismatch)\<rparr>))))"

section \<open>Reading the contracts\<close>

text \<open>The reads answer what the contracts store, with addresses in the encoding \<open>enc\<close> of the client.\<close>

definition relationship_seen :: "(bytes \<Rightarrow> ustring) \<Rightarrow> relationship_record \<Rightarrow> relationship_view" where
  "relationship_seen enc r = \<lparr>rv_a = enc (rr_a r), rv_b = enc (rr_b r), rv_state = rr_status r\<rparr>"

definition identity_seen :: "identity_record \<Rightarrow> identity_view" where
  "identity_seen r = \<lparr>iv_encryption_key = Some (id_encryption_key r), iv_key_version = uint (id_key_version r), iv_device_epoch = uint (id_device_epoch r)\<rparr>"

definition device_seen :: "device_record \<Rightarrow> device_view" where
  "device_seen d = \<lparr>dv_capabilities = dev_capabilities d, dv_expires_at = int_text (uint (dev_expires_at d)),
     dv_device_epoch = uint (dev_device_epoch d), dv_is_revoked = dev_revoked d\<rparr>"

definition reads_contracts :: "'w chain_reads \<Rightarrow> (bytes \<Rightarrow> ustring) \<Rightarrow> relationships_state \<Rightarrow> identity_state \<Rightarrow> bool" where
  "reads_contracts reads enc rel ids \<longleftrightarrow>
     (\<forall>a b w. rd_relationship reads (enc a) (enc b) w = (Inr (map_option (relationship_seen enc) (get_relationship (Some a) (Some b) rel)), w)) \<and>
     (\<forall>a w. rd_identity reads (enc a) w = (Inr (map_option identity_seen (get_identity (Some a) ids)), w)) \<and>
     (\<forall>a d w. rd_device reads (enc a) (enc d) w = (Inr (map_option device_seen (get_device (Some a) (Some d) ids)), w))"

text \<open>The addresses a client accepts are those that encode some bytes.\<close>

definition encodes_addresses :: "codec \<Rightarrow> (bytes \<Rightarrow> ustring) \<Rightarrow> bool" where
  "encodes_addresses cd enc \<longleftrightarrow> (\<forall>t. isAddress cd t \<longrightarrow> (\<exists>f. f \<noteq> [] \<and> enc f = t))"

section \<open>A friends key goes to friends only\<close>

definition entitled :: "(bytes \<Rightarrow> ustring) \<Rightarrow> bytes \<Rightarrow> relationships_state \<Rightarrow> identity_state \<Rightarrow> recipient \<Rightarrow> bool" where
  "entitled enc a rel ids r \<longleftrightarrow> (\<exists>f rec. rp_address r = enc f \<and> friends a f rel \<and> identities ids f = Some rec \<and>
     rp_key r = id_encryption_key rec \<and> length (rp_key r) = 32)"

lemma read_then: "(\<And>w. m w = (Inr x, w)) \<Longrightarrow> and_then (outside m) k s = k x s"
  by (simp add: and_then_def outside_def)

lemma seen_key: "iv_encryption_key (identity_seen r) = Some (id_encryption_key r)"
  by (simp add: identity_seen_def)

lemma confirmed_recipients:
  assumes reads: "reads_contracts reads enc rel ids" and enc: "encodes_addresses cd enc" and a: "a \<noteq> []"
  shows "confirm_friends reads cd (enc a) seen cs s = (Inr rs, s') \<Longrightarrow>
    list_all (entitled enc a rel ids) rs \<and> distinct (map rp_address rs) \<and> set (map rp_address rs) \<inter> set seen = {}"
proof (induction cs arbitrary: seen s rs s')
  case (Cons c cs)
  show ?case
  proof (cases "\<exists>friend. c = Some friend \<and> friend \<notin> set seen \<and> isAddress cd friend")
    case False
    with Cons.prems have "confirm_friends reads cd (enc a) seen cs s = (Inr rs, s')" by (cases c) auto
    then show ?thesis by (rule Cons.IH)
  next
    case True
    then obtain f where c: "c = Some (enc f)" "enc f \<notin> set seen" "isAddress cd (enc f)" "f \<noteq> []"
      using enc unfolding encodes_addresses_def by blast
    have more: ?thesis if "confirm_friends reads cd (enc a) (enc f # seen) cs s = (Inr rs, s')"
      using Cons.IH [OF that] by auto
    have rel: "get_relationship (Some a) (Some f) rel = edges rel (pair_key a f)" and ids: "get_identity (Some f) ids = identities ids f"
      using a c(4) by (simp_all add: get_relationship_def get_identity_def is_empty_def)
    have r1: "rd_relationship reads (enc a) (enc f) w = (Inr (map_option (relationship_seen enc) (edges rel (pair_key a f))), w)" for w
      using reads rel by (simp add: reads_contracts_def)
    have r2: "rd_identity reads (enc f) w = (Inr (map_option identity_seen (identities ids f)), w)" for w
      using reads ids by (simp add: reads_contracts_def)
    have known: "Option.bind (map_option identity_seen (identities ids f)) (\<lambda>i. map_option (Pair i) (iv_encryption_key i)) =
        map_option (\<lambda>r. (identity_seen r, id_encryption_key r)) (identities ids f)"
      by (cases "identities ids f") (simp_all add: identity_seen_def)
    show ?thesis
    proof (cases "friends a f rel \<and> (\<exists>rec. identities ids f = Some rec \<and> length (id_encryption_key rec) = 32)")
      case False
      with Cons.prems c have "confirm_friends reads cd (enc a) (enc f # seen) cs s = (Inr rs, s')"
        by (auto simp: read_then [OF r1] read_then [OF r2] relationship_seen_def known friends_def pair_status_def
            split: option.splits if_splits)
      then show ?thesis by (rule more)
    next
      case True
      then obtain rec where friend: "friends a f rel" "identities ids f = Some rec" "length (id_encryption_key rec) = 32" by blast
      show ?thesis
      proof (cases "confirm_friends reads cd (enc a) (enc f # seen) cs s = (Inr rs, s')")
        case True
        then show ?thesis by (rule more)
      next
        case False
        with Cons.prems c friend obtain r rest where rs: "rs = r # rest" "rp_address r = enc f" "rp_key r = id_encryption_key rec"
          and rest: "confirm_friends reads cd (enc a) (enc f # seen) cs s = (Inr rest, s')"
          by (auto simp: read_then [OF r1] read_then [OF r2] relationship_seen_def known seen_key
              split: option.splits if_splits)
        have "entitled enc a rel ids r" using rs friend by (auto simp: entitled_def)
        with Cons.IH [OF rest] rs c(2) show ?thesis by auto
      qed
    qed
  qed
qed simp

text \<open>
  C18: A friends-only key is sealed to nobody whom the chain does not confirm, whatever the indexer suggests:
  beside the author, every recipient is at that time a friend of the author by the relationships contract, listed
  once, and its key is the encryption key that the identity contract stores for it.
\<close>

theorem recipients_confirmed:
  assumes "verifiedFriendRecipients reads cd graph me s = (Inr rs, s')" and "rp_address me = enc a" and "a \<noteq> []"
    and "reads_contracts reads enc rel ids" and "encodes_addresses cd enc"
  shows "\<exists>rest. rs = me # rest \<and> distinct (map rp_address rs) \<and> list_all (entitled enc a rel ids) rest"
proof -
  from assms(1,2) obtain candidates rest s1 where "confirm_friends reads cd (enc a) [enc a] candidates s1 = (Inr rest, s')" and rs: "rs = me # rest"
    by (auto simp: verifiedFriendRecipients_def)
  from confirmed_recipients [OF assms(4,5,3) this(1)] show ?thesis using assms(2) by (auto simp: rs)
qed

section \<open>The device status is the verdict of the contract\<close>

lemma read_number: "big_int (J_str (int_text n)) = Some n"
proof -
  have "int_text n \<noteq> []" using nat_text_digits by (simp add: int_text_def)
  then show ?thesis by (simp add: big_int_def)
qed

text \<open>
  C20: What the extension shows of its device is what the identity contract decides: with clocks that agree, the
  device is shown as authorized exactly when the contract would accept it for a publication of the account.
\<close>

theorem device_status_agrees:
  assumes "reads_contracts reads enc rel ids" and "a \<noteq> []" and "d \<noteq> []" and "d \<noteq> a" and "enc d \<noteq> []" and "t = uint (now env)"
    and "lookupDeviceStatus reads (enc a) (Some (enc d)) t s = (Inr status, s')"
  shows "ds_authorized status \<longleftrightarrow> ok (resolve env (Some a) (Some d) CAP_PUBLISH ids)"
proof -
  have i: "rd_identity reads (enc a) w = (Inr (map_option identity_seen (identities ids a)), w)" for w
    using assms(1,2) by (simp add: reads_contracts_def get_identity_def is_empty_def)
  have r: "rd_device reads (enc a) (enc d) w = (Inr (map_option device_seen (devices ids (device_key a d))), w)" for w
    using assms(1-3) by (simp add: reads_contracts_def get_device_def is_empty_def)
  show ?thesis
    using assms(2-7)
    by (auto simp: lookupDeviceStatus_def read_then [OF i] read_then [OF r] non_empty_def identity_seen_def device_seen_def read_number
        resolve_def unresolved_def is_empty_def CAP_PUBLISH_def Let_def word_le_def word_uint_eq_iff split: option.splits if_splits)
qed

section \<open>The properties at concrete inputs\<close>

definition wide :: "bytes \<Rightarrow> ustring" where
  "wide b = map ucast b"

definition narrow :: "ustring \<Rightarrow> bytes" where
  "narrow t = map ucast t"

definition contract_reads :: "relationships_state \<Rightarrow> identity_state \<Rightarrow> unit chain_reads" where
  "contract_reads rel ids = \<lparr>
     rd_relationship = (\<lambda>a b w. (Inr (map_option (relationship_seen wide) (get_relationship (Some (narrow a)) (Some (narrow b)) rel)), w)),
     rd_identity = (\<lambda>a w. (Inr (map_option identity_seen (get_identity (Some (narrow a)) ids)), w)),
     rd_device = (\<lambda>a d w. (Inr (map_option device_seen (get_device (Some (narrow a)) (Some (narrow d)) ids)), w)),
     rd_sequence = (\<lambda>_ w. (Inr None, w)), rd_epoch = (\<lambda>_ w. (Inr None, w))\<rparr>"

lemma narrow_wide: "narrow (wide b) = b"
proof -
  have "ucast (ucast x :: u16) = (x :: 8 word)" for x by (rule bit_word_eqI) (auto simp: bit_unsigned_iff)
  then show ?thesis by (induction b) (simp_all add: narrow_def wide_def)
qed

lemma contract_reads_ok: "reads_contracts (contract_reads rel ids) wide rel ids"
  by (simp add: reads_contracts_def contract_reads_def narrow_wide)

definition byte_codec :: codec where
  "byte_codec = \<lparr>decode_base58 = (\<lambda>t. if wide (narrow t) = t then Inr (narrow t) else Inl (Thrown [])), encode_base58 = wide,
     decode_base64url = (\<lambda>t. Inr (narrow t)), noble_sha256 = id\<rparr>"

lemma byte_codec_ok: "encodes_addresses byte_codec wide"
  unfolding encodes_addresses_def
proof (intro allI impI)
  fix t assume "isAddress byte_codec t"
  then have "wide (narrow t) = t" "t \<noteq> []" by (auto simp: isAddress_def byte_codec_def split: if_splits)
  then show "\<exists>f. f \<noteq> [] \<and> wide f = t" by (intro exI [of _ "narrow t"]) (simp add: narrow_def)
qed

definition demo_friendship :: relationships_state where
  "demo_friendship = relationships_empty\<lparr>edges := [pair_key (sample_addr 1) (sample_addr 2) \<mapsto>
     \<lparr>rr_a = sample_addr 1, rr_b = sample_addr 2, rr_status = Rel_active, rr_requester = sample_addr 1, rr_nonce = 1, rr_updated_at = 5\<rparr>]\<rparr>"

definition demo_people :: identity_state where
  "demo_people = \<lparr>identities = [sample_addr 1 \<mapsto> demo_identity (sample_addr 1) 0 1000, sample_addr 2 \<mapsto> demo_identity (sample_addr 2) 0 1000,
       sample_addr 3 \<mapsto> demo_identity (sample_addr 3) 0 1000],
     devices = [device_key (sample_addr 1) (sample_addr 7) \<mapsto> \<lparr>dev_account = sample_addr 1, dev_device = sample_addr 7, dev_capabilities = 3,
       dev_expires_at = 900, dev_device_epoch = 0, dev_revoked = False, dev_label = None, dev_authorized_at = 5\<rparr>],
     recovery = Map.empty\<rparr>"

definition demo_me :: recipient where
  "demo_me = \<lparr>rp_address = wide (sample_addr 1), rp_key = [1], rp_version = 1\<rparr>"

lemma demo_recipients:
  "case verifiedFriendRecipients (contract_reads demo_friendship demo_people) byte_codec
       (\<lambda>w. (Inr [Some (wide (sample_addr 2)), None, Some (wide (sample_addr 3)), Some (wide (sample_addr 2))], w)) demo_me
       \<lparr>cw_cache = Map.empty, cw_world = ()\<rparr> of
     (Inr rs, s') \<Rightarrow> map rp_address rs = [wide (sample_addr 1), wide (sample_addr 2)]
   | _ \<Rightarrow> False"
  by code_simp

theorem recipients_confirmed_witness:
  "\<exists>r s'. verifiedFriendRecipients (contract_reads demo_friendship demo_people) byte_codec
       (\<lambda>w. (Inr [Some (wide (sample_addr 2)), None, Some (wide (sample_addr 3)), Some (wide (sample_addr 2))], w)) demo_me
       \<lparr>cw_cache = Map.empty, cw_world = ()\<rparr> = (Inr [demo_me, r], s') \<and>
     entitled wide (sample_addr 1) demo_friendship demo_people r"
proof -
  let ?run = "verifiedFriendRecipients (contract_reads demo_friendship demo_people) byte_codec
       (\<lambda>w. (Inr [Some (wide (sample_addr 2)), None, Some (wide (sample_addr 3)), Some (wide (sample_addr 2))], w)) demo_me
       \<lparr>cw_cache = Map.empty, cw_world = ()\<rparr>"
  obtain rs s' where run: "?run = (Inr rs, s')" and names: "map rp_address rs = [wide (sample_addr 1), wide (sample_addr 2)]"
    using demo_recipients by (auto split: prod.splits sum.splits)
  have "rp_address demo_me = wide (sample_addr 1)" by (simp add: demo_me_def)
  from recipients_confirmed [OF run this sample_addr_nonempty contract_reads_ok byte_codec_ok] obtain rest where rs: "rs = demo_me # rest"
    and ok: "list_all (entitled wide (sample_addr 1) demo_friendship demo_people) rest" by blast
  from names rs obtain r where "rest = [r]" by (cases rest) auto
  with run rs ok show ?thesis by auto
qed

theorem device_status_agrees_witness:
  "\<exists>status s'. lookupDeviceStatus (contract_reads demo_friendship demo_people) (wide (sample_addr 1)) (Some (wide (sample_addr 7))) 500
       \<lparr>cw_cache = Map.empty, cw_world = ()\<rparr> = (Inr status, s') \<and>
     ds_authorized status \<and> ok (resolve (sample_env 500 :: unit env) (Some (sample_addr 1)) (Some (sample_addr 7)) CAP_PUBLISH demo_people)"
proof -
  let ?run = "lookupDeviceStatus (contract_reads demo_friendship demo_people) (wide (sample_addr 1)) (Some (wide (sample_addr 7))) 500
       \<lparr>cw_cache = Map.empty, cw_world = ()\<rparr>"
  have "case ?run of (Inr status, s') \<Rightarrow> ds_authorized status | _ \<Rightarrow> False" by code_simp
  then obtain status s' where run: "?run = (Inr status, s')" "ds_authorized status" by (auto split: prod.splits sum.splits)
  have facts: "sample_addr 7 \<noteq> sample_addr 1" "wide (sample_addr 7) \<noteq> []" "500 = uint (now (sample_env 500 :: unit env))"
    by (simp_all add: wide_def)
  from device_status_agrees [OF contract_reads_ok sample_addr_nonempty sample_addr_nonempty facts run(1)] run show ?thesis by blast
qed

end
