(* ===== verification/Manifest.thy ===== *)
theory Manifest
  imports Protocol_Client Reconcile
begin

text \<open>
  Proof manifests (\<open>packages/sdk/src/manifest.ts\<close>): what a client signs to say that a post was also published
  elsewhere. The canonical protobuf bytes of a manifest and the recovery of signatures are parameters.
\<close>

record proof_manifest =
  mf_version :: int
  mf_author :: bytes
  mf_post :: bytes
  mf_content_hash :: bytes
  mf_version_number :: int
  mf_transaction :: bytes
  mf_height :: ustring
  mf_audience :: int
  mf_audience_id :: bytes
  mf_epoch :: int
  mf_storage_refs :: "ustring list"
  mf_adapter :: ustring
  mf_external_ref :: ustring
  mf_outcome :: int
  mf_key :: bytes
  mf_created_at :: ustring
  mf_signature :: bytes
  mf_signer :: bytes

text \<open>What a manifest is built from; the members that are options may be left out.\<close>

datatype tx_id_like = Tx_text ustring | Tx_bytes bytes

record manifest_input =
  mi_author :: address_like
  mi_post :: bytes
  mi_content_hash :: bytes
  mi_version_number :: int
  mi_transaction :: tx_id_like
  mi_height :: json
  mi_audience :: int
  mi_audience_id :: "bytes option"
  mi_epoch :: "int option"
  mi_storage_refs :: "ustring list option"
  mi_adapter :: ustring
  mi_external_ref :: "ustring option"
  mi_outcome :: int
  mi_key :: bytes
  mi_created_at :: "json option"

record manifest_codec =
  mc_codec :: codec
  mc_encode :: "proof_manifest \<Rightarrow> bytes"
  mc_recover :: "bytes \<Rightarrow> bytes \<Rightarrow> ustring js"

definition MANIFEST_VERSION :: int where "MANIFEST_VERSION = 1"
definition OUTCOME_SUCCEEDED :: int where "OUTCOME_SUCCEEDED = 0"
definition OUTCOME_PARTIAL :: int where "OUTCOME_PARTIAL = 1"
definition TX_ID_BYTES :: nat where "TX_ID_BYTES = 34"

definition manifest_error :: "string \<Rightarrow> 'a js" where
  "manifest_error m = Inl (Thrown (utf16 m))"

fun transactionIdBytes :: "tx_id_like \<Rightarrow> bytes js" where
  "transactionIdBytes (Tx_bytes b) = Inr b"
| "transactionIdBytes (Tx_text t) =
     (let hex = (if take 2 t = utf16 ''0x'' then drop 2 t else t)
      in if hex = [] then Inr []
         else if odd (length hex) \<or> \<not> list_all (\<lambda>c. hex_digit c \<noteq> None) hex then manifest_error ''transaction id must be hex''
         else Inr (hexToBytes hex))"

text \<open>\<open>BigInt(v)\<close> throws for what is not an integer or its text.\<close>

definition big_text :: "json \<Rightarrow> ustring js" where
  "big_text v = (case big_int v of None \<Rightarrow> manifest_error ''SyntaxError'' | Some n \<Rightarrow> Inr (int_text n))"

definition or_default :: "'a option \<Rightarrow> 'a \<Rightarrow> 'a" where
  "or_default v d = (case v of None \<Rightarrow> d | Some x \<Rightarrow> x)"

definition decimal_string :: "ustring \<Rightarrow> bool" where
  "decimal_string t \<longleftrightarrow> t \<noteq> [] \<and> list_all is_digit t"

definition validateProofManifest :: "proof_manifest \<Rightarrow> bool" where
  "validateProofManifest m \<longleftrightarrow>
     length (mf_author m) = LIMIT_addressBytes \<and> length (mf_post m) = LIMIT_hashBytes \<and> length (mf_content_hash m) = LIMIT_hashBytes \<and>
     length (mf_key m) = LIMIT_idempotencyKeyBytes \<and> (mf_audience_id m = [] \<or> length (mf_audience_id m) = LIMIT_audienceIdBytes) \<and>
     1 \<le> mf_version_number m \<and> 0 \<le> mf_epoch m \<and> 0 \<le> mf_audience m \<and>
     (if mf_transaction m = [] then mf_outcome m \<noteq> OUTCOME_SUCCEEDED
      else length (mf_transaction m) = TX_ID_BYTES \<and> take 2 (mf_transaction m) = [0x12, 0x20]) \<and>
     decimal_string (mf_height m) \<and> decimal_string (mf_created_at m)"

text \<open>The time \<open>t\<close> is \<open>Date.now()\<close>.\<close>

definition buildProofManifest :: "manifest_codec \<Rightarrow> int \<Rightarrow> manifest_input \<Rightarrow> proof_manifest js" where
  "buildProofManifest mc t inp =
     js_let (addressToBytes (mc_codec mc) (mi_author inp)) (\<lambda>author.
     js_let (transactionIdBytes (mi_transaction inp)) (\<lambda>transaction.
     js_let (big_text (mi_height inp)) (\<lambda>height.
     js_let (big_text (or_default (mi_created_at inp) (J_int t))) (\<lambda>created.
       let m = \<lparr>mf_version = MANIFEST_VERSION, mf_author = author, mf_post = mi_post inp, mf_content_hash = mi_content_hash inp,
            mf_version_number = mi_version_number inp, mf_transaction = transaction, mf_height = height, mf_audience = mi_audience inp,
            mf_audience_id = or_default (mi_audience_id inp) [], mf_epoch = or_default (mi_epoch inp) 0,
            mf_storage_refs = or_default (mi_storage_refs inp) [], mf_adapter = mi_adapter inp,
            mf_external_ref = or_default (mi_external_ref inp) [], mf_outcome = mi_outcome inp, mf_key = mi_key inp,
            mf_created_at = created, mf_signature = [], mf_signer = []\<rparr>
       in if validateProofManifest m then Inr m else manifest_error ''malformed manifest''))))"

definition manifestSigningHash :: "manifest_codec \<Rightarrow> proof_manifest \<Rightarrow> bytes" where
  "manifestSigningHash mc m =
     noble_sha256 (mc_codec mc) (concat_bytes [utf8 (utf16 ''osp/v1/manifest''), mc_encode mc (m\<lparr>mf_signature := [], mf_signer := []\<rparr>)])"

text \<open>The key that signs: its address, and \<open>signHash\<close>.\<close>

record 'w hash_signer =
  hs_address :: ustring
  hs_sign :: "bytes \<Rightarrow> ('w, bytes) io"

definition signProofManifest :: "manifest_codec \<Rightarrow> proof_manifest \<Rightarrow> 'w hash_signer \<Rightarrow> ('w, proof_manifest) io" where
  "signProofManifest mc m key w =
     (if \<not> validateProofManifest m then (manifest_error ''malformed manifest'', w)
      else io_let (hs_sign key (manifestSigningHash mc m)) (\<lambda>signature w'.
        (js_let (decode_base58 (mc_codec mc) (hs_address key)) (\<lambda>address. Inr (m\<lparr>mf_signature := signature, mf_signer := address\<rparr>)), w')) w)"

fun expects :: "codec \<Rightarrow> ustring \<Rightarrow> address_like list \<Rightarrow> bool js" where
  "expects cd recovered [] = Inr False"
| "expects cd recovered (a # signers) =
     js_let (addressToString cd a) (\<lambda>t. if t = recovered then Inr True else expects cd recovered signers)"

text \<open>\<open>verifyProofManifest\<close> without expected signers, and with them; the reasons are left out.\<close>

definition verifyProofManifest :: "manifest_codec \<Rightarrow> proof_manifest \<Rightarrow> address_like list option \<Rightarrow> bool js" where
  "verifyProofManifest mc m expected =
     (if \<not> validateProofManifest m \<or> mf_signature m = [] \<or> mf_signer m = [] then Inr False
      else case mc_recover mc (manifestSigningHash mc m) (mf_signature m) of
        Inl e \<Rightarrow> Inr False
      | Inr recovered \<Rightarrow>
          js_let (decode_base58 (mc_codec mc) recovered) (\<lambda>address.
          if address \<noteq> mf_signer m then Inr False
          else case expected of
            None \<Rightarrow> Inr True
          | Some signers \<Rightarrow> expects (mc_codec mc) recovered signers))"

definition manifestHash :: "manifest_codec \<Rightarrow> proof_manifest \<Rightarrow> bytes" where
  "manifestHash mc m = noble_sha256 (mc_codec mc) (mc_encode mc m)"

section \<open>Signed manifests verify\<close>

definition key_recovers :: "manifest_codec \<Rightarrow> 'w hash_signer \<Rightarrow> bool" where
  "key_recovers mc key \<longleftrightarrow> isAddress (mc_codec mc) (hs_address key) \<and>
     (\<forall>h w sig w'. hs_sign key h w = (Inr sig, w') \<longrightarrow> sig \<noteq> [] \<and> mc_recover mc h sig = Inr (hs_address key))"

text \<open>
  A manifest that a key signed verifies for everybody who expects that key, and for nobody who expects only others.
\<close>

theorem signed_manifest_verifies:
  assumes "signProofManifest mc m key w = (Inr signed1, w')" and "key_recovers mc key"
  shows "verifyProofManifest mc signed1 None = Inr True \<and>
    verifyProofManifest mc signed1 (Some signers) = expects (mc_codec mc) (hs_address key) signers"
proof -
  have valid: "validateProofManifest m" using assms(1) by (auto simp: signProofManifest_def manifest_error_def split: if_splits)
  from assms(1) valid obtain sig address where sign: "hs_sign key (manifestSigningHash mc m) w = (Inr sig, w')"
    and address: "decode_base58 (mc_codec mc) (hs_address key) = Inr address" and s: "signed1 = m\<lparr>mf_signature := sig, mf_signer := address\<rparr>"
    by (auto simp: signProofManifest_def io_let_def js_let_def split: prod.splits sum.splits)
  have key: "sig \<noteq> []" "mc_recover mc (manifestSigningHash mc m) sig = Inr (hs_address key)" "address \<noteq> []"
    using assms(2) sign address by (auto simp: key_recovers_def isAddress_def LIMIT_addressBytes_def split: if_splits)
  have "validateProofManifest signed1" "manifestSigningHash mc signed1 = manifestSigningHash mc m"
    using valid by (simp_all add: s validateProofManifest_def manifestSigningHash_def)
  with key address show ?thesis by (simp add: verifyProofManifest_def s js_let_def)
qed

end
