(* ===== verification/Ext_Proofs.thy ===== *)
theory Ext_Proofs
  imports Ext_Publish Manifest
begin

text \<open>
  The other two things the extension writes to the chain (\<open>apps/extension/src/background/publish.ts\<close>): the proof of a
  cross-post, once both sides are known, and the authorization of its device key by the owner.
\<close>

section \<open>Proofs\<close>

record record_call =
  re_key :: bytes
  re_adapter :: ustring
  re_state :: int
  re_external_ref :: ustring
  re_post :: bytes
  re_manifest_hash :: bytes

record 'w proof_deps =
  px_manifest :: manifest_codec
  px_indexer :: bool \<comment> \<open>whether an indexer is configured\<close>
  px_post :: "bytes \<Rightarrow> ('w, (ustring option \<times> ustring option) option) io" \<comment> \<open>transaction id and block height of the post\<close>
  px_block_of :: "ustring \<Rightarrow> ('w, ustring option) io" \<comment> \<open>the node's block of a transaction, and its height\<close>
  px_height_of :: "ustring \<Rightarrow> ('w, ustring option) io"
  px_now :: "'w \<Rightarrow> int"
  px_author :: ustring
  px_signer :: "'w hash_signer"
  px_record :: "record_call \<Rightarrow> ('w, json) io"
  px_to_hex :: "bytes \<Rightarrow> ustring"

definition adapter_name :: "adapter \<Rightarrow> ustring" where
  "adapter_name a = utf16 (case a of Facebook \<Rightarrow> ''facebook'' | Generic \<Rightarrow> ''generic'' | Sidepanel \<Rightarrow> ''sidepanel'')"

text \<open>\<open>try { m } catch { d }\<close>\<close>

definition or_else_give :: "('w, 'a) calling \<Rightarrow> 'a \<Rightarrow> ('w, 'a) calling" where
  "or_else_give m d s = (case m s of (Inl e, s') \<Rightarrow> (Inr d, s') | (Inr x, s') \<Rightarrow> (Inr x, s'))"

definition thrown :: "'a js \<Rightarrow> ('w, 'a) calling" where
  "thrown v = (case v of Inl e \<Rightarrow> give_up Other_error | Inr x \<Rightarrow> give x)"

definition indexedPost :: "'w proof_deps \<Rightarrow> stored_cross_post \<Rightarrow> ('w, (ustring option \<times> ustring option) option) calling" where
  "indexedPost px record =
     (case non_empty (cp_post (sp_base record)) of
        None \<Rightarrow> give None
      | Some post \<Rightarrow>
          if \<not> px_indexer px then give None
          else or_else_give (and_then (thrown (fromHex post)) (\<lambda>b. outside (px_post px b))) None)"

definition known_height :: "ustring option \<Rightarrow> ustring option" where
  "known_height h = (case h of Some t \<Rightarrow> if decimal_string t then Some t else None | None \<Rightarrow> None)"

definition blockHeightOf :: "'w proof_deps \<Rightarrow> stored_cross_post \<Rightarrow> ustring \<Rightarrow> ('w, ustring) calling" where
  "blockHeightOf px record tx =
     and_then (indexedPost px record) (\<lambda>view.
     case Option.bind view (\<lambda>v. known_height (snd v)) of
       Some height \<Rightarrow> give height
     | None \<Rightarrow> or_else_give
         (and_then (outside (px_block_of px tx)) (\<lambda>block.
          case non_empty block of
            None \<Rightarrow> give (utf16 ''0'')
          | Some b \<Rightarrow> and_then (outside (px_height_of px b)) (\<lambda>height.
              give (case known_height height of Some t \<Rightarrow> t | None \<Rightarrow> utf16 ''0'')))) (utf16 ''0''))"

definition recordCrossPostProof :: "'w proof_deps \<Rightarrow> 'w payment_context \<Rightarrow> stored_cross_post \<Rightarrow> ('w, proof_result) calling" where
  "recordCrossPostProof px ctx record =
     (case (non_empty (cp_post (sp_base record)), non_empty (sp_content_hash record)) of
        (Some post, Some hash) \<Rightarrow>
          if sp_koinos record \<noteq> Side_ok \<or> (sp_host record \<noteq> Side_ok \<and> sp_host record \<noteq> Side_failed) then give_up Other_error
          else and_then (case cp_tx (sp_base record) of
              Some t \<Rightarrow> give (Some t)
            | None \<Rightarrow> and_then (indexedPost px record) (\<lambda>view. give (Option.bind view fst))) (\<lambda>found.
          case non_empty found of
            None \<Rightarrow> give_up Other_error
          | Some tx \<Rightarrow>
              let outcome = (if sp_host record = Side_failed then OUTCOME_PARTIAL else OUTCOME_SUCCEEDED);
                  externalRef = (if sp_host record = Side_ok then (case cp_host_ref (sp_base record) of Some h \<Rightarrow> h | None \<Rightarrow> []) else [])
              in and_then (thrown (fromHex post)) (\<lambda>post_bytes.
                 and_then (thrown (fromHex hash)) (\<lambda>hash_bytes.
                 and_then (blockHeightOf px record tx) (\<lambda>height.
                 and_then (thrown (fromHex (cp_key (sp_base record)))) (\<lambda>key.
                 and_then (\<lambda>s. thrown (buildProofManifest (px_manifest px) (px_now px (cw_world s))
                   \<lparr>mi_author = Address_text (px_author px), mi_post = post_bytes, mi_content_hash = hash_bytes,
                    mi_version_number = (case sp_version record of Some v \<Rightarrow> v | None \<Rightarrow> 1), mi_transaction = Tx_text tx, mi_height = J_str height,
                    mi_audience = cp_audience (sp_base record), mi_audience_id = None,
                    mi_epoch = Some (case sp_epoch record of Some e \<Rightarrow> e | None \<Rightarrow> 0), mi_storage_refs = None,
                    mi_adapter = adapter_name (sp_adapter record), mi_external_ref = Some externalRef, mi_outcome = outcome, mi_key = key,
                    mi_created_at = Some (J_int (px_now px (cw_world s)))\<rparr>) s) (\<lambda>manifest.
                 and_then (outside (signProofManifest (px_manifest px) manifest (px_signer px))) (\<lambda>signed_manifest.
                 let mh = manifestHash (px_manifest px) signed_manifest
                 in and_then (outside (px_record px \<lparr>re_key = key, re_adapter = adapter_name (sp_adapter record), re_state = outcome,
                      re_external_ref = externalRef, re_post = post_bytes, re_manifest_hash = mh\<rparr>)) (\<lambda>op.
                    and_then (submitOperations [op] ctx) (\<lambda>r.
                    give \<lparr>pr_manifest = px_to_hex px mh, pr_tx = (case str_of (attr (Some (su_transaction r)) ''id'') of Some t \<Rightarrow> t | None \<Rightarrow> []),
                      pr_outcome = outcome, pr_koinos_tx = tx\<rparr>)))))))))
      | _ \<Rightarrow> give_up Other_error)"

text \<open>
  A proof is recorded only of an attempt whose two sides are known, and it says what they are; the reference to the host
  post is the one that was reported.
\<close>

lemma thrown_Inr [simp]: "thrown v s = (Inr x, s') \<longleftrightarrow> v = Inr x \<and> s' = s"
  by (cases v) (auto simp: thrown_def)

theorem proof_tells_both_sides:
  assumes "recordCrossPostProof px ctx record s = (Inr r, s')"
  shows "sp_koinos record = Side_ok \<and> sp_host record \<in> {Side_ok, Side_failed} \<and>
    pr_outcome r = (if sp_host record = Side_ok then OUTCOME_SUCCEEDED else OUTCOME_PARTIAL) \<and>
    (\<forall>tx. cp_tx (sp_base record) = Some tx \<longrightarrow> pr_koinos_tx r = tx)"
proof -
  from assms obtain post hash where given: "non_empty (cp_post (sp_base record)) = Some post" "non_empty (sp_content_hash record) = Some hash"
    by (auto simp: recordCrossPostProof_def split: option.splits)
  have sides: "sp_koinos record = Side_ok" "sp_host record = Side_ok \<or> sp_host record = Side_failed"
    using assms given by (auto simp: recordCrossPostProof_def split: if_splits)
  obtain found where f: "non_empty found = Some (pr_koinos_tx r)" "\<forall>tx. cp_tx (sp_base record) = Some tx \<longrightarrow> found = Some tx"
    and o1: "pr_outcome r = (if sp_host record = Side_failed then OUTCOME_PARTIAL else OUTCOME_SUCCEEDED)"
    using assms given sides by (cases "cp_tx (sp_base record)") (auto simp: recordCrossPostProof_def Let_def split: option.splits)
  have "\<forall>tx. cp_tx (sp_base record) = Some tx \<longrightarrow> pr_koinos_tx r = tx" using f by (auto simp: non_empty_def split: if_splits)
  with sides o1 show ?thesis by auto
qed

section \<open>Authorizing the device\<close>

definition DEVICE_EXPIRY_MS :: int where "DEVICE_EXPIRY_MS = 30 * 24 * 60 * 60 * 1000"

definition submitPaymentOptions :: "payment_preference \<Rightarrow> sponsor_choice \<times> bool" where
  "submitPaymentOptions payment = (case payment of Self_only \<Rightarrow> (Self_pay, True) | Sponsor_only \<Rightarrow> (Client_default, False)
     | Sponsor_then_self \<Rightarrow> (Client_default, True))"

record device_info =
  dn_expires_at :: ustring
  dn_authorized_at :: int
  dn_tx :: ustring
  dn_registered :: bool

record 'w device_deps =
  dd_reads :: "'w chain_reads"
  dd_account :: ustring
  dd_register :: "('w, json) io"
  dd_authorize :: "ustring \<Rightarrow> ('w, json) io"
  dd_now :: "'w \<Rightarrow> int"

definition authorizeDevice :: "'w device_deps \<Rightarrow> 'w payment_context \<Rightarrow> ('w, device_info) calling" where
  "authorizeDevice dd ctx =
     (case pc_owner ctx of
        None \<Rightarrow> give_up Other_error
      | Some owner \<Rightarrow>
          and_then (outside (rd_identity (dd_reads dd) (dd_account dd))) (\<lambda>identity.
          and_then (if identity = None then and_then (outside (dd_register dd)) (\<lambda>op. give [op]) else give []) (\<lambda>first s.
            let expiresAt = int_text (dd_now dd (cw_world s) + DEVICE_EXPIRY_MS); (choice, fallback) = submitPaymentOptions (pc_payment ctx)
            in and_then (outside (dd_authorize dd expiresAt)) (\<lambda>op.
               and_then (submit (pc_client ctx) owner (first @ [op]) choice fallback None) (\<lambda>r s.
               give \<lparr>dn_expires_at = expiresAt, dn_authorized_at = dd_now dd (cw_world s),
                 dn_tx = (case str_of (attr (Some (su_transaction r)) ''id'') of Some t \<Rightarrow> t | None \<Rightarrow> []),
                 dn_registered = (identity = None)\<rparr> s)) s)))"

end
