(* ===== verification/Sponsor_Routes.thy ===== *)
theory Sponsor_Routes
  imports Protocol_Client
begin

text \<open>
  The rest of the sponsor service (\<open>apps/sponsor/src/server.ts\<close>): its states, the discovery document, the
  preparation of transactions and the answers to errors. The deployment is the part of the manifest that the
  document repeats; the texts of messages are left out.
\<close>

section \<open>The service\<close>

record policy_limits =
  pl_version :: int
  pl_bytes :: int
  pl_rc :: ustring
  pl_ops :: int
  pl_daily :: int
  pl_burst_ops :: int
  pl_burst_window :: int

record deployment_info =
  di_network :: ustring
  di_chain :: ustring
  di_rpc :: "ustring list"
  di_protocol :: int
  di_addresses :: json

record 'o sponsor_routes =
  sr_service :: "'o sponsor_service"
  sr_client :: "'o protocol_client"
  sr_limits :: policy_limits
  sr_deployment :: deployment_info
  sr_endpoint :: ustring
  sr_version :: ustring
  sr_sign_hash :: "bytes \<Rightarrow> ('o, bytes) io" \<comment> \<open>\<open>signer.signHash\<close>\<close>
  sr_base64url :: "bytes \<Rightarrow> ustring"
  sr_codec :: client_codec

text \<open>The state from what the service was started with: a deployment, an error parsing it, a key.\<close>

definition state_of :: "bool \<Rightarrow> bool \<Rightarrow> bool \<Rightarrow> service_state" where
  "state_of has_deployment deployment_error has_key =
     (if \<not> has_deployment then if deployment_error then Invalid_deployment else Not_deployed
      else if \<not> has_key then No_key else Serving)"

section \<open>Discovery\<close>

text \<open>\<open>toDiscovery\<close>: the addresses in the order of the entries, each with its entry points and methods sorted.\<close>

definition allowed_addresses :: "allowed_method list \<Rightarrow> ustring list" where
  "allowed_addresses es = rev (remdups (rev (map am_address (allowlist_entries es))))"

definition entry_points :: "allowed_method list \<Rightarrow> ustring \<Rightarrow> int list" where
  "entry_points es address = sort (remdups (map am_entry (filter (\<lambda>e. am_address e = address) (allowlist_entries es))))"

definition toDiscovery :: "allowed_method list \<Rightarrow> json" where
  "toDiscovery es = J_arr (map (\<lambda>address. J_obj
     [(''contract'', J_str address), (''entryPoints'', J_arr (map J_int (entry_points es address))),
      (''methods'', J_arr (map (\<lambda>m. J_str (utf16 m))
         (sort (map (\<lambda>entry. am_method (the (lookup_allowed es address entry))) (entry_points es address)))))]) (allowed_addresses es))"

definition discoveryPolicy :: "allowed_method list \<Rightarrow> policy_limits \<Rightarrow> json" where
  "discoveryPolicy es l = J_obj
     [(''version'', J_int (pl_version l)), (''allowed'', toDiscovery es), (''maxBytesPerOp'', J_int (pl_bytes l)),
      (''maxRcPerOp'', J_str (pl_rc l)), (''maxOpsPerTx'', J_int (pl_ops l)),
      (''perUser'', J_obj [(''dailyOps'', J_int (pl_daily l)), (''burstOps'', J_int (pl_burst_ops l)), (''burstWindowSec'', J_int (pl_burst_window l))])]"

definition discovery_document :: "'o sponsor_routes \<Rightarrow> (string \<times> json) list" where
  "discovery_document sr =
     (let ctx = sv_context (sr_service sr); di = sr_deployment sr
      in [(''version'', J_int 1), (''sponsor'', J_str (vc_sponsor ctx)),
          (''network'', J_obj [(''name'', J_str (di_network di)), (''chainId'', J_str (di_chain di)), (''rpc'', J_arr (map J_str (di_rpc di)))]),
          (''policy'', discoveryPolicy (vc_allowed ctx) (sr_limits sr)), (''endpoint'', J_str (sr_endpoint sr)),
          (''protocolVersion'', J_int (di_protocol di)), (''contracts'', di_addresses di),
          (''service'', J_obj [(''name'', J_str (utf16 ''@osp/sponsor'')), (''version'', J_str (sr_version sr))])])"

definition signSponsorDiscovery :: "client_codec \<Rightarrow> (bytes \<Rightarrow> ustring) \<Rightarrow> (bytes \<Rightarrow> ('o, bytes) io) \<Rightarrow> (string \<times> json) list \<Rightarrow> ('o, json) io" where
  "signSponsorDiscovery cc base64url sign_hash doc =
     io_let (sign_hash (sponsorDiscoveryHash cc doc)) (\<lambda>signature.
     io_return (J_obj (filter (\<lambda>(k, v). k \<noteq> ''signature'') doc @ [(''signature'', J_str (base64url signature))])))"

text \<open>The document, or the failure to sign it, is made once; \<open>made\<close> is what the service remembers.\<close>

definition discovery :: "'o sponsor_routes \<Rightarrow> json js option \<Rightarrow> 'o \<Rightarrow> json js checked \<times> json js option \<times> 'o" where
  "discovery sr made w =
     (if sv_state (sr_service sr) \<noteq> Serving then (Inl Temporarily_unavailable, made, w)
      else case made of
        Some doc \<Rightarrow> (Inr doc, made, w)
      | None \<Rightarrow> (case signSponsorDiscovery (sr_codec sr) (sr_base64url sr) (sr_sign_hash sr) (discovery_document sr) w of
                    (doc, w') \<Rightarrow> (Inr doc, Some doc, w')))"

section \<open>Preparing a transaction\<close>

definition call_document :: "call_json \<Rightarrow> json" where
  "call_document c = J_obj [(''call_contract'', J_obj [(''contract_id'', J_str (cj_contract c)), (''entry_point'', J_int (cj_entry c)),
     (''args'', J_str (cj_args c))])]"

definition stripWait :: "json \<Rightarrow> json" where
  "stripWait tx = J_obj (List.map_filter (\<lambda>k. map_option (Pair k) (attr (Some tx) k)) [''id'', ''header'', ''operations'', ''signatures''])"

text \<open>A refusal is counted in the usage table.\<close>

definition refused :: "'o sponsor_routes \<Rightarrow> refusal_category \<Rightarrow> 'o service_world \<Rightarrow> 'a checked \<times> 'o service_world" where
  "refused sr category w = (Inl category, snd (refuse (sr_service sr) category w))"

definition service_prepare :: "'o sponsor_routes \<Rightarrow> json option \<Rightarrow> json option \<Rightarrow> 'o service_world \<Rightarrow> json checked \<times> 'o service_world" where
  "service_prepare sr payee operations w =
     (let sv = sr_service sr; ctx = sv_context sv
      in if sv_state sv \<noteq> Serving then (Inl Temporarily_unavailable, w)
         else case str_of payee of
           None \<Rightarrow> refused sr Invalid_transaction w
         | Some p \<Rightarrow>
             if \<not> isAddress (vc_codec ctx) p \<or> p = vc_sponsor ctx then refused sr Invalid_transaction w
             else case validateOperations ctx operations p (sw_outside w) of
               (Inl category, o1) \<Rightarrow> refused sr category (w\<lparr>sw_outside := o1\<rparr>)
             | (Inr ops, o1) \<Rightarrow>
                 (case sv_account_rc sv o1 of
                    (Inl e, o2) \<Rightarrow> refused sr Temporarily_unavailable (w\<lparr>sw_outside := o2\<rparr>)
                  | (Inr available, o2) \<Rightarrow>
                      let rcLimit = min available (vc_max_rc ctx * int (length ops))
                      in case prepare (sr_client sr) (map (call_document \<circ> vo_operation) ops) p (Some (vc_sponsor ctx))
                                (Some (J_str (int_text rcLimit))) None \<lparr>cw_cache = Map.empty, cw_world = o2\<rparr> of
                           (Inl e, s) \<Rightarrow> refused sr Temporarily_unavailable (w\<lparr>sw_outside := cw_world s\<rparr>)
                         | (Inr tx, s) \<Rightarrow> (Inr (stripWait tx), w\<lparr>sw_outside := cw_world s\<rparr>)))"

section \<open>Answers to errors\<close>

definition categoryFor :: "int \<Rightarrow> refusal_category" where
  "categoryFor status =
     (if status = 413 then Too_large else if status = 429 then Quota_exceeded
      else if status \<ge> 500 then Temporarily_unavailable else Invalid_transaction)"

text \<open>An error of the service, or one of the web framework with the status it names.\<close>

datatype route_error = Refusal refusal_category | Framework_error "int option"

definition error_answer :: "route_error \<Rightarrow> int \<times> refusal_category" where
  "error_answer e = (case e of
       Refusal category \<Rightarrow> (int (STATUS_FOR_CATEGORY category), category)
     | Framework_error given \<Rightarrow>
         let status = (case given of Some s \<Rightarrow> if s \<ge> 400 then s else 500 | None \<Rightarrow> 500) in (status, categoryFor status))"

definition service_utilization :: "'o sponsor_routes \<Rightarrow> 'o service_world \<Rightarrow> day_utilization \<times> day_utilization" where
  "service_utilization sr w = utilization (sv_now (sr_service sr) (sw_outside w)) (sw_quota w)"

section \<open>The client understands the service\<close>

text \<open>What signing with the sponsor key does: recovery of a signature gives the sponsor's address.\<close>

definition signs_as :: "client_codec \<Rightarrow> (bytes \<Rightarrow> ustring) \<Rightarrow> (bytes \<Rightarrow> ('o, bytes) io) \<Rightarrow> ustring \<Rightarrow> bool" where
  "signs_as cc base64url sign_hash address \<longleftrightarrow> (\<forall>h w sig w'. sign_hash h w = (Inr sig, w') \<longrightarrow>
     decode_base64url (cc_codec cc) (base64url sig) = Inr sig \<and> cc_recover cc h sig = Inr address)"

lemma map_of_other: "k \<noteq> k' \<Longrightarrow> map_of (filter (\<lambda>(x, v). x \<noteq> k') ms) k = map_of ms k"
  by (induction ms) auto

lemma map_of_none: "map_of (filter (\<lambda>(x, v). x \<noteq> k) ms) k = None"
  by (induction ms) auto

lemma signed_discovery:
  assumes "signSponsorDiscovery cc base64url sign_hash doc w = (Inr j, w')" and "signs_as cc base64url sign_hash address"
    and "map_of doc ''sponsor'' = Some (J_str address)"
  shows "\<exists>ms. j = J_obj ms \<and> verifySponsorDiscovery cc ms \<and> (\<forall>k. k \<noteq> ''signature'' \<longrightarrow> map_of ms k = map_of doc k)"
proof -
  let ?ms = "filter (\<lambda>(k, v). k \<noteq> ''signature'') doc"
  from assms(1) obtain sig where sig: "sign_hash (sponsorDiscoveryHash cc doc) w = (Inr sig, w')"
    and j: "j = J_obj (?ms @ [(''signature'', J_str (base64url sig))])"
    by (auto simp: signSponsorDiscovery_def io_let_def split: prod.splits sum.splits)
  have same: "map_of (?ms @ [(''signature'', x)]) k = map_of doc k" if "k \<noteq> ''signature''" for k x
    using that by (simp add: map_add_def map_of_other split: option.split)
  have hash: "sponsorDiscoveryHash cc (?ms @ [(''signature'', x)]) = sponsorDiscoveryHash cc doc" for x
    by (simp add: sponsorDiscoveryHash_def)
  have "map_of (?ms @ [(''signature'', x)]) ''signature'' = Some x" for x by (simp add: map_of_none map_add_def)
  moreover have "decode_base64url (cc_codec cc) (base64url sig) = Inr sig" "cc_recover cc (sponsorDiscoveryHash cc doc) sig = Inr address"
    using assms(2) sig by (auto simp: signs_as_def)
  ultimately have "verifySponsorDiscovery cc (?ms @ [(''signature'', J_str (base64url sig))])"
    using assms(3) by (simp add: verifySponsorDiscovery_def same hash js_let_def del: map_of_append)
  with same show ?thesis unfolding j by blast
qed

text \<open>
  The discovery document that the service publishes is one that every client of its chain accepts: it is
  signed by the sponsor it names, and it names the chain of the deployment.
\<close>

theorem discovery_accepted:
  assumes "discovery sr None w = (Inr (Inr doc), made, w')"
    and "signs_as (sr_codec sr) (sr_base64url sr) (sr_sign_hash sr) (vc_sponsor (sv_context (sr_service sr)))"
  shows "check_discovery (sr_codec sr) \<lparr>sn_endpoint = sr_endpoint sr, sn_expected_chain = Some (di_chain (sr_deployment sr))\<rparr> (Some doc) = Inr doc"
proof -
  let ?address = "vc_sponsor (sv_context (sr_service sr))"
  from assms(1) have sign: "signSponsorDiscovery (sr_codec sr) (sr_base64url sr) (sr_sign_hash sr) (discovery_document sr) w = (Inr doc, w')"
    by (auto simp: discovery_def split: prod.splits if_splits)
  have named: "map_of (discovery_document sr) ''sponsor'' = Some (J_str ?address)"
    "attr (map_of (discovery_document sr) ''network'') ''chainId'' = Some (J_str (di_chain (sr_deployment sr)))"
    by (simp_all add: discovery_document_def Let_def attr_def)
  from signed_discovery [OF sign assms(2) named(1)] named show ?thesis
    by (auto simp: check_discovery_def str_of_def)
qed

text \<open>A client sees the category of a refusal that it gets from the service.\<close>

lemma category_read: "category_of (Some (J_str (utf16 (category_key c)))) = Some c"
  by (cases c) (simp_all add: category_of_def category_key_def utf16_def)

lemma refusal_understood:
  "read_response \<lparr>hp_status = STATUS_FOR_CATEGORY c, hp_body = Json_body (J_obj [(''error'', J_obj ((''category'', J_str (utf16 (category_key c))) # rest))])\<rparr> =
     Inl (Sponsor_error c)"
  by (cases c) (simp_all add: read_response_def category_read STATUS_FOR_CATEGORY_def attr_def)

section \<open>A prepared transaction can be sponsored\<close>

text \<open>
  \<open>Transaction.prepareTransaction\<close> keeps what the header says and the operations, and adds a nonce, the Merkle root of the
  operations and the id, which are the ones that \<open>koilib\<close> recomputes from the result.
\<close>

definition prepares :: "'v validation_context \<Rightarrow> 'o rpc_node \<Rightarrow> bool" where
  "prepares ctx node \<longleftrightarrow> (\<forall>header operations payer w tx w'. rn_prepare node (J_obj header) operations payer w = (Inr tx, w') \<longrightarrow>
     map_of header ''nonce'' = None \<and> map_of header ''operation_merkle_root'' = None \<longrightarrow>
     (\<exists>ms hd nonce root t. tx = J_obj ms \<and> map_of ms ''header'' = Some (J_obj hd) \<and> map_of ms ''operations'' = Some (J_arr operations) \<and>
        map_of ms ''id'' = Some (J_str t) \<and> (\<forall>k v. map_of header k = Some v \<longrightarrow> map_of hd k = Some v) \<and>
        map_of hd ''nonce'' = Some (J_str nonce) \<and> nonce \<noteq> [] \<and> map_of hd ''operation_merkle_root'' = Some (J_str root) \<and> root \<noteq> [] \<and>
        (\<forall>ch calls. operations = map call_document calls \<longrightarrow> map_of hd ''chain_id'' = Some (J_str (ch_chain ch)) \<longrightarrow>
           map_of hd ''rc_limit'' = Some (ch_rc ch) \<longrightarrow> ch_nonce ch = nonce \<longrightarrow> ch_merkle ch = root \<longrightarrow>
           map_of hd ''payer'' = Some (J_str (ch_payer ch)) \<longrightarrow> map_of hd ''payee'' = Some (J_str (ch_payee ch)) \<longrightarrow>
           vc_merkle ctx ch calls = Inr (Some root) \<and> vc_tx_id ctx ch = Inr t)))"

text \<open>The transaction with the payee's signature.\<close>

definition signed_with :: "ustring \<Rightarrow> json \<Rightarrow> json" where
  "signed_with sig tx = (case tx of J_obj ms \<Rightarrow> J_obj (filter (\<lambda>(k, v). k \<noteq> ''signatures'') ms @ [(''signatures'', J_arr [J_str sig])]) | _ \<Rightarrow> tx)"

text \<open>An inspected operation, written out again, is inspected the same way.\<close>

lemma call_document_inspected:
  assumes "inspect_one ctx payee i raw = Inr (op, pending)"
  shows "inspect_one ctx payee i (call_document (vo_operation op)) = Inr (op, pending)"
proof -
  from assms obtain call where call: "inspect_call ctx payee i call = Inr (op, pending)"
    by (auto simp: inspect_one_def split: json.splits list.splits)
  have str: "str_of (Some (J_str t)) = Some t" "int_of (Some (J_int n)) = Some n" for t n by (simp_all add: str_of_def int_of_def)
  have args: "argsLength cd (Some (J_str (case str_of v of None \<Rightarrow> [] | Some s \<Rightarrow> s))) = argsLength cd v" if "argsLength cd v = Inr n" for cd v n
    using that by (cases v) (auto simp: argsLength_def str_of_def split: json.splits)
  from call obtain target entry allowed bytes decoded actor where t: "str_of (map_of call ''contract_id'') = Some target"
      "isAddress (vc_codec ctx) target" "int_of (map_of call ''entry_point'') = Some entry" "0 \<le> entry"
      "lookup_allowed (vc_allowed ctx) target entry = Some allowed" "\<not> bytes > vc_max_bytes ctx"
    and bytes: "argsLength (vc_codec ctx) (map_of call ''args'') = Inr bytes"
    and d: "vc_decode ctx \<lparr>cj_contract = target, cj_entry = entry, cj_args = (case str_of (map_of call ''args'') of None \<Rightarrow> [] | Some s \<Rightarrow> s)\<rparr> = Some decoded"
      "do_method decoded = am_method allowed" "do_contract decoded = am_contract allowed" "bind_actor ctx payee i decoded = Inr (actor, pending)"
    and op: "op = \<lparr>vo_index = i, vo_contract = do_contract decoded, vo_method = do_method decoded, vo_entry = do_entry decoded,
       vo_contract_id = target, vo_bytes = bytes, vo_actor = actor,
       vo_operation = \<lparr>cj_contract = target, cj_entry = entry, cj_args = (case str_of (map_of call ''args'') of None \<Rightarrow> [] | Some s \<Rightarrow> s)\<rparr>\<rparr>"
    by (auto simp: inspect_call_def Let_def split: option.splits)
  have "inspect_call ctx payee i [(''contract_id'', J_str target), (''entry_point'', J_int entry),
     (''args'', J_str (case str_of (map_of call ''args'') of None \<Rightarrow> [] | Some s \<Rightarrow> s))] = Inr (op, pending)"
    using t d bytes by (simp add: inspect_call_def Let_def str args [OF bytes] op)
  then show ?thesis by (simp add: inspect_one_def call_document_def op)
qed

lemma call_documents_inspected:
  "inspect_loop ctx payee i raws = Inr (ops, checks) \<Longrightarrow> inspect_loop ctx payee i (map (call_document \<circ> vo_operation) ops) = Inr (ops, checks)"
  by (induction raws arbitrary: i ops checks) (auto simp: call_document_inspected)

lemma inspected_length: "inspect_loop ctx payee i raws = Inr (ops, checks) \<Longrightarrow> length ops = length raws"
  by (induction raws arbitrary: i ops checks) auto

lemma strip_lookup: "map_of (List.map_filter (\<lambda>k. map_option (Pair k) (f k)) ks) k = (if k \<in> set ks then f k else None)"
  by (induction ks) (auto simp: List.map_filter_simps split: option.split)

lemma signed_lookup:
  assumes "tx = J_obj ms"
  shows "\<exists>ns. signed_with sig (stripWait tx) = J_obj ns \<and> map_of ns ''signatures'' = Some (J_arr [J_str sig]) \<and>
    (\<forall>k \<in> {''id'', ''header'', ''operations''}. map_of ns k = map_of ms k)"
  by (auto simp: signed_with_def stripWait_def map_add_def map_of_none map_of_other strip_lookup attr_def assms split: option.split)

lemma limit_text: "validatedRcLimit (J_str (int_text n)) payer = Inr limit \<Longrightarrow> limit = int_text n \<and> 0 < n"
proof -
  assume v: "validatedRcLimit (J_str (int_text n)) payer = Inr limit"
  have pos: "0 \<le> n" using v nat_text_digits by (auto simp: validatedRcLimit_def int_text_def is_digit_def split: if_splits)
  then have "list_all is_digit (int_text n) \<and> digits_value (int_text n) = n \<and> int_text n \<noteq> []"
    using nat_text_digits [of "nat n"] by (simp add: int_text_def)
  with v pos show ?thesis by (auto simp: validatedRcLimit_def Let_def order_le_less split: if_splits)
qed

lemma valid_limit: "0 < n \<Longrightarrow> n \<le> MAX_U64 \<Longrightarrow> validatedRcLimit (J_str (int_text n)) payer = Inr (int_text n)"
  using nat_text_digits [of "nat n"] by (simp add: validatedRcLimit_def int_text_def)

lemma parse_limit: "0 < n \<Longrightarrow> parseRcLimit (Some (J_str (int_text n))) = Inr n"
  using nat_text_digits [of "nat n"] by (simp add: parseRcLimit_def int_text_def)

text \<open>What the service asked the client to prepare.\<close>

lemma service_prepare_Inr:
  assumes "service_prepare sr (Some (J_str p)) operations w = (Inr out, w1)" and "ctx = sv_context (sr_service sr)"
  obtains ops o1 tx n o2 w2 where "validateOperations ctx operations p (sw_outside w) = (Inr ops, o1)" and "out = stripWait tx"
    and "isAddress (vc_codec ctx) p" and "p \<noteq> vc_sponsor ctx" and "0 < n" and "n \<le> vc_max_rc ctx * int (length ops)"
    and "rn_prepare (cl_node (sr_client sr)) (J_obj [(''chain_id'', J_str (cl_chain (sr_client sr))), (''payer'', J_str (vc_sponsor ctx)),
        (''payee'', J_str p), (''rc_limit'', J_str (int_text n))]) (map (call_document \<circ> vo_operation) ops) (vc_sponsor ctx) o2 = (Inr tx, w2)"
proof -
  from assms obtain ops o1 available o2 tx s where v: "validateOperations ctx operations p (sw_outside w) = (Inr ops, o1)"
    and p: "isAddress (vc_codec ctx) p" "p \<noteq> vc_sponsor ctx" and out: "out = stripWait tx"
    and prep: "prepare (sr_client sr) (map (call_document \<circ> vo_operation) ops) p (Some (vc_sponsor ctx))
        (Some (J_str (int_text (min available (vc_max_rc ctx * int (length ops)))))) None \<lparr>cw_cache = Map.empty, cw_world = o2\<rparr> = (Inr tx, s)"
    by (auto simp: service_prepare_def Let_def str_of_def refused_def split: prod.splits sum.splits if_splits)
  let ?n = "min available (vc_max_rc ctx * int (length ops))"
  from prep obtain limit where l: "validatedRcLimit (J_str (int_text ?n)) (vc_sponsor ctx) = Inr limit"
    by (auto simp: prepare_def Let_def split: if_splits sum.splits)
  note n = limit_text [OF l]
  have "\<exists>w2. rn_prepare (cl_node (sr_client sr)) (J_obj [(''chain_id'', J_str (cl_chain (sr_client sr))), (''payer'', J_str (vc_sponsor ctx)),
        (''payee'', J_str p), (''rc_limit'', J_str (int_text ?n))]) (map (call_document \<circ> vo_operation) ops) (vc_sponsor ctx) o2 = (Inr tx, w2)"
    using prep l n p(2) by (auto simp: prepare_def Let_def split: if_splits)
  then obtain w2 where r: "rn_prepare (cl_node (sr_client sr)) (J_obj [(''chain_id'', J_str (cl_chain (sr_client sr))), (''payer'', J_str (vc_sponsor ctx)),
        (''payee'', J_str p), (''rc_limit'', J_str (int_text ?n))]) (map (call_document \<circ> vo_operation) ops) (vc_sponsor ctx) o2 = (Inr tx, w2)" ..
  have "?n \<le> vc_max_rc ctx * int (length ops)" by simp
  with that [OF v out p _ _ r] n show thesis by blast
qed

text \<open>
  C19: The two halves of the sponsor's interface agree. When \<open>/v1/prepare\<close> answers with a transaction, then that
  transaction, signed by the payee, passes the validation of \<open>/v1/sponsor\<close> whenever its operations are
  still allowed for the payee, with the same operations.
\<close>

theorem prepared_is_sponsorable:
  assumes "service_prepare sr (Some (J_str p)) operations w = (Inr tx, w1)"
    and "ctx = sv_context (sr_service sr)" and "prepares ctx (cl_node (sr_client sr))" and "cl_chain (sr_client sr) = vc_chain ctx"
    and "\<forall>t. st_signatures t = [sig] \<longrightarrow> attr (Some tx) ''id'' = Some (J_str (st_id t)) \<longrightarrow> vc_recover ctx t = Inr [p]" and "sig \<noteq> []"
    and "validateOperations ctx operations p o2 = (Inr ops, o3)"
  shows "\<exists>vt. validateTransaction ctx (signed_with sig tx) o2 = (Inr vt, o3) \<and> vt_payee vt = p \<and> vt_operations vt = ops"
proof -
  obtain ops1 o1 prepared n ob w2 where v1: "validateOperations ctx operations p (sw_outside w) = (Inr ops1, o1)" and tx: "tx = stripWait prepared"
    and p: "isAddress (vc_codec ctx) p" "p \<noteq> vc_sponsor ctx" and n: "0 < n" "n \<le> vc_max_rc ctx * int (length ops1)"
    and prep: "rn_prepare (cl_node (sr_client sr)) (J_obj [(''chain_id'', J_str (cl_chain (sr_client sr))), (''payer'', J_str (vc_sponsor ctx)),
        (''payee'', J_str p), (''rc_limit'', J_str (int_text n))]) (map (call_document \<circ> vo_operation) ops1) (vc_sponsor ctx) ob = (Inr prepared, w2)"
    using service_prepare_Inr [OF assms(1,2)] by blast
  from v1 obtain raw checks where inspected: "inspectOperations ctx operations p = Inr (raw, checks)"
    and r1: "resolve_loop ctx p Map.empty checks raw (sw_outside w) = (Inr ops1, o1)"
    by (auto simp: validateOperations_def split: sum.splits)
  from assms(7) inspected have r2: "resolve_loop ctx p Map.empty checks raw o2 = (Inr ops, o3)" by (simp add: validateOperations_def)
  note calls = resolved_ok(4,5) [OF inspected r1]
  let ?docs = "map (call_document \<circ> vo_operation) raw" and ?calls = "map vo_operation raw"
  have docs: "map (call_document \<circ> vo_operation) ops1 = map call_document ?calls" using calls(1) by (metis map_map)
  have "map_of [(''chain_id'', J_str (cl_chain (sr_client sr))), (''payer'', J_str (vc_sponsor ctx)), (''payee'', J_str p),
      (''rc_limit'', J_str (int_text n))] k = None" if "k \<in> {''nonce'', ''operation_merkle_root''}" for k
    using that by auto
  then have "map_of [(''chain_id'', J_str (cl_chain (sr_client sr))), (''payer'', J_str (vc_sponsor ctx)), (''payee'', J_str p),
      (''rc_limit'', J_str (int_text n))] ''nonce'' = None \<and>
    map_of [(''chain_id'', J_str (cl_chain (sr_client sr))), (''payer'', J_str (vc_sponsor ctx)), (''payee'', J_str p),
      (''rc_limit'', J_str (int_text n))] ''operation_merkle_root'' = None" by blast
  from assms(3) [unfolded prepares_def, rule_format, OF prep this] obtain ms hd nonce root t where ms: "prepared = J_obj ms"
    and members: "map_of ms ''header'' = Some (J_obj hd)" "map_of ms ''operations'' = Some (J_arr (map call_document ?calls))"
      "map_of ms ''id'' = Some (J_str t)"
    and kept: "\<And>k v. map_of [(''chain_id'', J_str (cl_chain (sr_client sr))), (''payer'', J_str (vc_sponsor ctx)),
        (''payee'', J_str p), (''rc_limit'', J_str (int_text n))] k = Some v \<Longrightarrow> map_of hd k = Some v"
    and added: "map_of hd ''nonce'' = Some (J_str nonce)" "nonce \<noteq> []" "map_of hd ''operation_merkle_root'' = Some (J_str root)" "root \<noteq> []"
    and same: "\<And>ch. map_of hd ''chain_id'' = Some (J_str (ch_chain ch)) \<Longrightarrow> map_of hd ''rc_limit'' = Some (ch_rc ch) \<Longrightarrow> ch_nonce ch = nonce \<Longrightarrow>
        ch_merkle ch = root \<Longrightarrow> map_of hd ''payer'' = Some (J_str (ch_payer ch)) \<Longrightarrow> map_of hd ''payee'' = Some (J_str (ch_payee ch)) \<Longrightarrow>
        vc_merkle ctx ch ?calls = Inr (Some root) \<and> vc_tx_id ctx ch = Inr t"
    unfolding docs by blast
  have hd: "map_of hd ''chain_id'' = Some (J_str (vc_chain ctx))" "map_of hd ''payer'' = Some (J_str (vc_sponsor ctx))"
    "map_of hd ''payee'' = Some (J_str p)" "map_of hd ''rc_limit'' = Some (J_str (int_text n))"
    using kept assms(4) by simp_all
  obtain ns where ns: "signed_with sig tx = J_obj ns" "map_of ns ''signatures'' = Some (J_arr [J_str sig])"
    "map_of ns ''header'' = Some (J_obj hd)" "map_of ns ''operations'' = Some (J_arr (map call_document ?calls))" "map_of ns ''id'' = Some (J_str t)"
    using signed_lookup [OF ms, of sig] members unfolding tx by auto
  let ?header = "\<lparr>ch_chain = vc_chain ctx, ch_rc = J_str (int_text n), ch_nonce = nonce, ch_merkle = root, ch_payer = vc_sponsor ctx, ch_payee = p\<rparr>"
  let ?t = "\<lparr>st_id = t, st_header = ?header, st_operations = ?calls, st_signatures = [sig]\<rparr>"
  have again: "inspectOperations ctx (Some (J_arr (map call_document ?calls))) p = Inr (raw, checks)"
    using inspected by (auto simp: inspectOperations_def call_documents_inspected dest: inspected_length split: option.splits json.splits)
  have "vc_recover ctx ?t = Inr [p]"
    using assms(5) members ms by (simp add: tx attr_def stripWait_def strip_lookup)
  moreover have "check_header ctx hd = Inr (p, nonce, root)"
    using hd added p by (simp add: check_header_def str_of_def text_of_def)
  moreover have "check_identity ctx ?header ?calls (Some (J_str t)) = Inr t"
    using same [of ?header] hd by (simp add: check_identity_def)
  ultimately have "check_transaction ctx ns = Inr (?t, p, raw, checks, [p])"
    using ns(2-) again n parse_limit [OF n(1)] hd(4) calls(2) p(2) assms(6)
    by (simp add: check_transaction_def Let_def check_signatures_def MAX_SIGNATURES_def)
  with r2 show ?thesis by (auto simp: validateTransaction_def ns(1))
qed

section \<open>The properties at concrete inputs\<close>

definition demo_preparer :: "nat rpc_node" where
  "demo_preparer = \<lparr>rn_account_rc = (\<lambda>_ w. (Inr (J_int 10), w)),
     rn_prepare = (\<lambda>header operations _ w. (case header of
        J_obj hs \<Rightarrow> (Inr (J_obj [(''id'', J_str [73]), (''header'', J_obj (hs @ [(''nonce'', J_str [49]), (''operation_merkle_root'', J_str [77])])),
          (''operations'', J_arr operations)]), w)
      | _ \<Rightarrow> (Inl (Thrown []), w))),
     rn_send = (\<lambda>tx _ w. (Inr (tx, J_obj []), w))\<rparr>"

definition demo_key_codec :: client_codec where
  "demo_key_codec = \<lparr>cc_codec = vc_codec demo_context, cc_recover = (\<lambda>h sig. Inr (demo_address [83])), cc_tx_id = (\<lambda>h ops. Inr (Some [73]))\<rparr>"

definition demo_routes :: "nat sponsor_routes" where
  "demo_routes = \<lparr>sr_service = demo_service,
     sr_client = \<lparr>cl_chain = [67], cl_node = demo_preparer, cl_codec = demo_key_codec, cl_fetch = (\<lambda>_ _ _ w. (Inl (), w)), cl_sponsors = []\<rparr>,
     sr_limits = \<lparr>pl_version = 1, pl_bytes = 10, pl_rc = utf16 ''100'', pl_ops = 2, pl_daily = 50, pl_burst_ops = 10, pl_burst_window = 60\<rparr>,
     sr_deployment = \<lparr>di_network = utf16 ''testnet'', di_chain = [67], di_rpc = [], di_protocol = 1, di_addresses = J_obj []\<rparr>,
     sr_endpoint = utf16 ''https://sponsor.example'', sr_version = utf16 ''0.1.0'', sr_sign_hash = (\<lambda>h w. (Inr h, w)), sr_base64url = map ucast,
     sr_codec = demo_key_codec\<rparr>"

lemma demo_parts [simp]:
  "sr_service demo_routes = demo_service" "sv_context demo_service = demo_context" "sv_state demo_service = Serving"
  "vc_sponsor demo_context = demo_address [83]" "cl_node (sr_client demo_routes) = demo_preparer" "cl_chain (sr_client demo_routes) = [67]"
  "vc_chain demo_context = [67]" "vc_max_rc demo_context = 100" "sv_account_rc demo_service w = (Inr 10, w)"
  "isAddress (vc_codec demo_context) (demo_address [65])" "vc_recover demo_context t = Inr [demo_address [65]]"
  by (simp_all add: demo_routes_def demo_service_def demo_context_def isAddress_def LIMIT_addressBytes_def)

lemma demo_allowed:
  "validateOperations demo_context (Some demo_operations) (demo_address [65]) 0 = (Inr [demo_validated\<lparr>vo_actor := Some (demo_address [82])\<rparr>], 1)"
  by (simp add: validateOperations_def demo_inspected demo_resolved del: resolve_loop.simps)

lemma demo_prepares: "prepares demo_context demo_preparer"
  by (auto simp: prepares_def demo_preparer_def demo_context_def map_add_def split: json.splits option.splits)

theorem discovery_accepted_witness:
  "\<exists>doc made. discovery demo_routes None 0 = (Inr (Inr doc), made, 0) \<and>
     check_discovery demo_key_codec \<lparr>sn_endpoint = utf16 ''https://sponsor.example'', sn_expected_chain = Some [67]\<rparr> (Some doc) = Inr doc"
proof -
  obtain doc made where d: "discovery demo_routes None 0 = (Inr (Inr doc), made, 0)"
    by (simp add: discovery_def signSponsorDiscovery_def io_let_def) (simp add: demo_routes_def)
  have ucast: "map ucast (map ucast b :: u16 list) = (b :: bytes)" for b
  proof -
    have "ucast (ucast x :: u16) = (x :: 8 word)" for x by (rule bit_word_eqI) (auto simp: bit_unsigned_iff)
    then show ?thesis by (induction b) simp_all
  qed
  have signs: "signs_as (sr_codec demo_routes) (sr_base64url demo_routes) (sr_sign_hash demo_routes) (vc_sponsor (sv_context (sr_service demo_routes)))"
    using ucast by (simp add: signs_as_def demo_routes_def demo_key_codec_def demo_context_def comp_def)
  from discovery_accepted [OF d signs] d show ?thesis by (auto simp: demo_routes_def)
qed

theorem prepared_is_sponsorable_witness:
  "\<exists>tx w1 vt. service_prepare demo_routes (Some (J_str (demo_address [65]))) (Some demo_operations) demo_world = (Inr tx, w1) \<and>
     validateTransaction demo_context (signed_with [88] tx) 0 = (Inr vt, 1) \<and> vt_payee vt = demo_address [65]"
proof -
  have "\<exists>tx w1. service_prepare demo_routes (Some (J_str (demo_address [65]))) (Some demo_operations) demo_world = (Inr tx, w1)"
    by (simp add: service_prepare_def str_of_def demo_world_def demo_allowed prepare_def Let_def valid_limit MAX_U64_def)
      (simp add: and_then_def demo_preparer_def outside_def valid_limit MAX_U64_def)
  then obtain tx w1 where t: "service_prepare demo_routes (Some (J_str (demo_address [65]))) (Some demo_operations) demo_world = (Inr tx, w1)" by blast
  have "\<exists>vt. validateTransaction demo_context (signed_with [88] tx) 0 = (Inr vt, 1) \<and> vt_payee vt = demo_address [65] \<and>
      vt_operations vt = [demo_validated\<lparr>vo_actor := Some (demo_address [82])\<rparr>]"
    by (rule prepared_is_sponsorable [OF t _ _ _ _ _ demo_allowed]) (simp_all add: demo_prepares)
  with t show ?thesis by blast
qed

end
