(* ===== verification/Divergences.thy ===== *)
theory Divergences
  imports Token Indexed
begin

text \<open>
  Concrete runs on which the code does something its documentation or another part of it does not
  expect. The other such runs stand with the components they are about.
\<close>

section \<open>Regeneration of credits\<close>

text \<open>
  The credits of a touch are rounded down and its time is stored: an account that is touched often
  regenerates less than one that is left alone, here nothing at all in five touches over 400 seconds.
\<close>

theorem frequent_touches_starve:
  "let a = \<lparr>balance = 1, free_credits = FREE, token_credits = 0, acc_updated_at = 0\<rparr>
   in token_credits (fold regenerate [80000, 160000, 240000, 320000, 400000] a) = 0 \<and> token_credits (regenerate 400000 a) = 4"
  by (simp add: regenerate_def FREE_def DAY_def PER_TOKEN_def Let_def min_def)

section \<open>Superseded registry entries\<close>

definition demo_registry_event :: "string \<Rightarrow> u16 \<Rightarrow> int \<Rightarrow> nat \<Rightarrow> log_event" where
  "demo_registry_event name address v i = \<lparr>le_height = 1, le_block_id = [], le_block_time = utf16 ''9'', le_tx = i, le_seq = 0, le_tx_id = [],
     le_contract = ''registry'', le_name = name,
     le_data = [(''name'', P_str (utf16 ''token'')), (''address'', P_str [address]), (''version'', P_num v)], le_impacted = []\<rparr>"

text \<open>
  An upgrade replaces the active entry of a name on chain and emits one event, for the new entry. The
  index keys entries by name, address and version, so the replaced one stays in it as active.
\<close>

theorem superseded_entry_still_active:
  "\<exists>db. apply_all demo_codec [demo_registry_event ''osp.registry.contract_activated'' 65 1 0,
       demo_registry_event ''osp.registry.contract_proposed'' 66 2 1,
       demo_registry_event ''osp.registry.contract_activated'' 66 2 2] no_tables = Some db \<and>
     map_option er_status (t_registry db (utf16 ''token'', [65], 1)) = Some 1 \<and>
     map_option er_status (t_registry db (utf16 ''token'', [66], 2)) = Some 1"
  by (simp add: demo_registry_event_def applyEvent_def applyRegistry_def upsert_entry_def num_def str_def no_tables_def Let_def)

end
