(* ===== verification/Spec2Isabelle.thy ===== *)
theory Spec2Isabelle
  imports Protocol Registry Sponsorship Identifiers Exactly_Once Protocol_Client
    Mirror_Relationships Mirror_Communities Mirror_Sponsorship Sync_Progress Table_Types State_Hash
    Cross_Queue Ext_Proofs Sponsor_Routes Divergences
begin

text \<open>
  A verification library for the Open Social Protocol: smart contracts for a social network on Koinos,
  the TypeScript SDK that clients build transactions with, an indexer that turns the events of the
  contracts into query tables, a service that sponsors transactions, and a browser extension that posts
  to the protocol and to a host site at the same time.

  \<^bold>\<open>How the parts interact.\<close> A client builds operations with the SDK, has the user sign them, and sends
  them either itself or through a sponsor, which validates and pays for them. The chain runs a transaction:
  each operation calls an entry point of a contract, a contract may call another (every action of an
  account asks the identity contract which device may act, social actions ask the relationships
  contract about blocks and the token contract for action credits), a revert undoes the whole
  transaction, and successful operations emit events. The indexer follows the chain block by block, keeps a
  log of the events, projects them into tables, and rolls back when the chain forks. A client that lost
  an answer asks chain and indexer, under the idempotency key of its attempt, what happened.

  \<^bold>\<open>Contracts\<close> (\<open>packages/contracts/*/assembly\<close>). One theory per contract: its objects as records, its storage
  as maps from the storage keys, one definition per entry point returning \<open>revert + state * result\<close>
  with the events it emits, in the order of the source.
    \<^item> \<open>OSP_Prelude\<close>: machine words, the result type, sequencing (\<open>require\<close>, \<open>attempt\<close>), atomic histories
      of transactions (\<open>run\<close>), and the locales \<open>kept_invariant\<close> and \<open>kept_relation\<close> for what every transaction keeps.
    \<^item> \<open>Chain\<close>: what a contract sees of the host (a record \<open>env\<close>: time, caller, signatures, hash, calls to
      other contracts) and the helpers of \<open>common/assembly/util.ts\<close>. \<open>Actor\<close>: \<open>common/assembly/actor.ts\<close>, with the
      locale of what clients rely on in the resolver of the identity contract.
    \<^item> \<open>Identity\<close>, \<open>Registry\<close>, \<open>Relationships\<close>, \<open>Publications\<close>, \<open>Communities\<close>, \<open>Token\<close>, \<open>Messaging\<close>, \<open>Sponsorship\<close>: the contracts of
      the same names. Each theory proves that its well-formedness invariant survives every
      transaction, and then the promises of the contract over whole histories, by induction over
      transactions: guardian thresholds and delays, permanence and authorship of posts, consent for
      friendships and conversations, severed relations of blocked accounts, exact accounting of credits and supply.
    \<^item> \<open>Timelock\<close>: the locale of a value that changes only after a deadline announced before; interpreted for owners,
      policies, registry entries, registry admins and community owners. \<open>Devices\<close>: device authority over histories.
    \<^item> \<open>Protocol\<close>: the six contracts that call each other in one \<open>world\<close>; the host answers of each contract are the entry
      points of the others. Here stand the theorems that cross contracts: well-formedness of the world,
      blocks enforced by every call that asks for one, authority traced to the owner, who pays what.

  \<^bold>\<open>SDK\<close> (\<open>packages/sdk/src\<close>).
    \<^item> \<open>Js\<close>: strings as UTF-16 code units, thrown errors as values, \<open>await\<close> as a state-passing computation over the world
      outside, which may change or throw. \<open>Encoding\<close>: \<open>encoding.ts\<close>, \<open>constants.ts\<close>, \<open>ids\<close>. \<open>Json\<close>, \<open>Json_Text\<close>, \<open>Json_Injective\<close>:
      JSON texts, canonical JSON, reading back what was written, and that canonical bytes determine the value.
    \<^item> \<open>Identifiers\<close>: the identifiers of the SDK against those the contracts compute.
    \<^item> \<open>Reconcile\<close>: \<open>reconcile.ts\<close>, the state machine of a cross-post and the Reconciler. \<open>Exactly_Once\<close>: the Reconciler over the
      publications contract. 
    \<^item> \<open>Sponsor_Client\<close>, \<open>Protocol_Client\<close>: \<open>sponsor.ts\<close> and \<open>client/protocolClient.ts\<close>, with the locale of an invariant
      of the world that the calls of a client keep. \<open>Manifest\<close>: \<open>manifest.ts\<close>, signed proofs of cross-posts.

  \<^bold>\<open>Sponsor service\<close> (\<open>apps/sponsor/src\<close>). \<open>Quota\<close>: reservations and limits (\<open>quota.ts\<close>). \<open>Sponsor_Policy\<close>: \<open>policy.ts\<close> and
  \<open>validate.ts\<close>. \<open>Sponsor_Service\<close>: the handlers of \<open>server.ts\<close> that reserve, broadcast and settle, with other requests
  interleaved at every \<open>await\<close>. \<open>Sponsor_Routes\<close>: discovery, preparation and error answers, and that the client
  and the two halves of the service agree.

  \<^bold>\<open>Indexer\<close> (\<open>apps/indexer/src\<close>). \<open>Index_Tables\<close> (\<open>db.ts\<close>) and \<open>Projections\<close> (\<open>projections.ts\<close>): tables as maps from their primary
  keys, one definition per projection. \<open>Event_Log\<close>: decoding, the log, \<open>applyBlock\<close>, replay and rollback. \<open>State_Hash\<close>: what the
  state hash commits to. \<open>Syncer\<close> and \<open>Sync_Progress\<close>: the loop of \<open>sync.ts\<close> over a node that may answer anything
  (safety) and over a node that serves one chain (progress). \<open>Table_Types\<close>: rows are well typed whatever was logged.
  \<open>Indexed\<close>: the locale that relates a contract to the projection of its events; interpreted in \<open>Mirror_Relationships\<close>,
  \<open>Mirror_Communities\<close> and \<open>Mirror_Sponsorship\<close>, which compare the tables with the state of the contract after any history.

  \<^bold>\<open>Extension\<close> (\<open>apps/extension/src\<close>). \<open>Cross_Post\<close>: the queue of \<open>background/crosspost.ts\<close> with the actions of
  \<open>shared/queue.ts\<close> and the error classes of \<open>background/publish.ts\<close>. Its state keeps all versions of the stored file, since the
  browser may stop the extension after any write. \<open>Cross_Rules\<close>, \<open>Cross_Safety\<close>: what every write
  keeps. \<open>Cross_Publish\<close>, \<open>Cross_Queue\<close>: what is published, and when. \<open>Ext_Publish\<close>,
  \<open>Ext_Proofs\<close>: \<open>background/publish.ts\<close>, who pays, whom a friends key is sealed to, the publication, the status of the device against
  the verdict of the identity contract, and proofs.

  \<open>Divergences\<close> and the last sections of some theories hold concrete runs where code and
  documentation, or two parts of the code, disagree.

  \<^bold>\<open>Parameters.\<close> What is not in the repository is an argument: the Koinos host (\<open>env\<close>), SHA-256,
  Base58 and Base64 (\<open>codec\<close>, \<open>index_codec\<close>), protobuf descriptors (\<open>event_source\<close>), the RPC node (\<open>provider\<close>, \<open>rpc_node\<close>),
  HTTP and the user's signer (\<open>client_codec\<close>, \<open>user_signer\<close>), contract interfaces, and what the queue calls (\<open>queue_deps\<close>).
  Hypotheses about them are named in the theorems that need them, and each such theorem has an instance.

  \<^bold>\<open>Bounds and fuel.\<close> Machine integers keep their width; Token and the timers prove that the checked
  arithmetic does not wrap. The replay reads pages of 1000 rows as the source does, and its recursion ends because
  each page moves the position on. \<open>syncToHead\<close> takes the number of rounds the source takes; two rounds
  more than the chain has blocks are enough over a node that serves one chain.

  \<^bold>\<open>Not modelled.\<close> Generated code (the as-proto message classes, whose fields are records here, and the
  dispatchers), test harnesses, the cryptography of the SDK and what only composes it (envelopes, sealed keys, vault, key store,
  profiles), the typed wrappers of the contracts, SQL queries and HTTP routes
  of the indexer, process start and configuration, user interfaces (web application, side panel, content scripts), and scripts. The
  storage of browser, indexer and sponsor is a map that a write replaces.
\<close>

end
